(* ===== verification/SC_Prelude.thy ===== *)
theory SC_Prelude
  imports Main "HOL-Library.Word" "HOL-Library.Monad_Syntax"
begin

text \<open>
  Shared vocabulary of the development: bytes, little-endian integers, the wrap-around of the
  C++ fixed-width integers, and byte buffers whose accesses are checked. A read or a write
  outside a buffer is undefined behaviour in C++; here it is the value \<^term>\<open>None\<close>, so that
  memory safety of an operation is the statement that it never returns \<^term>\<open>None\<close>.
  The theory ends with the interface of a transition system with an invariant, which every
  stateful component instantiates.
\<close>

type_synonym byte = "8 word"
type_synonym bytes = "byte list"

named_theorems buf_simps "evaluation of checked buffer accesses"
named_theorems le_simps "little-endian encoding and decoding"

section \<open>Fixed-width integers\<close>

text \<open>
  Values of \<^verbatim>\<open>int32_t\<close>, \<^verbatim>\<open>int64_t\<close>, \<^verbatim>\<open>uint16_t\<close> and \<^verbatim>\<open>uint32_t\<close> are kept as
  \<^typ>\<open>int\<close> with the conversion to the width written where the source converts or where an
  operation can leave the range.
\<close>

definition i32 :: "int \<Rightarrow> int" where
  "i32 x = (x + 2147483648) mod 4294967296 - 2147483648"

definition i64 :: "int \<Rightarrow> int" where
  "i64 x = (x + 9223372036854775808) mod 18446744073709551616 - 9223372036854775808"

definition u16 :: "int \<Rightarrow> int" where
  "u16 x = x mod 65536"

definition u32 :: "int \<Rightarrow> int" where
  "u32 x = x mod 4294967296"

definition i32_range :: "int \<Rightarrow> bool" where
  "i32_range x \<longleftrightarrow> -2147483648 \<le> x \<and> x < 2147483648"

definition i64_range :: "int \<Rightarrow> bool" where
  "i64_range x \<longleftrightarrow> -9223372036854775808 \<le> x \<and> x < 9223372036854775808"

lemma i32_id: "i32_range x \<Longrightarrow> i32 x = x"
  by (simp add: i32_def i32_range_def)

lemma i32_in_range: "i32_range (i32 x)"
proof -
  have "0 \<le> (x + 2147483648) mod 4294967296" "(x + 2147483648) mod 4294967296 < 4294967296"
    by simp_all
  then show ?thesis by (simp add: i32_def i32_range_def)
qed

lemma i32_mod: "i32 (x mod 4294967296) = i32 x"
  by (simp add: i32_def mod_simps)

lemma i64_id: "i64_range x \<Longrightarrow> i64 x = x"
  by (simp add: i64_def i64_range_def)

lemma i64_mod: "i64 (x mod 18446744073709551616) = i64 x"
  by (simp add: i64_def mod_simps)

lemma u16_id: "0 \<le> x \<Longrightarrow> x < 65536 \<Longrightarrow> u16 x = x"
  by (simp add: u16_def)

lemma u32_id: "0 \<le> x \<Longrightarrow> x < 4294967296 \<Longrightarrow> u32 x = x"
  by (simp add: u32_def)

lemma and_mask: "and z (2 ^ n - 1) = z mod (2 ^ n :: int)"
  by (simp add: take_bit_eq_mod [symmetric] take_bit_eq_mask mask_eq_exp_minus_1)

lemma or_push_bit:
  assumes "0 \<le> x" "x < 2 ^ n"
  shows "or x (push_bit n y) = x + 2 ^ n * (y :: int)"
proof -
  have "take_bit n x = x" using assms by (simp add: take_bit_int_eq_self)
  then have "\<not> bit x i \<or> \<not> bit (push_bit n y) i" for i
    by (metis bit_push_bit_iff_int bit_take_bit_iff not_less)
  then show ?thesis by (simp add: disjunctive_add [symmetric] push_bit_eq_mult)
qed

section \<open>Little-endian byte strings\<close>

primrec le_bytes :: "nat \<Rightarrow> int \<Rightarrow> bytes" where
  "le_bytes 0 x = []"
| "le_bytes (Suc n) x = word_of_int x # le_bytes n (x div 256)"

primrec le_int :: "bytes \<Rightarrow> int" where
  "le_int [] = 0"
| "le_int (b # bs) = uint b + 256 * le_int bs"

lemma length_le_bytes [simp]: "length (le_bytes n x) = n"
  by (induction n arbitrary: x) simp_all

lemma uint_byte_of_int: "uint (word_of_int x :: byte) = x mod 256"
  by (simp add: uint_word_of_int)

lemma le_int_le_bytes: "le_int (le_bytes n x) = x mod 256 ^ n"
proof (induction n arbitrary: x)
  case 0
  then show ?case by simp
next
  case (Suc n)
  have "x mod (256 * 256 ^ n) = 256 * (x div 256 mod 256 ^ n) + x mod 256"
    by (rule zmod_zmult2_eq) simp
  then show ?case
    by (simp add: Suc.IH uint_byte_of_int)
qed

lemma le_int_bounds: "0 \<le> le_int bs \<and> le_int bs < 256 ^ length bs"
proof (induction bs)
  case Nil
  then show ?case by simp
next
  case (Cons b bs)
  have b: "0 \<le> uint b" "uint b < 256"
    using uint_lt2p [of b] by simp_all
  have "256 * (le_int bs + 1) \<le> 256 * 256 ^ length bs"
    using Cons.IH by (intro mult_left_mono) simp_all
  then show ?case using b Cons.IH by simp
qed

lemma le_int_append: "le_int (xs @ ys) = le_int xs + 256 ^ length xs * le_int ys"
  by (induction xs) (simp_all add: algebra_simps)

lemma le_bytes_le_int [le_simps]: "le_bytes (length bs) (le_int bs) = bs"
proof (induction bs)
  case Nil
  then show ?case by simp
next
  case (Cons b bs)
  have b: "0 \<le> uint b" "uint b < 256"
    using uint_lt2p [of b] by simp_all
  have "(uint b + 256 * le_int bs) div 256 = le_int bs"
    using b by simp
  moreover have "(word_of_int (uint b + 256 * le_int bs) :: byte) = b"
    using b by (intro word_uint_eqI) (simp only: uint_byte_of_int mod_mult_self2, simp)
  ultimately show ?case using Cons.IH by simp
qed

lemma le_i32 [le_simps]: "i32_range x \<Longrightarrow> i32 (le_int (le_bytes 4 x)) = x"
  by (simp add: le_int_le_bytes i32_mod i32_id)

lemma le_i64 [le_simps]: "i64_range x \<Longrightarrow> i64 (le_int (le_bytes 8 x)) = x"
  by (simp add: le_int_le_bytes i64_mod i64_id)

section \<open>Checked accesses to a byte buffer\<close>

definition rd_byte :: "bytes \<Rightarrow> int \<Rightarrow> byte option" where
  "rd_byte buf off = (if 0 \<le> off \<and> off < int (length buf) then Some (buf ! nat off) else None)"

definition rd_bytes :: "bytes \<Rightarrow> int \<Rightarrow> nat \<Rightarrow> bytes option" where
  "rd_bytes buf off n =
     (if 0 \<le> off \<and> off + int n \<le> int (length buf) then Some (take n (drop (nat off) buf)) else None)"

definition wr_bytes :: "bytes \<Rightarrow> int \<Rightarrow> bytes \<Rightarrow> bytes option" where
  "wr_bytes buf off bs =
     (if 0 \<le> off \<and> off + int (length bs) \<le> int (length buf)
      then Some (take (nat off) buf @ bs @ drop (nat off + length bs) buf) else None)"

definition slice :: "bytes \<Rightarrow> int \<Rightarrow> int \<Rightarrow> bytes" where
  "slice buf a b = take (nat (b - a)) (drop (nat a) buf)"

lemma rd_byte_Some: "0 \<le> off \<Longrightarrow> off < int (length buf) \<Longrightarrow> \<exists>b. rd_byte buf off = Some b"
  by (simp add: rd_byte_def)

lemma rd_bytes_Some:
  "0 \<le> off \<Longrightarrow> off + int n \<le> int (length buf) \<Longrightarrow> \<exists>bs. rd_bytes buf off n = Some bs \<and> length bs = n"
  by (simp add: rd_bytes_def)

lemma length_wr_bytes: "wr_bytes buf off bs = Some buf' \<Longrightarrow> length buf' = length buf"
  by (auto simp: wr_bytes_def min_def split: if_splits)

lemma wr_bytes_Some:
  "0 \<le> off \<Longrightarrow> off + int (length bs) \<le> int (length buf) \<Longrightarrow> \<exists>buf'. wr_bytes buf off bs = Some buf'"
  by (simp add: wr_bytes_def)

lemma nth_wr_bytes:
  assumes "wr_bytes buf off bs = Some buf'" "i < length buf"
  shows "buf' ! i = (if nat off \<le> i \<and> i < nat off + length bs then bs ! (i - nat off) else buf ! i)"
  using assms by (auto simp: wr_bytes_def nth_append min_def split: if_splits)

section \<open>Tables filled by a loop\<close>

lemma length_fold_update [simp]: "length (fold (\<lambda>i xs. xs[g i := f i]) is xs) = length xs"
  by (induction "is" arbitrary: xs) simp_all

lemma nth_fold_update:
  "b \<le> length xs \<Longrightarrow> a \<le> b \<Longrightarrow> j < length xs \<Longrightarrow>
   fold (\<lambda>i xs. xs[i := f i]) [a..<b] xs ! j = (if a \<le> j \<and> j < b then f j else xs ! j)"
proof (induction b)
  case (Suc b)
  then show ?case by (cases "a = Suc b") (auto simp: nth_list_update less_Suc_eq le_less)
qed auto

section \<open>Transition systems with an invariant\<close>

text \<open>
  The interface of a component whose operations are steps of a state machine: the initial states
  satisfy the invariant and every step keeps it. Every state the component reaches then satisfies
  the invariant.
\<close>

locale invariant_system =
  fixes init :: "'s \<Rightarrow> bool"
    and step :: "'s \<Rightarrow> 's \<Rightarrow> bool"
    and inv :: "'s \<Rightarrow> bool"
  assumes init_inv: "init s \<Longrightarrow> inv s"
    and step_inv: "inv s \<Longrightarrow> step s t \<Longrightarrow> inv t"
begin

lemma steps_inv: "step\<^sup>*\<^sup>* s t \<Longrightarrow> inv s \<Longrightarrow> inv t"
  by (induction rule: rtranclp_induct) (auto intro: step_inv)

lemma reachable_inv: "init s \<Longrightarrow> step\<^sup>*\<^sup>* s t \<Longrightarrow> inv t"
  using steps_inv init_inv by blast

end

section \<open>Incremental processing of a message\<close>

text \<open>
  The interface of a context that absorbs a message piece by piece: the context represents what it
  has been given so far, as long as the pieces before the last one end where the context allows
  it. The final state then depends only on the whole message.
\<close>

locale incremental =
  fixes rep :: "'m list \<Rightarrow> 'c \<Rightarrow> bool"
    and absorb :: "'c \<Rightarrow> 'm list \<Rightarrow> 'c"
    and may_continue :: "'m list \<Rightarrow> bool"
  assumes absorb_rep: "rep m c \<Longrightarrow> may_continue m \<Longrightarrow> rep (m @ d) (absorb c d)"
begin

lemma absorb_all:
  "rep m c \<Longrightarrow> (\<And>k. k < length ds \<Longrightarrow> may_continue (m @ concat (take k ds))) \<Longrightarrow>
   rep (m @ concat ds) (foldl absorb c ds)"
proof (induction ds arbitrary: m c)
  case Nil
  then show ?case by simp
next
  case (Cons d ds)
  have "may_continue m" using Cons.prems(2) [of 0] by simp
  then have "rep (m @ d) (absorb c d)" by (rule absorb_rep [OF Cons.prems(1)])
  moreover have "may_continue ((m @ d) @ concat (take k ds))" if "k < length ds" for k
    using Cons.prems(2) [of "Suc k"] that by simp
  ultimately have "rep ((m @ d) @ concat ds) (foldl absorb (absorb c d) ds)" by (rule Cons.IH)
  then show ?case by simp
qed

end

end
