(* ===== verification/Bson_Format.thy ===== *)
theory Bson_Format
  imports SC_Prelude
begin

text \<open>
  The BSON subset the library exchanges, as abstract documents with a reference encoder.
  \<^verbatim>\<open>BsonReader\<close> and \<^verbatim>\<open>BsonBuilder\<close> are specified against it: the reader walks the
  encoding of a document, the builder produces it. The element types and their codes are the
  enumeration \<^verbatim>\<open>BsonReader::ElementType\<close>.
\<close>

section \<open>Element types\<close>

datatype element_type =
    ELEMENT_DOUBLE | ELEMENT_STR | ELEMENT_DOC | ELEMENT_ARRAY | ELEMENT_BINARY
  | ELEMENT_BOOL | ELEMENT_NULL | ELEMENT_I32 | ELEMENT_I64
  | ELEMENT_END | ELEMENT_UNSUPPORTED | ELEMENT_FORMAT_ERROR | ELEMENT_INTERNAL_DOC_BEGIN

fun et_code :: "element_type \<Rightarrow> int" where
  "et_code ELEMENT_DOUBLE = 0x01"
| "et_code ELEMENT_STR = 0x02"
| "et_code ELEMENT_DOC = 0x03"
| "et_code ELEMENT_ARRAY = 0x04"
| "et_code ELEMENT_BINARY = 0x05"
| "et_code ELEMENT_BOOL = 0x08"
| "et_code ELEMENT_NULL = 0x0A"
| "et_code ELEMENT_I32 = 0x10"
| "et_code ELEMENT_I64 = 0x12"
| "et_code ELEMENT_END = 0"
| "et_code ELEMENT_UNSUPPORTED = -1"
| "et_code ELEMENT_FORMAT_ERROR = -2"
| "et_code ELEMENT_INTERNAL_DOC_BEGIN = -3"

lemma et_code_inject: "et_code a = et_code b \<longleftrightarrow> a = b"
  by (cases a; cases b) simp_all

text \<open>The order of the enumeration is the order of its codes.\<close>

instantiation element_type :: linorder
begin

definition less_eq_element_type :: "element_type \<Rightarrow> element_type \<Rightarrow> bool" where
  "less_eq_element_type a b \<longleftrightarrow> et_code a \<le> et_code b"

definition less_element_type :: "element_type \<Rightarrow> element_type \<Rightarrow> bool" where
  "less_element_type a b \<longleftrightarrow> et_code a < et_code b"

instance
  by standard (auto simp: less_eq_element_type_def less_element_type_def et_code_inject)

end

section \<open>Abstract documents\<close>

text \<open>A double is its bit pattern; strings and keys are byte strings.\<close>

datatype bval =
    VDouble "64 word"
  | VStr bytes
  | VDoc "(bytes \<times> bval) list"
  | VArray "(bytes \<times> bval) list"
  | VBinary byte bytes
  | VBool bool
  | VNull
  | VI32 int
  | VI64 int

type_synonym bdoc = "(bytes \<times> bval) list"

fun val_type :: "bval \<Rightarrow> element_type" where
  "val_type (VDouble _) = ELEMENT_DOUBLE"
| "val_type (VStr _) = ELEMENT_STR"
| "val_type (VDoc _) = ELEMENT_DOC"
| "val_type (VArray _) = ELEMENT_ARRAY"
| "val_type (VBinary _ _) = ELEMENT_BINARY"
| "val_type (VBool _) = ELEMENT_BOOL"
| "val_type VNull = ELEMENT_NULL"
| "val_type (VI32 _) = ELEMENT_I32"
| "val_type (VI64 _) = ELEMENT_I64"

definition type_byte :: "element_type \<Rightarrow> byte" where
  "type_byte t = word_of_int (et_code t)"

section \<open>The reference encoder\<close>

definition doc_frame :: "bytes \<Rightarrow> bytes" where
  "doc_frame body = le_bytes 4 (int (length body) + 5) @ body @ [0]"

fun enc_val :: "bval \<Rightarrow> bytes"
  and enc_elems :: "bdoc \<Rightarrow> bytes" where
  "enc_val (VDouble w) = le_bytes 8 (uint w)"
| "enc_val (VStr s) = le_bytes 4 (int (length s) + 1) @ s @ [0]"
| "enc_val (VDoc es) = doc_frame (enc_elems es)"
| "enc_val (VArray es) = doc_frame (enc_elems es)"
| "enc_val (VBinary t bs) = le_bytes 4 (int (length bs)) @ [t] @ bs"
| "enc_val (VBool b) = [if b then 1 else 0]"
| "enc_val VNull = []"
| "enc_val (VI32 x) = le_bytes 4 x"
| "enc_val (VI64 x) = le_bytes 8 x"
| "enc_elems [] = []"
| "enc_elems ((k, v) # es) = type_byte (val_type v) # k @ [0] @ enc_val v @ enc_elems es"

definition enc_doc :: "bdoc \<Rightarrow> bytes" where
  "enc_doc es = doc_frame (enc_elems es)"

definition enc_elem :: "bytes \<Rightarrow> bval \<Rightarrow> bytes" where
  "enc_elem k v = type_byte (val_type v) # k @ [0] @ enc_val v"

fun wf_val :: "bval \<Rightarrow> bool"
  and wf_elems :: "bdoc \<Rightarrow> bool" where
  "wf_val (VDouble w) = True"
| "wf_val (VStr s) = True"
| "wf_val (VDoc es) = wf_elems es"
| "wf_val (VArray es) = wf_elems es"
| "wf_val (VBinary t bs) = True"
| "wf_val (VBool b) = True"
| "wf_val VNull = True"
| "wf_val (VI32 x) = i32_range x"
| "wf_val (VI64 x) = i64_range x"
| "wf_elems [] = True"
| "wf_elems ((k, v) # es) = (0 \<notin> set k \<and> wf_val v \<and> wf_elems es)"

text \<open>Number of documents nested below a value: a scalar has none.\<close>

fun val_depth :: "bval \<Rightarrow> nat"
  and elems_depth :: "bdoc \<Rightarrow> nat" where
  "val_depth (VDoc es) = Suc (elems_depth es)"
| "val_depth (VArray es) = Suc (elems_depth es)"
| "val_depth (VDouble w) = 0"
| "val_depth (VStr s) = 0"
| "val_depth (VBinary t bs) = 0"
| "val_depth (VBool b) = 0"
| "val_depth VNull = 0"
| "val_depth (VI32 x) = 0"
| "val_depth (VI64 x) = 0"
| "elems_depth [] = 0"
| "elems_depth ((k, v) # es) = max (val_depth v) (elems_depth es)"

lemma enc_elems_append [simp]: "enc_elems (xs @ ys) = enc_elems xs @ enc_elems ys"
  by (induction xs) auto

lemma enc_elems_single: "enc_elems [(k, v)] = enc_elem k v"
  by (simp add: enc_elem_def)

lemma enc_elems_Cons: "enc_elems ((k, v) # es) = enc_elem k v @ enc_elems es"
  by (simp add: enc_elem_def)

lemma wf_elems_append [simp]: "wf_elems (xs @ ys) \<longleftrightarrow> wf_elems xs \<and> wf_elems ys"
  by (induction xs) auto

lemma length_doc_frame [simp]: "length (doc_frame body) = length body + 5"
  by (simp add: doc_frame_def)

lemma length_enc_doc: "length (enc_doc es) = length (enc_elems es) + 5"
  by (simp add: enc_doc_def)

lemma length_enc_elem: "length (enc_elem k v) = length k + length (enc_val v) + 2"
  by (simp add: enc_elem_def)

lemma val_type_pos: "et_code (val_type v) > 0"
  by (cases v) simp_all

lemma type_byte_nz [simp]: "type_byte (val_type v) \<noteq> 0"
  by (cases v) (simp_all add: type_byte_def)

end
