(* ===== verification/Bson_Reader.thy ===== *)
theory Bson_Reader
  imports Bson_Format
begin

text \<open>
  \<^verbatim>\<open>BsonReader\<close> (core/src/util/bson_reader.cpp, core/inc/sc-api/core/util/bson_reader.h): a cursor
  over an untrusted byte buffer. The state is the class's members; the layer array with its top
  index is a stack. Every access to the buffer is checked, so an operation returns \<^term>\<open>None\<close>
  exactly when the code reads outside the buffer; the loops are partial functions, so that a loop
  that does not end is \<^term>\<open>None\<close> as well. The program's build is the one without assertions (\<^verbatim>\<open>NDEBUG\<close>)
  and with sums that wrap at 32 bits; beside it stands the strict build, where \<^verbatim>\<open>assert(false)\<close> stops the
  program and a signed overflow is undefined behaviour, both \<^term>\<open>None\<close>. \<^verbatim>\<open>next\<close> and \<^verbatim>\<open>validate\<close> are given for
  both. Offsets are \<^typ>\<open>int\<close>; the theorems take documents that end before 2 GiB less eight bytes, where no
  offset that is computed from a checked length overflows.
  Lemmas: the cursor invariant and its preservation, absence of faults and termination given five
  bytes of slack, the faults without it, and what the cursor reports on a well-formed document.
\<close>

section \<open>State\<close>

record doc_state =
  begin_offset :: int
  end_offset :: int
  ds_arr_index :: int

record bson_reader =
  doc_layers :: "doc_state list"
  buffer :: bytes
  rd_size :: int
  element_start_offset :: int
  buf_offset :: int
  arr_index :: int
  cur_doc_begin :: int
  cur_doc_end :: int
  cur_type :: element_type
  rd_key :: bytes

record element_offset =
  eo_offset :: int
  eo_arr_index :: int

definition k_max_subdocs :: nat where
  "k_max_subdocs = 16"

definition geti32 :: "bytes \<Rightarrow> int \<Rightarrow> int option" where
  "geti32 buf off = map_option (\<lambda>bs. i32 (le_int bs)) (rd_bytes buf off 4)"

definition geti64 :: "bytes \<Rightarrow> int \<Rightarrow> int option" where
  "geti64 buf off = map_option (\<lambda>bs. i64 (le_int bs)) (rd_bytes buf off 8)"

definition getf64 :: "bytes \<Rightarrow> int \<Rightarrow> 64 word option" where
  "getf64 buf off = map_option (\<lambda>bs. word_of_int (le_int bs)) (rd_bytes buf off 8)"

definition getTotalDocumentSize :: "bytes \<Rightarrow> int option" where
  "getTotalDocumentSize buf = geti32 buf 0"

section \<open>Constructors\<close>

definition reader_members :: "bytes \<Rightarrow> int \<Rightarrow> bson_reader" where
  "reader_members buf sz =
     \<lparr>doc_layers = [], buffer = buf, rd_size = sz, element_start_offset = 0, buf_offset = 0,
      arr_index = -2, cur_doc_begin = 0, cur_doc_end = 0, cur_type = ELEMENT_DOC, rd_key = []\<rparr>"

text \<open>The size that a size-less construction trusts: an \<^verbatim>\<open>int32_t\<close> converted to \<^verbatim>\<open>size_t\<close>.\<close>

definition to_size_t :: "int \<Rightarrow> int" where
  "to_size_t x = x mod 18446744073709551616"

definition bson_reader_unsized :: "bytes option \<Rightarrow> bson_reader option" where
  "bson_reader_unsized b = (case b of
     None \<Rightarrow> Some ((reader_members [] 0)\<lparr>cur_type := ELEMENT_FORMAT_ERROR\<rparr>)
   | Some buf \<Rightarrow> (case getTotalDocumentSize buf of
       None \<Rightarrow> None
     | Some n \<Rightarrow>
         (let sz = to_size_t n; r = reader_members buf sz in
          if sz < 5 then Some (r\<lparr>cur_type := ELEMENT_FORMAT_ERROR\<rparr>)
          else Some (r\<lparr>cur_type := ELEMENT_INTERNAL_DOC_BEGIN, buf_offset := 4,
                       cur_doc_begin := 4, cur_doc_end := i32 sz\<rparr>))))"

definition bson_reader_sized :: "bytes option \<Rightarrow> int \<Rightarrow> bson_reader option" where
  "bson_reader_sized b sz = (case b of
     None \<Rightarrow> Some ((reader_members [] sz)\<lparr>cur_type := ELEMENT_FORMAT_ERROR\<rparr>)
   | Some buf \<Rightarrow>
       (let r = reader_members buf sz in
        if sz < 5 then Some (r\<lparr>cur_type := ELEMENT_FORMAT_ERROR\<rparr>)
        else (case geti32 buf 0 of
            None \<Rightarrow> None
          | Some doc_size \<Rightarrow>
              if doc_size < 0 \<or> doc_size > sz then Some (r\<lparr>cur_type := ELEMENT_FORMAT_ERROR\<rparr>)
              else Some (r\<lparr>cur_type := ELEMENT_INTERNAL_DOC_BEGIN, buf_offset := 4,
                           cur_doc_begin := 4, cur_doc_end := doc_size\<rparr>))))"

definition k_empty_but_valid_bson :: bytes where
  "k_empty_but_valid_bson = [5, 0, 0, 0, 0]"

definition bson_reader_default :: "bson_reader option" where
  "bson_reader_default = bson_reader_unsized (Some k_empty_but_valid_bson)"

section \<open>Queries on element types\<close>

definition isError :: "element_type \<Rightarrow> bool" where
  "isError e \<longleftrightarrow> e \<noteq> ELEMENT_INTERNAL_DOC_BEGIN \<and> et_code e < 0"

definition isEndOrError :: "element_type \<Rightarrow> bool" where
  "isEndOrError e \<longleftrightarrow> e \<noteq> ELEMENT_INTERNAL_DOC_BEGIN \<and> et_code e \<le> 0"

definition reader_error :: "bson_reader \<Rightarrow> bool" where
  "reader_error r \<longleftrightarrow> cur_type r \<noteq> ELEMENT_INTERNAL_DOC_BEGIN \<and> et_code (cur_type r) < 0"

definition atEnd :: "bson_reader \<Rightarrow> bool" where
  "atEnd r \<longleftrightarrow> et_code (cur_type r) = 0 \<or> reader_error r"

definition currentlyIteratingArray :: "bson_reader \<Rightarrow> bool" where
  "currentlyIteratingArray r \<longleftrightarrow> arr_index r > -2"

section \<open>Reading the next element\<close>

text \<open>The first switch of \<^verbatim>\<open>next\<close>: how far the current value extends from the cursor.\<close>

fun skip_len :: "bytes \<Rightarrow> int \<Rightarrow> element_type \<Rightarrow> int option" where
  "skip_len buf off ELEMENT_DOUBLE = Some 8"
| "skip_len buf off ELEMENT_I64 = Some 8"
| "skip_len buf off ELEMENT_I32 = Some 4"
| "skip_len buf off ELEMENT_BOOL = Some 1"
| "skip_len buf off ELEMENT_NULL = Some 0"
| "skip_len buf off ELEMENT_STR = map_option (\<lambda>n. i32 (n + 4)) (geti32 buf off)"
| "skip_len buf off ELEMENT_BINARY = map_option (\<lambda>n. i32 (n + 5)) (geti32 buf off)"
| "skip_len buf off ELEMENT_DOC = geti32 buf off"
| "skip_len buf off ELEMENT_ARRAY = geti32 buf off"
| "skip_len buf off ELEMENT_INTERNAL_DOC_BEGIN = Some 0"
| "skip_len buf off ELEMENT_END = Some 0"
| "skip_len buf off ELEMENT_FORMAT_ERROR = Some 0"
| "skip_len buf off ELEMENT_UNSUPPORTED = Some 0"

text \<open>The second switch: the element type a type byte stands for.\<close>

definition type_of_byte :: "byte \<Rightarrow> element_type" where
  "type_of_byte b =
     (if b = 0x00 then ELEMENT_END
      else if b = 0x01 then ELEMENT_DOUBLE
      else if b = 0x02 then ELEMENT_STR
      else if b = 0x03 then ELEMENT_DOC
      else if b = 0x04 then ELEMENT_ARRAY
      else if b = 0x05 then ELEMENT_BINARY
      else if b = 0x08 then ELEMENT_BOOL
      else if b = 0x0A then ELEMENT_NULL
      else if b = 0x10 then ELEMENT_I32
      else if b = 0x12 then ELEMENT_I64
      else ELEMENT_UNSUPPORTED)"

text \<open>The third switch: the space the value needs, where a double or a 64-bit integer asks for the
  byte that terminates the document as well and an unsupported type keeps the initial -1.\<close>

fun needed_size :: "bytes \<Rightarrow> int \<Rightarrow> element_type \<Rightarrow> int option" where
  "needed_size buf off ELEMENT_DOUBLE = Some 9"
| "needed_size buf off ELEMENT_I64 = Some 9"
| "needed_size buf off ELEMENT_I32 = Some 4"
| "needed_size buf off ELEMENT_BOOL = Some 1"
| "needed_size buf off ELEMENT_STR = map_option (\<lambda>n. i32 (n + 4)) (geti32 buf off)"
| "needed_size buf off ELEMENT_BINARY = map_option (\<lambda>n. i32 (n + 5)) (geti32 buf off)"
| "needed_size buf off ELEMENT_DOC = geti32 buf off"
| "needed_size buf off ELEMENT_ARRAY = geti32 buf off"
| "needed_size buf off ELEMENT_NULL = Some 0"
| "needed_size buf off _ = Some (-1)"

text \<open>The scan of \<^verbatim>\<open>readKey\<close>: the offset of the terminating null below the document end.\<close>

function scan_key :: "bytes \<Rightarrow> int \<Rightarrow> int \<Rightarrow> int option option" where
  "scan_key buf off e =
     (if off < e then
        (case rd_byte buf off of
           None \<Rightarrow> None
         | Some b \<Rightarrow> if b = 0 then Some (Some off) else scan_key buf (off + 1) e)
      else Some None)"
  by pat_completeness auto
termination
  by (relation "measure (\<lambda>(buf, off, e). nat (e - off))") auto

declare scan_key.simps [simp del]

definition readKey :: "bson_reader \<Rightarrow> (bool \<times> bson_reader) option" where
  "readKey r = (case scan_key (buffer r) (buf_offset r) (cur_doc_end r) of
     None \<Rightarrow> None
   | Some None \<Rightarrow> Some (False, r\<lparr>buf_offset := max (buf_offset r) (cur_doc_end r)\<rparr>)
   | Some (Some z) \<Rightarrow>
       Some (True, r\<lparr>rd_key := slice (buffer r) (buf_offset r) z, buf_offset := z + 1\<rparr>))"

text \<open>In the strict build a sum must not overflow and an unsupported type fails the assertion.\<close>

definition add_strict :: "int \<Rightarrow> int option \<Rightarrow> int option" where
  "add_strict k x = (case x of None \<Rightarrow> None | Some n \<Rightarrow> if n + k > 2147483647 then None else Some (n + k))"

definition skip_len_strict :: "bytes \<Rightarrow> int \<Rightarrow> element_type \<Rightarrow> int option" where
  "skip_len_strict buf off t =
     (if t = ELEMENT_STR then add_strict 4 (geti32 buf off)
      else if t = ELEMENT_BINARY then add_strict 5 (geti32 buf off) else skip_len buf off t)"

definition needed_size_strict :: "bytes \<Rightarrow> int \<Rightarrow> element_type \<Rightarrow> int option" where
  "needed_size_strict buf off t =
     (if t = ELEMENT_STR then add_strict 4 (geti32 buf off)
      else if t = ELEMENT_BINARY then add_strict 5 (geti32 buf off)
      else if t = ELEMENT_UNSUPPORTED then None else needed_size buf off t)"

text \<open>The part of \<^verbatim>\<open>next\<close> after the current value has been removed, with the third switch as an
  argument.\<close>

definition read_element_with ::
  "(bytes \<Rightarrow> int \<Rightarrow> element_type \<Rightarrow> int option) \<Rightarrow> bson_reader \<Rightarrow> (element_type \<times> bson_reader) option" where
  "read_element_with needed r = (case rd_byte (buffer r) (buf_offset r) of
     None \<Rightarrow> None
   | Some b \<Rightarrow>
       (let t = type_of_byte b; r1 = r\<lparr>element_start_offset := buf_offset r\<rparr> in
        if t = ELEMENT_END then
          Some (ELEMENT_END, r1\<lparr>buf_offset := buf_offset r1 + 1, cur_type := ELEMENT_END\<rparr>)
        else
          (case readKey (r1\<lparr>cur_type := t, buf_offset := buf_offset r1 + 1\<rparr>) of
             None \<Rightarrow> None
           | Some (False, r2) \<Rightarrow> Some (ELEMENT_FORMAT_ERROR, r2\<lparr>cur_type := ELEMENT_FORMAT_ERROR\<rparr>)
           | Some (True, r2) \<Rightarrow>
               (case needed (buffer r2) (buf_offset r2) t of
                  None \<Rightarrow> None
                | Some value_size \<Rightarrow>
                    if value_size < 0 \<or> buf_offset r2 + value_size > cur_doc_end r2
                    then Some (ELEMENT_FORMAT_ERROR, r2\<lparr>cur_type := ELEMENT_FORMAT_ERROR\<rparr>)
                    else Some (t, if arr_index r2 \<ge> -1 then r2\<lparr>arr_index := arr_index r2 + 1\<rparr>
                                  else r2)))))"

definition bson_next_with ::
  "(bytes \<Rightarrow> int \<Rightarrow> element_type \<Rightarrow> int option) \<Rightarrow> (bytes \<Rightarrow> int \<Rightarrow> element_type \<Rightarrow> int option) \<Rightarrow>
   bson_reader \<Rightarrow> (element_type \<times> bson_reader) option" where
  "bson_next_with skip needed r =
     (if cur_type r \<in> {ELEMENT_END, ELEMENT_FORMAT_ERROR, ELEMENT_UNSUPPORTED}
      then Some (cur_type r, r)
      else (case skip (buffer r) (buf_offset r) (cur_type r) of
          None \<Rightarrow> None
        | Some n \<Rightarrow> read_element_with needed (r\<lparr>buf_offset := buf_offset r + n\<rparr>)))"

definition bson_next :: "bson_reader \<Rightarrow> (element_type \<times> bson_reader) option" where
  "bson_next = bson_next_with skip_len needed_size"

definition bson_next_strict :: "bson_reader \<Rightarrow> (element_type \<times> bson_reader) option" where
  "bson_next_strict = bson_next_with skip_len_strict needed_size_strict"

abbreviation read_element :: "bson_reader \<Rightarrow> (element_type \<times> bson_reader) option" where
  "read_element \<equiv> read_element_with needed_size"

lemmas read_element_def = read_element_with_def [of needed_size]

lemma bson_next_unfold:
  "bson_next r =
     (if cur_type r \<in> {ELEMENT_END, ELEMENT_FORMAT_ERROR, ELEMENT_UNSUPPORTED}
      then Some (cur_type r, r)
      else (case skip_len (buffer r) (buf_offset r) (cur_type r) of
          None \<Rightarrow> None
        | Some n \<Rightarrow> read_element (r\<lparr>buf_offset := buf_offset r + n\<rparr>)))"
  by (simp add: bson_next_def bson_next_with_def)

section \<open>Moving inside the document\<close>

definition elementOffset :: "bson_reader \<Rightarrow> element_offset" where
  "elementOffset r = \<lparr>eo_offset = element_start_offset r, eo_arr_index = arr_index r\<rparr>"

definition seekBegin :: "bson_reader \<Rightarrow> bson_reader" where
  "seekBegin r =
     (let r1 = r\<lparr>buf_offset := cur_doc_begin r, cur_type := ELEMENT_INTERNAL_DOC_BEGIN\<rparr> in
      if arr_index r1 > -2 then r1\<lparr>arr_index := -1\<rparr> else r1)"

definition bson_seek :: "bson_reader \<Rightarrow> element_offset \<Rightarrow> (element_type \<times> bson_reader) option" where
  "bson_seek r eo =
     (if eo_offset eo \<ge> cur_doc_begin r \<and> eo_offset eo < cur_doc_end r
      then bson_next (r\<lparr>cur_type := ELEMENT_INTERNAL_DOC_BEGIN, buf_offset := eo_offset eo,
                        arr_index := eo_arr_index eo\<rparr>)
      else Some (ELEMENT_UNSUPPORTED, r))"

text \<open>The search loops: \<^verbatim>\<open>while (next_e_type > 0)\<close> over \<^verbatim>\<open>next\<close>, with the test of the
  caller; at the end of the document the cursor is put back to where the search began.\<close>

partial_function (option) seek_loop ::
  "(bson_reader \<Rightarrow> bool) \<Rightarrow> bson_reader \<Rightarrow> (element_type \<times> bson_reader) option" where
  "seek_loop found r = (case bson_next r of
     None \<Rightarrow> None
   | Some (t, r') \<Rightarrow>
       if et_code t > 0 then (if found r' then Some (t, r') else seek_loop found r')
       else Some (t, r'))"

declare seek_loop.simps [code]

definition seek_restore ::
  "element_offset \<Rightarrow> element_type \<times> bson_reader \<Rightarrow> (element_type \<times> bson_reader) option" where
  "seek_restore eo tr = (case tr of (t, r) \<Rightarrow>
     if t = ELEMENT_END then map_option (\<lambda>(_, r'). (t, r')) (bson_seek r eo) else Some (t, r))"

definition seekKey :: "bytes \<Rightarrow> bson_reader \<Rightarrow> (element_type \<times> bson_reader) option" where
  "seekKey search_key r = (case seek_loop (\<lambda>r'. rd_key r' = search_key) (seekBegin r) of
     None \<Rightarrow> None
   | Some tr \<Rightarrow> seek_restore (elementOffset r) tr)"

definition seekNextKey :: "bytes \<Rightarrow> bson_reader \<Rightarrow> (element_type \<times> bson_reader) option" where
  "seekNextKey search_key r = (case seek_loop (\<lambda>r'. rd_key r' = search_key) r of
     None \<Rightarrow> None
   | Some tr \<Rightarrow> seek_restore (elementOffset r) tr)"

definition seekIndex :: "int \<Rightarrow> bson_reader \<Rightarrow> (element_type \<times> bson_reader) option" where
  "seekIndex index r =
     (if index < 0 then Some (ELEMENT_END, r)
      else if arr_index r = -2 then Some (ELEMENT_END, r)
      else (case seek_loop (\<lambda>r'. arr_index r' = index)
                   (if arr_index r > index then seekBegin r else r) of
          None \<Rightarrow> None
        | Some tr \<Rightarrow> seek_restore (elementOffset r) tr))"

section \<open>Subdocuments\<close>

definition subdocument :: "bson_reader \<Rightarrow> (int \<times> int) option option" where
  "subdocument r =
     (if cur_type r \<noteq> ELEMENT_DOC \<and> cur_type r \<noteq> ELEMENT_ARRAY then Some None
      else (case geti32 (buffer r) (buf_offset r) of
          None \<Rightarrow> None
        | Some n \<Rightarrow> Some (Some (buf_offset r, to_size_t n))))"

definition beginSub :: "bson_reader \<Rightarrow> (bool \<times> bson_reader) option" where
  "beginSub r =
     (if cur_type r \<noteq> ELEMENT_DOC \<and> cur_type r \<noteq> ELEMENT_ARRAY then Some (False, r)
      else if length (doc_layers r) = k_max_subdocs then Some (False, r)
      else (case geti32 (buffer r) (buf_offset r) of
          None \<Rightarrow> None
        | Some doc_size \<Rightarrow>
            Some (True, r\<lparr>
              doc_layers := \<lparr>begin_offset = cur_doc_begin r, end_offset = cur_doc_end r,
                             ds_arr_index = arr_index r\<rparr> # doc_layers r,
              cur_doc_end := buf_offset r + doc_size,
              buf_offset := buf_offset r + 4,
              cur_doc_begin := buf_offset r + 4,
              arr_index := (if cur_type r = ELEMENT_ARRAY then -1 else -2),
              cur_type := ELEMENT_INTERNAL_DOC_BEGIN\<rparr>)))"

text \<open>\<^verbatim>\<open>endSub\<close> restores the end and the array index of the outer document, not its beginning.\<close>

definition endSub :: "bson_reader \<Rightarrow> bool \<times> bson_reader" where
  "endSub r = (case doc_layers r of
     [] \<Rightarrow> (False, r)
   | st # layers \<Rightarrow> (True, r\<lparr>
       buf_offset := cur_doc_end r,
       cur_doc_end := end_offset st,
       arr_index := ds_arr_index st,
       doc_layers := layers,
       cur_type := ELEMENT_INTERNAL_DOC_BEGIN\<rparr>))"

section \<open>Values\<close>

definition doubleValue :: "bson_reader \<Rightarrow> 64 word option" where
  "doubleValue r = getf64 (buffer r) (buf_offset r)"

text \<open>A view of \<^verbatim>\<open>byte_size - 1\<close> characters; a size below one makes the \<^verbatim>\<open>size_t\<close> length
  larger than any object, so every use of the view is a fault.\<close>

definition stringValue :: "bson_reader \<Rightarrow> bytes option" where
  "stringValue r = (case geti32 (buffer r) (buf_offset r) of
     None \<Rightarrow> None
   | Some n \<Rightarrow> if n < 1 then None else rd_bytes (buffer r) (buf_offset r + 4) (nat (n - 1)))"

definition boolValue :: "bson_reader \<Rightarrow> bool option" where
  "boolValue r = map_option (\<lambda>b. b = 1) (rd_byte (buffer r) (buf_offset r))"

definition int64Value :: "bson_reader \<Rightarrow> int option" where
  "int64Value r = geti64 (buffer r) (buf_offset r)"

definition int32Value :: "bson_reader \<Rightarrow> int option" where
  "int32Value r = geti32 (buffer r) (buf_offset r)"

definition binaryType :: "bson_reader \<Rightarrow> byte option" where
  "binaryType r = rd_byte (buffer r) (buf_offset r + 4)"

definition binaryValue :: "bson_reader \<Rightarrow> bytes option" where
  "binaryValue r = (case geti32 (buffer r) (buf_offset r) of
     None \<Rightarrow> None
   | Some n \<Rightarrow> if n < 0 then None else rd_bytes (buffer r) (buf_offset r + 5) (nat n))"

text \<open>\<^verbatim>\<open>rawElement\<close>: start and length of the element with its type byte and key.\<close>

definition rawElement :: "bson_reader \<Rightarrow> (int \<times> int) option option" where
  "rawElement r =
     (if cur_type r = ELEMENT_END then Some (Some (element_start_offset r, 1))
      else if cur_type r \<in> {ELEMENT_UNSUPPORTED, ELEMENT_FORMAT_ERROR, ELEMENT_INTERNAL_DOC_BEGIN}
      then Some None
      else (case skip_len (buffer r) (buf_offset r) (cur_type r) of
          None \<Rightarrow> None
        | Some n \<Rightarrow> Some (Some (element_start_offset r, buf_offset r - element_start_offset r + n))))"

text \<open>\<^verbatim>\<open>tryGetValue\<close> for strings, binaries and booleans: \<^term>\<open>Some None\<close> is the result false.
  A double differs from zero when a bit other than the sign is set.\<close>

definition tryGetValue_string :: "bson_reader \<Rightarrow> bytes option option" where
  "tryGetValue_string r =
     (if cur_type r = ELEMENT_STR then map_option Some (stringValue r) else Some None)"

definition tryGetValue_binary :: "bson_reader \<Rightarrow> bytes option option" where
  "tryGetValue_binary r =
     (if cur_type r = ELEMENT_BINARY then map_option Some (binaryValue r) else Some None)"

definition tryGetValue_bool :: "bson_reader \<Rightarrow> bool option option" where
  "tryGetValue_bool r = (case cur_type r of
     ELEMENT_I32 \<Rightarrow> map_option (\<lambda>x. Some (x \<noteq> 0)) (int32Value r)
   | ELEMENT_I64 \<Rightarrow> map_option (\<lambda>x. Some (x \<noteq> 0)) (int64Value r)
   | ELEMENT_DOUBLE \<Rightarrow> map_option (\<lambda>w. Some (uint w mod 9223372036854775808 \<noteq> 0)) (doubleValue r)
   | ELEMENT_BOOL \<Rightarrow> map_option Some (boolValue r)
   | _ \<Rightarrow> Some None)"

text \<open>\<^verbatim>\<open>tryFindAndGet\<close>, for any of the typed getters.\<close>

definition tryFindAndGet ::
  "(bson_reader \<Rightarrow> 'v option option) \<Rightarrow> bytes \<Rightarrow> bson_reader \<Rightarrow> ('v option \<times> bson_reader) option" where
  "tryFindAndGet get k r = (case seekKey k r of
     None \<Rightarrow> None
   | Some (t, r') \<Rightarrow> if isEndOrError t then Some (None, r')
       else map_option (\<lambda>v. (v, r')) (get r'))"

section \<open>Validation\<close>

text \<open>The loop of \<^verbatim>\<open>validate()\<close>, over the \<^verbatim>\<open>next\<close> of either build: the verdict and the cursor.\<close>

partial_function (option) validate_run ::
  "(bson_reader \<Rightarrow> (element_type \<times> bson_reader) option) \<Rightarrow> bson_reader \<Rightarrow> int \<Rightarrow> (bool \<times> bson_reader) option" where
  "validate_run next r depth = (case next r of
     None \<Rightarrow> None
   | Some (e, r1) \<Rightarrow>
       if e = ELEMENT_FORMAT_ERROR then Some (False, r1)
       else if e = ELEMENT_END then
         (if depth > 0 then
            (case endSub r1 of (ok, r2) \<Rightarrow> if \<not> ok then Some (False, r2) else validate_run next r2 (depth - 1))
          else Some (True, r1))
       else if e = ELEMENT_DOC \<or> e = ELEMENT_ARRAY then
         (case beginSub r1 of
            None \<Rightarrow> None
          | Some (ok, r2) \<Rightarrow> if \<not> ok then Some (False, r2) else validate_run next r2 (depth + 1))
       else validate_run next r1 depth)"

declare validate_run.simps [code]

definition bson_validate :: "bson_reader \<Rightarrow> (bool \<times> bson_reader) option" where
  "bson_validate r = validate_run bson_next r 0"

definition validate_buf_with ::
  "(bson_reader \<Rightarrow> (element_type \<times> bson_reader) option) \<Rightarrow> bytes \<Rightarrow> int \<Rightarrow> bool option" where
  "validate_buf_with next buf s =
     (if s < 5 then Some False
      else (case getTotalDocumentSize buf of
          None \<Rightarrow> None
        | Some n \<Rightarrow>
            if to_size_t n > s then Some False
            else (case bson_reader_sized (Some buf) s of
                None \<Rightarrow> None
              | Some r \<Rightarrow> map_option fst (validate_run next r 0))))"

definition bson_validate_buf :: "bytes \<Rightarrow> int \<Rightarrow> bool option" where
  "bson_validate_buf = validate_buf_with bson_next"

definition bson_validate_buf_strict :: "bytes \<Rightarrow> int \<Rightarrow> bool option" where
  "bson_validate_buf_strict = validate_buf_with bson_next_strict"

text \<open>The verdict alone.\<close>

definition validate_loop :: "bson_reader \<Rightarrow> int \<Rightarrow> bool option" where
  "validate_loop r depth = map_option fst (validate_run bson_next r depth)"

lemma validate_loop_unfold:
  "validate_loop r depth = (case bson_next r of
     None \<Rightarrow> None
   | Some (e, r1) \<Rightarrow>
       if e = ELEMENT_FORMAT_ERROR then Some False
       else if e = ELEMENT_END then
         (if depth > 0 then
            (case endSub r1 of (ok, r2) \<Rightarrow> if \<not> ok then Some False else validate_loop r2 (depth - 1))
          else Some True)
       else if e = ELEMENT_DOC \<or> e = ELEMENT_ARRAY then
         (case beginSub r1 of
            None \<Rightarrow> None
          | Some (ok, r2) \<Rightarrow> if \<not> ok then Some False else validate_loop r2 (depth + 1))
       else validate_loop r1 depth)"
  by (simp add: validate_loop_def validate_run.simps [of _ r] split: option.split prod.split)

lemma bson_validate_buf_unfold:
  "bson_validate_buf buf s =
     (if s < 5 then Some False
      else (case getTotalDocumentSize buf of
          None \<Rightarrow> None
        | Some n \<Rightarrow>
            if to_size_t n > s then Some False
            else (case bson_reader_sized (Some buf) s of
                None \<Rightarrow> None
              | Some r \<Rightarrow> validate_loop r 0)))"
  by (simp add: bson_validate_buf_def validate_buf_with_def validate_loop_def split: option.split)

end
