(* ===== verification/Bson_Reader_Safety.thy ===== *)
theory Bson_Reader_Safety
  imports Bson_Reader
begin

text \<open>
  Memory safety and termination of \<^verbatim>\<open>BsonReader\<close>. The cursor invariant below holds after
  construction and after every operation; it needs five bytes of readable memory behind the
  outermost document, because the code reads a length or a type byte before it compares the
  position with the document end. Under the invariant no operation reads outside the buffer and
  every loop ends.
\<close>

section \<open>The cursor invariant\<close>

definition ends :: "bson_reader \<Rightarrow> int list" where
  "ends r = cur_doc_end r # map end_offset (doc_layers r)"

definition outer_end :: "bson_reader \<Rightarrow> int" where
  "outer_end r = last (ends r)"

definition cursor_ok :: "bson_reader \<Rightarrow> bool" where
  "cursor_ok r \<longleftrightarrow>
     (if cur_type r = ELEMENT_INTERNAL_DOC_BEGIN
      then 0 \<le> buf_offset r \<and> buf_offset r \<le> outer_end r + 4
      else et_code (cur_type r) > 0 \<longrightarrow>
        (\<exists>n. skip_len (buffer r) (buf_offset r) (cur_type r) = Some n \<and>
             0 \<le> n \<and> 0 \<le> buf_offset r \<and> buf_offset r + n \<le> cur_doc_end r))"

definition reader_inv :: "bson_reader \<Rightarrow> bool" where
  "reader_inv r \<longleftrightarrow>
     sorted (ends r) \<and> 0 \<le> cur_doc_end r \<and> outer_end r + 5 \<le> int (length (buffer r)) \<and>
     0 \<le> cur_doc_begin r \<and> cur_doc_begin r \<le> outer_end r + 4 \<and>
     length (doc_layers r) \<le> k_max_subdocs \<and> cursor_ok r \<and> cur_type r \<noteq> ELEMENT_UNSUPPORTED"

text \<open>Where the next type byte will be read.\<close>

definition next_pos :: "bson_reader \<Rightarrow> int" where
  "next_pos r = buf_offset r +
     (case skip_len (buffer r) (buf_offset r) (cur_type r) of None \<Rightarrow> 0 | Some n \<Rightarrow> n)"

definition same_doc :: "bson_reader \<Rightarrow> bson_reader \<Rightarrow> bool" where
  "same_doc r r' \<longleftrightarrow> doc_layers r' = doc_layers r \<and> buffer r' = buffer r \<and>
     cur_doc_begin r' = cur_doc_begin r \<and> cur_doc_end r' = cur_doc_end r"

lemma cur_doc_end_le_outer: "sorted (ends r) \<Longrightarrow> cur_doc_end r \<le> outer_end r"
  by (auto simp: ends_def outer_end_def last_map)

lemma geti32_Some: "0 \<le> off \<Longrightarrow> off + 4 \<le> int (length buf) \<Longrightarrow> \<exists>n. geti32 buf off = Some n"
  using rd_bytes_Some [of off 4 buf] by (auto simp: geti32_def)

lemma skip_len_Some:
  "0 \<le> off \<Longrightarrow> off + 4 \<le> int (length buf) \<Longrightarrow> \<exists>n. skip_len buf off t = Some n"
  using geti32_Some [of off buf] by (cases t) auto

lemma needed_size_Some:
  "0 \<le> off \<Longrightarrow> off + 4 \<le> int (length buf) \<Longrightarrow> \<exists>n. needed_size buf off t = Some n"
  using geti32_Some [of off buf] by (cases t) auto

text \<open>A value that fits has been measured exactly, except that the terminator is counted for the
  eight-byte values.\<close>

lemma needed_size_skip_len:
  "needed_size buf off t = Some m \<Longrightarrow> 0 \<le> m \<Longrightarrow>
     \<exists>n. skip_len buf off t = Some n \<and> 0 \<le> n \<and> n \<le> m"
  by (cases t) auto

lemma scan_key_Some:
  "0 \<le> off \<Longrightarrow> e \<le> int (length buf) \<Longrightarrow>
   \<exists>x. scan_key buf off e = Some x \<and> (\<forall>z. x = Some z \<longrightarrow> off \<le> z \<and> z < e)"
proof (induction buf off e rule: scan_key.induct)
  case (1 buf off e)
  show ?case
  proof (cases "off < e")
    case True
    then obtain b where b: "rd_byte buf off = Some b"
      using "1.prems" rd_byte_Some [of off buf] by auto
    show ?thesis
    proof (cases "b = 0")
      case False
      obtain x where "scan_key buf (off + 1) e = Some x" "\<forall>z. x = Some z \<longrightarrow> off + 1 \<le> z \<and> z < e"
        using "1.IH" [OF True b False] "1.prems" by auto
      then show ?thesis using True b False by (auto simp: scan_key.simps [of buf off e])
    qed (use True b in \<open>simp add: scan_key.simps [of buf off e]\<close>)
  qed (simp add: scan_key.simps [of buf off e])
qed

lemma readKey_Some:
  assumes "0 \<le> buf_offset r" "cur_doc_end r \<le> int (length (buffer r))"
  shows "\<exists>r'. readKey r = Some (False, r') \<and> same_doc r r' \<or>
              readKey r = Some (True, r') \<and> same_doc r r' \<and> arr_index r' = arr_index r \<and>
              cur_type r' = cur_type r \<and>
              buf_offset r + 1 \<le> buf_offset r' \<and> buf_offset r' \<le> cur_doc_end r"
proof -
  obtain x where x: "scan_key (buffer r) (buf_offset r) (cur_doc_end r) = Some x"
    "\<forall>z. x = Some z \<longrightarrow> buf_offset r \<le> z \<and> z < cur_doc_end r"
    using scan_key_Some [OF assms] by blast
  then show ?thesis
    by (cases x) (auto simp: readKey_def same_doc_def)
qed

section \<open>Reading the next element\<close>

lemma reader_inv_same_doc:
  assumes "reader_inv r" "same_doc r r'" "cursor_ok r'" "cur_type r' \<noteq> ELEMENT_UNSUPPORTED"
  shows "reader_inv r'"
  using assms by (simp add: reader_inv_def same_doc_def ends_def outer_end_def)

lemma same_doc_outer: "same_doc r r' \<Longrightarrow> outer_end r' = outer_end r \<and> ends r' = ends r"
  by (simp add: same_doc_def outer_end_def ends_def)

lemma read_element_spec:
  assumes "0 \<le> buf_offset r" "buf_offset r \<le> outer_end r + 4" "sorted (ends r)"
    "outer_end r + 5 \<le> int (length (buffer r))"
  shows "\<exists>t r'. read_element r = Some (t, r') \<and> same_doc r r' \<and> cur_type r' = t \<and> cursor_ok r' \<and>
           t \<noteq> ELEMENT_INTERNAL_DOC_BEGIN \<and> t \<noteq> ELEMENT_UNSUPPORTED \<and>
           (et_code t > 0 \<longrightarrow> buf_offset r + 2 \<le> buf_offset r')"
proof -
  obtain b where b: "rd_byte (buffer r) (buf_offset r) = Some b"
    using rd_byte_Some [of "buf_offset r" "buffer r"] assms by auto
  let ?t = "type_of_byte b"
  let ?r1 = "r\<lparr>element_start_offset := buf_offset r, cur_type := ?t, buf_offset := buf_offset r + 1\<rparr>"
  have sd: "same_doc r ?r1" by (simp add: same_doc_def)
  show ?thesis
  proof (cases "?t = ELEMENT_END")
    case True
    then show ?thesis using b by (simp add: read_element_def Let_def same_doc_def cursor_ok_def)
  next
    case not_end: False
    have tne: "?t \<noteq> ELEMENT_INTERNAL_DOC_BEGIN" by (simp add: type_of_byte_def)
    have le: "cur_doc_end r + 5 \<le> int (length (buffer r))"
      using cur_doc_end_le_outer [OF assms(3)] assms(4) by simp
    have *: "read_element r = (case readKey ?r1 of
             None \<Rightarrow> None
           | Some (False, r2) \<Rightarrow> Some (ELEMENT_FORMAT_ERROR, r2\<lparr>cur_type := ELEMENT_FORMAT_ERROR\<rparr>)
           | Some (True, r2) \<Rightarrow>
               (case needed_size (buffer r2) (buf_offset r2) ?t of
                  None \<Rightarrow> None
                | Some value_size \<Rightarrow>
                    if value_size < 0 \<or> buf_offset r2 + value_size > cur_doc_end r2
                    then Some (ELEMENT_FORMAT_ERROR, r2\<lparr>cur_type := ELEMENT_FORMAT_ERROR\<rparr>)
                    else Some (?t, if arr_index r2 \<ge> -1 then r2\<lparr>arr_index := arr_index r2 + 1\<rparr>
                                  else r2)))"
      using b not_end by (simp add: read_element_def Let_def)
    obtain r2 where r2: "readKey ?r1 = Some (False, r2) \<and> same_doc ?r1 r2 \<or>
        readKey ?r1 = Some (True, r2) \<and> same_doc ?r1 r2 \<and> arr_index r2 = arr_index r \<and>
        cur_type r2 = ?t \<and> buf_offset r + 2 \<le> buf_offset r2 \<and> buf_offset r2 \<le> cur_doc_end r"
      using readKey_Some [of ?r1] assms(1) le by auto
    then show ?thesis
    proof (elim disjE conjE)
      assume "readKey ?r1 = Some (False, r2)" "same_doc ?r1 r2"
      then show ?thesis using * by (simp add: same_doc_def cursor_ok_def)
    next
      assume k: "readKey ?r1 = Some (True, r2)" "same_doc ?r1 r2" "cur_type r2 = ?t"
        "buf_offset r + 2 \<le> buf_offset r2" "buf_offset r2 \<le> cur_doc_end r"
      have buf2: "buffer r2 = buffer r" "cur_doc_end r2 = cur_doc_end r" "same_doc r r2"
        using k(2) by (simp_all add: same_doc_def)
      obtain m where m: "needed_size (buffer r) (buf_offset r2) ?t = Some m"
        using needed_size_Some [of "buf_offset r2" "buffer r" ?t] assms(1) k(4,5) le by auto
      show ?thesis
      proof (cases "m < 0 \<or> buf_offset r2 + m > cur_doc_end r")
        case True
        then show ?thesis using * k(1) buf2 m by (simp add: same_doc_def cursor_ok_def)
      next
        case False
        then obtain n where n: "skip_len (buffer r) (buf_offset r2) ?t = Some n" "0 \<le> n" "n \<le> m"
          using needed_size_skip_len [OF m] by auto
        have sup: "?t \<noteq> ELEMENT_UNSUPPORTED" using False m by (cases ?t) auto
        show ?thesis
          using * k buf2 m n False sup tne assms(1)
          by (auto simp: same_doc_def cursor_ok_def)
      qed
    qed
  qed
qed

lemma bson_next_spec:
  assumes inv: "reader_inv r"
  shows "\<exists>t r'. bson_next r = Some (t, r') \<and> reader_inv r' \<and> same_doc r r' \<and> cur_type r' = t \<and>
           t \<noteq> ELEMENT_INTERNAL_DOC_BEGIN \<and> t \<noteq> ELEMENT_UNSUPPORTED \<and>
           (et_code t > 0 \<longrightarrow> next_pos r + 2 \<le> next_pos r' \<and> next_pos r + 2 \<le> buf_offset r' \<and>
              next_pos r' \<le> cur_doc_end r)"
proof (cases "cur_type r \<in> {ELEMENT_END, ELEMENT_FORMAT_ERROR, ELEMENT_UNSUPPORTED}")
  case True
  then show ?thesis using inv by (auto simp: bson_next_unfold same_doc_def reader_inv_def)
next
  case False
  have *: "\<exists>n. skip_len (buffer r) (buf_offset r) (cur_type r) = Some n \<and> 0 \<le> buf_offset r + n \<and>
             buf_offset r + n \<le> outer_end r + 4"
  proof (cases "cur_type r = ELEMENT_INTERNAL_DOC_BEGIN")
    case True
    then show ?thesis using inv by (simp add: reader_inv_def cursor_ok_def)
  next
    case nb: False
    then have "et_code (cur_type r) > 0" using False by (cases "cur_type r") auto
    then show ?thesis
      using inv nb cur_doc_end_le_outer [of r] by (force simp: reader_inv_def cursor_ok_def)
  qed
  then obtain n where n: "skip_len (buffer r) (buf_offset r) (cur_type r) = Some n"
    "0 \<le> buf_offset r + n" "buf_offset r + n \<le> outer_end r + 4" by blast
  let ?r = "r\<lparr>buf_offset := buf_offset r + n\<rparr>"
  have sd: "same_doc r ?r" by (simp add: same_doc_def)
  obtain t r' where r': "read_element ?r = Some (t, r')" "same_doc ?r r'" "cur_type r' = t"
    "cursor_ok r'" "t \<noteq> ELEMENT_INTERNAL_DOC_BEGIN" "t \<noteq> ELEMENT_UNSUPPORTED"
    "et_code t > 0 \<longrightarrow> buf_offset r + n + 2 \<le> buf_offset r'"
    using read_element_spec [of ?r] n inv same_doc_outer [OF sd] by (auto simp: reader_inv_def)
  have nx: "next_pos r = buf_offset r + n" using n by (simp add: next_pos_def)
  have sd': "same_doc r r'" using r'(2) by (simp add: same_doc_def)
  have pos: "buf_offset r' \<le> next_pos r' \<and> next_pos r' \<le> cur_doc_end r" if "et_code t > 0"
    using that r'(3,4,5) sd' by (auto simp: cursor_ok_def next_pos_def same_doc_def)
  show ?thesis
    using False n(1) r' nx sd' pos reader_inv_same_doc [OF inv sd' r'(4)] r'(3,6)
    by (auto simp: bson_next_unfold)
qed

section \<open>The strict build\<close>

text \<open>The element at which \<^verbatim>\<open>next\<close> gave up has an unsupported type, or a length whose sum overflows.\<close>

definition stopping_element :: "bson_reader \<Rightarrow> bool" where
  "stopping_element r \<longleftrightarrow>
     (\<exists>b. rd_byte (buffer r) (element_start_offset r) = Some b \<and> type_of_byte b = ELEMENT_UNSUPPORTED) \<or>
     (\<exists>n. geti32 (buffer r) (buf_offset r) = Some n \<and> n > 2147483642)"

lemma geti32_range: "geti32 buf off = Some n \<Longrightarrow> -2147483648 \<le> n \<and> n \<le> 2147483647"
  by (auto simp: geti32_def i32_def)

lemma i32_add:
  assumes "-2147483648 \<le> n \<and> n \<le> 2147483647" "0 \<le> k" "k \<le> 5"
  shows "i32 (n + k) = (if n + k > 2147483647 then n + k - 4294967296 else n + k)"
proof (cases "n + k > 2147483647")
  case True
  have "(n + k + 2147483648) mod 4294967296 = (n + k - 2147483648 + 4294967296) mod 4294967296" by (simp add: algebra_simps)
  also have "\<dots> = n + k - 2147483648" unfolding mod_add_self2 using True assms by (intro mod_pos_pos_trivial) auto
  finally show ?thesis using True by (simp add: i32_def)
next
  case False
  then show ?thesis using assms by (simp add: i32_def)
qed

lemma geti32_add:
  assumes "geti32 buf off = Some n" "0 \<le> k" "k \<le> 5"
  shows "i32 (n + k) = (if n + k > 2147483647 then n + k - 4294967296 else n + k)"
  using i32_add [OF geti32_range [OF assms(1)] assms(2,3)] .

lemma skip_len_strict: "skip_len buf off t = Some n \<Longrightarrow> 0 \<le> n \<Longrightarrow> skip_len_strict buf off t = Some n"
  using geti32_add [of buf off _ 4] geti32_add [of buf off _ 5] geti32_range [of buf off]
  by (cases t) (force simp: skip_len_strict_def add_strict_def split: if_splits)+

lemma needed_size_strict:
  assumes "needed_size buf off t = Some m"
  shows "needed_size_strict buf off t = Some m \<or> needed_size_strict buf off t = None \<and> m < 0 \<and>
    (t = ELEMENT_UNSUPPORTED \<or> (\<exists>n. geti32 buf off = Some n \<and> n > 2147483642))"
  using assms geti32_add [of buf off _ 4] geti32_add [of buf off _ 5] geti32_range [of buf off]
  by (cases t) (force simp: needed_size_strict_def add_strict_def split: if_splits)+

lemma readKey_start: "readKey r = Some (ok, r') \<Longrightarrow> element_start_offset r' = element_start_offset r \<and> buffer r' = buffer r"
  by (auto simp: readKey_def split: option.splits)

lemma read_element_strict:
  assumes "read_element r \<noteq> None"
  shows "read_element_with needed_size_strict r = read_element r \<or>
    read_element_with needed_size_strict r = None \<and> (\<exists>r'. read_element r = Some (ELEMENT_FORMAT_ERROR, r') \<and> stopping_element r')"
proof -
  obtain b where b: "rd_byte (buffer r) (buf_offset r) = Some b"
    using assms by (cases "rd_byte (buffer r) (buf_offset r)") (simp_all add: read_element_with_def)
  define t where "t = type_of_byte b"
  define r1 where "r1 = r\<lparr>element_start_offset := buf_offset r, cur_type := t, buf_offset := buf_offset r + 1\<rparr>"
  show ?thesis
  proof (cases "t = ELEMENT_END")
    case True
    then show ?thesis using b by (simp add: read_element_with_def t_def Let_def)
  next
    case False
    have R: "read_element_with f r = (case readKey r1 of
             None \<Rightarrow> None
           | Some (False, r2) \<Rightarrow> Some (ELEMENT_FORMAT_ERROR, r2\<lparr>cur_type := ELEMENT_FORMAT_ERROR\<rparr>)
           | Some (True, r2) \<Rightarrow>
               (case f (buffer r2) (buf_offset r2) t of
                  None \<Rightarrow> None
                | Some value_size \<Rightarrow>
                    if value_size < 0 \<or> buf_offset r2 + value_size > cur_doc_end r2
                    then Some (ELEMENT_FORMAT_ERROR, r2\<lparr>cur_type := ELEMENT_FORMAT_ERROR\<rparr>)
                    else Some (t, if arr_index r2 \<ge> -1 then r2\<lparr>arr_index := arr_index r2 + 1\<rparr> else r2)))" for f
      using b False by (simp add: read_element_with_def t_def [symmetric] r1_def Let_def)
    obtain ok r2 where k: "readKey r1 = Some (ok, r2)" using assms R [of needed_size] by (cases "readKey r1") auto
    show ?thesis
    proof (cases ok)
      case False
      then show ?thesis using R k by simp
    next
      case True
      obtain m where m: "needed_size (buffer r2) (buf_offset r2) t = Some m"
        using assms R [of needed_size] k True by (cases "needed_size (buffer r2) (buf_offset r2) t") auto
      have e: "element_start_offset r2 = buf_offset r" "buffer r2 = buffer r"
        using readKey_start [OF k] by (simp_all add: r1_def)
      show ?thesis
      proof (cases "needed_size_strict (buffer r2) (buf_offset r2) t = Some m")
        case True
        then show ?thesis using R k m \<open>ok\<close> by simp
      next
        case False
        then have n: "needed_size_strict (buffer r2) (buf_offset r2) t = None" "m < 0"
          "t = ELEMENT_UNSUPPORTED \<or> (\<exists>n. geti32 (buffer r2) (buf_offset r2) = Some n \<and> n > 2147483642)"
          using needed_size_strict [OF m] by auto
        then have "stopping_element (r2\<lparr>cur_type := ELEMENT_FORMAT_ERROR\<rparr>)"
          using e b by (auto simp: stopping_element_def t_def)
        then show ?thesis using R k m n(1,2) \<open>ok\<close> by auto
      qed
    qed
  qed
qed

lemma bson_next_strict:
  assumes "reader_inv r"
  shows "bson_next_strict r = bson_next r \<or>
    bson_next_strict r = None \<and> (\<exists>r'. bson_next r = Some (ELEMENT_FORMAT_ERROR, r') \<and> stopping_element r')"
proof (cases "cur_type r \<in> {ELEMENT_END, ELEMENT_FORMAT_ERROR, ELEMENT_UNSUPPORTED}")
  case True
  then show ?thesis by (auto simp: bson_next_unfold bson_next_strict_def bson_next_with_def)
next
  case False
  have "et_code (cur_type r) > 0 \<or> cur_type r = ELEMENT_INTERNAL_DOC_BEGIN" using False by (cases "cur_type r") auto
  then obtain n where n: "skip_len (buffer r) (buf_offset r) (cur_type r) = Some n" "0 \<le> n"
    using assms by (auto simp: reader_inv_def cursor_ok_def split: if_splits)
  let ?r = "r\<lparr>buf_offset := buf_offset r + n\<rparr>"
  have "bson_next r = read_element ?r" "bson_next_strict r = read_element_with needed_size_strict ?r"
    using False n(1) skip_len_strict [OF n] by (auto simp: bson_next_unfold bson_next_strict_def bson_next_with_def)
  moreover have "bson_next r \<noteq> None" using bson_next_spec [OF assms] by auto
  ultimately show ?thesis using read_element_strict [of ?r] by simp
qed

section \<open>Every operation keeps the invariant\<close>

lemma seekBegin_inv: "reader_inv r \<Longrightarrow> reader_inv (seekBegin r)"
  by (auto simp: reader_inv_def seekBegin_def Let_def cursor_ok_def ends_def outer_end_def)

lemma seekBegin_same_doc: "same_doc r (seekBegin r)"
  by (simp add: seekBegin_def Let_def same_doc_def)

lemma bson_seek_spec:
  assumes "reader_inv r"
  shows "\<exists>t r'. bson_seek r eo = Some (t, r') \<and> reader_inv r' \<and> same_doc r r'"
proof (cases "eo_offset eo \<ge> cur_doc_begin r \<and> eo_offset eo < cur_doc_end r")
  case True
  let ?r = "r\<lparr>cur_type := ELEMENT_INTERNAL_DOC_BEGIN, buf_offset := eo_offset eo,
              arr_index := eo_arr_index eo\<rparr>"
  have sd: "same_doc r ?r" by (simp add: same_doc_def)
  have "cursor_ok ?r"
    using True assms cur_doc_end_le_outer [of r] same_doc_outer [OF sd]
    by (auto simp: reader_inv_def cursor_ok_def)
  from bson_next_spec [OF reader_inv_same_doc [OF assms sd this]] sd True show ?thesis
    by (auto simp: bson_seek_def same_doc_def)
next
  case False
  then show ?thesis using assms by (auto simp: bson_seek_def same_doc_def)
qed

text \<open>The search loops end: every element moves the cursor forward inside the document.\<close>

lemma seek_loop_spec:
  assumes "reader_inv r"
  shows "\<exists>t r'. seek_loop found r = Some (t, r') \<and> reader_inv r' \<and> same_doc r r' \<and>
           (et_code t > 0 \<longrightarrow> found r')"
  using assms
proof (induction "nat (outer_end r + 5 - next_pos r)" arbitrary: r rule: less_induct)
  case less
  obtain t r' where n: "bson_next r = Some (t, r')" "reader_inv r'" "same_doc r r'" "cur_type r' = t"
    "et_code t > 0 \<longrightarrow> next_pos r + 2 \<le> next_pos r' \<and> next_pos r' \<le> cur_doc_end r"
    using bson_next_spec [OF less.prems] by blast
  show ?case
  proof (cases "et_code t > 0 \<and> \<not> found r'")
    case True
    have "nat (outer_end r' + 5 - next_pos r') < nat (outer_end r + 5 - next_pos r)"
      using True n(5) less.prems cur_doc_end_le_outer [of r] same_doc_outer [OF n(3)]
      by (auto simp: reader_inv_def)
    from less.hyps [OF this n(2)] show ?thesis
      using True n(1,3) by (auto simp: seek_loop.simps [of found r] same_doc_def)
  next
    case False
    then show ?thesis using n by (auto simp: seek_loop.simps [of found r])
  qed
qed

lemma seek_restore_spec:
  assumes "reader_inv r"
  shows "\<exists>t' r'. seek_restore eo (t, r) = Some (t', r') \<and> reader_inv r' \<and> same_doc r r' \<and> t' = t \<and>
           (t \<noteq> ELEMENT_END \<longrightarrow> r' = r)"
  using bson_seek_spec [OF assms, of eo] assms
  by (auto simp: seek_restore_def same_doc_def)

lemma same_doc_trans: "same_doc a b \<Longrightarrow> same_doc b c \<Longrightarrow> same_doc a c"
  by (simp add: same_doc_def)

lemma seek_found_spec:
  assumes "reader_inv r" "same_doc s r"
  shows "\<exists>t r'. (case seek_loop found r of None \<Rightarrow> None | Some tr \<Rightarrow> seek_restore eo tr) = Some (t, r') \<and>
           reader_inv r' \<and> same_doc s r' \<and> (et_code t > 0 \<longrightarrow> found r')"
proof -
  obtain t r1 where 1: "seek_loop found r = Some (t, r1)" "reader_inv r1" "same_doc r r1"
    "et_code t > 0 \<longrightarrow> found r1"
    using seek_loop_spec [OF assms(1)] by blast
  obtain r2 where "seek_restore eo (t, r1) = Some (t, r2)" "reader_inv r2" "same_doc r1 r2"
    "t \<noteq> ELEMENT_END \<longrightarrow> r2 = r1"
    using seek_restore_spec [OF 1(2)] by blast
  then show ?thesis using 1 assms(2) by (auto intro: same_doc_trans)
qed

lemma seekKey_spec:
  "reader_inv r \<Longrightarrow> \<exists>t r'. seekKey k r = Some (t, r') \<and> reader_inv r' \<and> same_doc r r' \<and>
     (et_code t > 0 \<longrightarrow> rd_key r' = k)"
  using seek_found_spec [OF seekBegin_inv seekBegin_same_doc, where found = "\<lambda>r'. rd_key r' = k"]
  by (simp add: seekKey_def)

lemma seekNextKey_spec:
  "reader_inv r \<Longrightarrow> \<exists>t r'. seekNextKey k r = Some (t, r') \<and> reader_inv r' \<and> same_doc r r' \<and>
     (et_code t > 0 \<longrightarrow> rd_key r' = k)"
  using seek_found_spec [of r r, where found = "\<lambda>r'. rd_key r' = k"] by (simp add: seekNextKey_def same_doc_def)

lemma seekIndex_spec:
  assumes "reader_inv r"
  shows "\<exists>t r'. seekIndex i r = Some (t, r') \<and> reader_inv r' \<and> same_doc r r' \<and>
     (et_code t > 0 \<longrightarrow> arr_index r' = i)"
proof -
  let ?s = "if arr_index r > i then seekBegin r else r"
  have "reader_inv ?s" "same_doc r ?s"
    using assms seekBegin_inv seekBegin_same_doc by (auto simp: same_doc_def)
  from seek_found_spec [OF this, where found = "\<lambda>r'. arr_index r' = i"] show ?thesis
    using assms by (auto simp: seekIndex_def same_doc_def)
qed

lemma beginSub_spec:
  assumes "reader_inv r"
  shows "\<exists>ok r'. beginSub r = Some (ok, r') \<and> reader_inv r' \<and> buffer r' = buffer r \<and>
           outer_end r' = outer_end r \<and> (\<not> ok \<longrightarrow> r' = r) \<and>
           (ok \<longrightarrow> length (doc_layers r') = Suc (length (doc_layers r)) \<and>
              cur_type r' = ELEMENT_INTERNAL_DOC_BEGIN \<and>
              buf_offset r \<le> next_pos r' \<and> buf_offset r \<le> cur_doc_end r')"
proof (cases "(cur_type r = ELEMENT_DOC \<or> cur_type r = ELEMENT_ARRAY) \<and> length (doc_layers r) \<noteq> k_max_subdocs")
  case True
  then obtain n where n: "geti32 (buffer r) (buf_offset r) = Some n" "0 \<le> n" "0 \<le> buf_offset r"
    "buf_offset r + n \<le> cur_doc_end r"
    using assms by (auto simp: reader_inv_def cursor_ok_def)
  define r' where "r' = r\<lparr>
      doc_layers := \<lparr>begin_offset = cur_doc_begin r, end_offset = cur_doc_end r,
                     ds_arr_index = arr_index r\<rparr> # doc_layers r,
      cur_doc_end := buf_offset r + n, buf_offset := buf_offset r + 4,
      cur_doc_begin := buf_offset r + 4,
      arr_index := (if cur_type r = ELEMENT_ARRAY then -1 else -2),
      cur_type := ELEMENT_INTERNAL_DOC_BEGIN\<rparr>"
  have e: "ends r' = (buf_offset r + n) # ends r" by (simp add: r'_def ends_def)
  then have o: "outer_end r' = outer_end r" by (simp add: outer_end_def ends_def)
  have le: "cur_doc_end r \<le> outer_end r" "sorted (ends r)"
    using assms cur_doc_end_le_outer by (simp_all add: reader_inv_def)
  have s: "sorted (ends r')" using le(2) n(4) unfolding e by (auto simp: ends_def)
  have "reader_inv r'"
    using s o n True assms le(1) unfolding reader_inv_def cursor_ok_def by (simp add: r'_def)
  moreover have "beginSub r = Some (True, r')"
    using True n(1) by (auto simp: beginSub_def r'_def)
  moreover have "next_pos r' = buf_offset r + 4" by (simp add: next_pos_def r'_def)
  ultimately show ?thesis using o n by (auto simp: r'_def)
next
  case False
  then show ?thesis using assms by (auto simp: beginSub_def)
qed

lemma endSub_spec:
  assumes "reader_inv r" "endSub r = (ok, r')"
  shows "reader_inv r' \<and> buffer r' = buffer r \<and> outer_end r' = outer_end r \<and> (\<not> ok \<longrightarrow> r' = r) \<and>
         (ok \<longrightarrow> length (doc_layers r) = Suc (length (doc_layers r')) \<and>
            cur_type r' = ELEMENT_INTERNAL_DOC_BEGIN \<and>
            next_pos r' = cur_doc_end r \<and> cur_doc_end r \<le> cur_doc_end r')"
proof (cases "doc_layers r")
  case Nil
  then show ?thesis using assms by (simp add: endSub_def)
next
  case (Cons st layers)
  have "cur_doc_end r \<le> outer_end r" using assms cur_doc_end_le_outer by (simp add: reader_inv_def)
  then show ?thesis
    using assms Cons
    by (auto simp: endSub_def reader_inv_def ends_def outer_end_def cursor_ok_def next_pos_def)
qed

section \<open>Validation ends\<close>

text \<open>The progress measure: the cursor, cut off at the end of the current document, moves towards
  the end of the outermost one, and leaving a subdocument shortens the stack.\<close>

definition progress :: "bson_reader \<Rightarrow> nat" where
  "progress r = nat (2 * (outer_end r - min (next_pos r) (cur_doc_end r))) + length (doc_layers r)"

lemma progress_next:
  assumes "reader_inv r" "bson_next r = Some (t, r')" "et_code t > 0"
  shows "progress r' < progress r \<and> reader_inv r' \<and> same_doc r r' \<and> cur_type r' = t \<and>
         buf_offset r' \<ge> min (next_pos r) (cur_doc_end r) + 2"
proof -
  have n: "reader_inv r'" "same_doc r r'" "cur_type r' = t"
    "next_pos r + 2 \<le> next_pos r'" "next_pos r + 2 \<le> buf_offset r'" "next_pos r' \<le> cur_doc_end r"
    using bson_next_spec [OF assms(1)] assms(2,3) by auto
  moreover have "cur_doc_end r \<le> outer_end r" using assms(1) cur_doc_end_le_outer
    by (simp add: reader_inv_def)
  ultimately show ?thesis
    using same_doc_outer [OF n(2)] by (auto simp: progress_def same_doc_def)
qed

lemma progress_beginSub:
  assumes "reader_inv r" "beginSub r = Some (True, r')" "e \<le> buf_offset r" "e + 2 \<le> buf_offset r"
  shows "progress r' < nat (2 * (outer_end r - e)) + length (doc_layers r)"
proof -
  have b: "outer_end r' = outer_end r" "length (doc_layers r') = Suc (length (doc_layers r))"
    "buf_offset r \<le> next_pos r'" "buf_offset r \<le> cur_doc_end r'" "reader_inv r'"
    using beginSub_spec [OF assms(1)] assms(2) by auto
  have "cur_doc_end r' \<le> outer_end r'" using b(5) cur_doc_end_le_outer by (simp add: reader_inv_def)
  then show ?thesis using b assms(3,4) by (auto simp: progress_def)
qed

lemma validate_run_total:
  assumes "reader_inv r" "depth \<le> int (length (doc_layers r))"
  shows "\<exists>ok r'. validate_run bson_next r depth = Some (ok, r') \<and> reader_inv r' \<and>
    (validate_run bson_next_strict r depth = Some (ok, r') \<or> validate_run bson_next_strict r depth = None \<and> \<not> ok)"
  using assms
proof (induction "progress r" arbitrary: r depth rule: less_induct)
  case less
  obtain t r1 where n: "bson_next r = Some (t, r1)" "reader_inv r1" "same_doc r r1" "cur_type r1 = t"
    "t \<noteq> ELEMENT_INTERNAL_DOC_BEGIN" "t \<noteq> ELEMENT_UNSUPPORTED"
    using bson_next_spec [OF less.prems(1)] by blast
  note step = validate_run.simps [of _ r depth]
  show ?case
  proof (cases "bson_next_strict r = bson_next r")
    case False
    then have "bson_next_strict r = None" "t = ELEMENT_FORMAT_ERROR" using bson_next_strict [OF less.prems(1)] n(1) by auto
    then show ?thesis using n(1,2) by (intro exI [of _ False] exI [of _ r1]) (simp add: step)
  next
    case same: True
    consider (err) "t = ELEMENT_FORMAT_ERROR" | (stop) "t = ELEMENT_END" "depth \<le> 0"
      | (leave) "t = ELEMENT_END" "depth > 0" | (enter) "t = ELEMENT_DOC \<or> t = ELEMENT_ARRAY"
      | (scalar) "et_code t > 0" "t \<noteq> ELEMENT_DOC" "t \<noteq> ELEMENT_ARRAY"
      using n(5,6) by (cases t; cases "depth > 0") auto
    then show ?thesis
    proof cases
      case err
      then show ?thesis using n(1,2) same by (intro exI [of _ False] exI [of _ r1]) (simp add: step)
    next
      case stop
      then show ?thesis using n(1,2) same by (intro exI [of _ True] exI [of _ r1]) (simp add: step)
    next
      case leave
      obtain ok r2 where e: "endSub r1 = (ok, r2)" by force
      note es = endSub_spec [OF n(2) e]
      show ?thesis
      proof (cases ok)
        case True
        have le: "cur_doc_end r2 \<le> outer_end r2"
          using es by (intro cur_doc_end_le_outer) (simp add: reader_inv_def)
        have p: "progress r2 < progress r"
          using es True n(3) le same_doc_outer [OF n(3)] by (auto simp: progress_def same_doc_def)
        have "depth - 1 \<le> int (length (doc_layers r2))"
          using es True n(3) less.prems(2) by (simp add: same_doc_def)
        from less.hyps [OF p _ this] es show ?thesis using leave n(1) same e True by (simp add: step)
      next
        case False
        then show ?thesis using leave n(1,2) same e es by (intro exI [of _ False] exI [of _ r2]) (simp add: step)
      qed
    next
      case enter
      then have p: "min (next_pos r) (cur_doc_end r) + 2 \<le> buf_offset r1"
        using progress_next [OF less.prems(1) n(1)] by auto
      obtain ok r2 where b: "beginSub r1 = Some (ok, r2)" using beginSub_spec [OF n(2)] by blast
      note bs = beginSub_spec [OF n(2)]
      show ?thesis
      proof (cases ok)
        case True
        have p: "progress r2 < progress r"
          using progress_beginSub [OF n(2), of r2 "min (next_pos r) (cur_doc_end r)"] b True p n(3)
            same_doc_outer [OF n(3)] by (auto simp: progress_def same_doc_def)
        have d: "depth + 1 \<le> int (length (doc_layers r2))" "reader_inv r2"
          using bs b True n(3) less.prems(2) by (auto simp: same_doc_def)
        from less.hyps [OF p d(2,1)] show ?thesis using enter n(1) same b True by (auto simp: step)
      qed (use enter n(1,2) same b bs in \<open>auto simp: step\<close>)
    next
      case scalar
      then have p: "progress r1 < progress r" using progress_next [OF less.prems(1) n(1)] by auto
      have "depth \<le> int (length (doc_layers r1))" using n(3) less.prems(2) by (simp add: same_doc_def)
      moreover have "t \<noteq> ELEMENT_END" "t \<noteq> ELEMENT_FORMAT_ERROR" using scalar(1) by auto
      then have "validate_run bson_next r depth = validate_run bson_next r1 depth"
        "validate_run bson_next_strict r depth = validate_run bson_next_strict r1 depth"
        using scalar n(1) same by (simp_all add: step)
      ultimately show ?thesis using less.hyps [OF p n(2)] by simp
    qed
  qed
qed

section \<open>Construction, and the reader as a transition system\<close>

text \<open>A buffer in which the declared document is followed by five readable bytes, so that the last
  offset is an \<^verbatim>\<open>int32_t\<close>.\<close>

definition padded :: "bytes \<Rightarrow> int \<Rightarrow> bool" where
  "padded buf s \<longleftrightarrow> s \<le> int (length buf) \<and>
     (\<forall>n. getTotalDocumentSize buf = Some n \<longrightarrow> n + 5 \<le> int (length buf) \<and> n < 2147483640)"

lemma bson_reader_sized_spec:
  assumes "padded buf s"
  shows "\<exists>r. bson_reader_sized (Some buf) s = Some r \<and> (reader_inv r \<or> cur_type r = ELEMENT_FORMAT_ERROR)"
proof (cases "s < 5")
  case True
  then show ?thesis by (simp add: bson_reader_sized_def)
next
  case False
  then obtain n where "geti32 buf 0 = Some n" using geti32_Some [of 0 buf] assms by (auto simp: padded_def)
  then show ?thesis
    using False assms
    by (auto simp: bson_reader_sized_def padded_def getTotalDocumentSize_def reader_inv_def ends_def
        outer_end_def cursor_ok_def reader_members_def k_max_subdocs_def Let_def)
qed

text \<open>The operations a client may call, as steps.\<close>

inductive reader_step :: "bson_reader \<Rightarrow> bson_reader \<Rightarrow> bool" where
  next_step: "bson_next r = Some (t, r') \<Longrightarrow> reader_step r r'"
| seekKey_step: "seekKey k r = Some (t, r') \<Longrightarrow> reader_step r r'"
| seekNextKey_step: "seekNextKey k r = Some (t, r') \<Longrightarrow> reader_step r r'"
| seekIndex_step: "seekIndex i r = Some (t, r') \<Longrightarrow> reader_step r r'"
| seek_step: "bson_seek r eo = Some (t, r') \<Longrightarrow> reader_step r r'"
| seekBegin_step: "reader_step r (seekBegin r)"
| beginSub_step: "beginSub r = Some (ok, r') \<Longrightarrow> reader_step r r'"
| endSub_step: "endSub r = (ok, r') \<Longrightarrow> reader_step r r'"
| validate_step: "bson_validate r = Some (ok, r') \<Longrightarrow> reader_step r r'"

lemma reader_step_inv: "reader_step r r' \<Longrightarrow> reader_inv r \<Longrightarrow> reader_inv r'"
proof (induction rule: reader_step.induct)
  case (next_step r t r')
  then show ?case using bson_next_spec [of r] by auto
next
  case (seekKey_step k r t r')
  then show ?case using seekKey_spec [of r k] by auto
next
  case (seekNextKey_step k r t r')
  then show ?case using seekNextKey_spec [of r k] by auto
next
  case (seekIndex_step i r t r')
  then show ?case using seekIndex_spec [of r i] by auto
next
  case (seek_step r eo t r')
  then show ?case using bson_seek_spec [of r eo] by auto
next
  case (seekBegin_step r)
  then show ?case by (rule seekBegin_inv)
next
  case (beginSub_step r ok r')
  then show ?case using beginSub_spec [of r] by auto
next
  case (endSub_step r ok r')
  then show ?case using endSub_spec [of r ok r'] by simp
next
  case (validate_step r ok r')
  then show ?case using validate_run_total [of r 0] by (auto simp: bson_validate_def)
qed

interpretation bson_cursor: invariant_system reader_inv reader_step reader_inv
  by unfold_locales (auto intro: reader_step_inv)

text \<open>What it means for a state that no operation faults or diverges, and when the strict build stops.\<close>

definition no_fault :: "bson_reader \<Rightarrow> bool" where
  "no_fault r \<longleftrightarrow> bson_next r \<noteq> None \<and> (\<forall>k. seekKey k r \<noteq> None) \<and> (\<forall>k. seekNextKey k r \<noteq> None) \<and>
     (\<forall>i. seekIndex i r \<noteq> None) \<and> (\<forall>eo. bson_seek r eo \<noteq> None) \<and> beginSub r \<noteq> None \<and> bson_validate r \<noteq> None"

definition strict_agrees :: "bson_reader \<Rightarrow> bool" where
  "strict_agrees r \<longleftrightarrow> bson_next_strict r = bson_next r \<or>
     bson_next_strict r = None \<and> (\<exists>r'. bson_next r = Some (ELEMENT_FORMAT_ERROR, r') \<and> stopping_element r')"

lemma no_fault_inv:
  assumes "reader_inv r"
  shows "no_fault r"
proof -
  have "bson_next r \<noteq> None" using bson_next_spec [OF assms] by auto
  moreover have "seekKey k r \<noteq> None" for k using seekKey_spec [OF assms, of k] by auto
  moreover have "seekNextKey k r \<noteq> None" for k using seekNextKey_spec [OF assms, of k] by auto
  moreover have "seekIndex i r \<noteq> None" for i using seekIndex_spec [OF assms, of i] by auto
  moreover have "bson_seek r eo \<noteq> None" for eo using bson_seek_spec [OF assms, of eo] by auto
  moreover have "beginSub r \<noteq> None" using beginSub_spec [OF assms] by auto
  moreover have "bson_validate r \<noteq> None" using validate_run_total [OF assms, of 0] by (auto simp: bson_validate_def)
  ultimately show ?thesis by (simp add: no_fault_def)
qed

section \<open>Values\<close>

text \<open>Whether the element under the cursor is a string of a declared length below one, or a binary of a
  negative one; the size check of \<^verbatim>\<open>next\<close> lets both pass.\<close>

definition length_below :: "int \<Rightarrow> bson_reader \<Rightarrow> bool" where
  "length_below k r \<longleftrightarrow> (case geti32 (buffer r) (buf_offset r) of None \<Rightarrow> False | Some n \<Rightarrow> n < k)"

definition values_safe :: "bson_reader \<Rightarrow> bool" where
  "values_safe r \<longleftrightarrow>
     (cur_type r = ELEMENT_DOUBLE \<longrightarrow> doubleValue r \<noteq> None) \<and>
     (cur_type r = ELEMENT_BOOL \<longrightarrow> boolValue r \<noteq> None) \<and>
     (cur_type r = ELEMENT_I32 \<longrightarrow> int32Value r \<noteq> None) \<and>
     (cur_type r = ELEMENT_I64 \<longrightarrow> int64Value r \<noteq> None) \<and>
     (cur_type r = ELEMENT_STR \<longrightarrow> (stringValue r = None \<longleftrightarrow> length_below 1 r)) \<and>
     (cur_type r = ELEMENT_BINARY \<longrightarrow> binaryType r \<noteq> None \<and> (binaryValue r = None \<longleftrightarrow> length_below 0 r)) \<and>
     subdocument r \<noteq> None \<and> rawElement r \<noteq> None"

lemma values_safe_inv:
  assumes "reader_inv r"
  shows "values_safe r"
proof -
  have b: "cur_doc_end r + 5 \<le> int (length (buffer r))"
    using assms cur_doc_end_le_outer [of r] by (simp add: reader_inv_def)
  have c: "\<exists>n. skip_len (buffer r) (buf_offset r) (cur_type r) = Some n \<and> 0 \<le> n \<and> 0 \<le> buf_offset r \<and>
      buf_offset r + n \<le> cur_doc_end r" if "et_code (cur_type r) > 0"
    using assms that by (auto simp: reader_inv_def cursor_ok_def split: if_splits)
  show ?thesis
  proof (cases "et_code (cur_type r) > 0")
    case False
    then show ?thesis by (cases "cur_type r") (auto simp: values_safe_def subdocument_def rawElement_def)
  next
    case True
    then obtain n where n: "skip_len (buffer r) (buf_offset r) (cur_type r) = Some n" "0 \<le> n" "0 \<le> buf_offset r"
      "buf_offset r + n \<le> cur_doc_end r" using c by blast
    obtain x where x: "geti32 (buffer r) (buf_offset r) = Some x" using geti32_Some [of "buf_offset r" "buffer r"] n b by auto
    have raw: "rawElement r \<noteq> None" using True n(1) by (cases "cur_type r") (auto simp: rawElement_def)
    have sub: "subdocument r \<noteq> None" using x by (simp add: subdocument_def)
    show ?thesis
    proof (cases "cur_type r")
      case ELEMENT_STR
      then have "n = x + 4" if "1 \<le> x" using n(1,2) x geti32_add [OF x, of 4] geti32_range [OF x] that by (auto split: if_splits)
      then have "stringValue r = None \<longleftrightarrow> length_below 1 r"
        using x n b by (cases "1 \<le> x") (auto simp: stringValue_def length_below_def rd_bytes_def)
      then show ?thesis using ELEMENT_STR raw sub by (simp add: values_safe_def)
    next
      case ELEMENT_BINARY
      then have "n = x + 5" if "0 \<le> x" using n(1,2) x geti32_add [OF x, of 5] geti32_range [OF x] that by (auto split: if_splits)
      then have "binaryValue r = None \<longleftrightarrow> length_below 0 r" "binaryType r \<noteq> None"
        using x n b by (cases "0 \<le> x"; auto simp: binaryValue_def binaryType_def length_below_def rd_bytes_def rd_byte_def)+
      then show ?thesis using ELEMENT_BINARY raw sub by (simp add: values_safe_def)
    qed (use raw sub n b in \<open>auto simp: values_safe_def doubleValue_def boolValue_def int32Value_def int64Value_def getf64_def
        geti64_def geti32_def rd_bytes_def rd_byte_def\<close>)
  qed
qed

end
