(* ===== verification/Bson_Reader_Spec.thy ===== *)
theory Bson_Reader_Spec
  imports Bson_Reader_Safety
begin

text \<open>
  What \<^verbatim>\<open>BsonReader\<close> reports on a well-formed document: a call of \<^verbatim>\<open>next\<close> in front of an
  encoded element delivers its type, key and value, \<^verbatim>\<open>seekKey\<close> finds the first element with the
  key, and \<^verbatim>\<open>validate\<close> accepts exactly the nesting depths that fit its stack. The buffer is exactly
  the document: on well-formed input no slack is needed.
\<close>

section \<open>Bytes at a position\<close>

definition at_pos :: "bytes \<Rightarrow> int \<Rightarrow> bytes \<Rightarrow> bool" where
  "at_pos buf p bs \<longleftrightarrow> (\<exists>pre post. buf = pre @ bs @ post \<and> p = int (length pre))"

lemma at_pos_append:
  "at_pos buf p (xs @ ys) \<Longrightarrow> at_pos buf p xs \<and> at_pos buf (p + int (length xs)) ys"
  unfolding at_pos_def
proof (elim exE conjE, intro conjI)
  fix pre post assume b: "buf = pre @ (xs @ ys) @ post" "p = int (length pre)"
  show "\<exists>pre post. buf = pre @ xs @ post \<and> p = int (length pre)" using b by auto
  show "\<exists>pre post. buf = pre @ ys @ post \<and> p + int (length xs) = int (length pre)"
    using b by (intro exI [of _ "pre @ xs"] exI [of _ post]) simp
qed

lemma at_pos_Cons:
  "at_pos buf p (x # xs) \<Longrightarrow> rd_byte buf p = Some x \<and> at_pos buf (p + 1) xs"
  using at_pos_append [of buf p "[x]" xs] by (auto simp: at_pos_def rd_byte_def)

lemma at_pos_bounds: "at_pos buf p bs \<Longrightarrow> 0 \<le> p \<and> p + int (length bs) \<le> int (length buf)"
  by (auto simp: at_pos_def)

lemma at_pos_rd_bytes: "at_pos buf p bs \<Longrightarrow> n = length bs \<Longrightarrow> rd_bytes buf p n = Some bs"
  by (auto simp: at_pos_def rd_bytes_def)

lemma at_pos_rd_bytes_prefix: "at_pos buf p (xs @ ys) \<Longrightarrow> n = length xs \<Longrightarrow> rd_bytes buf p n = Some xs"
  by (blast dest: at_pos_append intro: at_pos_rd_bytes)

lemma at_pos_slice: "at_pos buf p (xs @ ys) \<Longrightarrow> slice buf p (p + int (length xs)) = xs"
  by (auto simp: at_pos_def slice_def)

lemma at_pos_geti32: "at_pos buf p (le_bytes 4 x @ ys) \<Longrightarrow> i32_range x \<Longrightarrow> geti32 buf p = Some x"
  by (simp add: geti32_def at_pos_rd_bytes_prefix le_simps)

lemma at_pos_self: "at_pos buf 0 buf"
  by (auto simp: at_pos_def)

lemma scan_key_at_pos:
  assumes "at_pos buf p (k @ 0 # rest)" "0 \<notin> set k" "p + int (length k) < e"
  shows "scan_key buf p e = Some (Some (p + int (length k)))"
  using assms
proof (induction k arbitrary: p)
  case Nil
  then show ?case by (auto simp: scan_key.simps [of buf p e] dest: at_pos_Cons)
next
  case (Cons x k)
  have "rd_byte buf p = Some x" "at_pos buf (p + 1) (k @ 0 # rest)"
    using at_pos_Cons Cons.prems(1) by auto
  then show ?case
    using Cons.IH [of "p + 1"] Cons.prems by (auto simp: scan_key.simps [of buf p e])
qed

section \<open>One element\<close>

text \<open>The cursor on an element: what \<^verbatim>\<open>next\<close> leaves behind.\<close>

definition on_elem :: "bson_reader \<Rightarrow> int \<Rightarrow> bytes \<Rightarrow> bval \<Rightarrow> bson_reader" where
  "on_elem r p k v = r\<lparr>element_start_offset := p, buf_offset := p + int (length k) + 2,
     cur_type := val_type v, rd_key := k,
     arr_index := (if arr_index r \<ge> -1 then arr_index r + 1 else arr_index r)\<rparr>"

lemma type_of_type_byte: "type_of_byte (type_byte (val_type v)) = val_type v"
  by (cases v) (simp_all add: type_byte_def type_of_byte_def)

lemma enc_val_sizes:
  assumes "at_pos buf off (enc_val v)" "int (length buf) < 2147483640"
  shows "skip_len buf off (val_type v) = Some (int (length (enc_val v)))"
    and "\<exists>m. needed_size buf off (val_type v) = Some m \<and> 0 \<le> m \<and> m \<le> int (length (enc_val v)) + 1"
proof -
  have len: "int (length (enc_val v)) < 2147483640" using at_pos_bounds [OF assms(1)] assms(2) by simp
  have doc: "geti32 buf off = Some (int (length body) + 5)"
    if "at_pos buf off (doc_frame body)" "int (length body) + 5 < 2147483640" for body
    using at_pos_geti32 [of buf off "int (length body) + 5"] that
    by (simp add: doc_frame_def i32_range_def)
  have g: "geti32 buf off = Some n" if "enc_val v = le_bytes 4 n @ ys" "0 \<le> n" "n < 2147483640" for n ys
    using at_pos_geti32 [of buf off n ys] assms(1) that by (simp add: i32_range_def)
  show "skip_len buf off (val_type v) = Some (int (length (enc_val v)))"
    using len assms(1) doc g by (cases v) (auto simp: i32_id i32_range_def)
  show "\<exists>m. needed_size buf off (val_type v) = Some m \<and> 0 \<le> m \<and> m \<le> int (length (enc_val v)) + 1"
    using len assms(1) doc g by (cases v) (auto simp: i32_id i32_range_def)
qed

text \<open>A cursor between elements: the next call of \<^verbatim>\<open>next\<close> reads a type byte at the position.\<close>

definition ready :: "bson_reader \<Rightarrow> int \<Rightarrow> bool" where
  "ready r p \<longleftrightarrow> cur_type r \<notin> {ELEMENT_END, ELEMENT_FORMAT_ERROR, ELEMENT_UNSUPPORTED} \<and>
     (\<exists>n. skip_len (buffer r) (buf_offset r) (cur_type r) = Some n \<and> p = buf_offset r + n) \<and>
     int (length (buffer r)) < 2147483640"

lemma bson_next_ready:
  "ready r p \<Longrightarrow> bson_next r = read_element (r\<lparr>buf_offset := p\<rparr>)"
  by (auto simp: ready_def bson_next_unfold)

lemma bson_next_elem:
  assumes "ready r p" "at_pos (buffer r) p (enc_elem k v)" "0 \<notin> set k"
    and "p + int (length (enc_elem k v)) < cur_doc_end r"
  shows "bson_next r = Some (val_type v, on_elem r p k v)"
    and "ready (on_elem r p k v) (p + int (length (enc_elem k v)))"
proof -
  let ?q = "p + int (length k) + 2"
  have a: "rd_byte (buffer r) p = Some (type_byte (val_type v))"
    "at_pos (buffer r) (p + 1) (k @ 0 # enc_val v)"
    using at_pos_Cons assms(2) by (auto simp: enc_elem_def)
  have q: "at_pos (buffer r) ?q (enc_val v)"
    using at_pos_append [OF a(2)] at_pos_Cons [of "buffer r" "p + 1 + int (length k)" 0 "enc_val v"]
    by (simp add: algebra_simps)
  have len: "int (length (buffer r)) < 2147483640" using assms(1) by (simp add: ready_def)
  note sz = enc_val_sizes [OF q len]
  have e: "?q + int (length (enc_val v)) < cur_doc_end r" using assms(4) by (simp add: length_enc_elem)
  then have sk: "scan_key (buffer r) (p + 1) (cur_doc_end r) = Some (Some (p + 1 + int (length k)))"
    by (intro scan_key_at_pos [OF a(2) assms(3)]) simp
  obtain m where m: "needed_size (buffer r) ?q (val_type v) = Some m" "0 \<le> m"
    "?q + m \<le> cur_doc_end r" using sz(2) e by force
  have ne: "val_type v \<noteq> ELEMENT_END" using val_type_pos [of v] by (cases v) auto
  have sl: "slice (buffer r) (p + 1) (p + 1 + int (length k)) = k" by (rule at_pos_slice [OF a(2)])
  show "bson_next r = Some (val_type v, on_elem r p k v)"
    using m sk a(1) ne sl unfolding bson_next_ready [OF assms(1)]
    by (simp add: read_element_def type_of_type_byte readKey_def Let_def on_elem_def algebra_simps)
  show "ready (on_elem r p k v) (p + int (length (enc_elem k v)))"
    using sz(1) len val_type_pos [of v]
    by (cases v) (auto simp: ready_def on_elem_def length_enc_elem algebra_simps)
qed

lemma bson_next_end:
  assumes "ready r p" "at_pos (buffer r) p (0 # rest)"
  shows "bson_next r = Some (ELEMENT_END,
    r\<lparr>buf_offset := p + 1, element_start_offset := p, cur_type := ELEMENT_END\<rparr>)"
  using at_pos_Cons [OF assms(2)]
  by (simp add: bson_next_ready [OF assms(1)] read_element_def type_of_byte_def Let_def)

section \<open>The value under the cursor\<close>

fun reads_value :: "bson_reader \<Rightarrow> bval \<Rightarrow> bool" where
  "reads_value r (VDouble w) = (doubleValue r = Some w)"
| "reads_value r (VStr s) = (stringValue r = Some s)"
| "reads_value r (VDoc es) = (subdocument r = Some (Some (buf_offset r, int (length (enc_doc es)))))"
| "reads_value r (VArray es) = (subdocument r = Some (Some (buf_offset r, int (length (enc_doc es)))))"
| "reads_value r (VBinary t bs) = (binaryType r = Some t \<and> binaryValue r = Some bs)"
| "reads_value r (VBool b) = (boolValue r = Some b)"
| "reads_value r VNull = True"
| "reads_value r (VI32 x) = (int32Value r = Some x)"
| "reads_value r (VI64 x) = (int64Value r = Some x)"

lemma on_elem_reads_value:
  assumes "at_pos (buffer r) p (enc_elem k v)" "wf_val v" "int (length (buffer r)) < 2147483640"
  shows "reads_value (on_elem r p k v) v"
proof -
  let ?q = "p + int (length k) + 2"
  have a: "at_pos (buffer r) (p + 1) (k @ 0 # enc_val v)"
    using at_pos_Cons assms(1) by (auto simp: enc_elem_def)
  have q: "at_pos (buffer r) ?q (enc_val v)"
    using at_pos_append [OF a] at_pos_Cons [of "buffer r" "p + 1 + int (length k)" 0 "enc_val v"]
    by (simp add: algebra_simps)
  have len: "int (length (enc_val v)) < 2147483640" using at_pos_bounds [OF q] assms(3) by simp
  have g: "geti32 (buffer r) ?q = Some n"
    if "enc_val v = le_bytes 4 n @ ys" "0 \<le> n" "n < 2147483640" for n ys
    using at_pos_geti32 [of "buffer r" ?q n ys] q that by (simp add: i32_range_def)
  have rest: "at_pos (buffer r) (?q + 4) ys" if "enc_val v = le_bytes 4 n @ ys" for n ys
    using at_pos_append [of "buffer r" ?q "le_bytes 4 n" ys] q that by simp
  show ?thesis
  proof (cases v)
    case (VDouble w)
    have "le_int (le_bytes 8 (uint w)) = uint w"
      using uint_lt2p [of w] by (simp add: le_int_le_bytes)
    then show ?thesis using VDouble q
      by (simp add: on_elem_def doubleValue_def getf64_def at_pos_rd_bytes)
  next
    case (VStr s)
    have "rd_bytes (buffer r) (?q + 4) (length s) = Some s"
      using rest [of "int (length s) + 1" "s @ [0]"] VStr by (simp add: at_pos_rd_bytes_prefix)
    then show ?thesis using VStr g [of "int (length s) + 1" "s @ [0]"] len
      by (simp add: on_elem_def stringValue_def)
  next
    case (VBinary t bs)
    have "at_pos (buffer r) (?q + 4) (t # bs)" using rest [of "int (length bs)" "t # bs"] VBinary by simp
    then have "rd_byte (buffer r) (?q + 4) = Some t" "at_pos (buffer r) (?q + 5) bs"
      using at_pos_Cons [of "buffer r" "?q + 4" t bs] by (simp_all add: algebra_simps)
    then show ?thesis using VBinary g [of "int (length bs)" "t # bs"] len
      by (simp add: on_elem_def binaryType_def binaryValue_def at_pos_rd_bytes)
  next
    case (VBool b)
    then show ?thesis using q at_pos_Cons [of "buffer r" ?q "if b then 1 else 0" "[]"]
      by (simp add: on_elem_def boolValue_def)
  next
    case (VI32 x)
    then show ?thesis using q at_pos_geti32 [of "buffer r" ?q x "[]"] assms(2)
      by (simp add: on_elem_def int32Value_def)
  next
    case (VI64 x)
    then show ?thesis using q assms(2)
      by (simp add: on_elem_def int64Value_def geti64_def at_pos_rd_bytes le_simps)
  next
    case (VDoc es)
    then show ?thesis using g [of "int (length (enc_elems es)) + 5" "enc_elems es @ [0]"] len
      by (simp add: on_elem_def subdocument_def doc_frame_def enc_doc_def to_size_t_def)
  next
    case (VArray es)
    then show ?thesis using g [of "int (length (enc_elems es)) + 5" "enc_elems es @ [0]"] len
      by (simp add: on_elem_def subdocument_def doc_frame_def enc_doc_def to_size_t_def)
  qed simp
qed

section \<open>Searching a key\<close>

lemma seek_loop_elems:
  assumes "ready r p" "at_pos (buffer r) p (enc_elems es @ [0])" "wf_elems es"
    "p + int (length (enc_elems es)) < cur_doc_end r"
  shows "\<exists>t r'. seek_loop (\<lambda>r'. rd_key r' = k) r = Some (t, r') \<and> same_doc r r' \<and> (case map_of es k of
           None \<Rightarrow> t = ELEMENT_END
         | Some v \<Rightarrow> t = val_type v \<and> cur_type r' = t \<and> rd_key r' = k \<and> reads_value r' v)"
  (is "\<exists>t r'. seek_loop ?found r = _ \<and> _")
  using assms
proof (induction es arbitrary: r p)
  case Nil
  then show ?case
    using bson_next_end [of r p "[]"] by (simp add: seek_loop.simps [of "?found" r] same_doc_def)
next
  case (Cons kv es)
  obtain k' v where kv: "kv = (k', v)" by force
  let ?r = "on_elem r p k' v"
  have at: "at_pos (buffer r) p (enc_elem k' v)"
    "at_pos (buffer r) (p + int (length (enc_elem k' v))) (enc_elems es @ [0])"
    using at_pos_append [of "buffer r" p "enc_elem k' v" "enc_elems es @ [0]"] Cons.prems(2)
    by (simp_all add: kv enc_elems_Cons del: enc_elems.simps)
  have lt: "p + int (length (enc_elem k' v)) < cur_doc_end r"
    using Cons.prems(4) by (simp add: kv enc_elems_Cons del: enc_elems.simps)
  have wf: "0 \<notin> set k'" "wf_val v" "wf_elems es" using Cons.prems(3) kv by auto
  note nx = bson_next_elem [OF Cons.prems(1) at(1) wf(1) lt]
  have sd: "same_doc r ?r" by (simp add: same_doc_def on_elem_def)
  have pos: "0 < et_code (val_type v)" by (rule val_type_pos)
  show ?case
  proof (cases "k' = k")
    case True
    have "reads_value ?r v"
      using on_elem_reads_value [OF at(1) wf(2)] Cons.prems(1) by (simp add: ready_def)
    then show ?thesis
      using True nx(1) pos sd by (simp add: kv seek_loop.simps [of "?found" r] on_elem_def)
  next
    case False
    have "\<exists>t r'. seek_loop ?found ?r = Some (t, r') \<and> same_doc ?r r' \<and> (case map_of es k of
           None \<Rightarrow> t = ELEMENT_END
         | Some v \<Rightarrow> t = val_type v \<and> cur_type r' = t \<and> rd_key r' = k \<and> reads_value r' v)"
      using Cons.IH [OF nx(2) _ wf(3)] at(2) Cons.prems(4) sd
      by (simp add: same_doc_def kv enc_elems_Cons del: enc_elems.simps)
    moreover have "seek_loop ?found r = seek_loop ?found ?r"
      using False nx(1) pos by (simp add: seek_loop.simps [of "?found" r] on_elem_def)
    ultimately show ?thesis using False sd by (auto simp: kv intro: same_doc_trans)
  qed
qed

lemma enc_doc_reader:
  assumes "int (length (enc_doc es)) < 2147483640"
  defines "r \<equiv> (reader_members (enc_doc es) (int (length (enc_doc es))))\<lparr>
     cur_type := ELEMENT_INTERNAL_DOC_BEGIN, buf_offset := 4, cur_doc_begin := 4,
     cur_doc_end := int (length (enc_doc es))\<rparr>"
  shows "bson_reader_sized (Some (enc_doc es)) (int (length (enc_doc es))) = Some r"
    and "getTotalDocumentSize (enc_doc es) = Some (int (length (enc_doc es)))"
    and "at_pos (buffer r) 4 (enc_elems es @ [0])" and "ready r 4"
    and "4 + int (length (enc_elems es)) < cur_doc_end r"
proof -
  have "geti32 (enc_doc es) 0 = Some (int (length (enc_doc es)))"
    using at_pos_geti32 [of "enc_doc es" 0 "int (length (enc_elems es)) + 5" "enc_elems es @ [0]"]
      at_pos_self [of "enc_doc es"] assms(1)
    by (simp add: enc_doc_def doc_frame_def i32_range_def)
  then show "getTotalDocumentSize (enc_doc es) = Some (int (length (enc_doc es)))"
    and "bson_reader_sized (Some (enc_doc es)) (int (length (enc_doc es))) = Some r"
    by (simp_all add: getTotalDocumentSize_def bson_reader_sized_def r_def length_enc_doc)
  show "at_pos (buffer r) 4 (enc_elems es @ [0])"
    using at_pos_append [of "enc_doc es" 0 "le_bytes 4 (int (length (enc_elems es)) + 5)"
        "enc_elems es @ [0]"] at_pos_self [of "enc_doc es"]
    by (simp add: r_def reader_members_def enc_doc_def doc_frame_def)
  show "ready r 4" and "4 + int (length (enc_elems es)) < cur_doc_end r"
    using assms(1) by (simp_all add: ready_def r_def reader_members_def length_enc_doc)
qed

section \<open>Validating a document\<close>

text \<open>The loop consumes the elements of a document and stops in front of its terminator, unless a
  nested document does not fit the layer stack.\<close>

definition same_level :: "bson_reader \<Rightarrow> bson_reader \<Rightarrow> bool" where
  "same_level r r' \<longleftrightarrow> buffer r' = buffer r \<and> cur_doc_end r' = cur_doc_end r \<and>
     map end_offset (doc_layers r') = map end_offset (doc_layers r)"

lemma same_level_len: "same_level r r' \<Longrightarrow> length (doc_layers r') = length (doc_layers r)"
  unfolding same_level_def by (metis length_map)

lemma validate_scalar:
  assumes "bson_next r = Some (val_type v, r')" "val_depth v = 0"
  shows "validate_loop r d = validate_loop r' d"
  using assms by (cases v) (simp_all add: validate_loop_unfold [of r d])

lemma validate_too_deep:
  assumes "bson_next r = Some (val_type v, r')" "cur_type r' = val_type v" "val_depth v \<noteq> 0"
    "length (doc_layers r') = k_max_subdocs"
  shows "validate_loop r d = Some False"
  using assms by (cases v) (simp_all add: validate_loop_unfold [of r d] beginSub_def)

text \<open>A nested document: its elements, its terminator, and back in the outer document.\<close>

definition enter_sub :: "bson_reader \<Rightarrow> int \<Rightarrow> bson_reader" where
  "enter_sub r n = r\<lparr>
     doc_layers := \<lparr>begin_offset = cur_doc_begin r, end_offset = cur_doc_end r,
                    ds_arr_index = arr_index r\<rparr> # doc_layers r,
     cur_doc_end := buf_offset r + n, buf_offset := buf_offset r + 4,
     cur_doc_begin := buf_offset r + 4,
     arr_index := (if cur_type r = ELEMENT_ARRAY then -1 else -2),
     cur_type := ELEMENT_INTERNAL_DOC_BEGIN\<rparr>"

lemma beginSub_enter:
  assumes "cur_type r = ELEMENT_DOC \<or> cur_type r = ELEMENT_ARRAY"
    "length (doc_layers r) \<noteq> k_max_subdocs" "geti32 (buffer r) (buf_offset r) = Some n"
  shows "beginSub r = Some (True, enter_sub r n)"
  using assms by (auto simp: beginSub_def enter_sub_def)

lemma validate_enter:
  assumes "bson_next r = Some (t, r')" "t = ELEMENT_DOC \<or> t = ELEMENT_ARRAY" "cur_type r' = t"
    "length (doc_layers r') \<noteq> k_max_subdocs" "geti32 (buffer r') (buf_offset r') = Some n"
  shows "validate_loop r d = validate_loop (enter_sub r' n) (d + 1)"
  using assms beginSub_enter [of r' n] by (auto simp: validate_loop_unfold [of r d])

lemma validate_leave:
  assumes "ready r p" "at_pos (buffer r) p (0 # rest)" "doc_layers r = st # layers" "d > 0"
  shows "\<exists>r'. validate_loop r d = validate_loop r' (d - 1) \<and> ready r' (cur_doc_end r) \<and>
           buffer r' = buffer r \<and> cur_doc_end r' = end_offset st \<and> doc_layers r' = layers"
proof -
  let ?r = "r\<lparr>element_start_offset := p, buf_offset := cur_doc_end r, cur_doc_end := end_offset st,
              arr_index := ds_arr_index st, doc_layers := layers,
              cur_type := ELEMENT_INTERNAL_DOC_BEGIN\<rparr>"
  have "validate_loop r d = validate_loop ?r (d - 1)"
    using bson_next_end [OF assms(1,2)] assms(3,4)
    by (simp add: validate_loop_unfold [of r d] endSub_def)
  moreover have "ready ?r (cur_doc_end r)" using assms(1) by (simp add: ready_def)
  ultimately show ?thesis by (intro exI [of _ ?r]) simp
qed

text \<open>The elements of a document, and one nested document given the result for its elements.\<close>

definition validates_elems :: "bson_reader \<Rightarrow> int \<Rightarrow> bdoc \<Rightarrow> int \<Rightarrow> bool" where
  "validates_elems r p es d \<longleftrightarrow> (\<exists>r'. ready r' (p + int (length (enc_elems es))) \<and> same_level r r' \<and>
     validate_loop r d =
       (if length (doc_layers r) + elems_depth es \<le> k_max_subdocs then validate_loop r' d else Some False))"

lemma at_pos_sub:
  assumes "at_pos buf p (enc_elem k v)" "enc_val v = doc_frame (enc_elems sub)"
    "int (length buf) < 2147483640"
  shows "geti32 buf (p + int (length k) + 2) = Some (int (length (enc_elems sub)) + 5)"
    and "at_pos buf (p + int (length k) + 6) (enc_elems sub @ [0])"
proof -
  let ?o = "p + int (length k) + 2" and ?n = "int (length (enc_elems sub)) + 5"
  have ao: "at_pos buf ?o (le_bytes 4 ?n @ enc_elems sub @ [0])"
    using at_pos_append [of buf p "type_byte (val_type v) # k @ [0]" "enc_val v"] assms(1,2)
    by (simp add: enc_elem_def doc_frame_def algebra_simps)
  then show "geti32 buf ?o = Some ?n"
    using at_pos_geti32 [OF ao] at_pos_bounds [OF ao] assms(3) by (simp add: i32_range_def)
  show "at_pos buf (p + int (length k) + 6) (enc_elems sub @ [0])"
    using at_pos_append [OF ao] by (simp add: algebra_simps)
qed

lemma validate_sub_elem:
  assumes rdy: "ready r p" and at: "at_pos (buffer r) p (enc_elem k v)" and k: "0 \<notin> set k"
    and lt: "p + int (length (enc_elem k v)) < cur_doc_end r"
    and v: "v = VDoc sub \<or> v = VArray sub" and room: "length (doc_layers r) < k_max_subdocs" and d: "0 \<le> d"
    and IH: "\<And>s. ready s (p + int (length k) + 6) \<Longrightarrow> buffer s = buffer r \<Longrightarrow>
      cur_doc_end s = p + int (length (enc_elem k v)) \<Longrightarrow>
      length (doc_layers s) = Suc (length (doc_layers r)) \<Longrightarrow>
      validates_elems s (p + int (length k) + 6) sub (d + 1)"
  shows "\<exists>r3. ready r3 (p + int (length (enc_elem k v))) \<and> same_level r r3 \<and> validate_loop r d =
     (if length (doc_layers r) + val_depth v \<le> k_max_subdocs then validate_loop r3 d else Some False)"
proof -
  let ?r = "on_elem r p k v" and ?q = "p + int (length (enc_elem k v))"
  let ?n = "int (length (enc_elems sub)) + 5" and ?z = "p + int (length k) + 6"
  note nx = bson_next_elem [OF rdy at k lt]
  have ev: "enc_val v = doc_frame (enc_elems sub)" and vd: "val_depth v = Suc (elems_depth sub)"
    and vt: "val_type v = ELEMENT_DOC \<or> val_type v = ELEMENT_ARRAY" using v by auto
  have bl: "int (length (buffer r)) < 2147483640" using rdy by (simp add: ready_def)
  note sub = at_pos_sub [OF at ev bl]
  let ?s = "enter_sub ?r ?n"
  have s: "ready ?s ?z" "buffer ?s = buffer r" "cur_doc_end ?s = ?q"
    "length (doc_layers ?s) = Suc (length (doc_layers r))"
    "map end_offset (doc_layers ?s) = cur_doc_end r # map end_offset (doc_layers r)"
    using bl by (simp_all add: enter_sub_def on_elem_def ready_def length_enc_elem ev)
  have en: "validate_loop r d = validate_loop ?s (d + 1)"
    using validate_enter [OF nx(1) vt] sub(1) room by (simp add: on_elem_def)
  obtain r2 where r2: "ready r2 (?z + int (length (enc_elems sub)))" "same_level ?s r2"
    "validate_loop ?s (d + 1) = (if Suc (length (doc_layers r)) + elems_depth sub \<le> k_max_subdocs
       then validate_loop r2 (d + 1) else Some False)"
    using IH [OF s(1-4)] s(4) by (auto simp: validates_elems_def)
  obtain st layers where L: "doc_layers r2 = st # layers" "end_offset st = cur_doc_end r"
    "map end_offset layers = map end_offset (doc_layers r)"
    using r2(2) s(5) unfolding same_level_def by (cases "doc_layers r2") auto
  have z: "at_pos (buffer r2) (?z + int (length (enc_elems sub))) (0 # [])"
    using at_pos_append [OF sub(2)] r2(2) s(2) by (simp add: same_level_def)
  obtain r3 where r3: "validate_loop r2 (d + 1) = validate_loop r3 d" "ready r3 (cur_doc_end r2)"
    "buffer r3 = buffer r2" "cur_doc_end r3 = cur_doc_end r" "doc_layers r3 = layers"
    using validate_leave [OF r2(1) z L(1), of "d + 1"] d L(2) by auto
  have "ready r3 ?q" using r2(2) s(3) r3(2) by (simp add: same_level_def)
  moreover have "same_level r r3" using r3 r2(2) s(2) L(3) by (simp add: same_level_def)
  ultimately show ?thesis using en r2(3) r3(1) vd by (intro exI [of _ r3]) simp
qed

lemma validate_elem:
  assumes "ready r p" "at_pos (buffer r) p (enc_elem k v)" "0 \<notin> set k"
    "p + int (length (enc_elem k v)) < cur_doc_end r" "0 \<le> d" "length (doc_layers r) \<le> k_max_subdocs"
    and IH: "\<And>sub s. v = VDoc sub \<or> v = VArray sub \<Longrightarrow> ready s (p + int (length k) + 6) \<Longrightarrow>
      buffer s = buffer r \<Longrightarrow> cur_doc_end s = p + int (length (enc_elem k v)) \<Longrightarrow>
      length (doc_layers s) \<le> k_max_subdocs \<Longrightarrow> validates_elems s (p + int (length k) + 6) sub (d + 1)"
  shows "\<exists>r3. ready r3 (p + int (length (enc_elem k v))) \<and> same_level r r3 \<and> validate_loop r d =
     (if length (doc_layers r) + val_depth v \<le> k_max_subdocs then validate_loop r3 d else Some False)"
proof -
  note nx = bson_next_elem [OF assms(1-4)]
  have sl: "same_level r (on_elem r p k v)" "cur_type (on_elem r p k v) = val_type v"
    "doc_layers (on_elem r p k v) = doc_layers r" by (simp_all add: same_level_def on_elem_def)
  consider (scalar) "val_depth v = 0" | (deep) "val_depth v \<noteq> 0" "length (doc_layers r) = k_max_subdocs"
    | (sub) sub where "v = VDoc sub \<or> v = VArray sub" "length (doc_layers r) < k_max_subdocs"
    using assms(6) by (cases v) force+
  then show ?thesis
  proof cases
    case scalar
    then show ?thesis using nx(2) sl(1) validate_scalar [OF nx(1)] assms(6) by auto
  next
    case deep
    then have "validate_loop r d = Some False" using validate_too_deep [OF nx(1)] sl by simp
    then show ?thesis using nx(2) sl(1) deep by (intro exI [of _ "on_elem r p k v"]) simp
  next
    case sub
    show ?thesis
      by (rule validate_sub_elem [OF assms(1-4) sub assms(5)]) (use IH sub in auto)
  qed
qed

lemma validate_elems:
  assumes "ready r p" "at_pos (buffer r) p (enc_elems es @ [0])" "wf_elems es"
    "p + int (length (enc_elems es)) < cur_doc_end r" "0 \<le> d" "length (doc_layers r) \<le> k_max_subdocs"
  shows "validates_elems r p es d"
  using assms
proof (induction "length (enc_elems es)" arbitrary: es r p d rule: less_induct)
  case less
  show ?case
  proof (cases es)
    case Nil
    then show ?thesis using less.prems unfolding validates_elems_def
      by (intro exI [of _ r]) (simp add: same_level_def)
  next
    case (Cons kv es')
    obtain k v where kv: "kv = (k, v)" by force
    have es: "es = (k, v) # es'" using Cons kv by simp
    let ?q = "p + int (length (enc_elem k v))"
    have at: "at_pos (buffer r) p (enc_elem k v)" "at_pos (buffer r) ?q (enc_elems es' @ [0])"
      using at_pos_append [of "buffer r" p "enc_elem k v" "enc_elems es' @ [0]"] less.prems(2)
      by (simp_all add: es enc_elems_Cons del: enc_elems.simps)
    have lt: "?q < cur_doc_end r" "?q + int (length (enc_elems es')) < cur_doc_end r"
      using less.prems(4) by (simp_all add: es enc_elems_Cons del: enc_elems.simps)
    have wf: "0 \<notin> set k" "wf_val v" "wf_elems es'" using less.prems(3) es by auto
    have IH: "validates_elems s (p + int (length k) + 6) sub (d + 1)"
      if "v = VDoc sub \<or> v = VArray sub" "ready s (p + int (length k) + 6)" "buffer s = buffer r"
        "cur_doc_end s = ?q" "length (doc_layers s) \<le> k_max_subdocs" for sub s
    proof (rule less.hyps)
      have ev: "enc_val v = doc_frame (enc_elems sub)" using that(1) by auto
      show "at_pos (buffer s) (p + int (length k) + 6) (enc_elems sub @ [0])"
        using at_pos_sub(2) [OF at(1) ev] less.prems(1) that(3) by (simp add: ready_def)
      show "length (enc_elems sub) < length (enc_elems es)"
        "p + int (length k) + 6 + int (length (enc_elems sub)) < cur_doc_end s"
        using that(4) by (simp_all add: es ev length_enc_elem)
    qed (use that wf(2) less.prems(5) in auto)
    obtain r1 where r1: "ready r1 ?q" "same_level r r1" "validate_loop r d =
      (if length (doc_layers r) + val_depth v \<le> k_max_subdocs then validate_loop r1 d else Some False)"
      using validate_elem [OF less.prems(1) at(1) wf(1) lt(1) less.prems(5,6) IH] by blast
    have "validates_elems r1 ?q es' d"
      using r1(1,2) at(2) wf(3) lt(2) less.prems(5,6) same_level_len [OF r1(2)]
      by (intro less.hyps) (simp_all add: es same_level_def)
    then obtain r2 where r2: "ready r2 (?q + int (length (enc_elems es')))" "same_level r1 r2"
      "validate_loop r1 d = (if length (doc_layers r) + elems_depth es' \<le> k_max_subdocs
         then validate_loop r2 d else Some False)"
      using same_level_len [OF r1(2)] unfolding validates_elems_def by auto
    have "ready r2 (p + int (length (enc_elems es)))"
      using r2(1) by (simp add: es enc_elems_Cons add.assoc del: enc_elems.simps)
    moreover have "same_level r r2" using r1(2) r2(2) by (simp add: same_level_def)
    ultimately show ?thesis
      using r1(3) r2(3) unfolding validates_elems_def by (intro exI [of _ r2]) (simp add: es max_def)
  qed
qed

lemma validate_doc:
  assumes "int (length (enc_doc es)) < 2147483640" "wf_elems es"
  shows "bson_validate_buf (enc_doc es) (int (length (enc_doc es))) =
         Some (elems_depth es \<le> k_max_subdocs)"
proof -
  let ?b = "enc_doc es"
  note R = enc_doc_reader [OF assms(1)]
  define r where "r = (reader_members ?b (int (length ?b)))\<lparr>
     cur_type := ELEMENT_INTERNAL_DOC_BEGIN, buf_offset := 4, cur_doc_begin := 4,
     cur_doc_end := int (length ?b)\<rparr>"
  note R = R [folded r_def]
  have lay: "doc_layers r = []" by (simp add: r_def reader_members_def)
  obtain r' where r': "ready r' (4 + int (length (enc_elems es)))" "same_level r r'"
    "validate_loop r 0 = (if elems_depth es \<le> k_max_subdocs then validate_loop r' 0 else Some False)"
    using validate_elems [OF R(4,3) assms(2) R(5), of 0] lay by (auto simp: validates_elems_def)
  have "at_pos (buffer r') (4 + int (length (enc_elems es))) (0 # [])"
    using at_pos_append [OF R(3)] r'(2) by (simp add: same_level_def)
  from bson_next_end [OF r'(1) this] have "validate_loop r' 0 = Some True"
    by (simp add: validate_loop_unfold [of r' 0])
  then show ?thesis
    using r'(3) R(1,2) assms(1)
    by (auto simp: bson_validate_buf_unfold bson_validate_def to_size_t_def length_enc_doc)
qed

text \<open>Searching a key on a fresh reader.\<close>

lemma seekKey_doc:
  assumes "wf_elems es" and "int (length (enc_doc es)) < 2147483640"
    and "bson_reader_sized (Some (enc_doc es)) (int (length (enc_doc es))) = Some r"
  shows "\<exists>t r'. seekKey k r = Some (t, r') \<and> (case map_of es k of
           None \<Rightarrow> t = ELEMENT_END
         | Some v \<Rightarrow> t = val_type v \<and> cur_type r' = t \<and> rd_key r' = k \<and> reads_value r' v)"
proof -
  note R = enc_doc_reader [OF assms(2)]
  have r: "r = (reader_members (enc_doc es) (int (length (enc_doc es))))\<lparr>
     cur_type := ELEMENT_INTERNAL_DOC_BEGIN, buf_offset := 4, cur_doc_begin := 4,
     cur_doc_end := int (length (enc_doc es))\<rparr>"
    using R(1) assms(3) by simp
  note R = R [folded r]
  have sb: "seekBegin r = r" by (simp add: r seekBegin_def reader_members_def)
  obtain t r' where s: "seek_loop (\<lambda>r'. rd_key r' = k) r = Some (t, r')" "same_doc r r'"
    "case map_of es k of None \<Rightarrow> t = ELEMENT_END
     | Some v \<Rightarrow> t = val_type v \<and> cur_type r' = t \<and> rd_key r' = k \<and> reads_value r' v"
    using seek_loop_elems [OF R(4,3) assms(1) R(5), of k] by blast
  have "seek_restore (elementOffset r) (t, r') = Some (t, r')"
    using s(2) by (simp add: seek_restore_def bson_seek_def elementOffset_def same_doc_def r
        reader_members_def)
  then show ?thesis using s by (auto simp: seekKey_def sb)
qed

end
