(* ===== verification/Bson_Numeric.thy ===== *)
theory Bson_Numeric
  imports Bson_Reader_Spec
begin

unbundle bit_operations_syntax

text \<open>
  The conversions of \<^verbatim>\<open>BsonReader\<close> between numbers (core/src/util/bson_reader.cpp): \<^verbatim>\<open>asDouble\<close>,
  \<^verbatim>\<open>asInt32\<close>, \<^verbatim>\<open>asString\<close> and \<^verbatim>\<open>tryGetValue\<close> for numbers. A double is its 64 bits (IEEE 754
  binary64). Converting a double outside the range of the integer type is undefined: \<^term>\<open>None\<close>.
\<close>

section \<open>Doubles\<close>

definition d_negative :: "64 word \<Rightarrow> bool" where
  "d_negative w \<longleftrightarrow> uint w div 2 ^ 63 = 1"

definition d_exponent :: "64 word \<Rightarrow> nat" where
  "d_exponent w = nat (uint w div 2 ^ 52 mod 2048)"

definition d_fraction :: "64 word \<Rightarrow> int" where
  "d_fraction w = uint w mod 2 ^ 52"

text \<open>The magnitude of a finite double is a numerator over \<^verbatim>\<open>2^1074\<close>.\<close>

definition d_scaled :: "64 word \<Rightarrow> int" where
  "d_scaled w = (if d_exponent w = 0 then d_fraction w else (2 ^ 52 + d_fraction w) * 2 ^ (d_exponent w - 1))"

definition d_finite :: "64 word \<Rightarrow> bool" where
  "d_finite w \<longleftrightarrow> d_exponent w \<noteq> 2047"

text \<open>Conversion to an integer drops the fraction.\<close>

definition d_trunc :: "64 word \<Rightarrow> int option" where
  "d_trunc w = (if d_finite w then Some ((if d_negative w then -1 else 1) * (d_scaled w div 2 ^ 1074)) else None)"

definition double_to_i32 :: "64 word \<Rightarrow> int option" where
  "double_to_i32 w = (case d_trunc w of None \<Rightarrow> None | Some x \<Rightarrow> if i32_range x then Some x else None)"

definition double_to_i64 :: "64 word \<Rightarrow> int option" where
  "double_to_i64 w = (case d_trunc w of None \<Rightarrow> None | Some x \<Rightarrow> if i64_range x then Some x else None)"

text \<open>Conversion of an integer rounds to the nearest double, ties to the even one. The carry out of
  the fraction goes into the exponent.\<close>

fun bit_len :: "nat \<Rightarrow> nat" where
  "bit_len n = (if n = 0 then 0 else Suc (bit_len (n div 2)))"

declare bit_len.simps [simp del]

definition round_even :: "nat \<Rightarrow> nat \<Rightarrow> nat" where
  "round_even n s = (let q = n div 2 ^ s; r = n mod 2 ^ s in
     if 2 * r > 2 ^ s \<or> 2 * r = 2 ^ s \<and> odd q then q + 1 else q)"

definition double_of_int :: "int \<Rightarrow> 64 word" where
  "double_of_int x = (if x = 0 then 0
     else (let n = nat \<bar>x\<bar>; l = bit_len n;
               m = (if l \<le> 53 then n * 2 ^ (53 - l) else round_even n (l - 53))
           in word_of_int ((if x < 0 then 2 ^ 63 else 0) + (int l + 1022 - 1) * 2 ^ 52 + int m)))"

section \<open>Numbers as text\<close>

text \<open>\<^verbatim>\<open>std::to_string\<close>: integers in decimal; a double with six decimals, correctly rounded.\<close>

fun digits_rev :: "nat \<Rightarrow> bytes" where
  "digits_rev n = word_of_nat (48 + n mod 10) # (if n < 10 then [] else digits_rev (n div 10))"

declare digits_rev.simps [simp del]

definition to_string_nat :: "nat \<Rightarrow> bytes" where
  "to_string_nat n = rev (digits_rev n)"

definition to_string_int :: "int \<Rightarrow> bytes" where
  "to_string_int x = (if x < 0 then 45 # to_string_nat (nat (- x)) else to_string_nat (nat x))"

definition to_string_double :: "64 word \<Rightarrow> bytes" where
  "to_string_double w = (if d_negative w then [45] else []) @
     (if \<not> d_finite w then (if d_fraction w = 0 then [105, 110, 102] else [110, 97, 110])
      else (let n = round_even (nat (d_scaled w) * 1000000) 1074; frac = to_string_nat (n mod 1000000)
            in to_string_nat (n div 1000000) @ [46] @ replicate (6 - length frac) 48 @ frac))"

section \<open>The accessors\<close>

definition asDouble :: "bson_reader \<Rightarrow> 64 word option" where
  "asDouble r = (case cur_type r of
     ELEMENT_DOUBLE \<Rightarrow> doubleValue r
   | ELEMENT_BOOL \<Rightarrow> map_option (\<lambda>b. if b then 0x3FF0000000000000 else 0) (boolValue r)
   | ELEMENT_I32 \<Rightarrow> map_option double_of_int (int32Value r)
   | ELEMENT_I64 \<Rightarrow> map_option double_of_int (int64Value r)
   | _ \<Rightarrow> Some 0)"

definition asString :: "bson_reader \<Rightarrow> bytes option" where
  "asString r = (case cur_type r of
     ELEMENT_DOUBLE \<Rightarrow> map_option to_string_double (doubleValue r)
   | ELEMENT_BOOL \<Rightarrow> map_option (\<lambda>b. if b then [116, 114, 117, 101] else [102, 97, 108, 115, 101]) (boolValue r)
   | ELEMENT_I32 \<Rightarrow> map_option to_string_int (int32Value r)
   | ELEMENT_I64 \<Rightarrow> map_option to_string_int (int64Value r)
   | ELEMENT_STR \<Rightarrow> stringValue r
   | ELEMENT_BINARY \<Rightarrow> binaryValue r
   | _ \<Rightarrow> Some [])"

definition asInt32 :: "bson_reader \<Rightarrow> int option" where
  "asInt32 r = (case cur_type r of
     ELEMENT_DOUBLE \<Rightarrow> do { w \<leftarrow> doubleValue r; double_to_i32 w }
   | ELEMENT_BOOL \<Rightarrow> map_option (\<lambda>b. if b then 1 else 0) (boolValue r)
   | ELEMENT_I32 \<Rightarrow> int32Value r
   | ELEMENT_I64 \<Rightarrow> map_option i32 (int64Value r)
   | _ \<Rightarrow> Some 0)"

definition tryGetValue_double :: "bson_reader \<Rightarrow> 64 word option option" where
  "tryGetValue_double r = (case cur_type r of
     ELEMENT_I32 \<Rightarrow> map_option (\<lambda>x. Some (double_of_int x)) (int32Value r)
   | ELEMENT_I64 \<Rightarrow> map_option (\<lambda>x. Some (double_of_int x)) (int64Value r)
   | ELEMENT_DOUBLE \<Rightarrow> map_option Some (doubleValue r)
   | _ \<Rightarrow> Some None)"

definition tryGetValue_i32 :: "bson_reader \<Rightarrow> int option option" where
  "tryGetValue_i32 r = (case cur_type r of
     ELEMENT_I32 \<Rightarrow> map_option Some (int32Value r)
   | ELEMENT_I64 \<Rightarrow> map_option (\<lambda>x. Some (i32 x)) (int64Value r)
   | ELEMENT_DOUBLE \<Rightarrow> do { w \<leftarrow> doubleValue r; x \<leftarrow> double_to_i32 w; Some (Some x) }
   | _ \<Rightarrow> Some None)"

definition tryGetValue_i64 :: "bson_reader \<Rightarrow> int option option" where
  "tryGetValue_i64 r = (case cur_type r of
     ELEMENT_I32 \<Rightarrow> map_option Some (int32Value r)
   | ELEMENT_I64 \<Rightarrow> map_option Some (int64Value r)
   | ELEMENT_DOUBLE \<Rightarrow> do { w \<leftarrow> doubleValue r; x \<leftarrow> double_to_i64 w; Some (Some x) }
   | _ \<Rightarrow> Some None)"

text \<open>When these have a result: not for a string or binary without a value, and not for a double outside
  the range of the integer type.\<close>

definition out_of_range :: "(64 word \<Rightarrow> int option) \<Rightarrow> bson_reader \<Rightarrow> bool" where
  "out_of_range conv r \<longleftrightarrow> cur_type r = ELEMENT_DOUBLE \<and> (case doubleValue r of None \<Rightarrow> False | Some w \<Rightarrow> conv w = None)"

definition conversions_safe :: "bson_reader \<Rightarrow> bool" where
  "conversions_safe r \<longleftrightarrow> asDouble r \<noteq> None \<and> tryGetValue_double r \<noteq> None \<and> tryGetValue_bool r \<noteq> None \<and>
     (asInt32 r = None \<longleftrightarrow> out_of_range double_to_i32 r) \<and> (tryGetValue_i32 r = None \<longleftrightarrow> out_of_range double_to_i32 r) \<and>
     (tryGetValue_i64 r = None \<longleftrightarrow> out_of_range double_to_i64 r) \<and>
     (asString r = None \<longleftrightarrow> cur_type r = ELEMENT_STR \<and> length_below 1 r \<or> cur_type r = ELEMENT_BINARY \<and> length_below 0 r) \<and>
     (tryGetValue_string r = None \<longleftrightarrow> cur_type r = ELEMENT_STR \<and> length_below 1 r) \<and>
     (tryGetValue_binary r = None \<longleftrightarrow> cur_type r = ELEMENT_BINARY \<and> length_below 0 r)"

lemma conversions_safe_values: "values_safe r \<Longrightarrow> conversions_safe r"
  by (cases "cur_type r") (auto simp: values_safe_def conversions_safe_def out_of_range_def asDouble_def asInt32_def asString_def
      tryGetValue_double_def tryGetValue_bool_def tryGetValue_i32_def tryGetValue_i64_def tryGetValue_string_def tryGetValue_binary_def
      split: option.splits Option.bind_splits)

section \<open>Integers survive the conversion\<close>

lemma bit_len_bounds: "0 < n \<Longrightarrow> 2 ^ (bit_len n - 1) \<le> n \<and> n < 2 ^ bit_len n \<and> 0 < bit_len n"
proof (induction n rule: bit_len.induct)
  case (1 n)
  show ?case
  proof (cases "n div 2 = 0")
    case True
    then have "n = 1" using 1(2) by simp
    then show ?thesis by (simp add: bit_len.simps [of "Suc 0"] bit_len.simps [of 0])
  next
    case False
    then have IH: "2 ^ (bit_len (n div 2) - 1) \<le> n div 2 \<and> n div 2 < 2 ^ bit_len (n div 2) \<and> 0 < bit_len (n div 2)" using 1 by simp
    obtain m where m: "bit_len (n div 2) = Suc m" using IH gr0_implies_Suc by blast
    have "bit_len n = Suc (Suc m)" using 1(2) m by (simp add: bit_len.simps [of n])
    moreover obtain q b where qb: "n = 2 * q + b" "b < 2" "n div 2 = q" using mult_div_mod_eq [of 2 n] mod_less_divisor [of 2 n] by (metis zero_less_numeral)
    ultimately show ?thesis using IH m by auto
  qed
qed

text \<open>The parts of a word given by sign, exponent and fraction.\<close>

lemma parts_of_word:
  fixes neg :: bool and e f :: int
  assumes "0 \<le> f" "f < 2 ^ 52" "0 \<le> e" "e < 2048"
  defines "w \<equiv> word_of_int ((if neg then 2 ^ 63 else 0) + e * 2 ^ 52 + f) :: 64 word"
  shows "d_negative w = neg" "d_exponent w = nat e" "d_fraction w = f"
proof -
  let ?u = "(if neg then 2 ^ 63 else 0) + e * 2 ^ 52 + f"
  have "e * 2 ^ 52 + f < 2 ^ 63" using assms(1-4) by simp
  moreover have "0 \<le> e * 2 ^ 52 + f" using assms(1,3) by simp
  ultimately have "0 \<le> ?u" "?u < 2 ^ LENGTH(64)" by (cases neg; simp)+
  then have u: "uint w = ?u" unfolding w_def by (intro word_of_int_inverse [OF refl])
  have b: "0 \<le> e * 2 ^ 52 + f" "e * 2 ^ 52 + f < 2 ^ 63" by fact+
  show "d_negative w = neg"
    using b by (cases neg) (simp_all add: d_negative_def u add.assoc)
  have "?u div 2 ^ 52 = (if neg then 2048 else 0) + e"
    using assms(1,2) by (cases neg) (simp_all add: add.assoc)
  then show "d_exponent w = nat e" using assms(3,4) unfolding d_exponent_def u by (cases neg) simp_all
  have "?u = f + ((if neg then 2048 else 0) + e) * 2 ^ 52" by (simp add: algebra_simps)
  then show "d_fraction w = f" unfolding d_fraction_def u using assms(1,2) by (simp only: mod_mult_self1 mod_pos_pos_trivial)
qed

lemma double_of_int_exact:
  assumes "x \<noteq> 0" "\<bar>x\<bar> < 2 ^ 53"
  shows "d_negative (double_of_int x) = (x < 0) \<and> d_finite (double_of_int x) \<and> d_scaled (double_of_int x) = \<bar>x\<bar> * 2 ^ 1074"
proof -
  define n where "n = nat \<bar>x\<bar>"
  define l where "l = bit_len n"
  have n: "0 < n" "n < 2 ^ 53" "int n = \<bar>x\<bar>" using assms by (auto simp: n_def nat_less_iff)
  have l: "2 ^ (l - 1) \<le> n" "n < 2 ^ l" "0 < l" using bit_len_bounds [OF n(1)] by (simp_all add: l_def)
  have l53: "l \<le> 53"
  proof (rule ccontr)
    assume "\<not> l \<le> 53"
    then have "(2 :: nat) ^ 53 \<le> 2 ^ (l - 1)" by (intro power_increasing) auto
    then show False using l(1) n(2) by simp
  qed
  obtain k where k: "53 = l + k" using l53 le_Suc_ex by blast
  obtain j where j: "l = Suc j" using l(3) gr0_implies_Suc by blast
  define m where "m = n * 2 ^ k"
  have m: "2 ^ 52 \<le> m" "m < 2 ^ 53"
  proof -
    have "(2 :: nat) ^ 52 = 2 ^ (l - 1) * 2 ^ k" using k j by (simp add: power_add [symmetric])
    then show "2 ^ 52 \<le> m" unfolding m_def using mult_right_mono [OF l(1), of "2 ^ k"] by simp
    have "(2 :: nat) ^ 53 = 2 ^ l * 2 ^ k" unfolding k by (simp add: power_add)
    then show "m < 2 ^ 53" unfolding m_def using mult_strict_right_mono [OF l(2), of "2 ^ k"] by simp
  qed
  have k': "53 - l = k" using k by simp
  have w: "double_of_int x = word_of_int ((if x < 0 then 2 ^ 63 else 0) + (int l + 1022) * 2 ^ 52 + (int m - 2 ^ 52))"
    using assms(1) l53 unfolding double_of_int_def Let_def n_def [symmetric] l_def [symmetric] k' by (simp add: m_def algebra_simps)
  have f: "0 \<le> int m - 2 ^ 52" "int m - 2 ^ 52 < 2 ^ 52" using m by simp_all
  have e: "0 \<le> int l + 1022" "int l + 1022 < 2048" using l53 by simp_all
  note P = parts_of_word [OF f e, of "x < 0", folded w]
  have "d_scaled (double_of_int x) = int m * 2 ^ (l + 1021)"
    using P l(3) by (simp add: d_scaled_def nat_add_distrib)
  also have "\<dots> = int n * (2 ^ k * 2 ^ (l + 1021))" by (simp add: m_def)
  also have "\<dots> = \<bar>x\<bar> * 2 ^ 1074"
  proof -
    have "k + (l + 1021) = 1074" using k by linarith
    then show ?thesis by (simp only: power_add [symmetric] n(3))
  qed
  finally show ?thesis using P l53 by (simp add: d_finite_def nat_add_distrib)
qed

lemma double_of_int_trunc:
  assumes "\<bar>x\<bar> < 2 ^ 53"
  shows "d_trunc (double_of_int x) = Some x"
proof (cases "x = 0")
  case True
  then show ?thesis by (simp add: double_of_int_def d_trunc_def d_finite_def d_exponent_def d_negative_def d_scaled_def d_fraction_def)
next
  case False
  have "\<bar>x\<bar> * 2 ^ 1074 div 2 ^ 1074 = \<bar>x\<bar>" by (rule nonzero_mult_div_cancel_right) simp
  then show ?thesis using double_of_int_exact [OF False assms] unfolding d_trunc_def by (simp only: if_True) auto
qed

section \<open>The value of an element as a number\<close>

text \<open>What \<^verbatim>\<open>tryGetValue\<close> makes of a value of a document.\<close>

fun val_i32 :: "bval \<Rightarrow> int option option" where
  "val_i32 (VI32 x) = Some (Some x)"
| "val_i32 (VI64 x) = Some (Some (i32 x))"
| "val_i32 (VDouble w) = map_option Some (double_to_i32 w)"
| "val_i32 v = Some None"

lemma tryGetValue_i32_val: "cur_type r = val_type v \<Longrightarrow> reads_value r v \<Longrightarrow> tryGetValue_i32 r = val_i32 v"
  by (cases v) (simp_all add: tryGetValue_i32_def map_option_case split: option.splits)

lemma tryGetValue_string_val:
  "cur_type r = val_type v \<Longrightarrow> reads_value r v \<Longrightarrow> tryGetValue_string r = Some (case v of VStr s \<Rightarrow> Some s | _ \<Rightarrow> None)"
  by (cases v) (simp_all add: tryGetValue_string_def)

section \<open>Properties\<close>

text \<open>Numbers survive the conversion to double and back. An integer of less than 53 bits is
  converted to the double with exactly its value, and converting that double back returns the
  integer; so an \<^verbatim>\<open>int32_t\<close> that travels as any of the three numeric element types is read back
  unchanged.\<close>

theorem number_conversions:
  assumes "\<bar>x\<bar> < 2 ^ 53"
  shows "double_to_i64 (double_of_int x) = Some x \<and>
    d_scaled (double_of_int x) = \<bar>x\<bar> * 2 ^ 1074 \<and>
    (i32_range x \<longrightarrow> val_i32 (VI32 x) = Some (Some x) \<and> val_i32 (VI64 x) = Some (Some x) \<and> val_i32 (VDouble (double_of_int x)) = Some (Some x))"
proof -
  have t: "d_trunc (double_of_int x) = Some x" by (rule double_of_int_trunc [OF assms])
  have "i64_range x" using assms by (auto simp: i64_range_def abs_less_iff)
  moreover have "d_scaled (double_of_int x) = \<bar>x\<bar> * 2 ^ 1074"
  proof (cases "x = 0")
    case True
    then show ?thesis by (simp add: double_of_int_def d_scaled_def d_exponent_def d_fraction_def)
  next
    case False
    then show ?thesis using double_of_int_exact assms by blast
  qed
  ultimately show ?thesis unfolding double_to_i64_def double_to_i32_def val_i32.simps t by (simp add: i32_id)
qed

theorem number_conversions_witness:
  "double_of_int 5 = 0x4014000000000000 \<and> double_to_i64 (double_of_int 5) = Some 5 \<and> val_i32 (VDouble 0x4014000000000000) = Some (Some 5)"
proof -
  have w: "double_of_int 5 = 0x4014000000000000" by (simp add: double_of_int_def bit_len.simps Let_def)
  have "\<bar>5\<bar> < (2 :: int) ^ 53" "i32_range 5" by (simp_all add: i32_range_def)
  from number_conversions [OF this(1)] this(2) show ?thesis unfolding w by blast
qed

end
