(* ===== verification/Bson_Builder.thy ===== *)
theory Bson_Builder
  imports Bson_Format
begin

unbundle bit_operations_syntax

text \<open>
  \<^verbatim>\<open>BsonBuilder\<close> (core/src/util/bson_builder.cpp, core/inc/sc-api/core/util/bson_builder.h): writes a
  BSON document into a caller's buffer or a growing vector. The state is the class's members; the
  two vectors used as stacks are lists whose head is \<^verbatim>\<open>back()\<close>. A write outside the buffer is
  \<^term>\<open>None\<close>. The memory behind \<^verbatim>\<open>buffer_ptr_\<close> is the list \<^verbatim>\<open>bb_buf\<close>. The reallocation callback is
  present in vector mode; the growth policy of \<^verbatim>\<open>std::vector\<close> is its parameter (current size and
  requested capacity to new capacity). The array key buffer is uninitialised stack memory, an
  argument of the array operations.
\<close>

section \<open>State\<close>

record bson_builder =
  document_size_offsets :: "int list"
  array_idx_counters :: "int list"
  bb_buf :: bytes
  bb_offset :: int
  current_usage :: int
  capacity :: int
  reallocate :: "(nat \<Rightarrow> nat \<Rightarrow> nat) option"
  doc_is_array_bits :: "64 word"
  bb_depth :: int
  start_offset :: int
  error_flag :: bool

definition currentDocIsArray :: "bson_builder \<Rightarrow> bool" where
  "currentDocIsArray b \<longleftrightarrow> doc_is_array_bits b AND push_bit (nat (bb_depth b)) 1 \<noteq> 0"

definition reserveMainDocumentHeader :: "bson_builder \<Rightarrow> bson_builder" where
  "reserveMainDocumentHeader b =
     b\<lparr>bb_offset := bb_offset b + 4, current_usage := current_usage b + 5\<rparr>"

definition bson_builder_default :: bson_builder where
  "bson_builder_default =
     \<lparr>document_size_offsets = [], array_idx_counters = [], bb_buf = [], bb_offset = 0,
      current_usage = 0, capacity = 0, reallocate = None, doc_is_array_bits = 0, bb_depth = 0,
      start_offset = 0, error_flag = False\<rparr>"

definition initialize_buffer :: "bytes \<Rightarrow> int \<Rightarrow> bson_builder \<Rightarrow> bson_builder" where
  "initialize_buffer buf max_size b = reserveMainDocumentHeader
     (b\<lparr>bb_buf := buf, bb_offset := 0, current_usage := 0, capacity := i32 max_size, start_offset := 0\<rparr>)"

definition bson_builder_buffer :: "bytes \<Rightarrow> int \<Rightarrow> bson_builder" where
  "bson_builder_buffer buf max_size = initialize_buffer buf max_size bson_builder_default"

definition vector_resize :: "nat \<Rightarrow> bytes \<Rightarrow> bytes" where
  "vector_resize n buf = take n buf @ replicate (n - length buf) 0"

definition initialize_vector ::
  "(nat \<Rightarrow> nat \<Rightarrow> nat) \<Rightarrow> bytes \<Rightarrow> nat \<Rightarrow> nat \<Rightarrow> bson_builder \<Rightarrow> bson_builder" where
  "initialize_vector grow vec start reserved_extra_footer b =
     (let vec' = (if length vec < 5 + start + reserved_extra_footer
                  then vector_resize (10 + start + reserved_extra_footer) vec else vec)
      in (reserveMainDocumentHeader
            (b\<lparr>bb_buf := vec', capacity := i32 (int (length vec')), start_offset := int start,
               bb_offset := int start, current_usage := int start + int reserved_extra_footer\<rparr>))
         \<lparr>reallocate := Some grow\<rparr>)"

definition bson_builder_vector ::
  "(nat \<Rightarrow> nat \<Rightarrow> nat) \<Rightarrow> bytes \<Rightarrow> nat \<Rightarrow> nat \<Rightarrow> bson_builder" where
  "bson_builder_vector grow vec start reserved_extra_footer =
     initialize_vector grow vec start reserved_extra_footer bson_builder_default"

text \<open>Move assignment swaps every member but the stack of size offsets.\<close>

definition bb_move_assign :: "bson_builder \<Rightarrow> bson_builder \<Rightarrow> bson_builder \<times> bson_builder" where
  "bb_move_assign this b =
     (b\<lparr>document_size_offsets := document_size_offsets this\<rparr>,
      this\<lparr>document_size_offsets := document_size_offsets b\<rparr>)"

section \<open>Capacity and keys\<close>

definition verifyEnoughCapacity :: "int \<Rightarrow> bson_builder \<Rightarrow> bool \<times> bson_builder" where
  "verifyEnoughCapacity n b =
     (if i32 (current_usage b + n) \<le> capacity b then (True, b)
      else (case reallocate b of
          None \<Rightarrow> (False, b\<lparr>error_flag := True\<rparr>)
        | Some grow \<Rightarrow>
            (let cap = grow (length (bb_buf b)) (nat (i32 (current_usage b + n)));
                 b' = b\<lparr>bb_buf := vector_resize cap (bb_buf b), capacity := i32 (int cap)\<rparr>
             in if i32 (current_usage b + n) \<le> capacity b' then (True, b')
                else (False, b'\<lparr>error_flag := True\<rparr>))))"

text \<open>Keys of array elements: \<^verbatim>\<open>digits2\<close> is the two-digit table; \<^verbatim>\<open>fillArrayDocKey\<close> writes the
  digit pairs of an index of three digits or more to the start of the buffer, not to the position
  \<^verbatim>\<open>out\<close> it has moved to.\<close>

definition k_array_doc_key_buf_size :: nat where
  "k_array_doc_key_buf_size = 8"

definition digits2 :: "int \<Rightarrow> bytes" where
  "digits2 v = [word_of_int (48 + v div 10), word_of_int (48 + v mod 10)]"

function fill_loop :: "bytes \<Rightarrow> int \<Rightarrow> int \<Rightarrow> bytes \<times> int \<times> int" where
  "fill_loop buf out idx =
     (if idx \<ge> 100 then fill_loop (digits2 (idx mod 100) @ drop 2 buf) (out - 2) (idx div 100)
      else (buf, out, idx))"
  by pat_completeness auto
termination
  by (relation "measure (\<lambda>(buf, out, idx). nat idx)") auto

declare fill_loop.simps [simp del]

definition fillArrayDocKey :: "bytes \<Rightarrow> int \<Rightarrow> bytes" where
  "fillArrayDocKey junk idx =
     (if idx < 10 then [word_of_int (48 + idx), 0]
      else if idx < 100 then digits2 idx @ [0]
      else (case fill_loop (junk[7 := 0]) 7 idx of (buf, out, i) \<Rightarrow>
        if i < 10 then drop (nat (out - 1)) (buf[nat (out - 1) := word_of_int (48 + i)])
        else drop (nat out) (digits2 i @ drop 2 buf)))"

text \<open>The three writes of type, key and terminator are one write of their concatenation.\<close>

definition verifyCapacityAndInsertKey ::
  "byte \<Rightarrow> bytes \<Rightarrow> int \<Rightarrow> bson_builder \<Rightarrow> (bool \<times> bson_builder) option" where
  "verifyCapacityAndInsertKey t name value_size b =
     (case verifyEnoughCapacity (i32 (value_size + 2 + int (length name))) b of
        (False, b1) \<Rightarrow> Some (False, b1)
      | (True, b1) \<Rightarrow> (case wr_bytes (bb_buf b1) (bb_offset b1) (t # name @ [0]) of
            None \<Rightarrow> None
          | Some buf \<Rightarrow> Some (True, b1\<lparr>bb_buf := buf, bb_offset := bb_offset b1 + int (length name) + 2,
              current_usage := current_usage b1 + value_size + 2 + int (length name)\<rparr>)))"

definition verifyCapacityAndInsertArrayKey ::
  "bytes \<Rightarrow> byte \<Rightarrow> int \<Rightarrow> bson_builder \<Rightarrow> (bool \<times> bson_builder) option" where
  "verifyCapacityAndInsertArrayKey junk t value_size b = (case array_idx_counters b of
     [] \<Rightarrow> None
   | idx # counters \<Rightarrow>
       (let key = fillArrayDocKey junk idx; b0 = b\<lparr>array_idx_counters := (idx + 1) # counters\<rparr> in
        case verifyEnoughCapacity (i32 (value_size + 1 + int (length key))) b0 of
          (False, b1) \<Rightarrow> Some (False, b1)
        | (True, b1) \<Rightarrow> (case wr_bytes (bb_buf b1) (bb_offset b1) (t # key) of
              None \<Rightarrow> None
            | Some buf \<Rightarrow> Some (True, b1\<lparr>bb_buf := buf, bb_offset := bb_offset b1 + int (length key) + 1,
                current_usage := current_usage b1 + value_size + 1 + int (length key)\<rparr>))))"

text \<open>Writing a value at the cursor after its key has been inserted.\<close>

definition put_value :: "bytes \<Rightarrow> (bool \<times> bson_builder) option \<Rightarrow> (bool \<times> bson_builder) option" where
  "put_value bs r = (case r of
     None \<Rightarrow> None
   | Some (False, b) \<Rightarrow> Some (False, b)
   | Some (True, b) \<Rightarrow> (case wr_bytes (bb_buf b) (bb_offset b) bs of
         None \<Rightarrow> None
       | Some buf \<Rightarrow> Some (True, b\<lparr>bb_buf := buf, bb_offset := bb_offset b + int (length bs)\<rparr>)))"

section \<open>Elements\<close>

definition docAddElement_bool :: "bytes \<Rightarrow> bool \<Rightarrow> bson_builder \<Rightarrow> (bool \<times> bson_builder) option" where
  "docAddElement_bool name v b =
     put_value [if v then 0x01 else 0x00] (verifyCapacityAndInsertKey 0x08 name 1 b)"

definition docAddElement_double :: "bytes \<Rightarrow> 64 word \<Rightarrow> bson_builder \<Rightarrow> (bool \<times> bson_builder) option" where
  "docAddElement_double name v b =
     put_value (le_bytes 8 (uint v)) (verifyCapacityAndInsertKey 0x01 name 8 b)"

definition docAddElement_i32 :: "bytes \<Rightarrow> int \<Rightarrow> bson_builder \<Rightarrow> (bool \<times> bson_builder) option" where
  "docAddElement_i32 name v b = put_value (le_bytes 4 v) (verifyCapacityAndInsertKey 0x10 name 4 b)"

definition docAddElement_i64 :: "bytes \<Rightarrow> int \<Rightarrow> bson_builder \<Rightarrow> (bool \<times> bson_builder) option" where
  "docAddElement_i64 name v b = put_value (le_bytes 8 v) (verifyCapacityAndInsertKey 0x12 name 8 b)"

definition docAddElement_null :: "bytes \<Rightarrow> bson_builder \<Rightarrow> (bool \<times> bson_builder) option" where
  "docAddElement_null name b = verifyCapacityAndInsertKey 0x0A name 0 b"

definition docAddElement_string :: "bytes \<Rightarrow> bytes \<Rightarrow> bson_builder \<Rightarrow> (bool \<times> bson_builder) option" where
  "docAddElement_string name v b =
     (let string_data_size = i32 (int (length v) + 1); value_size = i32 (string_data_size + 4) in
      put_value (le_bytes 4 string_data_size @ v @ [0])
        (verifyCapacityAndInsertKey 0x02 name value_size b))"

definition docAddElement_binary ::
  "bytes \<Rightarrow> bytes \<Rightarrow> byte \<Rightarrow> bson_builder \<Rightarrow> (bool \<times> bson_builder) option" where
  "docAddElement_binary name data subtype b =
     (let byte_count = i32 (int (length data)) in
      if byte_count < 0 then Some (False, b)
      else put_value (le_bytes 4 byte_count @ [subtype] @ data)
        (verifyCapacityAndInsertKey 0x05 name (i32 (byte_count + 4 + 1)) b))"

text \<open>\<^verbatim>\<open>docAddSubDoc\<close> copies a finished document; reading past the given memory is a fault.\<close>

definition docAddSubDoc :: "bytes \<Rightarrow> bytes \<Rightarrow> bson_builder \<Rightarrow> (bool \<times> bson_builder) option" where
  "docAddSubDoc name sub b = (case rd_bytes sub 0 4 of
     None \<Rightarrow> None
   | Some hdr \<Rightarrow>
       (let doc_size = i32 (le_int hdr) in
        if doc_size < 0 then Some (False, b)
        else (case verifyCapacityAndInsertKey 0x03 name doc_size b of
            None \<Rightarrow> None
          | Some (False, b1) \<Rightarrow> Some (False, b1)
          | Some (True, b1) \<Rightarrow> (case rd_bytes sub 0 (nat doc_size) of
                None \<Rightarrow> None
              | Some bs \<Rightarrow> put_value bs (Some (True, b1))))))"

definition arrayAddElement_bool :: "bytes \<Rightarrow> bool \<Rightarrow> bson_builder \<Rightarrow> (bool \<times> bson_builder) option" where
  "arrayAddElement_bool junk v b =
     put_value [if v then 0x00 else 0x01] (verifyCapacityAndInsertArrayKey junk 0x08 1 b)"

definition arrayAddElement_double :: "bytes \<Rightarrow> 64 word \<Rightarrow> bson_builder \<Rightarrow> (bool \<times> bson_builder) option" where
  "arrayAddElement_double junk v b =
     put_value (le_bytes 8 (uint v)) (verifyCapacityAndInsertArrayKey junk 0x01 8 b)"

definition arrayAddElement_i32 :: "bytes \<Rightarrow> int \<Rightarrow> bson_builder \<Rightarrow> (bool \<times> bson_builder) option" where
  "arrayAddElement_i32 junk v b =
     put_value (le_bytes 4 v) (verifyCapacityAndInsertArrayKey junk 0x10 4 b)"

definition arrayAddElement_i64 :: "bytes \<Rightarrow> int \<Rightarrow> bson_builder \<Rightarrow> (bool \<times> bson_builder) option" where
  "arrayAddElement_i64 junk v b =
     put_value (le_bytes 8 v) (verifyCapacityAndInsertArrayKey junk 0x12 8 b)"

definition arrayAddElement_string :: "bytes \<Rightarrow> bytes \<Rightarrow> bson_builder \<Rightarrow> (bool \<times> bson_builder) option" where
  "arrayAddElement_string junk v b =
     (let string_data_size = i32 (int (length v) + 1); value_size = i32 (string_data_size + 4) in
      put_value (le_bytes 4 string_data_size @ v @ [0])
        (verifyCapacityAndInsertArrayKey junk 0x02 value_size b))"

definition arrayAddElement_null :: "bytes \<Rightarrow> bson_builder \<Rightarrow> (bool \<times> bson_builder) option" where
  "arrayAddElement_null junk b = verifyCapacityAndInsertArrayKey junk 0x0A 0 b"

definition arrayAddElement_binary ::
  "bytes \<Rightarrow> bytes \<Rightarrow> byte \<Rightarrow> bson_builder \<Rightarrow> (bool \<times> bson_builder) option" where
  "arrayAddElement_binary junk data subtype b =
     (let byte_count = i32 (int (length data)) in
      if byte_count < 0 then Some (False, b)
      else put_value (le_bytes 4 byte_count @ [subtype] @ data)
        (verifyCapacityAndInsertArrayKey junk 0x05 (i32 (byte_count + 4 + 1)) b))"

section \<open>Opening and closing documents\<close>

text \<open>What the four opening operations do once the key is in place: remember where the size goes,
  skip it, and note in the bit set whether the new level is an array.\<close>

definition open_level :: "bool \<Rightarrow> bson_builder \<Rightarrow> bson_builder" where
  "open_level is_array b = b\<lparr>
     document_size_offsets := bb_offset b # document_size_offsets b,
     array_idx_counters := (if is_array then 0 # array_idx_counters b else array_idx_counters b),
     bb_offset := bb_offset b + 4,
     bb_depth := bb_depth b + 1,
     doc_is_array_bits :=
       (if is_array then doc_is_array_bits b OR push_bit (nat (bb_depth b + 1)) 1
        else doc_is_array_bits b AND NOT (push_bit (nat (bb_depth b + 1)) 1))\<rparr>"

definition begin_level :: "bool \<Rightarrow> (bool \<times> bson_builder) option \<Rightarrow> (bool \<times> bson_builder) option" where
  "begin_level is_array r = (case r of
     None \<Rightarrow> None
   | Some (False, b) \<Rightarrow> Some (False, b)
   | Some (True, b) \<Rightarrow> Some (True, open_level is_array b))"

definition docBeginSubDoc :: "bytes \<Rightarrow> bson_builder \<Rightarrow> (bool \<times> bson_builder) option" where
  "docBeginSubDoc name b = begin_level False (verifyCapacityAndInsertKey 0x03 name 5 b)"

definition arrayBeginSubDoc :: "bytes \<Rightarrow> bson_builder \<Rightarrow> (bool \<times> bson_builder) option" where
  "arrayBeginSubDoc junk b = begin_level False (verifyCapacityAndInsertArrayKey junk 0x03 5 b)"

definition docBeginSubArray :: "bytes \<Rightarrow> bson_builder \<Rightarrow> (bool \<times> bson_builder) option" where
  "docBeginSubArray name b = begin_level True (verifyCapacityAndInsertKey 0x04 name 5 b)"

definition arrayBeginSubArray :: "bytes \<Rightarrow> bson_builder \<Rightarrow> (bool \<times> bson_builder) option" where
  "arrayBeginSubArray junk b = begin_level True (verifyCapacityAndInsertArrayKey junk 0x04 5 b)"

text \<open>\<^verbatim>\<open>docBeginSubDoc(name, sub_document)\<close>: opens a level and copies the elements of a document.\<close>

definition docBeginSubDoc_from :: "bytes \<Rightarrow> bytes \<Rightarrow> bson_builder \<Rightarrow> (bool \<times> bson_builder) option" where
  "docBeginSubDoc_from name sub b = (case rd_bytes sub 0 4 of
     None \<Rightarrow> None
   | Some hdr \<Rightarrow>
       (let sub_doc_size = i32 (le_int hdr) in
        case begin_level False (verifyCapacityAndInsertKey 0x03 name sub_doc_size b) of
          None \<Rightarrow> None
        | Some (False, b1) \<Rightarrow> Some (False, b1)
        | Some (True, b1) \<Rightarrow>
            if sub_doc_size < 5 then None
            else (case rd_bytes sub 4 (nat (sub_doc_size - 5)) of
                None \<Rightarrow> None
              | Some bs \<Rightarrow> put_value bs (Some (True, b1)))))"

text \<open>Terminate the innermost level and write its size; \<^verbatim>\<open>endArray\<close> also drops the index counter.\<close>

definition close_level :: "bson_builder \<Rightarrow> bson_builder option" where
  "close_level b = (case document_size_offsets b of
     [] \<Rightarrow> None
   | so # offs \<Rightarrow> (case wr_bytes (bb_buf b) (bb_offset b) [0] of
         None \<Rightarrow> None
       | Some buf \<Rightarrow> (case wr_bytes buf so (le_bytes 4 (bb_offset b + 1 - so)) of
             None \<Rightarrow> None
           | Some buf' \<Rightarrow> Some (b\<lparr>document_size_offsets := offs, bb_buf := buf',
               bb_offset := bb_offset b + 1, bb_depth := bb_depth b - 1\<rparr>))))"

definition endDocument :: "bson_builder \<Rightarrow> bson_builder option" where
  "endDocument b = close_level b"

definition endArray :: "bson_builder \<Rightarrow> bson_builder option" where
  "endArray b = (case array_idx_counters b of
     [] \<Rightarrow> None
   | _ # counters \<Rightarrow> close_level (b\<lparr>array_idx_counters := counters\<rparr>))"

text \<open>The result of \<^verbatim>\<open>finish\<close>: start and size of the document, or the null pointer.\<close>

definition bb_finish :: "bson_builder \<Rightarrow> ((int \<times> int) option \<times> bson_builder) option" where
  "bb_finish b =
     (if bb_depth b \<noteq> 0 \<or> error_flag b then Some (None, b)
      else (case wr_bytes (bb_buf b) (bb_offset b) [0] of
          None \<Rightarrow> None
        | Some buf \<Rightarrow>
            (let doc_size = bb_offset b + 1 - start_offset b in
             case wr_bytes buf (start_offset b) (le_bytes 4 doc_size) of
               None \<Rightarrow> None
             | Some buf' \<Rightarrow> Some (Some (start_offset b, doc_size),
                 b\<lparr>bb_buf := buf', bb_offset := bb_offset b + 1\<rparr>))))"

definition bb_success :: "bson_builder \<Rightarrow> bool" where
  "bb_success b \<longleftrightarrow> \<not> error_flag b"

end
