(* ===== verification/Bson_Builder_Spec.thy ===== *)
theory Bson_Builder_Spec
  imports Bson_Builder
begin

unbundle bit_operations_syntax

text \<open>
  \<^verbatim>\<open>BsonBuilder\<close> refines the construction of an abstract document. The abstract state is the stack of
  open levels, each with its key, its kind and the elements added so far; the relation below says
  that the bytes written so far are the reference encoding of these elements around the reserved
  size fields. Every operation preserves the relation, never writes outside the buffer, and on
  failure sets the error flag and leaves the document unchanged; \<^verbatim>\<open>finish\<close> then yields the encoding
  of the document.
\<close>

section \<open>Slices of a written buffer\<close>

lemma slice_wr_other:
  assumes "wr_bytes buf off bs = Some buf'" "0 \<le> a" "b \<le> off \<or> off + int (length bs) \<le> a"
  shows "slice buf' a b = slice buf a b"
proof (rule nth_equalityI)
  have len: "length buf' = length buf" by (rule length_wr_bytes [OF assms(1)])
  then show "length (slice buf' a b) = length (slice buf a b)" by (simp add: slice_def)
  fix i assume "i < length (slice buf' a b)"
  then have i: "nat a + i < length buf" "i < nat (b - a)" by (auto simp: slice_def len)
  have "0 \<le> off" using assms(1) by (auto simp: wr_bytes_def split: if_splits)
  then have "\<not> (nat off \<le> nat a + i \<and> nat a + i < nat off + length bs)"
    using assms(2,3) i(2) by auto
  then show "slice buf' a b ! i = slice buf a b ! i"
    using nth_wr_bytes [OF assms(1) i(1)] i by (auto simp: slice_def len)
qed

lemma slice_wr_same:
  assumes "wr_bytes buf off bs = Some buf'" "e = off + int (length bs)"
  shows "slice buf' off e = bs"
  using assms by (auto simp: wr_bytes_def slice_def split: if_splits)

lemma slice_split:
  assumes "0 \<le> a" "a \<le> b" "b \<le> c"
  shows "slice buf a c = slice buf a b @ slice buf b c"
proof -
  have "nat (c - a) = nat (b - a) + nat (c - b)" "nat a + nat (b - a) = nat b"
    using assms by linarith+
  then show ?thesis by (simp add: slice_def take_add add.commute)
qed

lemma slice_resize:
  assumes "0 \<le> a" "b \<le> int (length buf)" "length buf \<le> n"
  shows "slice (vector_resize n buf) a b = slice buf a b"
proof (cases "a \<le> b")
  case True
  then show ?thesis using assms by (simp add: slice_def vector_resize_def)
next
  case False
  then show ?thesis by (simp add: slice_def)
qed

section \<open>Abstract construction\<close>

text \<open>An open level: the key it has in its parent, whether it is an array, its elements.\<close>

type_synonym level = "bytes \<times> bool \<times> bdoc"

definition level_type :: "bool \<Rightarrow> element_type" where
  "level_type is_array = (if is_array then ELEMENT_ARRAY else ELEMENT_DOC)"

definition open_tag :: "bytes \<Rightarrow> bool \<Rightarrow> bytes" where
  "open_tag k is_array = type_byte (level_type is_array) # k @ [0]"

definition level_value :: "bool \<Rightarrow> bdoc \<Rightarrow> bval" where
  "level_value is_array es = (if is_array then VArray es else VDoc es)"

fun add_elem :: "bytes \<Rightarrow> bval \<Rightarrow> level list \<Rightarrow> level list" where
  "add_elem k v ((lk, a, es) # ls) = (lk, a, es @ [(k, v)]) # ls"
| "add_elem k v [] = []"

fun close_abs :: "level list \<Rightarrow> level list" where
  "close_abs ((k, a, es) # ls) = add_elem k (level_value a es) ls"
| "close_abs [] = []"

text \<open>Whether bytes up to a position represent the open levels, the last one possibly followed by
  the type and key of a level just opened.\<close>

fun rep :: "bytes \<Rightarrow> int \<Rightarrow> int list \<Rightarrow> level list \<Rightarrow> bytes \<Rightarrow> bool" where
  "rep buf e (so # offs) ((k, a, es) # ls) tail \<longleftrightarrow>
     0 \<le> so \<and> so + 4 \<le> e \<and> slice buf (so + 4) e = enc_elems es @ tail \<and>
     (if ls = [] then offs = [] else rep buf so offs ls (open_tag k a))"
| "rep buf e _ _ tail \<longleftrightarrow> False"

definition offsets :: "bson_builder \<Rightarrow> int list" where
  "offsets b = document_size_offsets b @ [start_offset b]"

definition array_bits :: "64 word \<Rightarrow> level list \<Rightarrow> bool" where
  "array_bits w ls \<longleftrightarrow> (\<forall>i < length ls. bit w i = fst (snd (rev ls ! i)))"

text \<open>The element counters: one per open array; the arrays around the innermost level have already
  counted the element that is being built.\<close>

definition array_counts :: "level list \<Rightarrow> int list" where
  "array_counts ls = (case ls of [] \<Rightarrow> []
     | (k, a, es) # fs \<Rightarrow> (if a then [int (length es)] else []) @
         map (\<lambda>(k, a, es). int (length es) + 1) (filter (\<lambda>(k, a, es). a) fs))"

text \<open>What is documented of \<^verbatim>\<open>std::vector::reserve\<close>: it never shrinks and provides the requested
  capacity; an implementation that at most doubles the request stays in the range of the code's
  \<^verbatim>\<open>int32_t\<close> capacity for documents below 1 GiB.\<close>

definition reserve_ok :: "(nat \<Rightarrow> nat \<Rightarrow> nat) \<Rightarrow> bool" where
  "reserve_ok grow \<longleftrightarrow> (\<forall>sz n. sz \<le> grow sz n \<and> n \<le> grow sz n \<and> grow sz n \<le> max sz (2 * n))"

lemma reserve_okD:
  "reserve_ok grow \<Longrightarrow> sz \<le> grow sz n \<and> n \<le> grow sz n \<and> grow sz n \<le> max sz (2 * n)"
  by (simp add: reserve_ok_def)

text \<open>The relation in the middle of an operation: bytes of an unfinished element behind the last
  level, room reserved for the rest of it, and the element counters. One terminator per open level
  and the caller's footer are always in reserve.\<close>

definition bb_mid :: "bson_builder \<Rightarrow> level list \<Rightarrow> bytes \<Rightarrow> int \<Rightarrow> int list \<Rightarrow> bool" where
  "bb_mid b ls tail room counts \<longleftrightarrow>
     rep (bb_buf b) (bb_offset b) (offsets b) ls tail \<and>
     bb_depth b = int (length (document_size_offsets b)) \<and> length ls \<le> 64 \<and>
     array_bits (doc_is_array_bits b) ls \<and>
     length (array_idx_counters b) = length counts \<and>
     (\<not> error_flag b \<longrightarrow> array_idx_counters b = counts) \<and>
     bb_offset b + room + int (length ls) \<le> current_usage b \<and> current_usage b \<le> capacity b \<and>
     capacity b = int (length (bb_buf b)) \<and> capacity b < 2147483648 \<and>
     (case reallocate b of None \<Rightarrow> True | Some grow \<Rightarrow> reserve_ok grow)"

definition bb_inv :: "bson_builder \<Rightarrow> level list \<Rightarrow> bool" where
  "bb_inv b ls \<longleftrightarrow> bb_mid b ls [] 0 (array_counts ls)"

lemma rep_nonempty: "rep buf e offs ls tail \<Longrightarrow> ls \<noteq> [] \<and> offs \<noteq> [] \<and> length offs = length ls \<and> 4 \<le> e"
  by (induction buf e offs ls tail rule: rep.induct) (auto split: if_splits)

text \<open>Writing behind the cursor, and growing the vector, keep what is represented.\<close>

lemma rep_cong:
  assumes "rep buf e offs ls tail" "\<And>x y. 0 \<le> x \<Longrightarrow> y \<le> e \<Longrightarrow> slice buf' x y = slice buf x y"
  shows "rep buf' e offs ls tail"
  using assms
proof (induction buf e offs ls tail rule: rep.induct)
  case (1 buf e so offs k a es ls tail)
  then show ?case by (auto split: if_splits)
qed auto

lemma rep_wr:
  assumes "rep buf e offs ls tail" "wr_bytes buf e bs = Some buf'"
  shows "rep buf' e offs ls tail"
  using assms by (intro rep_cong [OF assms(1)] slice_wr_other) auto

lemma rep_extend:
  assumes "rep buf e offs ls tail" "wr_bytes buf e bs = Some buf'" "e' = e + int (length bs)"
  shows "rep buf' e' offs ls (tail @ bs)"
proof -
  obtain so offs' k a es ls' where eq: "offs = so # offs'" "ls = (k, a, es) # ls'"
    using rep_nonempty [OF assms(1)] by (cases offs; cases ls) auto
  have r: "rep buf' e offs ls tail" by (rule rep_wr [OF assms(1,2)])
  then have so: "0 \<le> so" "so + 4 \<le> e" "slice buf' (so + 4) e = enc_elems es @ tail"
    by (simp_all add: eq)
  have "slice buf' (so + 4) e' = enc_elems es @ tail @ bs"
    using slice_split [of "so + 4" e e' buf'] slice_wr_same [OF assms(2,3)] so assms(3) by simp
  then show ?thesis using r assms(3) so by (simp add: eq)
qed

lemma rep_add_elem:
  "rep buf e offs ls (enc_elem k v) \<Longrightarrow> rep buf e offs (add_elem k v ls) []"
  by (cases "(buf, e, offs, ls, enc_elem k v)" rule: rep.cases)
    (auto simp: enc_elems_single simp del: enc_elems.simps)

lemma rep_open:
  assumes "rep buf e offs ls (open_tag k a)"
  shows "rep buf (e + 4) (e # offs) ((k, a, []) # ls) []"
  using assms rep_nonempty [OF assms] by (simp add: slice_def)

text \<open>Closing a level: the terminator, then the size in front of the elements.\<close>

lemma rep_close:
  assumes r: "rep buf e (so # offs) ((k, a, es) # ls) []" and ls: "ls \<noteq> []"
    and w1: "wr_bytes buf e [0] = Some buf1"
    and w2: "wr_bytes buf1 so (le_bytes 4 (e + 1 - so)) = Some buf2"
  shows "rep buf2 (e + 1) offs (add_elem k (level_value a es) ls) []"
proof -
  have so: "0 \<le> so" "so + 4 \<le> e" and out: "rep buf so offs ls (open_tag k a)"
    and sl: "slice buf (so + 4) e = enc_elems es" using r ls by auto
  have e: "e \<le> int (length buf)" using w1 by (auto simp: wr_bytes_def split: if_splits)
  have body: "slice buf2 (so + 4) (e + 1) = enc_elems es @ [0]"
  proof -
    have "slice buf1 (so + 4) (e + 1) = enc_elems es @ [0]"
      using slice_split [of "so + 4" e "e + 1" buf1] slice_wr_same [OF w1] so sl
        slice_wr_other [OF w1, of "so + 4" e] by simp
    then show ?thesis using slice_wr_other [OF w2, of "so + 4" "e + 1"] so by simp
  qed
  have len: "int (length (enc_elems es)) = e - (so + 4)"
    using arg_cong [OF sl, of length] so e by (simp add: slice_def)
  have sz: "e + 1 - so = int (length (enc_elems es)) + 5" using len by simp
  have frame: "slice buf2 so (e + 1) = enc_val (level_value a es)"
    using slice_split [of so "so + 4" "e + 1" buf2] slice_wr_same [OF w2, of "so + 4"] body so
    by (simp add: level_value_def doc_frame_def sz)
  have out2: "rep buf2 so offs ls (open_tag k a)"
  proof (rule rep_cong [OF out])
    fix x y :: int assume "0 \<le> x" "y \<le> so"
    then show "slice buf2 x y = slice buf x y"
      using slice_wr_other [OF w1, of x y] slice_wr_other [OF w2, of x y] so by simp
  qed
  have "open_tag k a @ enc_val (level_value a es) = enc_elem k (level_value a es)"
    by (simp add: open_tag_def enc_elem_def level_value_def level_type_def)
  moreover have "rep buf2 (e + 1) offs ls (open_tag k a @ enc_val (level_value a es))"
  proof -
    obtain so' offs' k' a' es' ls' where eq: "offs = so' # offs'" "ls = (k', a', es') # ls'"
      using rep_nonempty [OF out2] by (cases offs; cases ls) auto
    have "slice buf2 (so' + 4) (e + 1) = slice buf2 (so' + 4) so @ slice buf2 so (e + 1)"
      using out2 so by (intro slice_split) (simp_all add: eq)
    then show ?thesis using out2 so frame by (simp add: eq)
  qed
  ultimately show ?thesis by (simp add: rep_add_elem)
qed

declare rep.simps [simp del]

section \<open>Capacity\<close>

definition same_frame :: "bson_builder \<Rightarrow> bson_builder \<Rightarrow> bool" where
  "same_frame b b' \<longleftrightarrow> current_usage b' = current_usage b \<and> bb_offset b' = bb_offset b \<and>
     array_idx_counters b' = array_idx_counters b \<and> reallocate b' = reallocate b \<and>
     document_size_offsets b' = document_size_offsets b \<and> bb_depth b' = bb_depth b \<and>
     doc_is_array_bits b' = doc_is_array_bits b \<and> start_offset b' = start_offset b"

text \<open>What an operation keeps of the buffer management, and the only way a capacity check fails.\<close>

definition keeps :: "bson_builder \<Rightarrow> bson_builder \<Rightarrow> bool" where
  "keeps b b' \<longleftrightarrow> reallocate b' = reallocate b \<and> start_offset b' = start_offset b \<and>
     (reallocate b = None \<longrightarrow> capacity b' = capacity b)"

definition can_fail :: "bson_builder \<Rightarrow> int \<Rightarrow> bool" where
  "can_fail b n \<longleftrightarrow> reallocate b = None \<and> capacity b < current_usage b + n"

lemma bb_mid_offset:
  assumes "bb_mid b ls tail room counts" "0 \<le> room"
  shows "4 \<le> bb_offset b" "ls \<noteq> []" "bb_offset b + room < int (length (bb_buf b))"
proof -
  have "rep (bb_buf b) (bb_offset b) (offsets b) ls tail" using assms by (simp add: bb_mid_def)
  then show ls: "4 \<le> bb_offset b" "ls \<noteq> []" using rep_nonempty by blast+
  have "bb_offset b + room + int (length ls) \<le> int (length (bb_buf b))"
    using assms by (simp add: bb_mid_def)
  moreover have "0 < length ls" using ls by simp
  ultimately show "bb_offset b + room < int (length (bb_buf b))" using ls by linarith
qed

lemma bb_mid_grow:
  assumes "bb_mid b ls tail 0 counts" "length (bb_buf b) \<le> cap" "int cap < 2147483648"
  shows "bb_mid (b\<lparr>bb_buf := vector_resize cap (bb_buf b), capacity := int cap\<rparr>) ls tail 0 counts"
proof -
  have r: "rep (bb_buf b) (bb_offset b) (offsets b) ls tail" using assms(1) by (simp add: bb_mid_def)
  have "rep (vector_resize cap (bb_buf b)) (bb_offset b) (offsets b) ls tail"
    using assms(2) bb_mid_offset [OF assms(1)] by (intro rep_cong [OF r] slice_resize) simp_all
  then show ?thesis
    using assms by (simp add: bb_mid_def offsets_def vector_resize_def)
qed

lemma verifyEnoughCapacity_spec:
  assumes inv: "bb_mid b ls tail 0 counts" and n: "0 \<le> n" "current_usage b + n < 1073741824"
    and v: "verifyEnoughCapacity n b = (ok, b')"
  shows "bb_mid b' ls tail 0 counts \<and> same_frame b b' \<and>
         (if ok then error_flag b' = error_flag b \<and> current_usage b + n \<le> capacity b' \<and> keeps b b'
          else error_flag b' \<and> can_fail b n)"
proof -
  have nn: "0 \<le> current_usage b"
    using inv bb_mid_offset [OF inv] by (simp add: bb_mid_def)
  then have id: "i32 (current_usage b + n) = current_usage b + n"
    using n by (intro i32_id) (simp add: i32_range_def)
  consider (fits) "current_usage b + n \<le> capacity b"
    | (fail) "\<not> current_usage b + n \<le> capacity b" "reallocate b = None"
    | (grow) g where "\<not> current_usage b + n \<le> capacity b" "reallocate b = Some g" by fastforce
  then show ?thesis
  proof cases
    case fits
    then show ?thesis using inv v by (simp add: verifyEnoughCapacity_def id same_frame_def keeps_def)
  next
    case fail
    then have "ok = False" "b' = b\<lparr>error_flag := True\<rparr>" using v by (simp_all add: verifyEnoughCapacity_def id)
    then show ?thesis using inv fail by (simp add: same_frame_def bb_mid_def offsets_def can_fail_def)
  next
    case grow
    let ?cap = "g (length (bb_buf b)) (nat (current_usage b + n))"
    have "reserve_ok g" using inv grow(2) by (simp add: bb_mid_def)
    note g = reserve_okD [OF this, of "length (bb_buf b)" "nat (current_usage b + n)"]
    have small: "int (length (bb_buf b)) < 2147483648" using inv by (simp add: bb_mid_def)
    have cap: "length (bb_buf b) \<le> ?cap" "current_usage b + n \<le> int ?cap" "int ?cap < 2147483648"
      using g n nn small by linarith+
    then have i: "i32 (int ?cap) = int ?cap" by (intro i32_id) (simp add: i32_range_def)
    have b': "ok" "b' = b\<lparr>bb_buf := vector_resize ?cap (bb_buf b), capacity := int ?cap\<rparr>"
      using grow v cap(2) by (simp_all add: verifyEnoughCapacity_def id i Let_def)
    show ?thesis using bb_mid_grow [OF inv cap(1,3)] b' cap(2) grow(2) by (simp add: same_frame_def keeps_def)
  qed
qed

text \<open>After an error the counters carry no information.\<close>

lemma bb_mid_error:
  "bb_mid b ls tail room c \<Longrightarrow> error_flag b \<Longrightarrow> length c' = length c \<Longrightarrow> bb_mid b ls tail room c'"
  by (simp add: bb_mid_def)

section \<open>Inserting a key, a value, a level\<close>

text \<open>Both kinds of key insertion: capacity for tag and value is secured, then the tag is written.\<close>

lemma insert_tag_spec:
  assumes inv: "bb_mid b ls [] 0 counts" and vs: "0 \<le> vs"
    and lim: "current_usage b + vs + int (length tag) < 1073741824"
    and v: "verifyEnoughCapacity (i32 (vs + int (length tag))) b = (ok, b1)"
  shows "if ok then \<exists>buf. wr_bytes (bb_buf b1) (bb_offset b1) tag = Some buf \<and>
           bb_mid (b1\<lparr>bb_buf := buf, bb_offset := bb_offset b1 + int (length tag),
             current_usage := current_usage b1 + vs + int (length tag)\<rparr>) ls tag vs counts \<and>
           error_flag b1 = error_flag b \<and> keeps b b1
         else bb_mid b1 ls [] 0 counts \<and> error_flag b1 \<and> can_fail b (vs + int (length tag))"
proof -
  have nn: "0 \<le> current_usage b" using inv bb_mid_offset [OF inv] by (simp add: bb_mid_def)
  have id: "i32 (vs + int (length tag)) = vs + int (length tag)"
    using vs lim nn by (intro i32_id) (simp add: i32_range_def)
  note sp = verifyEnoughCapacity_spec [OF inv _ _ v [unfolded id]]
  have m: "bb_mid b1 ls [] 0 counts" "same_frame b b1"
    "if ok then error_flag b1 = error_flag b \<and> current_usage b + (vs + int (length tag)) \<le> capacity b1 \<and>
       keeps b b1 else error_flag b1 \<and> can_fail b (vs + int (length tag))"
    using sp vs lim by auto
  show ?thesis
  proof (cases ok)
    case True
    have u: "bb_offset b1 + int (length ls) \<le> current_usage b1" "capacity b1 = int (length (bb_buf b1))"
      "current_usage b1 = current_usage b"
      using m(1,2) by (simp_all add: bb_mid_def same_frame_def)
    obtain buf where w: "wr_bytes (bb_buf b1) (bb_offset b1) tag = Some buf"
      using wr_bytes_Some [of "bb_offset b1" tag "bb_buf b1"] bb_mid_offset(1) [OF m(1)] u m(3) True vs
      by auto
    have "rep (bb_buf b1) (bb_offset b1) (offsets b1) ls []" using m(1) by (simp add: bb_mid_def)
    from rep_extend [OF this w refl]
    have r: "rep buf (bb_offset b1 + int (length tag)) (offsets b1) ls tag" by simp
    show ?thesis using True m u w r length_wr_bytes [OF w] by (simp add: bb_mid_def offsets_def)
  next
    case False
    then show ?thesis using m by simp
  qed
qed

lemma put_value_spec:
  assumes inv: "bb_mid b ls tag (int (length bs)) counts" and e: "tag @ bs = enc_elem k v"
  shows "\<exists>b'. put_value bs (Some (True, b)) = Some (True, b') \<and>
           bb_mid b' (add_elem k v ls) [] 0 counts \<and> error_flag b' = error_flag b \<and>
           keeps b b' \<and> current_usage b' = current_usage b"
proof -
  obtain buf where w: "wr_bytes (bb_buf b) (bb_offset b) bs = Some buf"
    using wr_bytes_Some [of "bb_offset b" bs "bb_buf b"] bb_mid_offset [OF inv] by auto
  have "rep (bb_buf b) (bb_offset b) (offsets b) ls tag" using inv by (simp add: bb_mid_def)
  from rep_extend [OF this w refl]
  have r: "rep buf (bb_offset b + int (length bs)) (offsets b) (add_elem k v ls) []"
    by (simp add: e rep_add_elem)
  have ab: "length (add_elem k v ls) = length ls \<and>
      array_bits (doc_is_array_bits b) (add_elem k v ls) = array_bits (doc_is_array_bits b) ls"
  proof (cases ls)
    case (Cons l ls')
    obtain lk a es where l: "l = (lk, a, es)" by (cases l) auto
    have "fst (snd ((rev ls' @ [(lk, a, es @ [(k, v)])]) ! i)) = fst (snd ((rev ls' @ [(lk, a, es)]) ! i))"
      if "i < Suc (length ls')" for i using that by (auto simp: nth_append)
    then show ?thesis using Cons l by (simp add: array_bits_def)
  qed simp
  show ?thesis
    using inv r ab length_wr_bytes [OF w] by (simp add: put_value_def w bb_mid_def offsets_def keeps_def)
qed

lemma insertKey_spec:
  assumes inv: "bb_inv b ls" and vs: "0 \<le> vs"
    and lim: "current_usage b + vs + 2 + int (length name) < 1073741824"
  shows "\<exists>ok b'. verifyCapacityAndInsertKey t name vs b = Some (ok, b') \<and>
     (if ok then bb_mid b' ls (t # name @ [0]) vs (array_counts ls) \<and> error_flag b' = error_flag b \<and>
        current_usage b' = current_usage b + vs + 2 + int (length name) \<and> keeps b b'
      else bb_inv b' ls \<and> error_flag b' \<and> can_fail b (vs + 2 + int (length name)))"
proof -
  let ?tag = "t # name @ [0]"
  obtain ok b1 where v: "verifyEnoughCapacity (i32 (vs + int (length ?tag))) b = (ok, b1)" by force
  have v': "verifyEnoughCapacity (i32 (vs + 2 + int (length name))) b = (ok, b1)"
    using v by (simp add: algebra_simps)
  have m: "bb_mid b ls [] 0 (array_counts ls)" using inv by (simp add: bb_inv_def)
  have "i32 (vs + int (length ?tag)) = vs + int (length ?tag)"
    using vs lim bb_mid_offset [OF m] m by (intro i32_id) (simp add: i32_range_def bb_mid_def)
  then have u: "current_usage b1 = current_usage b"
    using verifyEnoughCapacity_spec [OF m _ _ v] vs lim by (simp add: same_frame_def)
  note sp = insert_tag_spec [OF m vs _ v]
  show ?thesis
  proof (cases ok)
    case True
    obtain buf where w: "wr_bytes (bb_buf b1) (bb_offset b1) ?tag = Some buf" and
      mid: "bb_mid (b1\<lparr>bb_buf := buf, bb_offset := bb_offset b1 + int (length ?tag),
             current_usage := current_usage b1 + vs + int (length ?tag)\<rparr>) ls ?tag vs (array_counts ls)"
      and err: "error_flag b1 = error_flag b" and ks: "keeps b b1"
      using sp lim True by (auto simp: algebra_simps)
    have eqs: "bb_offset b1 + int (length ?tag) = bb_offset b1 + int (length name) + 2"
      "current_usage b1 + vs + int (length ?tag) = current_usage b1 + vs + 2 + int (length name)"
      by simp_all
    show ?thesis
      using True u w err ks mid [unfolded eqs] by (simp add: verifyCapacityAndInsertKey_def v' keeps_def, blast)
  next
    case False
    have "vs + int (length ?tag) = vs + 2 + int (length name)" by simp
    then show ?thesis using sp lim False
      by (simp add: verifyCapacityAndInsertKey_def v' bb_inv_def can_fail_def, blast)
  qed
qed

section \<open>Array keys\<close>

function dec_bytes :: "int \<Rightarrow> bytes" where
  "dec_bytes n = (if n < 10 then [word_of_int (48 + n)]
     else dec_bytes (n div 10) @ [word_of_int (48 + n mod 10)])"
  by pat_completeness auto
termination
  by (relation "measure nat") auto

declare dec_bytes.simps [simp del]

lemma fillArrayDocKey_small:
  assumes "0 \<le> i" "i < 100"
  shows "fillArrayDocKey junk i = dec_bytes i @ [0]"
proof (cases "i < 10")
  case True
  then show ?thesis by (simp add: fillArrayDocKey_def dec_bytes.simps [of i])
next
  case False
  have "i div 10 < 10" using assms by linarith
  then have "dec_bytes (i div 10) = [word_of_int (48 + i div 10)]"
    by (simp add: dec_bytes.simps [of "i div 10"])
  then show ?thesis using False assms
    by (simp add: fillArrayDocKey_def digits2_def dec_bytes.simps [of i])
qed

lemma length_dec_bytes_small: "0 \<le> i \<Longrightarrow> i < 100 \<Longrightarrow> length (dec_bytes i) \<le> 2"
  using fillArrayDocKey_small [of i "[]"]
  by (cases "i < 10") (auto simp: fillArrayDocKey_def digits2_def dec_bytes.simps [of i] split: if_splits
      dest: arg_cong [of _ _ length])

lemma digit_byte_nz: "0 \<le> d \<Longrightarrow> d < 10 \<Longrightarrow> (word_of_int (48 + d) :: byte) \<noteq> 0"
proof -
  assume "0 \<le> d" "d < 10"
  then have "uint (word_of_int (48 + d) :: byte) \<noteq> 0" by (simp only: uint_byte_of_int) simp
  then show ?thesis by auto
qed

lemma dec_bytes_no_null: "0 \<le> i \<Longrightarrow> 0 \<notin> set (dec_bytes i)"
proof (induction i rule: dec_bytes.induct)
  case (1 n)
  show ?case
  proof (cases "n < 10")
    case True
    then show ?thesis using digit_byte_nz [of n] 1 by (auto simp: dec_bytes.simps [of n])
  next
    case False
    then show ?thesis using 1 digit_byte_nz [of "n mod 10"] by (auto simp: dec_bytes.simps [of n])
  qed
qed

lemma insertArrayKey_spec:
  assumes inv: "bb_inv b ((lk, True, es) # ls)" and ok: "\<not> error_flag b" and vs: "0 \<le> vs"
    and idx: "length es < 100" and lim: "current_usage b + vs + 4 < 1073741824"
  shows "\<exists>ok b'. verifyCapacityAndInsertArrayKey junk t vs b = Some (ok, b') \<and>
     (if ok then bb_mid b' ((lk, True, es) # ls) (t # dec_bytes (int (length es)) @ [0]) vs
          ((int (length es) + 1) # tl (array_counts ((lk, True, es) # ls))) \<and> \<not> error_flag b' \<and>
          current_usage b' \<le> current_usage b + vs + 4 \<and> keeps b b'
      else bb_inv b' ((lk, True, es) # ls) \<and> error_flag b' \<and> can_fail b (vs + 4))"
proof -
  let ?ls = "(lk, True, es) # ls" and ?i = "int (length es)"
  let ?cs = "tl (array_counts ?ls)"
  have c: "array_idx_counters b = ?i # ?cs"
    using inv ok by (simp add: bb_inv_def bb_mid_def array_counts_def)
  let ?b0 = "b\<lparr>array_idx_counters := (?i + 1) # ?cs\<rparr>" and ?tag = "t # dec_bytes ?i @ [0]"
  have m: "bb_mid ?b0 ?ls [] 0 ((?i + 1) # ?cs)"
    using inv c by (simp add: bb_inv_def bb_mid_def offsets_def)
  have key: "fillArrayDocKey junk ?i = dec_bytes ?i @ [0]" using idx by (intro fillArrayDocKey_small) auto
  have len: "length (dec_bytes ?i) \<le> 2" using idx by (intro length_dec_bytes_small) auto
  obtain ok' b1 where v: "verifyEnoughCapacity (i32 (vs + int (length ?tag))) ?b0 = (ok', b1)" by force
  have "i32 (vs + int (length ?tag)) = vs + int (length ?tag)"
    using vs lim len bb_mid_offset [OF m] m by (intro i32_id) (simp add: i32_range_def bb_mid_def)
  then have u: "current_usage b1 = current_usage b"
    using verifyEnoughCapacity_spec [OF m _ _ v] vs lim len by (simp add: same_frame_def)
  have v': "verifyEnoughCapacity (i32 (vs + 1 + (int (length (dec_bytes ?i)) + 1))) ?b0 = (ok', b1)"
    using v by (simp add: algebra_simps)
  note sp = insert_tag_spec [OF m vs _ v]
  have lim': "current_usage ?b0 + vs + int (length ?tag) < 1073741824" using lim len by simp
  show ?thesis
  proof (cases ok')
    case True
    obtain buf where w: "wr_bytes (bb_buf b1) (bb_offset b1) ?tag = Some buf" and
      mid: "bb_mid (b1\<lparr>bb_buf := buf, bb_offset := bb_offset b1 + int (length ?tag),
             current_usage := current_usage b1 + vs + int (length ?tag)\<rparr>) ?ls ?tag vs ((?i + 1) # ?cs)"
      and err: "\<not> error_flag b1" and ks: "keeps b b1"
      using sp lim' ok True by (auto simp: keeps_def)
    have eqs: "bb_offset b1 + int (length ?tag) = bb_offset b1 + (int (length (dec_bytes ?i)) + 1) + 1"
      "current_usage b1 + vs + int (length ?tag) =
       current_usage b1 + vs + 1 + (int (length (dec_bytes ?i)) + 1)"
      by simp_all
    have "verifyCapacityAndInsertArrayKey junk t vs b = Some (True,
       b1\<lparr>bb_buf := buf, bb_offset := bb_offset b1 + (int (length (dec_bytes ?i)) + 1) + 1,
          current_usage := current_usage b1 + vs + 1 + (int (length (dec_bytes ?i)) + 1)\<rparr>)"
      using True w v' by (simp add: verifyCapacityAndInsertArrayKey_def c key Let_def)
    then show ?thesis using u len err ks mid [unfolded eqs] by (simp add: keeps_def, blast)
  next
    case False
    then have mid: "bb_mid b1 ?ls [] 0 ((?i + 1) # ?cs)" and err: "error_flag b1" using sp lim' by auto
    have "length (array_counts ?ls) = length ((?i + 1) # ?cs)" by (simp add: array_counts_def)
    then have "bb_inv b1 ?ls" unfolding bb_inv_def by (rule bb_mid_error [OF mid err])
    moreover have "verifyCapacityAndInsertArrayKey junk t vs b = Some (False, b1)"
      using False v' by (simp add: verifyCapacityAndInsertArrayKey_def c key Let_def)
    moreover have "can_fail b (vs + 4)" using sp lim' False len by (auto simp: can_fail_def)
    ultimately show ?thesis using err by (intro exI [of _ False] exI [of _ b1]) simp
  qed
qed

section \<open>Opening and closing levels\<close>

lemma array_bits_current:
  assumes "bb_mid b ((k, a, es) # ls) tail room counts"
  shows "currentDocIsArray b = a"
proof -
  have d: "nat (bb_depth b) = length ls"
    using assms rep_nonempty [of "bb_buf b" "bb_offset b" "offsets b" "(k, a, es) # ls" tail]
    by (simp add: bb_mid_def offsets_def)
  have "bit (doc_is_array_bits b) (length ls) = a"
    using assms by (auto simp: bb_mid_def array_bits_def nth_append)
  moreover have "length ls < 64" using assms by (simp add: bb_mid_def)
  ultimately show ?thesis
    by (simp only: currentDocIsArray_def d bit_iff_and_push_bit_not_eq_0 [symmetric])
qed

lemma array_bits_open:
  assumes "array_bits w ls" "length ls < 64"
  shows "array_bits (if a then w OR push_bit (length ls) 1 else w AND NOT (push_bit (length ls) 1))
           ((k, a, es) # ls)"
  using assms by (auto simp: array_bits_def nth_append bit_simps less_Suc_eq)

lemma open_level_spec:
  assumes inv: "bb_mid b ls (open_tag k a) 5 counts" and n: "length ls < 64"
    and cs: "array_counts ((k, a, []) # ls) = (if a then 0 # counts else counts)"
  shows "bb_inv (open_level a b) ((k, a, []) # ls) \<and> error_flag (open_level a b) = error_flag b \<and>
         current_usage (open_level a b) = current_usage b \<and> keeps b (open_level a b)"
proof -
  have r: "rep (bb_buf b) (bb_offset b) (offsets b) ls (open_tag k a)" using inv by (simp add: bb_mid_def)
  have d: "nat (bb_depth b + 1) = length ls" "bb_depth b + 1 = int (length ls)"
    using inv rep_nonempty [OF r] by (auto simp: bb_mid_def offsets_def)
  have "array_bits (doc_is_array_bits b) ls" using inv by (simp add: bb_mid_def)
  from array_bits_open [OF this n, of a k "[]"]
  have ab: "array_bits (doc_is_array_bits (open_level a b)) ((k, a, []) # ls)"
    unfolding open_level_def d(1) by simp
  have rr: "rep (bb_buf b) (bb_offset b + 4) (bb_offset b # offsets b) ((k, a, []) # ls) []"
    by (rule rep_open [OF r])
  have "length ls \<noteq> 0" using bb_mid_offset(2) [OF inv] by simp
  then show ?thesis
    using inv n rr ab cs d(2) unfolding bb_inv_def bb_mid_def
    by (simp add: open_level_def offsets_def keeps_def)
qed

lemma close_level_spec:
  assumes inv: "bb_mid b ((k, a, es) # ls) [] 0 counts" and ls: "ls \<noteq> []"
  shows "\<exists>b'. close_level b = Some b' \<and>
           bb_mid b' (add_elem k (level_value a es) ls) [] 0 counts \<and> error_flag b' = error_flag b \<and>
           current_usage b' = current_usage b \<and> keeps b b'"
proof -
  have r: "rep (bb_buf b) (bb_offset b) (offsets b) ((k, a, es) # ls) []"
    using inv by (simp add: bb_mid_def)
  obtain so offs where o: "document_size_offsets b = so # offs"
    using rep_nonempty [OF r] ls by (cases "document_size_offsets b") (auto simp: offsets_def)
  have so: "0 \<le> so" "so + 4 \<le> bb_offset b" using r by (simp_all add: offsets_def o rep.simps)
  obtain buf1 where w1: "wr_bytes (bb_buf b) (bb_offset b) [0] = Some buf1"
    using wr_bytes_Some [of "bb_offset b" "[0]" "bb_buf b"] bb_mid_offset [OF inv] by auto
  obtain buf2 where w2: "wr_bytes buf1 so (le_bytes 4 (bb_offset b + 1 - so)) = Some buf2"
    using wr_bytes_Some [of so "le_bytes 4 (bb_offset b + 1 - so)" buf1] so bb_mid_offset [OF inv]
      length_wr_bytes [OF w1] by auto
  have r': "rep buf2 (bb_offset b + 1) (offs @ [start_offset b]) (add_elem k (level_value a es) ls) []"
    using rep_close [OF _ ls w1 w2] r by (simp add: offsets_def o)
  have ab: "array_bits (doc_is_array_bits b) (add_elem k (level_value a es) ls) \<and>
    length (add_elem k (level_value a es) ls) = length ls"
  proof (cases ls)
    case (Cons l ls')
    obtain k' a' es' where l: "l = (k', a', es')" by (cases l) auto
    show ?thesis using inv unfolding Cons l bb_mid_def array_bits_def
      by (auto simp: nth_append split: if_splits)
  qed (use ls in simp)
  show ?thesis
    using inv r' ab length_wr_bytes [OF w1] length_wr_bytes [OF w2]
    by (simp add: close_level_def o w1 w2 bb_mid_def offsets_def keeps_def)
qed

section \<open>The operations of a client\<close>

text \<open>Calls of the builder's interface: adding a value or a level to a document or an array, and
  closing the current level. The dispatch on the value is the overload resolution of
  \<^verbatim>\<open>docAddElement\<close> and \<^verbatim>\<open>arrayAddElement\<close>.\<close>

datatype bop = DocAdd bytes bval | DocBegin bytes bool | ArrAdd bval | ArrBegin bool | EndLevel

fun doc_add :: "bytes \<Rightarrow> bval \<Rightarrow> bson_builder \<Rightarrow> (bool \<times> bson_builder) option" where
  "doc_add k (VDouble w) b = docAddElement_double k w b"
| "doc_add k (VStr x) b = docAddElement_string k x b"
| "doc_add k (VDoc es) b = docAddSubDoc k (enc_doc es) b"
| "doc_add k (VArray es) b = Some (False, b)"
| "doc_add k (VBinary t bs) b = docAddElement_binary k bs t b"
| "doc_add k (VBool x) b = docAddElement_bool k x b"
| "doc_add k VNull b = docAddElement_null k b"
| "doc_add k (VI32 x) b = docAddElement_i32 k x b"
| "doc_add k (VI64 x) b = docAddElement_i64 k x b"

fun arr_add :: "bytes \<Rightarrow> bval \<Rightarrow> bson_builder \<Rightarrow> (bool \<times> bson_builder) option" where
  "arr_add j (VDouble w) b = arrayAddElement_double j w b"
| "arr_add j (VStr x) b = arrayAddElement_string j x b"
| "arr_add j (VDoc es) b = Some (False, b)"
| "arr_add j (VArray es) b = Some (False, b)"
| "arr_add j (VBinary t bs) b = arrayAddElement_binary j bs t b"
| "arr_add j (VBool x) b = arrayAddElement_bool j x b"
| "arr_add j VNull b = arrayAddElement_null j b"
| "arr_add j (VI32 x) b = arrayAddElement_i32 j x b"
| "arr_add j (VI64 x) b = arrayAddElement_i64 j x b"

fun exec_op :: "bytes \<Rightarrow> bop \<Rightarrow> bson_builder \<Rightarrow> (bool \<times> bson_builder) option" where
  "exec_op j (DocAdd k v) b = doc_add k v b"
| "exec_op j (DocBegin k a) b = (if a then docBeginSubArray k b else docBeginSubDoc k b)"
| "exec_op j (ArrAdd v) b = arr_add j v b"
| "exec_op j (ArrBegin a) b = (if a then arrayBeginSubArray j b else arrayBeginSubDoc j b)"
| "exec_op j EndLevel b =
     map_option (Pair True) (if currentDocIsArray b then endArray b else endDocument b)"

text \<open>The same calls on the abstract document, and the interface's rules of use: the call fits the
  kind of the current level, keys hold no null, levels stay below the 64 of the bit set. The
  array restrictions (no booleans, fewer than 100 elements present) are the two places where the code does not
  produce the intended bytes; \<open>op_ok_split\<close> below separates them from the rules of the interface.\<close>

fun abs_op :: "bop \<Rightarrow> level list \<Rightarrow> level list" where
  "abs_op (DocAdd k v) ls = add_elem k v ls"
| "abs_op (DocBegin k a) ls = (k, a, []) # ls"
| "abs_op (ArrAdd v) ((k, a, es) # ls) = add_elem (dec_bytes (int (length es))) v ((k, a, es) # ls)"
| "abs_op (ArrBegin c) ((k, a, es) # ls) = (dec_bytes (int (length es)), c, []) # (k, a, es) # ls"
| "abs_op EndLevel ls = close_abs ls"
| "abs_op _ [] = []"

fun op_ok :: "bop \<Rightarrow> level list \<Rightarrow> bool" where
  "op_ok (DocAdd k v) ((lk, a, es) # ls) =
     (\<not> a \<and> 0 \<notin> set k \<and> wf_val v \<and> val_type v \<noteq> ELEMENT_ARRAY)"
| "op_ok (DocBegin k c) ((lk, a, es) # ls) = (\<not> a \<and> 0 \<notin> set k \<and> length ls < 63)"
| "op_ok (ArrAdd v) ((lk, a, es) # ls) =
     (a \<and> wf_val v \<and> val_depth v = 0 \<and> val_type v \<noteq> ELEMENT_BOOL \<and> length es < 100)"
| "op_ok (ArrBegin c) ((lk, a, es) # ls) = (a \<and> length es < 100 \<and> length ls < 63)"
| "op_ok EndLevel ls = (length ls > 1)"
| "op_ok _ [] = False"

text \<open>An upper bound of the bytes a call needs.\<close>

fun op_bytes :: "bop \<Rightarrow> int" where
  "op_bytes (DocAdd k v) = int (length (enc_elem k v))"
| "op_bytes (DocBegin k a) = int (length k) + 7"
| "op_bytes (ArrAdd v) = int (length (enc_val v)) + 4"
| "op_bytes (ArrBegin a) = 9"
| "op_bytes EndLevel = 0"

text \<open>The outcome every call has: success refines the abstract call, failure is flagged.\<close>

definition refines :: "bson_builder \<Rightarrow> level list \<Rightarrow> level list \<Rightarrow> int \<Rightarrow>
    (bool \<times> bson_builder) option \<Rightarrow> bool" where
  "refines b ls ls' n r \<longleftrightarrow> (\<exists>ok b'. r = Some (ok, b') \<and>
     (if ok then bb_inv b' ls' \<and> error_flag b' = error_flag b \<and> current_usage b' \<le> current_usage b + n \<and>
        keeps b b'
      else bb_inv b' ls \<and> error_flag b' \<and> can_fail b n))"

lemma refines_ok:
  "r = Some (True, b') \<Longrightarrow> bb_inv b' ls' \<Longrightarrow> error_flag b' = error_flag b \<Longrightarrow>
   current_usage b' \<le> current_usage b + n \<Longrightarrow> keeps b b' \<Longrightarrow> refines b ls ls' n r"
  unfolding refines_def by (intro exI [of _ True] exI [of _ b']) simp

lemma refines_fail:
  "r = Some (False, b') \<Longrightarrow> bb_inv b' ls \<Longrightarrow> error_flag b' \<Longrightarrow> can_fail b n \<Longrightarrow> refines b ls ls' n r"
  unfolding refines_def by (intro exI [of _ False] exI [of _ b']) simp

lemma refines_doc:
  assumes inv: "bb_inv b ((lk, False, es) # ls)"
    and lim: "current_usage b + int (length (enc_elem k v)) < 1073741824"
    and bs: "bs = enc_val v" and t: "t = type_byte (val_type v)"
  shows "refines b ((lk, False, es) # ls) (add_elem k v ((lk, False, es) # ls)) (int (length (enc_elem k v)))
     (put_value bs (verifyCapacityAndInsertKey t k (int (length bs)) b))"
proof -
  let ?ls = "(lk, False, es) # ls"
  have lim': "current_usage b + int (length bs) + 2 + int (length k) < 1073741824"
    using lim bs by (simp add: length_enc_elem)
  obtain ok b1 where b1: "verifyCapacityAndInsertKey t k (int (length bs)) b = Some (ok, b1)"
    "if ok then bb_mid b1 ?ls (t # k @ [0]) (int (length bs)) (array_counts ?ls) \<and>
       error_flag b1 = error_flag b \<and> keeps b b1 \<and>
       current_usage b1 = current_usage b + int (length bs) + 2 + int (length k)
     else bb_inv b1 ?ls \<and> error_flag b1 \<and> can_fail b (int (length bs) + 2 + int (length k))"
    using insertKey_spec [OF inv _ lim', of t] by auto
  show ?thesis
  proof (cases ok)
    case True
    have "(t # k @ [0]) @ bs = enc_elem k v" using bs t by (simp add: enc_elem_def)
    from put_value_spec [OF _ this, of b1 ?ls] b1(2) True obtain b' where
      "put_value bs (Some (True, b1)) = Some (True, b')" "bb_mid b' (add_elem k v ?ls) [] 0 (array_counts ?ls)"
      "error_flag b' = error_flag b1" "current_usage b' = current_usage b1" "keeps b1 b'" by auto
    then show ?thesis using b1 True bs
      by (intro refines_ok [of _ b'])
        (simp_all add: bb_inv_def array_counts_def length_enc_elem keeps_def)
  next
    case False
    then show ?thesis using b1 bs
      by (intro refines_fail [of _ b1]) (simp_all add: put_value_def length_enc_elem can_fail_def)
  qed
qed

lemma refines_arr:
  assumes inv: "bb_inv b ((lk, True, es) # ls)" and err: "\<not> error_flag b" and idx: "length es < 100"
    and lim: "current_usage b + int (length (enc_val v)) + 4 < 1073741824"
    and bs: "bs = enc_val v" and t: "t = type_byte (val_type v)"
  shows "refines b ((lk, True, es) # ls) (add_elem (dec_bytes (int (length es))) v ((lk, True, es) # ls))
     (int (length (enc_val v)) + 4)
     (put_value bs (verifyCapacityAndInsertArrayKey j t (int (length bs)) b))"
proof -
  let ?ls = "(lk, True, es) # ls" and ?k = "dec_bytes (int (length es))"
  let ?c = "(int (length es) + 1) # tl (array_counts ?ls)"
  obtain ok b1 where b1: "verifyCapacityAndInsertArrayKey j t (int (length bs)) b = Some (ok, b1)"
    "if ok then bb_mid b1 ?ls (t # ?k @ [0]) (int (length bs)) ?c \<and> \<not> error_flag b1 \<and>
       current_usage b1 \<le> current_usage b + int (length bs) + 4 \<and> keeps b b1
     else bb_inv b1 ?ls \<and> error_flag b1 \<and> can_fail b (int (length bs) + 4)"
    using insertArrayKey_spec [OF inv err _ idx, of "int (length bs)" j t] lim bs by auto
  show ?thesis
  proof (cases ok)
    case True
    have "(t # ?k @ [0]) @ bs = enc_elem ?k v" using bs t by (simp add: enc_elem_def)
    from put_value_spec [OF _ this, of b1 ?ls ?c] b1(2) True obtain b' where
      "put_value bs (Some (True, b1)) = Some (True, b')" "bb_mid b' (add_elem ?k v ?ls) [] 0 ?c"
      "error_flag b' = error_flag b1" "current_usage b' = current_usage b1" "keeps b1 b'" by auto
    moreover have "array_counts (add_elem ?k v ?ls) = ?c" by (simp add: array_counts_def)
    ultimately show ?thesis using b1 True bs err
      by (intro refines_ok [of _ b']) (simp_all add: bb_inv_def keeps_def)
  next
    case False
    then show ?thesis using b1 bs by (intro refines_fail [of _ b1]) (simp_all add: put_value_def)
  qed
qed

lemma put_nothing:
  assumes "bb_mid b ls tag 0 counts"
  shows "put_value [] (Some (ok, b)) = Some (ok, b)"
  using bb_mid_offset [OF assms] by (cases ok) (simp_all add: put_value_def wr_bytes_def)

lemma doc_add_refines:
  assumes inv: "bb_inv b ((lk, False, es) # ls)" and wf: "wf_val v" and ty: "val_type v \<noteq> ELEMENT_ARRAY"
    and lim: "current_usage b + int (length (enc_elem k v)) < 1073741824"
  shows "refines b ((lk, False, es) # ls) (add_elem k v ((lk, False, es) # ls)) (int (length (enc_elem k v)))
     (doc_add k v b)"
proof -
  have usage: "0 \<le> current_usage b"
  proof -
    have m: "bb_mid b ((lk, False, es) # ls) [] 0 (array_counts ((lk, False, es) # ls))"
      using inv by (simp add: bb_inv_def)
    then show ?thesis using bb_mid_offset(1) [OF m] by (simp add: bb_mid_def)
  qed
  note G = refines_doc [OF inv lim refl refl]
  have range: "int (length (enc_val v)) < 1073741824" using lim usage by (simp add: length_enc_elem)
  show ?thesis
  proof (cases v)
    case (VStr x)
    have "i32 (int (length x) + 1) = int (length x) + 1" "i32 (int (length x) + 1 + 4) = int (length x) + 5"
      using range VStr by (simp_all add: i32_id i32_range_def)
    then show ?thesis using G VStr by (simp add: docAddElement_string_def type_byte_def algebra_simps)
  next
    case (VBinary t x)
    have "i32 (int (length x)) = int (length x)" "i32 (int (length x) + 4 + 1) = int (length x) + 5"
      using range VBinary by (simp_all add: i32_id i32_range_def)
    then show ?thesis using G VBinary by (simp add: docAddElement_binary_def type_byte_def algebra_simps Let_def)
  next
    case (VDoc sub)
    let ?d = "enc_doc sub"
    have len: "int (length ?d) < 2147483648" using range VDoc by (simp add: enc_doc_def)
    have hdr: "rd_bytes ?d 0 4 = Some (le_bytes 4 (int (length ?d)))" "rd_bytes ?d 0 (length ?d) = Some ?d"
      by (simp_all add: rd_bytes_def enc_doc_def doc_frame_def add.commute)
    have sz: "i32 (le_int (le_bytes 4 (int (length ?d)))) = int (length ?d)"
      using len by (intro le_i32) (simp add: i32_range_def)
    show ?thesis using G VDoc hdr sz
      by (auto simp: docAddSubDoc_def type_byte_def enc_doc_def [symmetric] put_value_def
          split: option.splits prod.splits bool.splits)
  next
    case VNull
    obtain ok b1 where b1: "verifyCapacityAndInsertKey 0x0A k 0 b = Some (ok, b1)"
      "\<exists>tag c. bb_mid b1 ((lk, False, es) # ls) tag 0 c"
      using insertKey_spec [OF inv, of 0 k "0x0A"] lim VNull
      by (auto simp: bb_inv_def length_enc_elem split: if_splits)
    then have "put_value [] (verifyCapacityAndInsertKey 0x0A k 0 b) =
        verifyCapacityAndInsertKey 0x0A k 0 b" using put_nothing by auto
    then show ?thesis using G VNull by (simp add: docAddElement_null_def type_byte_def)
  qed (use G ty in \<open>simp_all add: docAddElement_bool_def docAddElement_double_def docAddElement_i32_def
      docAddElement_i64_def type_byte_def\<close>)
qed

lemma arr_add_refines:
  assumes inv: "bb_inv b ((lk, True, es) # ls)" and err: "\<not> error_flag b" and idx: "length es < 100"
    and v: "wf_val v" "val_depth v = 0" "val_type v \<noteq> ELEMENT_BOOL"
    and lim: "current_usage b + int (length (enc_val v)) + 4 < 1073741824"
  shows "refines b ((lk, True, es) # ls) (add_elem (dec_bytes (int (length es))) v ((lk, True, es) # ls))
     (int (length (enc_val v)) + 4) (arr_add j v b)"
proof -
  let ?ls = "(lk, True, es) # ls"
  have usage: "0 \<le> current_usage b"
  proof -
    have m: "bb_mid b ?ls [] 0 (array_counts ?ls)" using inv by (simp add: bb_inv_def)
    then show ?thesis using bb_mid_offset(1) [OF m] by (simp add: bb_mid_def)
  qed
  note G = refines_arr [OF inv err idx lim refl refl, of j]
  have range: "int (length (enc_val v)) < 1073741824" using lim usage by simp
  show ?thesis
  proof (cases v)
    case (VStr x)
    have "i32 (int (length x) + 1) = int (length x) + 1" "i32 (int (length x) + 1 + 4) = int (length x) + 5"
      using range VStr by (simp_all add: i32_id i32_range_def)
    then show ?thesis using G VStr by (simp add: arrayAddElement_string_def type_byte_def algebra_simps)
  next
    case (VBinary t x)
    have "i32 (int (length x)) = int (length x)" "i32 (int (length x) + 4 + 1) = int (length x) + 5"
      using range VBinary by (simp_all add: i32_id i32_range_def)
    then show ?thesis using G VBinary
      by (simp add: arrayAddElement_binary_def type_byte_def algebra_simps Let_def)
  next
    case VNull
    obtain ok b1 where b1: "verifyCapacityAndInsertArrayKey j 0x0A 0 b = Some (ok, b1)"
      "\<exists>tag c. bb_mid b1 ?ls tag 0 c"
      using insertArrayKey_spec [OF inv err _ idx, of 0 j "0x0A"] lim VNull
      by (auto simp: bb_inv_def split: if_splits)
    then have "put_value [] (verifyCapacityAndInsertArrayKey j 0x0A 0 b) =
        verifyCapacityAndInsertArrayKey j 0x0A 0 b" using put_nothing by auto
    then show ?thesis using G VNull by (simp add: arrayAddElement_null_def type_byte_def)
  qed (use G v in \<open>simp_all add: arrayAddElement_double_def arrayAddElement_i32_def
      arrayAddElement_i64_def type_byte_def\<close>)
qed

lemma begin_refines_doc:
  assumes inv: "bb_inv b ((lk, False, es) # ls)" and n: "length ls < 63"
    and lim: "current_usage b + int (length k) + 7 < 1073741824" and t: "t = type_byte (level_type a)"
  shows "refines b ((lk, False, es) # ls) ((k, a, []) # (lk, False, es) # ls) (int (length k) + 7)
     (begin_level a (verifyCapacityAndInsertKey t k 5 b))"
proof -
  let ?ls = "(lk, False, es) # ls"
  obtain ok b1 where b1: "verifyCapacityAndInsertKey t k 5 b = Some (ok, b1)"
    "if ok then bb_mid b1 ?ls (t # k @ [0]) 5 (array_counts ?ls) \<and> error_flag b1 = error_flag b \<and>
       current_usage b1 = current_usage b + 5 + 2 + int (length k) \<and> keeps b b1
     else bb_inv b1 ?ls \<and> error_flag b1 \<and> can_fail b (5 + 2 + int (length k))"
    using insertKey_spec [OF inv, of 5 k t] lim by auto
  have c: "array_counts ((k, a, []) # ?ls) = (if a then 0 # array_counts ?ls else array_counts ?ls)"
    by (simp add: array_counts_def)
  show ?thesis
  proof (cases ok)
    case True
    then have "bb_mid b1 ?ls (open_tag k a) 5 (array_counts ?ls)" using b1(2) t by (simp add: open_tag_def)
    from open_level_spec [OF this _ c] show ?thesis
      using b1 True n by (intro refines_ok [of _ "open_level a b1"]) (simp_all add: begin_level_def keeps_def)
  next
    case False
    then show ?thesis using b1
      by (intro refines_fail [of _ b1]) (simp_all add: begin_level_def can_fail_def)
  qed
qed

lemma begin_refines_arr:
  assumes inv: "bb_inv b ((lk, True, es) # ls)" and err: "\<not> error_flag b" and idx: "length es < 100"
    and n: "length ls < 63" and lim: "current_usage b + 9 < 1073741824"
    and t: "t = type_byte (level_type a)"
  shows "refines b ((lk, True, es) # ls) ((dec_bytes (int (length es)), a, []) # (lk, True, es) # ls) 9
     (begin_level a (verifyCapacityAndInsertArrayKey j t 5 b))"
proof -
  let ?ls = "(lk, True, es) # ls" and ?k = "dec_bytes (int (length es))"
  let ?c = "(int (length es) + 1) # tl (array_counts ?ls)"
  obtain ok b1 where b1: "verifyCapacityAndInsertArrayKey j t 5 b = Some (ok, b1)"
    "if ok then bb_mid b1 ?ls (t # ?k @ [0]) 5 ?c \<and> \<not> error_flag b1 \<and>
       current_usage b1 \<le> current_usage b + 5 + 4 \<and> keeps b b1
     else bb_inv b1 ?ls \<and> error_flag b1 \<and> can_fail b (5 + 4)"
    using insertArrayKey_spec [OF inv err _ idx, of 5 j t] lim by auto
  have c: "array_counts ((?k, a, []) # ?ls) = (if a then 0 # ?c else ?c)" by (simp add: array_counts_def)
  show ?thesis
  proof (cases ok)
    case True
    then have "bb_mid b1 ?ls (open_tag ?k a) 5 ?c" using b1(2) t by (simp add: open_tag_def)
    from open_level_spec [OF this _ c] show ?thesis
      using b1 True n err by (intro refines_ok [of _ "open_level a b1"]) (simp_all add: begin_level_def keeps_def)
  next
    case False
    then show ?thesis using b1
      by (intro refines_fail [of _ b1]) (simp_all add: begin_level_def can_fail_def)
  qed
qed

lemma end_refines:
  assumes inv: "bb_inv b ((k, a, es) # ls)" and ls: "ls \<noteq> []" and err: "\<not> error_flag b"
  shows "refines b ((k, a, es) # ls) (add_elem k (level_value a es) ls) 0 (exec_op j EndLevel b)"
proof -
  let ?ls = "(k, a, es) # ls" and ?ls' = "add_elem k (level_value a es) ls"
  obtain k' a' es' ls2 where l: "ls = (k', a', es') # ls2" using ls by (cases ls) auto
  have m: "bb_mid b ?ls [] 0 (array_counts ?ls)" using inv by (simp add: bb_inv_def)
  have cur: "currentDocIsArray b = a" by (rule array_bits_current [OF m])
  have c: "array_counts ?ls = (if a then int (length es) # array_counts ?ls' else array_counts ?ls')"
    by (simp add: array_counts_def l)
  show ?thesis
  proof (cases a)
    case True
    have ac: "array_idx_counters b = int (length es) # array_counts ?ls'"
      using m c True err by (simp add: bb_mid_def)
    let ?b = "b\<lparr>array_idx_counters := array_counts ?ls'\<rparr>"
    have "bb_mid ?b ?ls [] 0 (array_counts ?ls')" using m by (simp add: bb_mid_def offsets_def)
    from close_level_spec [OF this ls] obtain b' where "close_level ?b = Some b'"
      "bb_mid b' ?ls' [] 0 (array_counts ?ls')" "error_flag b' = error_flag b"
      "current_usage b' = current_usage b" "keeps b b'" by (auto simp: keeps_def)
    then show ?thesis
      using True cur ac by (intro refines_ok [of _ b']) (simp_all add: endArray_def bb_inv_def)
  next
    case False
    then have "bb_mid b ?ls [] 0 (array_counts ?ls')" using m c by simp
    from close_level_spec [OF this ls] obtain b' where "close_level b = Some b'"
      "bb_mid b' ?ls' [] 0 (array_counts ?ls')" "error_flag b' = error_flag b"
      "current_usage b' = current_usage b" "keeps b b'" by auto
    then show ?thesis
      using False cur by (intro refines_ok [of _ b']) (simp_all add: endDocument_def bb_inv_def)
  qed
qed

text \<open>One call refines one abstract call.\<close>

lemma exec_op_refines:
  assumes "bb_inv b ls" "\<not> error_flag b" "op_ok op ls" "current_usage b + op_bytes op < 1073741824"
  shows "refines b ls (abs_op op ls) (op_bytes op) (exec_op j op b)"
proof -
  obtain lk a es ls' where ls: "ls = (lk, a, es) # ls'"
    using assms(1) bb_mid_offset(2) [of b ls "[]" 0 "array_counts ls"] by (cases ls) (auto simp: bb_inv_def)
  show ?thesis
  proof (cases op)
    case (DocAdd k v)
    then show ?thesis using assms doc_add_refines [of b lk es ls' v k] by (simp add: ls)
  next
    case (DocBegin k c)
    then show ?thesis
      using assms begin_refines_doc [of b lk es ls' k "if c then 0x04 else 0x03" c]
      by (cases c) (simp_all add: ls docBeginSubArray_def docBeginSubDoc_def level_type_def
          type_byte_def algebra_simps)
  next
    case (ArrAdd v)
    then show ?thesis using assms arr_add_refines [of b lk es ls' v j] by (simp add: ls)
  next
    case (ArrBegin c)
    then show ?thesis
      using assms begin_refines_arr [of b lk es ls' "if c then 0x04 else 0x03" c j]
      by (cases c) (simp_all add: ls arrayBeginSubArray_def arrayBeginSubDoc_def level_type_def
          type_byte_def)
  next
    case EndLevel
    then show ?thesis using assms end_refines [of b lk a es ls' j] by (simp add: ls)
  qed
qed

section \<open>Sequences of calls\<close>

text \<open>A client that stops at the first call that reports failure.\<close>

fun run_ops :: "bytes \<Rightarrow> bop list \<Rightarrow> bson_builder \<Rightarrow> bson_builder option" where
  "run_ops j [] b = Some b"
| "run_ops j (op # ops) b = (case exec_op j op b of
     None \<Rightarrow> None
   | Some (False, b') \<Rightarrow> Some b'
   | Some (True, b') \<Rightarrow> run_ops j ops b')"

fun abs_ops :: "bop list \<Rightarrow> level list \<Rightarrow> level list" where
  "abs_ops [] ls = ls"
| "abs_ops (op # ops) ls = abs_ops ops (abs_op op ls)"

fun ops_ok :: "bop list \<Rightarrow> level list \<Rightarrow> bool" where
  "ops_ok [] ls = True"
| "ops_ok (op # ops) ls = (op_ok op ls \<and> ops_ok ops (abs_op op ls))"

definition ops_bytes :: "bop list \<Rightarrow> int" where
  "ops_bytes ops = sum_list (map op_bytes ops)"

lemma op_bytes_nonneg: "0 \<le> op_bytes op"
  by (cases op) simp_all

lemma ops_bytes_nonneg: "0 \<le> ops_bytes ops"
  by (induction ops) (simp_all add: ops_bytes_def op_bytes_nonneg)

text \<open>A run never faults; it ends in the represented document or with the error flag set, and the
  latter only when a fixed buffer is too small for the calls.\<close>

lemma run_ops_refines:
  assumes "bb_inv b ls" "\<not> error_flag b" "ops_ok ops ls" "current_usage b + ops_bytes ops < 1073741824"
  shows "\<exists>b'. run_ops j ops b = Some b' \<and>
     (if error_flag b' then can_fail b (ops_bytes ops)
      else bb_inv b' (abs_ops ops ls) \<and> start_offset b' = start_offset b)"
  using assms
proof (induction ops arbitrary: b ls)
  case Nil
  then show ?case by simp
next
  case (Cons op ops)
  have lim: "current_usage b + op_bytes op < 1073741824" "ops_bytes (op # ops) = op_bytes op + ops_bytes ops"
    using Cons.prems(4) ops_bytes_nonneg [of ops] by (simp_all add: ops_bytes_def)
  obtain ok b1 where b1: "exec_op j op b = Some (ok, b1)"
    "if ok then bb_inv b1 (abs_op op ls) \<and> error_flag b1 = error_flag b \<and>
       current_usage b1 \<le> current_usage b + op_bytes op \<and> keeps b b1
     else bb_inv b1 ls \<and> error_flag b1 \<and> can_fail b (op_bytes op)"
    using exec_op_refines [OF Cons.prems(1,2) _ lim(1), of j] Cons.prems(3) by (auto simp: refines_def)
  show ?case
  proof (cases ok)
    case True
    then obtain b' where b': "run_ops j ops b1 = Some b'"
      "if error_flag b' then can_fail b1 (ops_bytes ops)
       else bb_inv b' (abs_ops ops (abs_op op ls)) \<and> start_offset b' = start_offset b1"
      using Cons.IH [of b1 "abs_op op ls"] b1(2) Cons.prems lim(2) by auto
    then show ?thesis using b1 True lim(2) by (auto simp: can_fail_def keeps_def split: if_splits)
  next
    case False
    then show ?thesis using b1 lim(2) ops_bytes_nonneg [of ops] by (auto simp: can_fail_def)
  qed
qed

section \<open>Construction and finish\<close>

definition root_level :: level where
  "root_level = ([], False, [])"

lemma bson_builder_buffer_inv:
  assumes "5 \<le> length buf" "int (length buf) < 2147483648"
  shows "bb_inv (bson_builder_buffer buf (int (length buf))) [root_level] \<and>
         \<not> error_flag (bson_builder_buffer buf (int (length buf)))"
  using assms by (simp add: bson_builder_buffer_def initialize_buffer_def reserveMainDocumentHeader_def
      bson_builder_default_def bb_inv_def bb_mid_def offsets_def rep.simps root_level_def slice_def
      array_bits_def array_counts_def i32_id i32_range_def)

lemma bson_builder_vector_inv:
  assumes "reserve_ok grow" "int (length vec) < 2147483648" "int (start + footer) < 2147483000"
  shows "bb_inv (bson_builder_vector grow vec start footer) [root_level] \<and>
         \<not> error_flag (bson_builder_vector grow vec start footer) \<and>
         reallocate (bson_builder_vector grow vec start footer) \<noteq> None \<and>
         start_offset (bson_builder_vector grow vec start footer) = int start \<and>
         current_usage (bson_builder_vector grow vec start footer) = int start + int footer + 5"
  using assms by (auto simp: bson_builder_vector_def initialize_vector_def reserveMainDocumentHeader_def
      bson_builder_default_def bb_inv_def bb_mid_def offsets_def rep.simps root_level_def slice_def
      array_bits_def array_counts_def i32_id i32_range_def vector_resize_def Let_def)

lemma bb_finish_spec:
  assumes inv: "bb_inv b [(k, False, es)]" and err: "\<not> error_flag b"
  shows "\<exists>b'. bb_finish b = Some (Some (start_offset b, int (length (enc_doc es))), b') \<and>
     slice (bb_buf b') (start_offset b) (start_offset b + int (length (enc_doc es))) = enc_doc es"
proof -
  let ?so = "start_offset b" and ?e = "bb_offset b"
  have m: "bb_mid b [(k, False, es)] [] 0 (array_counts [(k, False, es)])" using inv by (simp add: bb_inv_def)
  have r: "rep (bb_buf b) ?e (offsets b) [(k, False, es)] []" using m by (simp add: bb_mid_def)
  then have o: "document_size_offsets b = []" using rep_nonempty [OF r] by (simp add: offsets_def)
  have so: "0 \<le> ?so" "?so + 4 \<le> ?e" and sl: "slice (bb_buf b) (?so + 4) ?e = enc_elems es"
    using r by (simp_all add: offsets_def o rep.simps)
  have lt: "?e < int (length (bb_buf b))" using bb_mid_offset(3) [OF m] by simp
  have len: "int (length (enc_elems es)) = ?e - (?so + 4)"
    using arg_cong [OF sl, of length] so lt by (simp add: slice_def)
  have d: "bb_depth b = 0" using m o by (simp add: bb_mid_def)
  obtain buf1 where w1: "wr_bytes (bb_buf b) ?e [0] = Some buf1"
    using wr_bytes_Some [of ?e "[0]" "bb_buf b"] so lt by auto
  obtain buf2 where w2: "wr_bytes buf1 ?so (le_bytes 4 (?e + 1 - ?so)) = Some buf2"
    using wr_bytes_Some [of ?so "le_bytes 4 (?e + 1 - ?so)" buf1] so lt length_wr_bytes [OF w1] by auto
  have n: "?e + 1 - ?so = int (length (enc_doc es))" "?so + int (length (enc_doc es)) = ?e + 1"
    using len by (simp_all add: length_enc_doc)
  have "slice buf1 (?so + 4) (?e + 1) = enc_elems es @ [0]"
    using slice_split [of "?so + 4" ?e "?e + 1" buf1] slice_wr_same [OF w1] so sl
      slice_wr_other [OF w1, of "?so + 4" ?e] by simp
  then have "slice buf2 ?so (?e + 1) = le_bytes 4 (?e + 1 - ?so) @ enc_elems es @ [0]"
    using slice_split [of ?so "?so + 4" "?e + 1" buf2] slice_wr_same [OF w2, of "?so + 4"] so
      slice_wr_other [OF w2, of "?so + 4" "?e + 1"] by simp
  then have "slice buf2 ?so (?so + int (length (enc_doc es))) = enc_doc es"
    unfolding n by (simp add: enc_doc_def doc_frame_def add.commute)
  then show ?thesis
    using d err w1 w2 by (simp add: bb_finish_def n)
qed

text \<open>A whole construction, with a growing vector and in a fixed buffer.\<close>

lemma vector_builds:
  assumes "reserve_ok grow" and "int (length vec) < 2147483648"
    and "ops_ok ops [root_level]" and "abs_ops ops [root_level] = [(k, False, es)]"
    and "int start + int footer + 5 + ops_bytes ops < 1073741824"
  shows "\<exists>b b'. run_ops j ops (bson_builder_vector grow vec start footer) = Some b \<and>
     bb_finish b = Some (Some (int start, int (length (enc_doc es))), b') \<and>
     slice (bb_buf b') (int start) (int start + int (length (enc_doc es))) = enc_doc es"
proof -
  let ?b0 = "bson_builder_vector grow vec start footer"
  have lim: "int (start + footer) < 2147483000" using assms(5) ops_bytes_nonneg [of ops] by simp
  note V = bson_builder_vector_inv [OF assms(1,2) lim]
  obtain b where b: "run_ops j ops ?b0 = Some b"
    "if error_flag b then can_fail ?b0 (ops_bytes ops)
     else bb_inv b (abs_ops ops [root_level]) \<and> start_offset b = start_offset ?b0"
    using run_ops_refines [of ?b0 "[root_level]" ops j] V assms(3,5) by auto
  have ok: "\<not> error_flag b" using b(2) V by (auto simp: can_fail_def split: if_splits)
  then show ?thesis using b V bb_finish_spec [of b k es] assms(4) by auto
qed

lemma buffer_builds:
  assumes "5 \<le> length buf" "int (length buf) < 536870912" "ops_bytes ops < 536870912"
    and "ops_ok ops [root_level]" and "abs_ops ops [root_level] = [(k, False, es)]"
  shows "\<exists>b d b'. run_ops j ops (bson_builder_buffer buf (int (length buf))) = Some b \<and>
     bb_finish b = Some (d, b') \<and>
     (d = None \<and> int (length buf) < 5 + ops_bytes ops \<or>
      d = Some (0, int (length (enc_doc es))) \<and> slice (bb_buf b') 0 (int (length (enc_doc es))) = enc_doc es)"
proof -
  let ?b0 = "bson_builder_buffer buf (int (length buf))"
  have "int (length buf) < 2147483648" using assms(2) by simp
  note V = bson_builder_buffer_inv [OF assms(1) this]
  have m: "current_usage ?b0 = 5" "start_offset ?b0 = 0" "capacity ?b0 = int (length buf)"
    using assms(1,2) by (simp_all add: bson_builder_buffer_def initialize_buffer_def
        reserveMainDocumentHeader_def bson_builder_default_def i32_id i32_range_def)
  obtain b where b: "run_ops j ops ?b0 = Some b"
    "if error_flag b then can_fail ?b0 (ops_bytes ops)
     else bb_inv b (abs_ops ops [root_level]) \<and> start_offset b = start_offset ?b0"
    using run_ops_refines [of ?b0 "[root_level]" ops j] V assms(3,4) m by auto
  show ?thesis
  proof (cases "error_flag b")
    case True
    then show ?thesis using b m by (auto simp: can_fail_def bb_finish_def)
  next
    case False
    then show ?thesis using b m bb_finish_spec [of b k es] assms(5) by auto
  qed
qed

section \<open>Well-formedness of what is built\<close>

definition wf_levels :: "level list \<Rightarrow> bool" where
  "wf_levels ls \<longleftrightarrow> (\<forall>(k, a, es) \<in> set ls. 0 \<notin> set k \<and> wf_elems es)"

lemma add_elem_wf: "wf_levels ls \<Longrightarrow> 0 \<notin> set k \<Longrightarrow> wf_val v \<Longrightarrow> wf_levels (add_elem k v ls)"
  by (cases "(k, v, ls)" rule: add_elem.cases) (auto simp: wf_levels_def)

lemma abs_op_wf:
  assumes "wf_levels ls" "op_ok op ls"
  shows "wf_levels (abs_op op ls)"
proof (cases "ls = []")
  case False
  then obtain lk a es ls' where ls: "ls = (lk, a, es) # ls'" by (cases ls) auto
  show ?thesis
  proof (cases op)
    case EndLevel
    have "wf_levels ls'" "0 \<notin> set lk" "wf_elems es" using assms(1) by (auto simp: ls wf_levels_def)
    then show ?thesis using EndLevel by (auto simp: ls level_value_def intro!: add_elem_wf)
  qed (use assms dec_bytes_no_null [of "int (length es)"] in
      \<open>auto simp: ls wf_levels_def simp del: enc_elems.simps\<close>)
qed (use assms in \<open>cases op; simp\<close>)

lemma abs_ops_wf: "wf_levels ls \<Longrightarrow> ops_ok ops ls \<Longrightarrow> wf_levels (abs_ops ops ls)"
  by (induction ops arbitrary: ls) (auto intro: abs_op_wf)

text \<open>The document grows by at most the bytes of the calls.\<close>

definition levels_size :: "level list \<Rightarrow> int" where
  "levels_size ls = sum_list (map (\<lambda>(k, a, es). int (length k) + 7 + int (length (enc_elems es))) ls)"

lemma levels_size_simps [simp]:
  "levels_size [] = 0"
  "levels_size ((k, a, es) # ls) = int (length k) + 7 + int (length (enc_elems es)) + levels_size ls"
  by (simp_all add: levels_size_def)

lemma levels_size_nonneg: "0 \<le> levels_size ls"
  by (induction ls) auto

lemma levels_size_add:
  "ls \<noteq> [] \<Longrightarrow> levels_size (add_elem k v ls) = levels_size ls + int (length (enc_elem k v))"
  by (cases "(k, v, ls)" rule: add_elem.cases) (auto simp: enc_elems_single simp del: enc_elems.simps)

lemma levels_size_op:
  assumes "op_ok op ls" "ls \<noteq> []"
  shows "levels_size (abs_op op ls) \<le> levels_size ls + op_bytes op"
proof -
  obtain k a es ls' where ls: "ls = (k, a, es) # ls'" using assms(2) by (cases ls) auto
  show ?thesis
  proof (cases op)
    case (ArrAdd v)
    then show ?thesis using assms length_dec_bytes_small [of "int (length es)"]
      by (simp add: ls levels_size_add length_enc_elem enc_elems_single del: enc_elems.simps)
  next
    case (ArrBegin c)
    then show ?thesis using assms length_dec_bytes_small [of "int (length es)"] by (simp add: ls)
  next
    case EndLevel
    then show ?thesis using assms
      by (cases a) (simp_all add: ls levels_size_add length_enc_elem level_value_def doc_frame_def)
  next
    case (DocAdd k' v)
    then show ?thesis using assms by (simp add: levels_size_add)
  qed (use assms in \<open>simp_all add: ls\<close>)
qed

lemma abs_op_nonempty: "op_ok op ls \<Longrightarrow> ls \<noteq> [] \<Longrightarrow> abs_op op ls \<noteq> []"
proof (cases op)
  case EndLevel
  then show "op_ok op ls \<Longrightarrow> ls \<noteq> [] \<Longrightarrow> abs_op op ls \<noteq> []"
    by (cases ls rule: close_abs.cases) (auto simp: neq_Nil_conv)
qed (auto simp: neq_Nil_conv)

lemma levels_size_ops:
  "ops_ok ops ls \<Longrightarrow> ls \<noteq> [] \<Longrightarrow> levels_size (abs_ops ops ls) \<le> levels_size ls + ops_bytes ops"
proof (induction ops arbitrary: ls)
  case (Cons op ops)
  have ok: "op_ok op ls" "ops_ok ops (abs_op op ls)" using Cons.prems(1) by simp_all
  have "levels_size (abs_ops ops (abs_op op ls)) \<le> levels_size (abs_op op ls) + ops_bytes ops"
    using Cons.IH [OF ok(2)] abs_op_nonempty [OF ok(1) Cons.prems(2)] by simp
  then show ?case using levels_size_op [OF ok(1) Cons.prems(2)] by (simp add: ops_bytes_def)
qed (simp add: ops_bytes_def)

lemma built_length:
  assumes "ops_ok ops [root_level]" "abs_ops ops [root_level] = [(k, False, es)]"
  shows "int (length (enc_doc es)) \<le> 5 + ops_bytes ops"
  using levels_size_ops [OF assms(1)] assms(2) by (simp add: root_level_def length_enc_doc)

section \<open>The conditions on the calls\<close>

text \<open>Each condition on its own: the rules of the interface, and the two restrictions
  without which the code does not store what it is given, no boolean in an array (\<open>array_bool_inverted\<close>)
  and at most 100 elements in an array (\<open>array_key_of_100\<close>).\<close>

fun op_allowed :: "bop \<Rightarrow> level list \<Rightarrow> bool" where
  "op_allowed (DocAdd k v) ((lk, a, es) # ls) = (\<not> a \<and> 0 \<notin> set k \<and> wf_val v \<and> val_type v \<noteq> ELEMENT_ARRAY)"
| "op_allowed (DocBegin k c) ((lk, a, es) # ls) = (\<not> a \<and> 0 \<notin> set k \<and> length ls < 63)"
| "op_allowed (ArrAdd v) ((lk, a, es) # ls) = (a \<and> wf_val v \<and> val_depth v = 0)"
| "op_allowed (ArrBegin c) ((lk, a, es) # ls) = (a \<and> length ls < 63)"
| "op_allowed EndLevel ls = (length ls > 1)"
| "op_allowed _ [] = False"

fun op_intact :: "bop \<Rightarrow> level list \<Rightarrow> bool" where
  "op_intact (ArrAdd v) ((lk, a, es) # ls) = (val_type v \<noteq> ELEMENT_BOOL \<and> length es < 100)"
| "op_intact (ArrBegin c) ((lk, a, es) # ls) = (length es < 100)"
| "op_intact _ _ = True"

fun all_ops :: "(bop \<Rightarrow> level list \<Rightarrow> bool) \<Rightarrow> bop list \<Rightarrow> level list \<Rightarrow> bool" where
  "all_ops P [] ls = True"
| "all_ops P (op # ops) ls = (P op ls \<and> all_ops P ops (abs_op op ls))"

lemma op_ok_split: "op_ok op ls \<longleftrightarrow> op_allowed op ls \<and> op_intact op ls"
  by (cases "(op, ls)" rule: op_ok.cases) auto

lemma ops_ok_split: "all_ops op_allowed ops ls \<Longrightarrow> all_ops op_intact ops ls \<Longrightarrow> ops_ok ops ls"
  by (induction ops arbitrary: ls) (simp_all add: op_ok_split)

end
