(* ===== verification/Bson_Properties.thy ===== *)
theory Bson_Properties
  imports Bson_Numeric Bson_Builder_Spec
begin

text \<open>
  The properties of the BSON layer: memory safety and termination of the reader on hostile input,
  its functional behaviour on documents, correctness of the builder, the round trip between the
  two, and the places where the code departs from its own documentation.
\<close>

section \<open>The reader on arbitrary bytes\<close>

text \<open>C1: memory safety. Take any bytes in which the declared document, which ends eight bytes before 2 GiB
  at the latest, is followed by five readable bytes. Then in every state that any sequence of the
  operations next, seekKey, seekNextKey, seekIndex, seek, seekBegin, beginSub, endSub and validate
  reaches, each of them returns without reading outside the buffer, in the build without assertions.
  The accessors of the current element's type return as well, except in three cases: a string of a declared
  length below one and a binary of a negative one, which next lets pass, and the conversion of a double
  outside the range of an integer type. In the strict build next does the same, or it stops at an element
  that the other build reports as a format error and that has an unsupported type (assert(false)) or a
  length whose sum overflows.\<close>

theorem reader_memory_safe:
  assumes "padded buf s" and "bson_reader_sized (Some buf) s = Some r0"
    and "\<not> reader_error r0" and "reader_step\<^sup>*\<^sup>* r0 r"
  shows "no_fault r \<and> values_safe r \<and> conversions_safe r \<and> strict_agrees r"
proof -
  have "reader_inv r0"
    using bson_reader_sized_spec [OF assms(1)] assms(2,3) by (auto simp: reader_error_def)
  then have "reader_inv r" using bson_cursor.reachable_inv assms(4) by blast
  then show ?thesis
    using no_fault_inv values_safe_inv conversions_safe_values bson_next_strict by (auto simp: strict_agrees_def)
qed

theorem reader_memory_safe_witness:
  "\<exists>r0 r. bson_reader_sized (Some ([12, 0, 0, 0, 16, 65, 0, 7, 0, 0, 0, 99] @ replicate 5 0xFF)) 12 = Some r0 \<and>
     bson_next r0 = Some (ELEMENT_I32, r) \<and> no_fault r \<and> int32Value r = Some 7 \<and> values_safe r \<and> strict_agrees r"
proof -
  let ?buf = "[12, 0, 0, 0, 16, 65, 0, 7, 0, 0, 0, 99] @ replicate 5 (0xFF :: byte)"
  define r0 where "r0 = the (bson_reader_sized (Some ?buf) 12)"
  have p: "padded ?buf 12"
    by (simp add: padded_def getTotalDocumentSize_def geti32_def rd_bytes_def i32_def)
  have s: "bson_reader_sized (Some ?buf) 12 = Some r0"
    unfolding r0_def by (simp add: bson_reader_sized_def Let_def geti32_def rd_bytes_def i32_def)
  have e: "\<not> reader_error r0" unfolding r0_def by code_simp
  have v: "int32Value (snd (the (bson_next r0))) = Some 7" unfolding r0_def by code_simp
  have "map_option fst (bson_next r0) = Some ELEMENT_I32" unfolding r0_def by code_simp
  then obtain r where n: "bson_next r0 = Some (ELEMENT_I32, r)" by auto
  then have "reader_step\<^sup>*\<^sup>* r0 r" using next_step by blast
  from reader_memory_safe [OF p s e this] s n v show ?thesis by auto
qed

text \<open>C2: validation of any padded buffer ends with a verdict: the loop over nested documents
  terminates even for lengths chosen to move the cursor backwards. In the strict build it ends with the
  same verdict, or the program stops at an unsupported type or an overflowing length, and then only in a
  buffer that the build without assertions rejects.\<close>

theorem validate_terminates:
  assumes "padded buf s"
  shows "\<exists>ok. bson_validate_buf buf s = Some ok \<and>
     (bson_validate_buf_strict buf s = Some ok \<or> bson_validate_buf_strict buf s = None \<and> \<not> ok)"
proof (cases "s < 5")
  case True
  then show ?thesis by (intro exI [of _ False]) (simp add: bson_validate_buf_def bson_validate_buf_strict_def validate_buf_with_def)
next
  case False
  obtain n where n: "getTotalDocumentSize buf = Some n"
    using geti32_Some [of 0 buf] False assms by (auto simp: padded_def getTotalDocumentSize_def)
  obtain r where r: "bson_reader_sized (Some buf) s = Some r"
    "reader_inv r \<or> cur_type r = ELEMENT_FORMAT_ERROR"
    using bson_reader_sized_spec [OF assms] by blast
  have "\<exists>ok r'. validate_run bson_next r 0 = Some (ok, r') \<and>
     (validate_run bson_next_strict r 0 = Some (ok, r') \<or> validate_run bson_next_strict r 0 = None \<and> \<not> ok)"
  proof (cases "cur_type r = ELEMENT_FORMAT_ERROR")
    case True
    then show ?thesis
      by (intro exI [of _ False] exI [of _ r]) (simp add: validate_run.simps [of _ r 0] bson_next_def bson_next_strict_def bson_next_with_def)
  next
    case False
    then show ?thesis using r validate_run_total [of r 0] by auto
  qed
  then show ?thesis using False n r(1)
    by (auto simp: bson_validate_buf_def bson_validate_buf_strict_def validate_buf_with_def)
qed

theorem validate_terminates_witness:
  "\<exists>ok. bson_validate_buf ([9, 0, 0, 0, 3, 0, 0, 0, 0, 0] @ replicate 5 0xFF) 9 = Some ok"
proof -
  have "padded ([9, 0, 0, 0, 3, 0, 0, 0, 0, 0] @ replicate 5 (0xFF :: byte)) 9"
    by (simp add: padded_def getTotalDocumentSize_def geti32_def rd_bytes_def i32_def)
  then show ?thesis using validate_terminates by blast
qed

text \<open>The strict build does stop: a document whose element has the type 0x06 is rejected without assertions,
  and ends the program with them.\<close>

lemma unsupported_type_stops:
  "bson_validate_buf ([8, 0, 0, 0, 6, 65, 0, 0] @ replicate 5 0) 8 = Some False \<and>
   bson_validate_buf_strict ([8, 0, 0, 0, 6, 65, 0, 0] @ replicate 5 0) 8 = None"
proof -
  let ?buf = "[8, 0, 0, 0, 6, 65, 0, 0] @ replicate 5 (0 :: byte)"
  define r where "r = the (bson_reader_sized (Some ?buf) 8)"
  have s: "bson_reader_sized (Some ?buf) 8 = Some r"
    unfolding r_def by (simp add: bson_reader_sized_def Let_def geti32_def rd_bytes_def i32_def)
  have t: "getTotalDocumentSize ?buf = Some 8" "to_size_t 8 = 8"
    by (simp_all add: getTotalDocumentSize_def geti32_def rd_bytes_def i32_def to_size_t_def)
  have "map_option fst (bson_next r) = Some ELEMENT_FORMAT_ERROR" unfolding r_def by code_simp
  then obtain r' where n: "bson_next r = Some (ELEMENT_FORMAT_ERROR, r')" by auto
  have "bson_next_strict r = None" unfolding r_def by code_simp
  then have "validate_run bson_next r 0 = Some (False, r')" "validate_run bson_next_strict r 0 = None"
    using n by (simp_all add: validate_run.simps [of _ r])
  then show ?thesis unfolding bson_validate_buf_def bson_validate_buf_strict_def validate_buf_with_def t(1) s by (simp add: t(2))
qed

section \<open>The reader on documents\<close>

text \<open>C3: on the encoding of any well-formed document, in a buffer of exactly its size, validate
  neither faults nor diverges and accepts exactly when the nesting fits the sixteen layers.\<close>

theorem validate_accepts_documents:
  assumes "wf_elems es" and "int (length (enc_doc es)) < 2147483640"
  shows "bson_validate_buf (enc_doc es) (int (length (enc_doc es))) =
         Some (elems_depth es \<le> k_max_subdocs)"
  using assms(2,1) by (rule validate_doc)

theorem validate_accepts_documents_witness:
  "bson_validate_buf (enc_doc [([65], VI32 7), ([66], VDoc [([67], VBool True)])])
     (int (length (enc_doc [([65], VI32 7), ([66], VDoc [([67], VBool True)])]))) = Some True"
proof -
  have "elems_depth [([65], VI32 7), ([66], VDoc [([67], VBool True)])] \<le> k_max_subdocs"
    by (simp add: k_max_subdocs_def)
  then show ?thesis
    using validate_accepts_documents [of "[([65], VI32 7), ([66], VDoc [([67], VBool True)])]"]
    by (simp add: i32_range_def enc_doc_def doc_frame_def)
qed

text \<open>C4: seekKey on a fresh reader over a document finds the first element with the key and puts
  the cursor on it, so that the typed accessors return the stored value; a missing key gives
  ELEMENT_END.\<close>

theorem seekKey_finds:
  assumes "wf_elems es" and "int (length (enc_doc es)) < 2147483640"
    and "bson_reader_sized (Some (enc_doc es)) (int (length (enc_doc es))) = Some r"
  shows "\<exists>t r'. seekKey k r = Some (t, r') \<and> (case map_of es k of
           None \<Rightarrow> t = ELEMENT_END
         | Some v \<Rightarrow> t = val_type v \<and> cur_type r' = t \<and> rd_key r' = k \<and> reads_value r' v)"
  using assms by (rule seekKey_doc)

theorem seekKey_finds_witness:
  "\<exists>t r'. seekKey [66] (the (bson_reader_sized (Some (enc_doc [([65], VI32 7), ([66], VStr [1, 2])]))
       (int (length (enc_doc [([65], VI32 7), ([66], VStr [1, 2])]))))) = Some (t, r') \<and>
     t = ELEMENT_STR \<and> stringValue r' = Some [1, 2]"
proof -
  let ?es = "[([65], VI32 7), ([66], VStr [1, 2])] :: bdoc"
  have wf: "wf_elems ?es" and len: "int (length (enc_doc ?es)) < 2147483640"
    by (simp_all add: i32_range_def enc_doc_def doc_frame_def)
  note R = enc_doc_reader(1) [OF len]
  show ?thesis using seekKey_finds [OF wf len R, of "[66]"] unfolding R by (auto simp: R)
qed

section \<open>The builder\<close>

text \<open>C5: in vector mode every sequence of calls that respects the interface (calls that fit the
  current level, keys without a null, at most 64 open levels) and adds to arrays no boolean and
  at most 100 elements succeeds, and finish returns the reference encoding of the document the calls
  describe, after the given start offset. The sizes stay below 2 to the 30. The growth of the vector is
  any that provides the requested capacity.\<close>

theorem builder_builds_document:
  assumes "reserve_ok grow" and "int (length vec) < 2147483648"
    and "all_ops op_allowed ops [root_level]" and "all_ops op_intact ops [root_level]"
    and "abs_ops ops [root_level] = [(k, False, es)]"
    and "int start + int footer + 5 + ops_bytes ops < 1073741824"
  shows "\<exists>b b'. run_ops j ops (bson_builder_vector grow vec start footer) = Some b \<and>
     bb_finish b = Some (Some (int start, int (length (enc_doc es))), b') \<and>
     slice (bb_buf b') (int start) (int start + int (length (enc_doc es))) = enc_doc es"
  by (rule vector_builds [OF assms(1,2) ops_ok_split [OF assms(3,4)] assms(5,6)])

theorem builder_builds_document_witness:
  "\<exists>b b'. run_ops [] [DocAdd [65] (VI32 7), DocBegin [66] True, ArrAdd (VStr [1]), EndLevel]
       (bson_builder_vector (\<lambda>old req. max old req) [] 8 16) = Some b \<and>
     bb_finish b = Some (Some (8, 29), b') \<and>
     slice (bb_buf b') 8 37 = enc_doc [([65], VI32 7), ([66], VArray [([48], VStr [1])])]"
proof -
  let ?ops = "[DocAdd [65] (VI32 7), DocBegin [66] True, ArrAdd (VStr [1]), EndLevel]"
  let ?es = "[([65], VI32 7), ([66], VArray [([48], VStr [1])])]"
  have g: "reserve_ok (\<lambda>old req. max old req)" by (auto simp: reserve_ok_def)
  have ok: "all_ops op_allowed ?ops [root_level]" "all_ops op_intact ?ops [root_level]" "int 8 + int 16 + 5 + ops_bytes ?ops < 1073741824"
    by (simp_all add: root_level_def i32_range_def ops_bytes_def length_enc_elem)
  have ab: "abs_ops ?ops [root_level] = [([], False, ?es)]"
    by (simp add: root_level_def level_value_def dec_bytes.simps)
  have "int (length (enc_doc ?es)) = 29" by (simp add: length_enc_doc)
  then show ?thesis using builder_builds_document [OF g _ ok(1,2) ab ok(3), of "[]" "[]"] by simp
qed

text \<open>C6: in a caller-provided buffer of at least 5 bytes no sequence of calls that respects the
  interface, under the same restrictions of arrays, writes outside the buffer. The client stops at the first
  call that reports failure; finish then returns null, otherwise the reference encoding, and null only
  when the buffer is smaller than the calls need. (The constructor does not check the size of the buffer:
  \<open>buffer_below_minimum\<close>.)\<close>

theorem builder_fixed_buffer:
  assumes "5 \<le> length buf" "int (length buf) < 536870912" "ops_bytes ops < 536870912"
    and "all_ops op_allowed ops [root_level]" and "all_ops op_intact ops [root_level]"
    and "abs_ops ops [root_level] = [(k, False, es)]"
  shows "\<exists>b d b'. run_ops j ops (bson_builder_buffer buf (int (length buf))) = Some b \<and>
     bb_finish b = Some (d, b') \<and>
     (d = None \<and> int (length buf) < 5 + ops_bytes ops \<or>
      d = Some (0, int (length (enc_doc es))) \<and> slice (bb_buf b') 0 (int (length (enc_doc es))) = enc_doc es)"
  by (rule buffer_builds [OF assms(1-3) ops_ok_split [OF assms(4,5)] assms(6)])

theorem builder_fixed_buffer_witness:
  "\<exists>b d b'. run_ops [] [DocAdd [65] (VI32 7)] (bson_builder_buffer (replicate 12 0) (int (length (replicate 12 (0 :: byte))))) = Some b \<and>
     bb_finish b = Some (d, b') \<and> d = Some (0, 12) \<and> slice (bb_buf b') 0 12 = enc_doc [([65], VI32 7)]"
proof -
  let ?ops = "[DocAdd [65] (VI32 7)]" and ?es = "[([65], VI32 7)]"
  have ok: "all_ops op_allowed ?ops [root_level]" "all_ops op_intact ?ops [root_level]" "ops_bytes ?ops = 7" "abs_ops ?ops [root_level] = [([], False, ?es)]"
    "int (length (enc_doc ?es)) = 12"
    by (simp_all add: root_level_def i32_range_def ops_bytes_def length_enc_elem length_enc_doc)
  show ?thesis
    using builder_fixed_buffer [of "replicate 12 0" ?ops "[]" ?es "[]"] ok by simp
qed

section \<open>Builder and reader together\<close>

text \<open>C7: what the builder builds, the reader reads: for calls that respect the interface and add to
  arrays no boolean and at most 100 elements, with sizes below 2 to the 30, the bytes finish returns are
  accepted by validate exactly when the nesting fits its sixteen layers, and seekKey on them finds, for every
  key, the value the first call with that key added.\<close>

theorem build_then_read:
  assumes "reserve_ok grow" and "int (length vec) < 2147483648"
    and "all_ops op_allowed ops [root_level]" and "all_ops op_intact ops [root_level]"
    and "abs_ops ops [root_level] = [(k0, False, es)]"
    and "int start + int footer + 5 + ops_bytes ops < 1073741824"
  shows "\<exists>b b' n doc r. run_ops j ops (bson_builder_vector grow vec start footer) = Some b \<and>
     bb_finish b = Some (Some (int start, n), b') \<and> doc = slice (bb_buf b') (int start) (int start + n) \<and>
     bson_validate_buf doc n = Some (elems_depth es \<le> k_max_subdocs) \<and>
     bson_reader_sized (Some doc) n = Some r \<and>
     (\<exists>t r'. seekKey k r = Some (t, r') \<and> (case map_of es k of
           None \<Rightarrow> t = ELEMENT_END
         | Some v \<Rightarrow> t = val_type v \<and> cur_type r' = t \<and> rd_key r' = k \<and> reads_value r' v))"
proof -
  let ?n = "int (length (enc_doc es))"
  note ok = ops_ok_split [OF assms(3,4)]
  obtain b b' where b: "run_ops j ops (bson_builder_vector grow vec start footer) = Some b"
    "bb_finish b = Some (Some (int start, ?n), b')" "slice (bb_buf b') (int start) (int start + ?n) = enc_doc es"
    using vector_builds [OF assms(1,2) ok assms(5,6), of j] by blast
  have wf: "wf_elems es"
    using abs_ops_wf [OF _ ok] assms(5) by (simp add: wf_levels_def root_level_def)
  have len: "?n < 2147483640"
    using built_length [OF ok assms(5)] assms(6) by simp
  note r = enc_doc_reader(1) [OF len]
  show ?thesis
    using b validate_doc [OF len wf] r seekKey_doc [OF wf len r, of k] by (auto intro!: exI)
qed

theorem build_then_read_witness:
  "\<exists>b b' n doc r. run_ops [] [DocAdd [65] (VI32 7)] (bson_builder_vector max [] 0 0) = Some b \<and>
     bb_finish b = Some (Some (0, n), b') \<and> doc = slice (bb_buf b') 0 n \<and>
     bson_validate_buf doc n = Some True \<and> bson_reader_sized (Some doc) n = Some r \<and>
     (\<exists>t r'. seekKey [65] r = Some (t, r') \<and> t = ELEMENT_I32 \<and> int32Value r' = Some 7)"
proof -
  have g: "reserve_ok max" by (auto simp: reserve_ok_def)
  have ok: "all_ops op_allowed [DocAdd [65] (VI32 7)] [root_level]" "all_ops op_intact [DocAdd [65] (VI32 7)] [root_level]"
    "int 0 + int 0 + 5 + ops_bytes [DocAdd [65] (VI32 7)] < 1073741824"
    "abs_ops [DocAdd [65] (VI32 7)] [root_level] = [([], False, [([65], VI32 7)])]"
    by (simp_all add: root_level_def i32_range_def ops_bytes_def length_enc_elem)
  have "elems_depth [([65], VI32 7)] \<le> k_max_subdocs" by (simp add: k_max_subdocs_def)
  then show ?thesis
    using build_then_read [OF g _ ok(1,2,4,3), of "[]" "[]" "[65]"] by fastforce
qed

section \<open>Departures from the documented behaviour\<close>

text \<open>Next on a document that passes every size check of the constructor may read outside the
  buffer: a two byte string element is enough, since the string length is fetched before it is
  compared with the end of the document.\<close>

theorem next_overreads:
  "\<exists>r. bson_reader_sized (Some [7, 0, 0, 0, 2, 0, 0]) 7 = Some r \<and> \<not> reader_error r \<and>
     bson_next r = None"
proof -
  have "bson_reader_sized (Some [7, 0, 0, 0, 2, 0, 0]) 7 =
      Some (the (bson_reader_sized (Some [7, 0, 0, 0, 2, 0, 0]) 7)) \<and>
    \<not> reader_error (the (bson_reader_sized (Some [7, 0, 0, 0, 2, 0, 0]) 7)) \<and>
    bson_next (the (bson_reader_sized (Some [7, 0, 0, 0, 2, 0, 0]) 7)) = None"
    by code_simp
  then show ?thesis by blast
qed

text \<open>A boolean added to an array is stored inverted: the call represents adding the negation
  of its argument.\<close>

theorem array_bool_inverted:
  assumes "bb_inv b ((lk, True, es) # ls)" "\<not> error_flag b" "length es < 100"
    and "current_usage b + 5 < 1073741824"
  shows "refines b ((lk, True, es) # ls)
     (add_elem (dec_bytes (int (length es))) (VBool (\<not> x)) ((lk, True, es) # ls)) 5
     (arrayAddElement_bool j x b)"
  using refines_arr [OF assms(1-3), of "VBool (\<not> x)"] assms(4)
  by (cases x) (simp_all add: arrayAddElement_bool_def type_byte_def)

theorem array_bool_inverted_witness:
  "refines (the (run_ops [] [DocBegin [65] True] (bson_builder_buffer (replicate 32 0) 32)))
     [([65], True, []), root_level] [([65], True, [([48], VBool False)]), root_level] 5
     (arrayAddElement_bool [] True (the (run_ops [] [DocBegin [65] True] (bson_builder_buffer (replicate 32 0) 32))))"
proof -
  let ?init = "bson_builder_buffer (replicate 32 0) 32"
  let ?b = "the (run_ops [] [DocBegin [65] True] ?init)"
  have V: "bb_inv ?init [root_level]" "\<not> error_flag ?init"
    using bson_builder_buffer_inv [of "replicate 32 0"] by simp_all
  have u: "current_usage ?init = 5" and e: "\<not> error_flag ?b" "current_usage ?b = 13"
    by code_simp+
  have "bb_inv ?b (abs_ops [DocBegin [65] True] [root_level])"
    using run_ops_refines [OF V, of "[DocBegin [65] True]" "[]"] e(1) u
    by (auto simp: ops_bytes_def root_level_def)
  then show ?thesis
    using array_bool_inverted [of ?b "[65]" "[]" "[root_level]" True "[]"] e
    by (simp add: dec_bytes.simps)
qed

text \<open>The constructor over a caller's buffer does not check its size: with fewer than five bytes finish
  writes behind the end.\<close>

lemma buffer_below_minimum: "bb_finish (bson_builder_buffer (replicate 4 0) 4) = None"
  by code_simp

text \<open>The key of the element with index 100 is not its index: the characters are written to the wrong
  place of the buffer.\<close>

lemma array_key_of_100:
  "fillArrayDocKey (replicate 8 0x7F) 100 \<noteq> dec_bytes 100 @ [0]"
  by code_simp

end
