(* ===== verification/Octets.thy ===== *)
theory Octets
  imports SC_Prelude
begin

unbundle bit_operations_syntax

text \<open>
  Machine words as sequences of octets: the reference reading of a byte string as a little-endian
  or big-endian word, and the rule by which the shift-and-or macros of the C sources are compared
  with it, octet by octet.
\<close>

definition le_word :: "bytes \<Rightarrow> 'a::len word" where
  "le_word p = word_of_int (le_int p)"

definition be_word :: "bytes \<Rightarrow> 'a::len word" where
  "be_word p = word_of_int (le_int (rev p))"

definition be_bytes :: "nat \<Rightarrow> int \<Rightarrow> bytes" where
  "be_bytes n x = rev (le_bytes n x)"

lemma length_be_bytes [simp]: "length (be_bytes n x) = n"
  by (simp add: be_bytes_def)

lemma bit_byte_ge: "8 \<le> n \<Longrightarrow> bit (b :: byte) n = False"
  by (auto dest: bit_imp_le_length)

lemma bit_byte_shift: "bit (uint (b :: byte) + 256 * y) i = (if i < 8 then bit b i else bit y (i - 8))"
proof -
  have e: "256 * y = push_bit 8 y" by (simp add: push_bit_eq_mult)
  have "uint b + push_bit 8 y = uint b OR push_bit 8 y"
    by (rule disjunctive_add) (auto simp: bit_simps bit_uint_iff bit_byte_ge)
  then show ?thesis by (auto simp: e bit_simps bit_uint_iff bit_byte_ge)
qed

lemma bit_le_int: "bit (le_int bs) i \<longleftrightarrow> i div 8 < length bs \<and> bit (bs ! (i div 8)) (i mod 8)"
proof (induction bs arbitrary: i)
  case (Cons b bs)
  show ?case
  proof (cases "i < 8")
    case False
    then obtain j where "i = j + 8" by (metis add.commute le_Suc_ex linorder_not_le)
    then show ?thesis using Cons by (simp add: bit_byte_shift div_add_self2)
  qed (simp add: bit_byte_shift)
qed simp

lemma bit_le_word:
  "bit (le_word p :: 'a::len word) i \<longleftrightarrow>
     i < LENGTH('a) \<and> i div 8 < length p \<and> bit (p ! (i div 8)) (i mod 8)"
  by (simp add: le_word_def bit_word_of_int_iff bit_le_int)

lemma bit_be_word:
  "bit (be_word p :: 'a::len word) i \<longleftrightarrow>
     i < LENGTH('a) \<and> i div 8 < length p \<and> bit (rev p ! (i div 8)) (i mod 8)"
  by (simp add: be_word_def bit_word_of_int_iff bit_le_int)

lemma bit_255: "bit (255 :: int) r \<longleftrightarrow> r < 8"
proof -
  have m: "(255 :: int) = mask 8" by (simp add: mask_eq_exp_minus_1)
  show ?thesis unfolding m bit_mask_iff by simp
qed

text \<open>Words are equal when their octets are.\<close>

lemma octets_eqI:
  fixes v w :: "'a::len word"
  assumes "LENGTH('a) = 8 * n" "\<forall>q < n. \<forall>r < 8. bit v (8 * q + r) = bit w (8 * q + r)"
  shows "v = w"
proof (rule bit_word_eqI)
  fix i assume "i < LENGTH('a)"
  then have "i div 8 < n" using assms(1) by (simp add: less_mult_imp_div_less mult.commute)
  moreover have "i = 8 * (i div 8) + i mod 8" by simp
  ultimately show "bit v i = bit w i" using assms(2) by (metis mod_less_divisor zero_less_numeral)
qed

lemma all_less_8: "(\<forall>q < 8. P q) \<longleftrightarrow> P 0 \<and> P 1 \<and> P 2 \<and> P 3 \<and> P 4 \<and> P 5 \<and> P 6 \<and> P (7 :: nat)"
  by (simp add: numeral_eq_Suc less_Suc_eq all_conj_distrib imp_conjL)

lemma all_less_4: "(\<forall>q < 4. P q) \<longleftrightarrow> P 0 \<and> P 1 \<and> P 2 \<and> P (3 :: nat)"
  by (simp add: numeral_eq_Suc less_Suc_eq all_conj_distrib imp_conjL)

lemma all_less_16: "(\<forall>q < 16. P q) \<longleftrightarrow> P 0 \<and> P 1 \<and> P 2 \<and> P 3 \<and> P 4 \<and> P 5 \<and> P 6 \<and> P 7 \<and>
    P 8 \<and> P 9 \<and> P 10 \<and> P 11 \<and> P 12 \<and> P 13 \<and> P 14 \<and> P (15 :: nat)"
  by (simp add: numeral_eq_Suc less_Suc_eq all_conj_distrib imp_conjL)

lemmas octets_128 = all_less_16 [of "\<lambda>q. \<forall>r < 8. _ q r"]
lemmas octets_64 = all_less_8 [of "\<lambda>q. \<forall>r < 8. _ q r"]
lemmas octets_32 = all_less_4 [of "\<lambda>q. \<forall>r < 8. _ q r"]
lemmas octet_simps = bit_simps bit_be_word bit_le_word bit_byte_ge bit_255

lemma list8_cases:
  "length p = 8 \<Longrightarrow> \<exists>a b c d e f g h. p = [a, b, c, d, e, f, g, h]"
  by (auto simp: length_Suc_conv numeral_eq_Suc)

lemma list4_cases: "length p = 4 \<Longrightarrow> \<exists>a b c d. p = [a, b, c, d]"
  by (auto simp: length_Suc_conv numeral_eq_Suc)

text \<open>Writing and reading back.\<close>

lemma be_bytes_unique:
  assumes "length bs = n" "le_int (rev bs) = x mod 256 ^ n"
  shows "bs = be_bytes n x"
proof -
  have "rev bs = le_bytes n (le_int (rev bs))" using le_bytes_le_int [of "rev bs"] assms(1) by simp
  also have "\<dots> = le_bytes n (le_int (le_bytes n x))" by (simp add: assms(2) le_int_le_bytes)
  also have "\<dots> = le_bytes n x" using le_bytes_le_int [of "le_bytes n x"] by simp
  finally show ?thesis by (simp add: be_bytes_def rev_swap)
qed

lemma be_word_bytes:
  assumes "length bs = n" "LENGTH('a::len) = 8 * n"
  shows "bs = be_bytes n (uint (be_word bs :: 'a word))"
proof (rule be_bytes_unique [OF assms(1)])
  have "(2 :: int) ^ LENGTH('a) = 256 ^ n" using assms(2) by (simp add: power_mult)
  then show "le_int (rev bs) = uint (be_word bs :: 'a word) mod 256 ^ n"
    using le_int_bounds [of "rev bs"] assms by (simp add: be_word_def uint_word_of_int)
qed

end
