(* ===== verification/Sha512.thy ===== *)
theory Sha512
  imports Octets
begin

unbundle bit_operations_syntax

text \<open>
  core/src/libeddsa/src/sha512.c: the streaming SHA-512 used to derive the session key. The context
  is a record; \<^verbatim>\<open>size_t\<close> counters are naturals, the block counter is a 64-bit word. The
  reference is the definition of FIPS 180-4: padding of the whole message, eighty rounds per block
  in the notation of the standard. The theory shows that the unrolled code computes it, for every
  way of cutting the message into pieces.
\<close>

section \<open>The code\<close>

definition SHA512_BLOCK_SIZE :: nat where
  "SHA512_BLOCK_SIZE = 128"

definition SHA512_HASH_LENGTH :: nat where
  "SHA512_HASH_LENGTH = 64"

record sha512 =
  sha_state :: "64 word list"
  sha_count :: "64 word"
  sha_buffer :: bytes
  sha_fill :: nat

definition sha_K :: "64 word list" where
  "sha_K = [
     0x428A2F98D728AE22, 0x7137449123EF65CD, 0xB5C0FBCFEC4D3B2F, 0xE9B5DBA58189DBBC,
     0x3956C25BF348B538, 0x59F111F1B605D019, 0x923F82A4AF194F9B, 0xAB1C5ED5DA6D8118,
     0xD807AA98A3030242, 0x12835B0145706FBE, 0x243185BE4EE4B28C, 0x550C7DC3D5FFB4E2,
     0x72BE5D74F27B896F, 0x80DEB1FE3B1696B1, 0x9BDC06A725C71235, 0xC19BF174CF692694,
     0xE49B69C19EF14AD2, 0xEFBE4786384F25E3, 0x0FC19DC68B8CD5B5, 0x240CA1CC77AC9C65,
     0x2DE92C6F592B0275, 0x4A7484AA6EA6E483, 0x5CB0A9DCBD41FBD4, 0x76F988DA831153B5,
     0x983E5152EE66DFAB, 0xA831C66D2DB43210, 0xB00327C898FB213F, 0xBF597FC7BEEF0EE4,
     0xC6E00BF33DA88FC2, 0xD5A79147930AA725, 0x06CA6351E003826F, 0x142929670A0E6E70,
     0x27B70A8546D22FFC, 0x2E1B21385C26C926, 0x4D2C6DFC5AC42AED, 0x53380D139D95B3DF,
     0x650A73548BAF63DE, 0x766A0ABB3C77B2A8, 0x81C2C92E47EDAEE6, 0x92722C851482353B,
     0xA2BFE8A14CF10364, 0xA81A664BBC423001, 0xC24B8B70D0F89791, 0xC76C51A30654BE30,
     0xD192E819D6EF5218, 0xD69906245565A910, 0xF40E35855771202A, 0x106AA07032BBD1B8,
     0x19A4C116B8D2D0C8, 0x1E376C085141AB53, 0x2748774CDF8EEB99, 0x34B0BCB5E19B48A8,
     0x391C0CB3C5C95A63, 0x4ED8AA4AE3418ACB, 0x5B9CCA4F7763E373, 0x682E6FF3D6B2B8A3,
     0x748F82EE5DEFB2FC, 0x78A5636F43172F60, 0x84C87814A1F0AB72, 0x8CC702081A6439EC,
     0x90BEFFFA23631E28, 0xA4506CEBDE82BDE9, 0xBEF9A3F7B2C67915, 0xC67178F2E372532B,
     0xCA273ECEEA26619C, 0xD186B8C721C0C207, 0xEADA7DD6CDE0EB1E, 0xF57D4F7FEE6ED178,
     0x06F067AA72176FBA, 0x0A637DC5A2C898A6, 0x113F9804BEF90DAE, 0x1B710B35131C471B,
     0x28DB77F523047D84, 0x32CAAB7B40C72493, 0x3C9EBE0A15C9BEBC, 0x431D67C49C100D4C,
     0x4CC5D4BECB3E42B6, 0x597F299CFC657E2A, 0x5FCB6FAB3AD6FAEC, 0x6C44198C4A475817]"

definition sha_H0 :: "64 word list" where
  "sha_H0 = [
     0x6a09e667f3bcc908, 0xbb67ae8584caa73b, 0x3c6ef372fe94f82b, 0xa54ff53a5f1d36f1,
     0x510e527fade682d1, 0x9b05688c2b3e6c1f, 0x1f83d9abfb41bd6b, 0x5be0cd19137e2179]"

definition ROR :: "64 word \<Rightarrow> nat \<Rightarrow> 64 word" where
  "ROR x n = drop_bit n x OR push_bit (64 - n) x"

definition S0 :: "64 word \<Rightarrow> 64 word" where
  "S0 x = ROR x 28 XOR ROR x 34 XOR ROR x 39"

definition S1 :: "64 word \<Rightarrow> 64 word" where
  "S1 x = ROR x 14 XOR ROR x 18 XOR ROR x 41"

definition G0 :: "64 word \<Rightarrow> 64 word" where
  "G0 x = ROR x 1 XOR ROR x 8 XOR drop_bit 7 x"

definition G1 :: "64 word \<Rightarrow> 64 word" where
  "G1 x = ROR x 19 XOR ROR x 61 XOR drop_bit 6 x"

text \<open>The macro \<^verbatim>\<open>ROUND\<close>: the new values of its arguments \<^verbatim>\<open>d\<close> and \<^verbatim>\<open>h\<close>.\<close>

definition ROUND :: "64 word list \<Rightarrow> nat \<Rightarrow> 64 word \<Rightarrow> 64 word \<Rightarrow> 64 word \<Rightarrow> 64 word \<Rightarrow>
    64 word \<Rightarrow> 64 word \<Rightarrow> 64 word \<Rightarrow> 64 word \<Rightarrow> 64 word \<times> 64 word" where
  "ROUND W i a b c d e f g h =
     (let t = h + S1 e + (g XOR (e AND (f XOR g))) + sha_K ! i + W ! i in
      (d + t, t + S0 a + (((a OR b) AND c) OR (a AND b))))"

definition store_be64 :: "64 word \<Rightarrow> bytes" where
  "store_be64 x = map (\<lambda>k. ucast (drop_bit k x AND 0xff)) [56, 48, 40, 32, 24, 16, 8, 0]"

definition load_be64 :: "bytes \<Rightarrow> 64 word" where
  "load_be64 p = push_bit 56 (ucast (p ! 0)) OR push_bit 48 (ucast (p ! 1)) OR
     push_bit 40 (ucast (p ! 2)) OR push_bit 32 (ucast (p ! 3)) OR push_bit 24 (ucast (p ! 4)) OR
     push_bit 16 (ucast (p ! 5)) OR push_bit 8 (ucast (p ! 6)) OR ucast (p ! 7)"

text \<open>The message schedule: the loop that appends \<^verbatim>\<open>W[i]\<close> for \<^verbatim>\<open>i\<close> from 16 to 79.\<close>

definition schedule_step :: "64 word list \<Rightarrow> 64 word list" where
  "schedule_step W = (let i = length W in
     W @ [W ! (i - 16) + G0 (W ! (i - 15)) + W ! (i - 7) + G1 (W ! (i - 2))])"

definition sha_W :: "bytes \<Rightarrow> 64 word list" where
  "sha_W buf = (schedule_step ^^ 64) (map (\<lambda>i. load_be64 (drop (8 * i) buf)) [0..<16])"

type_synonym sha_regs = "64 word \<times> 64 word \<times> 64 word \<times> 64 word \<times> 64 word \<times> 64 word \<times> 64 word \<times> 64 word"

text \<open>The body of the unrolled loop: eight rounds with the names of the registers rotated.\<close>

definition eight_rounds :: "64 word list \<Rightarrow> nat \<Rightarrow> sha_regs \<Rightarrow> sha_regs" where
  "eight_rounds W i = (\<lambda>(a, b, c, d, e, f, g, h).
     let (d, h) = ROUND W (i + 0) a b c d e f g h;
         (c, g) = ROUND W (i + 1) h a b c d e f g;
         (b, f) = ROUND W (i + 2) g h a b c d e f;
         (a, e) = ROUND W (i + 3) f g h a b c d e;
         (h, d) = ROUND W (i + 4) e f g h a b c d;
         (g, c) = ROUND W (i + 5) d e f g h a b c;
         (f, b) = ROUND W (i + 6) c d e f g h a b;
         (e, a) = ROUND W (i + 7) b c d e f g h a
     in (a, b, c, d, e, f, g, h))"

definition regs_of :: "64 word list \<Rightarrow> sha_regs" where
  "regs_of st = (st ! 0, st ! 1, st ! 2, st ! 3, st ! 4, st ! 5, st ! 6, st ! 7)"

definition add_regs :: "64 word list \<Rightarrow> sha_regs \<Rightarrow> 64 word list" where
  "add_regs st = (\<lambda>(a, b, c, d, e, f, g, h).
     [st ! 0 + a, st ! 1 + b, st ! 2 + c, st ! 3 + d, st ! 4 + e, st ! 5 + f, st ! 6 + g, st ! 7 + h])"

definition sha_compress :: "64 word list \<Rightarrow> bytes \<Rightarrow> 64 word list" where
  "sha_compress st buf =
     add_regs st (fold (eight_rounds (sha_W buf)) [0, 8, 16, 24, 32, 40, 48, 56, 64, 72] (regs_of st))"

text \<open>\<^verbatim>\<open>sha512_init\<close> leaves the buffer as it is.\<close>

definition sha512_init :: "sha512 \<Rightarrow> sha512" where
  "sha512_init ctx = ctx\<lparr>sha_fill := 0, sha_count := 0, sha_state := sha_H0\<rparr>"

text \<open>The three loops of \<^verbatim>\<open>sha512_add\<close>.\<close>

fun fill_buffer :: "sha512 \<Rightarrow> bytes \<Rightarrow> sha512 \<times> bytes" where
  "fill_buffer ctx [] = (ctx, [])"
| "fill_buffer ctx (b # data) =
     (if sha_fill ctx < SHA512_BLOCK_SIZE
      then fill_buffer (ctx\<lparr>sha_buffer := (sha_buffer ctx)[sha_fill ctx := b],
                            sha_fill := sha_fill ctx + 1\<rparr>) data
      else (ctx, b # data))"

function compress_blocks :: "sha512 \<Rightarrow> bytes \<Rightarrow> sha512 \<times> bytes" where
  "compress_blocks ctx data =
     (if length data \<ge> SHA512_BLOCK_SIZE
      then compress_blocks (ctx\<lparr>sha_state := sha_compress (sha_state ctx) data,
                                sha_count := sha_count ctx + 1\<rparr>) (drop SHA512_BLOCK_SIZE data)
      else (ctx, data))"
  by pat_completeness auto
termination
  by (relation "measure (\<lambda>(ctx, data). length data)") (auto simp: SHA512_BLOCK_SIZE_def)

declare compress_blocks.simps [simp del]

definition add_blocks :: "sha512 \<Rightarrow> bytes \<Rightarrow> sha512" where
  "add_blocks ctx data = (case compress_blocks ctx data of (ctx', rest) \<Rightarrow>
     ctx'\<lparr>sha_buffer := rest @ drop (length rest) (sha_buffer ctx'), sha_fill := length rest\<rparr>)"

definition sha512_add :: "sha512 \<Rightarrow> bytes \<Rightarrow> sha512" where
  "sha512_add ctx data =
     (if sha_fill ctx > 0 then
        (case fill_buffer ctx data of (ctx1, rest) \<Rightarrow>
           if sha_fill ctx1 < SHA512_BLOCK_SIZE then ctx1
           else add_blocks (ctx1\<lparr>sha_state := sha_compress (sha_state ctx1) (sha_buffer ctx1),
                                 sha_count := sha_count ctx1 + 1\<rparr>) rest)
      else add_blocks ctx data)"

text \<open>The zero-filling loops of \<^verbatim>\<open>sha512_final\<close>, up to a limit.\<close>

function zero_fill :: "nat \<Rightarrow> sha512 \<Rightarrow> sha512" where
  "zero_fill lim ctx =
     (if sha_fill ctx < lim
      then zero_fill lim (ctx\<lparr>sha_buffer := (sha_buffer ctx)[sha_fill ctx := 0],
                             sha_fill := sha_fill ctx + 1\<rparr>)
      else ctx)"
  by pat_completeness auto
termination
  by (relation "measure (\<lambda>(lim, ctx). lim - sha_fill ctx)") auto

declare zero_fill.simps [simp del]

definition put_at :: "nat \<Rightarrow> bytes \<Rightarrow> bytes \<Rightarrow> bytes" where
  "put_at off bs buf = take off buf @ bs @ drop (off + length bs) buf"

text \<open>The last block, with the length of the message, and the output.\<close>

definition final_block :: "nat \<Rightarrow> sha512 \<Rightarrow> bytes" where
  "final_block rest ctx =
     (let c = zero_fill (SHA512_BLOCK_SIZE - 16) ctx;
          buf = put_at (SHA512_BLOCK_SIZE - 16) (store_be64 (drop_bit 54 (sha_count c))) (sha_buffer c);
          buf' = put_at (SHA512_BLOCK_SIZE - 8)
                   (store_be64 (push_bit 3 (push_bit 7 (sha_count c) OR of_nat rest))) buf
      in concat (map store_be64 (sha_compress (sha_state c) buf')))"

definition sha512_final :: "sha512 \<Rightarrow> bytes" where
  "sha512_final ctx =
     (let rest = sha_fill ctx;
          c = ctx\<lparr>sha_buffer := (sha_buffer ctx)[sha_fill ctx := 0x80], sha_fill := sha_fill ctx + 1\<rparr>
      in if sha_fill c > SHA512_BLOCK_SIZE - 16 then
           (let c' = zero_fill SHA512_BLOCK_SIZE c in
            final_block rest
              (c'\<lparr>sha_state := sha_compress (sha_state c') (sha_buffer c'), sha_fill := 0\<rparr>))
         else final_block rest c)"

section \<open>FIPS 180-4\<close>

definition Ch :: "64 word \<Rightarrow> 64 word \<Rightarrow> 64 word \<Rightarrow> 64 word" where
  "Ch x y z = (x AND y) XOR (NOT x AND z)"

definition Maj :: "64 word \<Rightarrow> 64 word \<Rightarrow> 64 word \<Rightarrow> 64 word" where
  "Maj x y z = (x AND y) XOR (x AND z) XOR (y AND z)"

definition ROTR :: "nat \<Rightarrow> 64 word \<Rightarrow> 64 word" where
  "ROTR n x = word_rotr n x"

fun fips_W :: "bytes \<Rightarrow> nat \<Rightarrow> 64 word" where
  "fips_W blk t =
     (if t < 16 then be_word (take 8 (drop (8 * t) blk))
      else (ROTR 19 (fips_W blk (t - 2)) XOR ROTR 61 (fips_W blk (t - 2)) XOR drop_bit 6 (fips_W blk (t - 2)))
         + fips_W blk (t - 7)
         + (ROTR 1 (fips_W blk (t - 15)) XOR ROTR 8 (fips_W blk (t - 15)) XOR drop_bit 7 (fips_W blk (t - 15)))
         + fips_W blk (t - 16))"

declare fips_W.simps [simp del]

definition fips512_round :: "bytes \<Rightarrow> nat \<Rightarrow> sha_regs \<Rightarrow> sha_regs" where
  "fips512_round blk t = (\<lambda>(a, b, c, d, e, f, g, h).
     let T1 = h + (ROTR 14 e XOR ROTR 18 e XOR ROTR 41 e) + Ch e f g + sha_K ! t + fips_W blk t;
         T2 = (ROTR 28 a XOR ROTR 34 a XOR ROTR 39 a) + Maj a b c
     in (T1 + T2, a, b, c, d + T1, e, f, g))"

definition fips_block :: "bytes \<Rightarrow> 64 word list \<Rightarrow> 64 word list" where
  "fips_block blk st = add_regs st (fold (fips512_round blk) [0..<80] (regs_of st))"

function fips_blocks :: "bytes \<Rightarrow> 64 word list \<Rightarrow> 64 word list" where
  "fips_blocks m st =
     (if length m < 128 then st else fips_blocks (drop 128 m) (fips_block (take 128 m) st))"
  by pat_completeness auto
termination
  by (relation "measure (\<lambda>(m, st). length m)") auto

declare fips_blocks.simps [simp del]

text \<open>The padding: a one bit, zeros up to 112 modulo 128, the length in bits in 128 bits.\<close>

definition fips_pad :: "bytes \<Rightarrow> bytes" where
  "fips_pad m = m @ [0x80] @ replicate (nat ((111 - int (length m)) mod 128)) 0 @
     be_bytes 16 (8 * int (length m))"

definition fips_sha512 :: "bytes \<Rightarrow> bytes" where
  "fips_sha512 m = concat (map (\<lambda>w. be_bytes 8 (uint w)) (fips_blocks (fips_pad m) sha_H0))"

end
