(* ===== verification/Sha512_Spec.thy ===== *)
theory Sha512_Spec
  imports Sha512
begin

unbundle bit_operations_syntax

text \<open>
  The unrolled compression function of sha512.c computes the block function of FIPS 180-4, and the
  streaming interface computes the hash of the whole message.
\<close>

section \<open>Words and rotations\<close>

lemma load_be64_word:
  assumes "length p = 8"
  shows "load_be64 p = be_word p"
proof -
  obtain a b c d e f g h where p: "p = [a,b,c,d,e,f,g,h]"
    using list8_cases [OF assms] by blast
  show ?thesis
    by (rule octets_eqI [where n = 8]) (simp_all add: octets_64 p load_be64_def octet_simps)
qed

lemma store_be64_word: "store_be64 x = be_bytes 8 (uint x)"
proof -
  have "be_word (store_be64 x) = x"
    by (rule octets_eqI [where n = 8]) (simp_all add: octets_64 store_be64_def octet_simps)
  then show ?thesis using be_word_bytes [of "store_be64 x" 8, where 'a = 64] by (simp add: store_be64_def)
qed

lemma ROR_ROTR: "n < 64 \<Longrightarrow> ROR x n = ROTR n x"
proof (rule bit_word_eqI)
  fix i assume n: "n < 64" and "i < LENGTH(64)"
  then have i: "i < 64" by simp
  show "bit (ROR x n) i = bit (ROTR n x) i"
  proof (cases "i + n < 64")
    case True
    then have "\<not> 64 - n \<le> i" using n by linarith
    then show ?thesis using n i True by (simp add: ROR_def ROTR_def bit_simps add.commute)
  next
    case False
    then have "(i + n) mod 64 = i + n - 64" "i - (64 - n) = i + n - 64"
      using n i by (simp_all add: mod_if)
    then show ?thesis using n i False by (auto simp: ROR_def ROTR_def bit_simps dest: bit_imp_le_length)
  qed
qed

lemma Ch_code: "g XOR (e AND (f XOR g)) = Ch e f g"
  by (rule bit_word_eqI) (auto simp: Ch_def bit_simps)

lemma Maj_code: "((a OR b) AND c) OR (a AND b) = Maj a b c"
  by (rule bit_word_eqI) (auto simp: Maj_def bit_simps)

section \<open>One block\<close>

lemma schedule_step_nth:
  "schedule_step W ! i = (if i < length W then W ! i else if i = length W then
     W ! (i - 16) + G0 (W ! (i - 15)) + W ! (i - 7) + G1 (W ! (i - 2)) else schedule_step W ! i)"
  by (simp add: schedule_step_def Let_def nth_append)

lemma length_schedule_step: "length (schedule_step W) = Suc (length W)"
  by (simp add: schedule_step_def Let_def)

lemma length_schedule: "length ((schedule_step ^^ n) W) = length W + n"
  by (induction n) (simp_all add: length_schedule_step)

lemma length_sha_W: "length (sha_W buf) = 80"
  by (simp add: sha_W_def length_schedule)

lemma schedule_fips:
  assumes "length W = 16" "\<And>i. i < 16 \<Longrightarrow> W ! i = fips_W blk i" "i < 16 + n"
  shows "(schedule_step ^^ n) W ! i = fips_W blk i"
  using assms(3)
proof (induction n arbitrary: i)
  case 0
  then show ?case using assms(2) by simp
next
  case (Suc n)
  let ?W = "(schedule_step ^^ n) W"
  have len: "length ?W = 16 + n" using assms(1) by (simp add: length_schedule)
  show ?case
  proof (cases "i < 16 + n")
    case True
    then show ?thesis using Suc.IH len by (simp add: schedule_step_nth [of ?W i])
  next
    case False
    then have i: "i = n + 16" using Suc.prems by simp
    show ?thesis
      using Suc.IH [of n] Suc.IH [of "n + 1"] Suc.IH [of "n + 9"] Suc.IH [of "n + 14"]
      by (simp add: i schedule_step_nth [of ?W "n + 16"] len fips_W.simps [of blk "n + 16"]
          G0_def G1_def ROR_ROTR algebra_simps)
  qed
qed

lemma sha_W_fips:
  assumes "128 \<le> length buf" "i < 80"
  shows "sha_W buf ! i = fips_W (take 128 buf) i"
  unfolding sha_W_def
proof (rule schedule_fips)
  fix i :: nat assume i: "i < 16"
  have "load_be64 (drop (8 * i) buf) = load_be64 (take 8 (drop (8 * i) buf))"
    by (simp add: load_be64_def)
  also have "\<dots> = be_word (take 8 (drop (8 * i) buf))"
    using assms(1) i by (intro load_be64_word) simp
  also have "take 8 (drop (8 * i) buf) = take 8 (drop (8 * i) (take 128 buf))"
    using i by (simp add: drop_take min_def)
  finally show "map (\<lambda>i. load_be64 (drop (8 * i) buf)) [0..<16] ! i = fips_W (take 128 buf) i"
    using i by (simp add: fips_W.simps)
qed (use assms in simp_all)

lemma fips512_round_code:
  assumes "128 \<le> length buf" "i < 80"
  shows "fips512_round (take 128 buf) i (a, b, c, d, e, f, g, h) =
    (case ROUND (sha_W buf) i a b c d e f g h of (d', h') \<Rightarrow> (h', a, b, c, d', e, f, g))"
  using sha_W_fips [OF assms]
  by (simp add: fips512_round_def ROUND_def S0_def S1_def ROR_ROTR Ch_code Maj_code Let_def algebra_simps)

lemma eight_rounds_fips:
  assumes "128 \<le> length buf" "i + 7 < 80"
  shows "eight_rounds (sha_W buf) i v = fold (fips512_round (take 128 buf)) [i..<i + 8] v"
proof -
  obtain a b c d e f g h where v: "v = (a, b, c, d, e, f, g, h)" by (cases v) auto
  have u: "[i..<i + 8] = [i, i + 1, i + 2, i + 3, i + 4, i + 5, i + 6, i + 7]"
    by (simp add: upt_conv_Cons)
  show ?thesis unfolding u v eight_rounds_def
    using assms by (simp add: fips512_round_code Let_def split: prod.split)
qed

lemma sha_compress_fips:
  assumes "128 \<le> length buf"
  shows "sha_compress st buf = fips_block (take 128 buf) st"
proof -
  let ?R = "fips512_round (take 128 buf)"
  have step: "fold ?R [0..<i + 8] v = eight_rounds (sha_W buf) i (fold ?R [0..<i] v)"
    if "i + 7 < 80" for i v
    using upt_add_eq_append [of 0 i 8] eight_rounds_fips [OF assms that] by (simp add: fold_append)
  have "fold ?R [0..<80] v = fold (eight_rounds (sha_W buf)) [0, 8, 16, 24, 32, 40, 48, 56, 64, 72] v" for v
    using step [of 72 v] step [of 64 v] step [of 56 v] step [of 48 v] step [of 40 v] step [of 32 v]
      step [of 24 v] step [of 16 v] step [of 8 v] step [of 0 v] by (simp del: upt_rec_numeral)
  then show ?thesis by (simp add: sha_compress_def fips_block_def)
qed

section \<open>Streaming\<close>

lemma fips_blocks_append:
  "128 dvd length m \<Longrightarrow> fips_blocks (m @ d) st = fips_blocks d (fips_blocks m st)"
proof (induction m st rule: fips_blocks.induct)
  case (1 m st)
  show ?case
  proof (cases "length m < 128")
    case True
    then have "m = []" using 1(2) by (auto dest: dvd_imp_le)
    then show ?thesis by (simp add: fips_blocks.simps [of "[]"])
  next
    case False
    then show ?thesis using 1
      by (simp add: fips_blocks.simps [of "m @ d"] fips_blocks.simps [of m])
  qed
qed

lemma fips_blocks_short: "length d < 128 \<Longrightarrow> fips_blocks d st = st"
  by (simp add: fips_blocks.simps)

lemma fips_blocks_one: "length d = 128 \<Longrightarrow> fips_blocks d st = fips_block d st"
  by (simp add: fips_blocks.simps [of d] fips_blocks.simps [of "[]"])

text \<open>The context after the message \<^verbatim>\<open>m\<close>: whole blocks in the state, the rest in the buffer.\<close>

definition sha_rep :: "bytes \<Rightarrow> sha512 \<Rightarrow> bool" where
  "sha_rep m ctx \<longleftrightarrow> length (sha_buffer ctx) = 128 \<and> (\<exists>m' t. m = m' @ t \<and> 128 dvd length m' \<and>
     length t < 128 \<and> sha_fill ctx = length t \<and> take (length t) (sha_buffer ctx) = t \<and>
     sha_state ctx = fips_blocks m' sha_H0 \<and> sha_count ctx = of_nat (length m' div 128))"

lemma compress_blocks_spec:
  "compress_blocks ctx data = (ctx', rest) \<Longrightarrow>
   \<exists>d. data = d @ rest \<and> 128 dvd length d \<and> length rest < 128 \<and>
     ctx' = ctx\<lparr>sha_state := fips_blocks d (sha_state ctx), sha_count := sha_count ctx + of_nat (length d div 128)\<rparr>"
proof (induction ctx data arbitrary: ctx' rest rule: compress_blocks.induct)
  case (1 ctx data)
  show ?case
  proof (cases "128 \<le> length data")
    case True
    let ?ctx = "ctx\<lparr>sha_state := sha_compress (sha_state ctx) data, sha_count := sha_count ctx + 1\<rparr>"
    have "compress_blocks ?ctx (drop 128 data) = (ctx', rest)"
      using 1(2) True by (simp add: compress_blocks.simps [of ctx] SHA512_BLOCK_SIZE_def)
    then obtain d where d: "drop 128 data = d @ rest" "128 dvd length d" "length rest < 128"
      "ctx' = ?ctx\<lparr>sha_state := fips_blocks d (sha_state ?ctx), sha_count := sha_count ?ctx + of_nat (length d div 128)\<rparr>"
      using 1(1) True by (auto simp: SHA512_BLOCK_SIZE_def)
    have data: "data = (take 128 data @ d) @ rest" using d(1) by (metis append.assoc append_take_drop_id)
    have "length (take 128 data @ d) = 128 + length d" using True by simp
    moreover have "fips_blocks (take 128 data @ d) (sha_state ctx) = fips_blocks d (sha_state ?ctx)"
      using True by (simp add: fips_blocks_append fips_blocks_one sha_compress_fips)
    ultimately show ?thesis using d data by (intro exI [of _ "take 128 data @ d"]) (simp add: algebra_simps)
  next
    case False
    then have "ctx' = ctx" "rest = data"
      using 1(2) by (simp_all add: compress_blocks.simps [of ctx] SHA512_BLOCK_SIZE_def)
    then show ?thesis using False by (simp add: fips_blocks_short)
  qed
qed

lemma add_blocks_rep:
  assumes "128 dvd length m" "length (sha_buffer ctx) = 128" "sha_state ctx = fips_blocks m sha_H0"
    "sha_count ctx = of_nat (length m div 128)"
  shows "sha_rep (m @ data) (add_blocks ctx data)"
proof -
  obtain ctx' rest where c: "compress_blocks ctx data = (ctx', rest)" by force
  obtain d where d: "data = d @ rest" "128 dvd length d" "length rest < 128"
    "ctx' = ctx\<lparr>sha_state := fips_blocks d (sha_state ctx), sha_count := sha_count ctx + of_nat (length d div 128)\<rparr>"
    using compress_blocks_spec [OF c] by blast
  have "(length m + length d) div 128 = length m div 128 + length d div 128"
    using assms(1) by (simp add: div_plus_div_distrib_dvd_left)
  then show ?thesis unfolding sha_rep_def
    using assms d c by (intro conjI exI [of _ "m @ d"] exI [of _ rest])
      (simp_all add: add_blocks_def fips_blocks_append)
qed

lemma fill_buffer_spec:
  assumes "length (sha_buffer ctx) = 128" "sha_fill ctx \<le> 128"
  shows "\<exists>d rest buf. data = d @ rest \<and> (rest = [] \<or> sha_fill ctx + length d = 128) \<and>
     sha_fill ctx + length d \<le> 128 \<and> length buf = 128 \<and>
     take (sha_fill ctx + length d) buf = take (sha_fill ctx) (sha_buffer ctx) @ d \<and>
     fill_buffer ctx data = (ctx\<lparr>sha_buffer := buf, sha_fill := sha_fill ctx + length d\<rparr>, rest)"
  using assms
proof (induction ctx data rule: fill_buffer.induct)
  case (1 ctx)
  then show ?case by (intro exI [of _ "[]"] exI [of _ "sha_buffer ctx"]) simp
next
  case (2 ctx b data)
  show ?case
  proof (cases "sha_fill ctx < 128")
    case True
    define c where "c = ctx\<lparr>sha_buffer := (sha_buffer ctx)[sha_fill ctx := b], sha_fill := sha_fill ctx + 1\<rparr>"
    have c: "length (sha_buffer c) = 128" "sha_fill c \<le> 128" "sha_fill c = sha_fill ctx + 1"
      "take (sha_fill c) (sha_buffer c) = take (sha_fill ctx) (sha_buffer ctx) @ [b]"
      using True 2(2) by (simp_all add: c_def take_Suc_conv_app_nth)
    have lt: "sha_fill ctx < SHA512_BLOCK_SIZE" using True by (simp add: SHA512_BLOCK_SIZE_def)
    obtain d rest buf where d: "data = d @ rest" "rest = [] \<or> sha_fill c + length d = 128"
      "sha_fill c + length d \<le> 128" "length buf = 128"
      "take (sha_fill c + length d) buf = take (sha_fill c) (sha_buffer c) @ d"
      "fill_buffer c data = (c\<lparr>sha_buffer := buf, sha_fill := sha_fill c + length d\<rparr>, rest)"
      using 2(1) [OF lt, folded c_def, OF c(1,2)] by blast
    have "fill_buffer ctx (b # data) = (ctx\<lparr>sha_buffer := buf, sha_fill := sha_fill ctx + length (b # d)\<rparr>, rest)"
      using d(6) lt by (simp add: c_def)
    then show ?thesis using d c
      by (intro exI [of _ "b # d"] exI [of _ rest] exI [of _ buf]) simp
  next
    case False
    then show ?thesis using 2
      by (intro exI [of _ "[]"] exI [of _ "b # data"] exI [of _ "sha_buffer ctx"])
        (simp add: SHA512_BLOCK_SIZE_def)
  qed
qed

lemma sha512_add_rep:
  assumes "sha_rep m ctx"
  shows "sha_rep (m @ data) (sha512_add ctx data)"
proof -
  obtain m' t where r: "length (sha_buffer ctx) = 128" "m = m' @ t" "128 dvd length m'"
    "length t < 128" "sha_fill ctx = length t" "take (length t) (sha_buffer ctx) = t"
    "sha_state ctx = fips_blocks m' sha_H0" "sha_count ctx = of_nat (length m' div 128)"
    using assms by (auto simp: sha_rep_def)
  show ?thesis
  proof (cases "t = []")
    case True
    then show ?thesis using r add_blocks_rep [of m' ctx data] by (simp add: sha512_add_def)
  next
    case False
    obtain d rest buf where d: "data = d @ rest" "rest = [] \<or> length t + length d = 128"
      "length t + length d \<le> 128" "length buf = 128" "take (length t + length d) buf = t @ d"
      "fill_buffer ctx data = (ctx\<lparr>sha_buffer := buf, sha_fill := length t + length d\<rparr>, rest)"
      using fill_buffer_spec [of ctx data] r by auto
    show ?thesis
    proof (cases "length t + length d < 128")
      case True
      then have "sha512_add ctx data = ctx\<lparr>sha_buffer := buf, sha_fill := length t + length d\<rparr>" "rest = []"
        using d False r(5) by (auto simp: sha512_add_def SHA512_BLOCK_SIZE_def)
      then show ?thesis unfolding sha_rep_def
        using True r d by (intro conjI exI [of _ m'] exI [of _ "t @ d"]) simp_all
    next
      case full: False
      then have len: "length (t @ d) = 128" using d(3) by simp
      then have buf: "buf = t @ d" using d(4,5) by simp
      let ?c = "ctx\<lparr>sha_buffer := t @ d, sha_fill := 128, sha_state := fips_blocks (m' @ t @ d) sha_H0,
                   sha_count := of_nat (length (m' @ t @ d) div 128)\<rparr>"
      have "sha512_add ctx data = add_blocks ?c rest"
        using d False r full len buf by (simp add: sha512_add_def SHA512_BLOCK_SIZE_def
            sha_compress_fips fips_blocks_append fips_blocks_one add.commute)
      then show ?thesis using add_blocks_rep [of "m' @ t @ d" ?c rest] r len d(1) by simp
    qed
  qed
qed

interpretation sha_stream: incremental sha_rep sha512_add "\<lambda>_. True"
  by unfold_locales (rule sha512_add_rep)

lemma sha512_init_rep: "length (sha_buffer ctx) = 128 \<Longrightarrow> sha_rep [] (sha512_init ctx)"
  by (simp add: sha_rep_def sha512_init_def fips_blocks_short)

section \<open>Finishing\<close>

lemma zero_fill_spec:
  "length (sha_buffer ctx) = 128 \<Longrightarrow> lim \<le> 128 \<Longrightarrow> sha_fill ctx \<le> lim \<Longrightarrow>
   \<exists>buf. length buf = 128 \<and>
     take lim buf = take (sha_fill ctx) (sha_buffer ctx) @ replicate (lim - sha_fill ctx) 0 \<and>
     zero_fill lim ctx = ctx\<lparr>sha_buffer := buf, sha_fill := lim\<rparr>"
proof (induction lim ctx rule: zero_fill.induct)
  case (1 lim ctx)
  show ?case
  proof (cases "sha_fill ctx < lim")
    case True
    define c where "c = ctx\<lparr>sha_buffer := (sha_buffer ctx)[sha_fill ctx := 0], sha_fill := sha_fill ctx + 1\<rparr>"
    have c: "length (sha_buffer c) = 128" "sha_fill c \<le> lim" "sha_fill c = sha_fill ctx + 1"
      "take (sha_fill c) (sha_buffer c) = take (sha_fill ctx) (sha_buffer ctx) @ [0]"
      using True 1(2,3) by (simp_all add: c_def take_Suc_conv_app_nth)
    obtain buf where b: "length buf = 128"
      "take lim buf = take (sha_fill c) (sha_buffer c) @ replicate (lim - sha_fill c) 0"
      "zero_fill lim c = c\<lparr>sha_buffer := buf, sha_fill := lim\<rparr>"
      using 1(1) [OF True, folded c_def, OF c(1) 1(3) c(2)] by blast
    have "replicate (lim - sha_fill ctx) (0 :: byte) = 0 # replicate (lim - sha_fill c) 0"
      using True c(3) by (simp flip: replicate_Suc add: Suc_diff_Suc)
    moreover have "zero_fill lim ctx = ctx\<lparr>sha_buffer := buf, sha_fill := lim\<rparr>"
      using b(3) True by (simp add: zero_fill.simps [of lim ctx] c_def)
    ultimately show ?thesis using b c by (intro exI [of _ buf]) simp
  next
    case False
    then have "sha_fill ctx = lim" using 1(4) by simp
    then show ?thesis using 1(2) by (intro exI [of _ "sha_buffer ctx"]) (simp add: zero_fill.simps [of lim ctx])
  qed
qed

lemma be_bytes_mod: "be_bytes n (x mod 256 ^ n) = be_bytes n x"
  by (rule be_bytes_unique) (simp_all add: be_bytes_def le_int_le_bytes)

lemma le_bytes_append: "le_bytes (n + k) x = le_bytes n x @ le_bytes k (x div 256 ^ n)"
  by (induction n arbitrary: x) (simp_all add: zdiv_zmult2_eq)

text \<open>The length field: two 64-bit words computed from the block counter and the fill level.\<close>

lemma length_field:
  assumes n: "n = 128 * c + r" "r < 128" "n < 2 ^ 64"
  shows "store_be64 (drop_bit 54 (of_nat c)) @
    store_be64 (push_bit 3 (push_bit 7 (of_nat c) OR of_nat r)) = be_bytes 16 (8 * int n)"
proof -
  have c: "c < 2 ^ 57" using n by simp
  have u: "uint (of_nat c :: 64 word) = int c"
    using c by (simp add: unsigned_of_nat take_bit_nat_eq_self)
  have "uint (drop_bit 54 (of_nat c :: 64 word)) = int (c div 2 ^ 54)"
    by (simp add: drop_bit_eq_div uint_div u zdiv_int)
  also have "\<dots> = 8 * int n div 256 ^ 8" using n by simp
  finally have hi: "uint (drop_bit 54 (of_nat c :: 64 word)) = 8 * int n div 256 ^ 8" .
  have or: "push_bit 7 (of_nat c) OR of_nat r = (push_bit 7 (of_nat c) + of_nat r :: 64 word)"
  proof (rule disjunctive_add [symmetric])
    fix k
    have "\<not> bit r k" if "7 \<le> k"
    proof -
      have "r < 2 ^ k" using n(2) that power_increasing [of 7 k "2 :: nat"] by simp
      then show ?thesis by (simp add: bit_iff_odd)
    qed
    then show "\<not> bit (push_bit 7 (of_nat c) :: 64 word) k \<or> \<not> bit (of_nat r :: 64 word) k"
      by (auto simp: bit_simps)
  qed
  have "push_bit 3 (push_bit 7 (of_nat c) OR of_nat r) = (word_of_int (8 * int n) :: 64 word)"
    unfolding or by (simp add: push_bit_eq_mult n(1) algebra_simps)
  then have lo: "uint (push_bit 3 (push_bit 7 (of_nat c) OR of_nat r) :: 64 word) = 8 * int n mod 256 ^ 8"
    by (simp only: uint_word_of_int) simp
  have "be_bytes 16 (8 * int n) = be_bytes 8 (8 * int n div 256 ^ 8) @ be_bytes 8 (8 * int n)"
    using le_bytes_append [of 8 8 "8 * int n"] by (simp add: be_bytes_def)
  then show ?thesis by (simp only: store_be64_word hi lo be_bytes_mod)
qed

lemma put_at_end:
  "length buf = 128 \<Longrightarrow> length a = 8 \<Longrightarrow> length b = 8 \<Longrightarrow>
   put_at 120 b (put_at 112 a buf) = take 112 buf @ a @ b"
  by (simp add: put_at_def)

lemma final_block_spec:
  assumes "length (sha_buffer c) = 128" "sha_fill c \<le> 112" "sha_count c = of_nat k"
    and "n = 128 * k + r" "r < 128" "n < 2 ^ 64"
  shows "final_block r c = concat (map (\<lambda>w. be_bytes 8 (uint w))
    (fips_block (take (sha_fill c) (sha_buffer c) @ replicate (112 - sha_fill c) 0 @ be_bytes 16 (8 * int n))
      (sha_state c)))"
proof -
  obtain buf where b: "length buf = 128"
    "take 112 buf = take (sha_fill c) (sha_buffer c) @ replicate (112 - sha_fill c) 0"
    "zero_fill 112 c = c\<lparr>sha_buffer := buf, sha_fill := 112\<rparr>"
    using zero_fill_spec [of c 112] assms by fastforce
  have p: "put_at 120 (store_be64 (push_bit 3 (push_bit 7 (of_nat k) OR of_nat r)))
      (put_at 112 (store_be64 (drop_bit 54 (of_nat k))) buf) = take 112 buf @ be_bytes 16 (8 * int n)"
    using put_at_end [OF b(1)] length_field [OF assms(4-6)] by (simp add: store_be64_def)
  have num: "(128 :: nat) - 16 = 112" "(128 :: nat) - 8 = 120" by simp_all
  let ?c = "c\<lparr>sha_buffer := buf, sha_fill := 112\<rparr>"
  have fields: "sha_count ?c = of_nat k" "sha_buffer ?c = buf" "sha_state ?c = sha_state c"
    using assms(3) by simp_all
  have "final_block r c = concat (map store_be64
      (sha_compress (sha_state c) (take 112 buf @ be_bytes 16 (8 * int n))))"
    by (simp only: final_block_def SHA512_BLOCK_SIZE_def Let_def num b(3) fields p)
  moreover have "length (take 112 buf @ be_bytes 16 (8 * int n)) = 128" using b(1) by simp
  ultimately show ?thesis using assms(1,2) by (simp add: sha_compress_fips b(2) min_absorb2 store_be64_word [abs_def])
qed

lemma pad_mod: "(a - int (128 * k + t)) mod 128 = (a - int t) mod 128"
proof -
  have "a - int (128 * k + t) = (a - int t) + (- int k) * 128" by simp
  then show ?thesis by (simp only: mod_mult_self1)
qed

lemma sha512_final_spec:
  assumes "sha_rep m ctx" and len: "length m < 2 ^ 64"
  shows "sha512_final ctx = fips_sha512 m"
proof -
  obtain m' t where r: "length (sha_buffer ctx) = 128" "m = m' @ t" "128 dvd length m'"
    "length t < 128" "sha_fill ctx = length t" "take (length t) (sha_buffer ctx) = t"
    "sha_state ctx = fips_blocks m' sha_H0" "sha_count ctx = of_nat (length m' div 128)"
    using assms by (auto simp: sha_rep_def)
  let ?L = "be_bytes 16 (8 * int (length m))"
  have n: "length m = 128 * (length m' div 128) + length t" using r(2,3) by simp
  define c where "c = ctx\<lparr>sha_buffer := (sha_buffer ctx)[length t := 0x80], sha_fill := length t + 1\<rparr>"
  have c: "length (sha_buffer c) = 128" "sha_fill c = length t + 1" "sha_count c = of_nat (length m' div 128)"
    "take (length t + 1) (sha_buffer c) = t @ [0x80]" "sha_state c = fips_blocks m' sha_H0"
    using r by (simp_all add: c_def take_Suc_conv_app_nth)
  show ?thesis
  proof (cases "length t + 1 \<le> 112")
    case True
    have z: "nat ((111 - int (length m)) mod 128) = 112 - sha_fill c"
    proof -
      have "(111 - int (length m)) mod 128 = (111 - int (length t)) mod 128"
        unfolding n by (rule pad_mod)
      then show ?thesis using True c(2) by simp
    qed
    have "fips_pad m = m' @ (t @ [0x80]) @ replicate (112 - sha_fill c) 0 @ ?L"
      unfolding fips_pad_def z by (simp add: r(2))
    moreover have "sha512_final ctx = final_block (length t) c"
      using True r(5) by (simp add: sha512_final_def SHA512_BLOCK_SIZE_def Let_def c_def)
    ultimately show ?thesis
      using final_block_spec [OF c(1) _ c(3) n r(4) len] True c(2,4,5) r(3)
      by (simp add: fips_sha512_def fips_blocks_append fips_blocks_one)
  next
    case False
    have z: "nat ((111 - int (length m)) mod 128) = (128 - sha_fill c) + 112"
    proof -
      have "(111 - int (length m)) mod 128 = (111 - int (length t)) mod 128"
        unfolding n by (rule pad_mod)
      also have "\<dots> = (111 - int (length t) + 128) mod 128" by (simp only: mod_add_self2)
      also have "\<dots> = 239 - int (length t)" using False r(4) by simp
      finally show ?thesis using False c(2) r(4) by simp
    qed
    have pad: "fips_pad m = m' @ (t @ [0x80] @ replicate (128 - sha_fill c) 0) @ replicate 112 0 @ ?L"
      unfolding fips_pad_def z replicate_add by (simp add: r(2))
    obtain buf where b: "length buf = 128" "take 128 buf = (t @ [0x80]) @ replicate (128 - sha_fill c) 0"
      "zero_fill 128 c = c\<lparr>sha_buffer := buf, sha_fill := 128\<rparr>"
      using zero_fill_spec [of c 128] c r(4) by fastforce
    let ?c = "c\<lparr>sha_buffer := buf, sha_state := fips_block buf (sha_state c), sha_fill := 0\<rparr>"
    have "sha512_final ctx = final_block (length t) ?c"
      using False r(5) b sha_compress_fips [of buf]
      by (simp add: sha512_final_def SHA512_BLOCK_SIZE_def Let_def flip: c_def) (simp add: c_def)
    moreover have "fips_pad m = m' @ buf @ replicate 112 0 @ ?L" using pad b(1,2) by simp
    ultimately show ?thesis
      using final_block_spec [of ?c, OF _ _ _ n r(4) len] b(1) c(3,5) r(3)
      by (simp add: fips_sha512_def fips_blocks_append fips_blocks_one)
  qed
qed

lemma sha512_stream:
  assumes "length (sha_buffer ctx) = SHA512_BLOCK_SIZE" "length (concat ds) < 2 ^ 64"
  shows "sha512_final (foldl sha512_add (sha512_init ctx) ds) = fips_sha512 (concat ds)"
proof -
  have "sha_rep [] (sha512_init ctx)"
    using assms(1) by (intro sha512_init_rep) (simp add: SHA512_BLOCK_SIZE_def)
  from sha_stream.absorb_all [OF this] have "sha_rep (concat ds) (foldl sha512_add (sha512_init ctx) ds)"
    by simp
  then show ?thesis using assms(2) by (rule sha512_final_spec)
qed

section \<open>The property\<close>

text \<open>C8: for every way of cutting a message into pieces, initialising a context, adding the pieces
  one after the other and finishing gives the SHA-512 of the whole message as FIPS 180-4 defines
  it: the unrolled rounds, the message schedule, the buffering and the padding are right.\<close>

theorem sha512_streaming:
  assumes "length (sha_buffer ctx) = SHA512_BLOCK_SIZE" "length (concat ds) < 2 ^ 64"
  shows "sha512_final (foldl sha512_add (sha512_init ctx) ds) = fips_sha512 (concat ds)"
  using assms by (rule sha512_stream)

theorem sha512_streaming_witness:
  "sha512_final (foldl sha512_add (sha512_init \<lparr>sha_state = [], sha_count = 0,
     sha_buffer = replicate 128 0xFF, sha_fill = 7\<rparr>) [[0x61], [], [0x62, 0x63]]) =
   fips_sha512 [0x61, 0x62, 0x63]"
  using sha512_streaming [of "\<lparr>sha_state = [], sha_count = 0, sha_buffer = replicate 128 0xFF, sha_fill = 7\<rparr>"
      "[[0x61], [], [0x62, 0x63]]"]
  by (simp add: SHA512_BLOCK_SIZE_def)

end
