(* ===== verification/Sha512_Constants.thy ===== *)
theory Sha512_Constants
  imports Sha512_Spec
begin

text \<open>
  The constants of SHA-512, which the specification \<open>fips_sha512\<close> shares with the code, checked against their
  definition in FIPS 180-4: the first 64 bits of the fractional parts of the cube roots of the first eighty
  primes, and of the square roots of the first eight.
\<close>

definition first_primes :: "int list" where
  "first_primes = [2, 3, 5, 7, 11, 13, 17, 19, 23, 29, 31, 37, 41, 43, 47, 53, 59, 61, 67, 71, 73, 79, 83, 89, 97, 101, 103, 107, 109, 113, 127, 131, 137, 139, 149, 151, 157, 163, 167, 173, 179, 181, 191, 193, 197, 199, 211, 223, 227, 229, 233, 239, 241, 251, 257, 263, 269, 271, 277, 281, 283, 293, 307, 311, 313, 317, 331, 337, 347, 349, 353, 359, 367, 373, 379, 383, 389, 397, 401, 409]"

text \<open>The word holds the first 64 bits of the fractional part of the \<^verbatim>\<open>n\<close>-th root of \<^verbatim>\<open>p\<close>.\<close>

definition root_fraction :: "nat \<Rightarrow> int \<Rightarrow> 64 word \<Rightarrow> bool" where
  "root_fraction n p w \<longleftrightarrow> (\<exists>m\<ge>0. (m * 2 ^ 64 + uint w) ^ n \<le> p * 2 ^ (64 * n) \<and> p * 2 ^ (64 * n) < (m * 2 ^ 64 + uint w + 1) ^ n)"

text \<open>The same for lists, with the integer parts of the roots given.\<close>

fun rf_check :: "nat \<Rightarrow> int list \<Rightarrow> int list \<Rightarrow> 64 word list \<Rightarrow> bool" where
  "rf_check n (m # ms) (p # ps) (w # ws) \<longleftrightarrow> 0 \<le> m \<and> (m * 2 ^ 64 + uint w) ^ n \<le> p * 2 ^ (64 * n) \<and> p * 2 ^ (64 * n) < (m * 2 ^ 64 + uint w + 1) ^ n \<and> rf_check n ms ps ws"
| "rf_check n [] [] [] \<longleftrightarrow> True"
| "rf_check n _ _ _ \<longleftrightarrow> False"

lemma rf_check_sound: "rf_check n ms ps ws \<Longrightarrow> list_all2 (root_fraction n) ps ws"
  by (induction n ms ps ws rule: rf_check.induct) (auto simp: root_fraction_def)

lemma sha_H0_fractions: "list_all2 (root_fraction 2) (take 8 first_primes) sha_H0"
  by (rule rf_check_sound [of _ "[1,1,2,2,3,3,4,4]"]) (simp add: first_primes_def sha_H0_def)

lemma sha_K_fractions: "list_all2 (root_fraction 3) first_primes sha_K"
  by (rule rf_check_sound [of _ "[1, 1, 1, 1, 2, 2, 2, 2, 2, 3, 3, 3, 3, 3, 3, 3, 3, 3, 4, 4, 4, 4, 4, 4, 4, 4, 4, 4, 4, 4, 5, 5, 5, 5, 5, 5, 5, 5, 5, 5, 5, 5, 5, 5, 5, 5, 5, 6, 6, 6, 6, 6, 6, 6, 6, 6, 6, 6, 6, 6, 6, 6, 6, 6, 6, 6, 6, 6, 7, 7, 7, 7, 7, 7, 7, 7, 7, 7, 7, 7]"]) (simp add: first_primes_def sha_K_def)

end
