(* ===== verification/Aes.thy ===== *)
theory Aes
  imports Octets
begin

unbundle bit_operations_syntax

text \<open>
  core/src/crypto/aes.c, as it is compiled (\<^verbatim>\<open>AES_DECRYPTION\<close> is 0): generation of the static
  tables, the key schedule and the table-driven cipher. The static tables are a record that the
  initialisation fills; C's \<^verbatim>\<open>int\<close> locals are integers, \<^verbatim>\<open>uint32_t\<close> values are 32-bit words. The
  context's pointer \<^verbatim>\<open>rk\<close> is the offset into the context's own buffer, or null.
\<close>

section \<open>Static tables\<close>

record aes_tables =
  aes_tables_inited :: bool
  FSb :: "byte list"
  FT0 :: "32 word list"
  FT1 :: "32 word list"
  FT2 :: "32 word list"
  FT3 :: "32 word list"
  RCON :: "32 word list"

text \<open>Static storage is zero before the first call.\<close>

definition aes_tables_static :: aes_tables where
  "aes_tables_static = \<lparr>aes_tables_inited = False, FSb = replicate 256 0, FT0 = replicate 256 0,
     FT1 = replicate 256 0, FT2 = replicate 256 0, FT3 = replicate 256 0, RCON = replicate 10 0\<rparr>"

definition XTIME :: "int \<Rightarrow> int" where
  "XTIME x = push_bit 1 x XOR (if x AND 0x80 \<noteq> 0 then 0x1B else 0x00)"

definition ROTL8 :: "32 word \<Rightarrow> 32 word" where
  "ROTL8 x = (push_bit 8 x AND 0xFFFFFFFF) OR drop_bit 24 x"

definition MIX :: "int \<times> int \<Rightarrow> int \<times> int" where
  "MIX = (\<lambda>(x, y). let y = (push_bit 1 y OR drop_bit 7 y) AND 0xFF in (x XOR y, y))"

text \<open>The bodies of the four loops of \<^verbatim>\<open>aes_init_keygen_tables\<close>.\<close>

definition pow_log_step :: "nat \<Rightarrow> int list \<times> int list \<times> int \<Rightarrow> int list \<times> int list \<times> int" where
  "pow_log_step i = (\<lambda>(pow, log, x). (pow[i := x], log[nat x := int i], (x XOR XTIME x) AND 0xFF))"

definition rcon_step :: "nat \<Rightarrow> 32 word list \<times> int \<Rightarrow> 32 word list \<times> int" where
  "rcon_step i = (\<lambda>(rcon, x). (rcon[i := word_of_int x], XTIME x AND 0xFF))"

definition sbox_step :: "int list \<Rightarrow> int list \<Rightarrow> nat \<Rightarrow> byte list \<Rightarrow> byte list" where
  "sbox_step pow log i sb =
     (let x = pow ! nat (255 - log ! i) in
      case MIX (MIX (MIX (MIX (x, x)))) of (x, y) \<Rightarrow> sb[i := word_of_int (x XOR 0x63)])"

definition ft0_entry :: "byte list \<Rightarrow> nat \<Rightarrow> 32 word" where
  "ft0_entry sb i =
     (let x = uint (sb ! i); y = XTIME x AND 0xFF; z = (y XOR x) AND 0xFF in
      word_of_int y XOR push_bit 8 (word_of_int x) XOR push_bit 16 (word_of_int x) XOR
      push_bit 24 (word_of_int z))"

definition ft_step :: "nat \<Rightarrow> aes_tables \<Rightarrow> aes_tables" where
  "ft_step i t =
     (let f0 = ft0_entry (FSb t) i; f1 = ROTL8 f0; f2 = ROTL8 f1; f3 = ROTL8 f2 in
      t\<lparr>FT0 := (FT0 t)[i := f0], FT1 := (FT1 t)[i := f1], FT2 := (FT2 t)[i := f2],
        FT3 := (FT3 t)[i := f3]\<rparr>)"

definition pow_log_tables :: "int list \<times> int list" where
  "pow_log_tables =
     (case fold pow_log_step [0..<256] (replicate 256 0, replicate 256 0, 1) of
        (pow, log, _) \<Rightarrow> (pow, log))"

definition sbox_table :: "byte list \<Rightarrow> byte list" where
  "sbox_table sb = (case pow_log_tables of (pow, log) \<Rightarrow>
     fold (sbox_step pow log) [1..<256] (sb[0 := 0x63]))"

definition rcon_table :: "32 word list \<Rightarrow> 32 word list" where
  "rcon_table rcon = fst (fold rcon_step [0..<10] (rcon, 1))"

definition aes_init_keygen_tables :: "aes_tables \<Rightarrow> aes_tables" where
  "aes_init_keygen_tables t =
     (if aes_tables_inited t then t
      else (fold ft_step [0..<256] (t\<lparr>RCON := rcon_table (RCON t), FSb := sbox_table (FSb t)\<rparr>))
             \<lparr>aes_tables_inited := True\<rparr>)"

section \<open>Context and key schedule\<close>

definition ENCRYPT :: int where
  "ENCRYPT = 1"

definition DECRYPT :: int where
  "DECRYPT = 0"

record aes_context =
  aes_mode :: int
  aes_rounds :: nat
  aes_rk :: "nat option"
  aes_buf :: "32 word list"

definition GET_UINT32_LE :: "bytes \<Rightarrow> nat \<Rightarrow> 32 word" where
  "GET_UINT32_LE b i = ucast (b ! i) OR push_bit 8 (ucast (b ! (i + 1))) OR
     push_bit 16 (ucast (b ! (i + 2))) OR push_bit 24 (ucast (b ! (i + 3)))"

definition PUT_UINT32_LE :: "32 word \<Rightarrow> bytes" where
  "PUT_UINT32_LE n = [ucast n, ucast (drop_bit 8 n), ucast (drop_bit 16 n), ucast (drop_bit 24 n)]"

text \<open>A substituted byte of a word, as all the table accesses of the key schedule and of the last
  round write it.\<close>

definition sb_at :: "aes_tables \<Rightarrow> 32 word \<Rightarrow> nat \<Rightarrow> 32 word" where
  "sb_at t w k = ucast (FSb t ! unat (drop_bit k w AND 0xFF))"

definition rot_sub :: "aes_tables \<Rightarrow> 32 word \<Rightarrow> 32 word" where
  "rot_sub t w = sb_at t w 8 XOR push_bit 8 (sb_at t w 16) XOR push_bit 16 (sb_at t w 24) XOR
     push_bit 24 (sb_at t w 0)"

definition sub_word :: "aes_tables \<Rightarrow> 32 word \<Rightarrow> 32 word" where
  "sub_word t w = sb_at t w 0 XOR push_bit 8 (sb_at t w 8) XOR push_bit 16 (sb_at t w 16) XOR
     push_bit 24 (sb_at t w 24)"

text \<open>\<^verbatim>\<open>RK[k + n] = RK[k] ^ RK[k + n - 1]\<close> for the pointer \<^verbatim>\<open>RK\<close> at offset \<^verbatim>\<open>rk\<close>.\<close>

definition xor_prev :: "nat \<Rightarrow> nat \<Rightarrow> nat \<Rightarrow> 32 word list \<Rightarrow> 32 word list" where
  "xor_prev rk n k buf = buf[rk + k + n := buf ! (rk + k) XOR buf ! (rk + k + n - 1)]"

definition key_first :: "aes_tables \<Rightarrow> nat \<Rightarrow> nat \<Rightarrow> nat \<Rightarrow> 32 word list \<Rightarrow> 32 word list" where
  "key_first t rk n i buf =
     buf[rk + n := buf ! rk XOR RCON t ! i XOR rot_sub t (buf ! (rk + n - 1))]"

definition key_step10 :: "aes_tables \<Rightarrow> nat \<Rightarrow> 32 word list \<Rightarrow> 32 word list" where
  "key_step10 t i buf = (let rk = 4 * i in
     xor_prev rk 4 3 (xor_prev rk 4 2 (xor_prev rk 4 1 (key_first t rk 4 i buf))))"

definition key_step12 :: "aes_tables \<Rightarrow> nat \<Rightarrow> 32 word list \<Rightarrow> 32 word list" where
  "key_step12 t i buf = (let rk = 6 * i in
     xor_prev rk 6 5 (xor_prev rk 6 4 (xor_prev rk 6 3 (xor_prev rk 6 2 (xor_prev rk 6 1
       (key_first t rk 6 i buf))))))"

definition key_mid14 :: "aes_tables \<Rightarrow> nat \<Rightarrow> 32 word list \<Rightarrow> 32 word list" where
  "key_mid14 t rk buf = buf[rk + 12 := buf ! (rk + 4) XOR sub_word t (buf ! (rk + 11))]"

definition key_step14 :: "aes_tables \<Rightarrow> nat \<Rightarrow> 32 word list \<Rightarrow> 32 word list" where
  "key_step14 t i buf = (let rk = 8 * i in
     xor_prev rk 8 7 (xor_prev rk 8 6 (xor_prev rk 8 5 (key_mid14 t rk
       (xor_prev rk 8 3 (xor_prev rk 8 2 (xor_prev rk 8 1 (key_first t rk 8 i buf))))))))"

definition load_key :: "bytes \<Rightarrow> nat \<Rightarrow> 32 word list \<Rightarrow> 32 word list" where
  "load_key key keysize buf =
     fold (\<lambda>i buf. buf[i := GET_UINT32_LE key (4 * i)]) [0..<keysize div 4] buf"

definition aes_set_encryption_key ::
  "aes_tables \<Rightarrow> aes_context \<Rightarrow> bytes \<Rightarrow> nat \<Rightarrow> int \<times> aes_context" where
  "aes_set_encryption_key t ctx key keysize =
     (let buf = load_key key keysize (aes_buf ctx) in
      if aes_rounds ctx = 10 then (0, ctx\<lparr>aes_buf := fold (key_step10 t) [0..<10] buf\<rparr>)
      else if aes_rounds ctx = 12 then (0, ctx\<lparr>aes_buf := fold (key_step12 t) [0..<8] buf\<rparr>)
      else if aes_rounds ctx = 14 then (0, ctx\<lparr>aes_buf := fold (key_step14 t) [0..<7] buf\<rparr>)
      else (-1, ctx\<lparr>aes_buf := buf\<rparr>))"

definition aes_setkey ::
  "aes_tables \<Rightarrow> aes_context \<Rightarrow> int \<Rightarrow> bytes \<Rightarrow> nat \<Rightarrow> int \<times> aes_context" where
  "aes_setkey t ctx mode key keysize =
     (if \<not> aes_tables_inited t then (-1, ctx)
      else (let ctx1 = ctx\<lparr>aes_mode := mode, aes_rk := Some 0\<rparr> in
        if keysize = 16 then aes_set_encryption_key t (ctx1\<lparr>aes_rounds := 10\<rparr>) key keysize
        else if keysize = 24 then aes_set_encryption_key t (ctx1\<lparr>aes_rounds := 12\<rparr>) key keysize
        else if keysize = 32 then aes_set_encryption_key t (ctx1\<lparr>aes_rounds := 14\<rparr>) key keysize
        else (-1, ctx1)))"

section \<open>The cipher\<close>

type_synonym aes_block = "32 word \<times> 32 word \<times> 32 word \<times> 32 word"

definition ft_word :: "aes_tables \<Rightarrow> 32 word \<Rightarrow> 32 word \<Rightarrow> 32 word \<Rightarrow> 32 word \<Rightarrow> 32 word" where
  "ft_word t y0 y1 y2 y3 = FT0 t ! unat (y0 AND 0xFF) XOR FT1 t ! unat (drop_bit 8 y1 AND 0xFF) XOR
     FT2 t ! unat (drop_bit 16 y2 AND 0xFF) XOR FT3 t ! unat (drop_bit 24 y3 AND 0xFF)"

text \<open>The macro, with the four round key words at the pointer \<^verbatim>\<open>RK\<close>.\<close>

definition AES_FROUND :: "aes_tables \<Rightarrow> 32 word list \<Rightarrow> nat \<Rightarrow> aes_block \<Rightarrow> aes_block" where
  "AES_FROUND t buf rk = (\<lambda>(y0, y1, y2, y3).
     (buf ! rk XOR ft_word t y0 y1 y2 y3,
      buf ! (rk + 1) XOR ft_word t y1 y2 y3 y0,
      buf ! (rk + 2) XOR ft_word t y2 y3 y0 y1,
      buf ! (rk + 3) XOR ft_word t y3 y0 y1 y2))"

fun fround_pairs :: "aes_tables \<Rightarrow> 32 word list \<Rightarrow> nat \<Rightarrow> nat \<Rightarrow> aes_block \<Rightarrow> nat \<times> aes_block" where
  "fround_pairs t buf 0 rk x = (rk, x)"
| "fround_pairs t buf (Suc i) rk x =
     fround_pairs t buf i (rk + 8) (AES_FROUND t buf (rk + 4) (AES_FROUND t buf rk x))"

definition sb_word :: "aes_tables \<Rightarrow> 32 word \<Rightarrow> 32 word \<Rightarrow> 32 word \<Rightarrow> 32 word \<Rightarrow> 32 word" where
  "sb_word t y0 y1 y2 y3 = sb_at t y0 0 XOR push_bit 8 (sb_at t y1 8) XOR push_bit 16 (sb_at t y2 16) XOR
     push_bit 24 (sb_at t y3 24)"

definition last_round :: "aes_tables \<Rightarrow> 32 word list \<Rightarrow> nat \<Rightarrow> aes_block \<Rightarrow> aes_block" where
  "last_round t buf rk = (\<lambda>(y0, y1, y2, y3).
     (buf ! rk XOR sb_word t y0 y1 y2 y3,
      buf ! (rk + 1) XOR sb_word t y1 y2 y3 y0,
      buf ! (rk + 2) XOR sb_word t y2 y3 y0 y1,
      buf ! (rk + 3) XOR sb_word t y3 y0 y1 y2))"

text \<open>\<^term>\<open>None\<close> is the null pointer \<^verbatim>\<open>rk\<close> of a context whose key was never set.\<close>

definition aes_cipher :: "aes_tables \<Rightarrow> aes_context \<Rightarrow> bytes \<Rightarrow> bytes option" where
  "aes_cipher t ctx input = (case aes_rk ctx of
     None \<Rightarrow> None
   | Some rk \<Rightarrow>
       (let buf = aes_buf ctx;
            x = (GET_UINT32_LE input 0 XOR buf ! rk, GET_UINT32_LE input 4 XOR buf ! (rk + 1),
                 GET_UINT32_LE input 8 XOR buf ! (rk + 2), GET_UINT32_LE input 12 XOR buf ! (rk + 3))
        in case fround_pairs t buf (aes_rounds ctx div 2 - 1) (rk + 4) x of
          (rk, x) \<Rightarrow> (case last_round t buf (rk + 4) (AES_FROUND t buf rk x) of
            (x0, x1, x2, x3) \<Rightarrow>
              Some (PUT_UINT32_LE x0 @ PUT_UINT32_LE x1 @ PUT_UINT32_LE x2 @ PUT_UINT32_LE x3))))"

end
