(* ===== verification/Gcm.thy ===== *)
theory Gcm
  imports Aes
begin

unbundle bit_operations_syntax

text \<open>
  core/src/crypto/gcm.c: AES-GCM with Shoup's four-bit tables. The context is a record that holds
  the AES context; the static AES tables are an argument. \<^verbatim>\<open>uint32_t\<close> lengths are 32-bit words.
  The input and output buffers are lists: every byte of the input is read before the byte of the
  output at the same place is written, so in-place operation gives the same result. An operation is
  \<^term>\<open>None\<close> when it would use the null round key pointer of a context without a key.
\<close>

section \<open>Context and byte order\<close>

record gcm_context =
  gcm_mode :: int
  gcm_len :: "32 word"
  gcm_add_len :: "32 word"
  base_ectr :: bytes
  HL :: "64 word list"
  HH :: "64 word list"
  gcm_y :: bytes
  gcm_buf :: bytes
  aes_ctx :: aes_context

text \<open>All bytes zero: what \<^verbatim>\<open>memset\<close> makes of a context.\<close>

definition gcm_zero_ctx :: gcm_context where
  "gcm_zero_ctx = \<lparr>gcm_mode = 0, gcm_len = 0, gcm_add_len = 0, base_ectr = replicate 16 0,
     HL = replicate 16 0, HH = replicate 16 0, gcm_y = replicate 16 0, gcm_buf = replicate 16 0,
     aes_ctx = \<lparr>aes_mode = 0, aes_rounds = 0, aes_rk = None, aes_buf = replicate 68 0\<rparr>\<rparr>"

definition last4 :: "64 word list" where
  "last4 = [0x0000, 0x1c20, 0x3840, 0x2460, 0x7080, 0x6ca0, 0x48c0, 0x54e0,
            0xe100, 0xfd20, 0xd940, 0xc560, 0x9180, 0x8da0, 0xa9c0, 0xb5e0]"

definition GET_UINT32_BE :: "bytes \<Rightarrow> nat \<Rightarrow> 64 word" where
  "GET_UINT32_BE b i = push_bit 24 (ucast (b ! i)) OR push_bit 16 (ucast (b ! (i + 1))) OR
     push_bit 8 (ucast (b ! (i + 2))) OR ucast (b ! (i + 3))"

definition PUT_UINT32_BE :: "64 word \<Rightarrow> bytes" where
  "PUT_UINT32_BE n = [ucast (drop_bit 24 n), ucast (drop_bit 16 n), ucast (drop_bit 8 n), ucast n]"

definition gcm_initialize :: "aes_tables \<Rightarrow> int \<times> aes_tables" where
  "gcm_initialize t = (0, aes_init_keygen_tables t)"

section \<open>Multiplication by the hash key\<close>

text \<open>Four bits to the right with reduction, then the table entry of the next four bits.\<close>

definition mult_shift :: "64 word \<times> 64 word \<Rightarrow> 64 word \<times> 64 word" where
  "mult_shift = (\<lambda>(zh, zl). let rem = zl AND 0x0f in
     (drop_bit 4 zh XOR push_bit 48 (last4 ! unat rem), push_bit 60 zh OR drop_bit 4 zl))"

definition mult_add :: "gcm_context \<Rightarrow> byte \<Rightarrow> 64 word \<times> 64 word \<Rightarrow> 64 word \<times> 64 word" where
  "mult_add ctx n = (\<lambda>(zh, zl). (zh XOR HH ctx ! unat n, zl XOR HL ctx ! unat n))"

text \<open>The loop body for byte \<^verbatim>\<open>x[i]\<close>; the last byte skips the first half.\<close>

definition mult_step :: "gcm_context \<Rightarrow> bytes \<Rightarrow> nat \<Rightarrow> 64 word \<times> 64 word \<Rightarrow> 64 word \<times> 64 word" where
  "mult_step ctx x i z =
     (let lo = x ! i AND 0x0f; hi = drop_bit 4 (x ! i);
          z1 = (if i \<noteq> 15 then mult_add ctx lo (mult_shift z) else z)
      in mult_add ctx hi (mult_shift z1))"

definition gcm_mult :: "gcm_context \<Rightarrow> bytes \<Rightarrow> bytes" where
  "gcm_mult ctx x =
     (let lo = x ! 15 AND 0x0f in
      case fold (mult_step ctx x) (rev [0..<16]) (HH ctx ! unat lo, HL ctx ! unat lo) of
        (zh, zl) \<Rightarrow> PUT_UINT32_BE (drop_bit 32 zh) @ PUT_UINT32_BE zh @
                    PUT_UINT32_BE (drop_bit 32 zl) @ PUT_UINT32_BE zl)"

section \<open>Key\<close>

definition table_shift :: "64 word \<times> 64 word \<Rightarrow> 64 word \<times> 64 word" where
  "table_shift = (\<lambda>(vh, vl). let T = (ucast (vl AND 1) :: 32 word) * 0xe1000000 in
     (drop_bit 1 vh XOR push_bit 32 (ucast T), push_bit 63 vh OR drop_bit 1 vl))"

text \<open>\<^verbatim>\<open>for (i = 4; i > 0; i >>= 1)\<close>: entries 4, 2 and 1.\<close>

definition table_pow :: "nat \<Rightarrow> (64 word \<times> 64 word) \<times> 64 word list \<times> 64 word list \<Rightarrow>
    (64 word \<times> 64 word) \<times> 64 word list \<times> 64 word list" where
  "table_pow i = (\<lambda>(v, hh, hl). let v' = table_shift v in (v', hh[i := fst v'], hl[i := snd v']))"

text \<open>\<^verbatim>\<open>for (i = 2; i < 16; i <<= 1)\<close>: the sums of entry \<^verbatim>\<open>i\<close> with the entries below it.\<close>

definition table_sums :: "nat \<Rightarrow> 64 word list \<Rightarrow> 64 word list" where
  "table_sums i h = (let v = h ! i in fold (\<lambda>j h. h[i + j := v XOR h ! j]) [1..<i] h)"

definition gcm_tables :: "bytes \<Rightarrow> 64 word list \<Rightarrow> 64 word list \<Rightarrow> 64 word list \<times> 64 word list" where
  "gcm_tables h hh hl =
     (let vh = push_bit 32 (GET_UINT32_BE h 0) OR GET_UINT32_BE h 4;
          vl = push_bit 32 (GET_UINT32_BE h 8) OR GET_UINT32_BE h 12
      in case fold table_pow [4, 2, 1] ((vh, vl), hh[8 := vh, 0 := 0], hl[8 := vl, 0 := 0]) of
        (_, hh, hl) \<Rightarrow> (fold table_sums [2, 4, 8] hh, fold table_sums [2, 4, 8] hl))"

definition gcm_setkey ::
  "aes_tables \<Rightarrow> gcm_context \<Rightarrow> bytes \<Rightarrow> nat \<Rightarrow> (int \<times> gcm_context) option" where
  "gcm_setkey t ctx key keysize =
     (let ctx0 = gcm_zero_ctx in
      case aes_setkey t (aes_ctx ctx0) ENCRYPT key keysize of (ret, actx) \<Rightarrow>
        let ctx1 = ctx0\<lparr>aes_ctx := actx\<rparr> in
        if ret \<noteq> 0 then Some (ret, ctx1)
        else (case aes_cipher t actx (replicate 16 0) of
            None \<Rightarrow> None
          | Some h \<Rightarrow> (case gcm_tables h (HH ctx1) (HL ctx1) of
              (hh, hl) \<Rightarrow> Some (0, ctx1\<lparr>HH := hh, HL := hl\<rparr>))))"

section \<open>Messages\<close>

text \<open>\<^verbatim>\<open>for (i = 0; i < use_len; i++) a[i] ^= p[i]\<close>\<close>

definition xor_into :: "bytes \<Rightarrow> bytes \<Rightarrow> bytes" where
  "xor_into a p = map2 (XOR) (take (length p) a) p @ drop (length p) a"

text \<open>The loops over the initialization vector and the additional data.\<close>

function ghash_loop :: "gcm_context \<Rightarrow> bytes \<Rightarrow> bytes \<Rightarrow> bytes" where
  "ghash_loop ctx acc p =
     (if p = [] then acc
      else ghash_loop ctx (gcm_mult ctx (xor_into acc (take 16 p))) (drop 16 p))"
  by pat_completeness auto
termination
  by (relation "measure (\<lambda>(ctx, acc, p). length p)") auto

declare ghash_loop.simps [simp del]

definition start_y :: "gcm_context \<Rightarrow> bytes \<Rightarrow> bytes" where
  "start_y ctx iv =
     (if length iv = 12 then (iv @ drop 12 (replicate 16 0))[15 := 1]
      else (let work_buf = replicate 12 0 @ PUT_UINT32_BE (of_nat (length iv) * 8);
                y = ghash_loop ctx (replicate 16 0) iv
            in gcm_mult ctx (xor_into y work_buf)))"

definition gcm_start ::
  "aes_tables \<Rightarrow> gcm_context \<Rightarrow> int \<Rightarrow> bytes \<Rightarrow> bytes \<Rightarrow> gcm_context option" where
  "gcm_start t ctx mode iv add =
     (let ctx1 = ctx\<lparr>gcm_len := 0, gcm_mode := mode, aes_ctx := (aes_ctx ctx)\<lparr>aes_mode := ENCRYPT\<rparr>,
                     gcm_y := start_y ctx iv\<rparr>
      in case aes_cipher t (aes_ctx ctx1) (gcm_y ctx1) of
        None \<Rightarrow> None
      | Some e \<Rightarrow> Some (ctx1\<lparr>base_ectr := e, gcm_add_len := of_nat (length add),
          gcm_buf := ghash_loop ctx1 (replicate 16 0) add\<rparr>))"

text \<open>\<^verbatim>\<open>for (i = 16; i > 12; i--) if (++y[i - 1] != 0) break;\<close>\<close>

fun incr_counter :: "nat \<Rightarrow> bytes \<Rightarrow> bytes" where
  "incr_counter 0 y = y"
| "incr_counter (Suc n) y =
     (let i = 12 + Suc n; y' = y[i - 1 := y ! (i - 1) + 1] in
      if y' ! (i - 1) \<noteq> 0 then y' else incr_counter n y')"

function update_loop ::
  "aes_tables \<Rightarrow> gcm_context \<Rightarrow> bytes \<Rightarrow> bytes \<Rightarrow> (bytes \<times> gcm_context) option" where
  "update_loop t ctx input output =
     (if input = [] then Some (output, ctx)
      else let chunk = take 16 input; y = incr_counter 4 (gcm_y ctx) in
        case aes_cipher t (aes_ctx ctx) y of
          None \<Rightarrow> None
        | Some ectr \<Rightarrow>
            let out = map2 (XOR) ectr chunk;
                buf = xor_into (gcm_buf ctx) (if gcm_mode ctx = ENCRYPT then out else chunk)
            in update_loop t (ctx\<lparr>gcm_y := y, gcm_buf := gcm_mult ctx buf\<rparr>) (drop 16 input) (output @ out))"
  by pat_completeness auto
termination
  by (relation "measure (\<lambda>(t, ctx, input, output). length input)") auto

declare update_loop.simps [simp del]

definition gcm_update :: "aes_tables \<Rightarrow> gcm_context \<Rightarrow> bytes \<Rightarrow> (bytes \<times> gcm_context) option" where
  "gcm_update t ctx input =
     update_loop t (ctx\<lparr>gcm_len := gcm_len ctx + of_nat (length input)\<rparr>) input []"

text \<open>The multiplications by eight are in 32 bits.\<close>

definition gcm_finish :: "gcm_context \<Rightarrow> nat \<Rightarrow> bytes \<times> gcm_context" where
  "gcm_finish ctx tag_len =
     (let orig_len = ucast (gcm_len ctx * 8) :: 64 word;
          orig_add_len = ucast (gcm_add_len ctx * 8) :: 64 word;
          tag = take tag_len (base_ectr ctx)
      in if orig_len \<noteq> 0 \<or> orig_add_len \<noteq> 0 then
           (let work_buf = PUT_UINT32_BE (drop_bit 32 orig_add_len) @ PUT_UINT32_BE orig_add_len @
                           PUT_UINT32_BE (drop_bit 32 orig_len) @ PUT_UINT32_BE orig_len;
                buf = gcm_mult ctx (xor_into (gcm_buf ctx) work_buf)
            in (map2 (XOR) tag (take tag_len buf), ctx\<lparr>gcm_buf := buf\<rparr>))
         else (tag, ctx))"

definition gcm_crypt_and_tag ::
  "aes_tables \<Rightarrow> gcm_context \<Rightarrow> int \<Rightarrow> bytes \<Rightarrow> bytes \<Rightarrow> bytes \<Rightarrow> nat \<Rightarrow> (bytes \<times> bytes \<times> gcm_context) option" where
  "gcm_crypt_and_tag t ctx mode iv add input tag_len = (case gcm_start t ctx mode iv add of
     None \<Rightarrow> None
   | Some ctx1 \<Rightarrow> (case gcm_update t ctx1 input of
       None \<Rightarrow> None
     | Some (output, ctx2) \<Rightarrow> (case gcm_finish ctx2 tag_len of (tag, ctx3) \<Rightarrow> Some (output, tag, ctx3))))"

definition GCM_AUTH_FAILURE :: int where
  "GCM_AUTH_FAILURE = 0x55555555"

text \<open>The comparison accumulates the differences of all bytes.\<close>

definition tag_diff :: "bytes \<Rightarrow> bytes \<Rightarrow> byte" where
  "tag_diff tag check_tag = fold (\<lambda>(a, b) d. d OR (a XOR b)) (zip tag check_tag) 0"

definition gcm_auth_decrypt ::
  "aes_tables \<Rightarrow> gcm_context \<Rightarrow> bytes \<Rightarrow> bytes \<Rightarrow> bytes \<Rightarrow> bytes \<Rightarrow> (int \<times> bytes \<times> gcm_context) option" where
  "gcm_auth_decrypt t ctx iv add input tag =
     (case gcm_crypt_and_tag t ctx DECRYPT iv add input (length tag) of
        None \<Rightarrow> None
      | Some (output, check_tag, ctx') \<Rightarrow>
          if tag_diff tag check_tag \<noteq> 0 then Some (GCM_AUTH_FAILURE, replicate (length input) 0, ctx')
          else Some (0, output, ctx'))"

end
