(* ===== verification/Aes_Spec.thy ===== *)
theory Aes_Spec
  imports Aes
begin

unbundle bit_operations_syntax

text \<open>
  AES as FIPS 197 defines it, on the sixteen bytes of the state, and the proof that the generated
  tables, the key schedule and the table-driven rounds of aes.c compute it for the three key sizes.
\<close>

section \<open>FIPS 197\<close>

text \<open>The S-box of the standard.\<close>

definition fips_sbox :: "byte list" where
  "fips_sbox = [
     0x63, 0x7c, 0x77, 0x7b, 0xf2, 0x6b, 0x6f, 0xc5, 0x30, 0x01, 0x67, 0x2b, 0xfe, 0xd7, 0xab, 0x76,
     0xca, 0x82, 0xc9, 0x7d, 0xfa, 0x59, 0x47, 0xf0, 0xad, 0xd4, 0xa2, 0xaf, 0x9c, 0xa4, 0x72, 0xc0,
     0xb7, 0xfd, 0x93, 0x26, 0x36, 0x3f, 0xf7, 0xcc, 0x34, 0xa5, 0xe5, 0xf1, 0x71, 0xd8, 0x31, 0x15,
     0x04, 0xc7, 0x23, 0xc3, 0x18, 0x96, 0x05, 0x9a, 0x07, 0x12, 0x80, 0xe2, 0xeb, 0x27, 0xb2, 0x75,
     0x09, 0x83, 0x2c, 0x1a, 0x1b, 0x6e, 0x5a, 0xa0, 0x52, 0x3b, 0xd6, 0xb3, 0x29, 0xe3, 0x2f, 0x84,
     0x53, 0xd1, 0x00, 0xed, 0x20, 0xfc, 0xb1, 0x5b, 0x6a, 0xcb, 0xbe, 0x39, 0x4a, 0x4c, 0x58, 0xcf,
     0xd0, 0xef, 0xaa, 0xfb, 0x43, 0x4d, 0x33, 0x85, 0x45, 0xf9, 0x02, 0x7f, 0x50, 0x3c, 0x9f, 0xa8,
     0x51, 0xa3, 0x40, 0x8f, 0x92, 0x9d, 0x38, 0xf5, 0xbc, 0xb6, 0xda, 0x21, 0x10, 0xff, 0xf3, 0xd2,
     0xcd, 0x0c, 0x13, 0xec, 0x5f, 0x97, 0x44, 0x17, 0xc4, 0xa7, 0x7e, 0x3d, 0x64, 0x5d, 0x19, 0x73,
     0x60, 0x81, 0x4f, 0xdc, 0x22, 0x2a, 0x90, 0x88, 0x46, 0xee, 0xb8, 0x14, 0xde, 0x5e, 0x0b, 0xdb,
     0xe0, 0x32, 0x3a, 0x0a, 0x49, 0x06, 0x24, 0x5c, 0xc2, 0xd3, 0xac, 0x62, 0x91, 0x95, 0xe4, 0x79,
     0xe7, 0xc8, 0x37, 0x6d, 0x8d, 0xd5, 0x4e, 0xa9, 0x6c, 0x56, 0xf4, 0xea, 0x65, 0x7a, 0xae, 0x08,
     0xba, 0x78, 0x25, 0x2e, 0x1c, 0xa6, 0xb4, 0xc6, 0xe8, 0xdd, 0x74, 0x1f, 0x4b, 0xbd, 0x8b, 0x8a,
     0x70, 0x3e, 0xb5, 0x66, 0x48, 0x03, 0xf6, 0x0e, 0x61, 0x35, 0x57, 0xb9, 0x86, 0xc1, 0x1d, 0x9e,
     0xe1, 0xf8, 0x98, 0x11, 0x69, 0xd9, 0x8e, 0x94, 0x9b, 0x1e, 0x87, 0xe9, 0xce, 0x55, 0x28, 0xdf,
     0x8c, 0xa1, 0x89, 0x0d, 0xbf, 0xe6, 0x42, 0x68, 0x41, 0x99, 0x2d, 0x0f, 0xb0, 0x54, 0xbb, 0x16]"

definition xtime :: "byte \<Rightarrow> byte" where
  "xtime b = push_bit 1 b XOR (if bit b 7 then 0x1B else 0)"

definition sub_byte :: "byte \<Rightarrow> byte" where
  "sub_byte b = fips_sbox ! unat b"

definition sub_bytes :: "bytes \<Rightarrow> bytes" where
  "sub_bytes s = map sub_byte s"

text \<open>The state is stored by columns: row r of column c is byte r + 4 c.\<close>

definition shift_rows :: "bytes \<Rightarrow> bytes" where
  "shift_rows s = map (\<lambda>i. s ! ((i + 4 * (i mod 4)) mod 16)) [0..<16]"

definition mix_column :: "byte \<Rightarrow> byte \<Rightarrow> byte \<Rightarrow> byte \<Rightarrow> bytes" where
  "mix_column a b c d =
     [xtime a XOR (xtime b XOR b) XOR c XOR d, a XOR xtime b XOR (xtime c XOR c) XOR d,
      a XOR b XOR xtime c XOR (xtime d XOR d), (xtime a XOR a) XOR b XOR c XOR xtime d]"

definition mix_columns :: "bytes \<Rightarrow> bytes" where
  "mix_columns s =
     concat (map (\<lambda>c. mix_column (s ! (4 * c)) (s ! (4 * c + 1)) (s ! (4 * c + 2)) (s ! (4 * c + 3))) [0..<4])"

definition xor_bytes :: "bytes \<Rightarrow> bytes \<Rightarrow> bytes" where
  "xor_bytes a b = map2 (XOR) a b"

fun fips_rcon :: "nat \<Rightarrow> byte" where
  "fips_rcon 0 = 1"
| "fips_rcon (Suc i) = xtime (fips_rcon i)"

text \<open>Word i of the key expansion for a key of Nk words.\<close>

function fips_key :: "nat \<Rightarrow> bytes \<Rightarrow> nat \<Rightarrow> bytes" where
  "fips_key Nk key i =
     (if i < Nk \<or> Nk = 0 then take 4 (drop (4 * i) key)
      else let temp = fips_key Nk key (i - 1);
               temp' = (if i mod Nk = 0 then
                          xor_bytes (map sub_byte (tl temp @ [hd temp])) [fips_rcon (i div Nk - 1), 0, 0, 0]
                        else if Nk > 6 \<and> i mod Nk = 4 then map sub_byte temp
                        else temp)
           in xor_bytes (fips_key Nk key (i - Nk)) temp')"
  by pat_completeness auto
termination
  by (relation "measure (\<lambda>(Nk, key, i). i)") auto

declare fips_key.simps [simp del]

definition round_key :: "(nat \<Rightarrow> bytes) \<Rightarrow> nat \<Rightarrow> bytes" where
  "round_key w r = w (4 * r) @ w (4 * r + 1) @ w (4 * r + 2) @ w (4 * r + 3)"

definition fips_round :: "(nat \<Rightarrow> bytes) \<Rightarrow> nat \<Rightarrow> bytes \<Rightarrow> bytes" where
  "fips_round w r s = xor_bytes (mix_columns (shift_rows (sub_bytes s))) (round_key w r)"

definition fips_cipher :: "nat \<Rightarrow> (nat \<Rightarrow> bytes) \<Rightarrow> bytes \<Rightarrow> bytes" where
  "fips_cipher Nr w input =
     xor_bytes (shift_rows (sub_bytes (fold (fips_round w) [1..<Nr] (xor_bytes input (round_key w 0)))))
       (round_key w Nr)"

section \<open>The generated tables\<close>

definition pow_lit :: "int list" where
  "pow_lit = [
     1, 3, 5, 15, 17, 51, 85, 255, 26, 46, 114, 150, 161, 248, 19, 53,
     95, 225, 56, 72, 216, 115, 149, 164, 247, 2, 6, 10, 30, 34, 102, 170,
     229, 52, 92, 228, 55, 89, 235, 38, 106, 190, 217, 112, 144, 171, 230, 49,
     83, 245, 4, 12, 20, 60, 68, 204, 79, 209, 104, 184, 211, 110, 178, 205,
     76, 212, 103, 169, 224, 59, 77, 215, 98, 166, 241, 8, 24, 40, 120, 136,
     131, 158, 185, 208, 107, 189, 220, 127, 129, 152, 179, 206, 73, 219, 118, 154,
     181, 196, 87, 249, 16, 48, 80, 240, 11, 29, 39, 105, 187, 214, 97, 163,
     254, 25, 43, 125, 135, 146, 173, 236, 47, 113, 147, 174, 233, 32, 96, 160,
     251, 22, 58, 78, 210, 109, 183, 194, 93, 231, 50, 86, 250, 21, 63, 65,
     195, 94, 226, 61, 71, 201, 64, 192, 91, 237, 44, 116, 156, 191, 218, 117,
     159, 186, 213, 100, 172, 239, 42, 126, 130, 157, 188, 223, 122, 142, 137, 128,
     155, 182, 193, 88, 232, 35, 101, 175, 234, 37, 111, 177, 200, 67, 197, 84,
     252, 31, 33, 99, 165, 244, 7, 9, 27, 45, 119, 153, 176, 203, 70, 202,
     69, 207, 74, 222, 121, 139, 134, 145, 168, 227, 62, 66, 198, 81, 243, 14,
     18, 54, 90, 238, 41, 123, 141, 140, 143, 138, 133, 148, 167, 242, 13, 23,
     57, 75, 221, 124, 132, 151, 162, 253, 28, 36, 108, 180, 199, 82, 246, 1]"
definition log_lit :: "int list" where
  "log_lit = [
     0, 255, 25, 1, 50, 2, 26, 198, 75, 199, 27, 104, 51, 238, 223, 3,
     100, 4, 224, 14, 52, 141, 129, 239, 76, 113, 8, 200, 248, 105, 28, 193,
     125, 194, 29, 181, 249, 185, 39, 106, 77, 228, 166, 114, 154, 201, 9, 120,
     101, 47, 138, 5, 33, 15, 225, 36, 18, 240, 130, 69, 53, 147, 218, 142,
     150, 143, 219, 189, 54, 208, 206, 148, 19, 92, 210, 241, 64, 70, 131, 56,
     102, 221, 253, 48, 191, 6, 139, 98, 179, 37, 226, 152, 34, 136, 145, 16,
     126, 110, 72, 195, 163, 182, 30, 66, 58, 107, 40, 84, 250, 133, 61, 186,
     43, 121, 10, 21, 155, 159, 94, 202, 78, 212, 172, 229, 243, 115, 167, 87,
     175, 88, 168, 80, 244, 234, 214, 116, 79, 174, 233, 213, 231, 230, 173, 232,
     44, 215, 117, 122, 235, 22, 11, 245, 89, 203, 95, 176, 156, 169, 81, 160,
     127, 12, 246, 111, 23, 196, 73, 236, 216, 67, 31, 45, 164, 118, 123, 183,
     204, 187, 62, 90, 251, 96, 177, 134, 59, 82, 161, 108, 170, 85, 41, 157,
     151, 178, 135, 144, 97, 190, 220, 252, 188, 149, 207, 205, 55, 63, 91, 209,
     83, 57, 132, 60, 65, 162, 109, 71, 20, 42, 158, 93, 86, 242, 211, 171,
     68, 17, 146, 217, 35, 32, 46, 137, 180, 124, 184, 38, 119, 153, 227, 165,
     103, 74, 237, 222, 197, 49, 254, 24, 13, 99, 140, 128, 192, 247, 112, 7]"
definition inv_lit :: "int list" where
  "inv_lit = [
     0, 1, 141, 246, 203, 82, 123, 209, 232, 79, 41, 192, 176, 225, 229, 199,
     116, 180, 170, 75, 153, 43, 96, 95, 88, 63, 253, 204, 255, 64, 238, 178,
     58, 110, 90, 241, 85, 77, 168, 201, 193, 10, 152, 21, 48, 68, 162, 194,
     44, 69, 146, 108, 243, 57, 102, 66, 242, 53, 32, 111, 119, 187, 89, 25,
     29, 254, 55, 103, 45, 49, 245, 105, 167, 100, 171, 19, 84, 37, 233, 9,
     237, 92, 5, 202, 76, 36, 135, 191, 24, 62, 34, 240, 81, 236, 97, 23,
     22, 94, 175, 211, 73, 166, 54, 67, 244, 71, 145, 223, 51, 147, 33, 59,
     121, 183, 151, 133, 16, 181, 186, 60, 182, 112, 208, 6, 161, 250, 129, 130,
     131, 126, 127, 128, 150, 115, 190, 86, 155, 158, 149, 217, 247, 2, 185, 164,
     222, 106, 50, 109, 216, 138, 132, 114, 42, 20, 159, 136, 249, 220, 137, 154,
     251, 124, 46, 195, 143, 184, 101, 72, 38, 200, 18, 74, 206, 231, 210, 98,
     12, 224, 31, 239, 17, 117, 120, 113, 165, 142, 118, 61, 189, 188, 134, 87,
     11, 40, 47, 163, 218, 212, 228, 15, 169, 39, 83, 4, 27, 252, 172, 230,
     122, 7, 174, 99, 197, 219, 226, 234, 148, 139, 196, 213, 157, 248, 144, 107,
     177, 13, 214, 235, 198, 14, 207, 173, 8, 78, 215, 227, 93, 80, 30, 179,
     91, 35, 56, 52, 104, 70, 3, 140, 221, 156, 125, 160, 205, 26, 65, 28]"
definition sb_lit :: "int list" where
  "sb_lit = [
     99, 124, 119, 123, 242, 107, 111, 197, 48, 1, 103, 43, 254, 215, 171, 118,
     202, 130, 201, 125, 250, 89, 71, 240, 173, 212, 162, 175, 156, 164, 114, 192,
     183, 253, 147, 38, 54, 63, 247, 204, 52, 165, 229, 241, 113, 216, 49, 21,
     4, 199, 35, 195, 24, 150, 5, 154, 7, 18, 128, 226, 235, 39, 178, 117,
     9, 131, 44, 26, 27, 110, 90, 160, 82, 59, 214, 179, 41, 227, 47, 132,
     83, 209, 0, 237, 32, 252, 177, 91, 106, 203, 190, 57, 74, 76, 88, 207,
     208, 239, 170, 251, 67, 77, 51, 133, 69, 249, 2, 127, 80, 60, 159, 168,
     81, 163, 64, 143, 146, 157, 56, 245, 188, 182, 218, 33, 16, 255, 243, 210,
     205, 12, 19, 236, 95, 151, 68, 23, 196, 167, 126, 61, 100, 93, 25, 115,
     96, 129, 79, 220, 34, 42, 144, 136, 70, 238, 184, 20, 222, 94, 11, 219,
     224, 50, 58, 10, 73, 6, 36, 92, 194, 211, 172, 98, 145, 149, 228, 121,
     231, 200, 55, 109, 141, 213, 78, 169, 108, 86, 244, 234, 101, 122, 174, 8,
     186, 120, 37, 46, 28, 166, 180, 198, 232, 221, 116, 31, 75, 189, 139, 138,
     112, 62, 181, 102, 72, 3, 246, 14, 97, 53, 87, 185, 134, 193, 29, 158,
     225, 248, 152, 17, 105, 217, 142, 148, 155, 30, 135, 233, 206, 85, 40, 223,
     140, 161, 137, 13, 191, 230, 66, 104, 65, 153, 45, 15, 176, 84, 187, 22]"
lemma pow_log_tables_eval: "pow_log_tables = (pow_lit, log_lit)"
  by code_simp

lemma inverse_eval: "map (\<lambda>i. pow_lit ! nat (255 - log_lit ! i)) [1..<256] = tl inv_lit"
  by code_simp

definition sbox_entry :: "int \<Rightarrow> int" where
  "sbox_entry x = fst (MIX (MIX (MIX (MIX (x, x))))) XOR 0x63"

lemma sbox_entry_eval: "map sbox_entry (tl inv_lit) = tl sb_lit"
  by code_simp

lemma sbox_words: "map word_of_int sb_lit = fips_sbox"
  unfolding sb_lit_def fips_sbox_def by simp

lemma sbox_step_entry:
  "sbox_step pow_lit log_lit i sb = sb[i := word_of_int (sbox_entry (pow_lit ! nat (255 - log_lit ! i)))]"
  by (simp add: sbox_step_def sbox_entry_def Let_def split: prod.split)


lemma sbox_table_fips: "length sb = 256 \<Longrightarrow> sbox_table sb = fips_sbox"
proof -
  assume len: "length sb = 256"
  let ?e = "\<lambda>i. word_of_int (sbox_entry (pow_lit ! nat (255 - log_lit ! i))) :: byte"
  have lits: "length sb_lit = 256" "sb_lit ! 0 = 0x63" by (simp_all add: sb_lit_def)
  have e: "?e i = fips_sbox ! i" if "1 \<le> i" "i < 256" for i
  proof -
    have "sbox_entry (pow_lit ! nat (255 - log_lit ! i)) = map sbox_entry (tl inv_lit) ! (i - 1)"
      using that by (simp flip: inverse_eval)
    also have "\<dots> = sb_lit ! i" using that lits by (simp add: sbox_entry_eval nth_tl)
    finally show ?thesis using that lits by (simp flip: sbox_words)
  qed
  have "sbox_table sb = fold (\<lambda>i xs. xs[i := ?e i]) [1..<256] (sb[0 := 0x63])"
    by (simp add: sbox_table_def pow_log_tables_eval sbox_step_entry [abs_def])
  moreover have "fips_sbox ! 0 = 0x63" using lits by (simp flip: sbox_words)
  ultimately show ?thesis using len e lits
    by (intro nth_equalityI) (auto simp: nth_fold_update Suc_le_eq sbox_words [symmetric] simp del: upt_rec_numeral)
qed

lemma rcon_eval: "rcon_table (replicate 10 0) = map (\<lambda>i. ucast (fips_rcon i)) [0..<10]"
  by code_simp

lemma rcon_fips: "i < 10 \<Longrightarrow> rcon_table (replicate 10 0) ! i = ucast (fips_rcon i)"
  by (simp add: rcon_eval del: upt_rec_numeral)

section \<open>Bytes of words\<close>

lemma PUT_xor: "PUT_UINT32_LE (a XOR b) = xor_bytes (PUT_UINT32_LE a) (PUT_UINT32_LE b)"
  by (simp add: PUT_UINT32_LE_def xor_bytes_def unsigned_xor_eq)

lemma PUT_pack:
  "PUT_UINT32_LE (ucast (a :: byte) XOR push_bit 8 (ucast (b :: byte)) XOR push_bit 16 (ucast (c :: byte)) XOR
     push_bit 24 (ucast (d :: byte))) = [a, b, c, d]"
  by (simp add: PUT_UINT32_LE_def) (intro conjI bit_word_eqI; auto simp: bit_simps bit_byte_ge)

lemma PUT_GET: "i + 4 \<le> length p \<Longrightarrow> PUT_UINT32_LE (GET_UINT32_LE p i) = take 4 (drop i p)"
proof -
  assume len: "i + 4 \<le> length p"
  have "PUT_UINT32_LE (GET_UINT32_LE p i) = [p ! i, p ! (i + 1), p ! (i + 2), p ! (i + 3)]"
    by (simp add: PUT_UINT32_LE_def GET_UINT32_LE_def)
      (intro conjI bit_word_eqI; auto simp: bit_simps bit_byte_ge)
  moreover have "take 4 (drop i p) = [p ! i, p ! (i + 1), p ! (i + 2), p ! (i + 3)]"
    using len by (intro nth_equalityI) (auto simp: numeral_eq_Suc less_Suc_eq)
  ultimately show ?thesis by simp
qed

lemma ROTL8_or: "ROTL8 x = push_bit 8 x OR drop_bit 24 x"
proof -
  have "(0xFFFFFFFF :: 32 word) = - 1" by simp
  then show ?thesis by (simp only: ROTL8_def and.right_neutral)
qed

lemma PUT_ROTL8: "PUT_UINT32_LE w = [a, b, c, d] \<Longrightarrow> PUT_UINT32_LE (ROTL8 w) = [d, a, b, c]"
  by (auto simp: PUT_UINT32_LE_def ROTL8_or) (intro bit_word_eqI; auto simp: bit_simps dest: bit_imp_le_length)+

lemma index_octet: "unat (drop_bit k w AND 0xFF) = unat (ucast (drop_bit k (w :: 32 word)) :: byte)"
proof -
  have "drop_bit k w AND 0xFF = take_bit 8 (drop_bit k w)"
    by (simp add: take_bit_eq_mask mask_eq_exp_minus_1)
  then show ?thesis by (simp only: unsigned_take_bit_eq unsigned_ucast_eq) simp
qed

lemma index_octet0: "unat (w AND 0xFF) = unat (ucast (w :: 32 word) :: byte)"
  using index_octet [of 0 w] by simp

lemma xtime_code: "word_of_int (XTIME (uint b) AND 0xFF) = xtime b"
proof -
  have "uint b AND 0x80 \<noteq> 0 \<longleftrightarrow> bit b 7"
    using bit_iff_and_push_bit_not_eq_0 [of "uint b" 7] by (simp add: bit_uint_iff push_bit_eq_mult)
  moreover have double: "bit (x * 2) n \<longleftrightarrow> n \<noteq> 0 \<and> bit x (n - 1)"
    "bit (b * 2) n \<longleftrightarrow> n < 8 \<and> n \<noteq> 0 \<and> bit b (n - 1)" for x :: int and n
    using bit_double_iff [of x n] bit_double_iff [of b n] by (auto simp: mult.commute dest: bit_imp_le_length)
  ultimately show ?thesis by (intro bit_word_eqI) (auto simp: XTIME_def xtime_def bit_simps bit_uint_iff bit_255 double)
qed

lemma byte_word_of_int:
  "0 \<le> k \<Longrightarrow> k < 256 \<Longrightarrow> (word_of_int k :: 32 word) = ucast (word_of_int k :: byte)"
  by (intro word_uint_eqI) (simp add: unsigned_ucast_eq uint_word_of_int take_bit_int_eq_self)

lemma ft0_bytes:
  "PUT_UINT32_LE (ft0_entry sb i) = [xtime (sb ! i), sb ! i, sb ! i, xtime (sb ! i) XOR sb ! i]"
proof -
  let ?x = "uint (sb ! i)"
  have and255: "0 \<le> k AND 0xFF \<and> k AND 0xFF < 256" for k :: int
  proof -
    have "k AND 0xFF = k mod 256" using take_bit_eq_mask [of 8 k] by (simp add: take_bit_eq_mod mask_eq_exp_minus_1)
    then show ?thesis by simp
  qed
  have z: "word_of_int ((XTIME ?x AND 0xFF XOR ?x) AND 0xFF) = xtime (sb ! i) XOR sb ! i"
    unfolding xtime_code [symmetric] by (intro bit_word_eqI) (auto simp: bit_simps bit_uint_iff bit_255)
  have x: "0 \<le> ?x" "?x < 256" using uint_lt2p [of "sb ! i"] by simp_all
  show ?thesis
    using and255 x by (simp add: ft0_entry_def Let_def byte_word_of_int xtime_code z PUT_pack)
qed

section \<open>Rounds\<close>

text \<open>What the initialisation establishes: the S-box of the standard, its round constants, and
  forward tables whose entries are the columns of the MixColumns matrix times an S-box value.\<close>

definition good_tables :: "aes_tables \<Rightarrow> bool" where
  "good_tables t \<longleftrightarrow> aes_tables_inited t \<and> FSb t = fips_sbox \<and>
     (\<forall>i < 10. RCON t ! i = ucast (fips_rcon i)) \<and>
     (\<forall>b. let s = sub_byte b; s2 = xtime s; s3 = xtime s XOR s in
        PUT_UINT32_LE (FT0 t ! unat b) = [s2, s, s, s3] \<and> PUT_UINT32_LE (FT1 t ! unat b) = [s3, s2, s, s] \<and>
        PUT_UINT32_LE (FT2 t ! unat b) = [s, s3, s2, s] \<and> PUT_UINT32_LE (FT3 t ! unat b) = [s, s, s3, s2])"

lemma ft_steps:
  assumes "length (FT0 t) = 256" "length (FT1 t) = 256" "length (FT2 t) = 256" "length (FT3 t) = 256" "n \<le> 256"
    and "t' = fold ft_step [0..<n] t"
  shows "FSb t' = FSb t \<and> RCON t' = RCON t \<and>
    length (FT0 t') = 256 \<and> length (FT1 t') = 256 \<and> length (FT2 t') = 256 \<and> length (FT3 t') = 256 \<and>
    (\<forall>j < n. FT0 t' ! j = ft0_entry (FSb t) j \<and> FT1 t' ! j = ROTL8 (ft0_entry (FSb t) j) \<and>
       FT2 t' ! j = ROTL8 (ROTL8 (ft0_entry (FSb t) j)) \<and>
       FT3 t' ! j = ROTL8 (ROTL8 (ROTL8 (ft0_entry (FSb t) j))))"
  using assms(5,6)
proof (induction n arbitrary: t')
  case 0
  then show ?case using assms by simp
next
  case (Suc n)
  define u where "u = fold ft_step [0..<n] t"
  have "t' = ft_step n u" using Suc.prems by (simp add: u_def)
  then show ?case using Suc.IH [OF _ u_def] Suc.prems(1)
    by (simp add: ft_step_def Let_def nth_list_update less_Suc_eq)
qed

lemma good_tables_init: "good_tables (aes_init_keygen_tables aes_tables_static)"
proof -
  let ?t = "aes_tables_static\<lparr>RCON := rcon_table (RCON aes_tables_static), FSb := sbox_table (FSb aes_tables_static)\<rparr>"
  define t where "t = fold ft_step [0..<256] ?t"
  have len: "length (FT0 ?t) = 256" "length (FT1 ?t) = 256" "length (FT2 ?t) = 256" "length (FT3 ?t) = 256"
    by (simp_all add: aes_tables_static_def)
  have sb: "FSb ?t = fips_sbox" by (simp add: aes_tables_static_def sbox_table_fips)
  have rc: "RCON ?t ! i = ucast (fips_rcon i)" if "i < 10" for i
    using rcon_fips [OF that] by (simp add: aes_tables_static_def)
  note F = ft_steps [OF len order_refl t_def, unfolded sb]
  have ft: "let s = sub_byte b; s2 = xtime s; s3 = xtime s XOR s in
        PUT_UINT32_LE (FT0 t ! unat b) = [s2, s, s, s3] \<and> PUT_UINT32_LE (FT1 t ! unat b) = [s3, s2, s, s] \<and>
        PUT_UINT32_LE (FT2 t ! unat b) = [s, s3, s2, s] \<and> PUT_UINT32_LE (FT3 t ! unat b) = [s, s, s3, s2]" for b
  proof -
    have lt: "unat b < 256" using unsigned_less [of b, where 'a = nat] by simp
    note p0 = ft0_bytes [of fips_sbox "unat b"]
    note p1 = PUT_ROTL8 [OF p0] note p2 = PUT_ROTL8 [OF p1] note p3 = PUT_ROTL8 [OF p2]
    show ?thesis using F lt p0 p1 p2 p3 by (simp add: sub_byte_def Let_def)
  qed
  have "aes_init_keygen_tables aes_tables_static = t\<lparr>aes_tables_inited := True\<rparr>"
    by (simp add: aes_init_keygen_tables_def t_def aes_tables_static_def)
  then show ?thesis unfolding good_tables_def using F rc ft by (simp add: Let_def)
qed

definition block_bytes :: "aes_block \<Rightarrow> bytes" where
  "block_bytes = (\<lambda>(x0, x1, x2, x3). PUT_UINT32_LE x0 @ PUT_UINT32_LE x1 @ PUT_UINT32_LE x2 @ PUT_UINT32_LE x3)"

abbreviation octet :: "nat \<Rightarrow> 32 word \<Rightarrow> byte" where
  "octet k w \<equiv> ucast (drop_bit k w)"

lemma xor_bytes_append:
  "length a = length c \<Longrightarrow> xor_bytes (a @ b) (c @ d) = xor_bytes a c @ xor_bytes b d"
  by (simp add: xor_bytes_def)

lemma length_PUT [simp]: "length (PUT_UINT32_LE w) = 4"
  by (simp add: PUT_UINT32_LE_def)

lemma xor_bytes_comm: "length a = length b \<Longrightarrow> xor_bytes a b = xor_bytes b a"
  by (auto simp: xor_bytes_def intro!: nth_equalityI simp: xor.commute)

lemma ft_word_bytes:
  assumes "good_tables t"
  shows "PUT_UINT32_LE (ft_word t y0 y1 y2 y3) =
    mix_column (sub_byte (ucast y0)) (sub_byte (octet 8 y1)) (sub_byte (octet 16 y2)) (sub_byte (octet 24 y3))"
  using assms by (simp add: ft_word_def index_octet index_octet0 PUT_xor good_tables_def Let_def
      mix_column_def xor_bytes_def)

lemma sb_word_bytes:
  assumes "good_tables t"
  shows "PUT_UINT32_LE (sb_word t y0 y1 y2 y3) =
    [sub_byte (ucast y0), sub_byte (octet 8 y1), sub_byte (octet 16 y2), sub_byte (octet 24 y3)]"
  using assms by (simp add: sb_word_def sb_at_def index_octet index_octet0 good_tables_def PUT_pack sub_byte_def)

lemma upt_16: "[0..<16] = [0, 1, 2, 3, 4, 5, 6, 7, 8, 9, 10, 11, 12, 13, 14, 15 :: nat]"
  by (simp add: upt_conv_Cons)

lemma upt_4: "[0..<4] = [0, 1, 2, 3 :: nat]"
  by (simp add: upt_conv_Cons)

lemma fround_bytes:
  assumes "good_tables t"
  shows "block_bytes (AES_FROUND t buf rk y) =
    xor_bytes (mix_columns (shift_rows (sub_bytes (block_bytes y))))
      (block_bytes (buf ! rk, buf ! (rk + 1), buf ! (rk + 2), buf ! (rk + 3)))"
proof -
  obtain y0 y1 y2 y3 where y: "y = (y0, y1, y2, y3)" by (cases y) auto
  have m: "mix_columns (shift_rows (sub_bytes (block_bytes y))) =
      PUT_UINT32_LE (ft_word t y0 y1 y2 y3) @ PUT_UINT32_LE (ft_word t y1 y2 y3 y0) @
      PUT_UINT32_LE (ft_word t y2 y3 y0 y1) @ PUT_UINT32_LE (ft_word t y3 y0 y1 y2)"
    unfolding ft_word_bytes [OF assms] mix_columns_def shift_rows_def upt_16 upt_4 y
    by (simp add: sub_bytes_def block_bytes_def PUT_UINT32_LE_def)
  show ?thesis unfolding m
    by (simp add: y AES_FROUND_def block_bytes_def PUT_xor xor_bytes_append xor_bytes_comm)
qed

lemma last_round_bytes:
  assumes "good_tables t"
  shows "block_bytes (last_round t buf rk y) =
    xor_bytes (shift_rows (sub_bytes (block_bytes y)))
      (block_bytes (buf ! rk, buf ! (rk + 1), buf ! (rk + 2), buf ! (rk + 3)))"
proof -
  obtain y0 y1 y2 y3 where y: "y = (y0, y1, y2, y3)" by (cases y) auto
  have m: "shift_rows (sub_bytes (block_bytes y)) =
      PUT_UINT32_LE (sb_word t y0 y1 y2 y3) @ PUT_UINT32_LE (sb_word t y1 y2 y3 y0) @
      PUT_UINT32_LE (sb_word t y2 y3 y0 y1) @ PUT_UINT32_LE (sb_word t y3 y0 y1 y2)"
    unfolding sb_word_bytes [OF assms] shift_rows_def upt_16 y
    by (simp add: sub_bytes_def block_bytes_def PUT_UINT32_LE_def)
  show ?thesis unfolding m
    by (simp add: y last_round_def block_bytes_def PUT_xor xor_bytes_append xor_bytes_comm)
qed

section \<open>The key schedule\<close>

text \<open>The first words of the buffer are the expanded key.\<close>

definition sched :: "nat \<Rightarrow> bytes \<Rightarrow> nat \<Rightarrow> 32 word list \<Rightarrow> bool" where
  "sched Nk key n buf \<longleftrightarrow> length buf = 68 \<and> (\<forall>j < n. PUT_UINT32_LE (buf ! j) = fips_key Nk key j)"

lemma sched_extend:
  assumes "sched Nk key n buf" "n < 68" "PUT_UINT32_LE w = fips_key Nk key n"
  shows "sched Nk key (n + 1) (buf[n := w])"
  using assms by (auto simp: sched_def nth_list_update less_Suc_eq)

lemma rot_sub_bytes:
  assumes "good_tables t"
  shows "PUT_UINT32_LE (rot_sub t w) = map sub_byte (tl (PUT_UINT32_LE w) @ [hd (PUT_UINT32_LE w)])"
  using assms by (simp add: rot_sub_def sb_at_def index_octet index_octet0 good_tables_def PUT_pack
      sub_byte_def PUT_UINT32_LE_def [of w])

lemma sub_word_bytes:
  assumes "good_tables t"
  shows "PUT_UINT32_LE (sub_word t w) = map sub_byte (PUT_UINT32_LE w)"
  using assms by (simp add: sub_word_def sb_at_def index_octet index_octet0 good_tables_def PUT_pack
      sub_byte_def PUT_UINT32_LE_def [of w])

lemma PUT_byte: "PUT_UINT32_LE (ucast (b :: byte)) = [b, 0, 0, 0]"
  using PUT_pack [of b 0 0 0] by simp

lemma key_first_sched:
  assumes "good_tables t" "sched n key (rk + n) buf" "rk = n * i" "0 < n" "i < 10" "rk + n < 68"
  shows "sched n key (rk + n + 1) (key_first t rk n i buf)"
proof -
  have b: "PUT_UINT32_LE (buf ! rk) = fips_key n key rk"
    "PUT_UINT32_LE (buf ! (rk + n - 1)) = fips_key n key (rk + n - 1)"
    using assms(2,4) by (simp_all add: sched_def)
  have "(rk + n) mod n = 0" "(rk + n) div n - 1 = i" using assms(3,4) by simp_all
  then have "fips_key n key (rk + n) = xor_bytes (fips_key n key rk)
      (xor_bytes (PUT_UINT32_LE (rot_sub t (buf ! (rk + n - 1)))) [fips_rcon i, 0, 0, 0])"
    using assms(4) b(2) by (simp add: fips_key.simps [of n key "rk + n"] rot_sub_bytes [OF assms(1)] Let_def)
  moreover have "RCON t ! i = ucast (fips_rcon i)" using assms(1,5) by (simp add: good_tables_def)
  ultimately show ?thesis unfolding key_first_def
    using assms(2,6) by (intro sched_extend) (simp_all add: PUT_xor PUT_byte b xor_bytes_comm)
qed

lemma xor_prev_sched:
  assumes "sched n key (rk + n + k) buf" "rk = n * i" "0 < k" "k < n" "\<not> (6 < n \<and> k = 4)" "rk + n + k < 68"
  shows "sched n key (rk + n + k + 1) (xor_prev rk n k buf)"
proof -
  have b: "PUT_UINT32_LE (buf ! (rk + k)) = fips_key n key (rk + k)"
    "PUT_UINT32_LE (buf ! (rk + k + n - 1)) = fips_key n key (rk + k + n - 1)"
    using assms(1,3,4) by (simp_all add: sched_def)
  have "rk + n + k = k + n * (i + 1)" using assms(2) by simp
  then have "(rk + k + n) mod n = k" using assms(4) by (simp only: add.assoc add.commute [of k n] mod_mult_self2 mod_less)
  then have "fips_key n key (rk + k + n) = xor_bytes (fips_key n key (rk + k)) (fips_key n key (rk + k + n - 1))"
    using assms(3,4,5) by (auto simp: fips_key.simps [of n key "rk + k + n"] Let_def)
  then show ?thesis unfolding xor_prev_def
    using sched_extend [of n key "rk + k + n" buf] assms(1,6) b by (simp add: PUT_xor add_ac)
qed

lemma key_mid14_sched:
  assumes "good_tables t" "sched 8 key (rk + 12) buf" "rk = 8 * i" "rk + 12 < 68"
  shows "sched 8 key (rk + 13) (key_mid14 t rk buf)"
proof -
  have b: "PUT_UINT32_LE (buf ! (rk + 4)) = fips_key 8 key (rk + 4)"
    "PUT_UINT32_LE (buf ! (rk + 11)) = fips_key 8 key (rk + 11)"
    using assms(2) by (simp_all add: sched_def)
  have "(rk + 12) mod 8 = 4" unfolding assms(3) add.commute [of _ 12] mod_mult_self2 by simp
  then have "fips_key 8 key (rk + 12) = xor_bytes (fips_key 8 key (rk + 4)) (map sub_byte (fips_key 8 key (rk + 11)))"
    by (simp add: fips_key.simps [of 8 key "rk + 12"] Let_def add.commute)
  then show ?thesis unfolding key_mid14_def
    using sched_extend [of 8 key "rk + 12" buf] assms(2,4) b
    by (simp add: PUT_xor sub_word_bytes [OF assms(1)] add.commute [of 13])
qed

lemma key_step10_sched:
  assumes "good_tables t" "sched 4 key (4 * i + 4) buf" "i < 10"
  shows "sched 4 key (4 * i + 8) (key_step10 t i buf)"
proof -
  let ?rk = "4 * i"
  note a = key_first_sched [OF assms(1), of 4 key ?rk buf i]
  note p = xor_prev_sched [of 4 key ?rk _ _ i]
  show ?thesis unfolding key_step10_def Let_def
    using p [of 3] p [of 2] p [of 1] a assms(2,3) by (simp add: add_ac numeral_eq_Suc)
qed

lemma key_step12_sched:
  assumes "good_tables t" "sched 6 key (6 * i + 6) buf" "i < 8"
  shows "sched 6 key (6 * i + 12) (key_step12 t i buf)"
proof -
  let ?rk = "6 * i"
  note a = key_first_sched [OF assms(1), of 6 key ?rk buf i]
  note p = xor_prev_sched [of 6 key ?rk _ _ i]
  show ?thesis unfolding key_step12_def Let_def
    using p [of 5] p [of 4] p [of 3] p [of 2] p [of 1] a assms(2,3) by (simp add: add_ac numeral_eq_Suc)
qed

lemma key_step14_sched:
  assumes "good_tables t" "sched 8 key (8 * i + 8) buf" "i < 7"
  shows "sched 8 key (8 * i + 16) (key_step14 t i buf)"
proof -
  let ?rk = "8 * i"
  note a = key_first_sched [OF assms(1), of 8 key ?rk buf i]
  note p = xor_prev_sched [of 8 key ?rk _ _ i]
  note m = key_mid14_sched [OF assms(1), of key ?rk _ i]
  show ?thesis unfolding key_step14_def Let_def
    using p [of 7] p [of 6] p [of 5] m p [of 3] p [of 2] p [of 1] a assms(2,3)
    by (simp add: add_ac numeral_eq_Suc)
qed

lemma load_key_sched:
  assumes "length key = 4 * n" "length buf = 68" "n \<le> 68"
  shows "sched n key n (load_key key (4 * n) buf)"
  using assms unfolding sched_def load_key_def
  by (auto simp: nth_fold_update fips_key.simps PUT_GET)

lemma fold_sched:
  assumes "sched n key n buf" and "\<And>i b. i < m \<Longrightarrow> sched n key (n * i + n) b \<Longrightarrow> sched n key (n * i + 2 * n) (f i b)"
  shows "sched n key (n * m + n) (fold f [0..<m] buf)"
  using assms(2)
proof (induction m)
  case 0
  then show ?case using assms(1) by simp
next
  case (Suc m)
  then have "sched n key (n * m + 2 * n) (f m (fold f [0..<m] buf))" by simp
  then show ?case by (simp add: algebra_simps mult_2_right)
qed

lemma sched_mono: "sched n key k buf \<Longrightarrow> j \<le> k \<Longrightarrow> sched n key j buf"
  by (auto simp: sched_def)

lemma setkey_sched:
  assumes "good_tables t" "length key = 4 * n" "n \<in> {4, 6, 8}" "length (aes_buf ctx) = 68"
  shows "\<exists>ctx'. aes_setkey t ctx mode key (4 * n) = (0, ctx') \<and> sched n key (4 * (n + 7)) (aes_buf ctx') \<and>
    aes_rounds ctx' = n + 6 \<and> aes_rk ctx' = Some 0 \<and> aes_mode ctx' = mode"
proof -
  let ?buf = "load_key key (4 * n) (aes_buf ctx)"
  have ini: "aes_tables_inited t" using assms(1) by (simp add: good_tables_def)
  have l: "sched n key n ?buf" using assms by (intro load_key_sched) auto
  from assms(3) consider "n = 4" | "n = 6" | "n = 8" by blast
  then show ?thesis
  proof cases
    case 1
    have "sched 4 key (4 * 10 + 4) (fold (key_step10 t) [0..<10] ?buf)"
      using l key_step10_sched [OF assms(1)] unfolding 1 by (intro fold_sched) auto
    then show ?thesis using ini 1 by (simp add: aes_setkey_def aes_set_encryption_key_def Let_def del: upt_rec_numeral)
  next
    case 2
    have "sched 6 key (6 * 8 + 6) (fold (key_step12 t) [0..<8] ?buf)"
      using l key_step12_sched [OF assms(1)] unfolding 2 by (intro fold_sched) auto
    then show ?thesis using ini 2 sched_mono [of 6 key 54 _ 52]
      by (simp add: aes_setkey_def aes_set_encryption_key_def Let_def del: upt_rec_numeral)
  next
    case 3
    have "sched 8 key (8 * 7 + 8) (fold (key_step14 t) [0..<7] ?buf)"
      using l key_step14_sched [OF assms(1)] unfolding 3 by (intro fold_sched) auto
    then show ?thesis using ini 3 sched_mono [of 8 key 64 _ 60]
      by (simp add: aes_setkey_def aes_set_encryption_key_def Let_def del: upt_rec_numeral)
  qed
qed

section \<open>The cipher\<close>

lemma round_key_bytes:
  "round_key (\<lambda>i. PUT_UINT32_LE (buf ! i)) r =
     block_bytes (buf ! (4 * r), buf ! (4 * r + 1), buf ! (4 * r + 2), buf ! (4 * r + 3))"
  by (simp add: round_key_def block_bytes_def)

lemma fround_fips:
  "good_tables t \<Longrightarrow> block_bytes (AES_FROUND t buf (4 * r) x) =
     fips_round (\<lambda>i. PUT_UINT32_LE (buf ! i)) r (block_bytes x)"
  by (simp add: fround_bytes fips_round_def round_key_bytes)

lemma fround_pairs_fips:
  assumes "good_tables t"
  shows "\<exists>y. fround_pairs t buf n (4 * r) x = (4 * (r + 2 * n), y) \<and>
    block_bytes y = fold (fips_round (\<lambda>i. PUT_UINT32_LE (buf ! i))) [r..<r + 2 * n] (block_bytes x)"
proof (induction n arbitrary: r x)
  case 0
  then show ?case by simp
next
  case (Suc n)
  let ?y = "AES_FROUND t buf (4 * (r + 1)) (AES_FROUND t buf (4 * r) x)"
  have u: "[r..<r + 2 * Suc n] = r # (r + 1) # [r + 2..<r + 2 + 2 * n]" by (simp add: upt_conv_Cons)
  have "fround_pairs t buf (Suc n) (4 * r) x = fround_pairs t buf n (4 * (r + 2)) ?y"
    by (simp add: add_ac)
  moreover obtain y where "fround_pairs t buf n (4 * (r + 2)) ?y = (4 * (r + 2 + 2 * n), y)"
    "block_bytes y = fold (fips_round (\<lambda>i. PUT_UINT32_LE (buf ! i))) [r + 2..<r + 2 + 2 * n] (block_bytes ?y)"
    using Suc.IH by blast
  ultimately show ?case unfolding u by (simp add: fround_fips [OF assms] del: mult_Suc_right) simp
qed

lemma fold_fips_cong:
  "(\<And>r. r \<in> set rs \<Longrightarrow> round_key v r = round_key w r) \<Longrightarrow> fold (fips_round v) rs s = fold (fips_round w) rs s"
  by (induction rs arbitrary: s) (simp_all add: fips_round_def)

lemma fips_cipher_cong:
  assumes "\<And>i. i < 4 * (Nr + 1) \<Longrightarrow> v i = w i"
  shows "fips_cipher Nr v s = fips_cipher Nr w s"
proof -
  have k: "round_key v r = round_key w r" if "r \<le> Nr" for r
    using assms that by (simp add: round_key_def)
  then have "fold (fips_round v) [1..<Nr] s' = fold (fips_round w) [1..<Nr] s'" for s'
    by (intro fold_fips_cong) simp
  then show ?thesis using k by (simp add: fips_cipher_def)
qed

lemma last_rounds:
  assumes "good_tables t" and "w = (\<lambda>i. PUT_UINT32_LE (buf ! i))"
  shows "block_bytes (last_round t buf (4 * (r + 1)) (AES_FROUND t buf (4 * r) y)) =
    xor_bytes (shift_rows (sub_bytes (fips_round w r (block_bytes y)))) (round_key w (r + 1))"
  unfolding assms(2) last_round_bytes [OF assms(1)] fround_fips [OF assms(1)] round_key_bytes ..

lemma aes_cipher_words:
  assumes "good_tables t" "aes_rk ctx = Some 0" "aes_rounds ctx = 2 * h" "0 < h" "length input = 16"
  shows "aes_cipher t ctx input =
    Some (fips_cipher (2 * h) (\<lambda>i. PUT_UINT32_LE (aes_buf ctx ! i)) input)"
proof -
  let ?buf = "aes_buf ctx" and ?w = "\<lambda>i. PUT_UINT32_LE (aes_buf ctx ! i)"
  define x where "x = (GET_UINT32_LE input 0 XOR ?buf ! 0, GET_UINT32_LE input 4 XOR ?buf ! 1,
    GET_UINT32_LE input 8 XOR ?buf ! Suc (Suc 0), GET_UINT32_LE input 12 XOR ?buf ! 3)"
  have split: "input = take 4 (drop 0 input) @ take 4 (drop 4 input) @ take 4 (drop 8 input) @ take 4 (drop 12 input)"
    using assms(5) by (intro nth_equalityI) (auto simp: nth_append)
  have x: "block_bytes x = xor_bytes input (round_key ?w 0)"
    by (subst split) (use assms(5) in \<open>simp add: x_def block_bytes_def PUT_xor PUT_GET round_key_def
        xor_bytes_append numeral_2_eq_2 del: drop0\<close>)
  obtain y where y: "fround_pairs t ?buf (h - 1) (4 * 1) x = (4 * (1 + 2 * (h - 1)), y)"
    "block_bytes y = fold (fips_round ?w) [1..<1 + 2 * (h - 1)] (block_bytes x)"
    using fround_pairs_fips [OF assms(1), of ?buf "h - 1" 1 x] by blast
  define r where "r = 1 + 2 * (h - 1)"
  have h: "2 * h = r + 1" "[1..<r + 1] = [1..<r] @ [r]" using assms(4) by (simp_all add: r_def)
  note y = y [folded r_def]
  obtain z0 z1 z2 z3 where z: "last_round t ?buf (4 * (r + 1)) (AES_FROUND t ?buf (4 * r) y) = (z0, z1, z2, z3)"
    by (metis prod_cases4)
  have "aes_cipher t ctx input = Some (block_bytes (z0, z1, z2, z3))"
    using assms(2,3) y(1) [unfolded x_def] z
    by (simp add: aes_cipher_def Let_def block_bytes_def add.commute)
  also have "block_bytes (z0, z1, z2, z3) = fips_cipher (2 * h) ?w input"
    unfolding z [symmetric] fips_cipher_def h last_rounds [OF assms(1) refl] y(2) x by simp
  finally show ?thesis .
qed

lemma setkey_cipher:
  assumes "good_tables t" "length key = 4 * n" "n \<in> {4, 6, 8}" "length (aes_buf ctx) = 68"
  shows "\<exists>ctx'. aes_setkey t ctx mode key (4 * n) = (0, ctx') \<and> aes_mode ctx' = mode \<and>
    length (aes_buf ctx') = 68 \<and>
    (\<forall>input. length input = 16 \<longrightarrow> aes_cipher t ctx' input = Some (fips_cipher (n + 6) (fips_key n key) input))"
proof -
  obtain ctx' where c: "aes_setkey t ctx mode key (4 * n) = (0, ctx')" "sched n key (4 * (n + 7)) (aes_buf ctx')"
    "aes_rounds ctx' = n + 6" "aes_rk ctx' = Some 0" "aes_mode ctx' = mode"
    using setkey_sched [OF assms, of mode] by blast
  obtain h where h: "n + 6 = 2 * h" "0 < h" using assms(3) by (auto intro: that [of 5] that [of 6] that [of 7])
  have w: "aes_cipher t ctx' input = Some (fips_cipher (n + 6) (fips_key n key) input)"
    if "length input = 16" for input
  proof -
    have "fips_cipher (n + 6) (\<lambda>i. PUT_UINT32_LE (aes_buf ctx' ! i)) input =
        fips_cipher (n + 6) (fips_key n key) input"
      using c(2) by (intro fips_cipher_cong) (simp add: sched_def)
    then show ?thesis
      using aes_cipher_words [OF assms(1) c(4), of h input] c(3) h that by simp
  qed
  then show ?thesis using c by (simp add: sched_def)
qed

section \<open>The property\<close>

text \<open>C9: after the static tables have been generated, setting a key of 16, 24 or 32 bytes succeeds
  and the table-driven cipher maps every block to the AES encryption of FIPS 197 under that key:
  the generated S-box and tables, the key schedule and the rounds are right.\<close>

theorem aes_is_fips197:
  assumes "length key = 4 * Nk" "Nk \<in> {4, 6, 8}" "length (aes_buf ctx) = 68" "length input = 16"
  shows "\<exists>ctx'. aes_setkey (aes_init_keygen_tables aes_tables_static) ctx mode key (4 * Nk) = (0, ctx') \<and>
    aes_cipher (aes_init_keygen_tables aes_tables_static) ctx' input =
      Some (fips_cipher (Nk + 6) (fips_key Nk key) input)"
  using setkey_cipher [OF good_tables_init assms(1-3)] assms(4) by blast

theorem aes_is_fips197_witness:
  "\<exists>ctx'. aes_setkey (aes_init_keygen_tables aes_tables_static)
       \<lparr>aes_mode = 0, aes_rounds = 0, aes_rk = None, aes_buf = replicate 68 0\<rparr> ENCRYPT (replicate 16 7) (4 * 4) = (0, ctx') \<and>
    aes_cipher (aes_init_keygen_tables aes_tables_static) ctx' (replicate 16 0) =
      Some (fips_cipher (4 + 6) (fips_key 4 (replicate 16 7)) (replicate 16 0))"
  by (rule aes_is_fips197) simp_all

end
