(* ===== verification/Gcm_Spec.thy ===== *)
theory Gcm_Spec
  imports Gcm Aes_Spec
begin

unbundle bit_operations_syntax

text \<open>
  AES-GCM as NIST SP 800-38D defines it, on 128-bit blocks, and the proof that gcm.c computes it:
  the multiplication with four-bit tables is the multiplication of the field, the loops over the
  vector, the additional data and the message are GHASH and counter mode.
\<close>

section \<open>The field\<close>

definition gf_R :: "128 word" where
  "gf_R = push_bit 120 0xE1"

text \<open>Multiplication by the indeterminate; the leftmost bit is the coefficient of 1.\<close>

definition mulx :: "128 word \<Rightarrow> 128 word" where
  "mulx v = drop_bit 1 v XOR (if bit v 0 then gf_R else 0)"

text \<open>The algorithm of the standard: the bits of X from the left, with Z and V updated.\<close>

fun sp_mult :: "nat \<Rightarrow> 128 word \<Rightarrow> 128 word \<Rightarrow> 128 word \<Rightarrow> 128 word" where
  "sp_mult 0 x z v = z"
| "sp_mult (Suc m) x z v = sp_mult m x (if bit x m then z XOR v else z) (mulx v)"

definition gf_mult :: "128 word \<Rightarrow> 128 word \<Rightarrow> 128 word" where
  "gf_mult x y = sp_mult 128 x 0 y"

text \<open>The same product from the right.\<close>

fun horner :: "nat \<Rightarrow> 128 word \<Rightarrow> 128 word \<Rightarrow> 128 word" where
  "horner 0 x v = 0"
| "horner (Suc m) x v = (if bit x m then v else 0) XOR mulx (horner m x v)"

lemma mulx_xor: "mulx (a XOR b) = mulx a XOR mulx b"
  by (rule bit_word_eqI) (auto simp: mulx_def bit_simps)

lemma mulx_0 [simp]: "mulx 0 = 0"
  by (simp add: mulx_def)

lemma horner_mulx: "horner m x (mulx v) = mulx (horner m x v)"
  by (induction m) (simp_all add: mulx_xor)

lemma sp_mult_horner: "sp_mult m x z v = z XOR horner m x v"
  by (induction m arbitrary: z v) (simp_all add: horner_mulx xor.assoc)

lemma gf_mult_horner: "gf_mult x y = horner 128 x y"
  by (simp add: gf_mult_def sp_mult_horner del: sp_mult.simps horner.simps)

section \<open>Four bits at a time\<close>

definition join :: "64 word \<times> 64 word \<Rightarrow> 128 word" where
  "join = (\<lambda>(zh, zl). push_bit 64 (ucast zh) OR ucast zl)"

lemma bit_join: "bit (join (zh, zl)) i \<longleftrightarrow> (if i < 64 then bit zl i else i < 128 \<and> bit zh (i - 64))"
  by (auto simp: join_def bit_simps dest: bit_imp_le_length)

lemma mulx_even: "\<not> bit v 0 \<Longrightarrow> mulx v = drop_bit 1 v"
  by (simp add: mulx_def)

definition mulx4 :: "128 word \<Rightarrow> 128 word" where
  "mulx4 v = mulx (mulx (mulx (mulx v)))"

lemma mulx4_xor: "mulx4 (a XOR b) = mulx4 a XOR mulx4 b"
  by (simp add: mulx4_def mulx_xor)

lemma mulx4_low_zero:
  assumes "\<And>i. i < 4 \<Longrightarrow> \<not> bit v i"
  shows "mulx4 v = drop_bit 4 v"
proof -
  have b: "\<not> bit v 0" "\<not> bit v 1" "\<not> bit v 2" "\<not> bit v 3" using assms by simp_all
  have 1: "mulx v = drop_bit 1 v" using b by (simp add: mulx_even)
  have step: "mulx (drop_bit k v) = drop_bit (k + 1) v" if "\<not> bit v k" for k
    using that by (simp add: mulx_even bit_simps drop_bit_drop_bit add.commute del: drop_bit_Suc)
  have 2: "mulx (drop_bit 1 v) = drop_bit 2 v" using step [of 1] b by (simp add: numeral_2_eq_2)
  have 3: "mulx (drop_bit 2 v) = drop_bit 3 v" using step [of 2] b by (simp add: eval_nat_numeral)
  have 4: "mulx (drop_bit 3 v) = drop_bit 4 v" using step [of 3] b by (simp add: eval_nat_numeral)
  show ?thesis by (simp only: mulx4_def 1 2 3 4)
qed

text \<open>The table of reductions: what the four bits shifted out contribute.\<close>

lemma last4_eval: "map (\<lambda>n. mulx4 (word_of_nat n)) [0..<16] = map (\<lambda>w. push_bit 112 (ucast w)) last4"
  by (simp add: last4_def mulx4_def mulx_def gf_R_def upt_conv_Cons)

lemma last4_mulx4: "n < 16 \<Longrightarrow> mulx4 (word_of_nat n) = push_bit 112 (ucast (last4 ! n))"
proof -
  assume n: "n < 16"
  have "length last4 = 16" by (simp add: last4_def)
  then show ?thesis using arg_cong [OF last4_eval, of "\<lambda>l. l ! n"] n by (simp del: upt_rec_numeral)
qed

lemma bit_15: "bit (15 :: int) i \<longleftrightarrow> i < 4"
proof -
  have m: "(15 :: int) = mask 4" by (simp add: mask_eq_exp_minus_1)
  show ?thesis unfolding m bit_mask_iff by simp
qed

lemma mult_shift_bits:
  fixes zh zl w :: "64 word"
  shows "join (drop_bit 4 zh XOR push_bit 48 w, push_bit 60 zh OR drop_bit 4 zl) =
    drop_bit 4 (join (zh, zl)) XOR push_bit 112 (ucast w)"
proof (rule bit_word_eqI)
  fix i assume "i < LENGTH(128)"
  then consider "i < 60" | "60 \<le> i" "i < 64" | "64 \<le> i" "i < 128" by fastforce
  then show "bit (join (drop_bit 4 zh XOR push_bit 48 w, push_bit 60 zh OR drop_bit 4 zl)) i =
      bit (drop_bit 4 (join (zh, zl)) XOR push_bit 112 (ucast w)) i"
  proof cases
    case 3
    then have "i + 4 - 64 = i - 64 + 4" "48 \<le> i - 64 \<longleftrightarrow> 112 \<le> i" "i - 64 - 48 = i - 112" by linarith+
    with 3 show ?thesis by (auto simp: bit_join bit_simps add.commute dest: bit_imp_le_length)
  next
    case 2
    then have "i + 4 - 64 = i - 60" "\<not> bit zl (i + 4)" by (auto dest: bit_imp_le_length)
    with 2 show ?thesis by (simp add: bit_join bit_simps add.commute)
  next
    case 1
    then show ?thesis by (simp add: bit_join bit_simps add.commute)
  qed
qed

lemma mult_shift_join: "join (mult_shift z) = mulx4 (join z)"
proof -
  obtain zh zl where z: "z = (zh, zl)" by force
  let ?r = "zl AND 0x0f" and ?low = "ucast (zl AND 0x0f) :: 128 word"
  have r: "unat ?r < 16"
  proof -
    have "?r \<le> 0x0f" by (rule word_and_le1)
    then show ?thesis by (simp add: word_le_nat_alt)
  qed
  have low: "?low = word_of_nat (unat ?r)" by (simp add: unsigned_ucast_eq)
  have ml: "mulx4 ?low = push_bit 112 (ucast (last4 ! unat ?r))"
    using last4_mulx4 [OF r] by (simp only: low)
  have clear: "mulx4 (join z XOR ?low) = drop_bit 4 (join z XOR ?low)"
    by (rule mulx4_low_zero) (auto simp: z bit_simps bit_join bit_15)
  have d: "drop_bit 4 ?low = 0" by (rule bit_word_eqI) (simp add: bit_simps bit_15)
  have "mulx4 (join z) = mulx4 ((join z XOR ?low) XOR ?low)" by (simp add: xor.assoc)
  also have "\<dots> = mulx4 (join z XOR ?low) XOR mulx4 ?low" by (rule mulx4_xor)
  also have "\<dots> = drop_bit 4 (join z XOR ?low) XOR push_bit 112 (ucast (last4 ! unat ?r))"
    by (simp only: clear ml)
  also have "\<dots> = drop_bit 4 (join z) XOR push_bit 112 (ucast (last4 ! unat ?r))"
    by (simp only: drop_bit_xor d xor.right_neutral)
  also have "\<dots> = join (mult_shift z)"
    by (simp only: z mult_shift_def mult_shift_bits Let_def prod.case)
  finally show ?thesis by simp
qed

section \<open>The tables\<close>

definition nib :: "128 word \<Rightarrow> byte \<Rightarrow> 128 word" where
  "nib h n = (if bit n 3 then h else 0) XOR (if bit n 2 then mulx h else 0) XOR
     (if bit n 1 then mulx (mulx h) else 0) XOR (if bit n 0 then mulx (mulx (mulx h)) else 0)"

definition tables_ok :: "gcm_context \<Rightarrow> 128 word \<Rightarrow> bool" where
  "tables_ok ctx h \<longleftrightarrow> (\<forall>n < 16. join (HH ctx ! n, HL ctx ! n) = nib h (word_of_nat n))"

lemma join_xor: "join (a XOR c, b XOR d) = join (a, b) XOR join (c, d)"
  by (rule bit_word_eqI) (simp add: bit_join bit_simps)

lemma horner_nibble:
  assumes "bit n 0 = bit x m" "bit n 1 = bit x (m + 1)" "bit n 2 = bit x (m + 2)" "bit n 3 = bit x (m + 3)"
  shows "horner (m + 4) x h = nib h n XOR mulx4 (horner m x h)"
  using assms by (simp add: numeral_eq_Suc nib_def mulx4_def mulx_xor xor.assoc)

lemma table_shift_bits:
  fixes zh zl w :: "64 word"
  shows "join (drop_bit 1 zh XOR w, push_bit 63 zh OR drop_bit 1 zl) = drop_bit 1 (join (zh, zl)) XOR push_bit 64 (ucast w)"
proof (rule bit_word_eqI)
  fix i assume "i < LENGTH(128)"
  then consider "i < 63" | "i = 63" | "64 \<le> i" "i < 128" by fastforce
  then show "bit (join (drop_bit 1 zh XOR w, push_bit 63 zh OR drop_bit 1 zl)) i =
      bit (drop_bit 1 (join (zh, zl)) XOR push_bit 64 (ucast w)) i"
  proof cases
    case 3
    then have "Suc i - 64 = Suc (i - 64)" by linarith
    with 3 show ?thesis by (auto simp: bit_join bit_simps dest: bit_imp_le_length)
  next
    case 2
    have "\<not> bit zl 64" by (auto dest: bit_imp_le_length)
    with 2 show ?thesis by (simp add: bit_join bit_simps)
  next
    case 1
    then show ?thesis by (simp add: bit_join bit_simps)
  qed
qed

lemma table_shift_join: "join (table_shift v) = mulx (join v)"
proof -
  obtain vh vl where v: "v = (vh, vl)" by force
  have T: "ucast ((ucast (vl AND 1) :: 32 word) * 0xe1000000) = (if bit vl 0 then 0xe1000000 else 0 :: 64 word)"
    by (cases "bit vl 0") (simp_all add: and_one_eq bit_0 odd_iff_mod_2_eq_one)
  have R: "push_bit 64 (ucast (push_bit 32 0xe1000000 :: 64 word)) = gf_R"
    by (simp add: gf_R_def)
  have b: "bit (join (vh, vl)) 0 = bit vl 0" by (simp add: bit_join)
  show ?thesis
    by (simp only: v table_shift_def Let_def prod.case table_shift_bits mulx_def b T) (auto simp: R [symmetric])
qed

lemma word_of_nat_bits:
  "bit (word_of_nat n :: byte) 0 = odd n" "bit (word_of_nat n :: byte) 1 = odd (n div 2)"
  "bit (word_of_nat n :: byte) 2 = odd (n div 4)" "bit (word_of_nat n :: byte) 3 = odd (n div 8)"
  by (simp_all add: bit_of_nat_iff bit_iff_odd [of n])

lemma gcm_tables_ok:
  assumes "gcm_tables h (replicate 16 0) (replicate 16 0) = (hh, hl)"
    and v: "v = (push_bit 32 (GET_UINT32_BE h 0) OR GET_UINT32_BE h 4, push_bit 32 (GET_UINT32_BE h 8) OR GET_UINT32_BE h 12)"
  shows "n < 16 \<Longrightarrow> join (hh ! n, hl ! n) = nib (join v) (word_of_nat n)"
proof -
  obtain a8 b8 where v8: "v = (a8, b8)" by force
  obtain a4 b4 where v4: "table_shift v = (a4, b4)" by force
  obtain a2 b2 where v2: "table_shift (a4, b4) = (a2, b2)" by force
  obtain a1 b1 where v1: "table_shift (a2, b2) = (a1, b1)" by force
  have j: "join (a4, b4) = mulx (join v)" "join (a2, b2) = mulx (mulx (join v))"
    "join (a1, b1) = mulx (mulx (mulx (join v)))"
    using table_shift_join [of v] table_shift_join [of "(a4, b4)"] table_shift_join [of "(a2, b2)"]
    by (simp_all add: v4 v2 v1)
  define sums where "sums = (\<lambda>c8 c4 c2 c1 :: 64 word. [0, c1, c2, c2 XOR c1, c4, c4 XOR c1, c4 XOR c2, c4 XOR c2 XOR c1,
     c8, c8 XOR c1, c8 XOR c2, c8 XOR c2 XOR c1, c8 XOR c4, c8 XOR c4 XOR c1, c8 XOR c4 XOR c2, c8 XOR c4 XOR c2 XOR c1])"
  have s: "fold table_sums [2, 4, 8] [0, c1, c2, 0, c4, 0, 0, 0, c8, 0, 0, 0, 0, 0, 0, 0] = sums c8 c4 c2 c1"
    for c1 c2 c4 c8
    by (simp add: table_sums_def Let_def upt_conv_Cons sums_def)
  have "hh = sums a8 a4 a2 a1" "hl = sums b8 b4 b2 b1"
    using assms(1) v8 [unfolded v] v4 [unfolded v8] v2 v1
    by (simp_all add: gcm_tables_def Let_def table_pow_def numeral_eq_Suc flip: s)
  moreover have "join (0, 0) = 0" by (simp add: join_def)
  moreover assume "n < 16"
  then have "n \<in> {0, 1, 2, 3, 4, 5, 6, 7, 8, 9, 10, 11, 12, 13, 14, 15}" by (simp, arith)
  ultimately show ?thesis
    using j v8 by (auto simp: sums_def nib_def word_of_nat_bits join_xor xor.assoc)
qed

section \<open>The product\<close>

lemma nibble_lo: "unat (b AND 0x0f :: byte) < 16"
proof -
  have "b AND 0x0f \<le> 0x0f" by (rule word_and_le1)
  then show ?thesis by (simp add: word_le_nat_alt)
qed

lemma nibble_hi: "unat (drop_bit 4 b :: byte) < 16"
  using unsigned_less [of b, where 'a = nat]
  by (simp add: drop_bit_eq_div unat_div less_mult_imp_div_less)

lemma mult_add_join:
  assumes "tables_ok ctx h" "unat n < 16"
  shows "join (mult_add ctx n z) = nib h n XOR join z"
proof -
  obtain zh zl where z: "z = (zh, zl)" by force
  have "join (HH ctx ! unat n, HL ctx ! unat n) = nib h n" using assms by (simp add: tables_ok_def)
  then show ?thesis by (simp add: z mult_add_def join_xor xor.commute)
qed

lemma mult_step_horner:
  fixes x :: bytes
  assumes "tables_ok ctx h" "length x = 16" "i < 16"
    and z: "join z = (if i = 15 then horner 4 (be_word x) h else horner (8 * (15 - i)) (be_word x) h)"
  shows "join (mult_step ctx x i z) = horner (8 * (16 - i)) (be_word x) h"
proof -
  let ?X = "be_word x :: 128 word" and ?m = "8 * (15 - i)"
  have bits: "bit ?X (?m + r) = bit (x ! i) r" if "r < 8" for r
  proof -
    have "?m + r < 128" "15 - i < 16" using that by linarith+
    then show ?thesis using that assms(2,3) by (simp add: bit_be_word rev_nth)
  qed
  have lo: "horner (?m + 4) ?X h = nib h (x ! i AND 0x0f) XOR mulx4 (horner ?m ?X h)"
    using bits [of 0] bits [of 1] bits [of 2] bits [of 3]
    by (intro horner_nibble) (simp_all add: bit_simps)
  have hi: "horner (?m + 4 + 4) ?X h = nib h (drop_bit 4 (x ! i)) XOR mulx4 (horner (?m + 4) ?X h)"
    using bits [of 4] bits [of 5] bits [of 6] bits [of 7]
    by (intro horner_nibble) (simp_all add: bit_simps add_ac)
  define z1 where "z1 = (if i \<noteq> 15 then mult_add ctx (x ! i AND 0x0f) (mult_shift z) else z)"
  have z1: "join z1 = horner (?m + 4) ?X h"
    using z lo mult_add_join [OF assms(1) nibble_lo] by (auto simp: z1_def mult_shift_join)
  have "mult_step ctx x i z = mult_add ctx (drop_bit 4 (x ! i)) (mult_shift z1)"
    by (simp add: mult_step_def z1_def Let_def)
  then have "join (mult_step ctx x i z) = horner (?m + 4 + 4) ?X h"
    using hi z1 mult_add_join [OF assms(1) nibble_hi] by (simp add: mult_shift_join)
  moreover have "?m + 4 + 4 = 8 * (16 - i)" using assms(3) by simp
  ultimately show ?thesis by simp
qed

lemma length_PUT_BE [simp]: "length (PUT_UINT32_BE n) = 4"
  by (simp add: PUT_UINT32_BE_def)

lemma be_word_output:
  "be_word (PUT_UINT32_BE (drop_bit 32 zh) @ PUT_UINT32_BE zh @ PUT_UINT32_BE (drop_bit 32 zl) @ PUT_UINT32_BE zl) =
   join (zh, zl)"
  by (rule octets_eqI [where n = 16]) (simp_all add: octets_128 PUT_UINT32_BE_def bit_join octet_simps)

lemma gcm_mult_spec:
  assumes "tables_ok ctx h" "length x = 16"
  shows "length (gcm_mult ctx x) = 16 \<and> be_word (gcm_mult ctx x) = gf_mult (be_word x) h"
proof -
  let ?lo = "x ! 15 AND 0x0f" and ?X = "be_word x :: 128 word"
  let ?z = "(HH ctx ! unat ?lo, HL ctx ! unat ?lo)"
  have bits: "bit ?X r = bit (x ! 15) r" if "r < 8" for r
    using that assms(2) by (simp add: bit_be_word rev_nth)
  have start: "join ?z = horner 4 ?X h"
  proof -
    have "horner (0 + 4) ?X h = nib h ?lo XOR mulx4 (horner 0 ?X h)"
      using bits [of 0] bits [of 1] bits [of 2] bits [of 3]
      by (intro horner_nibble) (simp_all add: bit_simps numeral_2_eq_2)
    then show ?thesis using assms(1) nibble_lo [of "x ! 15"] by (simp add: tables_ok_def mulx4_def)
  qed
  have "join (fold (mult_step ctx x) (rev [k..<16]) ?z) = horner (8 * (16 - k)) ?X h" if "k < 16" for k
    using that
  proof (induction "15 - k" arbitrary: k)
    case 0
    then have "k = 15" by simp
    then show ?case using mult_step_horner [OF assms, of 15 ?z] start by simp
  next
    case (Suc n)
    then have "rev [k..<16] = rev [Suc k..<16] @ [k]" by (simp add: upt_conv_Cons)
    moreover have "join (fold (mult_step ctx x) (rev [Suc k..<16]) ?z) = horner (8 * (16 - Suc k)) ?X h"
      using Suc by simp
    moreover have "k \<noteq> 15" using Suc.hyps(2) by auto
    ultimately show ?case using mult_step_horner [OF assms, of k] Suc.prems by simp
  qed
  from this [of 0] have z: "join (fold (mult_step ctx x) (rev [0..<16]) ?z) = gf_mult ?X h"
    by (simp add: gf_mult_horner del: upt_rec_numeral horner.simps)
  obtain zh zl where f: "fold (mult_step ctx x) (rev [0..<16]) ?z = (zh, zl)" by force
  then have "gcm_mult ctx x = PUT_UINT32_BE (drop_bit 32 zh) @ PUT_UINT32_BE zh @
      PUT_UINT32_BE (drop_bit 32 zl) @ PUT_UINT32_BE zl"
    by (simp add: gcm_mult_def Let_def del: upt_rec_numeral)
  then show ?thesis using z f by (simp add: be_word_output)
qed

end
