(* ===== verification/Gcm_Properties.thy ===== *)
theory Gcm_Properties
  imports Gcm_Spec
begin

unbundle bit_operations_syntax

text \<open>
  GHASH, counter mode and authenticated encryption of NIST SP 800-38D, and the theorems that gcm.c
  implements them with AES, that decryption inverts encryption and that a wrong tag is rejected.
\<close>

section \<open>SP 800-38D\<close>

definition pad16 :: "bytes \<Rightarrow> bytes" where
  "pad16 p = p @ replicate ((16 - length p mod 16) mod 16) 0"

definition block :: "128 word \<Rightarrow> bytes" where
  "block w = be_bytes 16 (uint w)"

function sp_ghash :: "128 word \<Rightarrow> 128 word \<Rightarrow> bytes \<Rightarrow> 128 word" where
  "sp_ghash h y p =
     (if p = [] then y else sp_ghash h (gf_mult (y XOR be_word (take 16 p)) h) (drop 16 p))"
  by pat_completeness auto
termination
  by (relation "measure (\<lambda>(h, y, p). length p)") auto

declare sp_ghash.simps [simp del]

definition inc32 :: "128 word \<Rightarrow> 128 word" where
  "inc32 w = word_of_int ((uint w div 2 ^ 32) * 2 ^ 32 + (uint w + 1) mod 2 ^ 32)"

function sp_gctr :: "(bytes \<Rightarrow> bytes) \<Rightarrow> 128 word \<Rightarrow> bytes \<Rightarrow> bytes" where
  "sp_gctr E cb p =
     (if p = [] then [] else map2 (XOR) (E (block cb)) (take 16 p) @ sp_gctr E (inc32 cb) (drop 16 p))"
  by pat_completeness auto
termination
  by (relation "measure (\<lambda>(E, cb, p). length p)") auto

declare sp_gctr.simps [simp del]

definition sp_J0 :: "128 word \<Rightarrow> bytes \<Rightarrow> 128 word" where
  "sp_J0 h iv = (if length iv = 12 then be_word (iv @ [0, 0, 0, 1])
     else sp_ghash h 0 (pad16 iv @ replicate 8 0 @ be_bytes 8 (8 * int (length iv))))"

definition sp_tag :: "(bytes \<Rightarrow> bytes) \<Rightarrow> bytes \<Rightarrow> bytes \<Rightarrow> bytes \<Rightarrow> nat \<Rightarrow> bytes" where
  "sp_tag E iv a c n =
     (let h = be_word (E (replicate 16 0));
          s = sp_ghash h 0 (pad16 a @ pad16 c @ be_bytes 8 (8 * int (length a)) @ be_bytes 8 (8 * int (length c)))
      in take n (sp_gctr E (sp_J0 h iv) (block s)))"

definition sp_crypt :: "(bytes \<Rightarrow> bytes) \<Rightarrow> bytes \<Rightarrow> bytes \<Rightarrow> bytes" where
  "sp_crypt E iv p = sp_gctr E (inc32 (sp_J0 (be_word (E (replicate 16 0))) iv)) p"

section \<open>Blocks\<close>

lemma length_block [simp]: "length (block w) = 16"
  by (simp add: block_def)

lemma block_be_word: "length p = 16 \<Longrightarrow> block (be_word p) = p"
  using be_word_bytes [of p 16, where 'a = 128] by (simp add: block_def)

lemma be_word_xor:
  "length a = length b \<Longrightarrow> be_word (map2 (XOR) a b) = (be_word a XOR be_word b :: 'a::len word)"
  by (rule bit_word_eqI) (auto simp: bit_be_word bit_simps rev_map [symmetric] rev_nth)

lemma xor_into_pad:
  assumes "length acc = 16" "length c \<le> 16"
  shows "length (xor_into acc c) = 16"
    "be_word (xor_into acc c) = (be_word acc XOR be_word (c @ replicate (16 - length c) 0) :: 128 word)"
proof -
  show "length (xor_into acc c) = 16" using assms by (simp add: xor_into_def)
  have "xor_into acc c = map2 (XOR) acc (c @ replicate (16 - length c) 0)"
    using assms by (intro nth_equalityI) (auto simp: xor_into_def nth_append)
  then show "be_word (xor_into acc c) = (be_word acc XOR be_word (c @ replicate (16 - length c) 0) :: 128 word)"
    using assms by (simp add: be_word_xor)
qed

lemma pad16_drop: "16 \<le> length p \<Longrightarrow> pad16 p = take 16 p @ pad16 (drop 16 p)"
proof -
  assume "16 \<le> length p"
  moreover from this have "(length p - 16) mod 16 = length p mod 16" by (metis le_mod_geq)
  ultimately show ?thesis by (simp add: pad16_def)
qed

lemma pad16_short: "p \<noteq> [] \<Longrightarrow> length p < 16 \<Longrightarrow> pad16 p = p @ replicate (16 - length p) 0"
  by (cases "length p = 0") (simp_all add: pad16_def)

text \<open>One step of GHASH on a padded string.\<close>

lemma sp_ghash_step:
  assumes "p \<noteq> []"
  shows "sp_ghash h y (pad16 p @ q) =
    sp_ghash h (gf_mult (y XOR be_word (take 16 p @ replicate (16 - length (take 16 p)) 0)) h) (pad16 (drop 16 p) @ q)"
proof (cases "16 \<le> length p")
  case True
  then show ?thesis using assms by (simp add: pad16_drop sp_ghash.simps [of h y "take 16 p @ _"])
next
  case False
  then show ?thesis using assms by (simp add: pad16_short pad16_def [of "[]"] sp_ghash.simps [of h y "p @ _"])
qed

lemma ghash_loop_spec:
  assumes "tables_ok ctx h" "length acc = 16"
  shows "length (ghash_loop ctx acc p) = 16 \<and>
    sp_ghash h (be_word acc) (pad16 p @ q) = sp_ghash h (be_word (ghash_loop ctx acc p)) q"
  using assms
proof (induction ctx acc p rule: ghash_loop.induct)
  case (1 ctx acc p)
  show ?case
  proof (cases "p = []")
    case True
    then show ?thesis using 1 by (simp add: ghash_loop.simps [of ctx acc] pad16_def)
  next
    case False
    let ?acc = "gcm_mult ctx (xor_into acc (take 16 p))"
    have x: "length (xor_into acc (take 16 p)) = 16"
      "be_word (xor_into acc (take 16 p)) =
        (be_word acc XOR be_word (take 16 p @ replicate (16 - length (take 16 p)) 0) :: 128 word)"
      using xor_into_pad [of acc "take 16 p"] 1(3) by simp_all
    have m: "length ?acc = 16" "be_word ?acc = gf_mult (be_word (xor_into acc (take 16 p))) h"
      using gcm_mult_spec [OF 1(2) x(1)] by simp_all
    have "ghash_loop ctx acc p = ghash_loop ctx ?acc (drop 16 p)"
      using False by (simp add: ghash_loop.simps [of ctx acc p])
    then show ?thesis using 1(1) [OF False 1(2) m(1)] sp_ghash_step [OF False, of h "be_word acc" q] m(2) x(2) by simp
  qed
qed

section \<open>Counter mode\<close>

lemma uint_byte_lt: "uint (b :: byte) < 256" "0 \<le> uint (b :: byte)"
  using uint_lt2p [of b] by simp_all

lemma uint_byte_inc: "uint (b + 1 :: byte) = (uint b + 1) mod 256"
  by (simp add: uint_word_ariths)

lemma byte_inc_0: "(b + 1 :: byte) = 0 \<longleftrightarrow> uint b = 255"
proof -
  have "(b + 1 = 0) = (uint (b + 1) = 0)" by (simp add: uint_0_iff)
  then show ?thesis using uint_byte_lt [of b] by (cases "uint b = 255") (simp_all add: uint_byte_inc)
qed

lemma incr_counter_eval:
  "length p = 12 \<Longrightarrow> incr_counter 4 (p @ [a, b, c, d]) =
     (if d + 1 \<noteq> 0 then p @ [a, b, c, d + 1] else if c + 1 \<noteq> 0 then p @ [a, b, c + 1, 0]
      else if b + 1 \<noteq> 0 then p @ [a, b + 1, 0, 0] else p @ [a + 1, 0, 0, 0])"
  by (simp add: eval_nat_numeral Let_def list_update_append nth_append)

lemma incr_counter_spec:
  assumes "length y = 16"
  shows "length (incr_counter 4 y) = 16" "be_word (incr_counter 4 y) = inc32 (be_word y)"
proof -
  obtain p a b c d where y: "y = p @ [a, b, c, d]" "length p = 12"
  proof -
    have "y = take 12 y @ drop 12 y" by simp
    moreover obtain a b c d where "drop 12 y = [a, b, c, d]" using list4_cases [of "drop 12 y"] assms by auto
    ultimately show thesis using that [of "take 12 y" a b c d] assms by simp
  qed
  show len: "length (incr_counter 4 y) = 16"
    using assms by (simp add: numeral_eq_Suc Let_def)
  define P where "P = le_int (rev p)"
  have le: "le_int (rev (p @ [a', b', c', d'])) =
      uint d' + 256 * uint c' + 65536 * uint b' + 16777216 * uint a' + 4294967296 * P" for a' b' c' d'
    by (simp add: le_int_append P_def)
  have "le_int (rev y) < 256 ^ 16" "0 \<le> le_int (rev y)"
    using le_int_bounds [of "rev y"] assms by simp_all
  then have X: "uint (be_word y :: 128 word) = le_int (rev y)"
    by (simp add: be_word_def uint_word_of_int)
  define L where "L = uint d + 256 * uint c + 65536 * uint b + 16777216 * uint a"
  have L: "0 \<le> L" "L < 4294967296"
    using uint_byte_lt [of a] uint_byte_lt [of b] uint_byte_lt [of c] uint_byte_lt [of d] by (simp_all add: L_def)
  have Y: "le_int (rev y) = L + 4294967296 * P" by (simp only: y(1) le L_def)
  have div: "le_int (rev y) div 4294967296 = P" using L by (simp add: Y)
  have mod: "(le_int (rev y) + 1) mod 4294967296 = (L + 1) mod 4294967296"
    using mod_mult_self2 [of "L + 1" 4294967296 P] by (simp add: Y algebra_simps)
  note bd = uint_byte_lt [of a] uint_byte_lt [of b] uint_byte_lt [of c] uint_byte_lt [of d]
  have inc: "uint (e + 1 :: byte) = uint e + 1" if "uint e \<noteq> 255" for e
    using that uint_byte_lt [of e] by (simp add: uint_byte_inc)
  have lt: "(L + 1) mod 4294967296 = L + 1" if "\<not> (uint a = 255 \<and> uint b = 255 \<and> uint c = 255 \<and> uint d = 255)"
    using that bd by (auto simp: L_def)
  have "le_int (rev (incr_counter 4 y)) = P * 4294967296 + (L + 1) mod 4294967296"
  proof (cases "uint a = 255 \<and> uint b = 255 \<and> uint c = 255 \<and> uint d = 255")
    case True
    then have "uint (a + 1) = 0" "L + 1 = 4294967296" by (simp_all add: uint_byte_inc L_def)
    then show ?thesis using True by (simp add: y incr_counter_eval byte_inc_0 le del: rev_append)
  next
    case False
    then show ?thesis unfolding lt [OF False]
      by (auto simp: y incr_counter_eval byte_inc_0 le inc L_def simp del: rev_append)
  qed
  then show "be_word (incr_counter 4 y) = inc32 (be_word y)"
    by (simp add: inc32_def X div mod) (simp add: be_word_def)
qed

text \<open>A context with a key: the block cipher it computes and the tables of its hash key.\<close>

definition gcm_ready :: "aes_tables \<Rightarrow> gcm_context \<Rightarrow> (bytes \<Rightarrow> bytes) \<Rightarrow> bool" where
  "gcm_ready t ctx E \<longleftrightarrow> tables_ok ctx (be_word (E (replicate 16 0))) \<and>
     (\<forall>x. length x = 16 \<longrightarrow> aes_cipher t (aes_ctx ctx) x = Some (E x) \<and> length (E x) = 16)"

lemma aes_cipher_mode [simp]: "aes_cipher t (c\<lparr>aes_mode := m\<rparr>) x = aes_cipher t c x"
  by (simp add: aes_cipher_def cong: option.case_cong)

lemma gcm_mult_cong: "HH ctx' = HH ctx \<Longrightarrow> HL ctx' = HL ctx \<Longrightarrow> gcm_mult ctx' = gcm_mult ctx"
proof -
  assume "HH ctx' = HH ctx" "HL ctx' = HL ctx"
  then have "mult_step ctx' = mult_step ctx"
    by (intro ext) (simp add: mult_step_def mult_add_def Let_def)
  with \<open>HH ctx' = HH ctx\<close> \<open>HL ctx' = HL ctx\<close> show ?thesis by (intro ext) (simp add: gcm_mult_def)
qed

lemma ghash_loop_cong:
  "HH ctx' = HH ctx \<Longrightarrow> HL ctx' = HL ctx \<Longrightarrow> ghash_loop ctx' acc p = ghash_loop ctx acc p"
proof (induction ctx acc p rule: ghash_loop.induct)
  case (1 ctx acc p)
  then show ?case using gcm_mult_cong [OF 1(2,3)]
    by (cases "p = []") (simp_all add: ghash_loop.simps [of ctx' acc] ghash_loop.simps [of ctx acc])
qed

lemma length_sp_gctr:
  "(\<And>x. length x = 16 \<Longrightarrow> length (E x) = 16) \<Longrightarrow> length (sp_gctr E cb p) = length p"
proof (induction E cb p rule: sp_gctr.induct)
  case (1 E cb p)
  then show ?case by (cases "p = []") (simp_all add: sp_gctr.simps [of E cb])
qed

lemma update_loop_spec:
  assumes "gcm_ready t ctx E" "length (gcm_y ctx) = 16" "length (gcm_buf ctx) = 16"
  shows "\<exists>y b. let c = sp_gctr E (inc32 (be_word (gcm_y ctx))) input in
    update_loop t ctx input out = Some (out @ c, ctx\<lparr>gcm_y := y, gcm_buf := b\<rparr>) \<and> length b = 16 \<and>
    (\<forall>q. sp_ghash (be_word (E (replicate 16 0))) (be_word (gcm_buf ctx))
        (pad16 (if gcm_mode ctx = ENCRYPT then c else input) @ q) =
      sp_ghash (be_word (E (replicate 16 0))) (be_word b) q)"
  using assms
proof (induction t ctx input out rule: update_loop.induct)
  case (1 t ctx input out)
  let ?h = "be_word (E (replicate 16 0)) :: 128 word"
  have R: "length x = 16 \<Longrightarrow> aes_cipher t (aes_ctx ctx) x = Some (E x) \<and> length (E x) = 16" for x
    using 1(2) by (simp add: gcm_ready_def)
  show ?case
  proof (cases "input = []")
    case True
    then show ?thesis using 1(4)
      by (intro exI [of _ "gcm_y ctx"] exI [of _ "gcm_buf ctx"])
        (simp add: update_loop.simps [of t ctx] sp_gctr.simps [of E _ "[]"] pad16_def)
  next
    case False
    define chunk where "chunk = take 16 input"
    define y where "y = incr_counter 4 (gcm_y ctx)"
    have y: "length y = 16" "block (inc32 (be_word (gcm_y ctx))) = y" "be_word y = inc32 (be_word (gcm_y ctx))"
      using incr_counter_spec [OF 1(3)] block_be_word [of y] by (simp_all add: y_def)
    define o1 where "o1 = map2 (XOR) (E y) chunk"
    define u where "u = (if gcm_mode ctx = ENCRYPT then o1 else chunk)"
    define x where "x = xor_into (gcm_buf ctx) (if gcm_mode ctx = ENCRYPT then o1 else chunk)"
    define b1 where "b1 = gcm_mult ctx x"
    have xu: "x = xor_into (gcm_buf ctx) u" by (simp add: x_def u_def)
    have len: "length o1 = length chunk" "length u = length chunk" "length chunk \<le> 16"
      using R [OF y(1)] by (auto simp: o1_def u_def chunk_def)
    have b1: "length b1 = 16" "be_word b1 = gf_mult (be_word (gcm_buf ctx) XOR be_word (u @ replicate (16 - length u) 0)) ?h"
      using gcm_mult_spec [of ctx ?h "xor_into (gcm_buf ctx) u"] xor_into_pad [of "gcm_buf ctx" u] 1(2,4) len
      by (auto simp: b1_def gcm_ready_def xu)
    let ?ctx = "ctx\<lparr>gcm_y := y, gcm_buf := b1\<rparr>" and ?c = "sp_gctr E (inc32 (be_word y)) (drop 16 input)"
    have ready: "gcm_ready t ?ctx E" using 1(2) by (simp add: gcm_ready_def tables_ok_def)
    have "\<exists>y' b. let c = sp_gctr E (inc32 (be_word (gcm_y ?ctx))) (drop 16 input) in
        update_loop t ?ctx (drop 16 input) (out @ o1) = Some ((out @ o1) @ c, ?ctx\<lparr>gcm_y := y', gcm_buf := b\<rparr>) \<and> length b = 16 \<and>
        (\<forall>q. sp_ghash ?h (be_word (gcm_buf ?ctx))
            (pad16 (if gcm_mode ?ctx = ENCRYPT then c else drop 16 input) @ q) = sp_ghash ?h (be_word b) q)"
      using 1(1) [OF False chunk_def y_def conjunct1 [OF R [OF y(1)]] o1_def x_def, folded b1_def, OF ready]
        y(1) b1(1) by simp
    then obtain y' b where ih: "update_loop t ?ctx (drop 16 input) (out @ o1) = Some (out @ o1 @ ?c, ctx\<lparr>gcm_y := y', gcm_buf := b\<rparr>)"
      "length b = 16" "\<And>q. sp_ghash ?h (be_word b1) (pad16 (if gcm_mode ctx = ENCRYPT then ?c else drop 16 input) @ q) = sp_ghash ?h (be_word b) q"
      by (auto simp: Let_def)
    have c: "sp_gctr E (inc32 (be_word (gcm_y ctx))) input = o1 @ ?c"
      using False by (simp add: sp_gctr.simps [of E _ input] y o1_def chunk_def)
    have mb: "gcm_mult ctx (xor_into (gcm_buf ctx) (if gcm_mode ctx = ENCRYPT then map2 (XOR) (E y) chunk else chunk)) = b1"
      by (simp add: b1_def x_def o1_def)
    have up: "update_loop t ctx input out = Some (out @ o1 @ ?c, ctx\<lparr>gcm_y := y', gcm_buf := b\<rparr>)"
      using False ih(1) R [OF y(1)]
      by (simp add: update_loop.simps [of t ctx input] Let_def mb flip: chunk_def y_def split del: if_split)
        (simp flip: o1_def)
    have hash: "sp_ghash ?h (be_word (gcm_buf ctx)) (pad16 (if gcm_mode ctx = ENCRYPT then o1 @ ?c else input) @ q) =
        sp_ghash ?h (be_word b) q" for q
    proof -
      let ?p = "if gcm_mode ctx = ENCRYPT then o1 @ ?c else input"
      have "?c = []" if "length chunk < 16"
        using that by (simp add: chunk_def sp_gctr.simps [of E _ "[]"])
      then have "take 16 ?p = u" "drop 16 ?p = (if gcm_mode ctx = ENCRYPT then ?c else drop 16 input)"
        using len by (cases "length chunk < 16"; auto simp: u_def chunk_def)+
      moreover have "chunk \<noteq> []" using False by (simp add: chunk_def)
      then have "?p \<noteq> []" using False len(1) by auto
      ultimately show ?thesis using sp_ghash_step [of ?p ?h "be_word (gcm_buf ctx)" q] b1(2) ih(3) by simp
    qed
    show ?thesis using up ih(2) hash c by (intro exI [of _ y'] exI [of _ b]) (simp add: Let_def)
  qed
qed

section \<open>Start, finish, whole messages\<close>

lemma be_word_zero: "be_word (replicate n 0) = (0 :: 'a::len word)"
  by (rule bit_word_eqI) (simp add: bit_be_word)

lemma horner_0: "horner m 0 h = 0"
  by (induction m) simp_all

lemma sp_ghash_block:
  "length q = 16 \<Longrightarrow> sp_ghash h y q = gf_mult (y XOR be_word q) h"
  by (auto simp: sp_ghash.simps [of h y q] sp_ghash.simps [of h _ "[]"])

lemma uint_mult8: "n < 2 ^ 29 \<Longrightarrow> uint (of_nat n * 8 :: 32 word) = 8 * int n"
proof -
  assume "n < 2 ^ 29"
  moreover have "of_nat n * 8 = (of_nat (8 * n) :: 32 word)" by simp
  ultimately show ?thesis by (simp only: unsigned_of_nat) (simp add: take_bit_nat_eq_self)
qed

lemma PUT_BE_bytes: "PUT_UINT32_BE (drop_bit 32 w) @ PUT_UINT32_BE w = be_bytes 8 (uint w)"
proof -
  have "be_word (PUT_UINT32_BE (drop_bit 32 w) @ PUT_UINT32_BE w) = w"
    by (rule octets_eqI [where n = 8]) (simp_all add: octets_64 PUT_UINT32_BE_def octet_simps)
  then show ?thesis
    using be_word_bytes [of "PUT_UINT32_BE (drop_bit 32 w) @ PUT_UINT32_BE w" 8, where 'a = 64] by simp
qed

lemma PUT_BE_bytes2:
  "PUT_UINT32_BE (drop_bit 32 a) @ PUT_UINT32_BE a @ PUT_UINT32_BE (drop_bit 32 b) @ PUT_UINT32_BE b =
   be_bytes 8 (uint a) @ be_bytes 8 (uint b)"
  by (simp flip: PUT_BE_bytes)

lemma start_y_spec:
  assumes "tables_ok ctx h" "length iv < 2 ^ 29"
  shows "length (start_y ctx iv) = 16 \<and> be_word (start_y ctx iv) = sp_J0 h iv"
proof (cases "length iv = 12")
  case True
  then have "start_y ctx iv = iv @ [0, 0, 0, 1]"
    by (simp add: start_y_def list_update_append eval_nat_numeral)
  then show ?thesis using True by (simp add: sp_J0_def)
next
  case False
  let ?y = "ghash_loop ctx (replicate 16 0) iv"
  let ?w = "replicate 8 0 @ be_bytes 8 (8 * int (length iv)) :: bytes"
  have u: "uint (of_nat (length iv) * 8 :: 64 word) = 8 * int (length iv)"
  proof -
    have "of_nat (length iv) * 8 = (of_nat (8 * length iv) :: 64 word)" by simp
    then show ?thesis using assms(2) by (simp only: unsigned_of_nat) (simp add: take_bit_nat_eq_self)
  qed
  have z: "PUT_UINT32_BE (drop_bit 32 (of_nat (length iv) * 8)) = replicate 4 0"
  proof -
    have "uint (drop_bit 32 (of_nat (length iv) * 8 :: 64 word)) = 0"
      using assms(2) by (simp add: drop_bit_eq_div uint_div u)
    then show ?thesis by (simp add: uint_0_iff PUT_UINT32_BE_def eval_nat_numeral)
  qed
  have "replicate 12 0 @ PUT_UINT32_BE (of_nat (length iv) * 8) =
      replicate 8 0 @ PUT_UINT32_BE (drop_bit 32 (of_nat (length iv) * 8)) @ PUT_UINT32_BE (of_nat (length iv) * 8)"
    unfolding z by (simp flip: append_assoc replicate_add)
  then have w: "replicate 12 0 @ PUT_UINT32_BE (of_nat (length iv) * 8) = ?w"
    by (simp only: PUT_BE_bytes u)
  have g: "length ?y = 16" "sp_ghash h 0 (pad16 iv @ ?w) = sp_ghash h (be_word ?y) ?w"
    using ghash_loop_spec [OF assms(1), of "replicate 16 0" iv ?w] by (simp_all add: be_word_zero)
  have x: "length (xor_into ?y ?w) = 16" "be_word (xor_into ?y ?w) = (be_word ?y XOR be_word ?w :: 128 word)"
    using xor_into_pad [of ?y ?w] g(1) by simp_all
  have "start_y ctx iv = gcm_mult ctx (xor_into ?y ?w)"
    using False by (simp only: start_y_def Let_def w if_False)
  then show ?thesis using False gcm_mult_spec [OF assms(1) x(1)] x(2) g(2)
    by (simp add: sp_J0_def sp_ghash_block)
qed

lemma sp_gctr_block: "length q = 16 \<Longrightarrow> sp_gctr E cb q = map2 (XOR) (E (block cb)) q"
  by (auto simp: sp_gctr.simps [of E cb q] sp_gctr.simps [of E _ "[]"])

lemma map2_xor_zero: "length e \<le> m \<Longrightarrow> map2 (XOR) e (replicate m 0) = (e :: bytes)"
  by (intro nth_equalityI) simp_all

lemma finish_spec:
  assumes R: "gcm_ready t ctx E" and b: "length (gcm_buf ctx) = 16" and fin: "gcm_finish ctx n = (tag, ctx')"
    and l: "gcm_len ctx = of_nat lp" "gcm_add_len ctx = of_nat la" "lp < 2 ^ 29" "la < 2 ^ 29"
    and e: "length (base_ectr ctx) = 16" and z: "lp = 0 \<Longrightarrow> la = 0 \<Longrightarrow> gcm_buf ctx = replicate 16 0"
  shows "tag = take n (map2 (XOR) (base_ectr ctx) (block (sp_ghash (be_word (E (replicate 16 0))) (be_word (gcm_buf ctx))
      (be_bytes 8 (8 * int la) @ be_bytes 8 (8 * int lp))))) \<and> gcm_ready t ctx' E"
proof -
  let ?h = "be_word (E (replicate 16 0)) :: 128 word" and ?w = "be_bytes 8 (8 * int la) @ be_bytes 8 (8 * int lp)"
  have tab: "tables_ok ctx ?h" using R by (simp add: gcm_ready_def)
  have u: "uint (ucast (gcm_len ctx * 8) :: 64 word) = 8 * int lp" "uint (ucast (gcm_add_len ctx * 8) :: 64 word) = 8 * int la"
    using uint_mult8 [OF l(3)] uint_mult8 [OF l(4)] l(3,4) by (simp_all add: l(1,2) unsigned_ucast_eq take_bit_int_eq_self)
  have nz: "(ucast (gcm_len ctx * 8) = (0 :: 64 word)) = (lp = 0)" "(ucast (gcm_add_len ctx * 8) = (0 :: 64 word)) = (la = 0)"
    using u by (simp_all flip: uint_0_iff)
  let ?S = "sp_ghash ?h (be_word (gcm_buf ctx)) ?w"
  have S: "?S = gf_mult (be_word (gcm_buf ctx) XOR be_word ?w) ?h" by (rule sp_ghash_block) simp
  show ?thesis
  proof (cases "lp \<noteq> 0 \<or> la \<noteq> 0")
    case True
    let ?buf = "gcm_mult ctx (xor_into (gcm_buf ctx) ?w)"
    have x: "length (xor_into (gcm_buf ctx) ?w) = 16"
      "be_word (xor_into (gcm_buf ctx) ?w) = (be_word (gcm_buf ctx) XOR be_word ?w :: 128 word)"
      using xor_into_pad [OF b, of ?w] by simp_all
    have buf: "length ?buf = 16" "be_word ?buf = ?S" using gcm_mult_spec [OF tab x(1)] x(2) S by simp_all
    then have "block ?S = ?buf" using block_be_word [of ?buf] by simp
    moreover have "(tag, ctx') = (map2 (XOR) (take n (base_ectr ctx)) (take n ?buf), ctx\<lparr>gcm_buf := ?buf\<rparr>)"
    proof -
      have cond: "ucast (gcm_len ctx * 8) \<noteq> (0 :: 64 word) \<or> ucast (gcm_add_len ctx * 8) \<noteq> (0 :: 64 word)"
        using True nz by auto
      show ?thesis using fin by (simp only: gcm_finish_def Let_def if_P [OF cond] PUT_BE_bytes2 u)
    qed
    ultimately show ?thesis using R by (simp add: take_map take_zip gcm_ready_def tables_ok_def)
  next
    case False
    have "be_bytes 8 0 = replicate 8 0" by (simp add: be_bytes_def eval_nat_numeral)
    then have "?S = 0" using False z S
      by (simp add: be_word_zero gf_mult_horner horner_0 flip: replicate_add del: horner.simps)
    then have "block ?S = replicate 16 0" using block_be_word [of "replicate 16 0"] by (simp add: be_word_zero)
    moreover have "(tag, ctx') = (take n (base_ectr ctx), ctx)"
      using fin False by (auto simp: gcm_finish_def Let_def nz)
    ultimately show ?thesis using R e by (simp add: map2_xor_zero)
  qed
qed

lemma crypt_and_tag_spec:
  assumes R: "gcm_ready t ctx E" and len: "length iv < 2 ^ 29" "length a < 2 ^ 29" "length p < 2 ^ 29"
    and n: "n \<le> 16"
  shows "\<exists>ctx'. gcm_crypt_and_tag t ctx mode iv a p n =
      Some (sp_crypt E iv p, sp_tag E iv a (if mode = ENCRYPT then sp_crypt E iv p else p) n, ctx') \<and>
    gcm_ready t ctx' E"
proof -
  let ?h = "be_word (E (replicate 16 0)) :: 128 word"
  have tab: "tables_ok ctx ?h" and E: "\<And>x. length x = 16 \<Longrightarrow> aes_cipher t (aes_ctx ctx) x = Some (E x) \<and> length (E x) = 16"
    using R by (simp_all add: gcm_ready_def)
  define y where "y = start_y ctx iv"
  have y: "length y = 16" "be_word y = sp_J0 ?h iv" "block (sp_J0 ?h iv) = y"
    using start_y_spec [OF tab len(1)] block_be_word [of y] by (simp_all add: y_def)
  define b where "b = ghash_loop ctx (replicate 16 0) a"
  have b: "length b = 16" "\<And>q. sp_ghash ?h 0 (pad16 a @ q) = sp_ghash ?h (be_word b) q"
    using ghash_loop_spec [OF tab, of "replicate 16 0" a] by (simp_all add: b_def be_word_zero)
  define c1 where "c1 = ctx\<lparr>gcm_len := 0, gcm_mode := mode, aes_ctx := (aes_ctx ctx)\<lparr>aes_mode := ENCRYPT\<rparr>,
    gcm_y := y, base_ectr := E y, gcm_add_len := of_nat (length a), gcm_buf := b\<rparr>"
  have start: "gcm_start t ctx mode iv a = Some c1"
  proof -
    let ?c = "ctx\<lparr>gcm_len := 0, gcm_mode := mode, aes_ctx := (aes_ctx ctx)\<lparr>aes_mode := ENCRYPT\<rparr>, gcm_y := y\<rparr>"
    have "ghash_loop ?c (replicate 16 0) a = b" unfolding b_def by (rule ghash_loop_cong) simp_all
    then show ?thesis using E [OF y(1)] by (simp add: gcm_start_def Let_def c1_def flip: y_def)
  qed
  define c2 where "c2 = c1\<lparr>gcm_len := of_nat (length p)\<rparr>"
  have R2: "gcm_ready t c2 E" using R by (simp add: gcm_ready_def tables_ok_def c2_def c1_def)
  have f2: "gcm_y c2 = y" "gcm_buf c2 = b" "gcm_mode c2 = mode" by (simp_all add: c2_def c1_def)
  let ?c = "sp_crypt E iv p" and ?u = "if mode = ENCRYPT then sp_crypt E iv p else p"
  obtain y' b' where up: "update_loop t c2 p [] = Some (?c, c2\<lparr>gcm_y := y', gcm_buf := b'\<rparr>)" "length b' = 16"
    "\<And>q. sp_ghash ?h (be_word b) (pad16 ?u @ q) = sp_ghash ?h (be_word b') q"
    using update_loop_spec [OF R2, of p "[]", unfolded f2 y(2) append_Nil Let_def, folded sp_crypt_def, OF y(1) b(1)]
    by blast
  define c3 where "c3 = c2\<lparr>gcm_y := y', gcm_buf := b'\<rparr>"
  have R3: "gcm_ready t c3 E" using R2 by (simp add: gcm_ready_def tables_ok_def c3_def)
  have upd: "gcm_update t c1 p = Some (?c, c3)"
    using up(1) by (simp add: gcm_update_def c2_def c1_def c3_def)
  have f3: "gcm_len c3 = of_nat (length p)" "gcm_add_len c3 = of_nat (length a)" "base_ectr c3 = E y" "gcm_buf c3 = b'"
    by (simp_all add: c3_def c2_def c1_def)
  have ul: "length ?u = length p" using length_sp_gctr [of E] E by (simp add: sp_crypt_def)
  have tag: "sp_tag E iv a ?u n = take n (map2 (XOR) (E y) (block (sp_ghash ?h (be_word b')
      (be_bytes 8 (8 * int (length a)) @ be_bytes 8 (8 * int (length p))))))"
    using sp_gctr_block [of _ E "sp_J0 ?h iv"] y(3)
    by (simp add: sp_tag_def Let_def ul b(2) up(3))
  have z: "b' = replicate 16 0" if "length p = 0" "length a = 0"
  proof -
    have "b = replicate 16 0" using that by (simp add: b_def ghash_loop.simps [of ctx])
    moreover have "c2\<lparr>gcm_y := y', gcm_buf := b'\<rparr> = c2"
      using up(1) that by (simp add: update_loop.simps [of t c2])
    from arg_cong [OF this, of gcm_buf] have "b' = gcm_buf c2" by simp
    ultimately show ?thesis using f2(2) by simp
  qed
  obtain tg c4 where fin: "gcm_finish c3 n = (tg, c4)" by force
  have "tg = sp_tag E iv a ?u n \<and> gcm_ready t c4 E"
    unfolding tag using finish_spec [OF R3 _ fin f3(1,2) len(3,2)] f3(3,4) up(2) E [OF y(1)] z by simp
  then show ?thesis using start upd fin by (auto simp: gcm_crypt_and_tag_def)
qed


section \<open>Setting the key\<close>

lemma aes_cipher_length: "aes_cipher t c x = Some y \<Longrightarrow> length y = 16"
  by (auto simp: aes_cipher_def Let_def split: option.splits prod.splits)

lemma GET_BE_join:
  assumes "length h = 16"
  shows "join (push_bit 32 (GET_UINT32_BE h 0) OR GET_UINT32_BE h 4,
    push_bit 32 (GET_UINT32_BE h 8) OR GET_UINT32_BE h 12) = be_word h"
proof -
  have r: "rev h ! i = h ! (15 - i)" if "i < 16" for i using that assms by (simp add: rev_nth)
  show ?thesis
    by (rule octets_eqI [where n = 16]) (simp_all add: octets_128 GET_UINT32_BE_def bit_join assms r octet_simps numeral_2_eq_2)
qed

lemma gcm_setkey_ready:
  assumes "length key = 4 * n" "n \<in> {4, 6, 8}" and t: "good_tables t"
  shows "\<exists>ctx. gcm_setkey t c0 key (4 * n) = Some (0, ctx) \<and> gcm_ready t ctx (fips_cipher (n + 6) (fips_key n key))"
proof -
  let ?E = "fips_cipher (n + 6) (fips_key n key)"
  obtain actx where a: "aes_setkey t (aes_ctx gcm_zero_ctx) ENCRYPT key (4 * n) = (0, actx)"
    "\<And>x. length x = 16 \<Longrightarrow> aes_cipher t actx x = Some (?E x)"
    using setkey_cipher [OF t assms(1,2), of "aes_ctx gcm_zero_ctx" ENCRYPT] by (auto simp: gcm_zero_ctx_def)
  have len: "length (?E x) = 16" if "length x = 16" for x using aes_cipher_length [OF a(2) [OF that]] .
  let ?h = "?E (replicate 16 0)"
  obtain hh hl where tb: "gcm_tables ?h (replicate 16 0) (replicate 16 0) = (hh, hl)" by force
  let ?ctx = "gcm_zero_ctx\<lparr>aes_ctx := actx, HH := hh, HL := hl\<rparr>"
  have "tables_ok ?ctx (be_word ?h)"
    using gcm_tables_ok [OF tb refl] GET_BE_join [of ?h] len by (simp add: tables_ok_def)
  moreover have "gcm_setkey t c0 key (4 * n) = Some (0, ?ctx)"
    using a(1,2) tb by (simp add: gcm_setkey_def Let_def) (simp add: gcm_zero_ctx_def)
  ultimately show ?thesis using a(2) len by (auto simp: gcm_ready_def)
qed


section \<open>Properties\<close>

abbreviation "aes_static \<equiv> aes_init_keygen_tables aes_tables_static"

text \<open>C10: after setting a key of 16, 24 or 32 bytes, encrypting gives the ciphertext and the tag of
  AES-GCM as NIST SP 800-38D defines them, for every initialization vector, additional data and
  message below 2 to the 29 bytes: the four-bit tables multiply in the field, and counter mode,
  GHASH and the lengths are those of the standard.\<close>

theorem gcm_is_sp800_38d:
  assumes "length key = 4 * Nk" "Nk \<in> {4, 6, 8}" "E = fips_cipher (Nk + 6) (fips_key Nk key)"
    and "length iv < 2 ^ 29" "length a < 2 ^ 29" "length p < 2 ^ 29" "n \<le> 16"
  shows "\<exists>ctx ctx'. gcm_setkey aes_static c0 key (4 * Nk) = Some (0, ctx) \<and>
    gcm_crypt_and_tag aes_static ctx ENCRYPT iv a p n =
      Some (sp_crypt E iv p, sp_tag E iv a (sp_crypt E iv p) n, ctx')"
proof -
  obtain ctx where "gcm_setkey aes_static c0 key (4 * Nk) = Some (0, ctx)" "gcm_ready aes_static ctx E"
    using gcm_setkey_ready [OF assms(1,2) good_tables_init] assms(3) by blast
  then show ?thesis using crypt_and_tag_spec [OF _ assms(4-7), of _ _ _ ENCRYPT] by fastforce
qed

theorem gcm_is_sp800_38d_witness:
  "\<exists>ctx ctx'. gcm_setkey aes_static gcm_zero_ctx (replicate 16 7) (4 * 4) = Some (0, ctx) \<and>
    gcm_crypt_and_tag aes_static ctx ENCRYPT (replicate 12 1) [] [5, 6] 16 =
      Some (sp_crypt (fips_cipher (4 + 6) (fips_key 4 (replicate 16 7))) (replicate 12 1) [5, 6],
        sp_tag (fips_cipher (4 + 6) (fips_key 4 (replicate 16 7))) (replicate 12 1) []
          (sp_crypt (fips_cipher (4 + 6) (fips_key 4 (replicate 16 7))) (replicate 12 1) [5, 6]) 16, ctx')"
  by (rule gcm_is_sp800_38d) simp_all

lemma sp_gctr_involution:
  "(\<And>x. length x = 16 \<Longrightarrow> length (E x) = 16) \<Longrightarrow> sp_gctr E cb (sp_gctr E cb p) = p"
proof (induction E cb p rule: sp_gctr.induct)
  case (1 E cb p)
  show ?case
  proof (cases "p = []")
    case False
    let ?o = "map2 (XOR) (E (block cb)) (take 16 p)" and ?r = "sp_gctr E (inc32 cb) (drop 16 p)"
    have len: "length (E (block cb)) = 16" using 1(2) by simp
    have o: "length ?o = length (take 16 p)" using len by simp
    have r: "?r = []" if "length p < 16" using that by (simp add: sp_gctr.simps [of E _ "[]"])
    have "take 16 (?o @ ?r) = ?o" "drop 16 (?o @ ?r) = ?r" using o r len by (cases "length p < 16"; simp)+
    moreover have "map2 (XOR) (E (block cb)) ?o = take 16 p"
      using len by (intro nth_equalityI) (simp_all flip: xor.assoc)
    moreover have "sp_gctr E cb p = ?o @ ?r" using False by (simp add: sp_gctr.simps [of E cb p])
    moreover have "?o @ ?r \<noteq> []" using False len o by auto
    ultimately show ?thesis using 1(1) [OF False 1(2)]
      by (simp only: sp_gctr.simps [of E cb "?o @ ?r"] if_False append_take_drop_id)
  qed (simp add: sp_gctr.simps [of E cb])
qed

lemma tag_diff_zero: "length a = length b \<Longrightarrow> tag_diff a b = 0 \<longleftrightarrow> a = b"
proof -
  have step: "fold (\<lambda>(a, b) d. d OR (a XOR b)) (zip a b) d = 0 \<longleftrightarrow> d = 0 \<and> a = b"
    if "length a = length b" for a b and d :: byte
    using that
  proof (induction a b arbitrary: d rule: list_induct2)
    case (Cons x xs y ys)
    have "d OR (x XOR y) = 0 \<longleftrightarrow> d = 0 \<and> x = y"
      by (metis or_eq_0_iff xor.assoc xor.left_neutral xor_self_eq)
    then show ?case using Cons by simp
  qed simp
  assume "length a = length b"
  then show ?thesis using step [of a b 0] by (simp add: tag_diff_def)
qed

lemma length_sp_tag:
  assumes "\<And>x. length x = 16 \<Longrightarrow> length (E x) = 16" "n \<le> 16"
  shows "length (sp_tag E iv a c n) = n"
  using assms length_sp_gctr [of E] by (simp add: sp_tag_def Let_def)

lemma auth_decrypt_spec:
  assumes "gcm_ready t ctx E" "length iv < 2 ^ 29" "length a < 2 ^ 29" "length c < 2 ^ 29" "length tag \<le> 16"
  shows "\<exists>ctx'. gcm_auth_decrypt t ctx iv a c tag =
    Some (if tag = sp_tag E iv a c (length tag) then (0, sp_crypt E iv c, ctx')
          else (GCM_AUTH_FAILURE, replicate (length c) 0, ctx'))"
proof -
  have "DECRYPT \<noteq> ENCRYPT" by (simp add: DECRYPT_def ENCRYPT_def)
  then obtain ctx' where "gcm_crypt_and_tag t ctx DECRYPT iv a c (length tag) =
      Some (sp_crypt E iv c, sp_tag E iv a c (length tag), ctx')"
    using crypt_and_tag_spec [OF assms, of DECRYPT] by auto
  moreover have "length (sp_tag E iv a c (length tag)) = length tag"
    using assms(1,5) by (intro length_sp_tag) (auto simp: gcm_ready_def)
  ultimately show ?thesis by (intro exI [of _ ctx']) (simp add: gcm_auth_decrypt_def tag_diff_zero)
qed

text \<open>C11: authenticated decryption accepts exactly the tags that belong to the ciphertext and the
  additional data under the key; any other tag gives the failure code and an output of zeros.\<close>

theorem gcm_auth_decrypt_checks:
  assumes "length key = 4 * Nk" "Nk \<in> {4, 6, 8}" "E = fips_cipher (Nk + 6) (fips_key Nk key)"
    and "length iv < 2 ^ 29" "length a < 2 ^ 29" "length c < 2 ^ 29" "length tag \<le> 16"
  shows "\<exists>ctx ctx'. gcm_setkey aes_static c0 key (4 * Nk) = Some (0, ctx) \<and>
    gcm_auth_decrypt aes_static ctx iv a c tag =
      Some (if tag = sp_tag E iv a c (length tag) then (0, sp_crypt E iv c, ctx')
            else (GCM_AUTH_FAILURE, replicate (length c) 0, ctx'))"
proof -
  obtain ctx where "gcm_setkey aes_static c0 key (4 * Nk) = Some (0, ctx)" "gcm_ready aes_static ctx E"
    using gcm_setkey_ready [OF assms(1,2) good_tables_init] assms(3) by blast
  then show ?thesis using auth_decrypt_spec [OF _ assms(4-7)] by blast
qed

theorem gcm_auth_decrypt_checks_witness:
  "\<exists>ctx ctx'. gcm_setkey aes_static gcm_zero_ctx (replicate 32 7) (4 * 8) = Some (0, ctx) \<and>
    gcm_auth_decrypt aes_static ctx (replicate 12 1) [9] [5, 6] (replicate 16 0) =
      Some (if replicate 16 0 = sp_tag (fips_cipher (8 + 6) (fips_key 8 (replicate 32 7))) (replicate 12 1) [9] [5, 6]
              (length (replicate 16 (0 :: byte)))
            then (0, sp_crypt (fips_cipher (8 + 6) (fips_key 8 (replicate 32 7))) (replicate 12 1) [5, 6], ctx')
            else (GCM_AUTH_FAILURE, replicate (length [5, 6 :: byte]) 0, ctx'))"
  by (rule gcm_auth_decrypt_checks) simp_all

text \<open>C12: what was encrypted is decrypted: with the same vector and additional data, authenticated
  decryption of a ciphertext with its tag succeeds and returns the message, also on the context
  that encrypted it.\<close>

theorem gcm_roundtrip:
  assumes "length key = 4 * Nk" "Nk \<in> {4, 6, 8}"
    and "length iv < 2 ^ 29" "length a < 2 ^ 29" "length p < 2 ^ 29" "n \<le> 16"
  shows "\<exists>ctx c tag ctx' ctx''. gcm_setkey aes_static c0 key (4 * Nk) = Some (0, ctx) \<and>
    gcm_crypt_and_tag aes_static ctx ENCRYPT iv a p n = Some (c, tag, ctx') \<and>
    gcm_auth_decrypt aes_static ctx' iv a c tag = Some (0, p, ctx'')"
proof -
  let ?E = "fips_cipher (Nk + 6) (fips_key Nk key)" and ?t = "aes_init_keygen_tables aes_tables_static"
  obtain ctx where c: "gcm_setkey ?t c0 key (4 * Nk) = Some (0, ctx)" "gcm_ready ?t ctx ?E"
    using gcm_setkey_ready [OF assms(1,2) good_tables_init] by blast
  have E: "\<And>x. length x = 16 \<Longrightarrow> length (?E x) = 16" using c(2) by (simp add: gcm_ready_def)
  let ?c = "sp_crypt ?E iv p"
  let ?tag = "sp_tag ?E iv a ?c n"
  obtain ctx' where e: "gcm_crypt_and_tag ?t ctx ENCRYPT iv a p n = Some (?c, ?tag, ctx')" "gcm_ready ?t ctx' ?E"
    using crypt_and_tag_spec [OF c(2) assms(3-6), of ENCRYPT] by auto
  have len: "length ?tag = n" "length ?c = length p"
    using length_sp_tag [OF E assms(6)] length_sp_gctr [OF E] by (simp_all add: sp_crypt_def)
  have "sp_crypt ?E iv ?c = p" using sp_gctr_involution [OF E] by (simp add: sp_crypt_def)
  then obtain ctx'' where "gcm_auth_decrypt ?t ctx' iv a ?c ?tag = Some (0, p, ctx'')"
    using auth_decrypt_spec [OF e(2) assms(3,4), of ?c ?tag] len assms(5,6) by auto
  then show ?thesis using c(1) e(1) by blast
qed

theorem gcm_roundtrip_witness:
  "\<exists>ctx c tag ctx' ctx''. gcm_setkey aes_static gcm_zero_ctx (replicate 16 7) (4 * 4) = Some (0, ctx) \<and>
    gcm_crypt_and_tag aes_static ctx ENCRYPT (replicate 12 1) [] [5, 6] 16 = Some (c, tag, ctx') \<and>
    gcm_auth_decrypt aes_static ctx' (replicate 12 1) [] c tag = Some (0, [5, 6], ctx'')"
  by (rule gcm_roundtrip) simp_all

end
