(* ===== verification/Fld.thy ===== *)
theory Fld
  imports SC_Prelude
begin

unbundle bit_operations_syntax

text \<open>
  core/src/libeddsa/src/fld.c and fld.h: arithmetic modulo 2^255 - 19, in the 32-bit variant, which
  is the one compiled where \<^verbatim>\<open>__LP64__\<close> is not defined (Windows, the library's main platform). A
  field element is a list of ten signed limbs of alternating 26 and 25 bits. Limbs are integers;
  the conversions \<^const>\<open>i32\<close> and \<^const>\<open>i64\<close> stand where the source computes in \<^verbatim>\<open>limb_t\<close> and
  \<^verbatim>\<open>llimb_t\<close>. Shifts are arithmetic.
\<close>

type_synonym fld = "int list"

definition FLD_LIMB_NUM :: nat where
  "FLD_LIMB_NUM = 10"

definition FLD_LIMB_BITS :: "nat \<Rightarrow> nat" where
  "FLD_LIMB_BITS d = 25 + d"

definition FLD_LIMB_MASK :: "nat \<Rightarrow> int" where
  "FLD_LIMB_MASK d = push_bit (FLD_LIMB_BITS d) 1 - 1"

section \<open>Constants\<close>

definition con_d :: fld where
  "con_d = [56195235, 13857412, 51736253, 6949390, 114729, 24766616, 60832955, 30306712, 48412415, 21499315]"

definition con_2d :: fld where
  "con_2d = [45281625, 27714825, 36363642, 13898781, 229458, 15978800, 54557047, 27058993, 29715967, 9444199]"

definition con_m2d :: fld where
  "con_m2d = [21827220, 5839606, 30745221, 19655650, 66879405, 17575631, 12551816, 6495438, 37392896, 24110232]"

definition con_j :: fld where
  "con_j = [34513072, 25610706, 9377949, 3500415, 12389472, 33281959, 41962654, 31548777, 326685, 11406482]"

section \<open>Inline functions\<close>

definition fld_set0 :: "int \<Rightarrow> fld" where
  "fld_set0 x0 = x0 # replicate 9 0"

definition fld_add :: "fld \<Rightarrow> fld \<Rightarrow> fld" where
  "fld_add a b = map2 (\<lambda>x y. i32 (x + y)) a b"

definition fld_sub :: "fld \<Rightarrow> fld \<Rightarrow> fld" where
  "fld_sub a b = map2 (\<lambda>x y. i32 (x - y)) a b"

definition fld_tinyscale :: "fld \<Rightarrow> int \<Rightarrow> fld" where
  "fld_tinyscale a x = map (\<lambda>y. i32 (x * y)) a"

definition fld_scale2 :: "fld \<Rightarrow> fld" where
  "fld_scale2 a = map (\<lambda>y. i32 (push_bit 1 y)) a"

definition fld_neg :: "fld \<Rightarrow> fld" where
  "fld_neg a = map (\<lambda>y. i32 (- y)) a"

section \<open>Carrying\<close>

text \<open>The loop of the macro \<^verbatim>\<open>CARRY\<close>; \<^verbatim>\<open>w\<close> is the conversion to the type of \<^verbatim>\<open>tmp\<close>.\<close>

fun carry_loop :: "(int \<Rightarrow> int) \<Rightarrow> int \<Rightarrow> int list \<Rightarrow> int list \<times> int" where
  "carry_loop w tmp (x # y # xs) =
     (let t1 = w (drop_bit (FLD_LIMB_BITS 0) tmp + x);
          t2 = w (drop_bit (FLD_LIMB_BITS 1) t1 + y)
      in case carry_loop w t2 xs of
        (ds, t) \<Rightarrow> ((t1 AND FLD_LIMB_MASK 1) # (t2 AND FLD_LIMB_MASK 0) # ds, t))"
| "carry_loop w tmp xs = ([], tmp)"

text \<open>\<^verbatim>\<open>wd\<close> is the conversion to the type of the destination.\<close>

definition CARRY :: "(int \<Rightarrow> int) \<Rightarrow> (int \<Rightarrow> int) \<Rightarrow> int list \<Rightarrow> int \<Rightarrow> int list" where
  "CARRY w wd src off =
     (case carry_loop w (w (push_bit (FLD_LIMB_BITS 0) off)) src of
        (dst, tmp) \<Rightarrow> dst[0 := wd (dst ! 0 + 19 * drop_bit (FLD_LIMB_BITS 0) tmp)])"

definition fld_reduce :: "fld \<Rightarrow> fld" where
  "fld_reduce x = CARRY i32 i32 (CARRY i32 i32 (CARRY i32 i32 x 19) 0) (-19)"

section \<open>Import and export\<close>

text \<open>The inner loop of \<^verbatim>\<open>fld_import\<close>: bytes are taken until the accumulator holds a limb.\<close>

function import_bytes :: "int \<Rightarrow> nat \<Rightarrow> nat \<Rightarrow> bytes \<Rightarrow> int \<times> nat \<times> bytes" where
  "import_bytes foo fill bits src =
     (if fill < bits then import_bytes (foo OR u32 (push_bit fill (uint (hd src)))) (fill + 8) bits (tl src)
      else (foo, fill, src))"
  by pat_completeness auto
termination
  by (relation "measure (\<lambda>(foo, fill, bits, src). bits - fill)") auto

declare import_bytes.simps [simp del]

fun import_limbs :: "nat \<Rightarrow> nat \<Rightarrow> int \<Rightarrow> nat \<Rightarrow> bytes \<Rightarrow> int list \<times> int" where
  "import_limbs 0 d foo fill src = ([], foo)"
| "import_limbs (Suc n) d foo fill src =
     (case import_bytes foo fill (FLD_LIMB_BITS d) src of (foo, fill, src) \<Rightarrow>
       (case import_limbs n (1 - d) (drop_bit (FLD_LIMB_BITS d) foo) (fill - FLD_LIMB_BITS d) src of
          (ds, foo') \<Rightarrow> (i32 (foo AND FLD_LIMB_MASK d) # ds, foo')))"

definition fld_import :: "bytes \<Rightarrow> fld" where
  "fld_import src = (case import_limbs FLD_LIMB_NUM 1 0 0 src of
     (dst, foo) \<Rightarrow> dst[0 := i32 (dst ! 0 + i32 (19 * foo))])"

text \<open>The inner loop of \<^verbatim>\<open>fld_export\<close>: whole bytes of the accumulator are written.\<close>

function export_bytes :: "int \<Rightarrow> nat \<Rightarrow> bytes \<times> int \<times> nat" where
  "export_bytes foo fill =
     (if 8 \<le> fill then (case export_bytes (drop_bit 8 foo) (fill - 8) of
          (bs, foo', fill') \<Rightarrow> (word_of_int (foo AND 0xff) # bs, foo', fill'))
      else ([], foo, fill))"
  by pat_completeness auto
termination
  by (relation "measure snd") auto

declare export_bytes.simps [simp del]

fun export_limbs :: "nat \<Rightarrow> int \<Rightarrow> nat \<Rightarrow> int list \<Rightarrow> bytes \<times> int" where
  "export_limbs d foo fill [] = ([], foo)"
| "export_limbs d foo fill (x # xs) =
     (case export_bytes (foo OR u32 (push_bit fill (x AND FLD_LIMB_MASK d))) (fill + FLD_LIMB_BITS d) of
        (bs, foo', fill') \<Rightarrow> (case export_limbs (1 - d) foo' fill' xs of (bs', foo'') \<Rightarrow> (bs @ bs', foo'')))"

definition fld_export :: "fld \<Rightarrow> bytes" where
  "fld_export src = (case export_limbs 1 0 0 (fld_reduce src) of (bs, foo) \<Rightarrow> bs @ [word_of_int (foo AND 0xff)])"

section \<open>Multiplication\<close>

fun scale_loop :: "int \<Rightarrow> int \<Rightarrow> int list \<Rightarrow> int list \<times> int" where
  "scale_loop x tmp (e0 # e1 # es) =
     (let t1 = i64 (drop_bit (FLD_LIMB_BITS 0) tmp + x * e0);
          t2 = i64 (drop_bit (FLD_LIMB_BITS 1) t1 + x * e1)
      in case scale_loop x t2 es of
        (ds, t) \<Rightarrow> (i32 (t1 AND FLD_LIMB_MASK 1) # i32 (t2 AND FLD_LIMB_MASK 0) # ds, t))"
| "scale_loop x tmp es = ([], tmp)"

definition fld_scale :: "fld \<Rightarrow> int \<Rightarrow> fld" where
  "fld_scale e x = (case scale_loop x 0 e of
     (dst, tmp) \<Rightarrow> dst[0 := i32 (dst ! 0 + i32 (19 * drop_bit (FLD_LIMB_BITS 0) tmp))])"

definition fld_mul :: "fld \<Rightarrow> fld \<Rightarrow> fld" where
  "fld_mul a b = CARRY i64 i32 (CARRY i64 i64 (map i64 [
     a!0*b!0 + 19 * (2*a!1*b!9 + a!2*b!8 + 2*a!3*b!7 + a!4*b!6 + 2*a!5*b!5 + a!6*b!4 + 2*a!7*b!3 + a!8*b!2 + 2*a!9*b!1),
     a!0*b!1 + a!1*b!0 + 19 * (a!2*b!9 + a!3*b!8 + a!4*b!7 + a!5*b!6 + a!6*b!5 + a!7*b!4 + a!8*b!3 + a!9*b!2),
     a!0*b!2 + 2*a!1*b!1 + a!2*b!0 + 19 * (2*a!3*b!9 + a!4*b!8 + 2*a!5*b!7 + a!6*b!6 + 2*a!7*b!5 + a!8*b!4 + 2*a!9*b!3),
     a!0*b!3 + a!1*b!2 + a!2*b!1 + a!3*b!0 + 19 * (a!4*b!9 + a!5*b!8 + a!6*b!7 + a!7*b!6 + a!8*b!5 + a!9*b!4),
     a!0*b!4 + 2*a!1*b!3 + a!2*b!2 + 2*a!3*b!1 + a!4*b!0 + 19 * (2*a!5*b!9 + a!6*b!8 + 2*a!7*b!7 + a!8*b!6 + 2*a!9*b!5),
     a!0*b!5 + a!1*b!4 + a!2*b!3 + a!3*b!2 + a!4*b!1 + a!5*b!0 + 19 * (a!6*b!9 + a!7*b!8 + a!8*b!7 + a!9*b!6),
     a!0*b!6 + 2*a!1*b!5 + a!2*b!4 + 2*a!3*b!3 + a!4*b!2 + 2*a!5*b!1 + a!6*b!0 + 19 * (2*a!7*b!9 + a!8*b!8 + 2*a!9*b!7),
     a!0*b!7 + a!1*b!6 + a!2*b!5 + a!3*b!4 + a!4*b!3 + a!5*b!2 + a!6*b!1 + a!7*b!0 + 19 * (a!8*b!9 + a!9*b!8),
     a!0*b!8 + 2*a!1*b!7 + a!2*b!6 + 2*a!3*b!5 + a!4*b!4 + 2*a!5*b!3 + a!6*b!2 + 2*a!7*b!1 + a!8*b!0 + 19 * (2*a!9*b!9),
     a!0*b!9 + a!1*b!8 + a!2*b!7 + a!3*b!6 + a!4*b!5 + a!5*b!4 + a!6*b!3 + a!7*b!2 + a!8*b!1 + a!9*b!0]) 0) 0"

definition fld_sq :: "fld \<Rightarrow> fld" where
  "fld_sq a = CARRY i64 i32 (CARRY i64 i64 (map i64 [
     a!0*a!0 + 19 * 2 * (2*a!1*a!9 + a!2*a!8 + 2*a!3*a!7 + a!4*a!6 + a!5*a!5),
     2*a!0*a!1 + 19 * 2 * (a!2*a!9 + a!3*a!8 + a!4*a!7 + a!5*a!6),
     2*(a!0*a!2 + a!1*a!1) + 19 * (2*(2*a!3*a!9 + a!4*a!8 + 2*a!5*a!7) + a!6*a!6),
     2*(a!0*a!3 + a!1*a!2) + 19 * 2 * (a!4*a!9 + a!5*a!8 + a!6*a!7),
     2*(a!0*a!4 + 2*a!1*a!3) + a!2*a!2 + 19 * (2*(2*a!5*a!9 + a!6*a!8 + a!7*a!7)),
     2*(a!0*a!5 + a!1*a!4 + a!2*a!3) + 19 * 2 * (a!6*a!9 + a!7*a!8),
     2*(a!0*a!6 + 2*a!1*a!5 + a!2*a!4 + a!3*a!3) + 19 * (2*2*a!7*a!9 + a!8*a!8),
     2*(a!0*a!7 + a!1*a!6 + a!2*a!5 + a!3*a!4) + 19 * 2 * a!8*a!9,
     2*(a!0*a!8 + 2*a!1*a!7 + a!2*a!6 + 2*a!3*a!5) + a!4*a!4 + 19 * 2 * a!9*a!9,
     2*(a!0*a!9 + a!1*a!8 + a!2*a!7 + a!3*a!6 + a!4*a!5)]) 0) 0"

section \<open>Comparison and powers\<close>

text \<open>\<^verbatim>\<open>fld_eq\<close> folds all bits of the difference into the lowest one.\<close>

definition fold_bits :: "int \<Rightarrow> int" where
  "fold_bits r = fold (\<lambda>i r. r OR drop_bit i r) [16, 8, 4, 2, 1] r"

definition fld_eq :: "fld \<Rightarrow> fld \<Rightarrow> int" where
  "fld_eq a b = (let tmp = fld_reduce (fld_sub a b) in
     NOT (fold_bits (foldl (OR) (tmp ! 0) (tl tmp))) AND 1)"

definition fld_inv :: "fld \<Rightarrow> fld" where
  "fld_inv z =
     (let z2 = fld_sq z;
          t1 = fld_sq z2;
          t0 = fld_sq t1;
          z9 = fld_mul t0 z;
          z11 = fld_mul z9 z2;
          t0 = fld_sq z11;
          z2_5_0 = fld_mul t0 z9;
          t0 = (fld_sq ^^ 5) z2_5_0;
          z2_10_0 = fld_mul t0 z2_5_0;
          t1 = (fld_sq ^^ (2 + 2 * 4)) z2_10_0;
          z2_20_0 = fld_mul t1 z2_10_0;
          t1 = (fld_sq ^^ (2 + 2 * 9)) z2_20_0;
          t0 = fld_mul t1 z2_20_0;
          t0 = (fld_sq ^^ (2 + 2 * 4)) t0;
          z2_50_0 = fld_mul t0 z2_10_0;
          t1 = (fld_sq ^^ (2 + 2 * 24)) z2_50_0;
          z2_100_0 = fld_mul t1 z2_50_0;
          t0 = (fld_sq ^^ (2 + 2 * 49)) z2_100_0;
          t1 = fld_mul t0 z2_100_0;
          t1 = (fld_sq ^^ (2 + 2 * 24)) t1;
          t0 = fld_mul t1 z2_50_0;
          t1 = (fld_sq ^^ 5) t0
      in fld_mul t1 z11)"

definition fld_pow2523 :: "fld \<Rightarrow> fld" where
  "fld_pow2523 z =
     (let z2 = fld_sq z;
          t = fld_sq z2;
          t = fld_sq t;
          z9 = fld_mul t z;
          t = fld_mul z9 z2;
          t = fld_sq t;
          z2_5_0 = fld_mul t z9;
          t = (fld_sq ^^ 4) (fld_sq z2_5_0);
          z2_10_0 = fld_mul t z2_5_0;
          t = (fld_sq ^^ 9) (fld_sq z2_10_0);
          z2_20_0 = fld_mul t z2_10_0;
          t = (fld_sq ^^ 19) (fld_sq z2_20_0);
          t = fld_mul t z2_20_0;
          t = (fld_sq ^^ 9) (fld_sq t);
          z2_50_0 = fld_mul t z2_10_0;
          t = (fld_sq ^^ 49) (fld_sq z2_50_0);
          z2_100_0 = fld_mul t z2_50_0;
          t = (fld_sq ^^ 99) (fld_sq z2_100_0);
          t = fld_mul t z2_100_0;
          t = (fld_sq ^^ 49) (fld_sq t);
          t = fld_mul t z2_50_0;
          t = fld_sq t;
          t = fld_sq t
      in fld_mul t z)"

end
