(* ===== verification/X25519.thy ===== *)
theory X25519
  imports Fld
begin

unbundle bit_operations_syntax

text \<open>
  core/src/libeddsa/src/x25519.c: Diffie-Hellman on the Montgomery curve. A point without its
  y-coordinate is a pair of field elements; \<^verbatim>\<open>ctmemswap\<close> works on the bytes of the structure, so
  the model lays a point out in memory (little-endian 32-bit limbs) and reads it back.
  \<^verbatim>\<open>burnstack\<close> overwrites dead stack memory and has no effect on the result.
\<close>

record mg =
  mg_x :: fld
  mg_z :: fld

definition mg_bytes :: "mg \<Rightarrow> bytes" where
  "mg_bytes p = concat (map (le_bytes 4) (mg_x p @ mg_z p))"

fun limbs_of :: "nat \<Rightarrow> bytes \<Rightarrow> int list" where
  "limbs_of 0 bs = []"
| "limbs_of (Suc n) bs = i32 (le_int (take 4 bs)) # limbs_of n (drop 4 bs)"

definition mg_of_bytes :: "bytes \<Rightarrow> mg" where
  "mg_of_bytes bs = (let ls = limbs_of (2 * FLD_LIMB_NUM) bs in
     \<lparr>mg_x = take FLD_LIMB_NUM ls, mg_z = drop FLD_LIMB_NUM ls\<rparr>)"

fun ctmemswap :: "bytes \<Rightarrow> bytes \<Rightarrow> byte \<Rightarrow> bytes \<times> bytes" where
  "ctmemswap (a # as) (b # bs) msk =
     (let delta = (a XOR b) AND msk;
          (as', bs') = ctmemswap as bs msk
      in ((a XOR delta) # as', (b XOR delta) # bs'))"
| "ctmemswap as bs msk = (as, bs)"

definition mg_ctmemswap :: "mg \<Rightarrow> mg \<Rightarrow> byte \<Rightarrow> mg \<times> mg" where
  "mg_ctmemswap a b msk = (case ctmemswap (mg_bytes a) (mg_bytes b) msk of
     (x, y) \<Rightarrow> (mg_of_bytes x, mg_of_bytes y))"

definition montgomery :: "mg \<Rightarrow> mg \<Rightarrow> mg \<Rightarrow> mg \<times> mg" where
  "montgomery A B C =
     (let sumA = fld_add (mg_x A) (mg_z A);
          sqsumA = fld_sq sumA;
          subA = fld_sub (mg_x A) (mg_z A);
          sqsubA = fld_sq subA;
          Ax = fld_mul sqsubA sqsumA;
          T1 = fld_sub sqsumA sqsubA;
          T2 = fld_scale T1 121665;
          T2 = fld_add T2 sqsumA;
          Az = fld_mul T1 T2;
          sumB = fld_add (mg_x B) (mg_z B);
          subB = fld_sub (mg_x B) (mg_z B);
          T1 = fld_mul subA sumB;
          T2 = fld_mul sumA subB;
          T3 = fld_add T1 T2;
          Bx = fld_sq T3;
          T3 = fld_sub T1 T2;
          T3 = fld_sq T3;
          Bz = fld_mul T3 (mg_x C)
      in (\<lparr>mg_x = Ax, mg_z = Az\<rparr>, \<lparr>mg_x = Bx, mg_z = Bz\<rparr>))"

text \<open>\<^verbatim>\<open>foo >> 7\<close> on an \<^verbatim>\<open>int8_t\<close>, converted to the mask of type \<^verbatim>\<open>uint8_t\<close>.\<close>

definition sign_mask :: "byte \<Rightarrow> byte" where
  "sign_mask foo = word_of_int (drop_bit 7 (sint foo))"

definition mg_step :: "mg \<Rightarrow> byte \<Rightarrow> mg \<times> mg \<Rightarrow> mg \<times> mg" where
  "mg_step P foo s =
     (let (out, T) = mg_ctmemswap (fst s) (snd s) (sign_mask foo);
          (out, T) = montgomery out T P
      in mg_ctmemswap out T (sign_mask foo))"

fun mg_bits :: "nat \<Rightarrow> mg \<Rightarrow> byte \<Rightarrow> mg \<times> mg \<Rightarrow> mg \<times> mg" where
  "mg_bits 0 P foo s = s"
| "mg_bits (Suc j) P foo s = mg_bits j P (push_bit 1 foo) (mg_step P foo s)"

definition mg_scale :: "mg \<Rightarrow> bytes \<Rightarrow> mg" where
  "mg_scale P x = fst (fold (mg_bits 8 P) (rev x) (\<lparr>mg_x = fld_set0 1, mg_z = fld_set0 0\<rparr>, P))"

text \<open>The clamping of a scalar: bytes 0 and 31.\<close>

definition clamp :: "bytes \<Rightarrow> bytes" where
  "clamp scalar =
     (let s = scalar;
          s = s[0 := s ! 0 AND 0xf8];
          s = s[31 := s ! 31 AND 0x7f]
      in s[31 := s ! 31 OR 0x40])"

definition do_x25519 :: "bytes \<Rightarrow> bytes \<Rightarrow> bytes" where
  "do_x25519 scalar point =
     (let s = clamp scalar;
          P = \<lparr>mg_x = fld_import point, mg_z = fld_set0 1\<rparr>;
          res = mg_scale P s;
          z = fld_inv (mg_z res);
          x = fld_mul (mg_x res) z
      in fld_export x)"

definition x25519 :: "bytes \<Rightarrow> bytes \<Rightarrow> bytes" where
  "x25519 scalar point = do_x25519 scalar point"

end
