(* ===== verification/Fld_Spec.thy ===== *)
theory Fld_Spec
  imports Fld
begin

unbundle bit_operations_syntax

text \<open>
  What the limb arithmetic of fld.c computes. \<open>fval\<close> is the integer that a limb list stands for and
  \<open>fmod\<close> its residue modulo \<open>q\<close> = 2^255 - 19. The lemmas give, for inputs whose limbs are bounded
  (\<open>lim\<close>), that no 32-bit or 64-bit operation wraps, the residue of every result and the bounds of
  its limbs.
\<close>

definition q25519 :: int where
  "q25519 = 2 ^ 255 - 19"

fun fval :: "int list \<Rightarrow> int" where
  "fval (x # y # xs) = x + 2 ^ 26 * (y + 2 ^ 25 * fval xs)"
| "fval _ = 0"

definition fmod :: "fld \<Rightarrow> int" where
  "fmod x = fval x mod q25519"

fun digits :: "int list \<Rightarrow> bool" where
  "digits (x # y # xs) \<longleftrightarrow> 0 \<le> x \<and> x < 2 ^ 26 \<and> 0 \<le> y \<and> y < 2 ^ 25 \<and> digits xs"
| "digits xs \<longleftrightarrow> xs = []"

lemma fval_digits: "digits xs \<Longrightarrow> 0 \<le> fval xs \<and> fval xs < 2 ^ (51 * (length xs div 2))"
proof (induction xs rule: digits.induct)
  case (1 x y xs)
  define P :: int where "P = 2 ^ (51 * (length xs div 2))"
  have "(2 :: int) ^ (51 * (length (x # y # xs) div 2)) = 2 ^ 51 * P"
    by (simp add: P_def power_add)
  moreover have "0 \<le> fval xs" "fval xs < P" using 1 by (simp_all add: P_def)
  ultimately show ?case using 1 by simp
qed simp_all

section \<open>Carrying\<close>

lemma limb_masks:
  "z AND FLD_LIMB_MASK 1 = z mod 2 ^ 26" "z AND FLD_LIMB_MASK 0 = z mod 2 ^ 25"
  using and_mask [of z 26] and_mask [of z 25]
  by (simp_all add: FLD_LIMB_MASK_def FLD_LIMB_BITS_def push_bit_eq_mult)

lemma limb_shifts:
  "drop_bit (FLD_LIMB_BITS 0) z = z div 2 ^ 25" "drop_bit (FLD_LIMB_BITS 1) z = z div (2 ^ 26 :: int)"
  by (simp_all add: FLD_LIMB_BITS_def drop_bit_eq_div)

lemma abs_div_le: "\<bar>z\<bar> \<le> K * n \<Longrightarrow> 0 < n \<Longrightarrow> \<bar>z div n\<bar> \<le> (K :: int)"
proof -
  assume a: "\<bar>z\<bar> \<le> K * n" and n: "0 < n"
  have "z div n \<le> K * n div n" using a n by (intro zdiv_mono1) auto
  moreover have "(- K) * n div n \<le> z div n" using a n by (intro zdiv_mono1) auto
  moreover have "- (K * n) div n = - K" using n nonzero_mult_div_cancel_right [of n "- K"] by simp
  ultimately show ?thesis using n by auto
qed

text \<open>One pass carries the value exactly when the sums stay where the conversion is the identity.\<close>

lemma carry_loop_spec:
  assumes w: "\<And>z. \<bar>z\<bar> \<le> B + C \<Longrightarrow> w z = z" and BC: "B + C \<le> C * 2 ^ 25"
  shows "even (length xs) \<Longrightarrow> \<forall>x\<in>set xs. \<bar>x\<bar> \<le> B \<Longrightarrow> \<bar>tmp div 2 ^ 25\<bar> \<le> C \<Longrightarrow>
    carry_loop w tmp xs = (ds, t) \<Longrightarrow>
    fval xs + tmp div 2 ^ 25 = fval ds + 2 ^ (51 * (length xs div 2)) * (t div 2 ^ 25) \<and>
    digits ds \<and> length ds = length xs \<and> \<bar>t div 2 ^ 25\<bar> \<le> C"
proof (induction xs arbitrary: tmp ds t rule: fval.induct)
  case (1 x y xs)
  define t1 where "t1 = tmp div 2 ^ 25 + x"
  define t2 where "t2 = t1 div 2 ^ 26 + y"
  have b1: "\<bar>t1\<bar> \<le> B + C" using "1.prems" by (auto simp: t1_def)
  have C0: "0 \<le> C" using "1.prems"(3) by linarith
  have "\<bar>t1 div 2 ^ 26\<bar> \<le> C" using b1 BC C0 by (intro abs_div_le) auto
  then have b2: "\<bar>t2\<bar> \<le> B + C" using "1.prems"(2) by (auto simp: t2_def)
  have b3: "\<bar>t2 div 2 ^ 25\<bar> \<le> C" using b2 BC by (intro abs_div_le) auto
  obtain ds' where l: "carry_loop w t2 xs = (ds', t)" and ds: "ds = t1 mod 2 ^ 26 # t2 mod 2 ^ 25 # ds'"
    using "1.prems"(4) w [OF b1] w [OF b2]
    by (auto simp only: carry_loop.simps Let_def limb_masks limb_shifts t1_def t2_def split: prod.splits)
  have IH: "fval xs + t2 div 2 ^ 25 = fval ds' + 2 ^ (51 * (length xs div 2)) * (t div 2 ^ 25)"
    "digits ds'" "length ds' = length xs" "\<bar>t div 2 ^ 25\<bar> \<le> C"
    using "1.IH" [OF _ _ b3 l] "1.prems" by auto
  have e1: "tmp div 2 ^ 25 + x = t1 mod 2 ^ 26 + 2 ^ 26 * (t1 div 2 ^ 26)" by (simp add: t1_def)
  have e2: "t1 div 2 ^ 26 + y = t2 mod 2 ^ 25 + 2 ^ 25 * (t2 div 2 ^ 25)" by (simp add: t2_def)
  define P :: int where "P = 2 ^ (51 * (length xs div 2))"
  have P: "(2 :: int) ^ (51 * (length (x # y # xs) div 2)) = 2 ^ 26 * 2 ^ 25 * P"
    by (simp add: P_def power_add)
  have "fval (x # y # xs) + tmp div 2 ^ 25 = fval ds + 2 ^ 26 * 2 ^ 25 * P * (t div 2 ^ 25)"
    using e1 e2 IH(1) unfolding P_def [symmetric] ds fval.simps by algebra
  then show ?case unfolding P using IH by (simp add: ds)
qed (auto)

lemma carry_loop_mod:
  assumes w: "\<And>z. \<bar>z\<bar> \<le> B + C \<Longrightarrow> w z = z" and BC: "B + C \<le> C * 2 ^ 25"
    and xs: "length xs = 10" "\<forall>x\<in>set xs. \<bar>x\<bar> \<le> B" and off: "\<bar>off\<bar> \<le> C"
  shows "\<exists>ds t. carry_loop w (push_bit 25 off) xs = (ds, t) \<and> digits ds \<and> length ds = 10 \<and>
    fval ds = (fval xs + off) mod 2 ^ 255 \<and> t div 2 ^ 25 = (fval xs + off) div 2 ^ 255 \<and>
    \<bar>(fval xs + off) div 2 ^ 255\<bar> \<le> C"
proof -
  obtain ds t where l: "carry_loop w (push_bit 25 off) xs = (ds, t)" by fastforce
  have o: "push_bit 25 off div 2 ^ 25 = off" by (simp add: push_bit_eq_mult)
  have s: "fval xs + off = fval ds + 2 ^ 255 * (t div 2 ^ 25)" "digits ds" "length ds = 10"
    "\<bar>t div 2 ^ 25\<bar> \<le> C"
    using carry_loop_spec [OF w BC _ xs(2) _ l] xs(1) off unfolding o by simp_all
  have f: "0 \<le> fval ds" "fval ds < 2 ^ 255" using fval_digits [OF s(2)] s(3) by simp_all
  then have "(fval xs + off) div 2 ^ 255 = t div 2 ^ 25" "(fval xs + off) mod 2 ^ 255 = fval ds"
    by (simp_all only: s(1) div_mult_self2 mod_mult_self2 div_pos_pos_trivial mod_pos_pos_trivial)
  then show ?thesis using l s by auto
qed

text \<open>The whole macro: the value modulo 2^255, and 19 times the quotient added to the lowest limb.\<close>

lemma CARRY_spec:
  assumes w: "\<And>z. \<bar>z\<bar> \<le> B + C \<Longrightarrow> w z = z" and BC: "B + C \<le> C * 2 ^ 25"
    and xs: "length xs = 10" "\<forall>x\<in>set xs. \<bar>x\<bar> \<le> B" and off: "\<bar>off\<bar> \<le> C"
    and w0: "w (push_bit 25 off) = push_bit 25 off"
    and c: "c = (fval xs + off) div 2 ^ 255"
    and wd: "\<And>z. \<bar>z\<bar> \<le> 2 ^ 26 + 19 * \<bar>c\<bar> \<Longrightarrow> wd z = z"
  shows "\<exists>d ds. CARRY w wd xs off = (d + 19 * c) # ds \<and> digits (d # ds) \<and> length ds = 9 \<and>
    fval (d # ds) = (fval xs + off) mod 2 ^ 255 \<and> \<bar>c\<bar> \<le> C"
proof -
  obtain ds t where l: "carry_loop w (push_bit 25 off) xs = (ds, t)" "digits ds" "length ds = 10"
    "fval ds = (fval xs + off) mod 2 ^ 255" "t div 2 ^ 25 = c" "\<bar>c\<bar> \<le> C"
    using carry_loop_mod [OF w BC xs off] c by auto
  obtain d0 d1 ds' where d: "ds = d0 # d1 # ds'" using l(3) by (cases ds rule: fval.cases) auto
  have "0 \<le> d0" "d0 < 2 ^ 26" using l(2) by (simp_all add: d)
  then have "wd (d0 + 19 * c) = d0 + 19 * c" by (intro wd) auto
  moreover have "CARRY w wd xs off = ds[0 := wd (ds ! 0 + 19 * c)]"
    using w0 l(1,5) by (simp add: CARRY_def limb_shifts) (simp add: FLD_LIMB_BITS_def)
  ultimately show ?thesis using l d by auto
qed

lemma low_limb_max:
  assumes "digits (d # ds)" "length ds = 9" "2 ^ 255 - 19 \<le> fval (d # ds)"
  shows "2 ^ 26 - 19 \<le> d"
proof -
  obtain e es where ds: "ds = e # es" "length es = 8" using assms(2) by (cases ds) auto
  have "fval es < 2 ^ 204" using fval_digits [of es] assms(1) ds by simp
  then show ?thesis using assms by (simp add: ds)
qed

lemma i32_small: "\<bar>z\<bar> \<le> 2147483647 \<Longrightarrow> i32 z = z"
  by (rule i32_id) (auto simp: i32_range_def)

lemma i64_small: "\<bar>z\<bar> \<le> 9223372036854775807 \<Longrightarrow> i64 z = z"
  by (rule i64_id) (auto simp: i64_range_def)

lemma wrap_once:
  assumes "0 \<le> m" "m < N" "\<bar>k\<bar> \<le> K" "2 * K < N" "v = m + k"
  shows "v < 0 \<and> v div N = -1 \<and> v mod N = v + N \<or> 0 \<le> v \<and> v < N \<and> v div N = 0 \<and> v mod N = v \<or>
    N \<le> v \<and> v div N = 1 \<and> v mod N = v - (N :: int)"
proof -
  consider "v < 0" | "0 \<le> v" "v < N" | "N \<le> v" by linarith
  then show ?thesis
  proof cases
    case 1
    have "v div N = -1" "v mod N = v + N"
      using 1 assms int_div_pos_eq [of v N "-1" "v + N"] int_mod_pos_eq [of v N "-1" "v + N"] by simp_all
    then show ?thesis using 1 by simp
  next
    case 2
    then show ?thesis by simp
  next
    case 3
    have "v div N = 1" "v mod N = v - N"
      using 3 assms int_div_pos_eq [of v N 1 "v - N"] int_mod_pos_eq [of v N 1 "v - N"] by simp_all
    then show ?thesis using 3 by simp
  qed
qed

text \<open>A list whose lowest limb alone may be out of the digit range, by the last carry.\<close>

lemma digits_set: "digits ds \<Longrightarrow> \<forall>x\<in>set ds. \<bar>x\<bar> < 2 ^ 26"
  by (induction ds rule: digits.induct) auto

lemma digits_tl: "digits (d # ds) \<Longrightarrow> length ds = 9 \<Longrightarrow> \<exists>e es. ds = e # es \<and> 0 \<le> d \<and> d < 2 ^ 26"
  by (cases ds) auto

lemma fval_add_low: "length ds = 9 \<Longrightarrow> fval ((d + k) # ds) = fval (d # ds) + k"
  by (cases ds) auto

lemma CARRY32:
  assumes xs: "length xs = 10" "\<forall>x\<in>set xs. \<bar>x\<bar> \<le> 2 ^ 31 - 65" and off: "\<bar>off\<bar> \<le> 19"
    and c: "c = (fval xs + off) div 2 ^ 255"
  shows "\<exists>d ds. CARRY i32 i32 xs off = (d + 19 * c) # ds \<and> digits (d # ds) \<and> length ds = 9 \<and>
    fval (d # ds) = (fval xs + off) mod 2 ^ 255 \<and> \<bar>c\<bar> \<le> 64"
proof -
  have w: "\<And>z. \<bar>z\<bar> \<le> (2 ^ 31 - 65) + 64 \<Longrightarrow> i32 z = z" by (rule i32_small) simp
  have b: "\<bar>c\<bar> \<le> 64"
    using carry_loop_mod [where w = i32 and B = "2 ^ 31 - 65" and C = 64, OF w _ xs, of off] off
    unfolding c by fastforce
  show ?thesis
    using off b
    by (intro CARRY_spec [where w = i32 and B = "2 ^ 31 - 65" and C = 64, OF w _ xs _ _ c])
      (auto intro!: i32_small simp: push_bit_eq_mult)
qed

text \<open>
  \<^const>\<open>fld_reduce\<close> gives the canonical representative. The three passes subtract multiples of q
  until the value lies in the range, and the last pass takes the offset 19 back.
\<close>

lemma fld_reduce_spec:
  assumes x: "length x = 10" "\<forall>y\<in>set x. \<bar>y\<bar> \<le> 2 ^ 31 - 65"
  shows "digits (fld_reduce x) \<and> length (fld_reduce x) = 10 \<and> fval (fld_reduce x) = fmod x"
proof -
  define N :: int where "N = 2 ^ 255"
  have N: "5000 < N" "q25519 = N - 19" by (simp_all add: N_def q25519_def)
  define c1 where "c1 = (fval x + 19) div N"
  obtain d1 r1 where r1: "CARRY i32 i32 x 19 = (d1 + 19 * c1) # r1" "digits (d1 # r1)" "length r1 = 9"
    "fval (d1 # r1) = (fval x + 19) mod N" "\<bar>c1\<bar> \<le> 64"
    using CARRY32 [OF x _ c1_def [unfolded N_def], folded N_def] by auto
  define x1 where "x1 = (d1 + 19 * c1) # r1"
  have v1: "fval x1 = (fval x + 19) mod N + 19 * c1" using r1 by (simp add: x1_def fval_add_low)
  have l1: "length x1 = 10" "\<forall>y\<in>set x1. \<bar>y\<bar> \<le> 2 ^ 31 - 65"
    using r1(3,5) digits_set [OF r1(2)] by (auto simp: x1_def)
  define c2 where "c2 = (fval x1 + 0) div N"
  have s2: "fval x1 < 0 \<and> c2 = -1 \<and> fval x1 mod N = fval x1 + N \<or>
    0 \<le> fval x1 \<and> fval x1 < N \<and> c2 = 0 \<and> fval x1 mod N = fval x1 \<or>
    N \<le> fval x1 \<and> c2 = 1 \<and> fval x1 mod N = fval x1 - N"
    using wrap_once [OF _ _ _ _ v1, of N "19 * 64"] r1(5) N by (simp add: c2_def)
  obtain d2 r2 where r2: "CARRY i32 i32 x1 0 = (d2 + 19 * c2) # r2" "digits (d2 # r2)" "length r2 = 9"
    "fval (d2 # r2) = fval x1 mod N"
    using CARRY32 [OF l1 _ c2_def [unfolded N_def], folded N_def] by auto
  define x2 where "x2 = (d2 + 19 * c2) # r2"
  have v2: "fval x2 = fval x1 mod N + 19 * c2" using r2 by (simp add: x2_def fval_add_low)
  have l2: "length x2 = 10" "\<forall>y\<in>set x2. \<bar>y\<bar> \<le> 2 ^ 31 - 65"
    using r2(3) s2 digits_set [OF r2(2)] by (auto simp: x2_def)
  have v1r: "fval x1 < N + 19 * 64" "- (19 * 64) \<le> fval x1"
    using v1 r1(5) N pos_mod_bound [of N "fval x + 19"] pos_mod_sign [of N "fval x + 19"] by linarith+
  have v2r: "0 \<le> fval x2" "fval x2 < N" using v2 s2 v1r N by auto
  define c3 where "c3 = (fval x2 + -19) div N"
  have s3: "fval x2 + -19 < 0 \<and> c3 = -1 \<and> (fval x2 + -19) mod N = fval x2 - 19 + N \<or>
    0 \<le> fval x2 + -19 \<and> c3 = 0 \<and> (fval x2 + -19) mod N = fval x2 - 19"
    using wrap_once [OF v2r _ _ refl, of "-19" 19] v2r N by (auto simp: c3_def)
  obtain d3 r3 where r3: "CARRY i32 i32 x2 (-19) = (d3 + 19 * c3) # r3" "digits (d3 # r3)" "length r3 = 9"
    "fval (d3 # r3) = (fval x2 + -19) mod N"
    using CARRY32 [OF l2 _ c3_def [unfolded N_def], folded N_def] by auto
  define x3 where "x3 = (d3 + 19 * c3) # r3"
  have x3: "fld_reduce x = x3" using r1(1) r2(1) r3(1) by (simp add: fld_reduce_def x1_def x2_def x3_def)
  have v3: "fval x3 = (fval x2 + -19) mod N + 19 * c3" using r3 by (simp add: x3_def fval_add_low)
  have v3r: "0 \<le> fval x3" "fval x3 < q25519" using v3 s3 v2r N by auto
  have "fval x + 19 = (fval x + 19) mod N + N * c1" by (simp add: c1_def)
  then have "fval x = fval x3 + q25519 * (c1 + c2 + c3)"
    using s2 s3 v1 v2 v3 unfolding N(2) by (auto simp: algebra_simps)
  then have m: "fval x3 = fmod x" using v3r by (simp add: fmod_def)
  have "digits x3"
  proof (cases "c3 = 0")
    case True
    then show ?thesis using r3(2) by (simp add: x3_def)
  next
    case False
    then have "c3 = -1" "N - 19 \<le> fval (d3 # r3)" using s3 r3(4) v2r by auto
    then show ?thesis using low_limb_max [OF r3(2,3)] r3(2,3) by (cases r3) (auto simp: x3_def N_def)
  qed
  then show ?thesis using m r3(3) by (simp add: x3 x3_def)
qed

end
