(* ===== verification/Fld_Mul.thy ===== *)
theory Fld_Mul
  imports Fld_Spec
begin

lemma CARRY64:
  assumes xs: "length xs = 10" "\<forall>x\<in>set xs. \<bar>x\<bar> \<le> 2 ^ 63 - 2 ^ 40"
    and c: "c = fval xs div 2 ^ 255"
    and wd: "\<And>z. \<bar>z\<bar> \<le> 2 ^ 26 + 19 * \<bar>c\<bar> \<Longrightarrow> wd z = z"
  shows "\<exists>d ds. CARRY i64 wd xs 0 = (d + 19 * c) # ds \<and> digits (d # ds) \<and> length ds = 9 \<and>
    fval (d # ds) = fval xs mod 2 ^ 255 \<and> \<bar>c\<bar> \<le> 2 ^ 38"
proof -
  have w: "\<And>z. \<bar>z\<bar> \<le> (2 ^ 63 - 2 ^ 40) + 2 ^ 38 \<Longrightarrow> i64 z = z" by (rule i64_small) simp
  have c': "c = (fval xs + 0) div 2 ^ 255" using c by simp
  show ?thesis
    using CARRY_spec [where w = i64 and B = "2 ^ 63 - 2 ^ 40" and C = "2 ^ 38" and off = 0, OF w _ xs _ _ c' wd] by (simp add: i64_small)
qed

lemma carry64_quot:
  assumes xs: "length xs = 10" "\<forall>x\<in>set xs. \<bar>x\<bar> \<le> 2 ^ 63 - 2 ^ 40"
  shows "\<bar>fval xs div 2 ^ 255\<bar> \<le> 2 ^ 38"
proof -
  have w: "\<And>z. \<bar>z\<bar> \<le> (2 ^ 63 - 2 ^ 40) + 2 ^ 38 \<Longrightarrow> i64 z = z" by (rule i64_small) simp
  have "\<bar>(fval xs + 0) div 2 ^ 255\<bar> \<le> 2 ^ 38"
    using carry_loop_mod [where w = i64 and B = "2 ^ 63 - 2 ^ 40" and C = "2 ^ 38" and off = 0, OF w _ xs] by fastforce
  then show ?thesis by simp
qed

text \<open>Bounded limbs, in units of half a limb.\<close>

fun lims :: "int \<Rightarrow> int list \<Rightarrow> bool" where
  "lims m (x # y # xs) \<longleftrightarrow> \<bar>x\<bar> \<le> m * 2 ^ 25 \<and> \<bar>y\<bar> \<le> m * 2 ^ 24 \<and> lims m xs"
| "lims m xs \<longleftrightarrow> xs = []"

definition lim :: "int \<Rightarrow> fld \<Rightarrow> bool" where
  "lim m x \<longleftrightarrow> length x = 10 \<and> lims m x"

lemma fld_cases:
  assumes "length (x :: fld) = 10"
  obtains a0 a1 a2 a3 a4 a5 a6 a7 a8 a9 where "x = [a0, a1, a2, a3, a4, a5, a6, a7, a8, a9]"
  using assms by (auto simp: numeral_eq_Suc length_Suc_conv)

lemma lim_list:
  "lim m [a0, a1, a2, a3, a4, a5, a6, a7, a8, a9] \<longleftrightarrow>
    \<bar>a0\<bar> \<le> m * 2 ^ 25 \<and> \<bar>a1\<bar> \<le> m * 2 ^ 24 \<and> \<bar>a2\<bar> \<le> m * 2 ^ 25 \<and> \<bar>a3\<bar> \<le> m * 2 ^ 24 \<and>
    \<bar>a4\<bar> \<le> m * 2 ^ 25 \<and> \<bar>a5\<bar> \<le> m * 2 ^ 24 \<and> \<bar>a6\<bar> \<le> m * 2 ^ 25 \<and> \<bar>a7\<bar> \<le> m * 2 ^ 24 \<and>
    \<bar>a8\<bar> \<le> m * 2 ^ 25 \<and> \<bar>a9\<bar> \<le> m * 2 ^ 24"
  by (simp add: lim_def)

lemma lim_mono: "lim m x \<Longrightarrow> m \<le> n \<Longrightarrow> lim n x"
proof -
  have "lims m x \<Longrightarrow> m \<le> n \<Longrightarrow> lims n x" by (induction m x rule: lims.induct) auto
  then show "lim m x \<Longrightarrow> m \<le> n \<Longrightarrow> lim n x" by (simp add: lim_def)
qed

lemma lim_digits:
  assumes "digits (d # ds)" "length ds = 9" "\<bar>k\<bar> \<le> 2 ^ 25"
  shows "lim 3 ((d + k) # ds)"
proof -
  obtain a1 a2 a3 a4 a5 a6 a7 a8 a9 where "ds = [a1, a2, a3, a4, a5, a6, a7, a8, a9]"
    using assms(2) fld_cases [of "d # ds"] by (metis list.inject length_Cons numeral_eq_Suc pred_numeral_simps(2) BitM.simps numeral_One eval_nat_numeral)
  moreover have "0 \<le> d" "d < 2 ^ 26" using assms digits_tl by blast+
  ultimately show ?thesis using assms by (auto simp: lim_list)
qed

text \<open>The two passes that end a multiplication: the value is kept modulo q and the limbs are short.\<close>

lemma CARRY_twice:
  assumes xs: "length xs = 10" "\<forall>x\<in>set xs. \<bar>x\<bar> \<le> 2 ^ 63 - 2 ^ 40"
  shows "lim 3 (CARRY i64 i32 (CARRY i64 i64 xs 0) 0) \<and> fmod (CARRY i64 i32 (CARRY i64 i64 xs 0) 0) = fmod xs"
proof -
  define N :: int where "N = 2 ^ 255"
  have N: "2 ^ 50 < N" "q25519 = N - 19" by (simp_all add: N_def q25519_def)
  define c1 where "c1 = fval xs div N"
  have b1: "\<bar>c1\<bar> \<le> 2 ^ 38" using carry64_quot [OF xs] by (simp add: c1_def N_def)
  then have wd: "\<And>z. \<bar>z\<bar> \<le> 2 ^ 26 + 19 * \<bar>c1\<bar> \<Longrightarrow> i64 z = z" by (intro i64_small) auto
  obtain d1 r1 where r1: "CARRY i64 i64 xs 0 = (d1 + 19 * c1) # r1" "digits (d1 # r1)" "length r1 = 9"
    "fval (d1 # r1) = fval xs mod N"
    using CARRY64 [OF xs c1_def [unfolded N_def] wd, folded N_def] by auto
  define x1 where "x1 = (d1 + 19 * c1) # r1"
  have v1: "fval x1 = fval xs mod N + 19 * c1" using r1 by (simp add: x1_def fval_add_low)
  have l1: "length x1 = 10" "\<forall>y\<in>set x1. \<bar>y\<bar> \<le> 2 ^ 63 - 2 ^ 40"
    using r1(3) b1 digits_set [OF r1(2)] by (auto simp: x1_def)
  define c2 where "c2 = fval x1 div N"
  have s2: "fval x1 < 0 \<and> c2 = -1 \<and> fval x1 mod N = fval x1 + N \<or>
    0 \<le> fval x1 \<and> fval x1 < N \<and> c2 = 0 \<and> fval x1 mod N = fval x1 \<or>
    N \<le> fval x1 \<and> c2 = 1 \<and> fval x1 mod N = fval x1 - N"
    using wrap_once [OF _ _ _ _ v1, of N "19 * 2 ^ 38"] b1 N by (simp add: c2_def)
  then have wd: "\<And>z. \<bar>z\<bar> \<le> 2 ^ 26 + 19 * \<bar>c2\<bar> \<Longrightarrow> i32 z = z" by (intro i32_small) auto
  obtain d2 r2 where r2: "CARRY i64 i32 x1 0 = (d2 + 19 * c2) # r2" "digits (d2 # r2)" "length r2 = 9"
    "fval (d2 # r2) = fval x1 mod N"
    using CARRY64 [OF l1 c2_def [unfolded N_def] wd, folded N_def] by auto
  define x2 where "x2 = (d2 + 19 * c2) # r2"
  have v2: "fval x2 = fval x1 mod N + 19 * c2" using r2 by (simp add: x2_def fval_add_low)
  have "fval xs = fval xs mod N + N * c1" by (simp add: c1_def)
  then have "fval xs = fval x2 + q25519 * (c1 + c2)"
    using s2 v1 v2 unfolding N(2) by (auto simp: algebra_simps)
  then have "fmod x2 = fmod xs" by (simp add: fmod_def)
  moreover have "lim 3 x2" unfolding x2_def using r2 s2 by (intro lim_digits) auto
  ultimately show ?thesis using r1(1) r2(1) by (simp add: x1_def x2_def)
qed

section \<open>Products\<close>

lemma abs_prod_le: "\<bar>x\<bar> \<le> m \<Longrightarrow> \<bar>y\<bar> \<le> n \<Longrightarrow> \<bar>x * y\<bar> \<le> m * (n :: int)"
  by (simp add: abs_mult mult_mono)

lemma abs_add_le: "\<bar>x\<bar> \<le> m \<Longrightarrow> \<bar>y\<bar> \<le> n \<Longrightarrow> \<bar>x + y\<bar> \<le> m + (n :: int)"
  by linarith

lemma abs_scale_le: "\<bar>y\<bar> \<le> n \<Longrightarrow> \<bar>numeral k * y\<bar> \<le> numeral k * (n :: int)"
  by (simp add: abs_mult)

definition mul_limbs :: "fld \<Rightarrow> fld \<Rightarrow> int list" where
  "mul_limbs a b = [
     a!0*b!0 + 19 * (2*(a!1*b!9) + a!2*b!8 + 2*(a!3*b!7) + a!4*b!6 + 2*(a!5*b!5) + a!6*b!4 + 2*(a!7*b!3) + a!8*b!2 + 2*(a!9*b!1)),
     a!0*b!1 + a!1*b!0 + 19 * (a!2*b!9 + a!3*b!8 + a!4*b!7 + a!5*b!6 + a!6*b!5 + a!7*b!4 + a!8*b!3 + a!9*b!2),
     a!0*b!2 + 2*(a!1*b!1) + a!2*b!0 + 19 * (2*(a!3*b!9) + a!4*b!8 + 2*(a!5*b!7) + a!6*b!6 + 2*(a!7*b!5) + a!8*b!4 + 2*(a!9*b!3)),
     a!0*b!3 + a!1*b!2 + a!2*b!1 + a!3*b!0 + 19 * (a!4*b!9 + a!5*b!8 + a!6*b!7 + a!7*b!6 + a!8*b!5 + a!9*b!4),
     a!0*b!4 + 2*(a!1*b!3) + a!2*b!2 + 2*(a!3*b!1) + a!4*b!0 + 19 * (2*(a!5*b!9) + a!6*b!8 + 2*(a!7*b!7) + a!8*b!6 + 2*(a!9*b!5)),
     a!0*b!5 + a!1*b!4 + a!2*b!3 + a!3*b!2 + a!4*b!1 + a!5*b!0 + 19 * (a!6*b!9 + a!7*b!8 + a!8*b!7 + a!9*b!6),
     a!0*b!6 + 2*(a!1*b!5) + a!2*b!4 + 2*(a!3*b!3) + a!4*b!2 + 2*(a!5*b!1) + a!6*b!0 + 19 * (2*(a!7*b!9) + a!8*b!8 + 2*(a!9*b!7)),
     a!0*b!7 + a!1*b!6 + a!2*b!5 + a!3*b!4 + a!4*b!3 + a!5*b!2 + a!6*b!1 + a!7*b!0 + 19 * (a!8*b!9 + a!9*b!8),
     a!0*b!8 + 2*(a!1*b!7) + a!2*b!6 + 2*(a!3*b!5) + a!4*b!4 + 2*(a!5*b!3) + a!6*b!2 + 2*(a!7*b!1) + a!8*b!0 + 19 * (2*(a!9*b!9)),
     a!0*b!9 + a!1*b!8 + a!2*b!7 + a!3*b!6 + a!4*b!5 + a!5*b!4 + a!6*b!3 + a!7*b!2 + a!8*b!1 + a!9*b!0]"

lemma lim_nth:
  assumes "lim 8 a"
  shows "\<bar>a ! 0\<bar> \<le> 2 ^ 28" "\<bar>a ! 1\<bar> \<le> 2 ^ 27" "\<bar>a ! 2\<bar> \<le> 2 ^ 28" "\<bar>a ! 3\<bar> \<le> 2 ^ 27" "\<bar>a ! 4\<bar> \<le> 2 ^ 28"
    "\<bar>a ! 5\<bar> \<le> 2 ^ 27" "\<bar>a ! 6\<bar> \<le> 2 ^ 28" "\<bar>a ! 7\<bar> \<le> 2 ^ 27" "\<bar>a ! 8\<bar> \<le> 2 ^ 28" "\<bar>a ! 9\<bar> \<le> 2 ^ 27"
proof -
  have "length a = 10" using assms by (simp add: lim_def)
  then obtain a0 a1 a2 a3 a4 a5 a6 a7 a8 a9 where "a = [a0, a1, a2, a3, a4, a5, a6, a7, a8, a9]"
    by (rule fld_cases)
  then show "\<bar>a ! 0\<bar> \<le> 2 ^ 28" "\<bar>a ! 1\<bar> \<le> 2 ^ 27" "\<bar>a ! 2\<bar> \<le> 2 ^ 28" "\<bar>a ! 3\<bar> \<le> 2 ^ 27" "\<bar>a ! 4\<bar> \<le> 2 ^ 28"
    "\<bar>a ! 5\<bar> \<le> 2 ^ 27" "\<bar>a ! 6\<bar> \<le> 2 ^ 28" "\<bar>a ! 7\<bar> \<le> 2 ^ 27" "\<bar>a ! 8\<bar> \<le> 2 ^ 28" "\<bar>a ! 9\<bar> \<le> 2 ^ 27"
    using assms by (simp_all add: lim_list)
qed

text \<open>Powers of two as monomials in the radix, so that products are polynomial identities.\<close>

lemma radix:
  "(2 :: int) ^ 26 = 2 * P" "(2 :: int) ^ 51 = 2 * P ^ 2" "(2 :: int) ^ 77 = 4 * P ^ 3" "(2 :: int) ^ 102 = 4 * P ^ 4"
  "(2 :: int) ^ 128 = 8 * P ^ 5" "(2 :: int) ^ 153 = 8 * P ^ 6" "(2 :: int) ^ 179 = 16 * P ^ 7"
  "(2 :: int) ^ 204 = 16 * P ^ 8" "(2 :: int) ^ 230 = 32 * P ^ 9" "(2 :: int) ^ 255 = 32 * P ^ 10"
  if "P = (2 :: int) ^ 25"
  by (simp_all add: that)

lemma fval_radix_list:
  "fval [a0, a1, a2, a3, a4, a5, a6, a7, a8, a9] = a0 + 2*P*a1 + 2*P^2*a2 + 4*P^3*a3 + 4*P^4*a4
     + 8*P^5*a5 + 8*P^6*a6 + 16*P^7*a7 + 16*P^8*a8 + 32*P^9*a9" if "P = (2 :: int) ^ 25"
  by (simp add: that)

lemma fval_radix:
  assumes "length a = 10" and P: "P = (2 :: int) ^ 25"
  shows "fval a = a!0 + 2*P*a!1 + 2*P^2*a!2 + 4*P^3*a!3 + 4*P^4*a!4
     + 8*P^5*a!5 + 8*P^6*a!6 + 16*P^7*a!7 + 16*P^8*a!8 + 32*P^9*a!9"
proof -
  obtain a0 a1 a2 a3 a4 a5 a6 a7 a8 a9 where "a = [a0, a1, a2, a3, a4, a5, a6, a7, a8, a9]"
    using assms(1) by (rule fld_cases)
  then show ?thesis using fval_radix_list [OF P] by simp
qed

lemma mul_limbs_bound:
  assumes "lim 8 a" "lim 8 b"
  shows "\<forall>x\<in>set (mul_limbs a b). \<bar>x\<bar> \<le> 2 ^ 63 - 2 ^ 40"
  unfolding mul_limbs_def list.set ball_simps
  by (intro conjI TrueI; rule order_trans, (rule lim_nth [OF assms(1)] lim_nth [OF assms(2)] abs_add_le abs_scale_le abs_prod_le)+, simp)

lemma fval_mul_limbs:
  assumes "length a = 10" "length b = 10"
  shows "fmod (mul_limbs a b) = fval a * fval b mod q25519"
proof -
  define t where "t = 2*(a!1*b!9) + a!2*b!8 + 2*(a!3*b!7) + a!4*b!6 + 2*(a!5*b!5) + a!6*b!4 + 2*(a!7*b!3) + a!8*b!2 + 2*(a!9*b!1)
    + 2^26 * (a!2*b!9 + a!3*b!8 + a!4*b!7 + a!5*b!6 + a!6*b!5 + a!7*b!4 + a!8*b!3 + a!9*b!2)
    + 2^51 * (2*(a!3*b!9) + a!4*b!8 + 2*(a!5*b!7) + a!6*b!6 + 2*(a!7*b!5) + a!8*b!4 + 2*(a!9*b!3))
    + 2^77 * (a!4*b!9 + a!5*b!8 + a!6*b!7 + a!7*b!6 + a!8*b!5 + a!9*b!4)
    + 2^102 * (2*(a!5*b!9) + a!6*b!8 + 2*(a!7*b!7) + a!8*b!6 + 2*(a!9*b!5))
    + 2^128 * (a!6*b!9 + a!7*b!8 + a!8*b!7 + a!9*b!6)
    + 2^153 * (2*(a!7*b!9) + a!8*b!8 + 2*(a!9*b!7))
    + 2^179 * (a!8*b!9 + a!9*b!8)
    + 2^204 * (2*(a!9*b!9))"
  define P :: int where "P = 2 ^ 25"
  have "fval a * fval b = fval (mul_limbs a b) + q25519 * t"
    unfolding fval_radix [OF assms(1) P_def] fval_radix [OF assms(2) P_def] t_def mul_limbs_def q25519_def
      radix [OF P_def] fval_radix_list [OF P_def]
    by algebra
  then show ?thesis by (simp add: fmod_def)
qed

lemma fld_mul_limbs: "fld_mul a b = CARRY i64 i32 (CARRY i64 i64 (map i64 (mul_limbs a b)) 0) 0"
  by (simp only: fld_mul_def mul_limbs_def mult.assoc)

lemma map_i64: "\<forall>x\<in>set xs. \<bar>x\<bar> \<le> 2 ^ 63 - 2 ^ 40 \<Longrightarrow> map i64 xs = xs"
  by (auto intro!: map_idI i64_small)

lemma fld_mul_spec:
  assumes "lim 8 a" "lim 8 b"
  shows "lim 3 (fld_mul a b)" "fmod (fld_mul a b) = fmod a * fmod b mod q25519"
proof -
  have b: "\<forall>x\<in>set (mul_limbs a b). \<bar>x\<bar> \<le> 2 ^ 63 - 2 ^ 40" by (rule mul_limbs_bound [OF assms])
  have l: "length (mul_limbs a b) = 10" by (simp add: mul_limbs_def)
  have e: "fld_mul a b = CARRY i64 i32 (CARRY i64 i64 (mul_limbs a b) 0) 0"
    unfolding fld_mul_limbs map_i64 [OF b] ..
  show "lim 3 (fld_mul a b)" using CARRY_twice [OF l b] by (simp add: e)
  have "fmod (fld_mul a b) = fmod (mul_limbs a b)" using CARRY_twice [OF l b] by (simp add: e)
  then show "fmod (fld_mul a b) = fmod a * fmod b mod q25519"
    using assms fval_mul_limbs [of a b] by (simp add: lim_def) (simp add: fmod_def mod_simps)
qed

text \<open>The squaring formulas are the multiplication formulas with equal arguments.\<close>

lemma fld_sq_mul: "fld_sq a = fld_mul a a"
proof -
  have "CARRY i64 i32 (CARRY i64 i64 (map i64 [x0, x1, x2, x3, x4, x5, x6, x7, x8, x9]) 0) 0 =
      CARRY i64 i32 (CARRY i64 i64 (map i64 [y0, y1, y2, y3, y4, y5, y6, y7, y8, y9]) 0) 0"
    if "x0 = y0" "x1 = y1" "x2 = y2" "x3 = y3" "x4 = y4" "x5 = y5" "x6 = y6" "x7 = y7" "x8 = y8" "x9 = y9"
    for x0 x1 x2 x3 x4 x5 x6 x7 x8 x9 y0 y1 y2 y3 y4 y5 y6 y7 y8 y9
    by (simp only: that)
  then show ?thesis
    unfolding fld_sq_def fld_mul_def by this algebra+
qed

section \<open>Sums and scaling\<close>

lemma i32_sum:
  assumes "\<bar>x\<bar> \<le> m * k" "\<bar>y\<bar> \<le> n * k" "m + n \<le> 32" "0 \<le> k" "k \<le> 2 ^ 25"
  shows "i32 (x + y) = x + y" "\<bar>x + y\<bar> \<le> (m + n) * k" "i32 (x - y) = x - y" "\<bar>x - y\<bar> \<le> (m + n) * k"
proof -
  have "(m + n) * k \<le> 32 * k" using assms by (intro mult_right_mono)
  then have b: "(m + n) * k \<le> 2 ^ 30" using assms by simp
  show "\<bar>x + y\<bar> \<le> (m + n) * k" "\<bar>x - y\<bar> \<le> (m + n) * k" using assms by (simp_all add: algebra_simps)
  then show "i32 (x + y) = x + y" "i32 (x - y) = x - y" using b by (simp_all add: i32_small)
qed

lemma fld_add_lims:
  "length a = length b \<Longrightarrow> lims m a \<Longrightarrow> lims n b \<Longrightarrow> m + n \<le> 32 \<Longrightarrow>
    lims (m + n) (fld_add a b) \<and> fval (fld_add a b) = fval a + fval b"
proof (induction m a arbitrary: b rule: lims.induct)
  case (1 m x y xs)
  then obtain u v ys where b: "b = u # v # ys" by (metis length_Suc_conv length_Cons)
  show ?case
    using 1 i32_sum [of x m "2 ^ 25" u n] i32_sum [of y m "2 ^ 24" v n]
    by (auto simp: b fld_add_def algebra_simps)
qed (auto simp: fld_add_def)

lemma fld_sub_lims:
  "length a = length b \<Longrightarrow> lims m a \<Longrightarrow> lims n b \<Longrightarrow> m + n \<le> 32 \<Longrightarrow>
    lims (m + n) (fld_sub a b) \<and> fval (fld_sub a b) = fval a - fval b"
proof (induction m a arbitrary: b rule: lims.induct)
  case (1 m x y xs)
  then obtain u v ys where b: "b = u # v # ys" by (metis length_Suc_conv length_Cons)
  show ?case
    using 1 i32_sum [of x m "2 ^ 25" u n] i32_sum [of y m "2 ^ 24" v n]
    by (auto simp: b fld_sub_def)
qed (auto simp: fld_sub_def)

lemma fld_add_spec:
  assumes "lim m a" "lim n b" "m + n \<le> 32"
  shows "lim (m + n) (fld_add a b)" "fmod (fld_add a b) = (fmod a + fmod b) mod q25519"
  using fld_add_lims [of a b m n] assms by (auto simp: lim_def fmod_def mod_simps) (simp add: fld_add_def)

lemma fld_sub_spec:
  assumes "lim m a" "lim n b" "m + n \<le> 32"
  shows "lim (m + n) (fld_sub a b)" "fmod (fld_sub a b) = (fmod a - fmod b) mod q25519"
  using fld_sub_lims [of a b m n] assms by (auto simp: lim_def fmod_def mod_simps) (simp add: fld_sub_def)

lemma lim_set0: "\<bar>x\<bar> \<le> m * 2 ^ 25 \<Longrightarrow> 0 \<le> m \<Longrightarrow> lim m (fld_set0 x) \<and> fmod (fld_set0 x) = x mod q25519"
  by (simp add: fld_set0_def numeral_eq_Suc lim_def fmod_def)

text \<open>The loop of \<^const>\<open>fld_scale\<close> is the carry loop on the scaled limbs.\<close>

lemma scale_loop_carry:
  "scale_loop x tmp es = (let (ds, t) = carry_loop i64 tmp (map ((*) x) es) in (map i32 ds, t))"
  by (induction x tmp es rule: scale_loop.induct) (auto simp: Let_def split: prod.splits)

lemma fval_scale: "fval (map ((*) x) es) = x * fval es"
  by (induction es rule: fval.induct) (simp_all add: algebra_simps)

lemma lims_set: "lims m xs \<Longrightarrow> 0 \<le> m \<Longrightarrow> \<forall>x\<in>set xs. \<bar>x\<bar> \<le> m * 2 ^ 25"
  by (induction m xs rule: lims.induct) auto

lemma fld_scale_spec:
  assumes e: "lim 8 e" and x: "\<bar>x\<bar> \<le> 2 ^ 17"
  shows "lim 3 (fld_scale e x)" "fmod (fld_scale e x) = x * fmod e mod q25519"
proof -
  let ?xs = "map ((*) x) e"
  have w: "\<And>z. \<bar>z\<bar> \<le> 2 ^ 45 + (2 ^ 20 + 1) \<Longrightarrow> i64 z = z" by (rule i64_small) simp
  have l: "length ?xs = 10" "length e = 10" using e by (simp_all add: lim_def)
  have "\<forall>y\<in>set e. \<bar>y\<bar> \<le> 2 ^ 28" using e lims_set [of 8 e] by (simp add: lim_def)
  then have b: "\<forall>y\<in>set ?xs. \<bar>y\<bar> \<le> 2 ^ 45" using abs_prod_le [OF x] by fastforce
  define c where "c = fval ?xs div 2 ^ 255"
  obtain ds t where r: "carry_loop i64 0 ?xs = (ds, t)" "digits ds" "length ds = 10"
    "fval ds = fval ?xs mod 2 ^ 255" "t div 2 ^ 25 = c" "\<bar>c\<bar> \<le> 2 ^ 20 + 1"
    using carry_loop_mod [where w = i64 and B = "2 ^ 45" and C = "2 ^ 20 + 1" and off = 0, OF w _ l(1) b]
    by (auto simp: c_def)
  obtain d ds' where d: "ds = d # ds'" "length ds' = 9" using r(3) by (cases ds) auto
  have "map i32 ds = ds" using digits_set [OF r(2)] by (auto intro!: map_idI i32_small)
  moreover have d0: "0 \<le> d" "d < 2 ^ 26" using r(2) digits_tl d by blast+
  then have "i32 (d + i32 (19 * c)) = d + 19 * c" using r(6) by (auto simp: i32_small)
  ultimately have s: "fld_scale e x = (d + 19 * c) # ds'"
    using r(1,5) d by (simp add: fld_scale_def scale_loop_carry limb_shifts)
  show "lim 3 (fld_scale e x)" unfolding s using r(2,6) d by (intro lim_digits) auto
  have "fval (fld_scale e x) = fval ?xs mod 2 ^ 255 + 19 * c"
    using d r(4) unfolding s fval_add_low [OF d(2)] by simp
  moreover have "fval ?xs = fval ?xs mod 2 ^ 255 + 2 ^ 255 * c" unfolding c_def by simp
  ultimately have "x * fval e = fval (fld_scale e x) + q25519 * c"
    unfolding q25519_def fval_scale by (simp add: algebra_simps)
  then show "fmod (fld_scale e x) = x * fmod e mod q25519"
    by (metis fmod_def mod_mult_right_eq mod_mult_self2)
qed

section \<open>Powers\<close>

text \<open>\<open>fpow z k x\<close>: the limbs \<open>x\<close> are short and stand for the k-th power of \<open>z\<close>.\<close>

definition fpow :: "fld \<Rightarrow> nat \<Rightarrow> fld \<Rightarrow> bool" where
  "fpow z k x \<longleftrightarrow> lim 8 x \<and> fmod x = fmod z ^ k mod q25519"

lemma fpow_1: "lim 8 z \<Longrightarrow> fpow z 1 z"
  by (simp add: fpow_def fmod_def)

lemma fpow_mul: "fpow z k x \<Longrightarrow> fpow z l y \<Longrightarrow> fpow z (k + l) (fld_mul x y)"
  using fld_mul_spec [of x y] lim_mono [of 3 "fld_mul x y" 8] by (simp add: fpow_def power_add mod_simps)

lemma fpow_sq: "fpow z k x \<Longrightarrow> fpow z (2 * k) (fld_sq x)"
  using fpow_mul [of z k x k x] by (simp add: fld_sq_mul mult_2)

lemma fpow_sqs: "fpow z k x \<Longrightarrow> fpow z (2 ^ n * k) ((fld_sq ^^ n) x)"
proof (induction n)
  case (Suc n)
  then show ?case using fpow_sq [of z "2 ^ n * k"] by (simp add: mult.assoc)
qed simp

lemmas fpow_intros = fpow_mul fpow_sq fpow_sqs fpow_1

lemma fpow_cong: "fpow z k x \<Longrightarrow> k = l \<Longrightarrow> fpow z l x"
  by simp

lemma fld_inv_fpow: "lim 8 z \<Longrightarrow> fpow z (2 ^ 255 - 21) (fld_inv z)"
  unfolding fld_inv_def Let_def by (rule fpow_cong, (rule fpow_intros | assumption)+, simp)

lemma fld_pow2523_fpow: "lim 8 z \<Longrightarrow> fpow z (2 ^ 252 - 3) (fld_pow2523 z)"
  unfolding fld_pow2523_def Let_def by (rule fpow_cong, (rule fpow_intros | assumption)+, simp)


section \<open>Bounded limbs that stand for an integer modulo q\<close>

definition fe :: "int \<Rightarrow> fld \<Rightarrow> int \<Rightarrow> bool" where
  "fe m x v \<longleftrightarrow> lim m x \<and> fmod x = v mod q25519"

lemma fe_add: "fe m a u \<Longrightarrow> fe n b v \<Longrightarrow> m + n \<le> 32 \<Longrightarrow> fe (m + n) (fld_add a b) (u + v)"
  using fld_add_spec [of m a n b] by (simp add: fe_def mod_simps)

lemma fe_sub: "fe m a u \<Longrightarrow> fe n b v \<Longrightarrow> m + n \<le> 32 \<Longrightarrow> fe (m + n) (fld_sub a b) (u - v)"
  using fld_sub_spec [of m a n b] by (simp add: fe_def mod_simps)

lemma fe_mul: "fe m a u \<Longrightarrow> fe n b v \<Longrightarrow> m \<le> 8 \<Longrightarrow> n \<le> 8 \<Longrightarrow> fe 3 (fld_mul a b) (u * v)"
  using fld_mul_spec [of a b] lim_mono [of m a 8] lim_mono [of n b 8] by (simp add: fe_def mod_simps)

lemma fe_sq: "fe m a u \<Longrightarrow> m \<le> 8 \<Longrightarrow> fe 3 (fld_sq a) (u ^ 2)"
  using fe_mul [of m a u m a u] by (simp add: fld_sq_mul power2_eq_square)

lemma fe_scale: "fe m a u \<Longrightarrow> m \<le> 8 \<Longrightarrow> \<bar>x\<bar> \<le> 2 ^ 17 \<Longrightarrow> fe 3 (fld_scale a x) (x * u)"
  using fld_scale_spec [of a x] lim_mono [of m a 8] by (simp add: fe_def mod_simps)

lemma fe_inv: "fe m a u \<Longrightarrow> m \<le> 8 \<Longrightarrow> fe 8 (fld_inv a) (u ^ nat (q25519 - 2))"
proof -
  assume "fe m a u" "m \<le> 8"
  then have "lim 8 a" "fmod a = u mod q25519" using lim_mono [of m a 8] by (simp_all add: fe_def)
  moreover have "nat (q25519 - 2) = 2 ^ 255 - 21" by (simp add: q25519_def)
  ultimately show ?thesis using fld_inv_fpow [of a] by (simp add: fe_def fpow_def power_mod)
qed

end
