(* ===== verification/Fld_Codec.thy ===== *)
theory Fld_Codec
  imports Fld_Mul
begin

unbundle bit_operations_syntax

text \<open>
  Import and export of field elements: \<^const>\<open>fld_import\<close> reads a 256-bit little-endian integer and
  \<^const>\<open>fld_export\<close> writes the canonical residue, byte by byte through a 32-bit accumulator. The
  last part is the comparison \<^const>\<open>fld_eq\<close>.
\<close>

section \<open>Limb streams\<close>

text \<open>A list of limbs that starts with one of \<open>25 + d\<close> bits, as a number and as digits.\<close>

fun dval :: "nat \<Rightarrow> int list \<Rightarrow> int" where
  "dval d [] = 0"
| "dval d (x # xs) = x + 2 ^ FLD_LIMB_BITS d * dval (1 - d) xs"

fun ddigits :: "nat \<Rightarrow> int list \<Rightarrow> bool" where
  "ddigits d [] \<longleftrightarrow> True"
| "ddigits d (x # xs) \<longleftrightarrow> 0 \<le> x \<and> x < 2 ^ FLD_LIMB_BITS d \<and> ddigits (1 - d) xs"

lemma dval_fval: "even (length xs) \<Longrightarrow> dval 1 xs = fval xs"
  by (induction xs rule: fval.induct) (simp_all add: FLD_LIMB_BITS_def)

lemma ddigits_digits: "even (length xs) \<Longrightarrow> ddigits 1 xs \<longleftrightarrow> digits xs"
  by (induction xs rule: digits.induct) (auto simp: FLD_LIMB_BITS_def)

text \<open>The widths fit the 32-bit accumulator: the fill level before each limb, in bits.\<close>

fun export_fits :: "nat \<Rightarrow> nat \<Rightarrow> nat \<Rightarrow> bool" where
  "export_fits d fill 0 \<longleftrightarrow> True"
| "export_fits d fill (Suc n) \<longleftrightarrow>
     fill + FLD_LIMB_BITS d \<le> 32 \<and> export_fits (1 - d) ((fill + FLD_LIMB_BITS d) mod 8) n"

fun nbits :: "nat \<Rightarrow> nat \<Rightarrow> nat" where
  "nbits d 0 = 0"
| "nbits d (Suc n) = FLD_LIMB_BITS d + nbits (1 - d) n"

lemma ten_limbs: "export_fits 1 0 10" "nbits 1 10 = 255"
  by code_simp+

lemma div_256_less: "8 \<le> fill \<Longrightarrow> foo < 2 ^ fill \<Longrightarrow> foo div 256 < (2 ^ (fill - 8) :: int)"
proof -
  assume "8 \<le> fill" "foo < 2 ^ fill"
  moreover define Q :: int where "Q = 2 ^ (fill - 8)"
  ultimately have "foo < Q * 256"
    using power_add [of "2 :: int" "fill - 8" 8] by simp
  moreover have "256 * (foo div 256) + foo mod 256 = foo" "0 \<le> foo mod 256" by simp_all
  ultimately show ?thesis unfolding Q_def [symmetric] by linarith
qed

lemma div_mod_add: "a div 8 + (a mod 8 + m) div 8 = (a + m :: nat) div 8"
proof -
  have "a + m = 8 * (a div 8) + (a mod 8 + m)" by simp
  also have "\<dots> div 8 = a div 8 + (a mod 8 + m) div 8" by (rule div_mult_self4) simp
  finally show ?thesis ..
qed

lemma acc_less:
  assumes "foo < 2 ^ n" "x < K"
  shows "2 ^ n * x + foo < 2 ^ n * (K :: int)"
proof -
  have "2 ^ n * (x + 1) \<le> 2 ^ n * K" using assms by (intro mult_left_mono) simp_all
  then show ?thesis using assms(1) by (simp only: distrib_left)
qed

section \<open>Export\<close>

lemma export_bytes_spec:
  "0 \<le> foo \<Longrightarrow> foo < 2 ^ fill \<Longrightarrow> export_bytes foo fill = (bs, foo', fill') \<Longrightarrow>
    length bs = fill div 8 \<and> fill' = fill mod 8 \<and> le_int bs + 256 ^ length bs * foo' = foo \<and>
    0 \<le> foo' \<and> foo' < 2 ^ fill'"
proof (induction foo fill arbitrary: bs rule: export_bytes.induct)
  case (1 foo fill)
  show ?case
  proof (cases "8 \<le> fill")
    case True
    then obtain bs' where b: "export_bytes (foo div 256) (fill - 8) = (bs', foo', fill')"
      "bs = word_of_int (foo AND 0xff) # bs'"
      using "1.prems"(3) by (subst (asm) export_bytes.simps) (auto simp: drop_bit_eq_div split: prod.splits)
    have shift: "drop_bit 8 foo = foo div 256" by (simp add: drop_bit_eq_div)
    have h: "0 \<le> drop_bit 8 foo" "drop_bit 8 foo < 2 ^ (fill - 8)"
      using "1.prems" div_256_less [OF True] by (simp_all add: drop_bit_eq_div)
    have IH: "length bs' = (fill - 8) div 8" "fill' = (fill - 8) mod 8"
      "le_int bs' + 256 ^ length bs' * foo' = foo div 256" "0 \<le> foo'" "foo' < 2 ^ fill'"
      using "1.IH" [OF True h b(1) [folded shift]] unfolding shift by auto
    have "uint (word_of_int (foo AND 0xff) :: byte) = foo mod 256"
      using and_mask [of foo 8] by (simp add: uint_byte_of_int)
    then have "le_int bs + 256 ^ length bs * foo' = foo mod 256 + 256 * (foo div 256)"
      unfolding IH(3) [symmetric] by (simp add: b algebra_simps)
    then show ?thesis using IH True by (simp add: b le_div_geq le_mod_geq)
  next
    case False
    then show ?thesis using 1 by (subst (asm) export_bytes.simps) auto
  qed
qed

lemma export_limbs_spec:
  "ddigits d xs \<Longrightarrow> 0 \<le> foo \<Longrightarrow> foo < 2 ^ fill \<Longrightarrow> fill < 8 \<Longrightarrow> export_fits d fill (length xs) \<Longrightarrow>
    export_limbs d foo fill xs = (bs, foo') \<Longrightarrow>
    le_int bs + 256 ^ length bs * foo' = foo + 2 ^ fill * dval d xs \<and>
    length bs = (fill + nbits d (length xs)) div 8 \<and> 0 \<le> foo'"
proof (induction d foo fill xs arbitrary: bs rule: export_limbs.induct)
  case (2 d foo fill x xs)
  define k where "k = FLD_LIMB_BITS d"
  have x: "0 \<le> x" "x < 2 ^ k" using "2.prems"(1) by (simp_all add: k_def)
  have f: "fill + k \<le> 32" "export_fits (1 - d) ((fill + k) mod 8) (length xs)"
    using "2.prems"(5) by (simp_all add: k_def)
  have m: "x AND FLD_LIMB_MASK d = x" using x and_mask [of x k] by (simp add: FLD_LIMB_MASK_def k_def push_bit_eq_mult)
  have lt: "2 ^ fill * x + foo < 2 ^ (fill + k)"
    using acc_less [OF "2.prems"(3) x(2)] by (simp add: power_add)
  moreover have "(2 :: int) ^ (fill + k) \<le> 2 ^ 32" using f(1) by (intro power_increasing) simp_all
  moreover have "0 \<le> 2 ^ fill * x" using x by simp
  ultimately have "u32 (push_bit fill x) = push_bit fill x"
    using "2.prems"(2) by (intro u32_id) (simp_all add: push_bit_eq_mult mult.commute)
  then have acc: "foo OR u32 (push_bit fill (x AND FLD_LIMB_MASK d)) = foo + 2 ^ fill * x"
    using or_push_bit [OF "2.prems"(2,3)] by (simp add: m)
  obtain bs1 foo1 fill1 bs2 where e1: "export_bytes (foo + 2 ^ fill * x) (fill + k) = (bs1, foo1, fill1)"
    and e2: "export_limbs (1 - d) foo1 fill1 xs = (bs2, foo')" and bs: "bs = bs1 @ bs2"
    using "2.prems"(6) unfolding export_limbs.simps acc k_def by (auto split: prod.splits)
  have s1: "length bs1 = (fill + k) div 8" "fill1 = (fill + k) mod 8" "0 \<le> foo1" "foo1 < 2 ^ fill1"
    "le_int bs1 + 256 ^ length bs1 * foo1 = foo + 2 ^ fill * x"
    using export_bytes_spec [OF _ _ e1] lt x "2.prems"(2) by (auto simp: add.commute)
  have IH: "le_int bs2 + 256 ^ length bs2 * foo' = foo1 + 2 ^ fill1 * dval (1 - d) xs"
    "length bs2 = (fill1 + nbits (1 - d) (length xs)) div 8" "0 \<le> foo'"
    using "2.IH" [OF e1 [folded acc, unfolded k_def, symmetric] refl _ s1(3,4) _ _ e2] f(2) s1(2) "2.prems"(1) by auto
  have p: "256 ^ length bs1 * 2 ^ fill1 = (2 :: int) ^ fill * 2 ^ k"
    using power_mult [of "2 :: int" 8 "(fill + k) div 8"] power_add [of "2 :: int" "8 * ((fill + k) div 8)" "(fill + k) mod 8"]
    unfolding s1(1,2) by (simp add: power_add [symmetric])
  have "le_int bs + 256 ^ length bs * foo' = le_int bs1 + 256 ^ length bs1 * (foo1 + 2 ^ fill1 * dval (1 - d) xs)"
    unfolding bs IH(1) [symmetric] by (simp add: le_int_append power_add algebra_simps)
  also have "\<dots> = (le_int bs1 + 256 ^ length bs1 * foo1) + (256 ^ length bs1 * 2 ^ fill1) * dval (1 - d) xs"
    by (simp add: algebra_simps)
  finally have v: "le_int bs + 256 ^ length bs * foo' = foo + 2 ^ fill * dval d (x # xs)"
    unfolding s1(5) p by (simp add: k_def algebra_simps)
  have "length bs = (fill + nbits d (length (x # xs))) div 8"
    unfolding bs length_append s1(1) IH(2) s1(2) by (simp only: div_mod_add k_def nbits.simps list.size add_Suc_right add_0_right add.assoc)
  then show ?case using v IH(3) by simp
qed simp

lemma fld_export_spec:
  assumes "length x = 10" "\<forall>y\<in>set x. \<bar>y\<bar> \<le> 2 ^ 31 - 65"
  shows "fld_export x = le_bytes 32 (fmod x)"
proof -
  let ?r = "fld_reduce x"
  have r: "digits ?r" "length ?r = 10" "fval ?r = fmod x" using fld_reduce_spec [OF assms] by auto
  obtain bs foo where e: "export_limbs 1 0 0 ?r = (bs, foo)" by fastforce
  have v: "le_int bs + 256 ^ length bs * foo = fmod x" "length bs = 31" "0 \<le> foo"
    using export_limbs_spec [OF _ _ _ _ _ e] r(2,3) ten_limbs ddigits_digits [of ?r] dval_fval [of ?r] r(1) by auto
  have b: "fmod x < 2 ^ 255" using r fval_digits [of ?r] by simp
  have foo: "foo < 256"
  proof (rule ccontr)
    assume "\<not> foo < 256"
    then have "256 ^ 31 * 256 \<le> 256 ^ 31 * foo" by (intro mult_left_mono) simp_all
    then show False using v b le_int_bounds [of bs] by simp
  qed
  have fe: "fld_export x = bs @ [word_of_int (foo AND 0xff)]" unfolding fld_export_def e by simp
  have "le_int (fld_export x) = fmod x"
    using v foo and_mask [of foo 8] by (simp add: fe le_int_append uint_byte_of_int)
  moreover have "length (fld_export x) = 32" by (simp add: fe v(2))
  ultimately show ?thesis by (metis le_bytes_le_int)
qed

section \<open>Import\<close>

lemma div8_step:
  assumes "f < b"
  shows "(b - f + 7) div 8 = Suc ((b - (f + 8) + 7) div 8)"
proof -
  obtain k where b: "b = f + Suc k" using assms less_imp_Suc_add by (metis add_Suc_right)
  show ?thesis
  proof (cases "k < 7")
    case True
    then have "k = 0 \<or> k = 1 \<or> k = 2 \<or> k = 3 \<or> k = 4 \<or> k = 5 \<or> k = 6" by linarith
    then show ?thesis unfolding b by (elim disjE) simp_all
  next
    case False
    then obtain m where "k = 7 + m" using le_Suc_ex not_less by blast
    then have "b - f + 7 = 8 + (m + 7)" "b - (f + 8) + 7 = m + 7" by (simp_all add: b)
    then show ?thesis by (simp only: div_add_self1 [of 8 "m + 7" for m] plus_1_eq_Suc zero_neq_numeral not_False_eq_True)
  qed
qed

lemma import_bytes_spec:
  "0 \<le> foo \<Longrightarrow> foo < 2 ^ fill \<Longrightarrow> bits \<le> 26 \<Longrightarrow> fill + 8 * ((bits - fill + 7) div 8) \<le> 32 \<Longrightarrow>
    bits \<le> fill + 8 * length src \<Longrightarrow> import_bytes foo fill bits src = (foo', fill', src') \<Longrightarrow>
    foo' + 2 ^ fill' * le_int src' = foo + 2 ^ fill * le_int src \<and> 0 \<le> foo' \<and> foo' < 2 ^ fill' \<and>
    bits \<le> fill' \<and> fill' \<le> 32 \<and> fill' + 8 * length src' = fill + 8 * length src \<and>
    fill' = fill + 8 * ((bits - fill + 7) div 8)"
proof (induction foo fill bits src rule: import_bytes.induct)
  case (1 foo fill bits src)
  show ?case
  proof (cases "fill < bits")
    case True
    then obtain b bs where src: "src = b # bs" using "1.prems"(5) by (cases src) auto
    have ub: "0 \<le> uint b" "uint b < 256" using uint_lt2p [of b] by simp_all
    have d: "(bits - fill + 7) div 8 = Suc ((bits - (fill + 8) + 7) div 8)" using True by (rule div8_step)
    then have f8: "fill + 8 \<le> 32" using "1.prems"(4) by linarith
    have lt: "2 ^ fill * uint b + foo < 2 ^ (fill + 8)"
      using acc_less [OF "1.prems"(2) ub(2)] by (simp add: power_add)
    moreover have "(2 :: int) ^ (fill + 8) \<le> 2 ^ 32" using f8 by (intro power_increasing) simp_all
    moreover have nn: "0 \<le> 2 ^ fill * uint b" using ub by simp
    ultimately have "u32 (push_bit fill (uint b)) = push_bit fill (uint b)"
      using "1.prems"(1) by (intro u32_id) (simp_all add: push_bit_eq_mult mult.commute)
    then have acc: "foo OR u32 (push_bit fill (uint (hd src))) = foo + 2 ^ fill * uint b"
      using or_push_bit [OF "1.prems"(1,2)] by (simp add: src)
    have e: "import_bytes (foo + 2 ^ fill * uint b) (fill + 8) bits bs = (foo', fill', src')"
      using "1.prems"(6) True by (subst (asm) import_bytes.simps) (simp only: acc if_True, simp add: src)
    have b': "fill + 8 + 8 * ((bits - (fill + 8) + 7) div 8) \<le> 32" using "1.prems"(4) unfolding d by simp
    have p: "0 \<le> foo + 2 ^ fill * uint b" "foo + 2 ^ fill * uint b < 2 ^ (fill + 8)"
      "bits \<le> fill + 8 + 8 * length bs"
      using lt nn "1.prems"(1,5) by (simp_all add: src add.commute)
    note IH = "1.IH" [OF True, unfolded acc, unfolded src list.sel, OF p(1,2) "1.prems"(3) b' p(3) e]
    have t: "2 ^ fill * le_int src = 2 ^ fill * uint b + 2 ^ (fill + 8) * le_int bs"
      "fill + 8 * length src = fill + 8 + 8 * length bs"
      by (simp_all add: src power_add algebra_simps)
    show ?thesis using IH unfolding d t(2) mult_Suc_right by (elim conjE, intro conjI) (use t(1) in linarith)+
  next
    case False
    then show ?thesis using 1 by (subst (asm) import_bytes.simps) auto
  qed
qed

text \<open>The fill level before each limb when importing.\<close>

fun import_fits :: "nat \<Rightarrow> nat \<Rightarrow> nat \<Rightarrow> bool" where
  "import_fits d fill 0 \<longleftrightarrow> True"
| "import_fits d fill (Suc n) \<longleftrightarrow>
     (let fill' = fill + 8 * ((FLD_LIMB_BITS d - fill + 7) div 8)
      in fill' \<le> 32 \<and> import_fits (1 - d) (fill' - FLD_LIMB_BITS d) n)"

lemma ten_limbs_import: "import_fits 1 0 10"
  by code_simp

lemma import_limbs_spec:
  "0 \<le> foo \<Longrightarrow> foo < 2 ^ fill \<Longrightarrow> import_fits d fill n \<Longrightarrow> d \<le> 1 \<Longrightarrow> nbits d n + 1 = fill + 8 * length src \<Longrightarrow>
    import_limbs n d foo fill src = (ds, foo') \<Longrightarrow>
    dval d ds + 2 ^ nbits d n * foo' = foo + 2 ^ fill * le_int src \<and> ddigits d ds \<and> length ds = n \<and>
    0 \<le> foo' \<and> foo' < 2"
proof (induction n d foo fill src arbitrary: ds rule: import_limbs.induct)
  case (1 d foo fill src)
  then show ?case by (cases src) (auto simp: power_one_right)
next
  case (2 n d foo fill src)
  define k where "k = FLD_LIMB_BITS d"
  have k: "k \<le> 26" using "2.prems"(4) by (simp add: k_def FLD_LIMB_BITS_def)
  obtain foo1 fill1 src1 ds1 where e1: "import_bytes foo fill k src = (foo1, fill1, src1)"
    and e2: "import_limbs n (1 - d) (drop_bit k foo1) (fill1 - k) src1 = (ds1, foo')"
    and ds: "ds = i32 (foo1 AND FLD_LIMB_MASK d) # ds1"
    using "2.prems"(6) by (auto simp: k_def split: prod.splits)
  have s1: "foo1 + 2 ^ fill1 * le_int src1 = foo + 2 ^ fill * le_int src" "0 \<le> foo1" "foo1 < 2 ^ fill1"
    "k \<le> fill1" "fill1 \<le> 32" "fill1 + 8 * length src1 = fill + 8 * length src"
    "fill1 = fill + 8 * ((k - fill + 7) div 8)"
    using import_bytes_spec [OF "2.prems"(1,2) k _ _ e1] "2.prems"(3,5) by (auto simp: k_def Let_def)
  have sh: "drop_bit k foo1 = foo1 div 2 ^ k" by (simp add: drop_bit_eq_div)
  have p: "(2 :: int) ^ fill1 = 2 ^ k * 2 ^ (fill1 - k)" using s1(4) by (simp flip: power_add)
  have lt: "foo1 div 2 ^ k < 2 ^ (fill1 - k)"
  proof (rule ccontr)
    assume "\<not> foo1 div 2 ^ k < 2 ^ (fill1 - k)"
    then have "2 ^ (fill1 - k) * 2 ^ k \<le> foo1 div 2 ^ k * 2 ^ k" by (intro mult_right_mono) simp_all
    moreover have "foo1 div 2 ^ k * 2 ^ k \<le> foo1" using pos_mod_sign [of "2 ^ k" foo1] by (simp add: minus_mod_eq_div_mult [symmetric])
    ultimately show False using s1(3) p by (simp only: mult.commute [of _ "2 ^ k"])
  qed
  have nn: "0 \<le> foo1 div 2 ^ k" using s1(2) by (simp add: pos_imp_zdiv_nonneg_iff)
  have nb: "nbits (1 - d) n + 1 = (fill1 - k) + 8 * length src1" using "2.prems"(5) s1(4,6) by (simp add: k_def)
  have fi: "import_fits (1 - d) (fill1 - k) n" using "2.prems"(3) unfolding s1(7) by (simp add: k_def Let_def)
  have IH: "dval (1 - d) ds1 + 2 ^ nbits (1 - d) n * foo' = foo1 div 2 ^ k + 2 ^ (fill1 - k) * le_int src1"
    "ddigits (1 - d) ds1" "length ds1 = n" "0 \<le> foo'" "foo' < 2"
    using "2.IH" [OF e1 [unfolded k_def, symmetric] refl, folded k_def, OF _ _ fi _ nb e2] lt nn
    by (auto simp: sh)
  have "(2 :: int) ^ k \<le> 67108864" using power_increasing [OF k, of "2 :: int"] by simp
  moreover have m: "0 \<le> foo1 mod 2 ^ k" "foo1 mod 2 ^ k < 2 ^ k" by simp_all
  ultimately have "\<bar>foo1 mod 2 ^ k\<bar> \<le> 2147483647" by linarith
  then have h: "i32 (foo1 AND FLD_LIMB_MASK d) = foo1 mod 2 ^ k"
    using and_mask [of foo1 k] by (simp add: FLD_LIMB_MASK_def k_def push_bit_eq_mult i32_small)
  have "dval d ds + 2 ^ nbits d (Suc n) * foo' = foo1 mod 2 ^ k + 2 ^ k * (dval (1 - d) ds1 + 2 ^ nbits (1 - d) n * foo')"
    unfolding ds h by (simp add: k_def power_add algebra_simps)
  also have "\<dots> = foo1 + 2 ^ fill1 * le_int src1"
    unfolding IH(1) p using mult_div_mod_eq [of "2 ^ k" foo1] by (simp only: distrib_left)
  finally show ?case using s1(1) IH m unfolding ds h by (simp add: k_def)
qed

lemma fld_import_spec:
  assumes "length src = 32"
  shows "lim 3 (fld_import src)" "fmod (fld_import src) = le_int src mod q25519"
proof -
  obtain ds foo where e: "import_limbs 10 1 0 0 src = (ds, foo)" by fastforce
  have s: "dval 1 ds + 2 ^ 255 * foo = le_int src" "ddigits 1 ds" "length ds = 10" "0 \<le> foo" "foo < 2"
    using import_limbs_spec [OF _ _ ten_limbs_import _ _ e] assms ten_limbs(2) by auto
  have dg: "digits ds" "fval ds + 2 ^ 255 * foo = le_int src"
    using s ddigits_digits [of ds] dval_fval [of ds] by auto
  obtain d ds' where d: "ds = d # ds'" "length ds' = 9" using s(3) by (cases ds) auto
  have d0: "0 \<le> d" "d < 2 ^ 26" using dg(1) digits_tl d by blast+
  then have "i32 (d + i32 (19 * foo)) = d + 19 * foo" using s(4,5) by (simp add: i32_small)
  then have f: "fld_import src = (d + 19 * foo) # ds'"
    unfolding fld_import_def FLD_LIMB_NUM_def e by (simp add: d)
  show "lim 3 (fld_import src)" unfolding f using dg(1) s(4,5) d by (intro lim_digits) simp_all
  have "le_int src = fval (fld_import src) + q25519 * foo"
    unfolding f fval_add_low [OF d(2)] dg(2) [symmetric] q25519_def by (simp add: d(1))
  then show "fmod (fld_import src) = le_int src mod q25519" by (simp add: fmod_def)
qed

section \<open>Comparison\<close>

lemma foldl_or_zero: "(\<forall>x\<in>set xs. 0 \<le> x) \<Longrightarrow> 0 \<le> r \<Longrightarrow> foldl (OR) r xs = (0 :: int) \<longleftrightarrow> r = 0 \<and> (\<forall>x\<in>set xs. x = 0)"
proof (induction xs arbitrary: r)
  case (Cons x xs)
  then have "r OR x = 0 \<longleftrightarrow> r = 0 \<and> x = 0" by (simp add: or_eq_0_iff)
  then show ?case using Cons by simp
qed simp

lemma foldl_or_bound: "(\<forall>x\<in>set xs. 0 \<le> x \<and> x < 2 ^ n) \<Longrightarrow> 0 \<le> r \<Longrightarrow> r < 2 ^ n \<Longrightarrow>
    0 \<le> foldl (OR) r xs \<and> foldl (OR) r xs < (2 ^ n :: int)"
  by (induction xs arbitrary: r) (simp_all add: OR_upper)

text \<open>One step of the folding halves the range in which a set bit has to be looked for.\<close>

lemma fold_step: "(\<exists>i<2 * k. bit r i) \<longleftrightarrow> (\<exists>i<k. bit (r OR drop_bit k r :: int) i)"
proof -
  have "(\<exists>i<2 * k. bit r i) \<longleftrightarrow> (\<exists>i<k. bit r i \<or> bit r (k + i))"
    by (metis add_less_cancel_left le_Suc_ex mult_2 not_le trans_less_add1)
  then show ?thesis by (simp add: bit_or_iff bit_drop_bit_eq)
qed

lemma fold_bits_bit0: "bit (fold_bits r) 0 \<longleftrightarrow> (\<exists>i<32. bit r i)"
  using fold_step [of 16 r] fold_step [of 8] fold_step [of 4] fold_step [of 2] fold_step [of 1]
  by (simp add: fold_bits_def)

lemma digits_nonneg: "digits ds \<Longrightarrow> \<forall>x\<in>set ds. 0 \<le> x"
  by (induction ds rule: digits.induct) auto

lemma digits_zero: "digits ds \<Longrightarrow> fval ds = 0 \<longleftrightarrow> (\<forall>x\<in>set ds. x = 0)"
proof (induction ds rule: digits.induct)
  case (1 x y xs)
  then have "0 \<le> fval xs" using fval_digits [of xs] by simp
  then show ?case using 1 by auto
qed auto

lemma lim_nonneg: "lim m x \<Longrightarrow> 0 \<le> m"
proof -
  assume "lim m x"
  then have "\<bar>hd x\<bar> \<le> m * 2 ^ 25" by (cases x rule: fval.cases) (auto simp: lim_def)
  then have "0 \<le> m * 2 ^ 25" by linarith
  then show ?thesis by simp
qed

lemma not_and_1: "NOT x AND 1 = (if bit x 0 then 0 else 1 :: int)"
  by (simp add: and_one_eq mod2_eq_if bit_0)

lemma int_set_bit: "0 \<le> r \<Longrightarrow> r < 2 ^ n \<Longrightarrow> r \<noteq> (0 :: int) \<Longrightarrow> \<exists>i<n. bit r i"
  by (metis bit_eqI bit_0_eq bot_apply bot_bool_def bit_take_bit_iff take_bit_int_eq_self)

lemma fld_eq_spec:
  assumes "lim m a" "lim n b" "m + n \<le> 32"
  shows "fld_eq a b = (if fmod a = fmod b then 1 else 0)"
proof -
  let ?t = "fld_sub a b"
  have s: "lim (m + n) ?t" "fmod ?t = (fmod a - fmod b) mod q25519"
    using fld_sub_spec [OF assms] by auto
  define t where "t = fld_reduce ?t"
  have "\<forall>y\<in>set ?t. \<bar>y\<bar> \<le> 2 ^ 31 - 65"
    using s(1) lims_set [of "m + n" ?t] lim_nonneg [OF s(1)] mult_right_mono [OF assms(3), of "2 ^ 25"]
    by (force simp: lim_def)
  then have t: "digits t" "length t = 10" "fval t = (fmod a - fmod b) mod q25519"
    using fld_reduce_spec [of ?t] s by (simp_all add: lim_def t_def)
  obtain d ds where d: "t = d # ds" using t(2) by (cases t) auto
  have nn: "\<forall>x\<in>set t. 0 \<le> x \<and> x < 2 ^ 26" using digits_set [OF t(1)] digits_nonneg [OF t(1)] by auto
  define r where "r = foldl (OR) (t ! 0) (tl t)"
  have r: "0 \<le> r" "r < 2 ^ 26" "r = 0 \<longleftrightarrow> (\<forall>x\<in>set t. x = 0)"
    using foldl_or_bound [of ds 26 d] foldl_or_zero [of ds d] nn by (auto simp: r_def d)
  have "(\<exists>i<32. bit r i) \<longleftrightarrow> r \<noteq> 0" using int_set_bit [of r 32] r(1,2) by auto
  then have "fld_eq a b = (if r = 0 then 1 else 0)"
    using fold_bits_bit0 [of r] not_and_1 [of "fold_bits r"] by (simp add: fld_eq_def Let_def r_def t_def)
  moreover have "(fmod a - fmod b) mod q25519 = 0 \<longleftrightarrow> fmod a = fmod b"
    by (simp add: fmod_def mod_simps flip: mod_eq_dvd_iff dvd_eq_mod_eq_0)
  ultimately show ?thesis using r(3) digits_zero [OF t(1)] t(3) by simp
qed

end
