(* ===== verification/X25519_Spec.thy ===== *)
theory X25519_Spec
  imports X25519 Fld_Codec
begin

unbundle bit_operations_syntax

text \<open>
  The Montgomery ladder of RFC 7748, on residues, and the proof that x25519.c computes it. The
  reference keeps the structure of the RFC (\<open>decodeScalar25519\<close>, conditional swaps, the step
  formulas, the final power, the top bit of the u-coordinate that \<open>decodeUCoordinate\<close> clears). The
  ladder runs over 256 bits of the scalar, as the code does; the RFC leaves out the top one, which
  is zero. The code does not clear the top bit of the u-coordinate: \<open>x25519_spec\<close> says what it computes
  when the bit is set.
\<close>

section \<open>Reference\<close>

definition ladder_step :: "int \<Rightarrow> (int \<times> int) \<times> (int \<times> int) \<Rightarrow> (int \<times> int) \<times> (int \<times> int)" where
  "ladder_step x1 s =
     (let ((x2, z2), (x3, z3)) = s;
          A = x2 + z2;
          AA = A ^ 2;
          B = x2 - z2;
          BB = B ^ 2;
          E = AA - BB;
          C = x3 + z3;
          D = x3 - z3;
          DA = D * A;
          CB = C * B
      in ((AA * BB mod q25519, E * (AA + 121665 * E) mod q25519),
          ((DA + CB) ^ 2 mod q25519, x1 * (DA - CB) ^ 2 mod q25519)))"

definition cswap :: "bool \<Rightarrow> 'a \<times> 'a \<Rightarrow> 'a \<times> 'a" where
  "cswap b s = (if b then (snd s, fst s) else s)"

definition ladder :: "int \<Rightarrow> bool list \<Rightarrow> (int \<times> int) \<times> (int \<times> int)" where
  "ladder u bs = fold (\<lambda>b s. cswap b (ladder_step u (cswap b s))) bs ((1, 0), (u, 1))"

definition decodeScalar25519 :: "bytes \<Rightarrow> int" where
  "decodeScalar25519 k = le_int k mod 2 ^ 254 div 8 * 8 + 2 ^ 254"

definition decodeUCoordinate :: "bytes \<Rightarrow> int" where
  "decodeUCoordinate u = le_int u mod 2 ^ 255"

definition ladder_x25519 :: "bytes \<Rightarrow> int \<Rightarrow> bytes" where
  "ladder_x25519 k x =
     (let s = decodeScalar25519 k;
          (x2, z2) = fst (ladder (x mod q25519) (map (bit s) (rev [0..<256])))
      in le_bytes 32 (x2 * z2 ^ nat (q25519 - 2) mod q25519))"

definition rfc_x25519 :: "bytes \<Rightarrow> bytes \<Rightarrow> bytes" where
  "rfc_x25519 k u = ladder_x25519 k (decodeUCoordinate u)"

section \<open>The step\<close>

definition mg_ok :: "mg \<Rightarrow> bool" where
  "mg_ok p \<longleftrightarrow> lim 3 (mg_x p) \<and> lim 3 (mg_z p)"

definition mg_val :: "mg \<Rightarrow> int \<times> int" where
  "mg_val p = (fmod (mg_x p), fmod (mg_z p))"

lemma montgomery_spec:
  assumes "mg_ok A" "mg_ok B" "mg_ok C" "montgomery A B C = (A', B')"
  shows "mg_ok A' \<and> mg_ok B' \<and> (mg_val A', mg_val B') = ladder_step (fst (mg_val C)) (mg_val A, mg_val B)"
proof -
  obtain x2 z2 x3 z3 x1 where v: "mg_val A = (x2, z2)" "mg_val B = (x3, z3)" "fst (mg_val C) = x1"
    by (metis surj_pair)
  have f: "fe 3 (mg_x A) x2" "fe 3 (mg_z A) z2" "fe 3 (mg_x B) x3" "fe 3 (mg_z B) z3" "fe 3 (mg_x C) x1"
    using assms(1-3) v by (auto simp: mg_ok_def mg_val_def fe_def fmod_def)
  define sumA where "sumA = fld_add (mg_x A) (mg_z A)"
  define subA where "subA = fld_sub (mg_x A) (mg_z A)"
  define AA where "AA = fld_sq sumA"
  define BB where "BB = fld_sq subA"
  define T1 where "T1 = fld_sub AA BB"
  define DA where "DA = fld_mul subA (fld_add (mg_x B) (mg_z B))"
  define CB where "CB = fld_mul sumA (fld_sub (mg_x B) (mg_z B))"
  have sA: "fe 6 sumA (x2 + z2)" "fe 6 subA (x2 - z2)"
    using fe_add [OF f(1,2)] fe_sub [OF f(1,2)] by (simp_all add: sumA_def subA_def)
  have sB: "fe 6 (fld_add (mg_x B) (mg_z B)) (x3 + z3)" "fe 6 (fld_sub (mg_x B) (mg_z B)) (x3 - z3)"
    using fe_add [OF f(3,4)] fe_sub [OF f(3,4)] by simp_all
  have sq: "fe 3 AA ((x2 + z2) ^ 2)" "fe 3 BB ((x2 - z2) ^ 2)"
    using fe_sq [OF sA(1)] fe_sq [OF sA(2)] by (simp_all add: AA_def BB_def)
  let ?E = "(x2 + z2) ^ 2 - (x2 - z2) ^ 2"
  have t1: "fe 6 T1 ?E" using fe_sub [OF sq] by (simp add: T1_def)
  have t2: "fe 6 (fld_add (fld_scale T1 121665) AA) (121665 * ?E + (x2 + z2) ^ 2)"
  proof -
    have "fe (3 + 3) (fld_add (fld_scale T1 121665) AA) (121665 * ?E + (x2 + z2) ^ 2)"
      by (intro fe_add fe_scale [OF t1] sq) simp_all
    then show ?thesis by simp
  qed
  have p: "fe 3 DA ((x2 - z2) * (x3 + z3))" "fe 3 CB ((x2 + z2) * (x3 - z3))"
    using fe_mul [OF sA(2) sB(1)] fe_mul [OF sA(1) sB(2)] by (simp_all add: DA_def CB_def)
  have "fe 3 (mg_x A') ((x2 - z2) ^ 2 * (x2 + z2) ^ 2)" "fe 3 (mg_z A') (?E * (121665 * ?E + (x2 + z2) ^ 2))"
    using fe_mul [OF sq(2,1)] fe_mul [OF t1 t2] assms(4)
    by (auto simp: montgomery_def Let_def AA_def BB_def sumA_def subA_def T1_def)
  moreover have "fe 3 (mg_x B') (((x2 - z2) * (x3 + z3) + (x2 + z2) * (x3 - z3)) ^ 2)"
    "fe 3 (mg_z B') (((x2 - z2) * (x3 + z3) - (x2 + z2) * (x3 - z3)) ^ 2 * x1)"
    using fe_sq [OF fe_add [OF p]] fe_mul [OF fe_sq [OF fe_sub [OF p]] f(5)] assms(4)
    by (auto simp: montgomery_def Let_def DA_def CB_def sumA_def subA_def)
  moreover have "(x2 - z2) ^ 2 * (x2 + z2) ^ 2 = (x2 + z2) ^ 2 * (x2 - z2) ^ 2"
    "?E * (121665 * ?E + (x2 + z2) ^ 2) = ?E * ((x2 + z2) ^ 2 + 121665 * ?E)"
    "(x2 - z2) * (x3 + z3) + (x2 + z2) * (x3 - z3) = (x3 - z3) * (x2 + z2) + (x3 + z3) * (x2 - z2)"
    "((x2 - z2) * (x3 + z3) - (x2 + z2) * (x3 - z3)) ^ 2 * x1 = x1 * ((x3 - z3) * (x2 + z2) - (x3 + z3) * (x2 - z2)) ^ 2"
    by algebra+
  ultimately show ?thesis
    unfolding mg_ok_def fe_def mg_val_def [of A'] mg_val_def [of B'] v ladder_step_def Let_def prod.case by metis
qed

section \<open>The conditional swap\<close>

lemma ctmemswap_0: "ctmemswap a b 0 = (a, b)"
  by (induction a b "0 :: byte" rule: ctmemswap.induct) auto

lemma ctmemswap_1: "length a = length b \<Longrightarrow> ctmemswap a b (- 1) = (b, a)"
proof (induction a b "- 1 :: byte" rule: ctmemswap.induct)
  case (1 x xs y ys)
  have "x XOR (x XOR y) = y" "y XOR (x XOR y) = x"
    by (simp_all add: xor.left_commute [of y x] xor.assoc [symmetric] xor.commute [of x y]) (simp_all add: xor.assoc)
  then show ?case using 1 by simp
qed auto

lemma sign_mask_bit: "sign_mask foo = (if bit foo 7 then - 1 else 0)"
proof -
  have "bit foo (7 + n) \<Longrightarrow> n = 0" for n using bit_imp_le_length [of foo "7 + n"] by simp
  then have "bit (drop_bit 7 (sint foo)) n \<longleftrightarrow> bit foo 7" for n
    by (cases "n = 0") (auto simp: bit_drop_bit_eq bit_sint_iff)
  then have "drop_bit 7 (sint foo) = (if bit foo 7 then - 1 else 0)"
    by (intro bit_eqI) simp
  then show ?thesis by (simp add: sign_mask_def)
qed

lemma limbs_of_bytes:
  "\<forall>x\<in>set ls. i32_range x \<Longrightarrow> limbs_of (length ls) (concat (map (le_bytes 4) ls)) = ls"
  by (induction ls) (simp_all add: le_i32)

lemma lim_i32: "lim 3 x \<Longrightarrow> \<forall>y\<in>set x. i32_range y"
  using lims_set [of 3 x] by (fastforce simp: lim_def i32_range_def)

lemma mg_bytes_back:
  assumes "mg_ok p"
  shows "mg_of_bytes (mg_bytes p) = p"
proof -
  have "length (mg_x p @ mg_z p) = 2 * FLD_LIMB_NUM" "\<forall>y\<in>set (mg_x p @ mg_z p). i32_range y"
    using assms lim_i32 by (auto simp: mg_ok_def lim_def FLD_LIMB_NUM_def)
  then have "limbs_of (2 * FLD_LIMB_NUM) (mg_bytes p) = mg_x p @ mg_z p"
    using limbs_of_bytes unfolding mg_bytes_def by metis
  moreover have "length (mg_x p) = FLD_LIMB_NUM" using assms by (simp add: mg_ok_def lim_def FLD_LIMB_NUM_def)
  ultimately show ?thesis by (simp add: mg_of_bytes_def Let_def)
qed

lemma length_mg_bytes: "mg_ok p \<Longrightarrow> length (mg_bytes p) = 80"
  by (simp add: mg_bytes_def length_concat o_def mg_ok_def lim_def sum_list_triv)

lemma mg_ctmemswap_spec:
  assumes "mg_ok a" "mg_ok b"
  shows "mg_ctmemswap a b (sign_mask foo) = cswap (bit foo 7) (a, b)"
  using ctmemswap_1 [of "mg_bytes a" "mg_bytes b"] length_mg_bytes mg_bytes_back assms
  by (simp add: mg_ctmemswap_def sign_mask_bit ctmemswap_0 cswap_def)

section \<open>The ladder\<close>

lemma cswap_map: "cswap b (f x, f y) = (f (fst (cswap b (x, y))), f (snd (cswap b (x, y))))"
  by (simp add: cswap_def)

lemma cswap_ok: "mg_ok x \<Longrightarrow> mg_ok y \<Longrightarrow> mg_ok (fst (cswap b (x, y))) \<and> mg_ok (snd (cswap b (x, y)))"
  by (simp add: cswap_def)

definition mgs_ok :: "mg \<times> mg \<Rightarrow> bool" where
  "mgs_ok s \<longleftrightarrow> mg_ok (fst s) \<and> mg_ok (snd s)"

definition mgs_val :: "mg \<times> mg \<Rightarrow> (int \<times> int) \<times> (int \<times> int)" where
  "mgs_val s = (mg_val (fst s), mg_val (snd s))"

lemma mg_step_spec:
  assumes "mg_ok P" "mgs_ok s"
  shows "mgs_ok (mg_step P foo s) \<and>
    mgs_val (mg_step P foo s) = cswap (bit foo 7) (ladder_step (fst (mg_val P)) (cswap (bit foo 7) (mgs_val s)))"
proof -
  define c where "c = cswap (bit foo 7) s"
  have c: "mg_ctmemswap (fst s) (snd s) (sign_mask foo) = c" "mg_ok (fst c)" "mg_ok (snd c)"
    "cswap (bit foo 7) (mgs_val s) = (mg_val (fst c), mg_val (snd c))"
    using assms mg_ctmemswap_spec [of "fst s" "snd s" foo] by (auto simp: c_def mgs_ok_def mgs_val_def cswap_def)
  obtain A B where m: "montgomery (fst c) (snd c) P = (A, B)" by fastforce
  have r: "mg_ok A" "mg_ok B" "(mg_val A, mg_val B) = ladder_step (fst (mg_val P)) (mg_val (fst c), mg_val (snd c))"
    using montgomery_spec [OF c(2,3) assms(1) m] by auto
  have "mg_step P foo s = cswap (bit foo 7) (A, B)"
    using mg_ctmemswap_spec [OF r(1,2)] m c(1) by (cases c) (simp add: mg_step_def)
  then show ?thesis using r(1,2) unfolding c(4) r(3) [symmetric] by (simp add: mgs_ok_def mgs_val_def cswap_def)
qed

definition bit_step :: "int \<Rightarrow> bool \<Rightarrow> (int \<times> int) \<times> (int \<times> int) \<Rightarrow> (int \<times> int) \<times> (int \<times> int)" where
  "bit_step u b s = cswap b (ladder_step u (cswap b s))"

lemma mg_bits_spec:
  "j \<le> 8 \<Longrightarrow> mg_ok P \<Longrightarrow> mgs_ok s \<Longrightarrow> mgs_ok (mg_bits j P foo s) \<and>
    mgs_val (mg_bits j P foo s) = fold (bit_step (fst (mg_val P))) (map (\<lambda>i. bit foo (7 - i)) [0..<j]) (mgs_val s)"
proof (induction j arbitrary: foo s)
  case (Suc j)
  have st: "mgs_ok (mg_step P foo s)" "mgs_val (mg_step P foo s) = bit_step (fst (mg_val P)) (bit foo 7) (mgs_val s)"
    using mg_step_spec [OF Suc.prems(2,3)] by (simp_all add: bit_step_def)
  have "map (\<lambda>i. bit (push_bit 1 foo) (7 - i)) [0..<j] = map (\<lambda>i. bit foo (7 - Suc i)) [0..<j]"
  proof (rule map_cong [OF refl])
    fix i assume "i \<in> set [0..<j]"
    then have "1 \<le> 7 - i" "7 - i - 1 = 7 - Suc i" "possible_bit TYPE(byte) (7 - i)"
      using Suc.prems(1) by (auto simp: possible_bit_word)
    then show "bit (push_bit 1 foo) (7 - i) = bit foo (7 - Suc i)" by (simp only: bit_push_bit_iff simp_thms)
  qed
  then have "map (\<lambda>i. bit foo (7 - i)) [0..<Suc j] = bit foo 7 # map (\<lambda>i. bit (push_bit 1 foo) (7 - i)) [0..<j]"
    by (simp only: upt_conv_Cons map_Suc_upt [symmetric] map_map o_def list.map zero_less_Suc) simp
  then show ?case using Suc.IH [OF _ Suc.prems(2) st(1), of "push_bit 1 foo"] Suc.prems(1) st(2) by simp
qed simp

lemma mg_bytes_spec:
  "mg_ok P \<Longrightarrow> mgs_ok s \<Longrightarrow> mgs_ok (fold (mg_bits 8 P) xs s) \<and> mgs_val (fold (mg_bits 8 P) xs s) =
    fold (bit_step (fst (mg_val P))) (concat (map (\<lambda>b. map (\<lambda>i. bit b (7 - i)) [0..<8]) xs)) (mgs_val s)"
proof (induction xs arbitrary: s)
  case (Cons b xs)
  then show ?case using mg_bits_spec [of 8 P s b] by (simp del: upt_conv_Cons)
qed simp

lemma bit_le_int_Cons: "bit (uint b + 256 * y) i \<longleftrightarrow> (if i < 8 then bit b i else bit y (i - 8))" for b :: byte
proof -
  have "uint b + 256 * y = uint b OR push_bit 8 y"
    using or_push_bit [of "uint b" 8 y] uint_lt2p [of b] by simp
  then show ?thesis
    by (auto simp: bit_or_iff bit_push_bit_iff_int bit_uint_iff dest: bit_imp_le_length)
qed

text \<open>The bytes from the last to the first, each from its top bit, are the bits of the integer.\<close>

lemma bits_of_bytes:
  "concat (map (\<lambda>b. map (\<lambda>i. bit b (7 - i)) [0..<8]) (rev xs)) = map (bit (le_int xs)) (rev [0..<8 * length xs])"
proof (induction xs)
  case (Cons b xs)
  have lo: "map (\<lambda>i. bit b (7 - i)) [0..<8] = map (bit b) (rev [0..<8])" by (simp add: upt_conv_Cons numeral_eq_Suc)
  have sp: "rev [0..<8 * length (b # xs)] = map (\<lambda>i. i + 8) (rev [0..<8 * length xs]) @ rev [0..<8]"
  proof -
    have "[0..<8 * length (b # xs)] = [0..<8] @ [8..<8 * length xs + 8]"
      using upt_add_eq_append [of 0 8 "8 * length xs"] by (simp add: add.commute)
    moreover have "[8..<8 * length xs + 8] = map (\<lambda>i. i + 8) [0..<8 * length xs]" by (simp add: map_add_upt)
    ultimately show ?thesis by (simp add: rev_map)
  qed
  have hi: "bit (le_int (b # xs)) (i + 8) = bit (le_int xs) i" for i
    using bit_le_int_Cons [of b "le_int xs" "i + 8"] by simp
  have low: "map (bit (le_int (b # xs))) (rev [0..<8]) = map (bit b) (rev [0..<8])"
    using bit_le_int_Cons [of b "le_int xs"] by (intro map_cong) auto
  show ?case
    unfolding sp map_append low map_map o_def hi
    using Cons.IH by (simp only: rev.simps map_append concat_append list.map concat.simps lo append_Nil2)
qed simp

lemma mg_scale_spec:
  assumes "mg_ok P" "mg_val P = (u, 1)"
  shows "mg_ok (mg_scale P x) \<and> mg_val (mg_scale P x) = fst (ladder u (map (bit (le_int x)) (rev [0..<8 * length x])))"
proof -
  define s0 where "s0 = (\<lparr>mg_x = fld_set0 1, mg_z = fld_set0 0\<rparr>, P)"
  have "mgs_ok s0" "mgs_val s0 = ((1, 0), (u, 1))"
    using assms lim_set0 [of 1 3] lim_set0 [of 0 3]
    by (simp_all add: s0_def mgs_ok_def mgs_val_def mg_ok_def mg_val_def q25519_def)
  then have "mgs_ok (fold (mg_bits 8 P) (rev x) s0) \<and>
    mgs_val (fold (mg_bits 8 P) (rev x) s0) = ladder u (map (bit (le_int x)) (rev [0..<8 * length x]))"
    using mg_bytes_spec [OF assms(1), of s0 "rev x"] assms(2)
    by (simp only: bits_of_bytes ladder_def bit_step_def [abs_def] fst_conv)
  then show ?thesis by (simp add: mg_scale_def s0_def [symmetric] mgs_ok_def mgs_val_def) (metis fst_conv)
qed

section \<open>Clamping\<close>

lemma byte_bits_eqI:
  fixes a :: byte
  assumes "\<And>n. n \<in> {0, 1, 2, 3, 4, 5, 6, 7} \<Longrightarrow> bit a n = bit x n" "\<And>n. 8 \<le> n \<Longrightarrow> \<not> bit x n"
  shows "uint a = x"
proof (rule bit_eqI)
  fix n
  show "bit (uint a) n = bit x n"
  proof (cases "n < 8")
    case True
    then have "n \<in> {0, 1, 2, 3, 4, 5, 6, 7}" by auto
    then show ?thesis using assms(1) by (simp add: bit_uint_iff True)
  next
    case False
    then show ?thesis using assms(2) by (simp add: bit_uint_iff)
  qed
qed

lemma clamp_low: "uint (b AND 0xf8) = uint b div 8 * 8" for b :: byte
proof -
  have "uint b div 8 * 8 = push_bit 3 (drop_bit 3 (uint b))"
    by (simp add: push_bit_eq_mult drop_bit_eq_div)
  moreover have "uint (b AND 0xf8) = push_bit 3 (drop_bit 3 (uint b))"
    by (rule byte_bits_eqI) (auto simp: bit_and_iff bit_push_bit_iff_int bit_drop_bit_eq bit_uint_iff)
  ultimately show ?thesis by simp
qed

lemma clamp_high: "uint ((b AND 0x7f) OR 0x40) = uint b mod 64 + 64" for b :: byte
proof -
  have "uint b mod 64 + 64 = take_bit 6 (uint b) OR push_bit 6 1"
    using or_push_bit [of "uint b mod 64" 6 1] by (simp add: take_bit_eq_mod)
  moreover have "uint ((b AND 0x7f) OR 0x40) = take_bit 6 (uint b) OR push_bit 6 1"
    by (rule byte_bits_eqI)
      (auto simp: bit_and_iff bit_or_iff bit_push_bit_iff_int bit_take_bit_iff bit_uint_iff bit_1_iff
        simp del: push_bit_of_1 push_bit_numeral push_bit_minus_one_eq_not_mask)
  ultimately show ?thesis by simp
qed

lemma clamp_spec:
  assumes "length k = 32"
  shows "length (clamp k) = 32" "le_int (clamp k) = decodeScalar25519 k"
proof -
  obtain k0 ks where k0: "k = k0 # ks" using assms by (cases k) auto
  obtain mid k31 where ks: "ks = mid @ [k31]" using assms k0 by (cases ks rule: rev_cases) auto
  have m: "length mid = 30" using assms by (simp add: k0 ks)
  have c: "clamp k = (k0 AND 0xf8) # mid @ [(k31 AND 0x7f) OR 0x40]"
    by (simp add: clamp_def Let_def k0 ks m nth_append list_update_append)
  show "length (clamp k) = 32" by (simp add: c m)
  define M where "M = le_int mid"
  have M: "0 \<le> M" "M < 2 ^ 240" using le_int_bounds [of mid] by (simp_all add: M_def m)
  define a where "a = uint k0"
  define h where "h = uint k31"
  have ah: "0 \<le> a" "a < 256" "0 \<le> h" using uint_lt2p [of k0] by (simp_all add: a_def h_def)
  have v: "le_int k = a + 256 * (M + 2 ^ 240 * h)" by (simp add: k0 ks m le_int_append M_def a_def h_def)
  have "le_int k mod 2 ^ 254 = a + 256 * (M + 2 ^ 240 * (h mod 64))"
  proof -
    have "a + 256 * (M + 2 ^ 240 * h) = a + 256 * (M + 2 ^ 240 * (h mod 64)) + 2 ^ 254 * (h div 64)"
    proof -
      have "h = 64 * d + m \<Longrightarrow> a + 256 * (M + 2 ^ 240 * h) = a + 256 * (M + 2 ^ 240 * m) + 2 ^ 254 * d" for d m
        by (simp add: algebra_simps)
      from this [OF mult_div_mod_eq [symmetric]] show ?thesis .
    qed
    moreover have "a + 256 * (M + 2 ^ 240 * (h mod 64)) < 2 ^ 254" using ah M pos_mod_bound [of 64 h] by simp
    moreover have "0 \<le> a + 256 * (M + 2 ^ 240 * (h mod 64))" using ah M by simp
    ultimately show ?thesis unfolding v by (simp only: mod_mult_self2 mod_pos_pos_trivial)
  qed
  moreover have "(a + 256 * W) div 8 * 8 = a div 8 * 8 + 256 * W" for W
    using div_mult_self2 [of 8 a "32 * W"] by simp
  ultimately have "le_int k mod 2 ^ 254 div 8 * 8 = a div 8 * 8 + 256 * (M + 2 ^ 240 * (h mod 64))"
    by (simp only:)
  moreover have "le_int (clamp k) = a div 8 * 8 + 256 * (M + 2 ^ 240 * (h mod 64 + 64))"
    unfolding c le_int.simps le_int_append clamp_low clamp_high by (simp add: m M_def a_def h_def)
  ultimately show "le_int (clamp k) = decodeScalar25519 k" by (simp add: decodeScalar25519_def)
qed

lemma x25519_ladder:
  assumes "length k = 32" "length u = 32"
  shows "x25519 k u = ladder_x25519 k (le_int u)"
proof -
  define P where "P = \<lparr>mg_x = fld_import u, mg_z = fld_set0 1\<rparr>"
  define U where "U = le_int u mod q25519"
  have P: "mg_ok P" "mg_val P = (U, 1)"
    using fld_import_spec [OF assms(2)] lim_set0 [of 1 3] by (simp_all add: P_def U_def mg_ok_def mg_val_def q25519_def)
  define r where "r = mg_scale P (clamp k)"
  obtain x2 z2 where l: "fst (ladder U (map (bit (decodeScalar25519 k)) (rev [0..<256]))) = (x2, z2)" by fastforce
  have r: "mg_ok r" "mg_val r = (x2, z2)"
    using mg_scale_spec [OF P, of "clamp k"] clamp_spec [OF assms(1)] l by (simp_all add: r_def)
  have f: "fe 3 (mg_x r) x2" "fe 3 (mg_z r) z2"
    using r by (auto simp: fe_def mg_ok_def mg_val_def fmod_def)
  have x: "fe 3 (fld_mul (mg_x r) (fld_inv (mg_z r))) (x2 * z2 ^ nat (q25519 - 2))"
    by (intro fe_mul [OF f(1) fe_inv [OF f(2)]]) simp_all
  have "fld_export (fld_mul (mg_x r) (fld_inv (mg_z r))) = le_bytes 32 (x2 * z2 ^ nat (q25519 - 2) mod q25519)"
    using x fld_export_spec [of "fld_mul (mg_x r) (fld_inv (mg_z r))"] lims_set
    by (fastforce simp: fe_def lim_def)
  then show ?thesis
    by (simp add: x25519_def do_x25519_def ladder_x25519_def Let_def P_def [symmetric] r_def [symmetric] U_def [symmetric] l)
qed

text \<open>The top bit of the u-coordinate counts 2 to the 255, which is 19 modulo q.\<close>

lemma le_int_top:
  assumes "length u = 32"
  shows "le_int u = decodeUCoordinate u + (if bit (u ! 31) 7 then 2 ^ 255 else 0)"
proof -
  obtain mid h where u: "u = mid @ [h]" using assms by (cases u rule: rev_cases) auto
  have m: "length mid = 31" "u ! 31 = h" using assms by (simp_all add: u nth_append)
  have M: "0 \<le> le_int mid" "le_int mid < 2 ^ 248" using le_int_bounds [of mid] by (simp_all add: m)
  have h: "0 \<le> uint h" "uint h < 256" using uint_lt2p [of h] by simp_all
  have b: "bit h 7 \<longleftrightarrow> 128 \<le> uint h"
  proof -
    have "bit h 7 \<longleftrightarrow> bit (uint h) 7" by (simp add: bit_uint_iff)
    then have "bit h 7 \<longleftrightarrow> odd (uint h div 128)" by (simp add: bit_iff_odd [of "uint h"])
    moreover have "uint h div 128 = (if 128 \<le> uint h then 1 else 0)" using h by (simp add: div_pos_pos_trivial int_div_pos_eq [of _ _ 1 "uint h - 128"])
    ultimately show ?thesis by simp
  qed
  have v: "le_int u = le_int mid + 2 ^ 248 * uint h" by (simp add: u le_int_append m)
  show ?thesis
  proof (cases "bit h 7")
    case True
    then have "(le_int mid + 2 ^ 248 * uint h - 2 ^ 255) mod 2 ^ 255 = le_int mid + 2 ^ 248 * uint h - 2 ^ 255"
      using M h b by (intro mod_pos_pos_trivial) simp_all
    then have "(le_int mid + 2 ^ 248 * uint h) mod 2 ^ 255 = le_int mid + 2 ^ 248 * uint h - 2 ^ 255"
      by (simp only: minus_mod_self2)
    then show ?thesis using True by (simp add: decodeUCoordinate_def v m)
  next
    case False
    then have "(le_int mid + 2 ^ 248 * uint h) mod 2 ^ 255 = le_int mid + 2 ^ 248 * uint h"
      using M h b by (intro mod_pos_pos_trivial) simp_all
    then show ?thesis using False by (simp add: decodeUCoordinate_def v m)
  qed
qed

lemma x25519_spec:
  assumes "length k = 32" "length u = 32"
  shows "x25519 k u = (if bit (u ! 31) 7 then ladder_x25519 k (decodeUCoordinate u + 19) else rfc_x25519 k u)"
proof -
  have "(decodeUCoordinate u + 2 ^ 255) mod q25519 = (decodeUCoordinate u + 19) mod q25519"
    using mod_mult_self2 [of "decodeUCoordinate u + 19" q25519 1] by (simp add: q25519_def add.commute)
  then show ?thesis
    using x25519_ladder [OF assms] le_int_top [OF assms(2)] by (simp add: rfc_x25519_def ladder_x25519_def)
qed

end
