(* ===== verification/Curve_Properties.thy ===== *)
theory Curve_Properties
  imports X25519_Spec
begin

text \<open>The properties of the field arithmetic (fld.c) and of the key exchange (x25519.c).\<close>

section \<open>Field arithmetic\<close>

text \<open>C13: multiplication modulo q without overflow. For limbs of at most 2^28 (even positions) and
  2^27 (odd positions) no product or sum leaves 64 bits, the result is the product modulo
  2^255 - 19, and its limbs are short enough to be added twice and multiplied again; squaring is
  multiplication of an element by itself.\<close>

theorem fld_mul_correct:
  assumes "lim 8 a" "lim 8 b"
  shows "fmod (fld_mul a b) = fval a * fval b mod q25519 \<and> lim 3 (fld_mul a b) \<and> fld_sq a = fld_mul a a \<and>
    (\<forall>x\<in>set (mul_limbs a b). i64_range x)"
proof -
  have "\<forall>x\<in>set (mul_limbs a b). i64_range x"
    using mul_limbs_bound [OF assms] by (fastforce simp: i64_range_def)
  then show ?thesis
    using fld_mul_spec [OF assms] by (simp add: fld_sq_mul fmod_def mod_simps)
qed

theorem fld_mul_correct_witness:
  "fmod (fld_mul con_d con_j) = fval con_d * fval con_j mod q25519 \<and> lim 3 (fld_mul con_d con_j) \<and>
    fld_sq con_d = fld_mul con_d con_d \<and> list_all i64_range (mul_limbs con_d con_j)"
proof -
  have "lim 8 con_d" "lim 8 con_j" by (simp_all add: con_d_def con_j_def lim_def)
  from fld_mul_correct [OF this] show ?thesis by (simp add: list_all_iff)
qed

text \<open>Reduction: \<^const>\<open>fld_reduce\<close> computes the canonical representative: for limbs that leave room for
  the carries, the result has digits in range and its value is the residue in [0, q).\<close>

theorem fld_reduce_canonical:
  assumes "length x = 10" "\<forall>y\<in>set x. \<bar>y\<bar> \<le> 2 ^ 31 - 65"
  shows "digits (fld_reduce x) \<and> fval (fld_reduce x) = fval x mod q25519"
  using fld_reduce_spec [OF assms] by (simp add: fmod_def)

theorem fld_reduce_canonical_witness:
  "digits (fld_reduce (replicate 10 (-5))) \<and> fval (fld_reduce (replicate 10 (-5))) = fval (replicate 10 (-5)) mod q25519"
  by (rule fld_reduce_canonical) simp_all

text \<open>The documented bound of \<^const>\<open>fld_reduce\<close>, limbs up to 2^31 - 2^5, is too weak: the carry
  out of an odd limb may be 63, and the next limb then leaves 32 bits.\<close>

theorem fld_reduce_documented_bound:
  "\<exists>x. length x = 10 \<and> list_all (\<lambda>y. \<bar>y\<bar> \<le> 2 ^ 31 - 2 ^ 5) x \<and> fval (fld_reduce x) \<noteq> fval x mod q25519"
  by (rule exI [of _ "[0, 2147483616, 2147483616, 0, 0, 0, 0, 0, 0, 0]"]) code_simp

text \<open>C14: import and export are inverse on residues: importing 32 bytes and exporting the element
  gives the canonical little-endian form of the integer modulo q, whatever the 256 bits are.\<close>

theorem fld_import_export:
  assumes "length bs = 32"
  shows "fld_export (fld_import bs) = le_bytes 32 (le_int bs mod q25519)"
proof -
  have i: "lim 3 (fld_import bs)" "fmod (fld_import bs) = le_int bs mod q25519"
    using fld_import_spec [OF assms] by auto
  have "\<forall>y\<in>set (fld_import bs). \<bar>y\<bar> \<le> 2 ^ 31 - 65" using i(1) lims_set by (fastforce simp: lim_def)
  then show ?thesis using fld_export_spec [of "fld_import bs"] i by (simp add: lim_def)
qed

theorem fld_import_export_witness:
  "fld_export (fld_import (replicate 32 255)) = le_bytes 32 (le_int (replicate 32 255) mod q25519)"
  by (rule fld_import_export) simp

text \<open>The addition chains of \<^const>\<open>fld_inv\<close> and \<^const>\<open>fld_pow2523\<close> raise to the powers q - 2 and
  (q - 5) / 8.\<close>

theorem fld_chains:
  assumes "lim 8 z"
  shows "fmod (fld_inv z) = fval z ^ nat (q25519 - 2) mod q25519 \<and>
    fmod (fld_pow2523 z) = fval z ^ nat ((q25519 - 5) div 8) mod q25519"
proof -
  have "nat (q25519 - 2) = 2 ^ 255 - 21" "nat ((q25519 - 5) div 8) = 2 ^ 252 - 3" by (simp_all add: q25519_def)
  then show ?thesis
    using fld_inv_fpow [OF assms] fld_pow2523_fpow [OF assms] by (simp add: fpow_def fmod_def power_mod)
qed

theorem fld_chains_witness:
  "fmod (fld_inv con_d) = fval con_d ^ nat (q25519 - 2) mod q25519 \<and>
    fmod (fld_pow2523 con_d) = fval con_d ^ nat ((q25519 - 5) div 8) mod q25519"
  by (rule fld_chains) (simp add: con_d_def lim_def)

text \<open>The branch-free comparison \<^const>\<open>fld_eq\<close> decides equality of residues.\<close>

theorem fld_eq_decides:
  assumes "lim m a" "lim n b" "m + n \<le> 32"
  shows "fld_eq a b = (if fval a mod q25519 = fval b mod q25519 then 1 else 0)"
  using fld_eq_spec [OF assms] by (simp add: fmod_def)

theorem fld_eq_decides_witness:
  "fld_eq con_d con_j = (if fval con_d mod q25519 = fval con_j mod q25519 then 1 else 0)"
  by (rule fld_eq_decides [of 8 _ 8]) (simp_all add: con_d_def con_j_def lim_def)

text \<open>The constants: d = -121665/121666, its double, the negated double, and j, a square root of
  minus one modulo q (the comment beside it says that its square is 1).\<close>

theorem fld_constants:
  "fval con_d * 121666 mod q25519 = - 121665 mod q25519 \<and> fval con_2d = 2 * fval con_d mod q25519 \<and>
    fval con_m2d = - 2 * fval con_d mod q25519 \<and> fval con_j * fval con_j mod q25519 = - 1 mod q25519 \<and>
    digits con_d \<and> digits con_2d \<and> digits con_m2d \<and> digits con_j"
  by (simp add: con_d_def con_2d_def con_m2d_def con_j_def q25519_def)

section \<open>Key exchange\<close>

text \<open>C15: for all 32-byte inputs \<^const>\<open>x25519\<close> computes the Montgomery ladder of RFC 7748 on the clamped
  scalar: the conditional swaps of the memory images, the limb arithmetic, the inversion and the
  encoding are right. When the top bit of the u-coordinate is clear the result is X25519 of the RFC.
  When it is set the two differ: RFC 7748 requires to clear it, the code counts it, and the ladder
  then runs on the masked u-coordinate plus 19. (The ladder of the reference goes over 256 bits of
  the scalar, as the code does; the RFC does not run the step of the top one, which is always zero.)\<close>

theorem x25519_is_ladder:
  assumes "length k = 32" "length u = 32"
  shows "x25519 k u = (if bit (u ! 31) 7 then ladder_x25519 k (decodeUCoordinate u + 19) else rfc_x25519 k u)"
  by (rule x25519_spec [OF assms])

theorem x25519_is_ladder_witness:
  "x25519 (replicate 32 0xa5) (9 # replicate 31 0) = rfc_x25519 (replicate 32 0xa5) (9 # replicate 31 0) \<and>
   decodeUCoordinate (9 # replicate 31 0) = 9"
proof -
  have "le_int (replicate n 0) = 0" for n by (induction n) simp_all
  then show ?thesis
    using x25519_is_ladder [of "replicate 32 0xa5" "9 # replicate 31 0"] by (simp add: decodeUCoordinate_def)
qed

end
