(* ===== verification/Action_Builder.thy ===== *)
theory Action_Builder
  imports SC_Prelude
begin

text \<open>
  core/src/action.cpp: actions, the one-way messages of the library, framed into one datagram.
  The session is an object of its own; the builder uses it only for the controller id, which is an
  argument of the operations here (zero: not registered). The outcome of a socket operation is an
  argument too. A write outside the buffer gives \<^term>\<open>None\<close>. The second part is what the
  format promises: a datagram is a sequence of framed actions that the receiver can take apart.
\<close>

section \<open>Data\<close>

datatype ActionResult = inprogress | complete | failed | would_block

datatype send_outcome = Sent | Would_block | Send_error

definition ACTION_FB_EFFECT :: int where "ACTION_FB_EFFECT = 0x1"
definition ACTION_FB_EFFECT_CLEAR :: int where "ACTION_FB_EFFECT_CLEAR = 0x2"
definition ACTION_REGISTER_TELEMETRY_GROUP :: int where "ACTION_REGISTER_TELEMETRY_GROUP = 0x1000"
definition ACTION_SET_TELEMETRY_GROUP :: int where "ACTION_SET_TELEMETRY_GROUP = 0x1001"
definition ACTION_FLAG_ENCRYPTED :: int where "ACTION_FLAG_ENCRYPTED = 1"

record action_header =
  controller_id :: int
  hdr_flags :: int
  action_id :: int
  hdr_size :: int

text \<open>The memory image of the structure of four \<^verbatim>\<open>uint16_t\<close>.\<close>

definition header_bytes :: "action_header \<Rightarrow> bytes" where
  "header_bytes h = le_bytes 2 (controller_id h) @ le_bytes 2 (hdr_flags h) @ le_bytes 2 (action_id h) @ le_bytes 2 (hdr_size h)"

record action_builder =
  ab_session :: bool
  ab_buffer :: bytes
  cur_start_idx :: int

definition vector_resize :: "nat \<Rightarrow> bytes \<Rightarrow> bytes" where
  "vector_resize n xs = take n xs @ replicate (n - length xs) 0"

section \<open>Operations\<close>

definition ab_reset :: "action_builder \<Rightarrow> action_builder" where
  "ab_reset b = b\<lparr>ab_buffer := [], cur_start_idx := 0\<rparr>"

definition ab_init :: "bool \<Rightarrow> action_builder \<Rightarrow> action_builder" where
  "ab_init session b = ab_reset (b\<lparr>ab_session := session\<rparr>)"

definition ab_build :: "int \<Rightarrow> int \<Rightarrow> bytes \<Rightarrow> int \<Rightarrow> action_builder \<Rightarrow> (bool \<times> action_builder) option" where
  "ab_build ctrl_id act payload flags b =
     (if \<not> ab_session b \<or> ctrl_id = 0 then Some (False, b)
      else let cur = u32 (int (length (ab_buffer b)));
               buf = vector_resize (length (ab_buffer b) + 8 + length payload) (ab_buffer b);
               hdr = \<lparr>controller_id = ctrl_id, hdr_flags = flags, action_id = u16 act,
                      hdr_size = u16 (8 + int (length payload))\<rparr>
           in do {
             buf \<leftarrow> wr_bytes buf cur (header_bytes hdr);
             buf \<leftarrow> wr_bytes buf (cur + 8) payload;
             Some (True, b\<lparr>ab_buffer := buf, cur_start_idx := cur\<rparr>)
           })"

text \<open>The header goes to \<^verbatim>\<open>buffer_.data()\<close>, the start of the whole buffer; the result is the offset
  of the payload.\<close>

definition ab_startBuilding :: "int \<Rightarrow> int \<Rightarrow> nat \<Rightarrow> int \<Rightarrow> action_builder \<Rightarrow> (int option \<times> action_builder) option" where
  "ab_startBuilding ctrl_id act initial_payload_size flags b =
     (if \<not> ab_session b \<or> ctrl_id = 0 then Some (None, b)
      else let cur = u32 (int (length (ab_buffer b)));
               buf = vector_resize (nat cur + 8 + initial_payload_size) (ab_buffer b);
               hdr = \<lparr>controller_id = ctrl_id, hdr_flags = flags, action_id = u16 act,
                      hdr_size = u16 (8 + int initial_payload_size)\<rparr>
           in do {
             buf \<leftarrow> wr_bytes buf 0 (header_bytes hdr);
             Some (Some (cur + 8), b\<lparr>ab_buffer := buf, cur_start_idx := cur\<rparr>)
           })"

definition ab_resizePayload :: "nat \<Rightarrow> action_builder \<Rightarrow> int \<times> action_builder" where
  "ab_resizePayload s b =
     (cur_start_idx b + 8,
      b\<lparr>ab_buffer := vector_resize (nat (cur_start_idx b) + 8 + s) (ab_buffer b)\<rparr>)"

text \<open>The caller writes through the pointer that \<^verbatim>\<open>startBuilding\<close> or \<^verbatim>\<open>resizePayload\<close> returned.\<close>

definition ab_write :: "int \<Rightarrow> bytes \<Rightarrow> action_builder \<Rightarrow> action_builder option" where
  "ab_write ptr bs b = do {
     buf \<leftarrow> wr_bytes (ab_buffer b) ptr bs;
     Some (b\<lparr>ab_buffer := buf\<rparr>)
   }"

definition ab_finalize :: "action_builder \<Rightarrow> action_builder option" where
  "ab_finalize b = do {
     buf \<leftarrow> wr_bytes (ab_buffer b) (cur_start_idx b + 6)
              (le_bytes 2 (u16 (int (length (ab_buffer b)) - cur_start_idx b)));
     Some (b\<lparr>ab_buffer := buf\<rparr>)
   }"

text \<open>The sending operations return the datagram handed to the socket, the result and the builder.\<close>

definition ab_asyncSend :: "send_outcome \<Rightarrow> action_builder \<Rightarrow> (bytes option \<times> ActionResult list \<times> action_builder) option" where
  "ab_asyncSend ec b =
     (if \<not> ab_session b \<or> ab_buffer b = [] then Some (None, [failed], ab_reset b)
      else do {
        b \<leftarrow> ab_finalize b;
        Some (Some (ab_buffer b), [inprogress, if ec = Sent then complete else failed],
              b\<lparr>ab_buffer := [], cur_start_idx := 0\<rparr>)
      })"

definition ab_sendNonBlocking :: "send_outcome \<Rightarrow> action_builder \<Rightarrow> (bytes option \<times> ActionResult \<times> action_builder) option" where
  "ab_sendNonBlocking ec b =
     (if \<not> ab_session b \<or> ab_buffer b = [] then Some (None, failed, ab_reset b)
      else do {
        b \<leftarrow> ab_finalize b;
        (case ec of
           Sent \<Rightarrow> Some (Some (ab_buffer b), complete, ab_reset b)
         | Would_block \<Rightarrow> Some (None, would_block, b)
         | Send_error \<Rightarrow> Some (None, failed, ab_reset b))
      })"

definition ab_sendBlocking :: "send_outcome \<Rightarrow> send_outcome \<Rightarrow> action_builder \<Rightarrow> (bytes option \<times> ActionResult \<times> action_builder) option" where
  "ab_sendBlocking ec ec2 b =
     (if \<not> ab_session b \<or> ab_buffer b = [] then Some (None, failed, ab_reset b)
      else do {
        b \<leftarrow> ab_finalize b;
        (case ec of
           Sent \<Rightarrow> Some (Some (ab_buffer b), complete, ab_reset b)
         | Send_error \<Rightarrow> Some (None, failed, ab_reset b)
         | Would_block \<Rightarrow>
             (if ec2 = Sent then Some (Some (ab_buffer b), complete, ab_reset b)
              else Some (None, failed, ab_reset b)))
      })"

section \<open>The format\<close>

record action =
  act_controller :: int
  act_flags :: int
  act_id :: int
  act_payload :: bytes

definition action_ok :: "action \<Rightarrow> bool" where
  "action_ok a \<longleftrightarrow> 0 < act_controller a \<and> act_controller a < 2 ^ 16 \<and> 0 \<le> act_flags a \<and> act_flags a < 2 ^ 16 \<and>
     0 \<le> act_id a \<and> act_id a < 2 ^ 16 \<and> length (act_payload a) < 2 ^ 16 - 8"

definition frame :: "action \<Rightarrow> bytes" where
  "frame a = header_bytes \<lparr>controller_id = act_controller a, hdr_flags = act_flags a, action_id = act_id a,
     hdr_size = 8 + int (length (act_payload a))\<rparr> @ act_payload a"

text \<open>A receiver that walks over the datagram by the sizes in the headers.\<close>

function parse_actions :: "bytes \<Rightarrow> action list option" where
  "parse_actions bs =
     (if bs = [] then Some []
      else if length bs < 8 then None
      else let size = nat (le_int (take 2 (drop 6 bs)))
           in if size < 8 \<or> length bs < size then None
              else do {
                as \<leftarrow> parse_actions (drop size bs);
                Some (\<lparr>act_controller = le_int (take 2 bs), act_flags = le_int (take 2 (drop 2 bs)),
                       act_id = le_int (take 2 (drop 4 bs)), act_payload = take (size - 8) (drop 8 bs)\<rparr> # as)
              })"
  by pat_completeness auto
termination
  by (relation "measure length") auto

declare parse_actions.simps [simp del]

end
