(* ===== verification/Value_Type.thy ===== *)
theory Value_Type
  imports SC_Prelude
begin

unbundle bit_operations_syntax

text \<open>
  core/inc/sc-api/core/type.h, core/src/type.cpp and protocol/types.h: the types of variables and
  telemetry values. A type is a 16-bit code (base type in the low byte, variant in the high byte)
  and 16 bits of variant data. \<^verbatim>\<open>BaseType\<close> is an enumeration that also holds codes without a
  name, so it is a number here.
\<close>

type_synonym BaseType = int

abbreviation (input) TYPE_INVALID :: BaseType where "TYPE_INVALID \<equiv> 0x00"
abbreviation (input) TYPE_BOOL :: BaseType where "TYPE_BOOL \<equiv> 0x01"
abbreviation (input) TYPE_I8 :: BaseType where "TYPE_I8 \<equiv> 0x02"
abbreviation (input) TYPE_U8 :: BaseType where "TYPE_U8 \<equiv> 0x03"
abbreviation (input) TYPE_I16 :: BaseType where "TYPE_I16 \<equiv> 0x04"
abbreviation (input) TYPE_U16 :: BaseType where "TYPE_U16 \<equiv> 0x05"
abbreviation (input) TYPE_I32 :: BaseType where "TYPE_I32 \<equiv> 0x06"
abbreviation (input) TYPE_U32 :: BaseType where "TYPE_U32 \<equiv> 0x07"
abbreviation (input) TYPE_I64 :: BaseType where "TYPE_I64 \<equiv> 0x08"
abbreviation (input) TYPE_F32 :: BaseType where "TYPE_F32 \<equiv> 0x09"
abbreviation (input) TYPE_F64 :: BaseType where "TYPE_F64 \<equiv> 0x0A"
abbreviation (input) TYPE_CSTRING :: BaseType where "TYPE_CSTRING \<equiv> 0x20"

definition base_types :: "BaseType list" where
  "base_types = [TYPE_BOOL, TYPE_I8, TYPE_U8, TYPE_I16, TYPE_U16, TYPE_I32, TYPE_U32, TYPE_I64, TYPE_F32, TYPE_F64,
     TYPE_CSTRING]"

definition VARIANT_BASE :: int where "VARIANT_BASE = 0"
definition VARIANT_ARRAY :: int where "VARIANT_ARRAY = 1"
definition VARIANT_BIT :: int where "VARIANT_BIT = 2"

definition TYPE_GET_BASE_TYPE :: "int \<Rightarrow> int" where "TYPE_GET_BASE_TYPE t = t AND 0xff"
definition TYPE_GET_VARIANT :: "int \<Rightarrow> int" where "TYPE_GET_VARIANT t = drop_bit 8 (t AND 0xff00)"
definition TYPE_IS_ARRAY :: "int \<Rightarrow> bool" where "TYPE_IS_ARRAY t \<longleftrightarrow> TYPE_GET_VARIANT t = VARIANT_ARRAY"
definition TYPE_IS_BASE_TYPE :: "int \<Rightarrow> bool" where "TYPE_IS_BASE_TYPE t \<longleftrightarrow> TYPE_GET_VARIANT t = VARIANT_BASE"
definition TYPE_IS_BIT :: "int \<Rightarrow> bool" where "TYPE_IS_BIT t \<longleftrightarrow> TYPE_GET_VARIANT t = VARIANT_BIT"
definition TYPE_ARRAY :: "int \<Rightarrow> int" where "TYPE_ARRAY b = b OR push_bit 8 VARIANT_ARRAY"
definition TYPE_BIT :: "int \<Rightarrow> int" where "TYPE_BIT b = b OR push_bit 8 VARIANT_BIT"

record value_type =
  type_code :: int
  variant_data :: int

section \<open>Construction\<close>

definition Type_default :: value_type where
  "Type_default = \<lparr>type_code = TYPE_INVALID, variant_data = 0\<rparr>"

definition Type_raw :: "int \<Rightarrow> int \<Rightarrow> value_type" where
  "Type_raw v d = \<lparr>type_code = u16 v, variant_data = u16 d\<rparr>"

definition Type_base :: "BaseType \<Rightarrow> value_type" where
  "Type_base b = \<lparr>type_code = u16 b, variant_data = 0\<rparr>"

text \<open>\<^verbatim>\<open>Type(BaseType base, uint32_t array_size)\<close> does not use its second argument.\<close>

definition Type_base_array :: "BaseType \<Rightarrow> int \<Rightarrow> value_type" where
  "Type_base_array b array_size = \<lparr>type_code = u16 (TYPE_ARRAY b), variant_data = 0\<rparr>"

definition Type_Array :: "BaseType \<Rightarrow> int \<Rightarrow> value_type" where
  "Type_Array b array_size = Type_raw (TYPE_ARRAY b) array_size"

definition Type_Bit :: "BaseType \<Rightarrow> int \<Rightarrow> value_type" where
  "Type_Bit b bit_idx = Type_raw (TYPE_BIT b) bit_idx"

section \<open>Queries\<close>

definition isInvalid :: "value_type \<Rightarrow> bool" where
  "isInvalid t \<longleftrightarrow> type_code t = TYPE_INVALID"

definition getBaseType :: "value_type \<Rightarrow> BaseType" where
  "getBaseType t = TYPE_GET_BASE_TYPE (type_code t)"

definition isBaseType :: "value_type \<Rightarrow> bool" where
  "isBaseType t = TYPE_IS_BASE_TYPE (type_code t)"

definition isArray :: "value_type \<Rightarrow> bool" where
  "isArray t = TYPE_IS_ARRAY (type_code t)"

definition getArraySize :: "value_type \<Rightarrow> int" where
  "getArraySize t = variant_data t"

definition isBit :: "value_type \<Rightarrow> bool" where
  "isBit t = TYPE_IS_BIT (type_code t)"

definition getBitIndex :: "value_type \<Rightarrow> int" where
  "getBitIndex t = variant_data t"

definition getBaseTypeByteSize :: "BaseType \<Rightarrow> int" where
  "getBaseTypeByteSize b =
     (if b = TYPE_INVALID then 0
      else if b = TYPE_I8 \<or> b = TYPE_U8 then 1
      else if b = TYPE_I16 \<or> b = TYPE_U16 then 2
      else if b = TYPE_I32 \<or> b = TYPE_U32 \<or> b = TYPE_F32 then 4
      else if b = TYPE_F64 \<or> b = TYPE_I64 then 8
      else 0)"

definition getValueByteSize :: "value_type \<Rightarrow> int" where
  "getValueByteSize t =
     (if type_code t = TYPE_INVALID then 0
      else if type_code t = TYPE_I8 \<or> type_code t = TYPE_U8 then 1
      else if type_code t = TYPE_I16 \<or> type_code t = TYPE_U16 then 2
      else if type_code t = TYPE_I32 \<or> type_code t = TYPE_U32 \<or> type_code t = TYPE_F32 then 4
      else if type_code t = TYPE_F64 \<or> type_code t = TYPE_I64 then 8
      else if getBaseType t = TYPE_CSTRING then getArraySize t
      else if isArray t then u32 (getBaseTypeByteSize (getBaseType t) * getArraySize t + 8)
      else 0)"

text \<open>The overloads of \<^verbatim>\<open>==\<close>: between types, and with a base type.\<close>

definition type_eq :: "value_type \<Rightarrow> value_type \<Rightarrow> bool" where
  "type_eq a b \<longleftrightarrow> type_code a = type_code b \<and> variant_data a = variant_data b"

definition type_eq_base :: "value_type \<Rightarrow> BaseType \<Rightarrow> bool" where
  "type_eq_base a b \<longleftrightarrow> type_code a = b \<and> isBaseType a"

section \<open>Text\<close>

definition baseTypeToString :: "BaseType \<Rightarrow> string" where
  "baseTypeToString b =
     (if b = TYPE_BOOL then ''boolean'' else if b = TYPE_I8 then ''i8'' else if b = TYPE_U8 then ''u8''
      else if b = TYPE_I16 then ''i16'' else if b = TYPE_U16 then ''u16'' else if b = TYPE_I32 then ''i32''
      else if b = TYPE_U32 then ''u32'' else if b = TYPE_F32 then ''f32'' else if b = TYPE_F64 then ''f64''
      else if b = TYPE_I64 then ''i64'' else if b = TYPE_CSTRING then ''cstring'' else ''invalid'')"

text \<open>\<^verbatim>\<open>std::to_string\<close> of an unsigned integer.\<close>

fun to_string :: "nat \<Rightarrow> string" where
  "to_string n = (if n < 10 then [char_of (48 + n)] else to_string (n div 10) @ [char_of (48 + n mod 10)])"

declare to_string.simps [simp del]

definition type_toString :: "value_type \<Rightarrow> string" where
  "type_toString t =
     (let s = baseTypeToString (getBaseType t)
      in if isArray t then s @ ''x'' @ to_string (nat (getArraySize t))
         else if isBit t then s @ ''.'' @ to_string (nat (getBitIndex t))
         else s)"

section \<open>Properties\<close>

definition valid_type :: "value_type \<Rightarrow> bool" where
  "valid_type t \<longleftrightarrow> (\<exists>b\<in>set base_types. t = Type_base b \<or>
     (\<exists>n. 0 \<le> n \<and> n < 2 ^ 16 \<and> (t = Type_Array b n \<or> t = Type_Bit b n)))"

lemma base_types_cases:
  "b \<in> set base_types \<longleftrightarrow> b = 1 \<or> b = 2 \<or> b = 3 \<or> b = 4 \<or> b = 5 \<or> b = 6 \<or> b = 7 \<or> b = 8 \<or> b = 9 \<or> b = 10 \<or> b = 32"
  by (simp add: base_types_def)

lemmas type_defs = Type_base_def Type_Array_def Type_Bit_def Type_raw_def TYPE_ARRAY_def TYPE_BIT_def getBaseType_def
  isArray_def isBit_def isBaseType_def TYPE_GET_BASE_TYPE_def TYPE_GET_VARIANT_def TYPE_IS_ARRAY_def TYPE_IS_BIT_def
  TYPE_IS_BASE_TYPE_def VARIANT_BASE_def VARIANT_ARRAY_def VARIANT_BIT_def getArraySize_def getBitIndex_def
  u16_def drop_bit_eq_div push_bit_eq_mult

lemma base_fields:
  assumes "b \<in> set base_types"
  shows "getBaseType (Type_base b) = b" "\<not> isArray (Type_base b)" "\<not> isBit (Type_base b)" "isBaseType (Type_base b)"
  using assms unfolding base_types_cases by (auto simp: type_defs)

lemma array_fields:
  assumes "b \<in> set base_types" "0 \<le> n" "n < 2 ^ 16"
  shows "getBaseType (Type_Array b n) = b" "isArray (Type_Array b n)" "\<not> isBit (Type_Array b n)"
    "\<not> isBaseType (Type_Array b n)" "getArraySize (Type_Array b n) = n"
  using assms unfolding base_types_cases by (auto simp: type_defs)

lemma bit_fields:
  assumes "b \<in> set base_types" "0 \<le> n" "n < 2 ^ 16"
  shows "getBaseType (Type_Bit b n) = b" "isBit (Type_Bit b n)" "\<not> isArray (Type_Bit b n)"
    "\<not> isBaseType (Type_Bit b n)" "getBitIndex (Type_Bit b n) = n"
  using assms unfolding base_types_cases by (auto simp: type_defs)

definition digits_value :: "string \<Rightarrow> nat" where
  "digits_value s = foldl (\<lambda>a c. 10 * a + (of_char c - 48)) 0 s"

lemma digits_value_to_string: "digits_value (to_string n) = n"
proof (induction n rule: to_string.induct)
  case (1 n)
  show ?case
  proof (cases "n < 10")
    case True
    then show ?thesis by (subst to_string.simps) (simp add: digits_value_def)
  next
    case False
    then have "digits_value (to_string (n div 10)) = n div 10" using 1 by simp
    then show ?thesis using False by (subst to_string.simps) (simp add: digits_value_def)
  qed
qed

lemma to_string_inject: "to_string m = to_string n \<longleftrightarrow> m = n"
  by (metis digits_value_to_string)

definition name_char :: "char \<Rightarrow> bool" where
  "name_char c \<longleftrightarrow> c \<noteq> CHR ''x'' \<and> c \<noteq> CHR ''.''"

lemma base_name_chars: "b \<in> set base_types \<Longrightarrow> list_all name_char (baseTypeToString b)"
  unfolding base_types_cases by (auto simp: baseTypeToString_def name_char_def)

lemma base_name_inject:
  "b \<in> set base_types \<Longrightarrow> b' \<in> set base_types \<Longrightarrow> baseTypeToString b = baseTypeToString b' \<Longrightarrow> b = b'"
  unfolding base_types_cases by (auto simp: baseTypeToString_def)

text \<open>The text of a type falls apart into the name of the base type and the rest.\<close>

definition type_suffix :: "value_type \<Rightarrow> string" where
  "type_suffix t = (if isArray t then ''x'' @ to_string (nat (getArraySize t))
     else if isBit t then ''.'' @ to_string (nat (getBitIndex t)) else [])"

lemma toString_split: "type_toString t = baseTypeToString (getBaseType t) @ type_suffix t"
  by (simp add: type_toString_def type_suffix_def Let_def)

lemma takeWhile_name:
  assumes "getBaseType t \<in> set base_types"
  shows "takeWhile name_char (type_toString t) = baseTypeToString (getBaseType t)"
    "dropWhile name_char (type_toString t) = type_suffix t"
proof -
  have "\<forall>c\<in>set (baseTypeToString (getBaseType t)). name_char c"
    using base_name_chars [OF assms] by (simp add: list_all_iff)
  moreover have "takeWhile name_char (type_suffix t) = []" "dropWhile name_char (type_suffix t) = type_suffix t"
    by (simp_all add: type_suffix_def name_char_def)
  ultimately show "takeWhile name_char (type_toString t) = baseTypeToString (getBaseType t)"
    "dropWhile name_char (type_toString t) = type_suffix t"
    by (simp_all add: toString_split takeWhile_append2 dropWhile_append2)
qed

lemma valid_type_base: "valid_type t \<Longrightarrow> getBaseType t \<in> set base_types"
  using base_fields array_fields bit_fields by (auto simp: valid_type_def)

lemma valid_type_eq:
  assumes "valid_type t" "valid_type u" "getBaseType t = getBaseType u" "type_suffix t = type_suffix u"
  shows "t = u"
  using assms base_fields array_fields bit_fields
  by (auto simp: valid_type_def type_suffix_def to_string_inject eq_nat_nat_iff)

text \<open>C18: the text form identifies the type: two valid types (a base type, an array with its size, a
  bit with its index) that print alike are equal.\<close>

theorem type_toString_injective:
  assumes "valid_type t" "valid_type u" "type_toString t = type_toString u"
  shows "type_eq t u"
proof -
  have b: "getBaseType t \<in> set base_types" "getBaseType u \<in> set base_types"
    using assms valid_type_base by auto
  have "getBaseType t = getBaseType u" "type_suffix t = type_suffix u"
    using takeWhile_name [OF b(1)] takeWhile_name [OF b(2)] assms(3) base_name_inject [OF b] by auto
  then show ?thesis using valid_type_eq [OF assms(1,2)] by (simp add: type_eq_def)
qed

theorem type_toString_injective_witness:
  "type_toString (Type_Array TYPE_U16 12) = ''u'' @ ''16x'' @ to_string 12 \<and>
    type_eq (Type_Array TYPE_U16 12) (Type_Array TYPE_U16 12)"
proof
  show "type_toString (Type_Array TYPE_U16 12) = ''u'' @ ''16x'' @ to_string 12"
    by (simp add: type_toString_def type_defs baseTypeToString_def)
  have v: "valid_type (Type_Array TYPE_U16 12)"
    unfolding valid_type_def by (rule bexI [of _ TYPE_U16], rule disjI2, rule exI [of _ 12]) (simp_all add: base_types_def)
  show "type_eq (Type_Array TYPE_U16 12) (Type_Array TYPE_U16 12)" by (rule type_toString_injective [OF v v refl])
qed

text \<open>The constructor with an array size forgets it: the result is the array type of size zero,
  whatever size is asked for.\<close>

theorem array_constructor_drops_size:
  "Type_base_array b n = Type_Array b 0 \<and> getArraySize (Type_base_array TYPE_F32 n) = 0"
  by (simp add: Type_base_array_def type_defs)

end
