(* ===== verification/Telemetry.thy ===== *)
theory Telemetry
  imports Action_Builder Value_Type "HOL-Library.Multiset" "HOL-Library.Product_Lexorder"
begin

unbundle bit_operations_syntax

text \<open>
  core/src/telemetry.cpp: groups of telemetry values that are registered with the backend and then
  sent as one packed action, and the list of telemetry definitions read from shared memory.
  Telemetry handles are objects that the application owns; a group keeps pointers to them, so the
  handles live in a store and a group holds addresses. A value is the bytes of its serialized form.
  \<^verbatim>\<open>std::sort\<close> does not say how equal elements are ordered: the sorting function is an argument.
\<close>

record telemetry =
  t_name :: bytes
  t_type :: value_type
  t_id :: int
  t_flags :: int
  t_value :: bytes

type_synonym tel_store = "nat \<Rightarrow> telemetry"

record telemetry_def =
  td_name :: bytes
  td_type :: value_type
  td_id :: int
  td_flags :: int
  td_variable_idx :: int

record telemetry_defs =
  defs_storage :: "telemetry_def list"
  defs_session :: bool

record update_group =
  g_telemetries :: "nat list"
  g_bufs :: "nat list"
  g_builder :: action_builder
  g_by_size :: "int list"
  set_payload_size :: int
  group_id :: int
  prepared :: bool

section \<open>Definitions\<close>

definition find_name :: "bytes \<Rightarrow> telemetry_defs \<Rightarrow> telemetry_def option" where
  "find_name name defs = find (\<lambda>d. td_name d = name) (defs_storage defs)"

definition find_name_type :: "bytes \<Rightarrow> value_type \<Rightarrow> telemetry_defs \<Rightarrow> telemetry_def option" where
  "find_name_type name ty defs = find (\<lambda>d. td_name d = name \<and> type_eq (td_type d) ty) (defs_storage defs)"

definition find_id :: "int \<Rightarrow> telemetry_defs \<Rightarrow> telemetry_def option" where
  "find_id i defs = find (\<lambda>d. td_id d = i) (defs_storage defs)"

section \<open>Groups\<close>

definition baseTypeSizeIndex :: "BaseType \<Rightarrow> int" where
  "baseTypeSizeIndex b =
     (if b = TYPE_BOOL then 0
      else if b = TYPE_I64 \<or> b = TYPE_F64 then 1
      else if b = TYPE_I32 \<or> b = TYPE_U32 \<or> b = TYPE_F32 then 2
      else if b = TYPE_I16 \<or> b = TYPE_U16 then 3
      else if b = TYPE_I8 \<or> b = TYPE_U8 then 4
      else - 1)"

definition group_new :: "int \<Rightarrow> update_group" where
  "group_new i = \<lparr>g_telemetries = [], g_bufs = [], g_builder = \<lparr>ab_session = False, ab_buffer = [], cur_start_idx = 0\<rparr>,
     g_by_size = [0, 0, 0, 0, 0], set_payload_size = 0, group_id = i, prepared = False\<rparr>"

definition group_set :: "nat list \<Rightarrow> update_group \<Rightarrow> update_group" where
  "group_set ts g = g\<lparr>g_telemetries := ts, prepared := False\<rparr>"

definition group_add :: "nat list \<Rightarrow> update_group \<Rightarrow> update_group" where
  "group_add ts g = g\<lparr>g_telemetries := g_telemetries g @ ts, prepared := False\<rparr>"

text \<open>The first loop of \<^verbatim>\<open>configure\<close>: every handle is given the id of its definition, or zero.\<close>

definition resolve :: "telemetry_defs \<Rightarrow> nat \<Rightarrow> tel_store \<Rightarrow> tel_store" where
  "resolve defs a st =
     (case find_name_type (t_name (st a)) (t_type (st a)) defs of
        Some d \<Rightarrow> st(a := (st a)\<lparr>t_id := td_id d, t_flags := td_flags d\<rparr>)
      | None \<Rightarrow> st(a := (st a)\<lparr>t_id := 0, t_flags := 0\<rparr>))"

definition size_idx :: "tel_store \<Rightarrow> nat \<Rightarrow> int" where
  "size_idx st a = baseTypeSizeIndex (getBaseType (t_type (st a)))"

definition sort_key_of :: "tel_store \<Rightarrow> nat \<Rightarrow> int \<times> int" where
  "sort_key_of st a = (size_idx st a, t_id (st a))"

text \<open>\<^verbatim>\<open>std::unique\<close> with the predicate of \<^verbatim>\<open>configure\<close>: an element is compared with the last one kept.\<close>

fun unique_ids :: "tel_store \<Rightarrow> nat list \<Rightarrow> nat list" where
  "unique_ids st (a # b # xs) =
     (if t_id (st a) \<noteq> 0 \<and> t_id (st a) = t_id (st b) then unique_ids st (a # xs)
      else a # unique_ids st (b # xs))"
| "unique_ids st xs = xs"

text \<open>The counting loop; a base type without size index would index the array at -1.\<close>

fun count_sizes :: "tel_store \<Rightarrow> nat list \<Rightarrow> int list \<Rightarrow> (nat list \<times> int list) option" where
  "count_sizes st [] cnt = Some ([], cnt)"
| "count_sizes st (a # as) cnt =
     (if t_id (st a) = 0 then count_sizes st as cnt
      else if size_idx st a < 0 then None
      else let i = nat (size_idx st a) in do {
        (bufs, cnt) \<leftarrow> count_sizes st as (cnt[i := u16 (cnt ! i + 1)]);
        Some (a # bufs, cnt)
      })"

definition expected_size_of :: "int list \<Rightarrow> int" where
  "expected_size_of cnt =
     u32 ((cnt ! 0 + 63 + 32) div 64 * 8 + cnt ! 1 * 8 + cnt ! 2 * 4 + cnt ! 3 * 2 + cnt ! 4)"

text \<open>The loop that writes the ids behind the six header bytes.\<close>

fun write_ids :: "tel_store \<Rightarrow> int \<Rightarrow> nat list \<Rightarrow> action_builder \<Rightarrow> action_builder option" where
  "write_ids st ptr [] b = Some b"
| "write_ids st ptr (a # as) b =
     (if t_id (st a) = 0 then write_ids st ptr as b
      else do {
        b \<leftarrow> ab_write ptr [word_of_int (t_id (st a) AND 0xff), word_of_int (drop_bit 8 (t_id (st a)))] b;
        write_ids st (ptr + 2) as b
      })"

definition bytes16 :: "int \<Rightarrow> bytes" where
  "bytes16 x = [word_of_int (x AND 0xff), word_of_int (drop_bit 8 x)]"

text \<open>\<^verbatim>\<open>configure\<close>: the result is the sent datagram, the returned flag, the handles and the group.\<close>

definition group_configure ::
  "((nat \<Rightarrow> int \<times> int) \<Rightarrow> nat list \<Rightarrow> nat list) \<Rightarrow> telemetry_defs \<Rightarrow> int \<Rightarrow> send_outcome \<Rightarrow> send_outcome \<Rightarrow>
   tel_store \<Rightarrow> update_group \<Rightarrow> (bytes option \<times> bool \<times> tel_store \<times> update_group) option" where
  "group_configure srt defs ctrl_id ec ec2 st g =
     (if \<not> defs_session defs \<or> g_telemetries g = [] then Some (None, False, st, g)
      else let g = g\<lparr>g_builder := ab_init True (g_builder g), prepared := False, g_bufs := [], g_by_size := [0, 0, 0, 0, 0]\<rparr>;
               st = fold (resolve defs) (g_telemetries g) st;
               ts = unique_ids st (srt (sort_key_of st) (g_telemetries g));
               g = g\<lparr>g_telemetries := ts\<rparr>
           in do {
             (bufs, cnt) \<leftarrow> count_sizes st ts [0, 0, 0, 0, 0];
             let g = g\<lparr>g_bufs := bufs, g_by_size := cnt\<rparr>;
             let expected_size = expected_size_of cnt;
             let register_payload_size = 6 + 2 * length bufs;
             if expected_size = 0 then Some (None, False, st, g)
             else do {
               (ptr, b) \<leftarrow> ab_startBuilding ctrl_id ACTION_REGISTER_TELEMETRY_GROUP register_payload_size 0 (g_builder g);
               (case ptr of
                  None \<Rightarrow> Some (None, False, st, g\<lparr>g_builder := b\<rparr>)
                | Some payload \<Rightarrow> do {
                    b \<leftarrow> write_ids st (payload + 6) ts b;
                    b \<leftarrow> ab_write payload (bytes16 (group_id g)) b;
                    b \<leftarrow> ab_write (payload + 2) (bytes16 (int (length bufs))) b;
                    b \<leftarrow> ab_write (payload + 4) (bytes16 expected_size) b;
                    (d, r, b) \<leftarrow> ab_sendBlocking ec ec2 b;
                    Some (d, r = complete, st,
                      g\<lparr>g_builder := b, set_payload_size := u16 (expected_size + 4), prepared := (r = complete)\<rparr>)
                  })
             }
           })"

section \<open>Sending\<close>

text \<open>The loop over the boolean values: \<^verbatim>\<open>word\<close> is written after every 32 bits and not cleared.\<close>

function send_bools ::
  "tel_store \<Rightarrow> int \<Rightarrow> nat \<Rightarrow> nat \<Rightarrow> int \<Rightarrow> int \<Rightarrow> nat list \<Rightarrow> action_builder \<Rightarrow>
   (nat \<times> int \<times> int \<times> nat list \<times> action_builder) option" where
  "send_bools st ptr n bit_idx word idx bufs b =
     (if bit_idx < n then
        (case bufs of
           [] \<Rightarrow> None
         | a # rest \<Rightarrow>
             (let word = (if hd (t_value (st a)) \<noteq> 0 then word OR push_bit (bit_idx mod 32) 1 else word)
              in if (bit_idx + 1) mod 32 = 0 then do {
                   b \<leftarrow> ab_write (ptr + idx) (le_bytes 4 word) b;
                   send_bools st ptr n (bit_idx + 1) word (idx + 4) rest b
                 }
                 else send_bools st ptr n (bit_idx + 1) word idx rest b))
      else Some (bit_idx, word, idx, bufs, b))"
  by pat_completeness auto
termination
  by (relation "measure (\<lambda>(st, ptr, n, bit_idx, word, idx, bufs, b). n - bit_idx)") auto

declare send_bools.simps [simp del]

text \<open>The loops over the values of one width.\<close>

fun send_fixed ::
  "tel_store \<Rightarrow> int \<Rightarrow> nat \<Rightarrow> nat \<Rightarrow> int \<Rightarrow> nat list \<Rightarrow> action_builder \<Rightarrow> (int \<times> nat list \<times> action_builder) option" where
  "send_fixed st ptr w 0 idx bufs b = Some (idx, bufs, b)"
| "send_fixed st ptr w (Suc n) idx bufs b =
     (case bufs of
        [] \<Rightarrow> None
      | a # rest \<Rightarrow> do {
          bs \<leftarrow> rd_bytes (t_value (st a)) 0 w;
          b \<leftarrow> ab_write (ptr + idx) bs b;
          send_fixed st ptr w n (idx + int w) rest b
        })"

definition align8 :: "int \<Rightarrow> int" where
  "align8 x = (x + 7) AND (NOT 7)"

definition group_send ::
  "int \<Rightarrow> send_outcome \<Rightarrow> tel_store \<Rightarrow> update_group \<Rightarrow> (bytes option \<times> ActionResult \<times> update_group) option" where
  "group_send ctrl_id ec st g =
     (if \<not> prepared g then Some (None, failed, g)
      else do {
        (ptr, b) \<leftarrow> ab_startBuilding ctrl_id ACTION_SET_TELEMETRY_GROUP (nat (set_payload_size g)) 0 (g_builder g);
        (case ptr of
           None \<Rightarrow> Some (None, failed, g\<lparr>g_builder := b\<rparr>)
         | Some payload \<Rightarrow> do {
             b \<leftarrow> ab_write payload (bytes16 (group_id g)) b;
             b \<leftarrow> ab_write (payload + 2) [0, 0] b;
             (bit_idx, word, idx, bufs, b) \<leftarrow> send_bools st payload (nat (g_by_size g ! 0)) 0 0 4 (g_bufs g) b;
             b \<leftarrow> (if bit_idx mod 32 \<noteq> 0 then ab_write (payload + idx) (le_bytes 4 word) b else Some b);
             let idx = align8 (if bit_idx mod 32 \<noteq> 0 then idx + 4 else idx);
             (idx, bufs, b) \<leftarrow> send_fixed st payload 8 (nat (g_by_size g ! 1)) idx bufs b;
             (idx, bufs, b) \<leftarrow> send_fixed st payload 4 (nat (g_by_size g ! 2)) idx bufs b;
             (idx, bufs, b) \<leftarrow> send_fixed st payload 2 (nat (g_by_size g ! 3)) idx bufs b;
             (idx, bufs, b) \<leftarrow> send_fixed st payload 1 (nat (g_by_size g ! 4)) idx bufs b;
             (d, r, b) \<leftarrow> ab_sendNonBlocking ec b;
             Some (d, r, g\<lparr>g_builder := b\<rparr>)
           })
      })"

definition group_disable :: "int \<Rightarrow> send_outcome \<Rightarrow> send_outcome \<Rightarrow> update_group \<Rightarrow> (bytes option \<times> ActionResult \<times> update_group) option" where
  "group_disable ctrl_id ec ec2 g = do {
     (ptr, b) \<leftarrow> ab_startBuilding ctrl_id ACTION_REGISTER_TELEMETRY_GROUP 6 0 (g_builder g);
     (case ptr of
        None \<Rightarrow> Some (None, failed, g\<lparr>g_builder := b\<rparr>)
      | Some payload \<Rightarrow> do {
          b \<leftarrow> ab_write payload (bytes16 (group_id g) @ [0, 0, 0, 0]) b;
          (d, r, b) \<leftarrow> ab_sendBlocking ec ec2 b;
          Some (d, r, g\<lparr>g_builder := b, prepared := False\<rparr>)
        })
   }"

section \<open>Definitions in shared memory\<close>

text \<open>Reads of the shared memory block \<^verbatim>\<open>shm\<close>; the block changes between calls, so it is an argument.\<close>

definition shm_u32 :: "bytes \<Rightarrow> int \<Rightarrow> int option" where
  "shm_u32 shm off = map_option le_int (rd_bytes shm off 4)"

definition shm_u16 :: "bytes \<Rightarrow> int \<Rightarrow> int option" where
  "shm_u16 shm off = map_option le_int (rd_bytes shm off 2)"

record telemetry_system =
  ts_header :: bool
  ts_start :: int
  ts_def_size :: int
  ts_max_defs :: int
  ts_cur_defs :: "telemetry_def list"

definition SIZEOF_TelemetryDefinitionShm :: int where
  "SIZEOF_TelemetryDefinitionShm = 32"

text \<open>\<^verbatim>\<open>strnlen\<close> reads up to the terminating zero and at most \<^verbatim>\<open>n\<close> bytes.\<close>

fun read_cstring :: "bytes \<Rightarrow> int \<Rightarrow> nat \<Rightarrow> bytes option" where
  "read_cstring shm p 0 = Some []"
| "read_cstring shm p (Suc n) = do {
     c \<leftarrow> rd_byte shm p;
     if c = 0 then Some [] else map_option ((#) c) (read_cstring shm (p + 1) n)
   }"

definition read_def :: "bytes \<Rightarrow> int \<Rightarrow> telemetry_def option" where
  "read_def shm p = do {
     i \<leftarrow> shm_u16 shm p;
     flags \<leftarrow> shm_u16 shm (p + 2);
     ty \<leftarrow> shm_u16 shm (p + 4);
     var \<leftarrow> shm_u16 shm (p + 6);
     alias \<leftarrow> shm_u32 shm (p + 8);
     name \<leftarrow> read_cstring shm (p + 12) 35;
     Some \<lparr>td_name = name, td_type = Type_raw ty var, td_id = i, td_flags = flags, td_variable_idx = alias\<rparr>
   }"

fun read_defs :: "bytes \<Rightarrow> int \<Rightarrow> int \<Rightarrow> nat list \<Rightarrow> telemetry_def list option" where
  "read_defs shm start sz [] = Some []"
| "read_defs shm start sz (i # is) = do {
     d \<leftarrow> read_def shm (start + sz * int i);
     ds \<leftarrow> read_defs shm start sz is;
     Some (d # ds)
   }"

definition ts_updateDefinitions :: "bytes \<Rightarrow> telemetry_system \<Rightarrow> (bool \<times> telemetry_system) option" where
  "ts_updateDefinitions shm ts =
     (if \<not> ts_header ts then None
      else do {
        count \<leftarrow> shm_u32 shm 20;
        let count = min (ts_max_defs ts) count;
        let n = length (ts_cur_defs ts);
        if int n = count then Some (False, ts)
        else do {
          ds \<leftarrow> read_defs shm (ts_start ts) (ts_def_size ts) [n..<nat count];
          Some (True, ts\<lparr>ts_cur_defs := ts_cur_defs ts @ ds\<rparr>)
        }
      })"

definition ts_initialize :: "bytes \<Rightarrow> telemetry_system \<Rightarrow> telemetry_system option" where
  "ts_initialize shm ts = do {
     let ts = ts\<lparr>ts_cur_defs := []\<rparr>;
     data_size \<leftarrow> shm_u32 shm 16;
     defs_offset \<leftarrow> shm_u32 shm 12;
     if defs_offset > int (length shm) \<or> data_size < SIZEOF_TelemetryDefinitionShm then Some ts
     else do {
       let ts = ts\<lparr>ts_max_defs := u32 ((int (length shm) - defs_offset) div data_size), ts_header := True,
                   ts_def_size := data_size, ts_start := defs_offset\<rparr>;
       (changed, ts) \<leftarrow> ts_updateDefinitions shm ts;
       Some ts
     }
   }"

definition ts_getDefinitions :: "bool \<Rightarrow> telemetry_system \<Rightarrow> telemetry_defs" where
  "ts_getDefinitions session ts = \<lparr>defs_storage = ts_cur_defs ts, defs_session = session\<rparr>"

end
