(* ===== verification/Action_Properties.thy ===== *)
theory Action_Properties
  imports Action_Builder
begin

text \<open>
  The builder of actions: no operation writes outside its buffer, what is built is what the
  receiver finds, and the one way of building that breaks this.
\<close>

section \<open>Frames\<close>

lemma length_header_bytes [simp]: "length (header_bytes h) = 8"
  by (simp add: header_bytes_def)

lemma length_frame [simp]: "length (frame a) = 8 + length (act_payload a)"
  by (simp add: frame_def)

lemma frame_not_Nil: "frame a \<noteq> []"
  by (metis length_frame list.size(3) add_is_0 zero_neq_numeral)

lemma le_int_2: "0 \<le> x \<Longrightarrow> x < 2 ^ 16 \<Longrightarrow> le_int (le_bytes 2 x) = x"
  by (simp add: le_int_le_bytes)

lemma header_fields:
  "take 2 (header_bytes h @ p) = le_bytes 2 (controller_id h)"
  "take 2 (drop 2 (header_bytes h @ p)) = le_bytes 2 (hdr_flags h)"
  "take 2 (drop 4 (header_bytes h @ p)) = le_bytes 2 (action_id h)"
  "take 2 (drop 6 (header_bytes h @ p)) = le_bytes 2 (hdr_size h)"
  by (simp_all add: header_bytes_def)

lemma parse_frame:
  assumes "action_ok a"
  shows "parse_actions (frame a @ rest) = map_option ((#) a) (parse_actions rest)"
proof -
  define bs where "bs = frame a @ rest"
  define k where "k = length (act_payload a)"
  have f: "le_int (take 2 bs) = act_controller a" "le_int (take 2 (drop 2 bs)) = act_flags a"
    "le_int (take 2 (drop 4 bs)) = act_id a" "le_int (take 2 (drop 6 bs)) = 8 + int k"
    using assms unfolding bs_def frame_def append_assoc header_fields by (simp_all add: action_ok_def le_int_2 k_def)
  have d: "drop (8 + k) bs = rest" "take k (drop 8 bs) = act_payload a" "length bs = 8 + k + length rest"
    by (simp_all add: frame_def bs_def k_def)
  have n: "nat (8 + int k) = 8 + k" by simp
  have "parse_actions bs = map_option ((#) a) (parse_actions rest)"
  proof -
    have "bs \<noteq> []" using d(3) by auto
    then show ?thesis
      using d(3) by (subst parse_actions.simps) (auto simp: f n d Let_def split: bind_splits)
  qed
  then show ?thesis by (simp add: bs_def)
qed

lemma parse_frames: "\<forall>a\<in>set as. action_ok a \<Longrightarrow> parse_actions (concat (map frame as)) = Some as"
  by (induction as) (simp_all add: parse_frame, simp add: parse_actions.simps)

section \<open>Building\<close>

lemma resize_grow: "length xs \<le> n \<Longrightarrow> vector_resize n xs = xs @ replicate (n - length xs) 0"
  by (simp add: vector_resize_def)

lemma length_vector_resize [simp]: "length (vector_resize n xs) = n"
  by (simp add: vector_resize_def)

lemma wr_bytes_at: "wr_bytes (xs @ ys @ zs) (int (length xs)) bs = Some (xs @ bs @ zs)" if "length bs = length ys"
  using that by (simp add: wr_bytes_def)

lemma build_appends:
  assumes "ab_session b" "action_ok a" "int (length (ab_buffer b)) < 2 ^ 32"
  shows "ab_build (act_controller a) (act_id a) (act_payload a) (act_flags a) b =
    Some (True, b\<lparr>ab_buffer := ab_buffer b @ frame a, cur_start_idx := int (length (ab_buffer b))\<rparr>)"
proof -
  let ?n = "length (ab_buffer b)" and ?k = "length (act_payload a)"
  have r: "vector_resize (?n + 8 + ?k) (ab_buffer b) = ab_buffer b @ replicate 8 0 @ replicate ?k 0"
    by (simp add: resize_grow replicate_add [symmetric])
  define h where "h = \<lparr>controller_id = act_controller a, hdr_flags = act_flags a, action_id = act_id a,
      hdr_size = 8 + int ?k\<rparr>"
  have w1: "wr_bytes (ab_buffer b @ replicate 8 0 @ replicate ?k 0) (int ?n) (header_bytes h) =
      Some (ab_buffer b @ header_bytes h @ replicate ?k 0)"
    by (rule wr_bytes_at) simp
  have w2: "wr_bytes (ab_buffer b @ header_bytes h @ replicate ?k 0) (int ?n + 8) (act_payload a) =
      Some (ab_buffer b @ header_bytes h @ act_payload a)"
    using wr_bytes_at [of "act_payload a" "replicate ?k 0" "ab_buffer b @ header_bytes h" "[]"] by simp
  show ?thesis
    using assms w1 w2
    by (simp add: ab_build_def Let_def r u32_id u16_id action_ok_def h_def [symmetric] frame_def)
qed

lemma finalize_frame:
  assumes "ab_buffer b = pre @ frame a" "cur_start_idx b = int (length pre)" "action_ok a"
  shows "ab_finalize b = Some b"
proof -
  let ?k = "length (act_payload a)"
  let ?h = "le_bytes 2 (act_controller a) @ le_bytes 2 (act_flags a) @ le_bytes 2 (act_id a)"
  have "ab_buffer b = (pre @ ?h) @ le_bytes 2 (8 + int ?k) @ act_payload a"
    by (simp add: assms(1) frame_def header_bytes_def)
  moreover have "u16 (int (length (ab_buffer b)) - cur_start_idx b) = 8 + int ?k"
    using assms by (simp add: u16_id action_ok_def)
  moreover have "int (length (pre @ ?h)) = cur_start_idx b + 6" by (simp add: assms(2))
  ultimately have "wr_bytes (ab_buffer b) (cur_start_idx b + 6)
      (le_bytes 2 (u16 (int (length (ab_buffer b)) - cur_start_idx b))) = Some (ab_buffer b)"
    using wr_bytes_at [of "le_bytes 2 (8 + int ?k)" "le_bytes 2 (8 + int ?k)" "pre @ ?h" "act_payload a"] by simp
  then show ?thesis by (simp add: ab_finalize_def)
qed

text \<open>The calls of \<^const>\<open>ab_build\<close> for a list of actions, in order.\<close>

fun build_all :: "action list \<Rightarrow> action_builder \<Rightarrow> action_builder option" where
  "build_all [] b = Some b"
| "build_all (a # as) b = do {
     (ok, b) \<leftarrow> ab_build (act_controller a) (act_id a) (act_payload a) (act_flags a) b;
     if ok then build_all as b else None
   }"

lemma build_all_frames:
  assumes "ab_session b" "\<forall>a\<in>set as. action_ok a" "length (ab_buffer b) + length (concat (map frame as)) < 2 ^ 32" "as \<noteq> []"
  shows "\<exists>b'. build_all as b = Some b' \<and> ab_session b' \<and> ab_buffer b' = ab_buffer b @ concat (map frame as) \<and>
    cur_start_idx b' = int (length (ab_buffer b @ concat (map frame (butlast as))))"
  using assms
proof (induction as arbitrary: b)
  case (Cons a as)
  define b1 where "b1 = b\<lparr>ab_buffer := ab_buffer b @ frame a, cur_start_idx := int (length (ab_buffer b))\<rparr>"
  have s: "build_all (a # as) b = build_all as b1"
    using build_appends [of b a] Cons.prems by (simp add: b1_def)
  show ?case
  proof (cases "as = []")
    case True
    then show ?thesis using s Cons.prems by (simp add: b1_def)
  next
    case False
    then show ?thesis using s Cons.IH [of b1] Cons.prems by (simp add: b1_def)
  qed
qed simp

section \<open>The invariant\<close>

definition ab_ok :: "action_builder \<Rightarrow> bool" where
  "ab_ok b \<longleftrightarrow> 0 \<le> cur_start_idx b \<and> (ab_buffer b = [] \<or> cur_start_idx b + 8 \<le> int (length (ab_buffer b)))"

inductive ab_step :: "action_builder \<Rightarrow> action_builder \<Rightarrow> bool" where
  reset: "ab_step b (ab_reset b)"
| init: "ab_step b (ab_init s b)"
| build: "ab_build c i p f b = Some (r, b') \<Longrightarrow> ab_step b b'"
| start: "ab_startBuilding c i n f b = Some (r, b') \<Longrightarrow> ab_step b b'"
| resize: "ab_resizePayload n b = (r, b') \<Longrightarrow> ab_step b b'"
| store: "ab_write q bs b = Some b' \<Longrightarrow> ab_step b b'"
| send_async: "ab_asyncSend ec b = Some (d, r, b') \<Longrightarrow> ab_step b b'"
| send: "ab_sendNonBlocking ec b = Some (d, x, b') \<Longrightarrow> ab_step b b'"
| send_blocking: "ab_sendBlocking ec ec2 b = Some (d, x, b') \<Longrightarrow> ab_step b b'"

lemma u32_bounds: "0 \<le> u32 x" "u32 (int n) \<le> int n"
  by (simp_all add: u32_def zmod_le_nonneg_dividend)

lemma ab_finalize_total:
  assumes "ab_ok b" "ab_buffer b \<noteq> []"
  shows "\<exists>b'. ab_finalize b = Some b' \<and> ab_ok b' \<and> ab_buffer b' \<noteq> []"
proof -
  let ?s = "le_bytes 2 (u16 (int (length (ab_buffer b)) - cur_start_idx b))"
  obtain buf where w: "wr_bytes (ab_buffer b) (cur_start_idx b + 6) ?s = Some buf"
    using assms wr_bytes_Some [of "cur_start_idx b + 6" ?s "ab_buffer b"] by (auto simp: ab_ok_def)
  then have "length buf = length (ab_buffer b)" by (rule length_wr_bytes)
  then show ?thesis using assms by (auto simp: ab_finalize_def w ab_ok_def)
qed

lemma ab_build_total:
  assumes "ab_ok b"
  shows "\<exists>r b'. ab_build c i p f b = Some (r, b') \<and> ab_ok b'"
proof -
  define cur where "cur = u32 (int (length (ab_buffer b)))"
  have c: "0 \<le> cur" "cur \<le> int (length (ab_buffer b))" using u32_bounds by (simp_all add: cur_def)
  let ?buf = "vector_resize (length (ab_buffer b) + 8 + length p) (ab_buffer b)"
  let ?hdr = "header_bytes \<lparr>controller_id = c, hdr_flags = f, action_id = u16 i, hdr_size = u16 (8 + int (length p))\<rparr>"
  obtain b1 where b1: "wr_bytes ?buf cur ?hdr = Some b1" using wr_bytes_Some [of cur ?hdr ?buf] c by auto
  then have l1: "length b1 = length (ab_buffer b) + 8 + length p" using length_wr_bytes by fastforce
  obtain b2 where b2: "wr_bytes b1 (cur + 8) p = Some b2" using wr_bytes_Some [of "cur + 8" p b1] c l1 by auto
  then have "length b2 = length b1" by (rule length_wr_bytes)
  then show ?thesis
    using assms b1 b2 l1 c by (auto simp: ab_build_def cur_def [symmetric] Let_def ab_ok_def)
qed

lemma ab_start_total:
  assumes "ab_ok b"
  shows "\<exists>r b'. ab_startBuilding c i n f b = Some (r, b') \<and> ab_ok b'"
proof -
  define cur where "cur = u32 (int (length (ab_buffer b)))"
  have c: "0 \<le> cur" using u32_bounds by (simp add: cur_def)
  let ?buf = "vector_resize (nat cur + 8 + n) (ab_buffer b)"
  let ?hdr = "header_bytes \<lparr>controller_id = c, hdr_flags = f, action_id = u16 i, hdr_size = u16 (8 + int n)\<rparr>"
  obtain b1 where b1: "wr_bytes ?buf 0 ?hdr = Some b1" using wr_bytes_Some [of 0 ?hdr ?buf] by auto
  then have "length b1 = nat cur + 8 + n" using length_wr_bytes by fastforce
  then show ?thesis
    using assms b1 c by (auto simp: ab_startBuilding_def cur_def [symmetric] Let_def ab_ok_def)
qed

lemma ab_send_total:
  assumes "ab_ok b"
  shows "\<exists>d r b'. ab_asyncSend ec b = Some (d, r, b')" "\<exists>d r b'. ab_sendNonBlocking ec b = Some (d, r, b')"
    "\<exists>d r b'. ab_sendBlocking ec ec2 b = Some (d, r, b')"
proof -
  have "ab_session b \<and> ab_buffer b \<noteq> [] \<Longrightarrow> \<exists>b'. ab_finalize b = Some b'"
    using ab_finalize_total [OF assms] by auto
  then show "\<exists>d r b'. ab_asyncSend ec b = Some (d, r, b')" "\<exists>d r b'. ab_sendNonBlocking ec b = Some (d, r, b')"
    "\<exists>d r b'. ab_sendBlocking ec ec2 b = Some (d, r, b')"
    by (auto simp: ab_asyncSend_def ab_sendNonBlocking_def ab_sendBlocking_def split: send_outcome.splits)
qed

lemma ab_step_ok:
  assumes "ab_ok b" "ab_step b b'"
  shows "ab_ok b'"
  using assms(2,1)
proof cases
  case (store q bs)
  then show ?thesis using assms(1) by (auto simp: ab_write_def ab_ok_def bind_eq_Some_conv dest: length_wr_bytes)
next
  case (build c i p f r)
  then show ?thesis using ab_build_total [OF assms(1), of c i p f] by auto
next
  case (start c i n f r)
  then show ?thesis using ab_start_total [OF assms(1), of c i n f] by auto
next
  case (send ec d x)
  have r: "ab_ok (ab_reset x)" for x by (simp add: ab_reset_def ab_ok_def)
  show ?thesis using send r ab_finalize_total [OF assms(1)]
    by (cases ec) (auto simp: ab_sendNonBlocking_def bind_eq_Some_conv split: if_splits)
qed (auto simp: ab_reset_def ab_init_def ab_ok_def ab_resizePayload_def ab_asyncSend_def ab_sendBlocking_def bind_eq_Some_conv
      split: if_splits send_outcome.splits)

interpretation ab_sys: invariant_system "\<lambda>b. b = \<lparr>ab_session = False, ab_buffer = [], cur_start_idx = 0\<rparr>" ab_step ab_ok
  by (unfold_locales; (blast intro: ab_step_ok)?) (simp add: ab_ok_def)

section \<open>Properties\<close>

text \<open>C16: memory safety of the builder. From a fresh builder, whatever sequence of calls is made
  (also \<^verbatim>\<open>resizePayload\<close> without a started action, and payloads of any size), every operation
  stays inside the buffer and returns.\<close>

theorem action_builder_safe:
  assumes "ab_step\<^sup>*\<^sup>* \<lparr>ab_session = False, ab_buffer = [], cur_start_idx = 0\<rparr> b"
  shows "ab_build c i p f b \<noteq> None \<and> ab_startBuilding c i n f b \<noteq> None \<and> ab_asyncSend ec b \<noteq> None \<and>
    ab_sendNonBlocking ec b \<noteq> None \<and> ab_sendBlocking ec ec2 b \<noteq> None"
proof -
  have "ab_ok b" using ab_sys.reachable_inv assms by blast
  then show ?thesis
    using ab_build_total [of b c i p f] ab_start_total [of b c i n f] ab_send_total [of b ec] ab_send_total(3) [of b ec ec2]
    by auto
qed

theorem action_builder_safe_witness:
  "ab_build 1 2 [3] 0 (ab_init True \<lparr>ab_session = False, ab_buffer = [], cur_start_idx = 0\<rparr>) \<noteq> None"
  by (rule action_builder_safe [THEN conjunct1], rule r_into_rtranclp, rule ab_step.init)

text \<open>C17: what is built is what is received. For any non-empty list of actions (payloads below 65528
  bytes), building them one after the other and sending gives one datagram, from which walking
  over the headers recovers exactly these actions in order; the builder is empty afterwards.\<close>

theorem actions_roundtrip:
  assumes "\<forall>a\<in>set as. action_ok a" "length (concat (map frame as)) < 2 ^ 32" "as \<noteq> []"
  shows "\<exists>b d b'. build_all as (ab_init True b0) = Some b \<and> ab_sendNonBlocking Sent b = Some (Some d, complete, b') \<and>
    parse_actions d = Some as \<and> ab_buffer b' = []"
proof -
  have i: "ab_session (ab_init True b0)" "ab_buffer (ab_init True b0) = []" by (simp_all add: ab_init_def ab_reset_def)
  obtain b where b: "build_all as (ab_init True b0) = Some b" "ab_session b" "ab_buffer b = concat (map frame as)"
    "cur_start_idx b = int (length (concat (map frame (butlast as))))"
    using build_all_frames [OF i(1) assms(1) _ assms(3)] assms(2) i(2) by auto
  obtain as' a where as: "as = as' @ [a]" using assms(3) by (metis rev_exhaust)
  have "ab_finalize b = Some b" using finalize_frame [of b "concat (map frame as')" a] b assms(1) by (simp add: as)
  moreover have "ab_buffer b \<noteq> []" using b(3) frame_not_Nil by (auto simp: as)
  ultimately show ?thesis using b parse_frames [OF assms(1)] by (simp add: ab_sendNonBlocking_def ab_reset_def)
qed

theorem actions_roundtrip_witness:
  "\<exists>b d b'. build_all [\<lparr>act_controller = 3, act_flags = 0, act_id = 1, act_payload = [7, 8]\<rparr>] (ab_init True \<lparr>ab_session = False, ab_buffer = [], cur_start_idx = 0\<rparr>) = Some b \<and>
    ab_sendNonBlocking Sent b = Some (Some d, complete, b') \<and>
    parse_actions d = Some [\<lparr>act_controller = 3, act_flags = 0, act_id = 1, act_payload = [7, 8]\<rparr>] \<and> ab_buffer b' = []"
  by (rule actions_roundtrip) (simp_all add: action_ok_def)

text \<open>C22: \<^verbatim>\<open>startBuilding\<close> puts its header at the start of the whole buffer. After another action was
  built, it overwrites that action's header and leaves its own zero: the datagram no longer
  contains the two actions.\<close>

theorem startBuilding_overwrites:
  "(do {
      (ok, b) \<leftarrow> ab_build 3 1 [7, 8] 0 \<lparr>ab_session = True, ab_buffer = [], cur_start_idx = 0\<rparr>;
      (ptr, b) \<leftarrow> ab_startBuilding 3 2 1 0 b;
      (d, r, b) \<leftarrow> ab_sendNonBlocking Sent b;
      d
    }) = Some (header_bytes \<lparr>controller_id = 3, hdr_flags = 0, action_id = 2, hdr_size = 9\<rparr> @ [7, 8] @
        header_bytes \<lparr>controller_id = 0, hdr_flags = 0, action_id = 0, hdr_size = 9\<rparr> @ [0])"
  by code_simp

end
