(* ===== verification/Telemetry_Properties.thy ===== *)
theory Telemetry_Properties
  imports Telemetry Action_Properties
begin

unbundle bit_operations_syntax

text \<open>
  What a telemetry group sends: the registration lists the ids of the matched handles, ordered by
  the width of their values, and every later update carries the values in the same order. Then the
  cases in which the code departs from this, and the reading of definitions from shared memory.
\<close>

section \<open>Writing into the buffer from front to back\<close>

lemma ab_write_at:
  assumes "ab_buffer b = pre @ replicate k 0" "ptr = int (length pre)" "length bs \<le> k"
  shows "ab_write ptr bs b = Some (b\<lparr>ab_buffer := (pre @ bs) @ replicate (k - length bs) 0\<rparr>)"
proof -
  have "ab_buffer b = pre @ replicate (length bs) 0 @ replicate (k - length bs) 0"
    using assms by (simp add: replicate_add [symmetric])
  then show ?thesis
    using wr_bytes_at [of bs "replicate (length bs) 0" pre "replicate (k - length bs) 0"]
    by (simp add: ab_write_def assms(2))
qed

lemma send_fixed_spec:
  "ab_buffer b = pre @ replicate k 0 \<Longrightarrow> ptr + idx = int (length pre) \<Longrightarrow> length as * w \<le> k \<Longrightarrow>
   \<forall>a\<in>set as. length (t_value (st a)) = w \<Longrightarrow>
   send_fixed st ptr w (length as) idx (as @ rest) b =
     Some (idx + int (length as * w), rest,
       b\<lparr>ab_buffer := (pre @ concat (map (\<lambda>a. t_value (st a)) as)) @ replicate (k - length as * w) 0\<rparr>)"
proof (induction as arbitrary: b pre k idx)
  case (Cons a as)
  have v: "length (t_value (st a)) = w" using Cons.prems(4) by simp
  have r: "rd_bytes (t_value (st a)) 0 w = Some (t_value (st a))" by (simp add: rd_bytes_def v)
  define b1 where "b1 = b\<lparr>ab_buffer := (pre @ t_value (st a)) @ replicate (k - w) 0\<rparr>"
  have w: "ab_write (ptr + idx) (t_value (st a)) b = Some b1"
    using ab_write_at [OF Cons.prems(1,2), of "t_value (st a)"] Cons.prems(3) v by (simp add: b1_def)
  have "send_fixed st ptr w (length as) (idx + int w) (as @ rest) b1 =
     Some (idx + int w + int (length as * w), rest,
       b1\<lparr>ab_buffer := ((pre @ t_value (st a)) @ concat (map (\<lambda>a. t_value (st a)) as)) @ replicate (k - w - length as * w) 0\<rparr>)"
    using Cons.prems v by (intro Cons.IH) (simp_all add: b1_def)
  moreover have "send_fixed st ptr w (length (a # as)) idx ((a # as) @ rest) b =
      send_fixed st ptr w (length as) (idx + int w) (as @ rest) b1"
    by (simp add: r w)
  ultimately show ?case by (simp add: b1_def algebra_simps)
qed simp

section \<open>Booleans\<close>

fun pack_bits :: "bool list \<Rightarrow> int" where
  "pack_bits [] = 0"
| "pack_bits (x # xs) = (if x then 1 else 0) + 2 * pack_bits xs"

definition bool_of :: "tel_store \<Rightarrow> nat \<Rightarrow> bool" where
  "bool_of st a \<longleftrightarrow> hd (t_value (st a)) \<noteq> 0"

lemma pack_bits_bounds: "0 \<le> pack_bits xs \<and> pack_bits xs < 2 ^ length xs"
  by (induction xs) auto

lemma send_bools_step:
  "i < n \<Longrightarrow> send_bools st ptr n i word idx (a # rest) b =
    (let w = (if bool_of st a then word OR push_bit (i mod 32) 1 else word)
     in if Suc i mod 32 = 0 then ab_write (ptr + idx) (le_bytes 4 w) b \<bind> send_bools st ptr n (Suc i) w (idx + 4) rest
        else send_bools st ptr n (Suc i) w idx rest b)"
  by (subst send_bools.simps) (simp add: bool_of_def Let_def)

lemma send_bools_end: "\<not> i < n \<Longrightarrow> send_bools st ptr n i word idx bufs b = Some (i, word, idx, bufs, b)"
  by (subst send_bools.simps) simp

text \<open>Up to 32 booleans the loop packs the bits into one word, written when the word is full.\<close>

lemma send_bools_spec:
  "n \<le> 32 \<Longrightarrow> i + length as = n \<Longrightarrow> 0 \<le> word \<Longrightarrow> word < 2 ^ i \<Longrightarrow>
   ab_buffer b = pre @ replicate k 0 \<Longrightarrow> ptr + idx = int (length pre) \<Longrightarrow> 4 \<le> k \<Longrightarrow>
   send_bools st ptr n i word idx (as @ rest) b =
     (let w = word + 2 ^ i * pack_bits (map (bool_of st) as)
      in if n = 32 \<and> i < 32
         then Some (n, w, idx + 4, rest, b\<lparr>ab_buffer := (pre @ le_bytes 4 w) @ replicate (k - 4) 0\<rparr>)
         else Some (n, w, idx, rest, b))"
proof (induction as arbitrary: i word)
  case Nil
  then show ?case by (subst send_bools.simps) simp
next
  case (Cons a as)
  have i: "i < n" "i mod 32 = i" "i < 32" using Cons.prems(1,2) by auto
  define w1 where "w1 = (if bool_of st a then word OR push_bit i 1 else word)"
  have w1: "w1 = word + 2 ^ i * (if bool_of st a then 1 else 0)"
    using or_push_bit [OF Cons.prems(3,4), of 1] by (simp add: w1_def)
  then have w1b: "0 \<le> w1" "w1 < 2 ^ Suc i" using Cons.prems(3,4) by auto
  have e: "w1 + 2 ^ Suc i * pack_bits (map (bool_of st) as) = word + 2 ^ i * pack_bits (map (bool_of st) (a # as))"
    by (simp add: w1 algebra_simps)
  show ?case
  proof (cases "Suc i = 32")
    case True
    then have as: "as = []" "n = 32" using Cons.prems(1,2) by auto
    have wr: "ab_write (ptr + idx) (le_bytes 4 w1) b = Some (b\<lparr>ab_buffer := (pre @ le_bytes 4 w1) @ replicate (k - 4) 0\<rparr>)"
      using ab_write_at [OF Cons.prems(5,6), of "le_bytes 4 w1"] Cons.prems(7) by simp
    have "send_bools st ptr n i word idx ((a # as) @ rest) b =
        Some (32, w1, idx + 4, rest, b\<lparr>ab_buffer := (pre @ le_bytes 4 w1) @ replicate (k - 4) 0\<rparr>)"
      unfolding append_Cons send_bools_step [OF i(1)] i(2) w1_def [symmetric] Let_def
      using wr True as by (simp add: send_bools_end)
    then show ?thesis using e as True by (simp add: Let_def)
  next
    case False
    have "send_bools st ptr n i word idx ((a # as) @ rest) b = send_bools st ptr n (Suc i) w1 idx (as @ rest) b"
      unfolding append_Cons send_bools_step [OF i(1)] i(2) w1_def [symmetric] Let_def using i False by simp
    also have "\<dots> = (let w = word + 2 ^ i * pack_bits (map (bool_of st) (a # as))
      in if n = 32 \<and> Suc i < 32
         then Some (n, w, idx + 4, rest, b\<lparr>ab_buffer := (pre @ le_bytes 4 w) @ replicate (k - 4) 0\<rparr>)
         else Some (n, w, idx, rest, b))"
      using Cons.IH [OF Cons.prems(1) _ w1b Cons.prems(5-7)] Cons.prems(2) unfolding e by simp
    finally show ?thesis using i False by (auto simp: Let_def)
  qed
qed

section \<open>Sending\<close>

lemma bytes16_le: "bytes16 x = le_bytes 2 x"
proof -
  have "word_of_int (x AND 0xff) = (word_of_int x :: byte)"
    using and_mask [of x 8] by (intro word_uint_eqI) (simp add: uint_word_of_int)
  then show ?thesis by (simp add: bytes16_def numeral_2_eq_2 drop_bit_eq_div)
qed

lemma start_empty:
  assumes "ab_session b" "ab_buffer b = []" "c \<noteq> 0"
  shows "ab_startBuilding c i n f b = Some (Some 8, b\<lparr>ab_buffer := header_bytes \<lparr>controller_id = c, hdr_flags = f,
      action_id = u16 i, hdr_size = u16 (8 + int n)\<rparr> @ replicate n 0, cur_start_idx := 0\<rparr>)"
proof -
  have "vector_resize (8 + n) [] = [] @ replicate 8 0 @ replicate n 0" by (simp add: vector_resize_def replicate_add)
  then show ?thesis
    using assms wr_bytes_at [of "header_bytes \<lparr>controller_id = c, hdr_flags = f, action_id = u16 i, hdr_size = u16 (8 + int n)\<rparr>"
        "replicate 8 0" "[]" "replicate n 0"]
    by (simp add: ab_startBuilding_def Let_def u32_def)
qed

definition widths :: "tel_store \<Rightarrow> nat list \<Rightarrow> nat \<Rightarrow> bool" where
  "widths st as w \<longleftrightarrow> (\<forall>a\<in>set as. length (t_value (st a)) = w)"

definition values_of :: "tel_store \<Rightarrow> nat list \<Rightarrow> bytes" where
  "values_of st as = concat (map (\<lambda>a. t_value (st a)) as)"

lemma length_values_of: "widths st as w \<Longrightarrow> length (values_of st as) = length as * w"
  by (induction as) (simp_all add: widths_def values_of_def)

text \<open>The reference layout of an update: group id, two zero bytes, the packed booleans, the values
  from the widest to the narrowest, four zero bytes.\<close>

definition update_payload :: "tel_store \<Rightarrow> int \<Rightarrow> nat list \<Rightarrow> nat list \<Rightarrow> bytes" where
  "update_payload st gid bs vs = le_bytes 2 gid @ [0, 0] @ le_bytes 4 (pack_bits (map (bool_of st) bs)) @ values_of st vs @ [0, 0, 0, 0]"

definition group_ready ::
  "tel_store \<Rightarrow> update_group \<Rightarrow> nat list \<Rightarrow> nat list \<Rightarrow> nat list \<Rightarrow> nat list \<Rightarrow> nat list \<Rightarrow> bool" where
  "group_ready st g bs q8 q4 q2 q1 \<longleftrightarrow>
     prepared g \<and> ab_session (g_builder g) \<and> ab_buffer (g_builder g) = [] \<and> length bs \<le> 32 \<and>
     g_bufs g = bs @ q8 @ q4 @ q2 @ q1 \<and> g_by_size g = map int [length bs, length q8, length q4, length q2, length q1] \<and>
     widths st q8 8 \<and> widths st q4 4 \<and> widths st q2 2 \<and> widths st q1 1 \<and>
     0 \<le> group_id g \<and> group_id g < 2 ^ 16 \<and>
     set_payload_size g = 12 + int (length q8 * 8 + length q4 * 4 + length q2 * 2 + length q1) \<and>
     set_payload_size g < 2 ^ 16 - 8"

lemma values_of_append: "values_of st (as @ bs) = values_of st as @ values_of st bs"
  by (simp add: values_of_def)

lemma align8_small: "align8 4 = 8" "align8 8 = 8"
  by (simp_all add: align8_def)

lemma group_send_spec:
  assumes "group_ready st g bs q8 q4 q2 q1" "0 < c" "c < 2 ^ 16"
  shows "group_send c Sent st g =
    Some (Some (frame \<lparr>act_controller = c, act_flags = 0, act_id = ACTION_SET_TELEMETRY_GROUP,
        act_payload = update_payload st (group_id g) bs (q8 @ q4 @ q2 @ q1)\<rparr>), complete,
      g\<lparr>g_builder := ab_reset (g_builder g)\<rparr>)"
proof -
  note R = assms(1) [unfolded group_ready_def]
  define N where "N = length q8 * 8 + length q4 * 4 + length q2 * 2 + length q1"
  define b0 where "b0 = g_builder g"
  define hd8 where "hd8 = header_bytes \<lparr>controller_id = c, hdr_flags = 0, action_id = ACTION_SET_TELEMETRY_GROUP,
      hdr_size = 8 + int (12 + N)\<rparr>"
  have N: "nat (set_payload_size g) = 12 + N" "8 + int (12 + N) < 2 ^ 16" using R by (simp_all add: N_def)
  define bu where "bu = (\<lambda>buf. b0\<lparr>ab_buffer := buf, cur_start_idx := 0\<rparr>)"
  have s0: "ab_startBuilding c ACTION_SET_TELEMETRY_GROUP (12 + N) 0 b0 = Some (Some 8, bu (hd8 @ replicate (12 + N) 0))"
    using start_empty [of b0 c ACTION_SET_TELEMETRY_GROUP "12 + N" 0] R assms(2) N(2)
    by (simp add: b0_def bu_def hd8_def u16_id ACTION_SET_TELEMETRY_GROUP_def)
  have wr: "ab_write ptr bs' (bu (pre @ replicate k 0)) = Some (bu ((pre @ bs') @ replicate (k - length bs') 0))"
    if "ptr = int (length pre)" "length bs' \<le> k" for ptr bs' pre k
    using ab_write_at [of "bu (pre @ replicate k 0)" pre k ptr bs'] that by (simp add: bu_def)
  define p1 where "p1 = hd8 @ le_bytes 2 (group_id g)"
  define p2 where "p2 = p1 @ [0, 0]"
  define W where "W = pack_bits (map (bool_of st) bs)"
  define p3 where "p3 = p2 @ le_bytes 4 W"
  have l8: "length hd8 = 8" by (simp add: hd8_def)
  have w1: "ab_write 8 (bytes16 (group_id g)) (bu (hd8 @ replicate (12 + N) 0)) = Some (bu (p1 @ replicate (10 + N) 0))"
    using wr [of 8 hd8 "bytes16 (group_id g)" "12 + N"] by (simp add: bytes16_le p1_def l8)
  have w2: "ab_write (8 + 2) [0, 0] (bu (p1 @ replicate (10 + N) 0)) = Some (bu (p2 @ replicate (8 + N) 0))"
    using wr [of 10 p1 "[0, 0]" "10 + N"] by (simp add: p1_def p2_def l8)
  have l2: "length p2 = 12" by (simp add: p2_def p1_def l8)
  have bools: "send_bools st 8 (length bs) 0 0 4 (bs @ q8 @ q4 @ q2 @ q1) (bu (p2 @ replicate (8 + N) 0)) =
      (if length bs = 32 then Some (32, W, 8, q8 @ q4 @ q2 @ q1, bu (p3 @ replicate (4 + N) 0))
       else Some (length bs, W, 4, q8 @ q4 @ q2 @ q1, bu (p2 @ replicate (8 + N) 0)))"
    using send_bools_spec [of "length bs" 0 bs 0 "bu (p2 @ replicate (8 + N) 0)" p2 "8 + N" 8 4 st "q8 @ q4 @ q2 @ q1"] R l2
    by (simp add: W_def p3_def Let_def bu_def)
  have z4: "le_bytes 4 0 = [0, 0, 0, 0]" by (simp add: numeral_eq_Suc)
  have fin: "(if length bs mod 32 \<noteq> 0 then ab_write (8 + 4) (le_bytes 4 W) (bu (p2 @ replicate (8 + N) 0))
        else Some (bu (p2 @ replicate (8 + N) 0))) = Some (bu (p3 @ replicate (4 + N) 0))" if "length bs \<noteq> 32"
  proof (cases "length bs = 0")
    case True
    have "replicate (8 + N) 0 = [0, 0, 0, 0] @ replicate (4 + N) (0 :: byte)" by (simp add: eval_nat_numeral)
    then show ?thesis using True by (simp add: p3_def W_def z4)
  next
    case False
    then have "length bs mod 32 \<noteq> 0" using that R by simp
    then show ?thesis using wr [of 12 p2 "le_bytes 4 W" "8 + N"] by (simp add: p3_def l2)
  qed
  define p4 where "p4 = p3 @ values_of st q8"
  define p5 where "p5 = p4 @ values_of st q4"
  define p6 where "p6 = p5 @ values_of st q2"
  define p7 where "p7 = p6 @ values_of st q1"
  have l3: "length p3 = 16" by (simp add: p3_def l2)
  have l4: "length p4 = 16 + length q8 * 8" using length_values_of [of st q8 8] R by (simp add: p4_def l3)
  have l5: "length p5 = length p4 + length q4 * 4" using length_values_of [of st q4 4] R by (simp add: p5_def)
  have l6: "length p6 = length p5 + length q2 * 2" using length_values_of [of st q2 2] R by (simp add: p6_def)
  have fx: "send_fixed st 8 w (length as) idx (as @ rest) (bu (pre @ replicate k 0)) =
      Some (idx + int (length as * w), rest, bu ((pre @ values_of st as) @ replicate (k - length as * w) 0))"
    if "widths st as w" "8 + idx = int (length pre)" "length as * w \<le> k" for w as idx rest pre k
    using send_fixed_spec [of "bu (pre @ replicate k 0)" pre k 8 idx as w st rest] that
    by (simp add: bu_def widths_def values_of_def)
  have f8: "send_fixed st 8 8 (length q8) 8 (q8 @ q4 @ q2 @ q1) (bu (p3 @ replicate (4 + N) 0)) =
      Some (8 + int (length q8 * 8), q4 @ q2 @ q1, bu (p4 @ replicate (4 + length q4 * 4 + length q2 * 2 + length q1) 0))"
    using fx [of q8 8 8 p3 "4 + N" "q4 @ q2 @ q1"] R l3 by (simp add: p4_def N_def add.assoc)
  have f4: "send_fixed st 8 4 (length q4) (8 + int (length q8 * 8)) (q4 @ q2 @ q1)
        (bu (p4 @ replicate (4 + length q4 * 4 + length q2 * 2 + length q1) 0)) =
      Some (int (length p5) - 8, q2 @ q1, bu (p5 @ replicate (4 + length q2 * 2 + length q1) 0))"
    using fx [of q4 4 "8 + int (length q8 * 8)" p4 "4 + length q4 * 4 + length q2 * 2 + length q1" "q2 @ q1"] R l4 l5
    by (simp add: p5_def add.assoc)
  have f2: "send_fixed st 8 2 (length q2) (int (length p5) - 8) (q2 @ q1) (bu (p5 @ replicate (4 + length q2 * 2 + length q1) 0)) =
      Some (int (length p6) - 8, q1, bu (p6 @ replicate (4 + length q1) 0))"
    using fx [of q2 2 "int (length p5) - 8" p5 "4 + length q2 * 2 + length q1" q1] R l6 by (simp add: p6_def)
  have f1: "send_fixed st 8 1 (length q1) (int (length p6) - 8) q1 (bu (p6 @ replicate (4 + length q1) 0)) =
      Some (int (length p6) - 8 + int (length q1), [], bu (p7 @ replicate 4 0))"
    using fx [of q1 1 "int (length p6) - 8" p6 "4 + length q1" "[]"] R by (simp add: p7_def)
  define A where "A = \<lparr>act_controller = c, act_flags = 0, act_id = ACTION_SET_TELEMETRY_GROUP,
      act_payload = update_payload st (group_id g) bs (q8 @ q4 @ q2 @ q1)\<rparr>"
  have lp: "length (act_payload A) = 12 + N"
    using length_values_of [of st q8 8] length_values_of [of st q4 4] length_values_of [of st q2 2] length_values_of [of st q1 1] R
    by (simp add: A_def update_payload_def values_of_append N_def)
  have fr: "p7 @ replicate 4 0 = frame A"
    unfolding frame_def lp
    by (simp add: A_def update_payload_def p7_def p6_def p5_def p4_def p3_def p2_def p1_def hd8_def W_def values_of_append numeral_eq_Suc)
  have ok: "action_ok A" using assms(2,3) N(2) by (simp add: action_ok_def lp) (simp add: A_def ACTION_SET_TELEMETRY_GROUP_def)
  have sn: "ab_sendNonBlocking Sent (bu (frame A)) = Some (Some (frame A), complete, ab_reset b0)"
    using finalize_frame [of "bu (frame A)" "[]" A] ok R frame_not_Nil [of A]
    by (simp add: ab_sendNonBlocking_def bu_def ab_reset_def b0_def)
  have sz: "g_by_size g ! 0 = int (length bs)" "g_by_size g ! 1 = int (length q8)" "g_by_size g ! 2 = int (length q4)"
    "g_by_size g ! 3 = int (length q2)" "g_by_size g ! 4 = int (length q1)" "g_bufs g = bs @ q8 @ q4 @ q2 @ q1" "prepared g"
    using R by simp_all
  show ?thesis
    unfolding A_def [symmetric] group_send_def sz(1-6) nat_int
    using s0 w1 w2 bools fin f8 f4 f2 f1 sn
    by (simp add: N b0_def [symmetric] fr align8_small Let_def sz(7) split: if_splits)
qed

section \<open>Configuring\<close>

definition matched :: "tel_store \<Rightarrow> nat \<Rightarrow> bool" where
  "matched st a \<longleftrightarrow> t_id (st a) \<noteq> 0"

lemma unique_ids_hd: "unique_ids st (b # xs) \<noteq> [] \<and> t_id (st (hd (unique_ids st (b # xs)))) = t_id (st b) \<and>
    set (unique_ids st (b # xs)) \<subseteq> set (b # xs)"
  by (induction st "b # xs" arbitrary: b xs rule: unique_ids.induct) auto

lemma unique_ids_set: "set (unique_ids st xs) \<subseteq> set xs"
  by (induction st xs rule: unique_ids.induct) auto

lemma unique_ids_ids:
  "i \<noteq> 0 \<Longrightarrow> (\<exists>a\<in>set (unique_ids st xs). t_id (st a) = i) \<longleftrightarrow> (\<exists>a\<in>set xs. t_id (st a) = i)"
proof (induction st xs rule: unique_ids.induct)
  case (1 st a b xs)
  then show ?case by (cases "t_id (st a) \<noteq> 0 \<and> t_id (st a) = t_id (st b)") auto
qed auto

lemma unique_ids_sorted:
  "sorted (map (sort_key_of st) xs) \<Longrightarrow> sorted (map (sort_key_of st) (unique_ids st xs)) \<and>
   distinct (map (sort_key_of st) (filter (matched st) (unique_ids st xs)))"
proof (induction st xs rule: unique_ids.induct)
  case (1 st a b xs)
  show ?case
  proof (cases "t_id (st a) \<noteq> 0 \<and> t_id (st a) = t_id (st b)")
    case True
    then show ?thesis using 1 by auto
  next
    case False
    let ?ys = "unique_ids st (b # xs)"
    have ys: "sorted (map (sort_key_of st) ?ys)" "distinct (map (sort_key_of st) (filter (matched st) ?ys))"
      using 1 False by auto
    have le: "sort_key_of st a \<le> sort_key_of st b" "\<And>c. c \<in> set ?ys \<Longrightarrow> sort_key_of st b \<le> sort_key_of st c"
      using "1.prems" unique_ids_set [of st "b # xs"] by auto
    have "sort_key_of st a \<notin> sort_key_of st ` {c \<in> set ?ys. matched st c}" if "matched st a"
    proof
      assume "sort_key_of st a \<in> sort_key_of st ` {c \<in> set ?ys. matched st c}"
      then have "sort_key_of st a = sort_key_of st b" using le by (auto intro: order_antisym)
      then show False using False that by (auto simp: sort_key_of_def matched_def)
    qed
    then show ?thesis using False ys le order_trans [OF le(1) le(2)] by auto
  qed
qed auto

lemma sorted_blocks:
  "sorted (map f xs) \<Longrightarrow> \<forall>x\<in>set xs. f x \<in> {0, 1, 2, 3, 4 :: int} \<Longrightarrow>
   xs = filter (\<lambda>x. f x = 0) xs @ filter (\<lambda>x. f x = 1) xs @ filter (\<lambda>x. f x = 2) xs @ filter (\<lambda>x. f x = 3) xs @
     filter (\<lambda>x. f x = 4) xs"
proof (induction xs)
  case (Cons x xs)
  have E: "filter (\<lambda>y. f y = k) xs = []" if "k < f x" for k
    using Cons.prems that by (auto simp: filter_empty_conv)
  show ?case using Cons E by auto
qed simp

lemma count_sizes_spec:
  assumes "\<forall>a\<in>set ts. matched st a \<longrightarrow> size_idx st a \<in> {0, 1, 2, 3, 4}"
    "0 \<le> c0" "0 \<le> c1" "0 \<le> c2" "0 \<le> c3" "0 \<le> c4"
    "c0 + int (length ts) < 2 ^ 16" "c1 + int (length ts) < 2 ^ 16" "c2 + int (length ts) < 2 ^ 16"
    "c3 + int (length ts) < 2 ^ 16" "c4 + int (length ts) < 2 ^ 16"
  shows "count_sizes st ts [c0, c1, c2, c3, c4] =
    (let ms = filter (matched st) ts; n = (\<lambda>k. int (length (filter (\<lambda>a. size_idx st a = k) ms)))
     in Some (ms, [c0 + n 0, c1 + n 1, c2 + n 2, c3 + n 3, c4 + n 4]))"
  using assms
proof (induction ts arbitrary: c0 c1 c2 c3 c4)
  case (Cons a ts)
  show ?case
  proof (cases "matched st a")
    case False
    then show ?thesis using Cons by (auto simp: matched_def Let_def)
  next
    case True
    then have "size_idx st a = 0 \<or> size_idx st a = 1 \<or> size_idx st a = 2 \<or> size_idx st a = 3 \<or> size_idx st a = 4"
      using Cons.prems(1) by auto
    then show ?thesis using Cons True
      by (elim disjE) (simp_all add: matched_def Let_def u16_id)
  qed
qed simp

text \<open>The ids behind the six header bytes.\<close>

lemma write_ids_spec:
  "ab_buffer b = pre @ replicate k 0 \<Longrightarrow> ptr = int (length pre) \<Longrightarrow> 2 * length (filter (matched st) ts) \<le> k \<Longrightarrow>
   write_ids st ptr ts b =
     Some (b\<lparr>ab_buffer := (pre @ concat (map (\<lambda>a. le_bytes 2 (t_id (st a))) (filter (matched st) ts))) @
       replicate (k - 2 * length (filter (matched st) ts)) 0\<rparr>)"
proof (induction ts arbitrary: b pre k ptr)
  case (Cons a ts)
  show ?case
  proof (cases "matched st a")
    case False
    then show ?thesis using Cons by (simp add: matched_def)
  next
    case True
    define b1 where "b1 = b\<lparr>ab_buffer := (pre @ le_bytes 2 (t_id (st a))) @ replicate (k - 2) 0\<rparr>"
    have w: "ab_write ptr (le_bytes 2 (t_id (st a))) b = Some b1"
      using ab_write_at [OF Cons.prems(1,2), of "le_bytes 2 (t_id (st a))"] Cons.prems(3) True by (simp add: b1_def)
    have "write_ids st ptr (a # ts) b = write_ids st (ptr + 2) ts b1"
      using True w by (simp add: matched_def bytes16_le [unfolded bytes16_def])
    also have "\<dots> = Some (b1\<lparr>ab_buffer := ((pre @ le_bytes 2 (t_id (st a))) @ concat (map (\<lambda>a. le_bytes 2 (t_id (st a)))
        (filter (matched st) ts))) @ replicate (k - 2 - 2 * length (filter (matched st) ts)) 0\<rparr>)"
      using Cons.prems True by (intro Cons.IH) (simp_all add: b1_def)
    finally show ?thesis using True by (simp add: b1_def)
  qed
qed (simp add: matched_def)

text \<open>The reference layout of a registration: group id, number of values, size of the values, ids.\<close>

definition register_payload :: "int \<Rightarrow> int \<Rightarrow> int list \<Rightarrow> bytes" where
  "register_payload gid sz ids = le_bytes 2 gid @ le_bytes 2 (int (length ids)) @ le_bytes 2 sz @ concat (map (le_bytes 2) ids)"

lemma length_register_payload: "length (register_payload gid sz ids) = 6 + 2 * length ids"
  by (induction ids) (simp_all add: register_payload_def)

definition register_action :: "int \<Rightarrow> int \<Rightarrow> int \<Rightarrow> int list \<Rightarrow> action" where
  "register_action c gid sz ids = \<lparr>act_controller = c, act_flags = 0, act_id = ACTION_REGISTER_TELEMETRY_GROUP,
     act_payload = register_payload gid sz ids\<rparr>"

text \<open>The part of \<^const>\<open>group_configure\<close> that builds and sends the registration.\<close>

lemma register_send:
  assumes "ab_session b" "ab_buffer b = []" "0 < c" "c < 2 ^ 16" "length ids < 32000" "ids = map (\<lambda>a. t_id (st a)) (filter (matched st) ts)"
  shows "\<exists>b1 b2 b3 b4 b5. ab_startBuilding c ACTION_REGISTER_TELEMETRY_GROUP (6 + 2 * length ids) 0 b = Some (Some 8, b1) \<and>
    write_ids st (8 + 6) ts b1 = Some b2 \<and> ab_write 8 (bytes16 gid) b2 = Some b3 \<and>
    ab_write (8 + 2) (bytes16 (int (length ids))) b3 = Some b4 \<and> ab_write (8 + 4) (bytes16 sz) b4 = Some b5 \<and>
    ab_sendBlocking Sent ec2 b5 = Some (Some (frame (register_action c gid sz ids)), complete, ab_reset b)"
proof -
  let ?n = "length ids" and ?ids = "concat (map (le_bytes 2) ids)"
  define bu where "bu = (\<lambda>buf. b\<lparr>ab_buffer := buf, cur_start_idx := 0\<rparr>)"
  have bu_b: "ab_buffer (bu x) = x" "(bu x)\<lparr>ab_buffer := y\<rparr> = bu y" for x y by (simp_all add: bu_def)
  define h where "h = header_bytes \<lparr>controller_id = c, hdr_flags = 0, action_id = ACTION_REGISTER_TELEMETRY_GROUP,
      hdr_size = 8 + int (6 + 2 * ?n)\<rparr>"
  have lh: "length h = 8" by (simp add: h_def)
  have s: "ab_startBuilding c ACTION_REGISTER_TELEMETRY_GROUP (6 + 2 * ?n) 0 b = Some (Some 8, bu (h @ replicate (6 + 2 * ?n) 0))"
    using start_empty [OF assms(1,2), of c ACTION_REGISTER_TELEMETRY_GROUP "6 + 2 * ?n" 0] assms(3,5)
    by (simp add: bu_def h_def u16_id ACTION_REGISTER_TELEMETRY_GROUP_def)
  have r6: "replicate (6 + 2 * ?n) 0 = replicate 6 0 @ replicate (2 * ?n) (0 :: byte)" by (rule replicate_add)
  have r6': "replicate 6 (0 :: byte) = [0, 0] @ [0, 0] @ [0, 0]" by (simp add: eval_nat_numeral)
  have w2: "write_ids st (8 + 6) ts (bu (h @ replicate (6 + 2 * ?n) 0)) = Some (bu (h @ [0, 0] @ [0, 0] @ [0, 0] @ ?ids))"
  proof -
    have e: "h @ replicate (6 + 2 * ?n) 0 = (h @ replicate 6 0) @ replicate (2 * ?n) 0" by (simp add: r6)
    show ?thesis
      unfolding e using write_ids_spec [of "bu ((h @ replicate 6 0) @ replicate (2 * ?n) 0)" "h @ replicate 6 0" "2 * ?n" 14 st ts]
      by (simp add: bu_b lh r6' assms(6) comp_def)
  qed
  have w3: "ab_write 8 (bytes16 gid) (bu (h @ [0, 0] @ [0, 0] @ [0, 0] @ ?ids)) = Some (bu (h @ le_bytes 2 gid @ [0, 0] @ [0, 0] @ ?ids))"
    using wr_bytes_at [of "bytes16 gid" "[0, 0]" h "[0, 0] @ [0, 0] @ ?ids"] by (simp add: ab_write_def bu_def bytes16_le lh)
  have w4: "ab_write (8 + 2) (bytes16 (int ?n)) (bu (h @ le_bytes 2 gid @ [0, 0] @ [0, 0] @ ?ids)) =
      Some (bu (h @ le_bytes 2 gid @ le_bytes 2 (int ?n) @ [0, 0] @ ?ids))"
    using wr_bytes_at [of "bytes16 (int ?n)" "[0, 0]" "h @ le_bytes 2 gid" "[0, 0] @ ?ids"]
    by (simp add: ab_write_def bu_def bytes16_le lh)
  have w5: "ab_write (8 + 4) (bytes16 sz) (bu (h @ le_bytes 2 gid @ le_bytes 2 (int ?n) @ [0, 0] @ ?ids)) =
      Some (bu (h @ le_bytes 2 gid @ le_bytes 2 (int ?n) @ le_bytes 2 sz @ ?ids))"
    using wr_bytes_at [of "bytes16 sz" "[0, 0]" "h @ le_bytes 2 gid @ le_bytes 2 (int ?n)" "?ids"]
    by (simp add: ab_write_def bu_def bytes16_le lh)
  define A where "A = register_action c gid sz ids"
  have pl: "act_payload A = register_payload gid sz ids" by (simp add: A_def register_action_def)
  have fr: "h @ le_bytes 2 gid @ le_bytes 2 (int ?n) @ le_bytes 2 sz @ ?ids = frame A"
    unfolding frame_def pl length_register_payload by (simp add: A_def register_action_def h_def register_payload_def)
  have ok: "action_ok A" using assms(3-5)
    by (simp add: action_ok_def pl length_register_payload) (simp add: A_def register_action_def ACTION_REGISTER_TELEMETRY_GROUP_def)
  have "ab_sendBlocking Sent ec2 (bu (frame A)) = Some (Some (frame A), complete, ab_reset b)"
    using finalize_frame [of "bu (frame A)" "[]" A] ok frame_not_Nil [of A] assms(1)
    by (simp add: ab_sendBlocking_def bu_def ab_reset_def)
  then show ?thesis using s w2 w3 w4 w5 fr unfolding A_def [symmetric] by metis
qed

section \<open>The whole of configure\<close>

definition def_id :: "telemetry_defs \<Rightarrow> telemetry \<Rightarrow> int" where
  "def_id defs t = (case find_name_type (t_name t) (t_type t) defs of Some d \<Rightarrow> td_id d | None \<Rightarrow> 0)"

lemma resolve_other:
  "t_name (resolve defs b st a) = t_name (st a)" "t_type (resolve defs b st a) = t_type (st a)"
  "t_value (resolve defs b st a) = t_value (st a)"
  by (auto simp: resolve_def split: option.splits)

lemma fold_resolve_other:
  "t_name (fold (resolve defs) as st a) = t_name (st a)" "t_type (fold (resolve defs) as st a) = t_type (st a)"
  "t_value (fold (resolve defs) as st a) = t_value (st a)"
  by (induction as arbitrary: st) (simp_all add: resolve_other)

lemma resolve_id: "t_id (resolve defs b st a) = (if a = b then def_id defs (st a) else t_id (st a))"
  by (auto simp: resolve_def def_id_def split: option.splits)

lemma def_id_cong: "t_name s = t_name t \<Longrightarrow> t_type s = t_type t \<Longrightarrow> def_id defs s = def_id defs t"
  by (simp add: def_id_def)

lemma fold_resolve_id:
  "t_id (fold (resolve defs) as st a) = (if a \<in> set as then def_id defs (st a) else t_id (st a))"
  by (induction as arbitrary: st) (auto simp: resolve_id resolve_other intro: def_id_cong)

definition width_of :: "int \<Rightarrow> nat" where
  "width_of i = (if i = 1 then 8 else if i = 2 then 4 else if i = 3 then 2 else 1)"

definition handles_ok :: "tel_store \<Rightarrow> nat list \<Rightarrow> bool" where
  "handles_ok st as \<longleftrightarrow> (\<forall>a\<in>set as. size_idx st a \<in> {0, 1, 2, 3, 4} \<and> length (t_value (st a)) = width_of (size_idx st a))"

definition sorts :: "((nat \<Rightarrow> int \<times> int) \<Rightarrow> nat list \<Rightarrow> nat list) \<Rightarrow> bool" where
  "sorts srt \<longleftrightarrow> (\<forall>key xs. mset (srt key xs) = mset xs \<and> sorted (map key (srt key xs)))"

definition of_size :: "tel_store \<Rightarrow> nat list \<Rightarrow> int \<Rightarrow> nat list" where
  "of_size st as k = filter (\<lambda>a. size_idx st a = k) as"

lemma of_size_widths: "handles_ok st as \<Longrightarrow> widths st (of_size st as k) (width_of k)"
  by (auto simp: handles_ok_def widths_def of_size_def)

lemma length_of_size: "handles_ok st as \<Longrightarrow>
    length (of_size st as 0) + length (of_size st as 1) + length (of_size st as 2) + length (of_size st as 3) + length (of_size st as 4) = length as"
  by (induction as) (auto simp: of_size_def handles_ok_def)

lemma sorted_of_size:
  assumes "sorted (map (sort_key_of st) as)" "handles_ok st as"
  shows "as = of_size st as 0 @ of_size st as 1 @ of_size st as 2 @ of_size st as 3 @ of_size st as 4"
proof -
  have "sorted_wrt (\<lambda>a b. sort_key_of st a \<le> sort_key_of st b) as" using assms(1) by (simp add: sorted_map)
  then have "sorted_wrt (\<lambda>a b. size_idx st a \<le> size_idx st b) as"
    by (rule sorted_wrt_mono_rel [rotated]) (auto simp: sort_key_of_def)
  then have "sorted (map (size_idx st) as)" by (simp add: sorted_map)
  then show ?thesis using sorted_blocks [of "size_idx st" as] assms(2) by (simp add: of_size_def handles_ok_def)
qed

lemma sorted_filter_matched:
  "sorted (map (sort_key_of st) as) \<Longrightarrow> sorted (map (sort_key_of st) (filter (matched st) as))"
  by (auto simp: sorted_map intro: sorted_wrt_filter)

lemma handles_ok_filter: "handles_ok st as \<Longrightarrow> handles_ok st (filter P as)"
  by (simp add: handles_ok_def)

text \<open>The registered handles: sorted, without duplicates, only those with a definition.\<close>

definition registered :: "((nat \<Rightarrow> int \<times> int) \<Rightarrow> nat list \<Rightarrow> nat list) \<Rightarrow> tel_store \<Rightarrow> nat list \<Rightarrow> nat list" where
  "registered srt st as = filter (matched st) (unique_ids st (srt (sort_key_of st) as))"

lemma length_unique_ids: "length (unique_ids st xs) \<le> length xs"
  by (induction st xs rule: unique_ids.induct) auto

lemma sorts_facts:
  assumes "sorts srt"
  shows "set (srt key xs) = set xs" "length (srt key xs) = length xs" "sorted (map key (srt key xs))"
  using assms unfolding sorts_def by (metis mset_eq_setD, metis size_mset, blast)

lemma registered_facts:
  assumes "sorts srt" "handles_ok st as"
  shows "handles_ok st (registered srt st as)" "length (registered srt st as) \<le> length as"
    "sorted (map (sort_key_of st) (registered srt st as))" "distinct (map (sort_key_of st) (registered srt st as))"
    "t_id ` st ` set (registered srt st as) = t_id ` st ` set as - {0}" "set (registered srt st as) \<subseteq> set as"
proof -
  let ?ys = "srt (sort_key_of st) as"
  note S = sorts_facts [OF assms(1), of "sort_key_of st" as]
  have U: "set (unique_ids st ?ys) \<subseteq> set as" using unique_ids_set S(1) by blast
  show "handles_ok st (registered srt st as)" using U assms(2) by (auto simp: handles_ok_def registered_def)
  show "length (registered srt st as) \<le> length as"
    using order_trans [OF length_filter_le length_unique_ids [of st ?ys]] S(2) by (simp add: registered_def)
  show "sorted (map (sort_key_of st) (registered srt st as))" "distinct (map (sort_key_of st) (registered srt st as))"
    using unique_ids_sorted [OF S(3)] sorted_filter_matched by (auto simp: registered_def)
  show "set (registered srt st as) \<subseteq> set as" using U by (auto simp: registered_def)
  show "t_id ` st ` set (registered srt st as) = t_id ` st ` set as - {0}"
  proof (intro set_eqI)
    fix i
    show "i \<in> t_id ` st ` set (registered srt st as) \<longleftrightarrow> i \<in> t_id ` st ` set as - {0}"
    proof (cases "i = 0")
      case False
      then show ?thesis using unique_ids_ids [OF False, of st ?ys] S(1)
        by (simp add: registered_def matched_def image_iff) metis
    qed (auto simp: registered_def matched_def)
  qed
qed

text \<open>The size of the values an update carries: at most 32 booleans take eight bytes.\<close>

definition values_size :: "tel_store \<Rightarrow> nat list \<Rightarrow> int" where
  "values_size st os = 8 + int (length (of_size st os 1) * 8 + length (of_size st os 2) * 4 + length (of_size st os 3) * 2 + length (of_size st os 4))"

lemma expected_size_of_sizes:
  assumes "length (of_size st os 0) \<le> 32" "handles_ok st os" "length os \<le> 8000"
  shows "expected_size_of (map (\<lambda>k. int (length (of_size st os k))) [0, 1, 2, 3, 4]) = values_size st os"
    "0 < values_size st os" "values_size st os < 2 ^ 16 - 12"
proof -
  have d: "(int (length (of_size st os 0)) + 63 + 32) div 64 = 1" using assms(1) by simp
  show b: "values_size st os < 2 ^ 16 - 12" using length_of_size [OF assms(2)] assms(3) by (simp add: values_size_def)
  show "0 < values_size st os" by (simp add: values_size_def)
  then show "expected_size_of (map (\<lambda>k. int (length (of_size st os k))) [0, 1, 2, 3, 4]) = values_size st os"
    using d b by (simp add: expected_size_of_def values_size_def u32_id)
qed

lemma count_registered:
  assumes "sorts srt" "handles_ok st as" "length as \<le> 8000"
  shows "count_sizes st (unique_ids st (srt (sort_key_of st) as)) [0, 0, 0, 0, 0] =
    Some (registered srt st as, map (\<lambda>k. int (length (of_size st (registered srt st as) k))) [0, 1, 2, 3, 4])"
proof -
  let ?us = "unique_ids st (srt (sort_key_of st) as)"
  have "length ?us \<le> 8000" using length_unique_ids [of st "srt (sort_key_of st) as"] sorts_facts(2) [OF assms(1), of "sort_key_of st" as] assms(3) by simp
  moreover have "\<forall>a\<in>set ?us. matched st a \<longrightarrow> size_idx st a \<in> {0, 1, 2, 3, 4}"
    using unique_ids_set [of st "srt (sort_key_of st) as"] sorts_facts(1) [OF assms(1)] assms(2) by (auto simp: handles_ok_def)
  ultimately show ?thesis
    using count_sizes_spec [of ?us st 0 0 0 0 0] by (simp add: Let_def registered_def of_size_def)
qed

lemma group_configure_spec:
  fixes g :: update_group and st :: tel_store and defs :: telemetry_defs and srt
  defines "st' \<equiv> fold (resolve defs) (g_telemetries g) st"
  defines "os \<equiv> registered srt st' (g_telemetries g)"
  assumes "sorts srt" "handles_ok st (g_telemetries g)" "length (g_telemetries g) \<le> 8000" "g_telemetries g \<noteq> []"
    "defs_session defs" "length (of_size st' os 0) \<le> 32" "0 < c" "c < 2 ^ 16" "0 \<le> group_id g" "group_id g < 2 ^ 16"
  shows "\<exists>g'. group_configure srt defs c Sent ec2 st g =
      Some (Some (frame (register_action c (group_id g) (values_size st' os) (map (\<lambda>a. t_id (st' a)) os))), True, st', g') \<and>
    group_id g' = group_id g \<and> group_ready st' g' (of_size st' os 0) (of_size st' os 1) (of_size st' os 2) (of_size st' os 3) (of_size st' os 4)"
proof -
  have h: "handles_ok st' (g_telemetries g)"
    using assms(4) by (simp add: handles_ok_def st'_def size_idx_def fold_resolve_other)
  note F = registered_facts [OF assms(3) h, folded os_def]
  note C = count_registered [OF assms(3) h assms(5), folded os_def]
  have lo: "length os \<le> 8000" using F(2) assms(5) by simp
  note E = expected_size_of_sizes [OF assms(8) F(1) lo]
  define ts where "ts = unique_ids st' (srt (sort_key_of st') (g_telemetries g))"
  define b where "b = ab_init True (g_builder g)"
  have b: "ab_session b" "ab_buffer b = []" "ab_reset b = b" by (simp_all add: b_def ab_init_def ab_reset_def)
  define ids where "ids = map (\<lambda>a. t_id (st' a)) os"
  have ids: "ids = map (\<lambda>a. t_id (st' a)) (filter (matched st') ts)" "length ids < 32000"
    using lo by (simp_all add: ids_def os_def registered_def ts_def)
  define cnt where "cnt = map (\<lambda>k. int (length (of_size st' os k))) [0, 1, 2, 3, 4]"
  define g' where "g' = g\<lparr>g_builder := b, prepared := True, g_bufs := os, g_by_size := cnt, g_telemetries := ts,
      set_payload_size := values_size st' os + 4\<rparr>"
  obtain b1 b2 b3 b4 b5 where R:
    "ab_startBuilding c ACTION_REGISTER_TELEMETRY_GROUP (6 + 2 * length os) 0 b = Some (Some 8, b1)"
    "write_ids st' (8 + 6) ts b1 = Some b2" "ab_write 8 (bytes16 (group_id g)) b2 = Some b3"
    "ab_write (8 + 2) (bytes16 (int (length os))) b3 = Some b4" "ab_write (8 + 4) (bytes16 (values_size st' os)) b4 = Some b5"
    "ab_sendBlocking Sent ec2 b5 = Some (Some (frame (register_action c (group_id g) (values_size st' os) ids)), complete, ab_reset b)"
    using register_send [OF b(1,2) assms(9,10) ids(2,1), of "group_id g" "values_size st' os" ec2] by (auto simp: ids_def)
  have "group_configure srt defs c Sent ec2 st g =
      Some (Some (frame (register_action c (group_id g) (values_size st' os) ids)), True, st', g')"
    using assms(6,7) R C E
    by (simp add: group_configure_def Let_def st'_def [symmetric] ts_def [symmetric] b_def [symmetric] b(3) g'_def u16_id cnt_def)
  moreover have "group_ready st' g' (of_size st' os 0) (of_size st' os 1) (of_size st' os 2) (of_size st' os 3) (of_size st' os 4)"
  proof -
    have w: "widths st' (of_size st' os 1) 8" "widths st' (of_size st' os 2) 4" "widths st' (of_size st' os 3) 2" "widths st' (of_size st' os 4) 1"
      using of_size_widths [OF F(1), of 1] of_size_widths [OF F(1), of 2] of_size_widths [OF F(1), of 3] of_size_widths [OF F(1), of 4]
      by (simp_all add: width_of_def)
    have v: "values_size st' os + 4 = 12 + int (length (of_size st' os 1) * 8 + length (of_size st' os 2) * 4 + length (of_size st' os 3) * 2 + length (of_size st' os 4))"
      by (simp add: values_size_def)
    have g: "prepared g'" "g_builder g' = b" "g_bufs g' = os" "g_by_size g' = cnt" "group_id g' = group_id g" "set_payload_size g' = values_size st' os + 4"
      by (simp_all add: g'_def)
    have e: "os = of_size st' os 0 @ of_size st' os 1 @ of_size st' os 2 @ of_size st' os 3 @ of_size st' os 4"
      using F(3,1) by (rule sorted_of_size)
    have "cnt = map int [length (of_size st' os 0), length (of_size st' os 1), length (of_size st' os 2), length (of_size st' os 3), length (of_size st' os 4)]"
      by (simp add: cnt_def)
    moreover have "values_size st' os + 4 < 2 ^ 16 - 8" using E(3) by simp
    ultimately show ?thesis unfolding group_ready_def g using g(1) w b(1,2) assms(8,11,12) e v by blast
  qed
  ultimately show ?thesis by (auto simp: ids_def g'_def)
qed

lemma group_ready_values:
  assumes "group_ready st g bs q8 q4 q2 q1" "\<forall>a. length (t_value (st2 a)) = length (t_value (st a))"
  shows "group_ready st2 g bs q8 q4 q2 q1"
  using assms by (simp add: group_ready_def widths_def)

section \<open>Definitions in shared memory\<close>

lemma rd_bytes_in: "0 \<le> off \<Longrightarrow> off + int n \<le> int (length bs) \<Longrightarrow> rd_bytes bs off n \<noteq> None"
  by (simp add: rd_bytes_def)

lemma read_cstring_in: "0 \<le> p \<Longrightarrow> p + int n \<le> int (length shm) \<Longrightarrow> read_cstring shm p n \<noteq> None"
proof (induction n arbitrary: p)
  case (Suc n)
  then have "rd_byte shm p \<noteq> None" "read_cstring shm (p + 1) n \<noteq> None" by (auto simp: rd_byte_def)
  then show ?case by auto
qed simp

lemma read_def_in:
  assumes "0 \<le> p" "p + 48 \<le> int (length shm)"
  shows "read_def shm p \<noteq> None"
  using assms rd_bytes_in [of p 2 shm] rd_bytes_in [of "p + 2" 2 shm] rd_bytes_in [of "p + 4" 2 shm] rd_bytes_in [of "p + 6" 2 shm]
    rd_bytes_in [of "p + 8" 4 shm] read_cstring_in [of "p + 12" 35 shm]
  by (auto simp: read_def_def shm_u16_def shm_u32_def)

text \<open>The range of the definitions lies in the block, and a definition has its 48 bytes.\<close>

definition ts_ok :: "nat \<Rightarrow> telemetry_system \<Rightarrow> bool" where
  "ts_ok len ts \<longleftrightarrow> 32 \<le> len \<and> 0 \<le> ts_start ts \<and> 48 \<le> ts_def_size ts \<and> 0 \<le> ts_max_defs ts \<and>
     ts_start ts + ts_def_size ts * ts_max_defs ts \<le> int len"

lemma read_defs_in:
  assumes "ts_ok (length shm) ts" "\<forall>i\<in>set is. int i < ts_max_defs ts"
  shows "\<exists>ds. read_defs shm (ts_start ts) (ts_def_size ts) is = Some ds \<and> length ds = length is"
  using assms(2)
proof (induction "is")
  case (Cons i "is")
  have "ts_def_size ts * int i + ts_def_size ts \<le> ts_def_size ts * ts_max_defs ts"
    using mult_left_mono [of "int i + 1" "ts_max_defs ts" "ts_def_size ts"] Cons.prems assms(1)
    by (simp add: ts_ok_def distrib_left)
  then have "read_def shm (ts_start ts + ts_def_size ts * int i) \<noteq> None"
    using assms(1) by (intro read_def_in) (auto simp: ts_ok_def)
  then show ?case using Cons by auto
qed simp

lemma ts_update_total:
  assumes "ts_ok (length shm) ts" "ts_header ts"
  shows "\<exists>ch ts' ds. ts_updateDefinitions shm ts = Some (ch, ts') \<and> ts_ok (length shm) ts' \<and> ts_header ts' \<and>
    ts_cur_defs ts' = ts_cur_defs ts @ ds \<and> (ds = [] \<or> int (length (ts_cur_defs ts')) \<le> ts_max_defs ts)"
proof -
  obtain cnt where c: "shm_u32 shm 20 = Some cnt"
    using assms(1) rd_bytes_in [of 20 4 shm] by (auto simp: shm_u32_def ts_ok_def)
  define n where "n = length (ts_cur_defs ts)"
  define m where "m = min (ts_max_defs ts) cnt"
  obtain ds where d: "read_defs shm (ts_start ts) (ts_def_size ts) [n..<nat m] = Some ds" "length ds = nat m - n"
  proof -
    have "int i < ts_max_defs ts" if "i \<in> set [n..<nat m]" for i
    proof -
      have "i < nat m" using that by simp
      then show ?thesis unfolding m_def by linarith
    qed
    then show thesis using read_defs_in [OF assms(1), of "[n..<nat m]"] that by auto
  qed
  show ?thesis
  proof (cases "int n = m")
    case True
    then have "ts_updateDefinitions shm ts = Some (False, ts)" using assms c by (simp add: ts_updateDefinitions_def Let_def n_def m_def)
    then show ?thesis using assms by (intro exI [of _ False] exI [of _ ts] exI [of _ "[]"]) simp
  next
    case False
    then have "ts_updateDefinitions shm ts = Some (True, ts\<lparr>ts_cur_defs := ts_cur_defs ts @ ds\<rparr>)"
      using assms c d(1) by (simp add: ts_updateDefinitions_def Let_def n_def m_def)
    moreover have "ds = [] \<or> int (n + length ds) \<le> ts_max_defs ts" using d(2) by (cases "nat m \<le> n") (auto simp: m_def)
    ultimately show ?thesis using assms by (auto simp: ts_ok_def n_def)
  qed
qed

section \<open>Properties\<close>

text \<open>C19: a telemetry group registers and sends what it was given. Take any group of at most 8000
  handles of numeric or boolean type, at most 32 of them matched booleans, and any sorting function
  that does what \<^verbatim>\<open>std::sort\<close> promises. Then \<^verbatim>\<open>configure\<close> sends one registration with the group id, the
  number and total size of the values and the ids of the matched handles, without duplicates, and
  afterwards, whatever values the handles have taken, \<^verbatim>\<open>send\<close> transmits them in the order
  that was registered: the booleans packed into one word, then the values from wide to narrow.\<close>

theorem telemetry_configure_send:
  fixes g :: update_group and st :: tel_store and defs :: telemetry_defs and srt
  defines "st' \<equiv> fold (resolve defs) (g_telemetries g) st"
  defines "os \<equiv> registered srt st' (g_telemetries g)"
  assumes "sorts srt" "handles_ok st (g_telemetries g)" "length (g_telemetries g) \<le> 8000" "g_telemetries g \<noteq> []"
    "defs_session defs" "length (of_size st' os 0) \<le> 32" "0 < c" "c < 2 ^ 16" "0 \<le> group_id g" "group_id g < 2 ^ 16"
    "\<forall>a. length (t_value (st2 a)) = length (t_value (st a))"
  shows "\<exists>g'. group_configure srt defs c Sent ec2 st g =
      Some (Some (frame (register_action c (group_id g) (values_size st' os) (map (\<lambda>a. t_id (st' a)) os))), True, st', g') \<and>
    group_send c Sent st2 g' =
      Some (Some (frame \<lparr>act_controller = c, act_flags = 0, act_id = ACTION_SET_TELEMETRY_GROUP,
          act_payload = update_payload st2 (group_id g) (of_size st' os 0)
            (of_size st' os 1 @ of_size st' os 2 @ of_size st' os 3 @ of_size st' os 4)\<rparr>), complete,
        g'\<lparr>g_builder := ab_reset (g_builder g')\<rparr>) \<and>
    t_id ` st' ` set os = (\<lambda>a. def_id defs (st a)) ` set (g_telemetries g) - {0} \<and> distinct (map (sort_key_of st') os) \<and>
    os = of_size st' os 0 @ of_size st' os 1 @ of_size st' os 2 @ of_size st' os 3 @ of_size st' os 4"
proof -
  obtain g' where g': "group_configure srt defs c Sent ec2 st g =
      Some (Some (frame (register_action c (group_id g) (values_size st' os) (map (\<lambda>a. t_id (st' a)) os))), True, st', g')"
    "group_id g' = group_id g"
    "group_ready st' g' (of_size st' os 0) (of_size st' os 1) (of_size st' os 2) (of_size st' os 3) (of_size st' os 4)"
    using group_configure_spec [OF assms(3-7), of c ec2] assms(8-12) unfolding st'_def [symmetric] os_def [symmetric] by blast
  have l: "\<forall>a. length (t_value (st2 a)) = length (t_value (st' a))" using assms(13) by (simp add: st'_def fold_resolve_other)
  have h: "handles_ok st' (g_telemetries g)" using assms(4) by (simp add: handles_ok_def st'_def size_idx_def fold_resolve_other)
  note F = registered_facts [OF assms(3) h, folded os_def]
  have ids: "t_id ` st' ` set (g_telemetries g) = (\<lambda>a. def_id defs (st a)) ` set (g_telemetries g)"
    unfolding image_image st'_def by (rule image_cong) (simp_all add: fold_resolve_id)
  show ?thesis
    using g'(1) group_send_spec [OF group_ready_values [OF g'(3) l] assms(9,10)] F(5) [unfolded ids] F(4) sorted_of_size [OF F(3,1)]
    unfolding g'(2) by blast
qed

definition wit_store :: tel_store where
  "wit_store a = \<lparr>t_name = [65], t_type = Type_base TYPE_U8, t_id = 0, t_flags = 0, t_value = [7]\<rparr>"

definition wit_defs :: telemetry_defs where
  "wit_defs = \<lparr>defs_storage = [\<lparr>td_name = [65], td_type = Type_base TYPE_U8, td_id = 5, td_flags = 0, td_variable_idx = 0\<rparr>], defs_session = True\<rparr>"

lemma sorts_sort_key: "sorts sort_key"
  by (simp add: sorts_def)

lemma wit_handles: "handles_ok wit_store [0]"
  by (simp add: handles_ok_def size_idx_def wit_store_def width_of_def) code_simp

lemma wit_registered:
  "registered sort_key (fold (resolve wit_defs) [0] wit_store) [0] = [0]"
  "of_size (fold (resolve wit_defs) [0] wit_store) [0] 0 = []"
  by code_simp+

theorem telemetry_configure_send_witness:
  "\<exists>g' d. group_configure sort_key wit_defs 3 Sent Sent wit_store (group_set [0] (group_new 2)) =
      Some (Some (frame (register_action 3 2 (values_size (fold (resolve wit_defs) [0] wit_store) [0]) [5])), True,
        fold (resolve wit_defs) [0] wit_store, g') \<and>
    group_send 3 Sent wit_store g' = Some (Some d, complete, g'\<lparr>g_builder := ab_reset (g_builder g')\<rparr>)"
proof -
  define g where "g = group_set [0] (group_new 2)"
  have g: "g_telemetries g = [0]" "group_id g = 2" by (simp_all add: g_def group_set_def group_new_def)
  have id: "t_id (fold (resolve wit_defs) [0] wit_store 0) = 5" by code_simp
  have s: "defs_session wit_defs" by (simp add: wit_defs_def)
  show ?thesis
    using telemetry_configure_send [of sort_key wit_store g wit_defs 3 wit_store Sent, unfolded g wit_registered, OF sorts_sort_key wit_handles _ _ s] id
    unfolding g_def [symmetric] by auto
qed

text \<open>With more than 32 booleans the values sent are wrong: the word is not cleared after it is
  written, so that the bits of the first 32 values appear again in the second word. Here only the
  first of 33 values is true, and the second word claims that the 33rd is true as well.\<close>

theorem telemetry_33_booleans:
  "map_option (\<lambda>(n, word, idx, bufs, b). (word, ab_buffer b))
     (send_bools (\<lambda>a. \<lparr>t_name = [], t_type = Type_base TYPE_BOOL, t_id = 1, t_flags = 0, t_value = [if a = 0 then 1 else 0]\<rparr>)
        0 33 0 0 0 [0..<33] \<lparr>ab_session = True, ab_buffer = [0, 0, 0, 0], cur_start_idx = 0\<rparr>) =
   Some (1, [1, 0, 0, 0])"
  by code_simp

text \<open>The list of definitions is read within the shared memory block and only grows. If the
  block holds the header and announces definitions of at least 48 bytes, then after \<^verbatim>\<open>initialize\<close> every
  \<^verbatim>\<open>updateDefinitions\<close>, whatever the backend has written into the block meanwhile, reads inside the block
  and appends to the definitions known before.\<close>

theorem telemetry_definitions_safe:
  assumes "32 \<le> length shm" "length shm < 2 ^ 32" "shm_u32 shm 12 = Some off" "off \<le> int (length shm)"
    "shm_u32 shm 16 = Some sz" "48 \<le> sz" "length shm' = length shm"
  shows "\<exists>ts ch ts' ds. ts_initialize shm ts0 = Some ts \<and> ts_updateDefinitions shm' ts = Some (ch, ts') \<and>
    ts_cur_defs ts' = ts_cur_defs ts @ ds"
proof -
  have off: "0 \<le> off" using assms(3) by (auto simp: shm_u32_def le_int_bounds)
  define m where "m = (int (length shm) - off) div sz"
  have m: "0 \<le> m" "sz * m \<le> int (length shm) - off" "m < 2 ^ 32"
  proof -
    show "0 \<le> m" using assms(4,6) by (simp add: m_def pos_imp_zdiv_nonneg_iff)
    show *: "sz * m \<le> int (length shm) - off" unfolding m_def
      using mult_div_mod_eq [of sz "int (length shm) - off"] pos_mod_sign [of sz "int (length shm) - off"] assms(6) by linarith
    have "m \<le> int (length shm) - off" using * \<open>0 \<le> m\<close> mult_right_mono [of 1 sz m] assms(6) by linarith
    moreover have "int (length shm) < 2 ^ 32" using assms(2) by simp
    ultimately show "m < 2 ^ 32" using off by linarith
  qed
  define ts1 where "ts1 = ts0\<lparr>ts_cur_defs := [], ts_max_defs := m, ts_header := True, ts_def_size := sz, ts_start := off\<rparr>"
  have ok1: "ts_ok (length shm) ts1" "ts_header ts1" using assms m off by (simp_all add: ts_ok_def ts1_def)
  obtain ch ts ds where u: "ts_updateDefinitions shm ts1 = Some (ch, ts)" "ts_ok (length shm) ts" "ts_header ts"
    using ts_update_total [OF ok1] by blast
  have "ts_initialize shm ts0 = Some ts"
    using assms u m by (simp add: ts_initialize_def ts1_def m_def u32_id SIZEOF_TelemetryDefinitionShm_def Let_def)
  then show ?thesis using ts_update_total [of shm' ts] u assms(7) by fastforce
qed

definition wit_shm :: bytes where
  "wit_shm = replicate 12 0 @ [32, 0, 0, 0, 48, 0, 0, 0, 1, 0, 0, 0] @ replicate 8 0 @ [5, 0] @ replicate 10 0 @ [65] @ replicate 35 0"

theorem telemetry_definitions_safe_witness:
  "\<exists>ts ch ts' ds. ts_initialize wit_shm \<lparr>ts_header = False, ts_start = 0, ts_def_size = 0, ts_max_defs = 0, ts_cur_defs = []\<rparr> = Some ts \<and>
    ts_updateDefinitions wit_shm ts = Some (ch, ts') \<and> ts_cur_defs ts' = ts_cur_defs ts @ ds"
proof -
  have l: "length wit_shm = 80" by (simp add: wit_shm_def)
  have "shm_u32 wit_shm 12 = Some 32" "shm_u32 wit_shm 16 = Some 48" by code_simp+
  then show ?thesis by (intro telemetry_definitions_safe [where off = 32 and sz = 48]) (simp_all add: l)
qed

text \<open>The size check of \<^verbatim>\<open>initialize\<close> does not ensure this. It compares the announced size with the
  32 bytes of the header structure instead of the 48 bytes of a definition: a block that passes
  the check makes the read of the name leave the block.\<close>

theorem telemetry_definitions_overread:
  "ts_initialize (replicate 12 0 @ [32, 0, 0, 0, 32, 0, 0, 0, 1, 0, 0, 0] @ replicate 8 0 @ replicate 32 65)
     \<lparr>ts_header = False, ts_start = 0, ts_def_size = 0, ts_max_defs = 0, ts_cur_defs = []\<rparr> = None"
  by code_simp

end
