(* ===== verification/Secure_Session.thy ===== *)
theory Secure_Session
  imports Sha512_Spec Gcm_Properties X25519_Spec
begin

unbundle bit_operations_syntax

text \<open>
  core/src/security_impl.cpp: the key exchange with the backend, the derivation of the encryption
  key and the encryption of actions. The check of the signature (\<^verbatim>\<open>ed25519_verify\<close>) and the random
  bytes of the first initialization vector are arguments. The second part states what a secure
  session promises: the key of the standard functions, a fresh vector for every message, and
  messages that the holder of the key can decrypt.
\<close>

section \<open>Data\<close>

definition SECURITY_METHOD_NONE :: int where "SECURITY_METHOD_NONE = 0"
definition SECURITY_METHOD_X25519_AES128_GCM :: int where "SECURITY_METHOD_X25519_AES128_GCM = 1"

definition X25519_KEY_LEN :: nat where "X25519_KEY_LEN = 32"
definition ED25519_SIG_LEN :: nat where "ED25519_SIG_LEN = 64"

definition ed25519_signature_public_key :: bytes where
  "ed25519_signature_public_key =
    [0x1a, 0x4a, 0x34, 0xc7, 0xd8, 0xc5, 0x77, 0x85, 0xee, 0x16, 0xcf, 0x93, 0x99, 0xd8, 0x41, 0xba,
     0xbc, 0x2b, 0x9,  0x9,  0x1,  0x28, 0xb6, 0x0,  0xda, 0x89, 0x71, 0x16, 0xf4, 0xcb, 0x5c, 0x66]"

record secure_method =
  sm_method :: int
  sm_public_key :: bytes
  sm_signature :: bytes

datatype KeyExchangeResult =
    exchange_ok
  | error_signature_verification_failed
  | error_invalid_private_key
  | error_invalid_public_key
  | error_not_supported

record secure_params =
  sp_method :: int
  sp_session_id :: int
  sp_controller_public_key :: bytes
  sp_shared_secret :: bytes

section \<open>Key exchange\<close>

definition tryKeyExchange ::
  "(bytes \<Rightarrow> bytes \<Rightarrow> bytes \<Rightarrow> bool) \<Rightarrow> secure_params \<Rightarrow> int \<Rightarrow> secure_method \<Rightarrow> bytes \<Rightarrow> bytes \<Rightarrow>
   KeyExchangeResult \<times> secure_params" where
  "tryKeyExchange ed25519_verify params_out session_id method api_user_private_key api_user_public_key =
     (if sm_method method \<noteq> SECURITY_METHOD_X25519_AES128_GCM then (error_not_supported, params_out)
      else if length (sm_public_key method) \<noteq> X25519_KEY_LEN then (error_not_supported, params_out)
      else if length api_user_private_key \<noteq> X25519_KEY_LEN then (error_invalid_private_key, params_out)
      else if length api_user_public_key \<noteq> X25519_KEY_LEN then (error_invalid_public_key, params_out)
      else if length (sm_signature method) \<noteq> ED25519_SIG_LEN then (error_signature_verification_failed, params_out)
      else if \<not> ed25519_verify (sm_signature method) ed25519_signature_public_key (sm_public_key method)
           then (error_signature_verification_failed, params_out)
      else (exchange_ok,
            params_out\<lparr>sp_shared_secret := x25519 api_user_private_key (sm_public_key method),
                       sp_controller_public_key := api_user_public_key,
                       sp_method := sm_method method,
                       sp_session_id := session_id\<rparr>))"

section \<open>Key derivation\<close>

definition salt_bytes :: "int \<Rightarrow> bytes" where
  "salt_bytes i =
     [word_of_int (drop_bit 0 i AND 0xff), word_of_int (drop_bit 8 i AND 0xff),
      word_of_int (drop_bit 16 i AND 0xff), word_of_int (drop_bit 24 i AND 0xff), 0x54, 0x5f, 0x52, 0x59]"

text \<open>The context on the stack is not initialized: its old contents are an argument.\<close>

definition generateSymmetricEncryptionKey :: "sha512 \<Rightarrow> int \<Rightarrow> bytes \<Rightarrow> bytes \<Rightarrow> bytes" where
  "generateSymmetricEncryptionKey ctx api_session_id controller_id_name shared_secret =
     (let ctx = sha512_init ctx;
          ctx = sha512_add ctx (salt_bytes api_session_id);
          ctx = sha512_add ctx controller_id_name;
          ctx = sha512_add ctx shared_secret;
          symmetric_encrypt_key_buf = sha512_final ctx
      in take 16 symmetric_encrypt_key_buf)"

section \<open>Encryption\<close>

record secure_session =
  ss_params :: secure_params
  ss_key :: bytes
  ss_iv :: bytes
  ss_gcm :: gcm_context

abbreviation (input) k_iv_len :: nat where "k_iv_len \<equiv> 12"
abbreviation (input) k_tag_len :: nat where "k_tag_len \<equiv> 12"

definition ss_generateKey :: "aes_tables \<Rightarrow> sha512 \<Rightarrow> bytes \<Rightarrow> secure_session \<Rightarrow> secure_session option" where
  "ss_generateKey t ctx controller_id_name s =
     (let key = generateSymmetricEncryptionKey ctx (sp_session_id (ss_params s)) controller_id_name
                  (sp_shared_secret (ss_params s))
      in do {
        (ret, g) \<leftarrow> gcm_setkey t (ss_gcm s) key (length key);
        Some (s\<lparr>ss_key := key, ss_gcm := g\<rparr>)
      })"

text \<open>The loop that increments: it stops at the first byte that did not wrap around.\<close>

fun incr_iv :: "bytes \<Rightarrow> bytes" where
  "incr_iv [] = []"
| "incr_iv (b # bs) = (let b = b + 1 in if b \<noteq> 0 then b # bs else b # incr_iv bs)"

definition handleIV :: "bytes \<Rightarrow> secure_session \<Rightarrow> bytes \<times> secure_session" where
  "handleIV rng s =
     (let iv = (if ss_iv s \<noteq> [] then incr_iv (ss_iv s) else take k_iv_len rng)
      in (iv, s\<lparr>ss_iv := iv\<rparr>))"

text \<open>The result is what the caller finds in \<^verbatim>\<open>iv\<close>, \<^verbatim>\<open>data\<close> and \<^verbatim>\<open>tag\<close>.\<close>

definition ss_encrypt ::
  "aes_tables \<Rightarrow> bytes \<Rightarrow> bytes \<Rightarrow> bytes \<Rightarrow> secure_session \<Rightarrow> ((bytes \<times> bytes \<times> bytes) \<times> secure_session) option" where
  "ss_encrypt t rng aad data s =
     (case handleIV rng s of (iv, s) \<Rightarrow> do {
        g \<leftarrow> gcm_start t (ss_gcm s) 1 iv aad;
        (data, g) \<leftarrow> gcm_update t g data;
        let (tag, g) = gcm_finish g k_tag_len;
        Some ((iv, data, tag), s\<lparr>ss_gcm := g\<rparr>)
      })"

section \<open>Initialization vectors\<close>

lemma length_incr_iv [simp]: "length (incr_iv bs) = length bs"
  by (induction bs rule: incr_iv.induct) (simp_all add: Let_def)

lemma incr_iv_counts: "le_int (incr_iv bs) = (le_int bs + 1) mod 256 ^ length bs"
proof (induction bs rule: incr_iv.induct)
  case (2 b bs)
  show ?case
  proof (cases "b + 1 = 0")
    case True
    then have b: "uint b = 255" by (simp add: byte_inc_0)
    have "(1 + le_int bs) * 256 mod (256 * 256 ^ length bs) = 256 * ((le_int bs + 1) mod 256 ^ length bs)"
      by (metis add.commute mult.commute mult_mod_right)
    then show ?thesis using True 2 [OF refl] b by (simp add: Let_def algebra_simps)
  next
    case False
    then have b: "uint (b + 1) = uint b + 1" using uint_byte_inc [of b] byte_inc_0 [of b] uint_byte_lt [of b] by simp
    have "0 \<le> le_int bs" "le_int bs + 1 \<le> 256 ^ length bs" using le_int_bounds [of bs] by auto
    then have "uint b + 256 * le_int bs + 1 < 256 * 256 ^ length bs" "0 \<le> uint b + 256 * le_int bs + 1"
      using byte_inc_0 [of b] uint_byte_lt [of b] False by linarith+
    then show ?thesis using False b by (simp add: Let_def algebra_simps)
  qed
qed simp

lemma incr_iv_pow: "le_int ((incr_iv ^^ n) bs) = (le_int bs + int n) mod 256 ^ length bs \<and> length ((incr_iv ^^ n) bs) = length bs"
proof (induction n)
  case 0
  then show ?case using le_int_bounds [of bs] by simp
next
  case (Suc n)
  then show ?case by (simp add: incr_iv_counts mod_simps algebra_simps)
qed

lemma incr_iv_fresh:
  assumes "i < j" "j < 256 ^ length bs"
  shows "(incr_iv ^^ i) bs \<noteq> (incr_iv ^^ j) bs"
proof
  assume "(incr_iv ^^ i) bs = (incr_iv ^^ j) bs"
  then have "(le_int bs + int i) mod 256 ^ length bs = (le_int bs + int j) mod 256 ^ length bs"
    using incr_iv_pow by metis
  then have "256 ^ length bs dvd int j - int i" by (metis mod_eq_dvd_iff add_diff_cancel_left)
  then have "256 ^ length bs \<le> int j - int i" using assms(1) by (intro zdvd_imp_le) simp_all
  moreover have "int j < 256 ^ length bs" using assms(2) by (metis of_nat_less_iff of_nat_numeral of_nat_power)
  ultimately show False by linarith
qed

section \<open>Sessions\<close>

lemma salt_le: "salt_bytes i = le_bytes 4 i @ [0x54, 0x5f, 0x52, 0x59]"
proof -
  have m: "word_of_int (x AND 0xff) = (word_of_int x :: byte)" for x
    using and_mask [of x 8] by (intro word_uint_eqI) (simp add: uint_word_of_int)
  show ?thesis by (simp add: salt_bytes_def m drop_bit_eq_div eval_nat_numeral zdiv_zmult2_eq [symmetric])
qed

text \<open>The key as a function of the standard hash.\<close>

definition session_key :: "int \<Rightarrow> bytes \<Rightarrow> bytes \<Rightarrow> bytes" where
  "session_key i name secret = take 16 (fips_sha512 (le_bytes 4 i @ [0x54, 0x5f, 0x52, 0x59] @ name @ secret))"

lemma generate_key_spec:
  assumes "length (sha_buffer ctx) = SHA512_BLOCK_SIZE" "length name + length secret + 8 < 2 ^ 64"
  shows "generateSymmetricEncryptionKey ctx i name secret = session_key i name secret"
proof -
  have "length (concat [salt_bytes i, name, secret]) < 2 ^ 64" using assms(2) by (simp add: salt_bytes_def)
  from sha512_stream [OF assms(1) this] show ?thesis
    by (simp add: generateSymmetricEncryptionKey_def session_key_def Let_def salt_le)
qed

lemma length_fips_sha512: "length (fips_sha512 m) = 64"
proof -
  have l: "length (fips_block b st) = 8" for b st
    by (simp add: fips_block_def add_regs_def split: prod.splits)
  have "length st = 8 \<Longrightarrow> length (fips_blocks d st) = 8" for d st
  proof (induction d st rule: fips_blocks.induct)
    case (1 m st)
    then show ?case using l by (subst fips_blocks.simps) simp
  qed
  then have "length (fips_blocks (fips_pad m) sha_H0) = 8" by (simp add: sha_H0_def)
  then show ?thesis by (simp add: fips_sha512_def length_concat comp_def sum_list_triv)
qed

lemma length_session_key [simp]: "length (session_key i name secret) = 16"
  by (simp add: session_key_def length_fips_sha512)

text \<open>The block cipher of a key of 16 bytes: AES-128.\<close>

definition aes128 :: "bytes \<Rightarrow> bytes \<Rightarrow> bytes" where
  "aes128 key = fips_cipher 10 (fips_key 4 key)"

lemma ss_generate_spec:
  assumes "good_tables t" "length (sha_buffer ctx) = SHA512_BLOCK_SIZE" "length name + length (sp_shared_secret (ss_params s)) + 8 < 2 ^ 64"
  defines "key \<equiv> session_key (sp_session_id (ss_params s)) name (sp_shared_secret (ss_params s))"
  shows "\<exists>g. ss_generateKey t ctx name s = Some (s\<lparr>ss_key := key, ss_gcm := g\<rparr>) \<and> gcm_ready t g (aes128 key)"
proof -
  have k: "generateSymmetricEncryptionKey ctx (sp_session_id (ss_params s)) name (sp_shared_secret (ss_params s)) = key"
    unfolding key_def by (rule generate_key_spec [OF assms(2,3)])
  have "length key = 4 * 4" by (simp add: key_def)
  then obtain g where "gcm_setkey t (ss_gcm s) key 16 = Some (0, g)" "gcm_ready t g (aes128 key)"
    using gcm_setkey_ready [OF _ _ assms(1), of key 4 "ss_gcm s"] by (auto simp: aes128_def)
  then show ?thesis by (intro exI [of _ g]) (simp add: ss_generateKey_def k key_def)
qed

lemma ss_encrypt_spec:
  assumes "gcm_ready t (ss_gcm s) E" "length rng = 12" "ss_iv s = [] \<or> length (ss_iv s) = 12"
    "length aad < 2 ^ 29" "length data < 2 ^ 29"
  defines "iv \<equiv> if ss_iv s = [] then rng else incr_iv (ss_iv s)"
  shows "\<exists>g. ss_encrypt t rng aad data s = Some ((iv, sp_crypt E iv data, sp_tag E iv aad (sp_crypt E iv data) 12), s\<lparr>ss_iv := iv, ss_gcm := g\<rparr>) \<and>
    gcm_ready t g E"
proof -
  have iv: "length iv = 12" using assms(2,3) by (auto simp: iv_def)
  obtain g where "gcm_crypt_and_tag t (ss_gcm s) ENCRYPT iv aad data 12 =
      Some (sp_crypt E iv data, sp_tag E iv aad (sp_crypt E iv data) 12, g)" "gcm_ready t g E"
    using crypt_and_tag_spec [OF assms(1) _ assms(4,5), of iv 12 ENCRYPT] iv by auto
  moreover have "handleIV rng s = (iv, s\<lparr>ss_iv := iv\<rparr>)" using assms(2) by (simp add: handleIV_def iv_def Let_def)
  ultimately show ?thesis
    by (auto simp: ss_encrypt_def gcm_crypt_and_tag_def ENCRYPT_def Let_def split: option.splits prod.splits)
qed

text \<open>Encrypting a list of messages, each with its additional data.\<close>

fun encrypt_all :: "aes_tables \<Rightarrow> bytes \<Rightarrow> (bytes \<times> bytes) list \<Rightarrow> secure_session \<Rightarrow> (bytes \<times> bytes \<times> bytes) list option" where
  "encrypt_all t rng [] s = Some []"
| "encrypt_all t rng ((aad, data) # ms) s = do {
     (c, s) \<leftarrow> ss_encrypt t rng aad data s;
     cs \<leftarrow> encrypt_all t rng ms s;
     Some (c # cs)
   }"

definition sealed :: "(bytes \<Rightarrow> bytes) \<Rightarrow> bytes \<Rightarrow> bytes \<times> bytes \<Rightarrow> bytes \<times> bytes \<times> bytes" where
  "sealed E iv = (\<lambda>(aad, data). (iv, sp_crypt E iv data, sp_tag E iv aad (sp_crypt E iv data) 12))"

definition next_iv :: "bytes \<Rightarrow> secure_session \<Rightarrow> bytes" where
  "next_iv rng s = (if ss_iv s = [] then rng else incr_iv (ss_iv s))"

lemma encrypt_all_spec:
  assumes "gcm_ready t (ss_gcm s) E" "length rng = 12" "ss_iv s = [] \<or> length (ss_iv s) = 12"
    "\<forall>(a, d)\<in>set ms. length a < 2 ^ 29 \<and> length d < 2 ^ 29"
  shows "encrypt_all t rng ms s = Some (map2 (sealed E) (map (\<lambda>i. (incr_iv ^^ i) (next_iv rng s)) [0..<length ms]) ms)"
  using assms
proof (induction ms arbitrary: s)
  case (Cons m ms)
  obtain a d where m: "m = (a, d)" by force
  define iv where "iv = next_iv rng s"
  have l: "length iv = 12" using Cons.prems(2,3) by (auto simp: iv_def next_iv_def)
  then have ne: "iv \<noteq> []" by auto
  obtain g where g: "ss_encrypt t rng a d s = Some (sealed E iv (a, d), s\<lparr>ss_iv := iv, ss_gcm := g\<rparr>)" "gcm_ready t g E"
    using ss_encrypt_spec [OF Cons.prems(1-3), of a d] Cons.prems(4) by (auto simp: m iv_def next_iv_def sealed_def)
  have "encrypt_all t rng ms (s\<lparr>ss_iv := iv, ss_gcm := g\<rparr>) =
      Some (map2 (sealed E) (map (\<lambda>i. (incr_iv ^^ i) (incr_iv iv)) [0..<length ms]) ms)"
    using Cons.IH [of "s\<lparr>ss_iv := iv, ss_gcm := g\<rparr>"] Cons.prems(2,4) g(2) l ne by (simp add: next_iv_def)
  moreover have "map (\<lambda>i. (incr_iv ^^ i) iv) [0..<length (m # ms)] = iv # map (\<lambda>i. (incr_iv ^^ i) (incr_iv iv)) [0..<length ms]"
    by (simp add: upt_conv_Cons map_Suc_upt [symmetric] comp_def funpow_swap1 del: upt_Suc)
  ultimately show ?case using g(1) by (simp add: m iv_def del: upt_Suc)
qed simp

lemma sealed_opens:
  assumes "gcm_ready t ctx E" "length iv = 12" "length a < 2 ^ 29" "length d < 2 ^ 29" "sealed E iv (a, d) = (iv', c, tag)"
  shows "\<exists>ctx'. gcm_auth_decrypt t ctx iv' a c tag = Some (0, d, ctx')"
proof -
  have E: "\<And>x. length x = 16 \<Longrightarrow> length (E x) = 16" using assms(1) by (simp add: gcm_ready_def)
  have s: "iv' = iv" "c = sp_crypt E iv d" "tag = sp_tag E iv a c 12" using assms(5) by (auto simp: sealed_def)
  have len: "length tag = 12" "length c = length d"
    using length_sp_tag [OF E] length_sp_gctr [OF E] by (simp_all add: s sp_crypt_def)
  have "sp_crypt E iv c = d" using sp_gctr_involution [OF E] by (simp add: s sp_crypt_def)
  then show ?thesis using auth_decrypt_spec [OF assms(1), of iv a c tag] len assms(2-4) s by auto
qed

section \<open>Properties\<close>

text \<open>C20: the key exchange succeeds exactly when the method is the supported one, the keys and the
  signature have their lengths and the signature of the backend's key verifies; the secret is then
  the result of the Montgomery ladder on the private key and the backend's u-coordinate, which is X25519 of
  RFC 7748 when the top bit of that coordinate is clear (the code does not clear it). In every other case the
  parameters stay as they were and the error is the one of the first check that fails: the method and
  the length of the backend's key, the private key, the public key, the signature.\<close>

theorem key_exchange_result:
  assumes "tryKeyExchange verify p i m priv pub = (r, p')"
  shows "(r = error_not_supported \<longleftrightarrow> sm_method m \<noteq> 1 \<or> length (sm_public_key m) \<noteq> 32) \<and>
    (r = error_invalid_private_key \<longleftrightarrow> sm_method m = 1 \<and> length (sm_public_key m) = 32 \<and> length priv \<noteq> 32) \<and>
    (r = error_invalid_public_key \<longleftrightarrow> sm_method m = 1 \<and> length (sm_public_key m) = 32 \<and> length priv = 32 \<and> length pub \<noteq> 32) \<and>
    (r = error_signature_verification_failed \<longleftrightarrow> sm_method m = 1 \<and> length (sm_public_key m) = 32 \<and> length priv = 32 \<and> length pub = 32 \<and>
      \<not> (length (sm_signature m) = 64 \<and> verify (sm_signature m) ed25519_signature_public_key (sm_public_key m))) \<and>
    (r = exchange_ok \<longleftrightarrow> sm_method m = 1 \<and> length (sm_public_key m) = 32 \<and> length priv = 32 \<and> length pub = 32 \<and>
      length (sm_signature m) = 64 \<and> verify (sm_signature m) ed25519_signature_public_key (sm_public_key m)) \<and>
    (r = exchange_ok \<longrightarrow> p' = \<lparr>sp_method = 1, sp_session_id = i, sp_controller_public_key = pub,
        sp_shared_secret = ladder_x25519 priv (le_int (sm_public_key m))\<rparr> \<and>
      (\<not> bit (sm_public_key m ! 31) 7 \<longrightarrow> sp_shared_secret p' = rfc_x25519 priv (sm_public_key m))) \<and>
    (r \<noteq> exchange_ok \<longrightarrow> p' = p)"
  using assms x25519_ladder [of priv "sm_public_key m"] x25519_spec [of priv "sm_public_key m"]
  by (auto simp: tryKeyExchange_def X25519_KEY_LEN_def ED25519_SIG_LEN_def SECURITY_METHOD_X25519_AES128_GCM_def split: if_splits)

theorem key_exchange_result_witness:
  "snd (tryKeyExchange (\<lambda>s k m. s = replicate 64 7) \<lparr>sp_method = 0, sp_session_id = 0, sp_controller_public_key = [], sp_shared_secret = []\<rparr> 5
      \<lparr>sm_method = 1, sm_public_key = replicate 32 9, sm_signature = replicate 64 7\<rparr> (replicate 32 1) (replicate 32 2)) =
    \<lparr>sp_method = 1, sp_session_id = 5, sp_controller_public_key = replicate 32 2,
     sp_shared_secret = rfc_x25519 (replicate 32 1) (replicate 32 9)\<rparr>"
proof -
  define r where "r = tryKeyExchange (\<lambda>s k m. s = replicate 64 7) \<lparr>sp_method = 0, sp_session_id = 0, sp_controller_public_key = [], sp_shared_secret = []\<rparr> 5
      \<lparr>sm_method = 1, sm_public_key = replicate 32 9, sm_signature = replicate 64 7\<rparr> (replicate 32 1) (replicate 32 2)"
  obtain k q where kq: "r = (k, q)" by force
  have "\<not> bit (9 :: byte) 7" by (simp add: bit_numeral_word_iff)
  then show ?thesis
    using key_exchange_result [OF trans [OF r_def [symmetric] kq]] unfolding r_def [symmetric] kq by auto
qed

text \<open>C21: a secure session after the key was generated. Its key is the first 16 bytes of the SHA-512
  of salt, name and shared secret. Encrypting any sequence of messages (fewer than 2 to the 96, each
  and its additional data below 2 to the 29 bytes) never uses an initialization vector twice, gives
  ciphertexts and tags of AES-128-GCM as NIST SP 800-38D defines them, and every message is
  accepted and recovered by authenticated decryption with that key.\<close>

theorem secure_session_messages:
  fixes s :: secure_session and name :: bytes
  defines "key \<equiv> session_key (sp_session_id (ss_params s)) name (sp_shared_secret (ss_params s))"
  assumes "length (sha_buffer ctx) = SHA512_BLOCK_SIZE" "length name + length (sp_shared_secret (ss_params s)) + 8 < 2 ^ 64"
    "ss_iv s = [] \<or> length (ss_iv s) = 12" "length rng = 12"
    "\<forall>(a, d)\<in>set ms. length a < 2 ^ 29 \<and> length d < 2 ^ 29" "length ms < 2 ^ 96"
  shows "\<exists>s' cs. ss_generateKey aes_static ctx name s = Some s' \<and> ss_key s' = key \<and>
    encrypt_all aes_static rng ms s' = Some cs \<and> length cs = length ms \<and> distinct (map fst cs) \<and>
    (\<forall>k<length ms. cs ! k = sealed (aes128 key) (fst (cs ! k)) (ms ! k) \<and>
      (\<exists>g. gcm_auth_decrypt aes_static (ss_gcm s') (fst (cs ! k)) (fst (ms ! k)) (fst (snd (cs ! k))) (snd (snd (cs ! k))) =
        Some (0, snd (ms ! k), g)))"
proof -
  obtain g where g: "ss_generateKey aes_static ctx name s = Some (s\<lparr>ss_key := key, ss_gcm := g\<rparr>)" "gcm_ready aes_static g (aes128 key)"
    using ss_generate_spec [OF good_tables_init assms(2,3)] unfolding key_def by blast
  define s' where "s' = s\<lparr>ss_key := key, ss_gcm := g\<rparr>"
  define ivs where "ivs = map (\<lambda>i. (incr_iv ^^ i) (next_iv rng s')) [0..<length ms]"
  define cs where "cs = map2 (sealed (aes128 key)) ivs ms"
  have li: "length (next_iv rng s') = 12" using assms(4,5) by (auto simp: next_iv_def s'_def)
  have e: "encrypt_all aes_static rng ms s' = Some cs"
    unfolding cs_def ivs_def by (rule encrypt_all_spec) (use g assms in \<open>simp_all add: s'_def\<close>)
  have f: "fst (sealed E iv m) = iv" for E iv m by (simp add: sealed_def split: prod.splits)
  have nth: "cs ! k = sealed (aes128 key) (ivs ! k) (ms ! k)" "fst (cs ! k) = ivs ! k" "length (ivs ! k) = 12" if "k < length ms" for k
    using that f incr_iv_pow [of k "next_iv rng s'"] li by (simp_all add: cs_def ivs_def)
  have "distinct ivs"
  proof -
    have b: "length ms < 256 ^ length (next_iv rng s')" using assms(7) by (simp add: li)
    have "(incr_iv ^^ i) (next_iv rng s') \<noteq> (incr_iv ^^ j) (next_iv rng s')" if "i < length ms" "j < length ms" "i \<noteq> j" for i j
      using incr_iv_fresh [of i j "next_iv rng s'"] incr_iv_fresh [of j i "next_iv rng s'"] that b by (cases "i < j") auto
    then show ?thesis by (auto simp: ivs_def distinct_conv_nth)
  qed
  moreover have "map fst cs = ivs" by (rule nth_equalityI) (simp_all add: cs_def f, simp add: ivs_def)
  moreover have "\<exists>g. gcm_auth_decrypt aes_static (ss_gcm s') (fst (cs ! k)) (fst (ms ! k)) (fst (snd (cs ! k))) (snd (snd (cs ! k))) =
        Some (0, snd (ms ! k), g)" if "k < length ms" for k
  proof -
    have "length (fst (ms ! k)) < 2 ^ 29" "length (snd (ms ! k)) < 2 ^ 29" using assms(6) that nth_mem [of k ms] by (auto simp: case_prod_unfold)
    then show ?thesis
      using sealed_opens [of aes_static "ss_gcm s'" "aes128 key" "ivs ! k" "fst (ms ! k)" "snd (ms ! k)" "fst (cs ! k)" "fst (snd (cs ! k))" "snd (snd (cs ! k))"]
        g(2) nth(1,3) [OF that] by (simp add: s'_def)
  qed
  ultimately show ?thesis using g(1) e nth by (intro exI [of _ s'] exI [of _ cs]) (simp add: s'_def cs_def ivs_def)
qed

theorem secure_session_messages_witness:
  "\<exists>s' cs. ss_generateKey aes_static \<lparr>sha_state = [], sha_count = 0, sha_buffer = replicate 128 0, sha_fill = 0\<rparr> [65]
      \<lparr>ss_params = \<lparr>sp_method = 1, sp_session_id = 5, sp_controller_public_key = [], sp_shared_secret = replicate 32 1\<rparr>,
       ss_key = [], ss_iv = [], ss_gcm = gcm_zero_ctx\<rparr> = Some s' \<and>
    encrypt_all aes_static (replicate 12 3) [([1], [2, 3]), ([], [4])] s' = Some cs \<and> distinct (map fst cs)"
  using secure_session_messages [of "\<lparr>sha_state = [], sha_count = 0, sha_buffer = replicate 128 0, sha_fill = 0\<rparr>" "[65]"
      "\<lparr>ss_params = \<lparr>sp_method = 1, sp_session_id = 5, sp_controller_public_key = [], sp_shared_secret = replicate 32 1\<rparr>,
       ss_key = [], ss_iv = [], ss_gcm = gcm_zero_ctx\<rparr>" "replicate 12 3" "[([1], [2, 3]), ([], [4])]"]
  by (auto simp: SHA512_BLOCK_SIZE_def)

end
