(* ===== verification/Event_Queue.thy ===== *)
theory Event_Queue
  imports SC_Prelude "HOL-Library.Multiset"
begin

text \<open>
  core/inc/sc-api/core/util/event_queue.h: queues of events with one producer and any number of
  consumer threads. The operations of consumers, \<^verbatim>\<open>push\<close> and \<^verbatim>\<open>close\<close> hold the mutex of the queue and are one
  function each; an operation that waits on the condition variable gives the mutex up, so it is two: what
  happens before the wait and what happens when the thread has the mutex again. \<^verbatim>\<open>pushInitialEvent\<close> takes no
  lock, and \<^verbatim>\<open>addEventQueue\<close> only that of the producer, so they are safe only on a queue that no consumer
  has yet; the only caller (\<^verbatim>\<open>ApiCore::createEventQueue\<close>) keeps to that, and the step relation has it as a
  condition. \<^verbatim>\<open>notifyEvent\<close> pushes to one queue after the other under the lock of the producer, and is
  one step for each queue. Taking the front of an empty queue is undefined: \<^term>\<open>None\<close>.
\<close>

section \<open>Queues\<close>

record 'e equeue =
  eq_items :: "'e list"
  eq_open :: bool

definition eq_new :: "'e equeue" where
  "eq_new = \<lparr>eq_items = [], eq_open = False\<rparr>"

datatype 'r call = Return 'r | Wait

definition front_pop :: "'e equeue \<Rightarrow> ('e \<times> 'e equeue) option" where
  "front_pop q = (case eq_items q of [] \<Rightarrow> None | e # es \<Rightarrow> Some (e, q\<lparr>eq_items := es\<rparr>))"

definition eq_tryPop :: "'e equeue \<Rightarrow> ('e option \<times> 'e equeue) option" where
  "eq_tryPop q =
     (if eq_items q = [] then Some (None, q)
      else do { (e, q) \<leftarrow> front_pop q; Some (Some e, q) })"

text \<open>The predicate of the condition variable.\<close>

definition eq_wakeable :: "'e equeue \<Rightarrow> bool" where
  "eq_wakeable q \<longleftrightarrow> eq_items q \<noteq> [] \<or> \<not> eq_open q"

text \<open>\<^verbatim>\<open>pop\<close>; \<^verbatim>\<open>dflt\<close> is the default constructed event.\<close>

definition eq_pop_begin :: "'e equeue \<Rightarrow> ('e call \<times> 'e equeue) option" where
  "eq_pop_begin q =
     (if eq_items q = [] then Some (Wait, q)
      else do { (e, q) \<leftarrow> front_pop q; Some (Return e, q) })"

definition eq_pop_end :: "'e \<Rightarrow> 'e equeue \<Rightarrow> ('e \<times> 'e equeue) option" where
  "eq_pop_end dflt q = (if \<not> eq_open q then Some (dflt, q) else front_pop q)"

text \<open>\<^verbatim>\<open>tryPopFor\<close> and \<^verbatim>\<open>tryPopUntil\<close>: the wait also ends when the time is over; its result is then the
  value of the predicate.\<close>

definition eq_tryPopFor_begin :: "'e equeue \<Rightarrow> ('e option call \<times> 'e equeue) option" where
  "eq_tryPopFor_begin q =
     (if eq_items q = [] then Some (Wait, q)
      else do { (e, q) \<leftarrow> front_pop q; Some (Return (Some e), q) })"

definition eq_tryPopFor_end :: "'e equeue \<Rightarrow> ('e option \<times> 'e equeue) option" where
  "eq_tryPopFor_end q =
     (if \<not> eq_wakeable q then Some (None, q)
      else if \<not> eq_open q then Some (None, q)
      else do { (e, q) \<leftarrow> front_pop q; Some (Some e, q) })"

definition eq_tryPopUntil_begin :: "'e equeue \<Rightarrow> ('e option call \<times> 'e equeue) option" where
  "eq_tryPopUntil_begin q =
     (if eq_items q = [] then Some (Wait, q)
      else do { (e, q) \<leftarrow> front_pop q; Some (Return (Some e), q) })"

definition eq_tryPopUntil_end :: "'e equeue \<Rightarrow> ('e option \<times> 'e equeue) option" where
  "eq_tryPopUntil_end q =
     (let not_timeout = eq_wakeable q
      in if \<not> not_timeout \<or> \<not> eq_open q then Some (None, q)
         else do { (e, q) \<leftarrow> front_pop q; Some (Some e, q) })"

definition eq_close :: "'e equeue \<Rightarrow> 'e equeue" where
  "eq_close q = (if \<not> eq_open q then q else q\<lparr>eq_open := False\<rparr>)"

definition eq_push :: "'e \<Rightarrow> 'e equeue \<Rightarrow> 'e equeue" where
  "eq_push e q = (if \<not> eq_open q then q else q\<lparr>eq_items := eq_items q @ [e]\<rparr>)"

section \<open>The producer\<close>

text \<open>The queues live in a store; the producer keeps the addresses of those added to it.\<close>

record 'e event_system =
  es_queues :: "nat \<Rightarrow> 'e equeue"
  es_producer :: "nat list"

text \<open>The whole loop; the interleaving below takes it apart.\<close>

definition notifyEvent :: "'e \<Rightarrow> 'e event_system \<Rightarrow> 'e event_system" where
  "notifyEvent e s = s\<lparr>es_queues := foldl (\<lambda>m q. m(q := eq_push e (m q))) (es_queues s) (es_producer s)\<rparr>"

definition pushInitialEvent :: "nat \<Rightarrow> 'e \<Rightarrow> 'e event_system \<Rightarrow> 'e event_system" where
  "pushInitialEvent q e s = s\<lparr>es_queues := (es_queues s)(q := (es_queues s q)\<lparr>eq_items := eq_items (es_queues s q) @ [e]\<rparr>)\<rparr>"

definition addEventQueue :: "nat \<Rightarrow> 'e event_system \<Rightarrow> 'e event_system" where
  "addEventQueue q s = s\<lparr>es_queues := (es_queues s)(q := (es_queues s q)\<lparr>eq_open := True\<rparr>), es_producer := es_producer s @ [q]\<rparr>"

text \<open>The first occurrence is erased.\<close>

definition removeEventQueue :: "nat \<Rightarrow> 'e event_system \<Rightarrow> 'e event_system" where
  "removeEventQueue q s = s\<lparr>es_producer := remove1 q (es_producer s)\<rparr>"

definition destroyProducer :: "'e event_system \<Rightarrow> 'e event_system" where
  "destroyProducer s = s\<lparr>es_queues := foldl (\<lambda>m q. m(q := eq_close (m q))) (es_queues s) (es_producer s), es_producer := []\<rparr>"

section \<open>Interleaving\<close>

text \<open>
  The state of all threads: the queues, those that were handed to consumers, the notification that holds
  the lock of the producer with the queues it still has to push to, the queue each waiting thread waits on,
  and two histories per queue: the events that were put into it and the events that were handed to a
  consumer.
\<close>

datatype wait_kind = In_pop | In_tryPopFor | In_tryPopUntil

record 'e eq_state =
  st_sys :: "'e event_system"
  st_shared :: "nat set"
  st_notify :: "('e \<times> nat list) option"
  st_waiting :: "nat \<Rightarrow> (nat \<times> wait_kind) option"
  st_put :: "nat \<Rightarrow> 'e list"
  st_got :: "nat \<Rightarrow> 'e list"

definition with_queue :: "nat \<Rightarrow> 'e equeue \<Rightarrow> 'e eq_state \<Rightarrow> 'e eq_state" where
  "with_queue q x s = s\<lparr>st_sys := (st_sys s)\<lparr>es_queues := (es_queues (st_sys s))(q := x)\<rparr>\<rparr>"

abbreviation queue_at :: "'e eq_state \<Rightarrow> nat \<Rightarrow> 'e equeue" where
  "queue_at s q \<equiv> es_queues (st_sys s) q"

definition record_got :: "nat \<Rightarrow> 'e \<Rightarrow> 'e eq_state \<Rightarrow> 'e eq_state" where
  "record_got q e s = s\<lparr>st_got := (st_got s)(q := st_got s q @ [e])\<rparr>"

definition record_put :: "nat \<Rightarrow> 'e \<Rightarrow> 'e eq_state \<Rightarrow> 'e eq_state" where
  "record_put q e s = s\<lparr>st_put := (st_put s)(q := st_put s q @ [e])\<rparr>"

definition set_wait :: "nat \<Rightarrow> (nat \<times> wait_kind) option \<Rightarrow> 'e eq_state \<Rightarrow> 'e eq_state" where
  "set_wait t w s = s\<lparr>st_waiting := (st_waiting s)(t := w)\<rparr>"

text \<open>A queue no consumer has and the producer does not know yet.\<close>

definition fresh_queue :: "nat \<Rightarrow> 'e eq_state \<Rightarrow> bool" where
  "fresh_queue q s \<longleftrightarrow> q \<notin> st_shared s \<and> q \<notin> set (es_producer (st_sys s)) \<and> \<not> eq_open (queue_at s q)"

inductive eq_step :: "'e eq_state \<Rightarrow> 'e eq_state \<Rightarrow> bool" where
  notify_begin: "st_notify s = None \<Longrightarrow> eq_step s (s\<lparr>st_notify := Some (e, es_producer (st_sys s))\<rparr>)"
| notify_push: "st_notify s = Some (e, q # qs) \<Longrightarrow> eq_open (queue_at s q) \<Longrightarrow>
    eq_step s (record_put q e (with_queue q (eq_push e (queue_at s q)) s)\<lparr>st_notify := Some (e, qs)\<rparr>)"
| notify_skip: "st_notify s = Some (e, q # qs) \<Longrightarrow> \<not> eq_open (queue_at s q) \<Longrightarrow>
    eq_step s (with_queue q (eq_push e (queue_at s q)) s\<lparr>st_notify := Some (e, qs)\<rparr>)"
| notify_end: "st_notify s = Some (e, []) \<Longrightarrow> eq_step s (s\<lparr>st_notify := None\<rparr>)"
| initial: "fresh_queue q s \<Longrightarrow> eq_step s (record_put q e s\<lparr>st_sys := pushInitialEvent q e (st_sys s)\<rparr>)"
| add: "fresh_queue q s \<Longrightarrow> st_notify s = None \<Longrightarrow> eq_step s (s\<lparr>st_sys := addEventQueue q (st_sys s)\<rparr>)"
| hand_over: "q \<in> set (es_producer (st_sys s)) \<Longrightarrow> eq_step s (s\<lparr>st_shared := insert q (st_shared s)\<rparr>)"
| remove: "st_notify s = None \<Longrightarrow> eq_step s (s\<lparr>st_sys := removeEventQueue q (st_sys s)\<rparr>)"
| destroy: "st_notify s = None \<Longrightarrow> eq_step s (s\<lparr>st_sys := destroyProducer (st_sys s)\<rparr>)"
| close: "q \<in> st_shared s \<Longrightarrow> eq_step s (with_queue q (eq_close (queue_at s q)) s)"
| try_some: "q \<in> st_shared s \<Longrightarrow> eq_tryPop (queue_at s q) = Some (Some e, x) \<Longrightarrow> eq_step s (record_got q e (with_queue q x s))"
| try_none: "q \<in> st_shared s \<Longrightarrow> eq_tryPop (queue_at s q) = Some (None, x) \<Longrightarrow> eq_step s (with_queue q x s)"
| pop_now: "q \<in> st_shared s \<Longrightarrow> st_waiting s t = None \<Longrightarrow> eq_pop_begin (queue_at s q) = Some (Return e, x) \<Longrightarrow>
    eq_step s (record_got q e (with_queue q x s))"
| pop_wait: "q \<in> st_shared s \<Longrightarrow> st_waiting s t = None \<Longrightarrow> eq_pop_begin (queue_at s q) = Some (Wait, x) \<Longrightarrow>
    eq_step s (set_wait t (Some (q, In_pop)) (with_queue q x s))"
| pop_resume: "st_waiting s t = Some (q, In_pop) \<Longrightarrow> eq_wakeable (queue_at s q) \<Longrightarrow> eq_open (queue_at s q) \<Longrightarrow>
    eq_pop_end d (queue_at s q) = Some (e, x) \<Longrightarrow> eq_step s (set_wait t None (record_got q e (with_queue q x s)))"
| pop_closed: "st_waiting s t = Some (q, In_pop) \<Longrightarrow> eq_wakeable (queue_at s q) \<Longrightarrow> \<not> eq_open (queue_at s q) \<Longrightarrow>
    eq_pop_end d (queue_at s q) = Some (e, x) \<Longrightarrow> eq_step s (set_wait t None (with_queue q x s))"
| for_now: "q \<in> st_shared s \<Longrightarrow> st_waiting s t = None \<Longrightarrow> eq_tryPopFor_begin (queue_at s q) = Some (Return (Some e), x) \<Longrightarrow>
    eq_step s (record_got q e (with_queue q x s))"
| for_wait: "q \<in> st_shared s \<Longrightarrow> st_waiting s t = None \<Longrightarrow> eq_tryPopFor_begin (queue_at s q) = Some (Wait, x) \<Longrightarrow>
    eq_step s (set_wait t (Some (q, In_tryPopFor)) (with_queue q x s))"
| for_some: "st_waiting s t = Some (q, In_tryPopFor) \<Longrightarrow> eq_tryPopFor_end (queue_at s q) = Some (Some e, x) \<Longrightarrow>
    eq_step s (set_wait t None (record_got q e (with_queue q x s)))"
| for_none: "st_waiting s t = Some (q, In_tryPopFor) \<Longrightarrow> eq_tryPopFor_end (queue_at s q) = Some (None, x) \<Longrightarrow>
    eq_step s (set_wait t None (with_queue q x s))"
| until_now: "q \<in> st_shared s \<Longrightarrow> st_waiting s t = None \<Longrightarrow> eq_tryPopUntil_begin (queue_at s q) = Some (Return (Some e), x) \<Longrightarrow>
    eq_step s (record_got q e (with_queue q x s))"
| until_wait: "q \<in> st_shared s \<Longrightarrow> st_waiting s t = None \<Longrightarrow> eq_tryPopUntil_begin (queue_at s q) = Some (Wait, x) \<Longrightarrow>
    eq_step s (set_wait t (Some (q, In_tryPopUntil)) (with_queue q x s))"
| until_some: "st_waiting s t = Some (q, In_tryPopUntil) \<Longrightarrow> eq_tryPopUntil_end (queue_at s q) = Some (Some e, x) \<Longrightarrow>
    eq_step s (set_wait t None (record_got q e (with_queue q x s)))"
| until_none: "st_waiting s t = Some (q, In_tryPopUntil) \<Longrightarrow> eq_tryPopUntil_end (queue_at s q) = Some (None, x) \<Longrightarrow>
    eq_step s (set_wait t None (with_queue q x s))"

definition eq_init :: "'e eq_state" where
  "eq_init = \<lparr>st_sys = \<lparr>es_queues = (\<lambda>_. eq_new), es_producer = []\<rparr>, st_shared = {}, st_notify = None, st_waiting = (\<lambda>_. None),
     st_put = (\<lambda>_. []), st_got = (\<lambda>_. [])\<rparr>"

section \<open>First in, first out\<close>

text \<open>What was put into a queue is what was taken from it, followed by what it still holds.\<close>

definition fifo_inv :: "'e eq_state \<Rightarrow> bool" where
  "fifo_inv s \<longleftrightarrow> (\<forall>q. st_put s q = st_got s q @ eq_items (queue_at s q))"

lemmas eq_ops = eq_tryPop_def eq_pop_begin_def eq_pop_end_def eq_tryPopFor_begin_def eq_tryPopFor_end_def
  eq_tryPopUntil_begin_def eq_tryPopUntil_end_def front_pop_def eq_wakeable_def

lemma taken:
  "eq_tryPop q = Some (Some e, x) \<Longrightarrow> eq_items q = e # eq_items x"
  "eq_pop_begin q = Some (Return e, x) \<Longrightarrow> eq_items q = e # eq_items x"
  "eq_open q \<Longrightarrow> eq_pop_end d q = Some (e, x) \<Longrightarrow> eq_items q = e # eq_items x"
  "eq_tryPopFor_begin q = Some (Return (Some e), x) \<Longrightarrow> eq_items q = e # eq_items x"
  "eq_tryPopFor_end q = Some (Some e, x) \<Longrightarrow> eq_items q = e # eq_items x"
  "eq_tryPopUntil_begin q = Some (Return (Some e), x) \<Longrightarrow> eq_items q = e # eq_items x"
  "eq_tryPopUntil_end q = Some (Some e, x) \<Longrightarrow> eq_items q = e # eq_items x"
  by (auto simp: eq_ops Let_def split: if_splits list.splits bind_splits)

lemma not_taken:
  "eq_tryPop q = Some (None, x) \<Longrightarrow> eq_items x = eq_items q"
  "eq_pop_begin q = Some (Wait, x) \<Longrightarrow> eq_items x = eq_items q"
  "\<not> eq_open q \<Longrightarrow> eq_pop_end d q = Some (e, x) \<Longrightarrow> eq_items x = eq_items q"
  "eq_tryPopFor_begin q = Some (Wait, x) \<Longrightarrow> eq_items x = eq_items q"
  "eq_tryPopFor_end q = Some (None, x) \<Longrightarrow> eq_items x = eq_items q"
  "eq_tryPopUntil_begin q = Some (Wait, x) \<Longrightarrow> eq_items x = eq_items q"
  "eq_tryPopUntil_end q = Some (None, x) \<Longrightarrow> eq_items x = eq_items q"
  by (auto simp: eq_ops Let_def split: if_splits list.splits bind_splits)

lemma close_all_items: "eq_items (foldl (\<lambda>m q. m(q := eq_close (m q))) m ps q) = eq_items (m q)"
  by (induction ps arbitrary: m) (auto simp: eq_close_def)

lemma fifo_with_queue:
  assumes "fifo_inv s" "eq_items x = eq_items (queue_at s q)"
  shows "fifo_inv (with_queue q x s)"
  using assms by (auto simp: fifo_inv_def with_queue_def)

lemma fifo_got:
  assumes "fifo_inv s" "eq_items (queue_at s q) = e # eq_items x"
  shows "fifo_inv (record_got q e (with_queue q x s))"
  using assms by (auto simp: fifo_inv_def with_queue_def record_got_def)

lemma fifo_set_wait [simp]: "fifo_inv (set_wait t w s) = fifo_inv s"
  by (simp add: fifo_inv_def set_wait_def)

lemma fifo_put:
  assumes "fifo_inv s" "eq_items x = eq_items (queue_at s q) @ [e]"
  shows "fifo_inv (record_put q e (with_queue q x s))"
  using assms by (auto simp: fifo_inv_def with_queue_def record_put_def)

lemma fifo_notify [simp]: "fifo_inv (s\<lparr>st_notify := n\<rparr>) = fifo_inv s" "fifo_inv (s\<lparr>st_shared := h\<rparr>) = fifo_inv s"
  by (simp_all add: fifo_inv_def)

lemma fifo_step:
  assumes "eq_step s s'" "fifo_inv s"
  shows "fifo_inv s'"
  using assms
proof cases
  case (notify_push e q qs)
  then show ?thesis using fifo_put [OF assms(2), of "eq_push e (queue_at s q)" q e] by (simp add: eq_push_def)
next
  case (notify_skip e q qs)
  then show ?thesis using fifo_with_queue [OF assms(2), of "eq_push e (queue_at s q)" q] by (simp add: eq_push_def)
next
  case (destroy)
  then show ?thesis using assms(2) by (simp add: fifo_inv_def destroyProducer_def close_all_items)
next
  case (initial q e)
  then show ?thesis using assms(2) by (simp add: fifo_inv_def pushInitialEvent_def record_put_def)
next
  case (add q)
  then show ?thesis using assms(2) by (simp add: fifo_inv_def addEventQueue_def)
next
  case (remove q)
  then show ?thesis using assms(2) by (simp add: fifo_inv_def removeEventQueue_def)
next
  case (close q)
  then show ?thesis using assms(2) by (simp add: fifo_with_queue eq_close_def)
qed (use assms(2) in \<open>auto intro: fifo_with_queue fifo_got dest: taken not_taken\<close>)

interpretation event_queues: invariant_system "\<lambda>s. s = eq_init" eq_step fifo_inv
proof
  show "fifo_inv s" if "s = eq_init" for s using that by (simp add: fifo_inv_def eq_init_def eq_new_def)
qed (rule fifo_step)

text \<open>No operation takes the front of an empty queue.\<close>

lemma eq_ops_defined:
  "eq_tryPop q \<noteq> None" "eq_pop_begin q \<noteq> None" "eq_wakeable q \<Longrightarrow> eq_pop_end d q \<noteq> None"
  "eq_tryPopFor_begin q \<noteq> None" "eq_tryPopFor_end q \<noteq> None" "eq_tryPopUntil_begin q \<noteq> None" "eq_tryPopUntil_end q \<noteq> None"
  by (auto simp: eq_ops Let_def split: list.splits)

text \<open>A call of \<^verbatim>\<open>pop\<close> while nothing else runs: \<^term>\<open>None\<close> when it would wait forever.\<close>

definition pop_alone :: "'e \<Rightarrow> 'e equeue \<Rightarrow> ('e \<times> 'e equeue) option" where
  "pop_alone dflt q = (case eq_pop_begin q of
     Some (Return e, q') \<Rightarrow> Some (e, q')
   | Some (Wait, q') \<Rightarrow> (if eq_wakeable q' then eq_pop_end dflt q' else None)
   | None \<Rightarrow> None)"

fun pops :: "nat \<Rightarrow> 'e \<Rightarrow> 'e equeue \<Rightarrow> 'e list option" where
  "pops 0 dflt q = Some []"
| "pops (Suc n) dflt q = do { (e, q) \<leftarrow> pop_alone dflt q; es \<leftarrow> pops n dflt q; Some (e # es) }"

lemma pops_closed:
  "\<not> eq_open q \<Longrightarrow> pops (length (eq_items q) + k) dflt q = Some (eq_items q @ replicate k dflt)"
proof (induction "eq_items q" arbitrary: q)
  case Nil
  have "pops k dflt q = Some (replicate k dflt)" if "eq_items q = []" "\<not> eq_open q" for k
    using that by (induction k) (simp_all add: pop_alone_def eq_ops)
  then show ?case using Nil by simp
next
  case (Cons e es)
  have "pop_alone dflt q = Some (e, q\<lparr>eq_items := es\<rparr>)" using Cons.hyps(2) by (simp add: pop_alone_def eq_ops flip: Cons.hyps(2))
  then show ?case using Cons.hyps(1) [of "q\<lparr>eq_items := es\<rparr>"] Cons.prems by (simp flip: Cons.hyps(2))
qed

text \<open>A closed queue that consumers have stays closed, and nothing is put into it any more.\<close>

definition drained_from :: "nat \<Rightarrow> 'e eq_state \<Rightarrow> 'e eq_state \<Rightarrow> bool" where
  "drained_from q s s' \<longleftrightarrow> q \<in> st_shared s' \<and> \<not> eq_open (queue_at s' q) \<and> st_put s' q = st_put s q"

lemma closed_step:
  assumes "eq_step s s'" "q \<in> st_shared s" "\<not> eq_open (queue_at s q)"
  shows "drained_from q s s'"
  using assms
proof cases
  case (destroy)
  have "\<not> eq_open (m q) \<Longrightarrow> \<not> eq_open (foldl (\<lambda>m q. m(q := eq_close (m q))) m ps q)" for m :: "nat \<Rightarrow> 'a equeue" and ps
    by (induction ps arbitrary: m) (auto simp: eq_close_def)
  then show ?thesis using destroy assms(2,3) by (simp add: drained_from_def destroyProducer_def)
qed (use assms(2,3) in \<open>auto simp: drained_from_def with_queue_def record_got_def record_put_def set_wait_def eq_close_def eq_push_def
      pushInitialEvent_def addEventQueue_def removeEventQueue_def fresh_queue_def eq_ops Let_def split: list.splits if_splits\<close>)

lemma closed_steps:
  assumes "eq_step\<^sup>*\<^sup>* s s'" "q \<in> st_shared s" "\<not> eq_open (queue_at s q)"
  shows "drained_from q s s'"
  using assms
proof (induction rule: rtranclp_induct)
  case (step y z)
  then show ?case using closed_step [OF step.hyps(2), of q] by (simp add: drained_from_def)
qed (simp add: drained_from_def)

section \<open>Properties\<close>

text \<open>C22: events are delivered first in, first out, each exactly once. A queue gets its initial events and is
  added to the producer before consumers have it; then notifications, which go through the queues one by
  one, and any number of consumers interleave in any order. At every moment the events put into a queue
  are the events its consumers were handed so far, in this order, followed by those still in the queue;
  and no consumer takes from an empty queue.\<close>

theorem event_queue_fifo:
  assumes "eq_step\<^sup>*\<^sup>* eq_init s"
  shows "st_put s q = st_got s q @ eq_items (queue_at s q) \<and> eq_tryPop (queue_at s q) \<noteq> None \<and>
    eq_pop_begin (queue_at s q) \<noteq> None \<and> (eq_wakeable (queue_at s q) \<longrightarrow> eq_pop_end d (queue_at s q) \<noteq> None) \<and>
    eq_tryPopFor_end (queue_at s q) \<noteq> None \<and> eq_tryPopUntil_end (queue_at s q) \<noteq> None"
  using event_queues.reachable_inv [OF refl assms] eq_ops_defined by (auto simp: fifo_inv_def)

text \<open>A run in which a queue gets an initial event, is added and handed over, a consumer takes the event and
  waits in \<^verbatim>\<open>pop\<close>, a notification pushes another event, and the waiting consumer takes it.\<close>

definition wit_sys :: "nat list \<Rightarrow> bool \<Rightarrow> nat list \<Rightarrow> nat event_system" where
  "wit_sys items op ps = \<lparr>es_queues = (\<lambda>_. eq_new)(0 := \<lparr>eq_items = items, eq_open = op\<rparr>), es_producer = ps\<rparr>"

definition wit_state :: "nat list \<Rightarrow> bool \<Rightarrow> nat list \<Rightarrow> nat set \<Rightarrow> (nat \<times> nat list) option \<Rightarrow> (nat \<times> wait_kind) option \<Rightarrow> nat list \<Rightarrow> nat list \<Rightarrow> nat eq_state" where
  "wit_state items op ps shared n w put got = \<lparr>st_sys = wit_sys items op ps, st_shared = shared, st_notify = n,
     st_waiting = (\<lambda>_. None)(1 := w), st_put = (\<lambda>_. [])(0 := put), st_got = (\<lambda>_. [])(0 := got)\<rparr>"

lemmas wit_defs = wit_state_def wit_sys_def record_put_def record_got_def with_queue_def set_wait_def pushInitialEvent_def
  addEventQueue_def fresh_queue_def eq_push_def eq_new_def eq_close_def eq_ops fun_upd_idem_iff

lemma wit_run:
  "eq_step\<^sup>*\<^sup>* eq_init (wit_state [] True [0] {0} (Some (8, [])) None [7, 8] [7, 8])"
proof -
  have 0: "eq_init = wit_state [] False [] {} None None [] []" by (simp add: eq_init_def wit_defs fun_eq_iff)
  have 1: "eq_step (wit_state [] False [] {} None None [] []) (wit_state [7] False [] {} None None [7] [])"
    using eq_step.initial [of 0 "wit_state [] False [] {} None None [] []" 7] by (simp add: wit_defs)
  have 2: "eq_step (wit_state [7] False [] {} None None [7] []) (wit_state [7] True [0] {} None None [7] [])"
    using eq_step.add [of 0 "wit_state [7] False [] {} None None [7] []"] by (simp add: wit_defs)
  have 3: "eq_step (wit_state [7] True [0] {} None None [7] []) (wit_state [7] True [0] {0} None None [7] [])"
    using eq_step.hand_over [of 0 "wit_state [7] True [0] {} None None [7] []"] by (simp add: wit_defs)
  have 4: "eq_step (wit_state [7] True [0] {0} None None [7] []) (wit_state [] True [0] {0} None None [7] [7])"
    using eq_step.pop_now [of 0 "wit_state [7] True [0] {0} None None [7] []" 1 7] by (simp add: wit_defs)
  have 5: "eq_step (wit_state [] True [0] {0} None None [7] [7]) (wit_state [] True [0] {0} None (Some (0, In_pop)) [7] [7])"
    using eq_step.pop_wait [of 0 "wit_state [] True [0] {0} None None [7] [7]" 1] by (simp add: wit_defs)
  have 6: "eq_step (wit_state [] True [0] {0} None (Some (0, In_pop)) [7] [7]) (wit_state [] True [0] {0} (Some (8, [0])) (Some (0, In_pop)) [7] [7])"
    using eq_step.notify_begin [of "wit_state [] True [0] {0} None (Some (0, In_pop)) [7] [7]" 8] by (simp add: wit_defs)
  have 7: "eq_step (wit_state [] True [0] {0} (Some (8, [0])) (Some (0, In_pop)) [7] [7]) (wit_state [8] True [0] {0} (Some (8, [])) (Some (0, In_pop)) [7, 8] [7])"
    using eq_step.notify_push [of "wit_state [] True [0] {0} (Some (8, [0])) (Some (0, In_pop)) [7] [7]" 8 0 "[]"] by (simp add: wit_defs)
  have 8: "eq_step (wit_state [8] True [0] {0} (Some (8, [])) (Some (0, In_pop)) [7, 8] [7]) (wit_state [] True [0] {0} (Some (8, [])) None [7, 8] [7, 8])"
    using eq_step.pop_resume [of "wit_state [8] True [0] {0} (Some (8, [])) (Some (0, In_pop)) [7, 8] [7]" 1 0 0 8] by (simp add: wit_defs)
  show ?thesis unfolding 0
    by (rule converse_rtranclp_into_rtranclp [where r = eq_step, OF 1], rule converse_rtranclp_into_rtranclp [where r = eq_step, OF 2], rule converse_rtranclp_into_rtranclp [where r = eq_step, OF 3],
        rule converse_rtranclp_into_rtranclp [where r = eq_step, OF 4], rule converse_rtranclp_into_rtranclp [where r = eq_step, OF 5], rule converse_rtranclp_into_rtranclp [where r = eq_step, OF 6],
        rule converse_rtranclp_into_rtranclp [where r = eq_step, OF 7], rule r_into_rtranclp [where r = eq_step, OF 8])
qed

theorem event_queue_fifo_witness:
  "\<exists>s. eq_step\<^sup>*\<^sup>* eq_init s \<and> st_got s 0 = [7 :: nat, 8] \<and> st_put s 0 = st_got s 0 @ eq_items (queue_at s 0)"
  using event_queue_fifo [OF wit_run, of 0] wit_run
  by (intro exI [of _ "wit_state [] True [0] {0} (Some (8, [])) None [7, 8] [7, 8]"]) (simp add: wit_state_def)

text \<open>C23: a closed queue blocks nobody and drains. Let a queue that consumers have be closed, and let the
  threads go on in any way. Then it stays closed and nothing is put into it any more; every consumer that
  waits on it can go on; a call of \<^verbatim>\<open>pop\<close> that begins now returns at once, and one after the other such calls
  return the queued events in their order and then the default event for ever. A consumer that was
  waiting when the queue was closed is handed no event: \<^verbatim>\<open>pop\<close> returns the default event to it, and the other
  two operations nothing, even if events are queued.\<close>

theorem closed_queue_drains:
  assumes "eq_step\<^sup>*\<^sup>* s s'" "q \<in> st_shared s" "\<not> eq_open (queue_at s q)"
  shows "\<not> eq_open (queue_at s' q) \<and> st_put s' q = st_put s q \<and> eq_wakeable (queue_at s' q) \<and>
    pops (length (eq_items (queue_at s' q)) + k) dflt (queue_at s' q) = Some (eq_items (queue_at s' q) @ replicate k dflt) \<and>
    eq_pop_end dflt (queue_at s' q) = Some (dflt, queue_at s' q) \<and>
    eq_tryPopFor_end (queue_at s' q) = Some (None, queue_at s' q) \<and> eq_tryPopUntil_end (queue_at s' q) = Some (None, queue_at s' q)"
  using closed_steps [OF assms] pops_closed [of "queue_at s' q" k dflt]
  by (simp add: drained_from_def eq_ops Let_def)

theorem closed_queue_drains_witness:
  "\<exists>s'. eq_step\<^sup>*\<^sup>* (wit_state [7, 8] False [0] {0} None None [7, 8] []) s' \<and> st_got s' 0 = [7] \<and>
     pops 2 0 (queue_at s' 0) = Some [8, 0]"
proof -
  let ?s = "wit_state [7, 8] False [0] {0} None None [7, 8] []" and ?s' = "wit_state [8] False [0] {0} None None [7, 8] [7]"
  have "eq_step ?s ?s'" using eq_step.pop_now [of 0 ?s 1 7] by (simp add: wit_defs)
  then have r: "eq_step\<^sup>*\<^sup>* ?s ?s'" by blast
  have q: "0 \<in> st_shared ?s" "\<not> eq_open (queue_at ?s 0)" "eq_items (queue_at ?s' 0) = [8]" "st_got ?s' 0 = [7]" by (simp_all add: wit_defs)
  from closed_queue_drains [OF r q(1,2), of 1 0] have "pops (length (eq_items (queue_at ?s' 0)) + 1) 0 (queue_at ?s' 0) = Some (eq_items (queue_at ?s' 0) @ replicate 1 0)" by blast
  then have "pops 2 0 (queue_at ?s' 0) = Some [8, 0]" unfolding q(3) by (simp add: numeral_2_eq_2)
  then show ?thesis using r q(4) by blast
qed

text \<open>A consumer that is already waiting is treated differently. It waits, an event is pushed, and
  the queue is closed before the consumer has the mutex again: then all three waiting operations
  return nothing although an event is queued, which the documentation of \<^verbatim>\<open>close\<close> excludes.\<close>

theorem close_hides_event:
  assumes "eq_open q" "eq_items q = []"
  shows "eq_pop_begin q = Some (Wait, q) \<and>
    (let q' = eq_close (eq_push e q) in eq_wakeable q' \<and> eq_pop_end dflt q' = Some (dflt, q') \<and>
      eq_tryPopFor_end q' = Some (None, q') \<and> eq_tryPopUntil_end q' = Some (None, q') \<and> eq_items q' = [e])"
  using assms by (simp add: eq_ops eq_close_def eq_push_def)

theorem close_hides_event_witness:
  "eq_pop_end 0 (eq_close (eq_push 5 \<lparr>eq_items = [], eq_open = True\<rparr>)) = Some (0 :: nat, \<lparr>eq_items = [5], eq_open = False\<rparr>)"
  using close_hides_event [of "\<lparr>eq_items = [], eq_open = True\<rparr>" "5 :: nat" 0]
  by (simp add: eq_close_def eq_push_def Let_def)

end
