(* ===== verification/Session_Packets.thy ===== *)
theory Session_Packets
  imports Bson_Reader_Spec
begin

text \<open>
  core/src/session.cpp, the receiving side: bytes from the TCP connection are collected in a buffer
  of 64 KiB, complete BSON documents are cut off and interpreted as responses to commands, and the
  callback that was stored for the command is called. A callback is a value here; what it does to
  the table of handlers (it may start further commands) is the argument \<^verbatim>\<open>run_cb\<close>. A pointer into
  the packet that is handed to a callback is the document or the string it points to.
\<close>

section \<open>Text\<close>

definition ascii :: "string \<Rightarrow> bytes" where
  "ascii s = map of_char s"

section \<open>Responses\<close>

datatype async_result = Success "bytes option" | Failure int "bytes option"

record response =
  rs_cmd_id :: int
  rs_result_code :: int
  rs_payload :: "bytes option"
  rs_error_message :: "bytes option"

definition subdoc_bytes :: "bson_reader \<Rightarrow> bytes option option" where
  "subdoc_bytes r = do {
     sd \<leftarrow> subdocument r;
     (case sd of
        None \<Rightarrow> Some None
      | Some (p, n) \<Rightarrow> do { bs \<leftarrow> rd_bytes (buffer r) p (nat n); Some (Some bs) })
   }"

definition message_bytes :: "bson_reader \<Rightarrow> bytes option" where
  "message_bytes r = do {
     n \<leftarrow> geti32 (buffer r) (buf_offset r);
     rd_bytes (buffer r) (buf_offset r + 4) (nat (n - 1))
   }"

text \<open>The body of the loop of \<^verbatim>\<open>parsePacket\<close> for an element of type \<^verbatim>\<open>e\<close>.\<close>

definition parse_field :: "element_type \<Rightarrow> bson_reader \<Rightarrow> response \<Rightarrow> (bson_reader \<times> response) option" where
  "parse_field e r p =
     (if rd_key r = ascii ''user-data'' \<and> e = ELEMENT_I32 then do {
        x \<leftarrow> int32Value r;
        Some (r, p\<lparr>rs_cmd_id := x\<rparr>)
      }
      else if rd_key r = ascii ''service'' \<and> e = ELEMENT_STR then Some (r, p)
      else if rd_key r = ascii ''data'' \<and> e = ELEMENT_DOC then do {
        (ok, r) \<leftarrow> beginSub r;
        (t, r) \<leftarrow> bson_next r;
        p \<leftarrow> (if t = ELEMENT_DOC then do { d \<leftarrow> subdoc_bytes r; Some (p\<lparr>rs_payload := d\<rparr>) } else Some p);
        Some (snd (endSub r), p)
      }
      else if rd_key r = ascii ''result'' \<and> e = ELEMENT_I32 then do {
        x \<leftarrow> int32Value r;
        Some (r, p\<lparr>rs_result_code := x\<rparr>)
      }
      else if rd_key r = ascii ''error_message'' \<and> e = ELEMENT_STR then do {
        m \<leftarrow> message_bytes r;
        Some (r, p\<lparr>rs_error_message := Some m\<rparr>)
      }
      else Some (r, p))"

partial_function (option) parse_loop :: "bson_reader \<Rightarrow> response \<Rightarrow> (element_type \<times> response) option" where
  "parse_loop r p = (case bson_next r of
     None \<Rightarrow> None
   | Some (e, r) \<Rightarrow>
       if atEnd r then Some (e, p)
       else (case parse_field e r p of
           None \<Rightarrow> None
         | Some (r, p) \<Rightarrow> parse_loop r p))"

declare parse_loop.simps [code]

definition result_of :: "response \<Rightarrow> async_result" where
  "result_of p = (if rs_result_code p = 0 then Success (rs_payload p) else Failure (rs_result_code p) (rs_error_message p))"

definition initial_response :: response where
  "initial_response = \<lparr>rs_cmd_id = -1, rs_result_code = 0, rs_payload = None, rs_error_message = None\<rparr>"

text \<open>Looking up the handler and erasing it.\<close>

definition take_handler :: "int \<Rightarrow> async_result \<Rightarrow> (int \<rightharpoonup> 'cb) \<Rightarrow> ('cb \<times> async_result) option \<times> (int \<rightharpoonup> 'cb)" where
  "take_handler cmd_id res handlers = (case handlers cmd_id of
     None \<Rightarrow> (None, handlers)
   | Some callback \<Rightarrow> (Some (callback, res), handlers(cmd_id := None)))"

text \<open>\<^verbatim>\<open>data\<close> is the memory from the start of the packet on; the result is the callback to be called.\<close>

definition parsePacket ::
  "bytes \<Rightarrow> int \<Rightarrow> (int \<rightharpoonup> 'cb) \<Rightarrow> (('cb \<times> async_result) option \<times> (int \<rightharpoonup> 'cb)) option" where
  "parsePacket data sz handlers = do {
     r \<leftarrow> bson_reader_sized (Some data) sz;
     (first, r) \<leftarrow> bson_next r;
     if first \<noteq> ELEMENT_I32 \<or> rd_key r \<noteq> ascii ''00type'' then Some (None, handlers)
     else do {
       x \<leftarrow> int32Value r;
       if x \<noteq> 1 then Some (None, handlers)
       else do {
         (e, p) \<leftarrow> parse_loop r initial_response;
         if rs_cmd_id p \<noteq> -1 \<and> \<not> isError e then Some (take_handler (rs_cmd_id p) (result_of p) handlers)
         else Some (None, handlers)
       }
     }
   }"

section \<open>The receive buffer\<close>

definition k_rx_buffer_size :: nat where
  "k_rx_buffer_size = 0x10000"

record 'cb rx_state =
  receive_buffer :: bytes
  receive_buffer_used :: int
  rx_handlers :: "int \<rightharpoonup> 'cb"

definition k_min_valid_bson_size :: int where
  "k_min_valid_bson_size = 5"

text \<open>The loop of \<^verbatim>\<open>tryParsePacket\<close>: the callback runs before the next packet is looked at.\<close>

function parse_packets ::
  "('cb \<Rightarrow> async_result \<Rightarrow> (int \<rightharpoonup> 'cb) \<Rightarrow> (int \<rightharpoonup> 'cb)) \<Rightarrow> bytes \<Rightarrow> int \<Rightarrow> int \<Rightarrow> (int \<rightharpoonup> 'cb) \<Rightarrow>
   (int \<times> ('cb \<times> async_result) list \<times> (int \<rightharpoonup> 'cb)) option" where
  "parse_packets run_cb buf used offset handlers =
     (if used - offset \<ge> k_min_valid_bson_size then
        (case getTotalDocumentSize (drop (nat offset) buf) of
           None \<Rightarrow> None
         | Some total_doc_size \<Rightarrow>
             if total_doc_size \<le> 0 then Some (offset, [], handlers)
             else if total_doc_size > used - offset then Some (offset, [], handlers)
             else (case parsePacket (drop (nat offset) buf) total_doc_size handlers of
                 None \<Rightarrow> None
               | Some (call, handlers) \<Rightarrow>
                   (case parse_packets run_cb buf used (offset + total_doc_size)
                           (case call of None \<Rightarrow> handlers | Some (cb, res) \<Rightarrow> run_cb cb res handlers) of
                      None \<Rightarrow> None
                    | Some (offset, calls, handlers) \<Rightarrow>
                        Some (offset, (case call of None \<Rightarrow> [] | Some c \<Rightarrow> [c]) @ calls, handlers))))
      else Some (offset, [], handlers))"
  by pat_completeness auto
termination
  by (relation "measure (\<lambda>(run_cb, buf, used, offset, handlers). nat (used - offset))") (auto simp: k_min_valid_bson_size_def)

declare parse_packets.simps [simp del]

definition tryParsePacket ::
  "('cb \<Rightarrow> async_result \<Rightarrow> (int \<rightharpoonup> 'cb) \<Rightarrow> (int \<rightharpoonup> 'cb)) \<Rightarrow> 'cb rx_state \<Rightarrow> (('cb \<times> async_result) list \<times> 'cb rx_state) option" where
  "tryParsePacket run_cb s = do {
     (offset, calls, handlers) \<leftarrow> parse_packets run_cb (receive_buffer s) (receive_buffer_used s) 0 (rx_handlers s);
     buf \<leftarrow> (if offset > 0 \<and> offset < receive_buffer_used s then do {
                bs \<leftarrow> rd_bytes (receive_buffer s) offset (nat (receive_buffer_used s));
                wr_bytes (receive_buffer s) 0 bs
              }
              else Some (receive_buffer s));
     Some (calls, s\<lparr>receive_buffer := buf, receive_buffer_used := receive_buffer_used s - offset, rx_handlers := handlers\<rparr>)
   }"

text \<open>The completion of a read: the socket has written \<^verbatim>\<open>bs\<close> behind the bytes in use.\<close>

definition rx_complete ::
  "('cb \<Rightarrow> async_result \<Rightarrow> (int \<rightharpoonup> 'cb) \<Rightarrow> (int \<rightharpoonup> 'cb)) \<Rightarrow> bytes \<Rightarrow> 'cb rx_state \<Rightarrow> (('cb \<times> async_result) list \<times> 'cb rx_state) option" where
  "rx_complete run_cb bs s = do {
     buf \<leftarrow> wr_bytes (receive_buffer s) (receive_buffer_used s) bs;
     tryParsePacket run_cb (s\<lparr>receive_buffer := buf, receive_buffer_used := receive_buffer_used s + int (length bs)\<rparr>)
   }"

section \<open>Hostile packets\<close>

lemma subdoc_bytes_inv:
  assumes "reader_inv r" "cur_type r = ELEMENT_DOC"
  shows "subdoc_bytes r \<noteq> None"
proof -
  obtain n where n: "geti32 (buffer r) (buf_offset r) = Some n" "0 \<le> n" "0 \<le> buf_offset r" "buf_offset r + n \<le> cur_doc_end r"
    using assms by (auto simp: reader_inv_def cursor_ok_def)
  have "n < 2147483648" using n(1) i32_in_range [of x for x] by (auto simp: geti32_def i32_range_def)
  moreover have "cur_doc_end r \<le> int (length (buffer r))" using assms(1) cur_doc_end_le_outer [of r] by (simp add: reader_inv_def)
  ultimately show ?thesis using n assms(2) by (simp add: subdoc_bytes_def subdocument_def to_size_t_def rd_bytes_def)
qed

lemma message_bytes_inv:
  assumes "reader_inv r" "cur_type r = ELEMENT_STR"
  shows "message_bytes r \<noteq> None"
proof -
  obtain n where n: "geti32 (buffer r) (buf_offset r) = Some n" "0 \<le> i32 (n + 4)" "0 \<le> buf_offset r" "buf_offset r + i32 (n + 4) \<le> cur_doc_end r"
    using assms by (auto simp: reader_inv_def cursor_ok_def)
  have e: "cur_doc_end r + 5 \<le> int (length (buffer r))" using assms(1) cur_doc_end_le_outer [of r] by (simp add: reader_inv_def)
  have "i32_range n" using n(1) i32_in_range by (auto simp: geti32_def)
  then have "i32 (n + 4) = n + 4 \<or> n + 4 \<ge> 2147483648" by (auto simp: i32_def i32_range_def)
  moreover have "i32 (n + 4) < 0" if "n + 4 \<ge> 2147483648"
  proof -
    have "(n + 4 + 2147483648) mod 4294967296 = (n + 4 - 2147483648 + 4294967296) mod 4294967296" by simp
    also have "\<dots> = n + 4 - 2147483648" unfolding mod_add_self2 using that \<open>i32_range n\<close> by (simp add: i32_range_def)
    finally show ?thesis using \<open>i32_range n\<close> by (simp add: i32_def i32_range_def)
  qed
  ultimately have "i32 (n + 4) = n + 4" using n(2) by auto
  then show ?thesis using n e by (cases "n < 1") (auto simp: message_bytes_def rd_bytes_def)
qed

lemma int32Value_inv: "reader_inv r \<Longrightarrow> cur_type r = ELEMENT_I32 \<Longrightarrow> int32Value r \<noteq> None"
  using cur_doc_end_le_outer [of r] by (auto simp: reader_inv_def cursor_ok_def int32Value_def geti32_def rd_bytes_def)

text \<open>One round of the loop keeps the cursor inside the packet and moves it forward.\<close>

lemma parse_field_total:
  assumes "reader_inv r" "doc_layers r = []" "bson_next r = Some (e, r1)" "\<not> atEnd r1"
  shows "\<exists>r2 p2. parse_field e r1 p = Some (r2, p2) \<and> reader_inv r2 \<and> doc_layers r2 = [] \<and> progress r2 < progress r"
proof -
  have "cur_type r1 = e" "e \<noteq> ELEMENT_INTERNAL_DOC_BEGIN" using bson_next_spec [OF assms(1)] assms(3) by auto
  then have pos: "et_code e > 0" using assms(4) by (cases e) (auto simp: atEnd_def reader_error_def)
  note N = progress_next [OF assms(1,3) pos]
  have l1: "doc_layers r1 = []" using N assms(2) by (simp add: same_doc_def)
  show ?thesis
  proof (cases "rd_key r1 = ascii ''data'' \<and> e = ELEMENT_DOC")
    case True
    have k: "rd_key r1 \<noteq> ascii ''user-data''" "rd_key r1 \<noteq> ascii ''service''" using True by (auto simp: ascii_def)
    obtain ok r2 where b: "beginSub r1 = Some (ok, r2)" "reader_inv r2" "outer_end r2 = outer_end r1"
      "ok \<longrightarrow> length (doc_layers r2) = Suc (length (doc_layers r1)) \<and> buf_offset r1 \<le> cur_doc_end r2"
      using beginSub_spec [of r1] N by blast
    have ok: ok using b(1) True N l1 by (auto simp: beginSub_def k_max_subdocs_def split: option.splits)
    obtain t r3 where n: "bson_next r2 = Some (t, r3)" "reader_inv r3" "same_doc r2 r3" "cur_type r3 = t"
      using bson_next_spec [OF b(2)] by blast
    obtain ok2 r4 where e: "endSub r3 = (ok2, r4)" by force
    note E = endSub_spec [OF n(2) e]
    have ok2: ok2 using e n(3) b(4) ok by (cases "doc_layers r3") (auto simp: endSub_def same_doc_def)
    have l4: "doc_layers r4 = []" using E ok2 n(3) b(4) ok l1 by (simp add: same_doc_def)
    have "outer_end r4 = outer_end r" using E b(3) same_doc_outer [OF n(3)] N same_doc_outer by auto
    moreover have "min (next_pos r) (cur_doc_end r) + 2 \<le> cur_doc_end r2" using N b(4) ok by linarith
    moreover have "cur_doc_end r3 = cur_doc_end r2" using n(3) by (simp add: same_doc_def)
    moreover have "cur_doc_end r4 \<le> outer_end r4" using E by (intro cur_doc_end_le_outer) (simp add: reader_inv_def)
    ultimately have pr: "progress r4 < progress r" using E ok2 l4 assms(2) by (simp add: progress_def)
    have "\<exists>p2. (if t = ELEMENT_DOC then do { d \<leftarrow> subdoc_bytes r3; Some (p\<lparr>rs_payload := d\<rparr>) } else Some p) = Some p2"
      using subdoc_bytes_inv [OF n(2)] n(4) by auto
    then obtain p2 where "(if t = ELEMENT_DOC then do { d \<leftarrow> subdoc_bytes r3; Some (p\<lparr>rs_payload := d\<rparr>) } else Some p) = Some p2" ..
    then have "parse_field e r1 p = Some (r4, p2)" using True k b(1) n(1) e by (simp add: parse_field_def)
    then show ?thesis using E l4 pr by blast
  next
    case False
    then show ?thesis using N pos l1 int32Value_inv [of r1] message_bytes_inv [of r1]
      by (auto simp: parse_field_def)
  qed
qed

lemma parse_loop_total:
  assumes "reader_inv r" "doc_layers r = []"
  shows "parse_loop r p \<noteq> None"
  using assms
proof (induction "progress r" arbitrary: r p rule: less_induct)
  case less
  obtain e r1 where n: "bson_next r = Some (e, r1)" using bson_next_spec [OF less.prems(1)] by blast
  show ?case
  proof (cases "atEnd r1")
    case True
    then show ?thesis using n by (simp add: parse_loop.simps [of r])
  next
    case False
    then obtain r2 p2 where f: "parse_field e r1 p = Some (r2, p2)" "reader_inv r2" "doc_layers r2 = []" "progress r2 < progress r"
      using parse_field_total [OF less.prems n, of p] by blast
    then show ?thesis using less.hyps [OF f(4,2,3), of p2] n False by (simp add: parse_loop.simps [of r])
  qed
qed

lemma parsePacket_total:
  assumes "padded data sz"
  shows "parsePacket data sz handlers \<noteq> None"
proof -
  obtain r where r: "bson_reader_sized (Some data) sz = Some r" "reader_inv r \<or> cur_type r = ELEMENT_FORMAT_ERROR" "doc_layers r = []"
    using bson_reader_sized_spec [OF assms] by (auto simp: bson_reader_sized_def reader_members_def Let_def split: if_splits option.splits)
  show ?thesis
  proof (cases "reader_inv r")
    case False
    then show ?thesis using r by (simp add: parsePacket_def bson_next_unfold)
  next
    case True
    obtain e r1 where n: "bson_next r = Some (e, r1)" "reader_inv r1" "same_doc r r1" "cur_type r1 = e"
      using bson_next_spec [OF True] by blast
    have l: "doc_layers r1 = []" using n(3) r(3) by (simp add: same_doc_def)
    obtain e2 p2 where "parse_loop r1 initial_response = Some (e2, p2)" using parse_loop_total [OF n(2) l, of initial_response] by auto
    then show ?thesis using r(1) n int32Value_inv [OF n(2)] by (auto simp: parsePacket_def)
  qed
qed

end
