(* ===== verification/Device_Enums.thy ===== *)
theory Device_Enums
  imports Session_Packets
begin

text \<open>
  core/inc/sc-api/core/device_info_definitions.h: the enumerations of device information. An
  enumerator is its number; each enumeration is the list of its enumerators as the source declares
  them, and beside it stands the table of their textual ids.
\<close>

section \<open>Enumerators and their ids\<close>

definition DeviceRole :: "string list" where
  "DeviceRole = [
   ''wheel'', ''wheelbase'', ''throttle_pedal'', ''brake_pedal'', ''handbrake'', ''clutch_pedal'', ''gear_stick'',
   ''button_box'', ''hub'', ''unknown'', ''other'']"

definition device_role_ids :: "string list" where
  "device_role_ids = [
   ''wheel'', ''wheelbase'', ''throttle_pedal'', ''brake_pedal'', ''handbrake'', ''clutch_pedal'', ''gear_stick'',
   ''button_box'', ''hub'', ''unknown'', ''other'']"

definition ControlType :: "string list" where
  "ControlType = [
   ''wheelbase'', ''wheel'', ''pedal'', ''paddle'', ''hat_switch'', ''button'', ''toggle_switch'', ''dir_2way'',
   ''dir_4way'', ''rot_enc'', ''funky_switch'', ''light'', ''unknown'', ''other'']"

definition control_type_ids :: "string list" where
  "control_type_ids = [
   ''wheelbase'', ''wheel'', ''pedal'', ''paddle'', ''hat_switch'', ''button'', ''toggle_switch'', ''dir_2way'',
   ''dir_4way'', ''rot_enc'', ''funky_switch'', ''light'', ''unknown'', ''other'']"

definition FeedbackType :: "string list" where
  "FeedbackType = [
   ''direct_input'', ''wheelbase'', ''active_pedal'', ''rgb_light'', ''light'', ''unknown'', ''other'']"

definition feedback_type_ids :: "string list" where
  "feedback_type_ids = [
   ''direct_input'', ''wheelbase'', ''active_pedal'', ''rgb_light'', ''light'', ''unknown'', ''other'']"

definition InputRole :: "string list" where
  "InputRole = [
   ''steering'', ''throttle'', ''brake'', ''clutch'', ''clutch_secondary'', ''clutch_primary'', ''gear_shift'',
   ''gear_shift_up'', ''gear_shift_down'', ''handbrake'', ''ignition'', ''starter'', ''headlight_toggle'',
   ''high_beam_toggle'', ''headlight_flash'', ''pit_limiter'', ''overtake'', ''drs'', ''traction_control_toggle'',
   ''traction_control_increase'', ''traction_control_decrease'', ''tear_off_visor'', ''trigger_windshield_wipers'',
   ''toggle_windshield_wipers'', ''brake_bias_increase'', ''brake_bias_decrease'', ''front_antiroll_bar_increase'',
   ''front_antiroll_bar_decrease'', ''rear_antiroll_bar_increase'', ''rear_antiroll_bar_decrease'',
   ''fuel_map_increase'', ''fuel_map_decrease'', ''turbo_pressure_increase'', ''turbo_pressure_decrease'',
   ''abs_adjust'', ''abs_increase'', ''abs_decrease'', ''front_wing_increase'', ''front_wing_decrease'',
   ''rear_wing_increase'', ''rear_wing_decrease'', ''diff_preload_increase'', ''diff_preload_decrease'',
   ''diff_entry_increase'', ''diff_entry_decrease'', ''diff_middle_increase'', ''diff_middle_decrease'',
   ''diff_exit_increase'', ''diff_exit_decrease'', ''throttle_shaping_increase'', ''throttle_shaping_decrease'',
   ''mgu_k_re_gen_gain_increase'', ''mgu_k_re_gen_gain_decrease'', ''mgu_k_deploy_mode_increase'',
   ''mgu_k_deploy_mode_decrease'', ''mgu_k_fixed_deploy_increase'', ''mgu_k_fixed_deploy_decrease'',
   ''low_fuel_accept'', ''fcy_mode_toggle'', ''next_dash_page'', ''previous_dash_page'', ''left_indicator'',
   ''right_indicator'', ''kers'', ''horn'', ''reset_vehicle'', ''enter_vehicle'', ''exit_vehicle'',
   ''launch_control'', ''abs_value_0'', ''abs_value_1'', ''abs_value_2'', ''abs_value_3'', ''abs_value_4'',
   ''abs_value_5'', ''abs_value_6'', ''abs_value_7'', ''abs_value_8'', ''abs_value_9'', ''abs_value_10'',
   ''abs_value_11'', ''tc_adjust'', ''tc_value_0'', ''tc_value_1'', ''tc_value_2'', ''tc_value_3'', ''tc_value_4'',
   ''tc_value_5'', ''tc_value_6'', ''tc_value_7'', ''tc_value_8'', ''tc_value_9'', ''tc_value_10'', ''tc_value_11'',
   ''tc2_value_0'', ''tc2_value_1'', ''tc2_value_2'', ''tc2_value_3'', ''tc2_value_4'', ''tc2_value_5'',
   ''tc2_value_6'', ''tc2_value_7'', ''tc2_value_8'', ''tc2_value_9'', ''tc2_value_10'', ''tc2_value_11'', ''enter'',
   ''back'', ''up'', ''down'', ''left'', ''right'', ''pause'', ''next_overlay_page'', ''previous_overlay_page'',
   ''lap_timing_overlay_page'', ''standings_overlay_page'', ''relative_overlay_page'', ''fuel_overlay_page'',
   ''tires_overlay_page'', ''tire_info_overlay_page'', ''pit_stop_adjustments_overlay_page'',
   ''in_car_adjustments_overlay_page'', ''mirror_adjustments_overlay_page'', ''radio_adjustments_overlay_page'',
   ''weather_overlay_page'', ''select_next_control'', ''select_previous_control'', ''increment_selected_control'',
   ''decrement_selected_control'', ''toggle_selected_control'', ''toggle_dash_box'', ''prev_splits_delta_display'',
   ''next_splits_delta_display'', ''increase_field_of_view'', ''decrease_field_of_view'', ''shift_horizon_up'',
   ''shift_horizon_down'', ''increase_driver_height'', ''decrease_driver_height'', ''recenter_tilt_axis'',
   ''glance_left'', ''glance_right'', ''glance_back'', ''change_camera'', ''move_forward'', ''move_backward'',
   ''move_left'', ''move_right'', ''mark_event_in_telemetry'', ''active_reset_save_start_point'',
   ''active_reset_run'', ''spotter_silence'', ''damage_report'', ''ffb_gain_increase'', ''ffb_gain_decrease'',
   ''in_game_push_to_talk'', ''external_push_to_talk'', ''chat_sorry'', ''chat_thanks'', ''chat_enter_pit'',
   ''chat_exit_pit'', ''mute'', ''volume_increase'', ''volume_decrease'', ''unknown'', ''unmapped'', ''other'']"

definition input_role_ids :: "string list" where
  "input_role_ids = [
   ''steering'', ''throttle'', ''brake'', ''clutch'', ''clutch_secondary'', ''clutch_primary'', ''gear_shift'',
   ''gear_shift_up'', ''gear_shift_down'', ''handbrake'', ''ignition'', ''starter'', ''headlight_toggle'',
   ''high_beam_toggle'', ''headlight_flash'', ''pit_limiter'', ''overtake'', ''drs'', ''traction_control_toggle'',
   ''traction_control_increase'', ''traction_control_decrease'', ''tear_off_visor'', ''trigger_windshield_wipers'',
   ''toggle_windshield_wipers'', ''brake_bias_increase'', ''brake_bias_decrease'', ''front_antiroll_bar_increase'',
   ''front_antiroll_bar_decrease'', ''rear_antiroll_bar_increase'', ''rear_antiroll_bar_decrease'',
   ''fuel_map_increase'', ''fuel_map_decrease'', ''turbo_pressure_increase'', ''turbo_pressure_decrease'',
   ''abs_adjust'', ''abs_increase'', ''abs_decrease'', ''front_wing_increase'', ''front_wing_decrease'',
   ''rear_wing_increase'', ''rear_wing_decrease'', ''diff_preload_increase'', ''diff_preload_decrease'',
   ''diff_entry_increase'', ''diff_entry_decrease'', ''diff_middle_increase'', ''diff_middle_decrease'',
   ''diff_exit_increase'', ''diff_exit_decrease'', ''throttle_shaping_increase'', ''throttle_shaping_decrease'',
   ''mgu_k_re_gen_gain_increase'', ''mgu_k_re_gen_gain_decrease'', ''mgu_k_deploy_mode_increase'',
   ''mgu_k_deploy_mode_decrease'', ''mgu_k_fixed_deploy_increase'', ''mgu_k_fixed_deploy_decrease'',
   ''low_fuel_accept'', ''fcy_mode_toggle'', ''next_dash_page'', ''previous_dash_page'', ''left_indicator'',
   ''right_indicator'', ''kers'', ''horn'', ''reset_vehicle'', ''enter_vehicle'', ''exit_vehicle'',
   ''launch_control'', ''abs_value_0'', ''abs_value_1'', ''abs_value_2'', ''abs_value_3'', ''abs_value_4'',
   ''abs_value_5'', ''abs_value_6'', ''abs_value_7'', ''abs_value_8'', ''abs_value_9'', ''abs_value_10'',
   ''abs_value_11'', ''tc_adjust'', ''tc_value_0'', ''tc_value_1'', ''tc_value_2'', ''tc_value_3'', ''tc_value_4'',
   ''tc_value_5'', ''tc_value_6'', ''tc_value_7'', ''tc_value_8'', ''tc_value_9'', ''tc_value_10'', ''tc_value_11'',
   ''tc2_value_0'', ''tc2_value_1'', ''tc2_value_2'', ''tc2_value_3'', ''tc2_value_4'', ''tc2_value_5'',
   ''tc2_value_6'', ''tc2_value_7'', ''tc2_value_8'', ''tc2_value_9'', ''tc2_value_10'', ''tc2_value_11'', ''enter'',
   ''back'', ''up'', ''down'', ''left'', ''right'', ''pause'', ''next_overlay_page'', ''previous_overlay_page'',
   ''lap_timing_overlay_page'', ''standings_overlay_page'', ''relative_overlay_page'', ''fuel_overlay_page'',
   ''tires_overlay_page'', ''tire_info_overlay_page'', ''pit_stop_adjustments_overlay_page'',
   ''in_car_adjustments_overlay_page'', ''mirror_adjustments_overlay_page'', ''radio_adjustments_overlay_page'',
   ''weather_overlay_page'', ''select_next_control'', ''select_previous_control'', ''increment_selected_control'',
   ''decrement_selected_control'', ''toggle_selected_control'', ''toggle_dash_box'', ''prev_splits_delta_display'',
   ''next_splits_delta_display'', ''increase_field_of_view'', ''decrease_field_of_view'', ''shift_horizon_up'',
   ''shift_horizon_down'', ''increase_driver_height'', ''decrease_driver_height'', ''recenter_tilt_axis'',
   ''glance_left'', ''glance_right'', ''glance_back'', ''change_camera'', ''move_forward'', ''move_backward'',
   ''move_left'', ''move_right'', ''mark_event_in_telemetry'', ''active_reset_save_start_point'',
   ''active_reset_run'', ''spotter_silence'', ''damage_report'', ''ffb_gain_increase'', ''ffb_gain_decrease'',
   ''in_game_push_to_talk'', ''external_push_to_talk'', ''chat_sorry'', ''chat_thanks'', ''chat_enter_pit'',
   ''chat_exit_pit'', ''mute'', ''volume_increase'', ''volume_decrease'', ''unknown'', ''unmapped'', ''other'']"

definition InputType :: "string list" where
  "InputType = [
   ''axis'', ''button'', ''inc_rot_enc'', ''abs_rot_enc'', ''unknown'', ''other'']"

definition input_type_ids :: "string list" where
  "input_type_ids = [
   ''axis'', ''button'', ''inc_rot_enc'', ''abs_rot_enc'', ''unknown'', ''other'']"

section \<open>Conversion to and from text\<close>

text \<open>\<^verbatim>\<open>toString\<close>: a lookup in the table. The five \<^verbatim>\<open>FromString\<close> functions compare with every entry but
  the last one, which is the enumerator \<^verbatim>\<open>other\<close>.\<close>

fun id_loop :: "string list \<Rightarrow> nat \<Rightarrow> nat \<Rightarrow> bytes \<Rightarrow> nat" where
  "id_loop [] i other s = other"
| "id_loop (x # xs) i other s = (if i < other then (if s = ascii x then i else id_loop xs (i + 1) other s) else other)"

definition device_role_toString :: "nat \<Rightarrow> bytes" where
  "device_role_toString r = ascii (device_role_ids ! r)"

definition control_type_toString :: "nat \<Rightarrow> bytes" where
  "control_type_toString r = ascii (control_type_ids ! r)"

definition feedback_type_toString :: "nat \<Rightarrow> bytes" where
  "feedback_type_toString r = ascii (feedback_type_ids ! r)"

definition input_role_toString :: "nat \<Rightarrow> bytes" where
  "input_role_toString r = ascii (input_role_ids ! r)"

definition input_type_toString :: "nat \<Rightarrow> bytes" where
  "input_type_toString r = ascii (input_type_ids ! r)"

definition deviceRoleFromString :: "bytes \<Rightarrow> nat" where
  "deviceRoleFromString s = id_loop device_role_ids 0 (length DeviceRole - 1) s"

definition controlTypeFromString :: "bytes \<Rightarrow> nat" where
  "controlTypeFromString s = id_loop control_type_ids 0 (length ControlType - 1) s"

definition feedbackTypeFromString :: "bytes \<Rightarrow> nat" where
  "feedbackTypeFromString s = id_loop feedback_type_ids 0 (length FeedbackType - 1) s"

definition inputRoleFromString :: "bytes \<Rightarrow> nat" where
  "inputRoleFromString s = id_loop input_role_ids 0 (length InputRole - 1) s"

definition inputTypeFromString :: "bytes \<Rightarrow> nat" where
  "inputTypeFromString s = id_loop input_type_ids 0 (length InputType - 1) s"

text \<open>The enumerators the parsers name.\<close>

definition enumerator :: "string list \<Rightarrow> string \<Rightarrow> nat" where
  "enumerator e x = length (takeWhile (\<lambda>y. y \<noteq> x) e)"

section \<open>The tables agree with the enumerations\<close>

lemma ids_are_enumerators:
  "device_role_ids = DeviceRole" "control_type_ids = ControlType" "feedback_type_ids = FeedbackType"
  "input_role_ids = InputRole" "input_type_ids = InputType"
  by (simp_all only: device_role_ids_def DeviceRole_def control_type_ids_def ControlType_def feedback_type_ids_def
      FeedbackType_def input_role_ids_def InputRole_def input_type_ids_def InputType_def)

text \<open>A number for a string that separates the ids.\<close>

definition id_key :: "string \<Rightarrow> int" where
  "id_key s = foldl (\<lambda>a c. (a * 2 + of_char c) mod 1523) 0 s"

lemma distinct_ids:
  "distinct DeviceRole" "distinct ControlType" "distinct FeedbackType" "distinct InputType"
  by code_simp+

lemma distinct_input_roles: "distinct InputRole"
proof -
  have "distinct (map id_key InputRole)" by (simp add: InputRole_def id_key_def)
  then show ?thesis unfolding distinct_map by (rule conjunct1)
qed

section \<open>Ids and enumerators are in one-to-one correspondence\<close>

lemma inj_of_char_byte: "inj (of_char :: char \<Rightarrow> byte)"
proof (rule injI)
  fix c d :: char assume eq: "(of_char c :: byte) = of_char d"
  have b: "bit (of_char x :: byte) n \<longleftrightarrow> n < 8 \<and> [digit0 x, digit1 x, digit2 x, digit3 x, digit4 x, digit5 x, digit6 x, digit7 x] ! n" for x n
    by (simp only: of_char_def bit_horner_sum_bit_word_iff) (simp add: eval_nat_numeral)
  have "[digit0 c, digit1 c, digit2 c, digit3 c, digit4 c, digit5 c, digit6 c, digit7 c] ! n = [digit0 d, digit1 d, digit2 d, digit3 d, digit4 d, digit5 d, digit6 d, digit7 d] ! n"
    if "n < 8" for n using b [of c n] b [of d n] that unfolding eq by simp
  from this [of 0] this [of 1] this [of 2] this [of 3] this [of 4] this [of 5] this [of 6] this [of 7]
  show "c = d" by (simp add: char.expand)
qed

lemma ascii_eq: "ascii a = ascii b \<longleftrightarrow> a = b"
  by (simp add: ascii_def inj_map_eq_map [OF inj_of_char_byte])

lemma id_loop_finds:
  "distinct xs \<Longrightarrow> j < length xs \<Longrightarrow> other + 1 = i + length xs \<Longrightarrow> id_loop xs i other (ascii (xs ! j)) = i + j"
proof (induction xs arbitrary: i j)
  case (Cons x xs)
  show ?case
  proof (cases j)
    case 0
    then show ?thesis using Cons.prems(3) by (cases xs) auto
  next
    case (Suc j')
    then have "j' < length xs" "xs ! j' \<noteq> x" using Cons.prems by auto
    then show ?thesis using Cons.IH [of j' "i + 1"] Cons.prems Suc by (cases xs) (auto simp: ascii_eq)
  qed
qed simp

lemma id_loop_other: "\<forall>x\<in>set xs. s \<noteq> ascii x \<Longrightarrow> id_loop xs i other s = other"
  by (induction xs arbitrary: i) auto

text \<open>What holds of each enumeration.\<close>

definition ids_faithful :: "string list \<Rightarrow> (nat \<Rightarrow> bytes) \<Rightarrow> (bytes \<Rightarrow> nat) \<Rightarrow> bool" where
  "ids_faithful e to_str from_str \<longleftrightarrow>
     (\<forall>i < length e. to_str i = ascii (e ! i) \<and> from_str (to_str i) = i) \<and>
     (\<forall>s. s \<notin> ascii ` set e \<longrightarrow> from_str s = length e - 1)"

lemma ids_faithfulI:
  assumes "ids = e" "distinct e" "e \<noteq> []"
  shows "ids_faithful e (\<lambda>r. ascii (ids ! r)) (id_loop ids 0 (length e - 1))"
  using assms id_loop_finds [of e _ "length e - 1" 0] id_loop_other [of e _ 0 "length e - 1"]
  by (auto simp: ids_faithful_def image_iff)

text \<open>Textual ids. For each of the five enumerations the text of an enumerator is its own name,
  reading the text back gives the enumerator, and every other text gives the last enumerator,
  \<^verbatim>\<open>other\<close>.\<close>

theorem enumeration_ids:
  "ids_faithful DeviceRole device_role_toString deviceRoleFromString \<and>
   ids_faithful ControlType control_type_toString controlTypeFromString \<and>
   ids_faithful FeedbackType feedback_type_toString feedbackTypeFromString \<and>
   ids_faithful InputRole input_role_toString inputRoleFromString \<and>
   ids_faithful InputType input_type_toString inputTypeFromString"
proof -
  have ne: "DeviceRole \<noteq> []" "ControlType \<noteq> []" "FeedbackType \<noteq> []" "InputRole \<noteq> []" "InputType \<noteq> []"
    by (simp_all add: DeviceRole_def ControlType_def FeedbackType_def InputRole_def InputType_def)
  note I = ids_faithfulI [OF ids_are_enumerators(1) distinct_ids(1) ne(1)] ids_faithfulI [OF ids_are_enumerators(2) distinct_ids(2) ne(2)]
    ids_faithfulI [OF ids_are_enumerators(3) distinct_ids(3) ne(3)] ids_faithfulI [OF ids_are_enumerators(4) distinct_input_roles ne(4)]
    ids_faithfulI [OF ids_are_enumerators(5) distinct_ids(4) ne(5)]
  show ?thesis
    using I unfolding device_role_toString_def [abs_def] deviceRoleFromString_def [abs_def] control_type_toString_def [abs_def]
      controlTypeFromString_def [abs_def] feedback_type_toString_def [abs_def] feedbackTypeFromString_def [abs_def]
      input_role_toString_def [abs_def] inputRoleFromString_def [abs_def] input_type_toString_def [abs_def] inputTypeFromString_def [abs_def]
    by simp
qed

end
