(* ===== verification/Bson_Cursor.thy ===== *)
theory Bson_Cursor
  imports Bson_Reader_Spec
begin

text \<open>
  Reading a document element by element. The parsers of the library (device information, simulation
  data, registration) all have the same form: a loop that calls \<^verbatim>\<open>next\<close> until the end of the
  document or an error, a body that looks at the key and the type, and nested loops between
  \<^verbatim>\<open>beginSub\<close> and \<^verbatim>\<open>endSub\<close>. This theory relates the cursor of the reader to the elements that
  are still to come, and proves the loop once for every body that handles one element.
\<close>

section \<open>The loop\<close>

partial_function (option) each ::
  "(element_type \<Rightarrow> bson_reader \<Rightarrow> 's \<Rightarrow> (bson_reader \<times> 's) option) \<Rightarrow> bson_reader \<Rightarrow> 's \<Rightarrow>
   (element_type \<times> bson_reader \<times> 's) option" where
  "each body r s = (case bson_next r of
     None \<Rightarrow> None
   | Some (e, r) \<Rightarrow>
       if isEndOrError e then Some (e, r, s)
       else (case body e r s of
           None \<Rightarrow> None
         | Some (r, s) \<Rightarrow> each body r s))"

declare each.simps [code]

text \<open>A nested document or array: \<^verbatim>\<open>beginSub\<close>, the loop, \<^verbatim>\<open>endSub\<close>; the result of \<^verbatim>\<open>beginSub\<close> is
  not looked at.\<close>

definition each_sub ::
  "(element_type \<Rightarrow> bson_reader \<Rightarrow> 's \<Rightarrow> (bson_reader \<times> 's) option) \<Rightarrow> bson_reader \<Rightarrow> 's \<Rightarrow> (bson_reader \<times> 's) option" where
  "each_sub body r s = do {
     (ok, r) \<leftarrow> beginSub r;
     (e, r, s) \<leftarrow> each body r s;
     Some (snd (endSub r), s)
   }"

section \<open>The elements to come\<close>

definition at_elems :: "bson_reader \<Rightarrow> bdoc \<Rightarrow> bool" where
  "at_elems r es \<longleftrightarrow> wf_elems es \<and> (\<exists>p. ready r p \<and> at_pos (buffer r) p (enc_elems es @ [0]) \<and>
     p + int (length (enc_elems es)) < cur_doc_end r)"

text \<open>The cursor on an element with the elements \<^verbatim>\<open>es\<close> behind it.\<close>

definition on_item :: "bson_reader \<Rightarrow> bytes \<Rightarrow> bval \<Rightarrow> bdoc \<Rightarrow> bool" where
  "on_item r k v es \<longleftrightarrow> cur_type r = val_type v \<and> rd_key r = k \<and> wf_val v \<and> at_elems r es \<and> reads_value r v \<and>
     at_pos (buffer r) (buf_offset r) (enc_val v) \<and> element_start_offset r < buf_offset r"

text \<open>The same document around the cursor; the beginning of the document is not part of it, because
  \<^verbatim>\<open>endSub\<close> does not restore it.\<close>

definition stay :: "bson_reader \<Rightarrow> bson_reader \<Rightarrow> bool" where
  "stay r r' \<longleftrightarrow> buffer r' = buffer r \<and> cur_doc_end r' = cur_doc_end r \<and> doc_layers r' = doc_layers r"

lemma stay_refl [simp]: "stay r r"
  by (simp add: stay_def)

lemma stay_trans: "stay a b \<Longrightarrow> stay b c \<Longrightarrow> stay a c"
  by (simp add: stay_def)

lemma same_doc_stay: "same_doc r r' \<Longrightarrow> stay r r'"
  by (simp add: same_doc_def stay_def)

lemma next_item:
  assumes "at_elems r ((k, v) # es)"
  shows "\<exists>r'. bson_next r = Some (val_type v, r') \<and> on_item r' k v es \<and> same_doc r r' \<and> ready r (element_start_offset r') \<and>
     arr_index r' = (if arr_index r \<ge> -1 then arr_index r + 1 else arr_index r) \<and> ready r' (element_start_offset r' + int (length (enc_elem k v)))"
proof -
  obtain p where p: "ready r p" "at_pos (buffer r) p (enc_elem k v @ enc_elems es @ [0])"
    "p + int (length (enc_elem k v)) + int (length (enc_elems es)) < cur_doc_end r" and wf: "0 \<notin> set k" "wf_val v" "wf_elems es"
    using assms by (auto simp: at_elems_def enc_elems_Cons simp del: enc_elems.simps)
  let ?r = "on_elem r p k v" and ?q = "p + int (length (enc_elem k v))"
  have A: "at_pos (buffer r) p (enc_elem k v)" "at_pos (buffer r) ?q (enc_elems es @ [0])" using at_pos_append [OF p(2)] by simp_all
  have lt: "?q < cur_doc_end r" using p(3) by linarith
  note N = bson_next_elem [OF p(1) A(1) wf(1) lt]
  have sd: "same_doc r ?r" by (simp add: same_doc_def on_elem_def)
  have "at_elems ?r es" using N(2) A(2) p(3) wf(3) by (auto simp: at_elems_def on_elem_def)
  moreover have "at_pos (buffer ?r) (buf_offset ?r) (enc_val v)"
    using at_pos_append [of "buffer r" p "type_byte (val_type v) # k @ [0]" "enc_val v"] A(1)
    by (simp add: enc_elem_def on_elem_def algebra_simps)
  moreover have "reads_value ?r v" using on_elem_reads_value [OF A(1) wf(2)] p(1) by (simp add: ready_def)
  ultimately have "on_item ?r k v es" using wf(2) by (simp add: on_item_def) (simp add: on_elem_def)
  moreover have "ready r (element_start_offset ?r)" "ready ?r (element_start_offset ?r + int (length (enc_elem k v)))"
    "arr_index ?r = (if arr_index r \<ge> -1 then arr_index r + 1 else arr_index r)"
    using p(1) N(2) by (simp_all add: on_elem_def)
  ultimately show ?thesis using N(1) sd by blast
qed

lemma next_end:
  assumes "at_elems r []"
  shows "\<exists>r'. bson_next r = Some (ELEMENT_END, r') \<and> same_doc r r' \<and> cur_type r' = ELEMENT_END"
proof -
  obtain p where p: "ready r p" "at_pos (buffer r) p (0 # [])" using assms by (auto simp: at_elems_def)
  show ?thesis using bson_next_end [OF p] by (simp add: same_doc_def)
qed

text \<open>Entering a nested document and leaving it, whatever the reader does inside.\<close>

lemma enter_leave:
  assumes "on_item r k v es" "v = VDoc sub \<or> v = VArray sub" "length (doc_layers r) < k_max_subdocs"
  shows "\<exists>r2. beginSub r = Some (True, r2) \<and> at_elems r2 sub \<and> length (doc_layers r2) = Suc (length (doc_layers r)) \<and>
    cur_doc_begin r2 = buf_offset r2 \<and> cur_type r2 = ELEMENT_INTERNAL_DOC_BEGIN \<and> rd_key r2 = rd_key r \<and>
    (\<forall>r3. stay r2 r3 \<longrightarrow> fst (endSub r3) \<and> at_elems (snd (endSub r3)) es \<and> stay r (snd (endSub r3)))"
proof -
  let ?n = "int (length (enc_elems sub)) + 5" and ?o = "buf_offset r"
  have bl: "int (length (buffer r)) < 2147483640" using assms(1) by (auto simp: on_item_def at_elems_def ready_def)
  have ao: "at_pos (buffer r) ?o (le_bytes 4 ?n @ enc_elems sub @ [0])"
    using assms(1,2) by (auto simp: on_item_def doc_frame_def)
  have g: "geti32 (buffer r) ?o = Some ?n"
    using at_pos_geti32 [OF ao] at_pos_bounds [OF ao] bl by (simp add: i32_range_def)
  have vt: "cur_type r = ELEMENT_DOC \<or> cur_type r = ELEMENT_ARRAY" using assms(1,2) by (auto simp: on_item_def)
  let ?r2 = "enter_sub r ?n"
  have b: "beginSub r = Some (True, ?r2)" using beginSub_enter [OF vt _ g] assms(3) by simp
  have sub: "at_pos (buffer r) (?o + 4) (enc_elems sub @ [0])" using at_pos_append [OF ao] by simp
  have wf: "wf_elems sub" using assms(1,2) by (auto simp: on_item_def)
  have e2: "at_elems ?r2 sub"
    unfolding at_elems_def using sub wf bl by (intro conjI exI [of _ "?o + 4"]) (simp_all add: enter_sub_def ready_def)
  have "fst (endSub r3) \<and> at_elems (snd (endSub r3)) es \<and> stay r (snd (endSub r3))" if "stay ?r2 r3" for r3
  proof -
    obtain p where p: "ready r p" "at_pos (buffer r) p (enc_elems es @ [0])" "p + int (length (enc_elems es)) < cur_doc_end r" "wf_elems es"
      using assms(1) by (auto simp: on_item_def at_elems_def)
    have "skip_len (buffer r) ?o (cur_type r) = Some ?n" using vt g by auto
    then have pe: "p = ?o + ?n" using p(1) by (simp add: ready_def)
    have r3: "buffer r3 = buffer r" "cur_doc_end r3 = p"
      "doc_layers r3 = \<lparr>begin_offset = cur_doc_begin r, end_offset = cur_doc_end r, ds_arr_index = arr_index r\<rparr> # doc_layers r"
      using that by (simp_all add: stay_def enter_sub_def pe)
    show ?thesis using r3 p bl by (auto simp: endSub_def at_elems_def ready_def stay_def intro!: exI [of _ p])
  qed
  moreover have "length (doc_layers ?r2) = Suc (length (doc_layers r))" "cur_doc_begin ?r2 = buf_offset ?r2" "cur_type ?r2 = ELEMENT_INTERNAL_DOC_BEGIN"
    "rd_key ?r2 = rd_key r" by (simp_all add: enter_sub_def)
  ultimately show ?thesis using b e2 by blast
qed

section \<open>Searching a key\<close>

lemma ready_unique: "ready r p \<Longrightarrow> ready r q \<Longrightarrow> p = q"
  by (auto simp: ready_def)

text \<open>A cursor anywhere in a document: the reader knows where the document begins, and the element
  it has read last, if it is one of this document, starts where an element starts.\<close>

definition in_doc :: "bson_reader \<Rightarrow> bdoc \<Rightarrow> bool" where
  "in_doc r es \<longleftrightarrow> wf_elems es \<and> at_pos (buffer r) (cur_doc_begin r) (enc_elems es @ [0]) \<and>
     cur_doc_begin r + int (length (enc_elems es)) < cur_doc_end r \<and> int (length (buffer r)) < 2147483640 \<and>
     (element_start_offset r < cur_doc_begin r \<or>
      (\<exists>pre post. es = pre @ post \<and> element_start_offset r = cur_doc_begin r + int (length (enc_elems pre))))"

lemma in_doc_begin: "in_doc r es \<Longrightarrow> at_elems (seekBegin r) es \<and> same_doc r (seekBegin r) \<and> ready (seekBegin r) (cur_doc_begin r)"
  by (auto simp: in_doc_def seekBegin_def at_elems_def ready_def same_doc_def Let_def intro!: exI [of _ "cur_doc_begin r"])

text \<open>A nested document that has been entered can be searched.\<close>

lemma enter_in_doc:
  assumes "on_item r k v es" "v = VDoc sub \<or> v = VArray sub" "length (doc_layers r) < k_max_subdocs" "beginSub r = Some (True, r2)"
  shows "in_doc r2 sub"
proof -
  have vt: "cur_type r = ELEMENT_DOC \<or> cur_type r = ELEMENT_ARRAY" using assms(1,2) by (auto simp: on_item_def)
  obtain n where "geti32 (buffer r) (buf_offset r) = Some n"
    using assms(4) vt by (auto simp: beginSub_def split: if_splits option.splits)
  then have r2: "r2 = enter_sub r n" using beginSub_enter [OF vt _ \<open>geti32 (buffer r) (buf_offset r) = Some n\<close>] assms(3,4) by simp
  obtain r3 where "beginSub r = Some (True, r3)" "at_elems r3 sub" "cur_doc_begin r3 = buf_offset r3" "cur_type r3 = ELEMENT_INTERNAL_DOC_BEGIN"
    using enter_leave [OF assms(1-3)] by blast
  then have e: "at_elems r2 sub" "cur_doc_begin r2 = buf_offset r2" "cur_type r2 = ELEMENT_INTERNAL_DOC_BEGIN" using assms(4) by simp_all
  have "element_start_offset r2 < cur_doc_begin r2" using assms(1) by (simp add: r2 enter_sub_def on_item_def)
  then show ?thesis using e by (auto simp: in_doc_def at_elems_def ready_def)
qed

text \<open>The elements from the first one with a key on, and those before it.\<close>

fun from_key :: "bytes \<Rightarrow> bdoc \<Rightarrow> bdoc" where
  "from_key k [] = []"
| "from_key k ((k', v) # es) = (if k' = k then (k', v) # es else from_key k es)"

fun before_key :: "bytes \<Rightarrow> bdoc \<Rightarrow> bdoc" where
  "before_key k [] = []"
| "before_key k ((k', v) # es) = (if k' = k then [] else (k', v) # before_key k es)"

lemma split_key: "before_key k es @ from_key k es = es"
  by (induction k es rule: from_key.induct) auto

text \<open>The search stops on the first element with the key.\<close>

lemma seek_items:
  "at_elems r es \<Longrightarrow> ready r p \<Longrightarrow> \<exists>t r'. seek_loop (\<lambda>r'. rd_key r' = k) r = Some (t, r') \<and> same_doc r r' \<and>
     (case from_key k es of
        [] \<Rightarrow> t = ELEMENT_END
      | (k', v) # post \<Rightarrow> t = val_type v \<and> on_item r' k v post \<and>
          element_start_offset r' = p + int (length (enc_elems (before_key k es))))"
  (is "_ \<Longrightarrow> _ \<Longrightarrow> \<exists>t r'. seek_loop ?found r = _ \<and> _")
proof (induction es arbitrary: r p)
  case Nil
  then show ?case using next_end [of r] by (auto simp: seek_loop.simps [of ?found r])
next
  case (Cons kv es)
  obtain k' v where kv: "kv = (k', v)" by force
  obtain r1 where r1: "bson_next r = Some (val_type v, r1)" "on_item r1 k' v es" "same_doc r r1" "ready r (element_start_offset r1)"
    "ready r1 (element_start_offset r1 + int (length (enc_elem k' v)))"
    using next_item [OF Cons.prems(1) [unfolded kv]] by blast
  have p: "element_start_offset r1 = p" using ready_unique [OF r1(4) Cons.prems(2)] .
  have k1: "rd_key r1 = k'" "at_elems r1 es" using r1(2) by (simp_all add: on_item_def)
  have pos: "0 < et_code (val_type v)" by (rule val_type_pos)
  show ?case
  proof (cases "k' = k")
    case True
    then show ?thesis using r1 k1 pos p by (simp add: kv seek_loop.simps [of ?found r])
  next
    case False
    have "seek_loop ?found r = seek_loop ?found r1" using False r1(1) k1 pos by (simp add: seek_loop.simps [of ?found r])
    then show ?thesis
      using Cons.IH [OF k1(2) r1(5)] False r1(3) p
      by (cases "from_key k es") (auto simp: kv enc_elems_Cons add.assoc simp del: enc_elems.simps intro: same_doc_trans)
  qed
qed

lemma seekKey_item:
  assumes "in_doc r es"
  shows "\<exists>t r'. seekKey k r = Some (t, r') \<and>
     (case from_key k es of
        [] \<Rightarrow> t = ELEMENT_END
      | (k', v) # post \<Rightarrow> t = val_type v \<and> on_item r' k v post \<and> same_doc r r' \<and> in_doc r' es)"
proof -
  let ?rest = "from_key k es" and ?pre = "before_key k es"
  note B = in_doc_begin [OF assms]
  obtain t r' where s: "seek_loop (\<lambda>r'. rd_key r' = k) (seekBegin r) = Some (t, r')" "same_doc (seekBegin r) r'"
    "case ?rest of [] \<Rightarrow> t = ELEMENT_END
      | (k', v) # post \<Rightarrow> t = val_type v \<and> on_item r' k v post \<and>
          element_start_offset r' = cur_doc_begin r + int (length (enc_elems ?pre))"
    using seek_items [of "seekBegin r" es "cur_doc_begin r" k] B by blast
  have sd: "same_doc r r'" using B s(2) same_doc_trans by blast
  show ?thesis
  proof (cases ?rest)
    case Nil
    then have t: "t = ELEMENT_END" using s(3) by simp
    have "bson_seek r' (elementOffset r) \<noteq> None"
    proof (cases "element_start_offset r < cur_doc_begin r \<or> element_start_offset r \<ge> cur_doc_end r")
      case True
      then show ?thesis using sd by (auto simp: bson_seek_def elementOffset_def same_doc_def)
    next
      case False
      then obtain pre post where pp: "es = pre @ post" "element_start_offset r = cur_doc_begin r + int (length (enc_elems pre))"
        using assms by (auto simp: in_doc_def)
      let ?q = "r'\<lparr>cur_type := ELEMENT_INTERNAL_DOC_BEGIN, buf_offset := element_start_offset r, arr_index := arr_index r\<rparr>"
      have "at_elems ?q post"
        using assms pp sd at_pos_append [of "buffer r" "cur_doc_begin r" "enc_elems pre" "enc_elems post @ [0]"]
        by (auto simp: in_doc_def at_elems_def ready_def same_doc_def enc_elems_append wf_elems_append intro!: exI [of _ "element_start_offset r"])
      then have "bson_next ?q \<noteq> None"
        by (cases post) (use next_end [of ?q] next_item [of ?q] in \<open>fastforce+\<close>)
      then show ?thesis using sd False by (simp add: bson_seek_def elementOffset_def same_doc_def)
    qed
    then show ?thesis using s(1) t Nil by (auto simp: seekKey_def seek_restore_def)
  next
    case (Cons kv post)
    obtain k' v where kv: "kv = (k', v)" by force
    have "es = ?pre @ ?rest \<and> element_start_offset r' = cur_doc_begin r' + int (length (enc_elems ?pre))"
      using s(3) Cons kv sd split_key [of k es] by (simp add: same_doc_def)
    then have "\<exists>pre post. es = pre @ post \<and> element_start_offset r' = cur_doc_begin r' + int (length (enc_elems pre))" by blast
    then have "in_doc r' es" using assms sd unfolding in_doc_def same_doc_def by simp
    moreover have "t \<noteq> ELEMENT_END" using s(3) Cons kv val_type_pos [of v] by auto
    ultimately show ?thesis using s sd Cons kv by (simp add: seekKey_def seek_restore_def)
  qed
qed

text \<open>A reader that has just been created on a document is in it.\<close>

lemma unsized_in_doc:
  assumes "wf_elems es" "int (length (enc_doc es @ post)) < 2147483640"
  shows "\<exists>r. bson_reader_unsized (Some (enc_doc es @ post)) = Some r \<and> in_doc r es \<and> at_elems r es \<and> doc_layers r = [] \<and>
     buffer r = enc_doc es @ post"
proof -
  have at: "at_pos (enc_doc es @ post) 0 (le_bytes 4 (int (length (enc_elems es)) + 5) @ (enc_elems es @ [0]) @ post)"
    by (simp add: at_pos_def enc_doc_def doc_frame_def)
  have g: "geti32 (enc_doc es @ post) 0 = Some (int (length (enc_elems es)) + 5)"
    using at_pos_geti32 [OF at] assms(2) by (simp add: i32_range_def length_enc_doc)
  have z: "to_size_t (int (length (enc_elems es)) + 5) = int (length (enc_elems es)) + 5" "i32 (int (length (enc_elems es)) + 5) = int (length (enc_elems es)) + 5"
    using assms(2) by (auto intro!: i32_id simp: to_size_t_def i32_range_def length_enc_doc)
  have b: "at_pos (enc_doc es @ post) 4 (enc_elems es @ [0])"
    using at_pos_append [OF at] at_pos_append [of "enc_doc es @ post" 4 "enc_elems es @ [0]" post] by simp
  show ?thesis using g b z assms
    by (auto simp: bson_reader_unsized_def reader_members_def in_doc_def at_elems_def ready_def length_enc_doc getTotalDocumentSize_def Let_def
        intro!: exI [of _ 4])
qed

section \<open>Bodies that handle one element\<close>

text \<open>The contract of a loop body at a given depth: on an element it performs the abstract step of
  that element and leaves the cursor so that the next element follows.\<close>

locale element_loop =
  fixes body :: "element_type \<Rightarrow> bson_reader \<Rightarrow> 's \<Rightarrow> (bson_reader \<times> 's) option"
    and step :: "bytes \<times> bval \<Rightarrow> 's \<Rightarrow> 's"
    and depth :: nat
  assumes body_step: "on_item r k v es \<Longrightarrow> length (doc_layers r) = depth \<Longrightarrow>
    \<exists>r2. body (val_type v) r s = Some (r2, step (k, v) s) \<and> at_elems r2 es \<and> stay r r2"
begin

lemma each_elems:
  "at_elems r es \<Longrightarrow> length (doc_layers r) = depth \<Longrightarrow>
   \<exists>r'. each body r s = Some (ELEMENT_END, r', fold step es s) \<and> stay r r' \<and> cur_type r' = ELEMENT_END"
proof (induction es arbitrary: r s)
  case Nil
  then obtain r' where "bson_next r = Some (ELEMENT_END, r')" "same_doc r r'" "cur_type r' = ELEMENT_END" using next_end by blast
  then show ?case by (simp add: each.simps [of body r] isEndOrError_def same_doc_stay)
next
  case (Cons kv es)
  obtain k v where kv: "kv = (k, v)" by force
  obtain r1 where r1: "bson_next r = Some (val_type v, r1)" "on_item r1 k v es" "same_doc r r1"
    using next_item [OF Cons.prems(1) [unfolded kv]] by blast
  have l1: "length (doc_layers r1) = depth" using r1(3) Cons.prems(2) by (simp add: same_doc_def)
  obtain r2 where r2: "body (val_type v) r1 s = Some (r2, step (k, v) s)" "at_elems r2 es" "stay r1 r2"
    using body_step [OF r1(2) l1] by blast
  have l2: "length (doc_layers r2) = depth" using r2(3) l1 by (simp add: stay_def)
  obtain r' where r': "each body r2 (step (k, v) s) = Some (ELEMENT_END, r', fold step es (step (k, v) s))" "stay r2 r'" "cur_type r' = ELEMENT_END"
    using Cons.IH [OF r2(2) l2] by blast
  have "\<not> isEndOrError (val_type v)" using val_type_pos [of v] by (cases v) (auto simp: isEndOrError_def)
  then have "each body r s = Some (ELEMENT_END, r', fold step (kv # es) s)"
    using r1(1) r2(1) r'(1) by (simp add: each.simps [of body r] kv)
  then show ?case using r' same_doc_stay [OF r1(3)] r2(3) stay_trans by blast
qed

lemma each_sub_elems:
  assumes "on_item r k v es" "v = VDoc sub \<or> v = VArray sub" "Suc (length (doc_layers r)) = depth" "depth \<le> k_max_subdocs"
  shows "\<exists>r2. each_sub body r s = Some (r2, fold step sub s) \<and> at_elems r2 es \<and> stay r r2"
proof -
  have lt: "length (doc_layers r) < k_max_subdocs" using assms(3,4) by simp
  obtain r2 where r2: "beginSub r = Some (True, r2)" "at_elems r2 sub" "length (doc_layers r2) = Suc (length (doc_layers r))"
    "\<forall>r3. stay r2 r3 \<longrightarrow> fst (endSub r3) \<and> at_elems (snd (endSub r3)) es \<and> stay r (snd (endSub r3))"
    using enter_leave [OF assms(1,2) lt] by blast
  obtain r3 where "each body r2 s = Some (ELEMENT_END, r3, fold step sub s)" "stay r2 r3"
    using each_elems [OF r2(2)] r2(3) assms(3) by blast
  then show ?thesis using r2 by (simp add: each_sub_def)
qed

end

end
