(* ===== verification/Device_Info.thy ===== *)
theory Device_Info
  imports Device_Enums Bson_Cursor Bson_Numeric
begin

text \<open>
  core/src/device_info.cpp: device information arrives as one BSON document with a subdocument per
  device. The parsers are loops over the elements of a document (\<^const>\<open>each\<close>); a string view into
  the document is the string, the pointer to a subdocument is the bytes of it. An enumerator that
  a structure leaves uninitialized is \<^term>\<open>None\<close>. The ranges of \<^verbatim>\<open>Input\<close>, which no code sets, are left
  out.
\<close>

section \<open>Data\<close>

record variable_ref =
  device_session_id :: int
  vr_id :: bytes

record control =
  ct_id :: bytes
  ct_parent_id :: bytes
  ct_name :: bytes
  ct_type :: nat

record input_info =
  in_id :: bytes
  in_control :: bytes
  in_type :: nat
  in_role :: nat
  in_variable :: variable_ref

record input_mapping =
  im_device_id :: int
  im_input_id :: bytes

record hid_axis_input =
  ax_role :: "nat option"
  range_low :: int
  range_high :: int
  ax_mappings :: "input_mapping list"

record hid_button_input =
  bt_role :: nat
  bt_mappings :: "input_mapping list"

record usb_device_info =
  hid_device_path :: bytes
  usb_pid :: int
  usb_vid :: int

record feedback =
  fb_id :: bytes
  fb_control :: bytes
  fb_type :: nat
  fb_parameters :: "bytes option"

record device_data =
  dd_uid :: bytes
  dd_session_id :: int
  dd_role :: nat
  dd_is_connected :: bool
  dd_controls :: "control list"
  dd_inputs :: "input_info list"
  dd_feedbacks :: "feedback list"
  dd_hid_axis :: "hid_axis_input list"
  dd_hid_buttons :: "hid_button_input list"
  dd_usb_info :: "usb_device_info option"

definition new_control :: control where
  "new_control = \<lparr>ct_id = [], ct_parent_id = [], ct_name = [], ct_type = enumerator ControlType ''unknown''\<rparr>"

definition new_input :: input_info where
  "new_input = \<lparr>in_id = [], in_control = [], in_type = enumerator InputType ''unknown'', in_role = enumerator InputRole ''unknown'',
     in_variable = \<lparr>device_session_id = 0, vr_id = []\<rparr>\<rparr>"

definition new_mapping :: input_mapping where
  "new_mapping = \<lparr>im_device_id = 0, im_input_id = []\<rparr>"

definition new_axis :: hid_axis_input where
  "new_axis = \<lparr>ax_role = None, range_low = 0, range_high = 0, ax_mappings = []\<rparr>"

definition new_button :: hid_button_input where
  "new_button = \<lparr>bt_role = enumerator InputRole ''unknown'', bt_mappings = []\<rparr>"

definition new_feedback :: feedback where
  "new_feedback = \<lparr>fb_id = [], fb_control = [], fb_type = enumerator FeedbackType ''unknown'', fb_parameters = None\<rparr>"

definition new_usb_info :: usb_device_info where
  "new_usb_info = \<lparr>hid_device_path = [], usb_pid = 0, usb_vid = 0\<rparr>"

text \<open>\<^verbatim>\<open>DeviceInfo::Data{}\<close>: value initialization gives the role the number zero.\<close>

definition new_data :: device_data where
  "new_data = \<lparr>dd_uid = [], dd_session_id = 0, dd_role = 0, dd_is_connected = False, dd_controls = [], dd_inputs = [],
     dd_feedbacks = [], dd_hid_axis = [], dd_hid_buttons = [], dd_usb_info = None\<rparr>"

section \<open>Controls\<close>

definition control_field :: "element_type \<Rightarrow> bson_reader \<Rightarrow> control \<Rightarrow> (bson_reader \<times> control) option" where
  "control_field e r c =
     (if e = ELEMENT_STR then
        (if rd_key r = ascii ''name'' then do { s \<leftarrow> stringValue r; Some (r, c\<lparr>ct_name := s\<rparr>) }
         else if rd_key r = ascii ''role'' then do { s \<leftarrow> stringValue r; Some (r, c\<lparr>ct_type := controlTypeFromString s\<rparr>) }
         else if rd_key r = ascii ''parent'' then do { s \<leftarrow> stringValue r; Some (r, c\<lparr>ct_parent_id := s\<rparr>) }
         else Some (r, c))
      else Some (r, c))"

definition control_item :: "element_type \<Rightarrow> bson_reader \<Rightarrow> control list \<Rightarrow> (bson_reader \<times> control list) option" where
  "control_item e r cs =
     (if e \<noteq> ELEMENT_DOC then Some (r, cs)
      else do {
        (r, c) \<leftarrow> each_sub control_field r (new_control\<lparr>ct_id := rd_key r\<rparr>);
        Some (r, cs @ [c])
      })"

definition parseControls :: "bson_reader \<Rightarrow> (bson_reader \<times> control list) option" where
  "parseControls r = do { (e, r, cs) \<leftarrow> each control_item r []; Some (r, cs) }"

section \<open>Inputs\<close>

text \<open>\<^verbatim>\<open>std::from_chars\<close> for a 16-bit unsigned number: the digits at the beginning; no digit and a
  number out of range are errors.\<close>

definition is_digit :: "byte \<Rightarrow> bool" where
  "is_digit b \<longleftrightarrow> 48 \<le> uint b \<and> uint b \<le> 57"

definition from_chars_u16 :: "bytes \<Rightarrow> int option" where
  "from_chars_u16 s = (let ds = takeWhile is_digit s; n = foldl (\<lambda>a b. a * 10 + (uint b - 48)) 0 ds in
     if ds = [] \<or> n > 65535 then None else Some n)"

definition variable_of :: "int \<Rightarrow> bytes \<Rightarrow> variable_ref" where
  "variable_of this_device_id var = (let pos = length (takeWhile (\<lambda>b. b \<noteq> 58) var) in
     if pos = length var then \<lparr>device_session_id = this_device_id, vr_id = var\<rparr>
     else (case from_chars_u16 (take pos var) of
         Some n \<Rightarrow> \<lparr>device_session_id = n, vr_id = drop (pos + 1) var\<rparr>
       | None \<Rightarrow> \<lparr>device_session_id = this_device_id, vr_id = var\<rparr>))"

definition input_field :: "int \<Rightarrow> element_type \<Rightarrow> bson_reader \<Rightarrow> input_info \<Rightarrow> (bson_reader \<times> input_info) option" where
  "input_field this_device_id e r c =
     (if e = ELEMENT_STR then
        (if rd_key r = ascii ''variable'' then do { s \<leftarrow> stringValue r; Some (r, c\<lparr>in_variable := variable_of this_device_id s\<rparr>) }
         else if rd_key r = ascii ''role'' then do { s \<leftarrow> stringValue r; Some (r, c\<lparr>in_role := inputRoleFromString s\<rparr>) }
         else if rd_key r = ascii ''type'' then do { s \<leftarrow> stringValue r; Some (r, c\<lparr>in_type := inputTypeFromString s\<rparr>) }
         else if rd_key r = ascii ''control'' then do { s \<leftarrow> stringValue r; Some (r, c\<lparr>in_control := s\<rparr>) }
         else Some (r, c))
      else Some (r, c))"

definition input_item :: "int \<Rightarrow> element_type \<Rightarrow> bson_reader \<Rightarrow> input_info list \<Rightarrow> (bson_reader \<times> input_info list) option" where
  "input_item this_device_id e r cs =
     (if e \<noteq> ELEMENT_DOC then Some (r, cs)
      else do {
        (r, c) \<leftarrow> each_sub (input_field this_device_id) r (new_input\<lparr>in_id := rd_key r\<rparr>);
        Some (r, cs @ [c])
      })"

definition parseInputs :: "bson_reader \<Rightarrow> int \<Rightarrow> (bson_reader \<times> input_info list) option" where
  "parseInputs r this_device_id = do { (e, r, cs) \<leftarrow> each (input_item this_device_id) r []; Some (r, cs) }"

section \<open>Feedbacks\<close>

definition feedback_field :: "element_type \<Rightarrow> bson_reader \<Rightarrow> feedback \<Rightarrow> (bson_reader \<times> feedback) option" where
  "feedback_field e r c =
     (if e = ELEMENT_STR then
        (if rd_key r = ascii ''control'' then do { s \<leftarrow> stringValue r; Some (r, c\<lparr>fb_control := s\<rparr>) }
         else if rd_key r = ascii ''type'' then do { s \<leftarrow> stringValue r; Some (r, c\<lparr>fb_type := feedbackTypeFromString s\<rparr>) }
         else Some (r, c))
      else if e = ELEMENT_DOC then do { d \<leftarrow> subdoc_bytes r; Some (r, c\<lparr>fb_parameters := d\<rparr>) }
      else Some (r, c))"

definition feedback_item :: "element_type \<Rightarrow> bson_reader \<Rightarrow> feedback list \<Rightarrow> (bson_reader \<times> feedback list) option" where
  "feedback_item e r cs =
     (if e \<noteq> ELEMENT_DOC then Some (r, cs)
      else do {
        (r, c) \<leftarrow> each_sub feedback_field r (new_feedback\<lparr>fb_id := rd_key r\<rparr>);
        Some (r, cs @ [c])
      })"

definition parseFeedbacks :: "bson_reader \<Rightarrow> (bson_reader \<times> feedback list) option" where
  "parseFeedbacks r = do { (e, r, cs) \<leftarrow> each feedback_item r []; Some (r, cs) }"

section \<open>Inputs of the USB interface\<close>

definition mapping_field :: "element_type \<Rightarrow> bson_reader \<Rightarrow> input_mapping \<Rightarrow> (bson_reader \<times> input_mapping) option" where
  "mapping_field e r m =
     (if e = ELEMENT_STR \<and> rd_key r = ascii ''input'' then do { s \<leftarrow> stringValue r; Some (r, m\<lparr>im_input_id := s\<rparr>) }
      else if e = ELEMENT_I32 then do { x \<leftarrow> int32Value r; Some (r, m\<lparr>im_device_id := u16 x\<rparr>) }
      else Some (r, m))"

definition mapping_item :: "element_type \<Rightarrow> bson_reader \<Rightarrow> input_mapping list \<Rightarrow> (bson_reader \<times> input_mapping list) option" where
  "mapping_item e r ms =
     (if e = ELEMENT_DOC then do {
        (r, m) \<leftarrow> each_sub mapping_field r new_mapping;
        Some (r, ms @ [m])
      }
      else Some (r, ms))"

definition parseMappings :: "bson_reader \<Rightarrow> (bson_reader \<times> input_mapping list) option" where
  "parseMappings r = do { (e, r, ms) \<leftarrow> each mapping_item r []; Some (r, ms) }"

text \<open>The two numbers of a range.\<close>

definition axis_range :: "bson_reader \<Rightarrow> hid_axis_input \<Rightarrow> (bson_reader \<times> hid_axis_input) option" where
  "axis_range r c = do {
     (e, r) \<leftarrow> bson_next r;
     if e = ELEMENT_I32 then do {
       low \<leftarrow> int32Value r;
       (e, r) \<leftarrow> bson_next r;
       if e = ELEMENT_I32 then do {
         high \<leftarrow> int32Value r;
         Some (r, c\<lparr>range_high := high, range_low := low\<rparr>)
       }
       else Some (r, c)
     }
     else Some (r, c)
   }"

definition axis_field :: "element_type \<Rightarrow> bson_reader \<Rightarrow> hid_axis_input \<Rightarrow> (bson_reader \<times> hid_axis_input) option" where
  "axis_field e r c =
     (if e = ELEMENT_STR \<and> rd_key r = ascii ''role'' then do { s \<leftarrow> stringValue r; Some (r, c\<lparr>ax_role := Some (inputRoleFromString s)\<rparr>) }
      else if e = ELEMENT_ARRAY \<and> rd_key r = ascii ''mappings'' then do {
        (ok, r) \<leftarrow> beginSub r;
        (r, ms) \<leftarrow> parseMappings r;
        Some (snd (endSub r), c\<lparr>ax_mappings := ms\<rparr>)
      }
      else if e = ELEMENT_ARRAY \<and> rd_key r = ascii ''range'' then do {
        (ok, r) \<leftarrow> beginSub r;
        (r, c) \<leftarrow> axis_range r c;
        Some (snd (endSub r), c)
      }
      else Some (r, c))"

definition axis_item :: "element_type \<Rightarrow> bson_reader \<Rightarrow> hid_axis_input list \<Rightarrow> (bson_reader \<times> hid_axis_input list) option" where
  "axis_item e r cs =
     (if e \<noteq> ELEMENT_DOC then Some (r, cs)
      else do {
        (r, c) \<leftarrow> each_sub axis_field r new_axis;
        Some (r, cs @ [c])
      })"

definition parseHidAxisInputs :: "bson_reader \<Rightarrow> (bson_reader \<times> hid_axis_input list) option" where
  "parseHidAxisInputs r = do { (e, r, cs) \<leftarrow> each axis_item r []; Some (r, cs) }"

definition button_field :: "element_type \<Rightarrow> bson_reader \<Rightarrow> hid_button_input \<Rightarrow> (bson_reader \<times> hid_button_input) option" where
  "button_field e r c =
     (if e = ELEMENT_STR \<and> rd_key r = ascii ''role'' then do { s \<leftarrow> stringValue r; Some (r, c\<lparr>bt_role := inputRoleFromString s\<rparr>) }
      else if e = ELEMENT_ARRAY \<and> rd_key r = ascii ''mappings'' then do {
        (ok, r) \<leftarrow> beginSub r;
        (r, ms) \<leftarrow> parseMappings r;
        Some (snd (endSub r), c\<lparr>bt_mappings := ms\<rparr>)
      }
      else Some (r, c))"

definition button_item :: "element_type \<Rightarrow> bson_reader \<Rightarrow> hid_button_input list \<Rightarrow> (bson_reader \<times> hid_button_input list) option" where
  "button_item e r cs =
     (if e \<noteq> ELEMENT_DOC then Some (r, cs)
      else do {
        (r, c) \<leftarrow> each_sub button_field r new_button;
        Some (r, cs @ [c])
      })"

definition parseHidButtonInputs :: "bson_reader \<Rightarrow> (bson_reader \<times> hid_button_input list) option" where
  "parseHidButtonInputs r = do { (e, r, cs) \<leftarrow> each button_item r []; Some (r, cs) }"

definition hid_item ::
  "element_type \<Rightarrow> bson_reader \<Rightarrow> hid_axis_input list \<times> hid_button_input list \<Rightarrow> (bson_reader \<times> hid_axis_input list \<times> hid_button_input list) option" where
  "hid_item e r hid_inputs =
     (if e = ELEMENT_ARRAY then
        (if rd_key r = ascii ''axis'' then do {
           (ok, r) \<leftarrow> beginSub r;
           (r, axis) \<leftarrow> parseHidAxisInputs r;
           Some (snd (endSub r), (axis, snd hid_inputs))
         }
         else if rd_key r = ascii ''buttons'' then do {
           (ok, r) \<leftarrow> beginSub r;
           (r, buttons) \<leftarrow> parseHidButtonInputs r;
           Some (snd (endSub r), (fst hid_inputs, buttons))
         }
         else Some (r, hid_inputs))
      else Some (r, hid_inputs))"

definition parseHidInputs :: "bson_reader \<Rightarrow> (bson_reader \<times> hid_axis_input list \<times> hid_button_input list) option" where
  "parseHidInputs r = do { (e, r, h) \<leftarrow> each hid_item r ([], []); Some (r, h) }"

section \<open>Devices\<close>

text \<open>The loop of \<^verbatim>\<open>DeviceInfo::Data::parse\<close> works on the data and on the USB information beside it.\<close>

definition device_sub :: "bson_reader \<Rightarrow> device_data \<Rightarrow> (bson_reader \<times> device_data) option" where
  "device_sub r d =
     (if rd_key r = ascii ''control'' then do { (r, cs) \<leftarrow> parseControls r; Some (r, d\<lparr>dd_controls := cs\<rparr>) }
      else if rd_key r = ascii ''input'' then do { (r, cs) \<leftarrow> parseInputs r (dd_session_id d); Some (r, d\<lparr>dd_inputs := cs\<rparr>) }
      else if rd_key r = ascii ''feedback'' then do { (r, cs) \<leftarrow> parseFeedbacks r; Some (r, d\<lparr>dd_feedbacks := cs\<rparr>) }
      else if rd_key r = ascii ''hid_input'' then do {
        (r, axis, buttons) \<leftarrow> parseHidInputs r;
        Some (r, d\<lparr>dd_hid_axis := axis, dd_hid_buttons := buttons\<rparr>)
      }
      else Some (r, d))"

definition device_item ::
  "element_type \<Rightarrow> bson_reader \<Rightarrow> device_data \<times> usb_device_info \<Rightarrow> (bson_reader \<times> device_data \<times> usb_device_info) option" where
  "device_item e r du = (case du of (d, usb) \<Rightarrow>
     if e = ELEMENT_DOC then do {
       (ok, r) \<leftarrow> beginSub r;
       (r, d) \<leftarrow> device_sub r d;
       Some (snd (endSub r), d, usb)
     }
     else if e = ELEMENT_STR then
       (if rd_key r = ascii ''role'' then do { s \<leftarrow> stringValue r; Some (r, d\<lparr>dd_role := deviceRoleFromString s\<rparr>, usb) }
        else if rd_key r = ascii ''usb_path'' then do { s \<leftarrow> stringValue r; Some (r, d, usb\<lparr>hid_device_path := s\<rparr>) }
        else Some (r, d, usb))
     else if e = ELEMENT_I32 then
       (if rd_key r = ascii ''usb_pid'' then do { x \<leftarrow> int32Value r; Some (r, d, usb\<lparr>usb_pid := u16 x\<rparr>) }
        else if rd_key r = ascii ''usb_vid'' then do { x \<leftarrow> int32Value r; Some (r, d, usb\<lparr>usb_vid := u16 x\<rparr>) }
        else Some (r, d, usb))
     else if e = ELEMENT_BOOL then
       (if rd_key r = ascii ''is_connected'' then do { b \<leftarrow> boolValue r; Some (r, d\<lparr>dd_is_connected := b\<rparr>, usb) }
        else Some (r, d, usb))
     else Some (r, d, usb))"

text \<open>\<^verbatim>\<open>bson\<close> is the memory from the document on; the result is false (\<^term>\<open>None\<close> inside) or the data.\<close>

definition device_parse :: "bytes \<Rightarrow> device_data option option" where
  "device_parse bson = do {
     r \<leftarrow> bson_reader_unsized (Some bson);
     (this_device_id, r) \<leftarrow> tryFindAndGet tryGetValue_i32 (ascii ''logical_id'') r;
     (case this_device_id of
        None \<Rightarrow> Some None
      | Some i \<Rightarrow> do {
          (uid, r) \<leftarrow> tryFindAndGet tryGetValue_string (ascii ''device_uid'') r;
          (case uid of
             None \<Rightarrow> Some None
           | Some u \<Rightarrow> do {
               (e, r, d, usb) \<leftarrow> each device_item r (new_data\<lparr>dd_session_id := u16 i, dd_uid := u\<rparr>, new_usb_info);
               let d = d\<lparr>dd_usb_info := (if hid_device_path usb \<noteq> [] then Some usb else None)\<rparr>;
               Some (if \<not> reader_error r then Some d else None)
             })
        })
   }"

text \<open>The loop of \<^verbatim>\<open>parseDeviceInfo\<close> over the devices; a device that cannot be parsed is dropped.\<close>

partial_function (option) devices_loop :: "bson_reader \<Rightarrow> device_data list \<Rightarrow> device_data list option" where
  "devices_loop r devs =
     (if atEnd r then Some devs
      else (case bson_next r of
          None \<Rightarrow> None
        | Some (e, r) \<Rightarrow>
            if e = ELEMENT_DOC then
              (case subdocument r of
                 Some (Some (p, n)) \<Rightarrow>
                   (case device_parse (drop (nat p) (buffer r)) of
                      None \<Rightarrow> None
                    | Some None \<Rightarrow> devices_loop r devs
                    | Some (Some d) \<Rightarrow> devices_loop r (devs @ [d]))
               | _ \<Rightarrow> None)
            else devices_loop r devs))"

declare devices_loop.simps [code]

definition parse_devices :: "bytes option \<Rightarrow> int \<Rightarrow> device_data list option" where
  "parse_devices bson_buffer buf_size = do {
     r \<leftarrow> bson_reader_sized bson_buffer buf_size;
     devices_loop r []
   }"

section \<open>Queries\<close>

definition getControl :: "device_data \<Rightarrow> bytes \<Rightarrow> control" where
  "getControl d i = (case find (\<lambda>c. ct_id c = i) (dd_controls d) of Some c \<Rightarrow> c | None \<Rightarrow> new_control)"

definition getInput :: "device_data \<Rightarrow> bytes \<Rightarrow> input_info" where
  "getInput d i = (case find (\<lambda>c. in_id c = i) (dd_inputs d) of Some c \<Rightarrow> c | None \<Rightarrow> new_input)"

definition getFeedback :: "device_data \<Rightarrow> bytes \<Rightarrow> feedback" where
  "getFeedback d i = (case find (\<lambda>c. fb_id c = i) (dd_feedbacks d) of Some c \<Rightarrow> c | None \<Rightarrow> new_feedback)"

definition hasFeedbackType :: "device_data \<Rightarrow> nat \<Rightarrow> bool" where
  "hasFeedbackType d t \<longleftrightarrow> (\<exists>f\<in>set (dd_feedbacks d). fb_type f = t)"

definition getByUid :: "device_data list \<Rightarrow> bytes \<Rightarrow> device_data option" where
  "getByUid devs uid = find (\<lambda>d. dd_uid d = uid) devs"

definition getBySessionId :: "device_data list \<Rightarrow> int \<Rightarrow> device_data option" where
  "getBySessionId devs i = find (\<lambda>d. dd_session_id d = i) devs"

definition getByHidDevicePath :: "device_data list \<Rightarrow> bytes \<Rightarrow> device_data option" where
  "getByHidDevicePath devs path =
     find (\<lambda>d. case dd_usb_info d of None \<Rightarrow> False | Some u \<Rightarrow> hid_device_path u = path) devs"

definition findFirstByFilter :: "device_data list \<Rightarrow> (device_data \<Rightarrow> bool) \<Rightarrow> device_data option" where
  "findFirstByFilter devs f = find f devs"

definition findAllByFilter :: "device_data list \<Rightarrow> (device_data \<Rightarrow> bool) \<Rightarrow> device_data list" where
  "findAllByFilter devs f = filter f devs"

definition findFirstSessionIdByFilter :: "device_data list \<Rightarrow> (device_data \<Rightarrow> bool) \<Rightarrow> int" where
  "findFirstSessionIdByFilter devs f = (case find f devs of Some d \<Rightarrow> dd_session_id d | None \<Rightarrow> 0)"

definition findAllSessionIdsByFilter :: "device_data list \<Rightarrow> (device_data \<Rightarrow> bool) \<Rightarrow> int list" where
  "findAllSessionIdsByFilter devs f = map dd_session_id (filter f devs)"

end
