(* ===== verification/Device_Properties.thy ===== *)
theory Device_Properties
  imports Device_Info
begin

text \<open>
  What the parsers of device information compute: for every loop a function on abstract elements
  (its name ends in \<^verbatim>\<open>_spec\<close>), and an interpretation of the loop contract that relates the two.
\<close>

section \<open>Abstract steps\<close>

fun control_spec :: "bytes \<times> bval \<Rightarrow> control \<Rightarrow> control" where
  "control_spec (k, VStr s) c =
     (if k = ascii ''name'' then c\<lparr>ct_name := s\<rparr>
      else if k = ascii ''role'' then c\<lparr>ct_type := controlTypeFromString s\<rparr>
      else if k = ascii ''parent'' then c\<lparr>ct_parent_id := s\<rparr> else c)"
| "control_spec _ c = c"

fun controls_spec :: "bytes \<times> bval \<Rightarrow> control list \<Rightarrow> control list" where
  "controls_spec (k, VDoc es) cs = cs @ [fold control_spec es (new_control\<lparr>ct_id := k\<rparr>)]"
| "controls_spec _ cs = cs"

fun input_spec :: "int \<Rightarrow> bytes \<times> bval \<Rightarrow> input_info \<Rightarrow> input_info" where
  "input_spec i (k, VStr s) c =
     (if k = ascii ''variable'' then c\<lparr>in_variable := variable_of i s\<rparr>
      else if k = ascii ''role'' then c\<lparr>in_role := inputRoleFromString s\<rparr>
      else if k = ascii ''type'' then c\<lparr>in_type := inputTypeFromString s\<rparr>
      else if k = ascii ''control'' then c\<lparr>in_control := s\<rparr> else c)"
| "input_spec i _ c = c"

fun inputs_spec :: "int \<Rightarrow> bytes \<times> bval \<Rightarrow> input_info list \<Rightarrow> input_info list" where
  "inputs_spec i (k, VDoc es) cs = cs @ [fold (input_spec i) es (new_input\<lparr>in_id := k\<rparr>)]"
| "inputs_spec i _ cs = cs"

fun feedback_spec :: "bytes \<times> bval \<Rightarrow> feedback \<Rightarrow> feedback" where
  "feedback_spec (k, VStr s) c =
     (if k = ascii ''control'' then c\<lparr>fb_control := s\<rparr>
      else if k = ascii ''type'' then c\<lparr>fb_type := feedbackTypeFromString s\<rparr> else c)"
| "feedback_spec (k, VDoc es) c = c\<lparr>fb_parameters := Some (enc_doc es)\<rparr>"
| "feedback_spec _ c = c"

fun feedbacks_spec :: "bytes \<times> bval \<Rightarrow> feedback list \<Rightarrow> feedback list" where
  "feedbacks_spec (k, VDoc es) cs = cs @ [fold feedback_spec es (new_feedback\<lparr>fb_id := k\<rparr>)]"
| "feedbacks_spec _ cs = cs"

fun mapping_spec :: "bytes \<times> bval \<Rightarrow> input_mapping \<Rightarrow> input_mapping" where
  "mapping_spec (k, VStr s) m = (if k = ascii ''input'' then m\<lparr>im_input_id := s\<rparr> else m)"
| "mapping_spec (k, VI32 x) m = m\<lparr>im_device_id := u16 x\<rparr>"
| "mapping_spec _ m = m"

fun mappings_spec :: "bytes \<times> bval \<Rightarrow> input_mapping list \<Rightarrow> input_mapping list" where
  "mappings_spec (k, VDoc es) ms = ms @ [fold mapping_spec es new_mapping]"
| "mappings_spec _ ms = ms"

fun axis_spec :: "bytes \<times> bval \<Rightarrow> hid_axis_input \<Rightarrow> hid_axis_input" where
  "axis_spec (k, VStr s) c = (if k = ascii ''role'' then c\<lparr>ax_role := Some (inputRoleFromString s)\<rparr> else c)"
| "axis_spec (k, VArray es) c =
     (if k = ascii ''mappings'' then c\<lparr>ax_mappings := fold mappings_spec es []\<rparr>
      else if k = ascii ''range'' then
        (case es of (k1, VI32 low) # (k2, VI32 high) # _ \<Rightarrow> c\<lparr>range_high := high, range_low := low\<rparr> | _ \<Rightarrow> c)
      else c)"
| "axis_spec _ c = c"

fun axes_spec :: "bytes \<times> bval \<Rightarrow> hid_axis_input list \<Rightarrow> hid_axis_input list" where
  "axes_spec (k, VDoc es) cs = cs @ [fold axis_spec es new_axis]"
| "axes_spec _ cs = cs"

fun button_spec :: "bytes \<times> bval \<Rightarrow> hid_button_input \<Rightarrow> hid_button_input" where
  "button_spec (k, VStr s) c = (if k = ascii ''role'' then c\<lparr>bt_role := inputRoleFromString s\<rparr> else c)"
| "button_spec (k, VArray es) c = (if k = ascii ''mappings'' then c\<lparr>bt_mappings := fold mappings_spec es []\<rparr> else c)"
| "button_spec _ c = c"

fun buttons_spec :: "bytes \<times> bval \<Rightarrow> hid_button_input list \<Rightarrow> hid_button_input list" where
  "buttons_spec (k, VDoc es) cs = cs @ [fold button_spec es new_button]"
| "buttons_spec _ cs = cs"

fun hid_spec :: "bytes \<times> bval \<Rightarrow> hid_axis_input list \<times> hid_button_input list \<Rightarrow> hid_axis_input list \<times> hid_button_input list" where
  "hid_spec (k, VArray es) h =
     (if k = ascii ''axis'' then (fold axes_spec es [], snd h)
      else if k = ascii ''buttons'' then (fst h, fold buttons_spec es []) else h)"
| "hid_spec _ h = h"

fun device_spec :: "bytes \<times> bval \<Rightarrow> device_data \<times> usb_device_info \<Rightarrow> device_data \<times> usb_device_info" where
  "device_spec (k, VDoc es) (d, usb) =
     (if k = ascii ''control'' then (d\<lparr>dd_controls := fold controls_spec es []\<rparr>, usb)
      else if k = ascii ''input'' then (d\<lparr>dd_inputs := fold (inputs_spec (dd_session_id d)) es []\<rparr>, usb)
      else if k = ascii ''feedback'' then (d\<lparr>dd_feedbacks := fold feedbacks_spec es []\<rparr>, usb)
      else if k = ascii ''hid_input'' then
        (d\<lparr>dd_hid_axis := fst (fold hid_spec es ([], [])), dd_hid_buttons := snd (fold hid_spec es ([], []))\<rparr>, usb)
      else (d, usb))"
| "device_spec (k, VStr s) (d, usb) =
     (if k = ascii ''role'' then (d\<lparr>dd_role := deviceRoleFromString s\<rparr>, usb)
      else if k = ascii ''usb_path'' then (d, usb\<lparr>hid_device_path := s\<rparr>) else (d, usb))"
| "device_spec (k, VI32 x) (d, usb) =
     (if k = ascii ''usb_pid'' then (d, usb\<lparr>usb_pid := u16 x\<rparr>)
      else if k = ascii ''usb_vid'' then (d, usb\<lparr>usb_vid := u16 x\<rparr>) else (d, usb))"
| "device_spec (k, VBool b) (d, usb) =
     (if k = ascii ''is_connected'' then (d\<lparr>dd_is_connected := b\<rparr>, usb) else (d, usb))"
| "device_spec _ du = du"

section \<open>Bodies that read one value\<close>

lemma on_item_at: "on_item r k v es \<Longrightarrow> at_elems r es"
  by (simp add: on_item_def)

lemma simple_body:
  assumes "\<And>r k v es s. on_item r k v es \<Longrightarrow> length (doc_layers r) = d \<Longrightarrow> body (val_type v) r s = Some (r, step (k, v) s)"
  shows "element_loop body step d"
  using assms on_item_at by unfold_locales fastforce

lemma subdoc_bytes_item:
  assumes "on_item r k (VDoc sub) es"
  shows "subdoc_bytes r = Some (Some (enc_doc sub))"
proof -
  have "subdocument r = Some (Some (buf_offset r, int (length (enc_doc sub))))" using assms by (simp add: on_item_def)
  moreover have "at_pos (buffer r) (buf_offset r) (enc_doc sub)" using assms by (simp add: on_item_def enc_doc_def)
  ultimately show ?thesis using at_pos_rd_bytes [of "buffer r" "buf_offset r" "enc_doc sub"] by (simp add: subdoc_bytes_def)
qed

interpretation control_fields: element_loop control_field control_spec 2
proof (rule simple_body)
  fix r k v es s assume "on_item r k v es"
  then show "control_field (val_type v) r s = Some (r, control_spec (k, v) s)"
    by (cases v) (auto simp: on_item_def control_field_def)
qed

interpretation input_fields: element_loop "input_field i" "input_spec i" 2 for i
proof (rule simple_body)
  fix r k v es s assume "on_item r k v es"
  then show "input_field i (val_type v) r s = Some (r, input_spec i (k, v) s)"
    by (cases v) (auto simp: on_item_def input_field_def)
qed

interpretation feedback_fields: element_loop feedback_field feedback_spec 2
proof (rule simple_body)
  fix r k v es s assume "on_item r k v es"
  then show "feedback_field (val_type v) r s = Some (r, feedback_spec (k, v) s)"
    using subdoc_bytes_item [of r k _ es] by (cases v) (auto simp: on_item_def feedback_field_def)
qed

interpretation mapping_fields: element_loop mapping_field mapping_spec 5
proof (rule simple_body)
  fix r k v es s assume "on_item r k v es"
  then show "mapping_field (val_type v) r s = Some (r, mapping_spec (k, v) s)"
    by (cases v) (auto simp: on_item_def mapping_field_def)
qed

section \<open>Lists of subdocuments\<close>

text \<open>A body that parses every subdocument into an item and skips the rest.\<close>

lemma list_body:
  assumes loop: "element_loop field step d'" and d: "d' = Suc d" "d' \<le> k_max_subdocs"
    and body: "\<And>e r cs. body e r cs = (if e \<noteq> ELEMENT_DOC then Some (r, cs)
       else do { (r', c) \<leftarrow> each_sub field r (init (rd_key r)); Some (r', cs @ [c]) })"
    and spec: "\<And>k v cs. spec (k, v) cs = (case v of VDoc es \<Rightarrow> cs @ [fold step es (init k)] | _ \<Rightarrow> cs)"
  shows "element_loop body spec d"
proof
  fix r k v es cs
  assume on: "on_item r k v es" and l: "length (doc_layers r) = d"
  have k: "rd_key r = k" using on by (simp add: on_item_def)
  show "\<exists>r2. body (val_type v) r cs = Some (r2, spec (k, v) cs) \<and> at_elems r2 es \<and> stay r r2"
  proof (cases "\<exists>sub. v = VDoc sub")
    case True
    then obtain sub where v: "v = VDoc sub" ..
    then show ?thesis
      using element_loop.each_sub_elems [OF loop on, of sub "init k"] l d k by (auto simp: body spec)
  next
    case False
    then have "val_type v \<noteq> ELEMENT_DOC" "spec (k, v) cs = cs" by (cases v; simp add: spec)+
    then show ?thesis using on_item_at [OF on] by (simp add: body)
  qed
qed

interpretation controls: element_loop control_item controls_spec 1
  by (rule list_body [OF control_fields.element_loop_axioms, where init = "\<lambda>k. new_control\<lparr>ct_id := k\<rparr>"])
    (simp_all add: k_max_subdocs_def control_item_def split: bval.splits)

interpretation inputs: element_loop "input_item i" "inputs_spec i" 1 for i
  by (rule list_body [OF input_fields.element_loop_axioms [of i], where init = "\<lambda>k. new_input\<lparr>in_id := k\<rparr>"])
    (simp_all add: k_max_subdocs_def input_item_def split: bval.splits)

interpretation feedbacks: element_loop feedback_item feedbacks_spec 1
  by (rule list_body [OF feedback_fields.element_loop_axioms, where init = "\<lambda>k. new_feedback\<lparr>fb_id := k\<rparr>"])
    (simp_all add: k_max_subdocs_def feedback_item_def split: bval.splits)

interpretation mappings: element_loop mapping_item mappings_spec 4
  by (rule list_body [OF mapping_fields.element_loop_axioms, where init = "\<lambda>k. new_mapping"])
    (simp_all add: k_max_subdocs_def mapping_item_def split: bval.splits)

section \<open>Nested arrays\<close>

lemma bind_sub_each:
  "do { (ok, r) \<leftarrow> beginSub r; (r, xs) \<leftarrow> do { (e, r, xs) \<leftarrow> each body r s; Some (r, xs) }; Some (snd (endSub r), f xs) } =
   do { (r, xs) \<leftarrow> each_sub body r s; Some (r, f xs) }"
  by (auto simp: each_sub_def split: bind_splits prod.splits)

lemma mappings_array:
  assumes "on_item r k (VArray sub) es" "length (doc_layers r) = 3"
  shows "\<exists>r2. do { (ok, r) \<leftarrow> beginSub r; (r, ms) \<leftarrow> parseMappings r; Some (snd (endSub r), f ms) } = Some (r2, f (fold mappings_spec sub [])) \<and>
    at_elems r2 es \<and> stay r r2"
  using mappings.each_sub_elems [OF assms(1), of sub "[]"] assms(2)
  unfolding parseMappings_def bind_sub_each by (auto simp: k_max_subdocs_def)

lemma axis_range_elems:
  assumes "at_elems r es"
  shows "\<exists>r2. axis_range r c = Some (r2, (case es of (k1, VI32 low) # (k2, VI32 high) # _ \<Rightarrow> c\<lparr>range_high := high, range_low := low\<rparr> | _ \<Rightarrow> c)) \<and> stay r r2"
proof (cases es)
  case Nil
  then show ?thesis using next_end [of r] assms by (auto simp: axis_range_def same_doc_stay)
next
  case (Cons kv fs)
  obtain k1 v1 where kv: "kv = (k1, v1)" by force
  obtain r1 where r1: "bson_next r = Some (val_type v1, r1)" "on_item r1 k1 v1 fs" "same_doc r r1"
    using next_item [OF assms [unfolded Cons kv]] by blast
  show ?thesis
  proof (cases "\<exists>low. v1 = VI32 low")
    case False
    then show ?thesis using r1 same_doc_stay [OF r1(3)] by (cases v1) (simp_all add: Cons kv axis_range_def)
  next
    case True
    then obtain low where v1: "v1 = VI32 low" ..
    have low: "int32Value r1 = Some low" "at_elems r1 fs" using r1(2) by (simp_all add: on_item_def v1)
    show ?thesis
    proof (cases fs)
      case Nil
      then obtain r2 where "bson_next r1 = Some (ELEMENT_END, r2)" "same_doc r1 r2" using next_end [of r1] low(2) by auto
      then show ?thesis using r1 low Nil same_doc_stay stay_trans by (fastforce simp: Cons kv v1 axis_range_def)
    next
      case (Cons kv2 gs)
      obtain k2 v2 where kv2: "kv2 = (k2, v2)" by force
      obtain r2 where r2: "bson_next r1 = Some (val_type v2, r2)" "on_item r2 k2 v2 gs" "same_doc r1 r2"
        using next_item [OF low(2) [unfolded Cons kv2]] by blast
      have st: "stay r r2" using r1(3) r2(3) same_doc_stay stay_trans by blast
      have "reads_value r2 v2" using r2(2) by (simp add: on_item_def)
      then show ?thesis using r1(1) r2(1) low(1) st by (cases v2) (simp_all add: \<open>es = kv # fs\<close> kv v1 Cons kv2 axis_range_def)
    qed
  qed
qed

lemma range_array:
  assumes "on_item r k (VArray sub) es" "length (doc_layers r) = 3"
  shows "\<exists>r2. do { (ok, r) \<leftarrow> beginSub r; (r, c) \<leftarrow> axis_range r c; Some (snd (endSub r), c) } =
      Some (r2, (case sub of (k1, VI32 low) # (k2, VI32 high) # _ \<Rightarrow> c\<lparr>range_high := high, range_low := low\<rparr> | _ \<Rightarrow> c)) \<and>
    at_elems r2 es \<and> stay r r2"
proof -
  obtain r2 where r2: "beginSub r = Some (True, r2)" "at_elems r2 sub"
    "\<forall>r3. stay r2 r3 \<longrightarrow> fst (endSub r3) \<and> at_elems (snd (endSub r3)) es \<and> stay r (snd (endSub r3))"
    using enter_leave [OF assms(1), of sub] assms(2) by (auto simp: k_max_subdocs_def)
  show ?thesis using axis_range_elems [OF r2(2), of c] r2 by auto
qed

interpretation axis_fields: element_loop axis_field axis_spec 3
proof
  fix r k v es c assume on: "on_item r k v es" and l: "length (doc_layers r) = 3"
  have k: "rd_key r = k" "at_elems r es" "reads_value r v" using on by (simp_all add: on_item_def)
  have kd: "ascii ''mappings'' \<noteq> ascii ''range''" by (simp add: ascii_eq)
  show "\<exists>r2. axis_field (val_type v) r c = Some (r2, axis_spec (k, v) c) \<and> at_elems r2 es \<and> stay r r2"
  proof (cases v)
    case (VArray sub)
    note on' = on [unfolded VArray]
    show ?thesis using mappings_array [OF on' l, of "\<lambda>ms. c\<lparr>ax_mappings := ms\<rparr>"] range_array [OF on' l, of c] k kd
      by (auto simp: VArray axis_field_def)
  qed (use k in \<open>auto simp: axis_field_def\<close>)
qed

interpretation button_fields: element_loop button_field button_spec 3
proof
  fix r k v es c assume on: "on_item r k v es" and l: "length (doc_layers r) = 3"
  have k: "rd_key r = k" "at_elems r es" "reads_value r v" using on by (simp_all add: on_item_def)
  show "\<exists>r2. button_field (val_type v) r c = Some (r2, button_spec (k, v) c) \<and> at_elems r2 es \<and> stay r r2"
  proof (cases v)
    case (VArray sub)
    show ?thesis using mappings_array [OF on [unfolded VArray] l, of "\<lambda>ms. c\<lparr>bt_mappings := ms\<rparr>"] k
      by (auto simp: VArray button_field_def)
  qed (use k in \<open>auto simp: button_field_def\<close>)
qed

interpretation axes: element_loop axis_item axes_spec 2
  by (rule list_body [OF axis_fields.element_loop_axioms, where init = "\<lambda>k. new_axis"])
    (simp_all add: k_max_subdocs_def axis_item_def split: bval.splits)

interpretation buttons: element_loop button_item buttons_spec 2
  by (rule list_body [OF button_fields.element_loop_axioms, where init = "\<lambda>k. new_button"])
    (simp_all add: k_max_subdocs_def button_item_def split: bval.splits)

interpretation hid_inputs: element_loop hid_item hid_spec 1
proof
  fix r k v es h assume on: "on_item r k v es" and l: "length (doc_layers r) = 1"
  have k: "rd_key r = k" "at_elems r es" using on by (simp_all add: on_item_def)
  have kd: "ascii ''axis'' \<noteq> ascii ''buttons''" by (simp add: ascii_eq)
  show "\<exists>r2. hid_item (val_type v) r h = Some (r2, hid_spec (k, v) h) \<and> at_elems r2 es \<and> stay r r2"
  proof (cases v)
    case (VArray sub)
    note on' = on [unfolded VArray]
    show ?thesis
      using axes.each_sub_elems [OF on', of sub "[]"] buttons.each_sub_elems [OF on', of sub "[]"] l k kd
      unfolding VArray hid_item_def parseHidAxisInputs_def parseHidButtonInputs_def bind_sub_each
      by (auto simp: k_max_subdocs_def)
  qed (use k in \<open>simp_all add: hid_item_def\<close>)
qed

section \<open>One device\<close>

lemma device_keys:
  "ascii ''control'' \<noteq> ascii ''input''" "ascii ''control'' \<noteq> ascii ''feedback''" "ascii ''control'' \<noteq> ascii ''hid_input''"
  "ascii ''input'' \<noteq> ascii ''feedback''" "ascii ''input'' \<noteq> ascii ''hid_input''" "ascii ''feedback'' \<noteq> ascii ''hid_input''"
  "ascii ''role'' \<noteq> ascii ''usb_path''" "ascii ''usb_pid'' \<noteq> ascii ''usb_vid''"
  by (simp_all add: ascii_eq)

lemma device_sub_elems:
  assumes "at_elems r sub" "length (doc_layers r) = 1"
  shows "\<exists>r3. device_sub r d = Some (r3, fst (device_spec (rd_key r, VDoc sub) (d, usb))) \<and> stay r r3"
proof -
  consider "rd_key r = ascii ''control''" | "rd_key r = ascii ''input''" | "rd_key r = ascii ''feedback''" | "rd_key r = ascii ''hid_input''"
    | "rd_key r \<notin> {ascii ''control'', ascii ''input'', ascii ''feedback'', ascii ''hid_input''}" by blast
  then show ?thesis
  proof cases
    case 1
    then show ?thesis using controls.each_elems [OF assms, of "[]"] by (auto simp: device_sub_def parseControls_def)
  next
    case 2
    then show ?thesis using inputs.each_elems [OF assms, of "dd_session_id d" "[]"] device_keys by (auto simp: device_sub_def parseInputs_def)
  next
    case 3
    then show ?thesis using feedbacks.each_elems [OF assms, of "[]"] device_keys by (auto simp: device_sub_def parseFeedbacks_def)
  next
    case 4
    obtain r3 where "each hid_item r ([], []) = Some (ELEMENT_END, r3, fold hid_spec sub ([], []))" "stay r r3"
      using hid_inputs.each_elems [OF assms, of "([], [])"] by blast
    then show ?thesis using 4 device_keys by (cases "fold hid_spec sub ([], [])") (simp add: device_sub_def parseHidInputs_def)
  next
    case 5
    then show ?thesis by (auto simp: device_sub_def)
  qed
qed

interpretation device_items: element_loop device_item device_spec 0
proof
  fix r k v es and du :: "device_data \<times> usb_device_info"
  assume on: "on_item r k v es" and l: "length (doc_layers r) = 0"
  obtain d usb where du: "du = (d, usb)" by force
  have k: "rd_key r = k" "at_elems r es" "reads_value r v" using on by (simp_all add: on_item_def)
  show "\<exists>r2. device_item (val_type v) r du = Some (r2, device_spec (k, v) du) \<and> at_elems r2 es \<and> stay r r2"
  proof (cases v)
    case (VDoc sub)
    obtain r2 where r2: "beginSub r = Some (True, r2)" "at_elems r2 sub" "length (doc_layers r2) = 1" "rd_key r2 = k"
      "\<forall>r3. stay r2 r3 \<longrightarrow> fst (endSub r3) \<and> at_elems (snd (endSub r3)) es \<and> stay r (snd (endSub r3))"
      using enter_leave [OF on, of sub] VDoc l k(1) by (auto simp: k_max_subdocs_def)
    obtain r3 where r3: "device_sub r2 d = Some (r3, fst (device_spec (k, VDoc sub) (d, usb)))" "stay r2 r3"
      using device_sub_elems [OF r2(2,3), of d usb] r2(4) by auto
    have "snd (device_spec (k, VDoc sub) (d, usb)) = usb" by simp
    then have "device_item (val_type v) r du = Some (snd (endSub r3), device_spec (k, v) du)"
      using r2(1) r3(1) by (simp add: du VDoc device_item_def prod_eq_iff)
    then show ?thesis using r2(5) r3(2) by blast
  qed (use k in \<open>auto simp: du device_item_def\<close>)
qed

text \<open>The device that comes out of a document. Only the elements behind the unique id are looked at;
  \<open>described_device\<close> below says what the document describes.\<close>

definition device_of :: "bdoc \<Rightarrow> device_data option option" where
  "device_of es = (case from_key (ascii ''logical_id'') es of
     [] \<Rightarrow> Some None
   | (_, v) # _ \<Rightarrow> do {
       i \<leftarrow> val_i32 v;
       (case i of
          None \<Rightarrow> Some None
        | Some i \<Rightarrow> (case from_key (ascii ''device_uid'') es of
            (_, VStr uid) # rest \<Rightarrow>
              (let (d, usb) = fold device_spec rest (new_data\<lparr>dd_session_id := u16 i, dd_uid := uid\<rparr>, new_usb_info)
               in Some (Some (d\<lparr>dd_usb_info := (if hid_device_path usb \<noteq> [] then Some usb else None)\<rparr>)))
          | _ \<Rightarrow> Some None))
     })"

lemma find_i32:
  assumes "in_doc r es"
  shows "case from_key k es of
      [] \<Rightarrow> \<exists>r'. tryFindAndGet tryGetValue_i32 k r = Some (None, r')
    | (_, v) # rest \<Rightarrow> (case val_i32 v of None \<Rightarrow> tryFindAndGet tryGetValue_i32 k r = None
        | Some x \<Rightarrow> \<exists>r'. tryFindAndGet tryGetValue_i32 k r = Some (x, r') \<and> in_doc r' es \<and> same_doc r r')"
proof -
  obtain t r' where s: "seekKey k r = Some (t, r')"
    "case from_key k es of [] \<Rightarrow> t = ELEMENT_END | (k', v) # post \<Rightarrow> t = val_type v \<and> on_item r' k v post \<and> same_doc r r' \<and> in_doc r' es"
    using seekKey_item [OF assms, of k] by blast
  show ?thesis
  proof (cases "from_key k es")
    case Nil
    then show ?thesis using s by (simp add: tryFindAndGet_def isEndOrError_def)
  next
    case (Cons kv post)
    obtain k' v where kv: "kv = (k', v)" by force
    have t: "t = val_type v" "on_item r' k v post" "same_doc r r'" "in_doc r' es" using s(2) Cons kv by simp_all
    have "\<not> isEndOrError t" using t(1) val_type_pos [of v] by (cases v) (auto simp: isEndOrError_def)
    moreover have "tryGetValue_i32 r' = val_i32 v" using t(2) tryGetValue_i32_val by (simp add: on_item_def)
    ultimately show ?thesis using s(1) t Cons kv by (auto simp: tryFindAndGet_def split: option.splits)
  qed
qed

lemma find_string:
  assumes "in_doc r es"
  shows "case from_key k es of
      (_, VStr x) # rest \<Rightarrow> \<exists>r'. tryFindAndGet tryGetValue_string k r = Some (Some x, r') \<and> on_item r' k (VStr x) rest \<and> in_doc r' es \<and> same_doc r r'
    | _ \<Rightarrow> \<exists>r'. tryFindAndGet tryGetValue_string k r = Some (None, r')"
proof -
  obtain t r' where s: "seekKey k r = Some (t, r')"
    "case from_key k es of [] \<Rightarrow> t = ELEMENT_END | (k', v) # post \<Rightarrow> t = val_type v \<and> on_item r' k v post \<and> same_doc r r' \<and> in_doc r' es"
    using seekKey_item [OF assms, of k] by blast
  show ?thesis
  proof (cases "from_key k es")
    case Nil
    then show ?thesis using s by (simp add: tryFindAndGet_def isEndOrError_def)
  next
    case (Cons kv post)
    obtain k' v where kv: "kv = (k', v)" by force
    have t: "t = val_type v" "on_item r' k v post" "same_doc r r'" "in_doc r' es" using s(2) Cons kv by simp_all
    have "\<not> isEndOrError t" using t(1) val_type_pos [of v] by (cases v) (auto simp: isEndOrError_def)
    moreover have "tryGetValue_string r' = Some (case v of VStr s \<Rightarrow> Some s | _ \<Rightarrow> None)"
      using t(2) tryGetValue_string_val by (simp add: on_item_def)
    ultimately show ?thesis using s(1) t Cons kv by (cases v) (auto simp: tryFindAndGet_def)
  qed
qed

lemma device_parse_doc:
  assumes "wf_elems es" "int (length (enc_doc es @ post)) < 2147483640"
  shows "device_parse (enc_doc es @ post) = device_of es"
proof -
  obtain r where r: "bson_reader_unsized (Some (enc_doc es @ post)) = Some r" "in_doc r es" "doc_layers r = []"
    using unsized_in_doc [OF assms] by blast
  show ?thesis
  proof (cases "from_key (ascii ''logical_id'') es")
    case Nil
    then show ?thesis using find_i32 [OF r(2), of "ascii ''logical_id''"] r(1) by (auto simp: device_parse_def device_of_def)
  next
    case (Cons kv rest)
    obtain k v where kv: "kv = (k, v)" by force
    note F = find_i32 [OF r(2), of "ascii ''logical_id''", unfolded Cons kv list.case prod.case]
    have d: "device_of es = do { i \<leftarrow> val_i32 v;
       (case i of None \<Rightarrow> Some None
        | Some i \<Rightarrow> (case from_key (ascii ''device_uid'') es of
            (_, VStr uid) # rest \<Rightarrow>
              (let (d, usb) = fold device_spec rest (new_data\<lparr>dd_session_id := u16 i, dd_uid := uid\<rparr>, new_usb_info)
               in Some (Some (d\<lparr>dd_usb_info := (if hid_device_path usb \<noteq> [] then Some usb else None)\<rparr>)))
          | _ \<Rightarrow> Some None)) }" by (simp add: device_of_def Cons kv)
    show ?thesis
    proof (cases "val_i32 v")
      case None
      then show ?thesis using F r(1) d by (simp add: device_parse_def)
    next
      case (Some x)
      then obtain r1 where r1: "tryFindAndGet tryGetValue_i32 (ascii ''logical_id'') r = Some (x, r1)" "in_doc r1 es" "same_doc r r1"
        using F by auto
      show ?thesis
      proof (cases x)
        case None
        then show ?thesis using r(1) r1(1) d Some by (simp add: device_parse_def)
      next
        case (Some i)
        note S = find_string [OF r1(2), of "ascii ''device_uid''"]
        show ?thesis
        proof (cases "\<exists>k2 u rest. from_key (ascii ''device_uid'') es = (k2, VStr u) # rest")
          case False
          then have "\<exists>r'. tryFindAndGet tryGetValue_string (ascii ''device_uid'') r1 = Some (None, r')"
          proof (cases "from_key (ascii ''device_uid'') es")
            case (Cons a l)
            then show ?thesis using S False by (cases a; cases "snd a") auto
          qed (use S in simp)
          moreover have "device_of es = Some None"
          proof (cases "from_key (ascii ''device_uid'') es")
            case (Cons a l)
            then show ?thesis using d \<open>val_i32 v = Some x\<close> Some False by (cases a; cases "snd a") auto
          qed (use d \<open>val_i32 v = Some x\<close> Some in simp)
          ultimately show ?thesis using r(1) r1(1) Some by (auto simp: device_parse_def)
        next
          case True
          then obtain k2 u rest2 where fk: "from_key (ascii ''device_uid'') es = (k2, VStr u) # rest2" by blast
          obtain r2 where r2: "tryFindAndGet tryGetValue_string (ascii ''device_uid'') r1 = Some (Some u, r2)" "at_elems r2 rest2" "same_doc r1 r2"
            using S unfolding fk list.case prod.case bval.case by (auto simp: on_item_def)
          have l2: "length (doc_layers r2) = 0" using r(3) r1(3) r2(3) by (simp add: same_doc_def)
          let ?s = "(new_data\<lparr>dd_session_id := u16 i, dd_uid := u\<rparr>, new_usb_info)"
          obtain r3 where r3: "each device_item r2 ?s = Some (ELEMENT_END, r3, fold device_spec rest2 ?s)" "cur_type r3 = ELEMENT_END"
            using device_items.each_elems [OF r2(2) l2, of ?s] by blast
          have "\<not> reader_error r3" using r3(2) by (simp add: reader_error_def)
          then show ?thesis using r(1) r1(1) r2(1) r3(1) d \<open>val_i32 v = Some x\<close> Some
            by (cases "fold device_spec rest2 ?s") (simp add: device_parse_def fk)
        qed
      qed
    qed
  qed
qed

section \<open>All devices\<close>

fun devices_of :: "bdoc \<Rightarrow> device_data list \<Rightarrow> device_data list option" where
  "devices_of [] devs = Some devs"
| "devices_of ((k, VDoc es) # ds) devs = (case device_of es of
     None \<Rightarrow> None
   | Some None \<Rightarrow> devices_of ds devs
   | Some (Some d) \<Rightarrow> devices_of ds (devs @ [d]))"
| "devices_of (_ # ds) devs = devices_of ds devs"

lemma at_elems_not_end: "at_elems r es \<Longrightarrow> \<not> atEnd r"
  by (cases "cur_type r") (auto simp: at_elems_def ready_def atEnd_def reader_error_def)

lemma devices_loop_elems: "at_elems r ds \<Longrightarrow> devices_loop r devs = devices_of ds devs"
proof (induction ds arbitrary: r devs)
  case Nil
  then obtain r1 where r1: "bson_next r = Some (ELEMENT_END, r1)" "cur_type r1 = ELEMENT_END" using next_end by blast
  have "devices_loop r1 devs = Some devs" using r1(2) by (simp add: devices_loop.simps [of r1] atEnd_def)
  then show ?case using at_elems_not_end [OF Nil] r1(1) by (simp add: devices_loop.simps [of r])
next
  case (Cons kv ds)
  obtain k v where kv: "kv = (k, v)" by force
  obtain r1 where r1: "bson_next r = Some (val_type v, r1)" "on_item r1 k v ds" using next_item [OF Cons.prems [unfolded kv]] by blast
  note IH = Cons.IH [OF on_item_at [OF r1(2)]]
  have ne: "\<not> atEnd r" by (rule at_elems_not_end [OF Cons.prems])
  show ?case
  proof (cases "\<exists>es. v = VDoc es")
    case True
    then obtain es where v: "v = VDoc es" ..
    have sub: "subdocument r1 = Some (Some (buf_offset r1, int (length (enc_doc es))))" and wf: "wf_elems es"
      and at: "at_pos (buffer r1) (buf_offset r1) (enc_doc es)" and bl: "int (length (buffer r1)) < 2147483640"
      using r1(2) by (auto simp: on_item_def v enc_doc_def at_elems_def ready_def)
    obtain pre post where "buffer r1 = pre @ enc_doc es @ post" "buf_offset r1 = int (length pre)" using at by (auto simp: at_pos_def)
    then have dr: "drop (nat (buf_offset r1)) (buffer r1) = enc_doc es @ post" by simp
    have "int (length (enc_doc es @ post)) < 2147483640" using bl arg_cong [OF dr, of length] by simp
    then have "device_parse (drop (nat (buf_offset r1)) (buffer r1)) = device_of es" unfolding dr by (rule device_parse_doc [OF wf])
    then show ?thesis using ne r1(1) sub IH by (simp add: devices_loop.simps [of r] kv v split: option.splits)
  next
    case False
    then have "val_type v \<noteq> ELEMENT_DOC" "devices_of (kv # ds) devs = devices_of ds devs" by (cases v; simp add: kv)+
    then show ?thesis using ne r1(1) IH by (simp add: devices_loop.simps [of r])
  qed
qed

lemma parse_devices_enc:
  assumes "wf_elems ds" "int (length (enc_doc ds)) < 2147483640"
  shows "parse_devices (Some (enc_doc ds)) (int (length (enc_doc ds))) = devices_of ds []"
proof -
  note R = enc_doc_reader [OF assms(2)]
  let ?r = "(reader_members (enc_doc ds) (int (length (enc_doc ds))))\<lparr>cur_type := ELEMENT_INTERNAL_DOC_BEGIN, buf_offset := 4, cur_doc_begin := 4,
     cur_doc_end := int (length (enc_doc ds))\<rparr>"
  have "at_elems ?r ds" using R(3-5) assms(1) by (auto simp: at_elems_def)
  then show ?thesis using R(1) devices_loop_elems [of ?r ds "[]"] by (simp add: parse_devices_def)
qed

section \<open>What a document describes\<close>

text \<open>The description does not depend on where the elements stand: the values of \<^verbatim>\<open>logical_id\<close> and
  \<^verbatim>\<open>device_uid\<close> are those of their keys, and every element counts.\<close>

definition described_device :: "bdoc \<Rightarrow> device_data option" where
  "described_device es = (case (map_of es (ascii ''logical_id''), map_of es (ascii ''device_uid'')) of
     (Some v, Some (VStr uid)) \<Rightarrow>
       (case val_i32 v of
          Some (Some i) \<Rightarrow>
            (let (d, usb) = fold device_spec es (new_data\<lparr>dd_session_id := u16 i, dd_uid := uid\<rparr>, new_usb_info)
             in Some (d\<lparr>dd_usb_info := (if hid_device_path usb \<noteq> [] then Some usb else None)\<rparr>))
        | _ \<Rightarrow> None)
   | _ \<Rightarrow> None)"

definition described_devices :: "bdoc \<Rightarrow> device_data list" where
  "described_devices = List.map_filter (\<lambda>(k, v). case v of VDoc es \<Rightarrow> described_device es | _ \<Rightarrow> None)"

text \<open>Documents the parser reads in full: no data of the device stands in front of its unique id, and
  a logical id given as a double is in the range of the conversion.\<close>

definition data_keys :: "bytes list" where
  "data_keys = map ascii [''control'', ''input'', ''feedback'', ''hid_input'', ''role'', ''usb_path'', ''usb_pid'', ''usb_vid'', ''is_connected'']"

definition uid_first :: "bdoc \<Rightarrow> bool" where
  "uid_first es \<longleftrightarrow> (\<forall>(k, v)\<in>set (before_key (ascii ''device_uid'') es). k \<notin> set data_keys)"

definition id_in_range :: "bdoc \<Rightarrow> bool" where
  "id_in_range es \<longleftrightarrow> (case map_of es (ascii ''logical_id'') of Some v \<Rightarrow> val_i32 v \<noteq> None | None \<Rightarrow> True)"

lemma from_key_map_of: "map_of es k = (case from_key k es of [] \<Rightarrow> None | (k', v) # _ \<Rightarrow> Some v)"
  by (induction k es rule: from_key.induct) auto

lemma from_key_head: "from_key k es = (k', v) # rest \<Longrightarrow> k' = k"
  by (induction k es rule: from_key.induct) (auto split: if_splits)

lemma device_spec_other: "k \<notin> set data_keys \<Longrightarrow> device_spec (k, v) s = s"
  by (cases s; cases v) (simp_all add: data_keys_def)

lemma fold_device_skip: "\<forall>(k, v)\<in>set es. k \<notin> set data_keys \<Longrightarrow> fold device_spec es s = s"
  by (induction es) (auto simp: device_spec_other)

lemma device_of_described:
  assumes "uid_first es" "id_in_range es"
  shows "device_of es = Some (described_device es)"
proof -
  have f: "fold device_spec es s = fold device_spec rest s" if "from_key (ascii ''device_uid'') es = (k, v) # rest" for k v rest s
  proof -
    have "k \<notin> set data_keys" using from_key_head [OF that] by (simp add: data_keys_def ascii_eq)
    then have "fold device_spec (before_key (ascii ''device_uid'') es @ (k, v) # rest) s = fold device_spec rest s"
      using fold_device_skip assms(1) by (simp add: uid_first_def device_spec_other)
    then show ?thesis using split_key [of "ascii ''device_uid''" es] unfolding that by (simp only:)
  qed
  show ?thesis
    using assms(2) f
    by (auto simp: id_in_range_def device_of_def described_device_def from_key_map_of split: list.splits bval.splits option.splits prod.splits)
qed

lemma devices_of_described:
  assumes "\<forall>(k, v)\<in>set ds. case v of VDoc es \<Rightarrow> uid_first es \<and> id_in_range es | _ \<Rightarrow> True"
  shows "devices_of ds devs = Some (devs @ described_devices ds)"
  using assms
proof (induction ds devs rule: devices_of.induct)
  case (2 k es ds devs)
  then have "device_of es = Some (described_device es)" by (intro device_of_described) simp_all
  then show ?case using 2 by (cases "described_device es") (simp_all add: described_devices_def map_filter_def)
qed (simp_all add: described_devices_def map_filter_def)


definition wit_device :: bdoc where
  "wit_device = [(ascii ''0'', VDoc [(ascii ''logical_id'', VI32 3), (ascii ''device_uid'', VStr [65]),
     (ascii ''role'', VStr (ascii ''hub'')), (ascii ''control'', VDoc [(ascii ''b1'', VDoc [(ascii ''role'', VStr (ascii ''button''))])])])]"


text \<open>The order of the elements matters: of a document with a role in front of the unique id the code
  makes a device whose role has the number zero, a wheel, and not the hub that the document describes.\<close>

lemma role_before_uid_lost:
  "map_option (map_option dd_role) (device_of [(ascii ''role'', VStr (ascii ''hub'')), (ascii ''logical_id'', VI32 3), (ascii ''device_uid'', VStr [65])]) =
   Some (Some (enumerator DeviceRole ''wheel''))"
  "map_option dd_role (described_device [(ascii ''role'', VStr (ascii ''hub'')), (ascii ''logical_id'', VI32 3), (ascii ''device_uid'', VStr [65])]) =
   Some (enumerator DeviceRole ''hub'')"
proof -
  have "enumerator DeviceRole ''wheel'' = 0" "enumerator DeviceRole ''hub'' = 8" "deviceRoleFromString (ascii ''hub'') = 8" by code_simp+
  then show "map_option (map_option dd_role) (device_of [(ascii ''role'', VStr (ascii ''hub'')), (ascii ''logical_id'', VI32 3), (ascii ''device_uid'', VStr [65])]) =
   Some (Some (enumerator DeviceRole ''wheel''))"
  "map_option dd_role (described_device [(ascii ''role'', VStr (ascii ''hub'')), (ascii ''logical_id'', VI32 3), (ascii ''device_uid'', VStr [65])]) =
   Some (enumerator DeviceRole ''hub'')" by (simp_all add: device_of_def described_device_def ascii_eq new_data_def)
qed

text \<open>A logical id that is a double out of range is converted with undefined behaviour.\<close>

lemma logical_id_double_out_of_range:
  "device_of [(ascii ''logical_id'', VDouble 0x7FF0000000000000), (ascii ''device_uid'', VStr [65])] = None"
  by (simp add: device_of_def) code_simp

end
