(* ===== verification/Commands.thy ===== *)
theory Commands
  imports Bson_Builder_Spec Session_Packets
begin

text \<open>
  core/src/command.cpp: a command request is a BSON builder (its base class) over a vector of its
  own, so a request is the builder's record and the vector \<^verbatim>\<open>buffer_\<close> is its memory. The calls
  between \<^verbatim>\<open>initialize\<close> and \<^verbatim>\<open>finalize\<close> fill the body. The results of the builder's operations
  are not looked at. A failed assertion is \<^term>\<open>None\<close>.
\<close>

section \<open>Requests\<close>

definition call :: "(bool \<times> bson_builder) option \<Rightarrow> bson_builder option" where
  "call r = map_option snd r"

definition command_request :: bson_builder where
  "command_request = bson_builder_default"

definition cr_initialize :: "(nat \<Rightarrow> nat \<Rightarrow> nat) \<Rightarrow> bytes \<Rightarrow> bytes \<Rightarrow> bson_builder \<Rightarrow> bson_builder option" where
  "cr_initialize grow service command b = do {
     let b = initialize_vector grow (vector_resize 100 (bb_buf b)) 0 0 b;
     b \<leftarrow> call (docAddElement_i32 (ascii ''00type'') 1 b);
     b \<leftarrow> call (docAddElement_string (ascii ''service'') service b);
     b \<leftarrow> call (docBeginSubDoc (ascii ''cmd'') b);
     call (docBeginSubDoc command b)
   }"

definition cr_initializeFrom ::
  "(nat \<Rightarrow> nat \<Rightarrow> nat) \<Rightarrow> bytes \<Rightarrow> bytes \<Rightarrow> bytes \<Rightarrow> bson_builder \<Rightarrow> bson_builder option" where
  "cr_initializeFrom grow service command content_bson b = do {
     content_size \<leftarrow> geti32 content_bson 0;
     if content_size < 5 then None
     else do {
       let b = initialize_vector grow (vector_resize (nat (100 + content_size)) (bb_buf b)) 0 0 b;
       b \<leftarrow> call (docAddElement_i32 (ascii ''00type'') 1 b);
       b \<leftarrow> call (docAddElement_string (ascii ''service'') service b);
       b \<leftarrow> call (docBeginSubDoc (ascii ''cmd'') b);
       call (docBeginSubDoc_from command content_bson b)
     }
   }"

text \<open>The vector is moved out: the request is left with an empty one.\<close>

definition cr_finalize :: "int \<Rightarrow> bson_builder \<Rightarrow> (bytes \<times> bson_builder) option" where
  "cr_finalize cmd_id b =
     (if bb_depth b \<noteq> 2 then None
      else do {
        b \<leftarrow> endDocument b;
        b \<leftarrow> endDocument b;
        b \<leftarrow> call (docAddElement_i32 (ascii ''user-data'') cmd_id b);
        (d, b) \<leftarrow> bb_finish b;
        let n = (case d of None \<Rightarrow> 0 | Some (ptr, sz) \<Rightarrow> nat sz);
        Some (vector_resize n (bb_buf b), b\<lparr>bb_buf := []\<rparr>)
      })"

section \<open>Builders that can grow\<close>

text \<open>A client that ignores the results of its calls.\<close>

fun run_all :: "bytes \<Rightarrow> bop list \<Rightarrow> bson_builder \<Rightarrow> bson_builder option" where
  "run_all j [] b = Some b"
| "run_all j (op # ops) b = do { b' \<leftarrow> call (exec_op j op b); run_all j ops b' }"

text \<open>The state of a growing builder between two calls: it represents the levels \<^verbatim>\<open>ls\<close>, has had no
  error, and at most \<^verbatim>\<open>n\<close> bytes are in use.\<close>

definition growing :: "bson_builder \<Rightarrow> level list \<Rightarrow> int \<Rightarrow> bool" where
  "growing b ls n \<longleftrightarrow> bb_inv b ls \<and> \<not> error_flag b \<and> reallocate b \<noteq> None \<and> start_offset b = 0 \<and> current_usage b \<le> n"

lemma growing_op:
  assumes "growing b ls n" "op_ok op ls" "n + op_bytes op < 1073741824"
  shows "\<exists>b'. call (exec_op j op b) = Some b' \<and> growing b' (abs_op op ls) (n + op_bytes op)"
proof -
  have "refines b ls (abs_op op ls) (op_bytes op) (exec_op j op b)"
    using assms by (intro exec_op_refines) (auto simp: growing_def)
  then obtain ok b' where r: "exec_op j op b = Some (ok, b')"
    "if ok then bb_inv b' (abs_op op ls) \<and> error_flag b' = error_flag b \<and> current_usage b' \<le> current_usage b + op_bytes op \<and> keeps b b'
     else bb_inv b' ls \<and> error_flag b' \<and> can_fail b (op_bytes op)" unfolding refines_def by blast
  have ok using r(2) assms(1) by (auto simp: growing_def can_fail_def split: if_splits)
  then have "growing b' (abs_op op ls) (n + op_bytes op)" using r(2) assms(1) by (auto simp: growing_def keeps_def)
  then show ?thesis using r(1) by (simp add: call_def)
qed

lemma growing_ops:
  "growing b ls n \<Longrightarrow> ops_ok ops ls \<Longrightarrow> n + ops_bytes ops < 1073741824 \<Longrightarrow>
   \<exists>b'. run_all j ops b = Some b' \<and> growing b' (abs_ops ops ls) (n + ops_bytes ops)"
proof (induction ops arbitrary: b ls n)
  case Nil
  then show ?case by (simp add: ops_bytes_def)
next
  case (Cons op ops)
  have e: "ops_bytes (op # ops) = op_bytes op + ops_bytes ops" by (simp add: ops_bytes_def)
  have lim: "n + op_bytes op < 1073741824" using Cons.prems(3) e ops_bytes_nonneg [of ops] by simp
  obtain b1 where b1: "call (exec_op j op b) = Some b1" "growing b1 (abs_op op ls) (n + op_bytes op)"
    using growing_op [OF Cons.prems(1) _ lim] Cons.prems(2) by auto
  then show ?case using Cons.IH [OF b1(2)] Cons.prems(2,3) e by (auto simp: add.assoc)
qed

text \<open>Initializing a request on which no level is open.\<close>

lemma initialize_vector_growing:
  assumes "reserve_ok grow" "5 \<le> length vec" "int (length vec) < 2147483648"
    "bb_depth b = 0" "document_size_offsets b = []" "array_idx_counters b = []" "\<not> error_flag b" "\<not> bit (doc_is_array_bits b) 0"
  shows "growing (initialize_vector grow vec 0 0 b) [root_level] 5"
  using assms by (simp add: growing_def initialize_vector_def reserveMainDocumentHeader_def bb_inv_def bb_mid_def offsets_def
      rep.simps root_level_def slice_def array_bits_def array_counts_def i32_id i32_range_def Let_def)

text \<open>Opening a level with a copy of a document.\<close>

lemma open_level_room:
  assumes inv: "bb_mid b ls (open_tag k a) (5 + room) counts" and n: "length ls < 64" "0 \<le> room"
  shows "bb_mid (open_level a b) ((k, a, []) # ls) [] room (if a then 0 # counts else counts) \<and>
    error_flag (open_level a b) = error_flag b \<and> current_usage (open_level a b) = current_usage b \<and> keeps b (open_level a b)"
proof -
  have r: "rep (bb_buf b) (bb_offset b) (offsets b) ls (open_tag k a)" using inv by (simp add: bb_mid_def)
  have d: "nat (bb_depth b + 1) = length ls" "bb_depth b + 1 = int (length ls)"
    using inv rep_nonempty [OF r] by (auto simp: bb_mid_def offsets_def)
  have "array_bits (doc_is_array_bits b) ls" using inv by (simp add: bb_mid_def)
  from array_bits_open [OF this n(1), of a k "[]"]
  have ab: "array_bits (doc_is_array_bits (open_level a b)) ((k, a, []) # ls)"
    unfolding open_level_def d(1) by simp
  have rr: "rep (bb_buf b) (bb_offset b + 4) (bb_offset b # offsets b) ((k, a, []) # ls) []"
    by (rule rep_open [OF r])
  then show ?thesis
    using inv n ab d(2) unfolding bb_mid_def
    by (simp add: open_level_def offsets_def keeps_def)
qed

lemma put_elems:
  assumes inv: "bb_mid b ((k, False, []) # ls) [] (int (length (enc_elems es))) counts"
  shows "\<exists>b'. put_value (enc_elems es) (Some (True, b)) = Some (True, b') \<and> bb_mid b' ((k, False, es) # ls) [] 0 counts \<and>
     error_flag b' = error_flag b \<and> keeps b b' \<and> current_usage b' = current_usage b"
proof -
  obtain buf where w: "wr_bytes (bb_buf b) (bb_offset b) (enc_elems es) = Some buf"
    using wr_bytes_Some [of "bb_offset b" "enc_elems es" "bb_buf b"] bb_mid_offset [OF inv] by auto
  have "rep (bb_buf b) (bb_offset b) (offsets b) ((k, False, []) # ls) []" using inv by (simp add: bb_mid_def)
  from rep_extend [OF this w refl]
  have r: "rep buf (bb_offset b + int (length (enc_elems es))) (offsets b) ((k, False, es) # ls) []"
    by (cases "offsets b") (simp_all add: rep.simps)
  have ab: "array_bits x ((k, False, es) # ls) = array_bits x ((k, False, []) # ls)" for x
    by (auto simp: array_bits_def nth_append less_Suc_eq)
  show ?thesis using inv r ab length_wr_bytes [OF w] by (simp add: put_value_def w bb_mid_def offsets_def keeps_def)
qed

lemma growing_begin_from:
  assumes g: "growing b ((lk, False, es) # ls) n" and l: "length ls < 63"
    and lim: "n + int (length k) + 2 + int (length (enc_doc ds)) < 1073741824"
  shows "\<exists>b'. call (docBeginSubDoc_from k (enc_doc ds) b) = Some b' \<and>
     growing b' ((k, False, ds) # (lk, False, es) # ls) (n + int (length k) + 2 + int (length (enc_doc ds)))"
proof -
  let ?sz = "int (length (enc_doc ds))" and ?ls = "(lk, False, es) # ls"
  have inv: "bb_inv b ?ls" "\<not> error_flag b" "current_usage b \<le> n" "reallocate b \<noteq> None" "start_offset b = 0" using g by (simp_all add: growing_def)
  have "current_usage b \<ge> 0" using inv(1) bb_mid_offset [of b ?ls "[]" 0 "array_counts ?ls"] by (simp add: bb_inv_def bb_mid_def)
  have sz: "i32 ?sz = ?sz" "5 \<le> ?sz" "?sz = 5 + int (length (enc_elems ds))"
    using lim \<open>current_usage b \<ge> 0\<close> inv(3) by (auto intro!: i32_id simp: i32_range_def length_enc_doc)
  have hdr: "rd_bytes (enc_doc ds) 0 4 = Some (le_bytes 4 ?sz)" "rd_bytes (enc_doc ds) 4 (nat (?sz - 5)) = Some (enc_elems ds)"
    by (simp_all add: rd_bytes_def enc_doc_def doc_frame_def add.commute)
  have sz2: "i32 (le_int (le_bytes 4 ?sz)) = ?sz" using sz(1) by (simp add: le_int_le_bytes i32_mod)
  obtain ok b1 where ik: "verifyCapacityAndInsertKey 0x03 k ?sz b = Some (ok, b1)"
    "if ok then bb_mid b1 ?ls (0x03 # k @ [0]) ?sz (array_counts ?ls) \<and> error_flag b1 = error_flag b \<and>
        current_usage b1 = current_usage b + ?sz + 2 + int (length k) \<and> keeps b b1
      else bb_inv b1 ?ls \<and> error_flag b1 \<and> can_fail b (?sz + 2 + int (length k))"
    using insertKey_spec [OF inv(1), of ?sz k "0x03"] lim inv(3) by auto
  have ok using ik(2) inv(4) by (auto simp: can_fail_def split: if_splits)
  then have m: "bb_mid b1 ?ls (open_tag k False) (5 + int (length (enc_elems ds))) (array_counts ?ls)"
    "error_flag b1 = error_flag b" "current_usage b1 = current_usage b + ?sz + 2 + int (length k)" "keeps b b1"
    using ik(2) by (simp_all add: sz(3) open_tag_def level_type_def type_byte_def)
  note O = open_level_room [OF m(1)]
  obtain b2 where p: "put_value (enc_elems ds) (Some (True, open_level False b1)) = Some (True, b2)"
    "bb_mid b2 ((k, False, ds) # ?ls) [] 0 (array_counts ?ls)" "error_flag b2 = error_flag b" "keeps b b2"
    "current_usage b2 = current_usage b + ?sz + 2 + int (length k)"
    using put_elems [of "open_level False b1" k ?ls ds "array_counts ?ls"] O l m by (auto simp: keeps_def)
  have "array_counts ((k, False, ds) # ?ls) = array_counts ?ls" by (simp add: array_counts_def)
  then have "growing b2 ((k, False, ds) # ?ls) (n + int (length k) + 2 + ?sz)"
    using p inv by (auto simp: growing_def bb_inv_def keeps_def)
  moreover have "call (docBeginSubDoc_from k (enc_doc ds) b) = Some b2"
    unfolding docBeginSubDoc_from_def hdr(1) option.case Let_def sz2 ik(1)
    using \<open>ok\<close> sz(2) hdr(2) p(1) by (simp add: begin_level_def call_def)
  ultimately show ?thesis by blast
qed

section \<open>The packet of a request\<close>

text \<open>A request on which no level is open: a new one, or one that has been finalized.\<close>

definition cr_idle :: "bson_builder \<Rightarrow> bool" where
  "cr_idle b \<longleftrightarrow> bb_depth b = 0 \<and> document_size_offsets b = [] \<and> array_idx_counters b = [] \<and> \<not> error_flag b \<and>
     \<not> bit (doc_is_array_bits b) 0"

definition request_levels :: "bytes \<Rightarrow> bytes \<Rightarrow> bdoc \<Rightarrow> level list" where
  "request_levels service command body =
     [(command, False, body), (ascii ''cmd'', False, []), ([], False, [(ascii ''00type'', VI32 1), (ascii ''service'', VStr service)])]"

text \<open>The document of the request protocol.\<close>

definition request_doc :: "bytes \<Rightarrow> bytes \<Rightarrow> bdoc \<Rightarrow> int \<Rightarrow> bdoc" where
  "request_doc service command body cmd_id =
     [(ascii ''00type'', VI32 1), (ascii ''service'', VStr service), (ascii ''cmd'', VDoc [(command, VDoc body)]), (ascii ''user-data'', VI32 cmd_id)]"

lemma ascii_keys:
  "0 \<notin> set (ascii ''00type'')" "0 \<notin> set (ascii ''service'')" "0 \<notin> set (ascii ''cmd'')" "0 \<notin> set (ascii ''user-data'')"
  "length (ascii ''00type'') = 6" "length (ascii ''service'') = 7" "length (ascii ''cmd'') = 3" "length (ascii ''user-data'') = 9"
  by (simp_all add: ascii_def)

lemma command_request_idle: "cr_idle command_request"
  by (simp add: command_request_def cr_idle_def bson_builder_default_def)

lemma run_all_fun:
  "run_all j [] = Some" "run_all j (op # ops) = (\<lambda>b. call (exec_op j op b) \<bind> run_all j ops)"
  by (simp_all add: fun_eq_iff)

lemma vector_resize_length: "length (vector_resize n v) = n"
  by (simp add: vector_resize_def)

text \<open>The part both kinds of initialization share.\<close>

lemma request_prefix:
  assumes "reserve_ok grow" "cr_idle b" "5 \<le> length vec" "int (length vec) < 2147483648" "int (length service) < 536870912"
  shows "\<exists>b'. do {
     b \<leftarrow> call (docAddElement_i32 (ascii ''00type'') 1 (initialize_vector grow vec 0 0 b));
     b \<leftarrow> call (docAddElement_string (ascii ''service'') service b);
     call (docBeginSubDoc (ascii ''cmd'') b)
   } = Some b' \<and> growing b' (tl (request_levels service command body)) (41 + int (length service))"
proof -
  let ?ops = "[DocAdd (ascii ''00type'') (VI32 1), DocAdd (ascii ''service'') (VStr service), DocBegin (ascii ''cmd'') False]"
  have g: "growing (initialize_vector grow vec 0 0 b) [root_level] 5"
    using assms by (intro initialize_vector_growing) (simp_all add: cr_idle_def)
  have ob: "ops_bytes ?ops = 36 + int (length service)"
    by (simp add: ops_bytes_def enc_elem_def ascii_keys)
  have "\<exists>b'. run_all [] ?ops (initialize_vector grow vec 0 0 b) = Some b' \<and> growing b' (abs_ops ?ops [root_level]) (5 + ops_bytes ?ops)"
    using assms(5) ob by (intro growing_ops [OF g]) (simp_all add: root_level_def ascii_keys i32_range_def)
  then show ?thesis unfolding ob by (simp add: run_all_fun root_level_def request_levels_def)
qed

lemma cr_initialize_spec:
  assumes "reserve_ok grow" "cr_idle b" "0 \<notin> set command" "int (length service) + int (length command) < 536870912"
  shows "\<exists>b'. cr_initialize grow service command b = Some b' \<and>
     growing b' (request_levels service command []) (48 + int (length service) + int (length command))"
proof -
  obtain b1 where b1: "do {
     b \<leftarrow> call (docAddElement_i32 (ascii ''00type'') 1 (initialize_vector grow (vector_resize 100 (bb_buf b)) 0 0 b));
     b \<leftarrow> call (docAddElement_string (ascii ''service'') service b);
     call (docBeginSubDoc (ascii ''cmd'') b)
   } = Some b1" "growing b1 (tl (request_levels service command [])) (41 + int (length service))"
    using request_prefix [OF assms(1,2), of "vector_resize 100 (bb_buf b)" service command "[]"] assms(4)
    by (auto simp: vector_resize_length)
  obtain b2 where "call (docBeginSubDoc command b1) = Some b2" "growing b2 (request_levels service command []) (48 + int (length service) + int (length command))"
    using growing_op [OF b1(2), of "DocBegin command False" "[]"] assms(3,4) by (auto simp: request_levels_def algebra_simps)
  then show ?thesis using b1(1) by (auto simp: cr_initialize_def Let_def split: bind_splits)
qed

lemma cr_initializeFrom_spec:
  assumes "reserve_ok grow" "cr_idle b" "int (length service) + int (length command) + int (length (enc_doc content)) < 536870912"
  shows "\<exists>b'. cr_initializeFrom grow service command (enc_doc content) b = Some b' \<and>
     growing b' (request_levels service command content) (48 + int (length service) + int (length command) + int (length (enc_doc content)))"
proof -
  let ?sz = "int (length (enc_doc content))" and ?v = "vector_resize (nat (100 + int (length (enc_doc content)))) (bb_buf b)"
  have v: "5 \<le> length ?v" "int (length ?v) < 2147483648" unfolding vector_resize_length using assms(3) by simp_all
  have "i32_range ?sz" using assms(3) by (simp add: i32_range_def)
  then have sz: "geti32 (enc_doc content) 0 = Some ?sz"
    by (simp add: geti32_def rd_bytes_def enc_doc_def doc_frame_def le_int_le_bytes i32_mod i32_id add.commute)
  obtain b1 where b1: "do {
     b \<leftarrow> call (docAddElement_i32 (ascii ''00type'') 1 (initialize_vector grow ?v 0 0 b));
     b \<leftarrow> call (docAddElement_string (ascii ''service'') service b);
     call (docBeginSubDoc (ascii ''cmd'') b)
   } = Some b1" "growing b1 (tl (request_levels service command [])) (41 + int (length service))"
    using request_prefix [OF assms(1,2) v, of service command "[]"] assms(3) by auto
  obtain b2 where "call (docBeginSubDoc_from command (enc_doc content) b1) = Some b2"
    "growing b2 (request_levels service command content) (41 + int (length service) + int (length command) + 2 + ?sz)"
    using growing_begin_from [of b1 "ascii ''cmd''" "[]" "[([], False, [(ascii ''00type'', VI32 1), (ascii ''service'', VStr service)])]" "41 + int (length service)" command content] b1(2) assms(3)
    by (auto simp: request_levels_def)
  moreover have "growing b2 ls (48 + int (length service) + int (length command) + ?sz)"
    if "growing b2 ls (41 + int (length service) + int (length command) + 2 + ?sz)" for ls using that by (simp add: growing_def)
  ultimately show ?thesis using b1(1) sz length_enc_doc [of content]
    by (auto simp: cr_initializeFrom_def Let_def split: bind_splits)
qed

lemma growing_end:
  assumes "growing b ((k, False, es) # l # ls) n" "n < 1073741824"
  shows "\<exists>b'. endDocument b = Some b' \<and> growing b' (add_elem k (VDoc es) (l # ls)) n"
proof -
  have "\<not> currentDocIsArray b" using assms(1) array_bits_current by (auto simp: growing_def bb_inv_def)
  then have "call (exec_op [] EndLevel b) = endDocument b" by (simp add: call_def map_option.compositionality o_def map_option.identity)
  then show ?thesis using growing_op [OF assms(1), of EndLevel "[]"] assms(2) by (simp add: level_value_def)
qed

lemma bb_finish_growing:
  assumes "growing b [(k, False, es)] n"
  shows "\<exists>b'. bb_finish b = Some (Some (0, int (length (enc_doc es))), b') \<and>
    vector_resize (length (enc_doc es)) (bb_buf b') = enc_doc es \<and> cr_idle b'"
proof -
  have g: "bb_inv b [(k, False, es)]" "\<not> error_flag b" "start_offset b = 0" using assms by (simp_all add: growing_def)
  obtain b' where f: "bb_finish b = Some (Some (0, int (length (enc_doc es))), b')" "slice (bb_buf b') 0 (int (length (enc_doc es))) = enc_doc es"
    using bb_finish_spec [OF g(1,2)] g(3) by auto
  have "length (enc_doc es) \<le> length (bb_buf b')" using arg_cong [OF f(2), of length] by (simp add: slice_def)
  then have "vector_resize (length (enc_doc es)) (bb_buf b') = enc_doc es" using f(2) by (simp add: vector_resize_def slice_def)
  moreover have "cr_idle b"
  proof -
    have m: "bb_mid b [(k, False, es)] [] 0 []" using g(1) by (simp add: bb_inv_def array_counts_def)
    then have "length (offsets b) = 1" using rep_nonempty by (fastforce simp: bb_mid_def)
    then show ?thesis using m g(2) by (auto simp: cr_idle_def bb_mid_def offsets_def array_bits_def)
  qed
  then have "cr_idle b'" using f(1) by (auto simp: bb_finish_def cr_idle_def Let_def split: if_splits option.splits)
  ultimately show ?thesis using f(1) by blast
qed

lemma cr_finalize_spec:
  assumes g: "growing b (request_levels service command body) n" and "n + 15 < 1073741824" "i32_range cmd_id"
  shows "\<exists>b'. cr_finalize cmd_id b = Some (enc_doc (request_doc service command body cmd_id), b') \<and> cr_idle b'"
proof -
  have d: "bb_depth b = 2"
  proof -
    have m: "rep (bb_buf b) (bb_offset b) (offsets b) (request_levels service command body) []" "bb_depth b = int (length (document_size_offsets b))"
      using g by (simp_all add: growing_def bb_inv_def bb_mid_def)
    then have "length (offsets b) = 3" using rep_nonempty [OF m(1)] by (simp add: request_levels_def)
    then show ?thesis using m(2) by (simp add: offsets_def)
  qed
  obtain b1 where b1: "endDocument b = Some b1"
    "growing b1 [(ascii ''cmd'', False, [(command, VDoc body)]), ([], False, [(ascii ''00type'', VI32 1), (ascii ''service'', VStr service)])] n"
    using growing_end [OF g [unfolded request_levels_def]] assms(2) by auto
  obtain b2 where b2: "endDocument b1 = Some b2"
    "growing b2 [([], False, [(ascii ''00type'', VI32 1), (ascii ''service'', VStr service), (ascii ''cmd'', VDoc [(command, VDoc body)])])] n"
    using growing_end [OF b1(2)] assms(2) by auto
  obtain b3 where b3: "call (docAddElement_i32 (ascii ''user-data'') cmd_id b2) = Some b3"
    "growing b3 [([], False, request_doc service command body cmd_id)] (n + 15)"
    using growing_op [OF b2(2), of "DocAdd (ascii ''user-data'') (VI32 cmd_id)" "[]"] assms(2,3)
    by (auto simp: ascii_keys enc_elem_def request_doc_def)
  obtain b4 where b4: "bb_finish b3 = Some (Some (0, int (length (enc_doc (request_doc service command body cmd_id)))), b4)"
    "vector_resize (length (enc_doc (request_doc service command body cmd_id))) (bb_buf b4) = enc_doc (request_doc service command body cmd_id)" "cr_idle b4"
    using bb_finish_growing [OF b3(2)] by blast
  have "cr_idle (b4\<lparr>bb_buf := []\<rparr>)" using b4(3) by (simp add: cr_idle_def)
  then show ?thesis using d b1(1) b2(1) b3(1) b4(1,2) by (simp add: cr_finalize_def)
qed

text \<open>A builder whose calls fit into its 100 bytes: the bytes in use and the depth.\<close>

definition fits :: "bson_builder \<Rightarrow> int \<Rightarrow> int \<Rightarrow> bool" where
  "fits b used depth \<longleftrightarrow> current_usage b = used \<and> capacity b = 100 \<and> bb_depth b = depth"

lemma fits_insert:
  assumes "fits b u d" "0 \<le> u" "0 \<le> vs" "u + vs + 2 + int (length k) \<le> 100" "verifyCapacityAndInsertKey t k vs b = Some (ok, b')"
  shows "ok \<and> fits b' (u + vs + 2 + int (length k)) d"
proof -
  have "i32 (vs + 2 + int (length k)) = vs + 2 + int (length k)" "i32 (u + (vs + 2 + int (length k))) = u + (vs + 2 + int (length k))"
    using assms(2-4) by (auto intro!: i32_id simp: i32_range_def)
  then have "verifyEnoughCapacity (i32 (vs + 2 + int (length k))) b = (True, b)"
    using assms(1,4) by (simp add: verifyEnoughCapacity_def fits_def)
  then show ?thesis using assms(1,5) by (auto simp: verifyCapacityAndInsertKey_def fits_def split: option.splits)
qed

lemma fits_put:
  assumes "fits b u d" "0 \<le> u" "0 \<le> vs" "u + vs + 2 + int (length k) \<le> 100" "call (put_value bs (verifyCapacityAndInsertKey t k vs b)) = Some b'"
  shows "fits b' (u + vs + 2 + int (length k)) d"
proof (cases "verifyCapacityAndInsertKey t k vs b")
  case (Some r)
  obtain ok b1 where r: "r = (ok, b1)" by force
  have "ok" "fits b1 (u + vs + 2 + int (length k)) d" using fits_insert [OF assms(1-4)] Some r by auto
  then show ?thesis using assms(5) Some r by (auto simp: put_value_def call_def fits_def split: option.splits)
qed (use assms(5) in \<open>simp add: put_value_def call_def\<close>)

lemma fits_begin:
  assumes "fits b u d" "0 \<le> u" "u + 7 + int (length k) \<le> 100" "call (begin_level False (verifyCapacityAndInsertKey t k 5 b)) = Some b'"
  shows "fits b' (u + 7 + int (length k)) (d + 1)"
proof (cases "verifyCapacityAndInsertKey t k 5 b")
  case (Some r)
  obtain ok b1 where r: "r = (ok, b1)" by force
  have "ok" "fits b1 (u + 5 + 2 + int (length k)) d" using fits_insert [OF assms(1,2), of 5] assms(3) Some r by auto
  then show ?thesis using assms(4) Some r by (auto simp: begin_level_def call_def fits_def open_level_def)
qed (use assms(4) in \<open>simp add: begin_level_def call_def\<close>)

section \<open>Properties\<close>

text \<open>C26: the packet of a command. A request that is new or was finalized before (no level of its
  builder is open) can be initialized, its body filled by any calls that respect the builder's interface,
  add to arrays no boolean and at most 100 elements, and leave the body level open, and finalized with a
  command id: nothing faults however the vector grows, and the packet is the encoding of the document
  with the type, the service, the command with its body, and the id under which the response will be
  recognized. Initialized from a document, the body starts with the elements of that document.
  Afterwards the request can be used again. The sizes stay below 2 to the 29. (Initializing a request with
  an unfinished command does not discard it, as its documentation says: \<open>initialize_keeps_open_levels\<close>.)\<close>

theorem command_request_packet:
  assumes "reserve_ok grow" "cr_idle b" "0 \<notin> set command" "i32_range cmd_id"
    "all_ops op_allowed ops (request_levels service command content)" "all_ops op_intact ops (request_levels service command content)"
    "abs_ops ops (request_levels service command content) = request_levels service command body"
    "int (length service) + int (length command) + int (length (enc_doc content)) + ops_bytes ops < 536870912"
    "start = (if content = [] then cr_initialize grow service command b else cr_initializeFrom grow service command (enc_doc content) b)"
  shows "\<exists>b1 b2 b3. start = Some b1 \<and> run_all j ops b1 = Some b2 \<and>
    cr_finalize cmd_id b2 = Some (enc_doc (request_doc service command body cmd_id), b3) \<and> cr_idle b3"
proof -
  let ?n = "48 + int (length service) + int (length command) + int (length (enc_doc content))"
  have lim: "int (length service) + int (length command) < 536870912" "int (length service) + int (length command) + int (length (enc_doc content)) < 536870912"
    using assms(8) ops_bytes_nonneg [of ops] by linarith+
  have "\<exists>b1. start = Some b1 \<and> growing b1 (request_levels service command content) ?n"
    using cr_initialize_spec [OF assms(1-3) lim(1)] cr_initializeFrom_spec [OF assms(1,2) lim(2)] assms(9)
    by (auto simp: growing_def intro: order_trans)
  then obtain b1 where b1: "start = Some b1" "growing b1 (request_levels service command content) ?n" by blast
  obtain b2 where b2: "run_all j ops b1 = Some b2" "growing b2 (request_levels service command body) (?n + ops_bytes ops)"
    using growing_ops [OF b1(2) ops_ok_split [OF assms(5,6)], of j] assms(7,8) by auto
  then show ?thesis using cr_finalize_spec [OF b2(2) _ assms(4)] assms(8) b1(1) by auto
qed

theorem command_request_packet_witness:
  "\<exists>b1 b2 b3. cr_initialize (\<lambda>old req. max old req) (ascii ''core'') (ascii ''ping'') command_request = Some b1 \<and>
     run_all [] [DocAdd (ascii ''x'') (VI32 5)] b1 = Some b2 \<and>
     cr_finalize 7 b2 = Some (enc_doc (request_doc (ascii ''core'') (ascii ''ping'') [(ascii ''x'', VI32 5)] 7), b3) \<and> cr_idle b3"
proof (rule command_request_packet [where content = "[]"])
  show "reserve_ok (\<lambda>old req. max old req)" by (auto simp: reserve_ok_def)
qed (simp_all add: command_request_idle ascii_def request_levels_def i32_range_def ops_bytes_def length_enc_doc enc_elem_def)

text \<open>Initializing does not discard an unfinished request. The header documents that
  \<^const>\<open>cr_initialize\<close> clears any previously constructed command; the open levels stay on the
  stack, so finalizing the second command fails its assertion about the depth.\<close>

theorem initialize_keeps_open_levels:
  assumes "bb_depth b > 0" "length service + length command \<le> 52" "cr_initialize grow service command b = Some b'"
  shows "cr_finalize cmd_id b' = None"
proof -
  let ?b0 = "initialize_vector grow (vector_resize 100 (bb_buf b)) 0 0 b"
  have b0: "fits ?b0 5 (bb_depth b)"
    by (simp add: fits_def initialize_vector_def reserveMainDocumentHeader_def vector_resize_length Let_def i32_id i32_range_def)
  obtain b1 b2 b3 where c: "call (docAddElement_i32 (ascii ''00type'') 1 ?b0) = Some b1"
    "call (docAddElement_string (ascii ''service'') service b1) = Some b2" "call (docBeginSubDoc (ascii ''cmd'') b2) = Some b3"
    "call (docBeginSubDoc command b3) = Some b'"
    using assms(3) by (auto simp: cr_initialize_def Let_def bind_eq_Some_conv)
  have "fits b1 17 (bb_depth b)" using fits_put [OF b0, of 4 "ascii ''00type''"] c(1) by (simp add: docAddElement_i32_def ascii_keys)
  moreover have "i32 (int (length service) + 1) = int (length service) + 1" "i32 (int (length service) + 5) = int (length service) + 5"
    using assms(2) by (auto intro!: i32_id simp: i32_range_def)
  ultimately have "fits b2 (31 + int (length service)) (bb_depth b)"
    using fits_put [of b1 17 _ "int (length service) + 5" "ascii ''service''"] c(2) assms(2) by (simp add: docAddElement_string_def ascii_keys Let_def algebra_simps)
  then have "fits b3 (41 + int (length service)) (bb_depth b + 1)"
    using fits_begin [of b2 "31 + int (length service)" "bb_depth b" "ascii ''cmd''"] c(3) assms(2) by (simp add: docBeginSubDoc_def ascii_keys algebra_simps)
  then have "fits b' (48 + int (length service) + int (length command)) (bb_depth b + 2)"
    using fits_begin [of b3 "41 + int (length service)" "bb_depth b + 1" command] c(4) assms(2) by (simp add: docBeginSubDoc_def algebra_simps)
  then show ?thesis using assms(1) by (simp add: cr_finalize_def fits_def)
qed

theorem initialize_keeps_open_levels_witness:
  "cr_initialize (\<lambda>old req. max old req) (ascii ''core'') (ascii ''ping'') command_request \<bind>
     cr_initialize (\<lambda>old req. max old req) (ascii ''core'') (ascii ''ping'') \<bind> cr_finalize 7 = None"
proof -
  let ?g = "\<lambda>old req. max old req :: nat"
  obtain b where b: "cr_initialize ?g (ascii ''core'') (ascii ''ping'') command_request = Some b" "bb_depth b > 0"
  proof -
    have "map_option bb_depth (cr_initialize ?g (ascii ''core'') (ascii ''ping'') command_request) = Some 2" by code_simp
    then show ?thesis using that by (cases "cr_initialize ?g (ascii ''core'') (ascii ''ping'') command_request") auto
  qed
  have l: "length (ascii ''core'') + length (ascii ''ping'') \<le> 52" by (simp add: ascii_def)
  show ?thesis
    using initialize_keeps_open_levels [OF b(2) l] b(1)
    by (cases "cr_initialize ?g (ascii ''core'') (ascii ''ping'') b") auto
qed

end
