(* ===== verification/Session_Register.thy ===== *)
theory Session_Register
  imports Device_Properties Commands Secure_Session
begin

unbundle bit_operations_syntax

text \<open>
  core/src/session.cpp, \<^verbatim>\<open>registerToControl\<close>, and core/src/command_parsing.cpp: the handshake that turns
  a monitoring session into a controlling one. A request document is written to the new TCP
  connection, the response is read piece by piece into the receive buffer and parsed.
\<close>

section \<open>Result codes and states\<close>

datatype ResultCode = rc_ok | rc_invalid_argument | rc_invalid_format | rc_not_supported | rc_invalid_state | rc_not_registered
  | rc_no_control | rc_incompatible | rc_internal_comm_error | rc_internal | rc_command_error_mask | rc_invalid_session_state
  | rc_busy | rc_timeout | rc_cannot_connect | rc_protocol

datatype SessionState = state_invalid | connected_monitor | connected_control | session_lost

section \<open>The request\<close>

record ApiUserInformation =
  display_name :: bytes
  ui_type :: bytes
  ui_path :: bytes
  ui_author :: bytes
  version_string :: bytes

definition k_control_flag_names :: "(32 word \<times> bytes) list" where
  "k_control_flag_names = [(1, ascii ''ffb''), (2, ascii ''telemetry''), (4, ascii ''sim_data'')]"

definition k_max_id_name_size :: nat where
  "k_max_id_name_size = 64"

definition add_text :: "bytes \<Rightarrow> bytes \<Rightarrow> bson_builder \<Rightarrow> bson_builder option" where
  "add_text key v b = (if v = [] then Some b else call (docAddElement_string key v b))"

fun add_controls :: "bytes \<Rightarrow> 32 word \<Rightarrow> (32 word \<times> bytes) list \<Rightarrow> bson_builder \<Rightarrow> bson_builder option" where
  "add_controls j control_flags [] b = Some b"
| "add_controls j control_flags ((flag, name) # xs) b = do {
     b \<leftarrow> (if control_flags AND flag \<noteq> 0 then call (arrayAddElement_string j name b) else Some b);
     add_controls j control_flags xs b
   }"

text \<open>The check of the parameters of the secure session.\<close>

definition secure_arguments_ok :: "int \<Rightarrow> secure_params \<Rightarrow> bool" where
  "secure_arguments_ok session_id sp =
     (if sp_method sp = SECURITY_METHOD_NONE then sp_shared_secret sp = [] \<and> sp_controller_public_key sp = []
      else session_id = sp_session_id sp \<and> sp_shared_secret sp \<noteq> [] \<and> sp_controller_public_key sp \<noteq> [])"

definition register_request ::
  "(nat \<Rightarrow> nat \<Rightarrow> nat) \<Rightarrow> bytes \<Rightarrow> 32 word \<Rightarrow> bytes \<Rightarrow> ApiUserInformation \<Rightarrow> secure_params option \<Rightarrow> bytes option option" where
  "register_request grow j control_flags id_name user_info secure = do {
     let b = bson_builder_vector grow (replicate 1024 0) 0 0;
     b \<leftarrow> call (docAddElement_i32 (ascii ''00type'') 1 b);
     b \<leftarrow> call (docAddElement_string (ascii ''service'') (ascii ''core'') b);
     b \<leftarrow> call (docBeginSubDoc (ascii ''cmd'') b);
     b \<leftarrow> call (docBeginSubDoc (ascii ''register'') b);
     b \<leftarrow> call (docAddElement_string (ascii ''id'') id_name b);
     b \<leftarrow> call (docAddElement_string (ascii ''name'') (display_name user_info) b);
     b \<leftarrow> call (docAddElement_i64 (ascii ''protocol_version'') 0x00010000 b);
     b \<leftarrow> call (docAddElement_i32 (ascii ''core_version_major'') 0 b);
     b \<leftarrow> call (docAddElement_i32 (ascii ''core_version_minor'') 1 b);
     b \<leftarrow> call (docAddElement_i32 (ascii ''core_version_patch'') 1 b);
     b \<leftarrow> call (docBeginSubDoc (ascii ''metadata'') b);
     b \<leftarrow> add_text (ascii ''version'') (version_string user_info) b;
     b \<leftarrow> add_text (ascii ''author'') (ui_author user_info) b;
     b \<leftarrow> add_text (ascii ''filepath'') (ui_path user_info) b;
     b \<leftarrow> add_text (ascii ''type'') (ui_type user_info) b;
     b \<leftarrow> endDocument b;
     b \<leftarrow> call (docBeginSubArray (ascii ''control'') b);
     b \<leftarrow> add_controls j control_flags k_control_flag_names b;
     b \<leftarrow> endArray b;
     b \<leftarrow> (case secure of
         Some sp \<Rightarrow>
           if sp_method sp = SECURITY_METHOD_X25519_AES128_GCM then do {
             b \<leftarrow> call (docBeginSubDoc (ascii ''secure_session'') b);
             b \<leftarrow> call (docAddElement_string (ascii ''method'') (ascii ''x25519-AES128-GCM'') b);
             b \<leftarrow> call (docAddElement_binary (ascii ''public_key'') (sp_controller_public_key sp) 0 b);
             endDocument b
           } else Some b
       | None \<Rightarrow> Some b);
     b \<leftarrow> endDocument b;
     b \<leftarrow> endDocument b;
     (d, b) \<leftarrow> bb_finish b;
     Some (map_option (\<lambda>(ptr, sz). take (nat sz) (drop (nat ptr) (bb_buf b))) d)
   }"

section \<open>The response\<close>

text \<open>Reading: \<^verbatim>\<open>avail\<close> is how many bytes each read finds, \<^verbatim>\<open>stream\<close> the bytes of the connection; when there
  are no further reads the connection is lost. The requested length is a \<^verbatim>\<open>size_t\<close>. The outcome is the
  number of bytes read and the buffer, a code is an error, and writing behind the buffer a fault.\<close>

definition read_some :: "nat \<Rightarrow> bytes \<Rightarrow> bytes \<Rightarrow> int \<Rightarrow> int \<Rightarrow> (bytes \<times> bytes \<times> int) option" where
  "read_some k stream buf read_bytes needed_bytes = do {
     let n = min (min k (length stream)) (nat ((needed_bytes - read_bytes) mod 2 ^ 64));
     buf \<leftarrow> wr_bytes buf read_bytes (take n stream);
     Some (drop n stream, buf, read_bytes + int n)
   }"

definition next_needed :: "bytes \<Rightarrow> int \<Rightarrow> int \<Rightarrow> (ResultCode + int) option" where
  "next_needed buf read_bytes needed_bytes =
     (if read_bytes = needed_bytes then do {
        total_document_size \<leftarrow> getTotalDocumentSize buf;
        Some (if total_document_size \<le> 0 then Inl rc_protocol else Inr total_document_size)
      } else Some (Inr needed_bytes))"

primrec register_read :: "nat list \<Rightarrow> bytes \<Rightarrow> bytes \<Rightarrow> int \<Rightarrow> int \<Rightarrow> (ResultCode + bytes \<times> int) option" where
  "register_read [] stream buf read_bytes needed_bytes = Some (Inl rc_cannot_connect)"
| "register_read (k # avail) stream buf read_bytes needed_bytes =
     read_some k stream buf read_bytes needed_bytes \<bind> (\<lambda>(stream, buf, read_bytes).
     next_needed buf read_bytes needed_bytes \<bind> (\<lambda>next. case next of
        Inl code \<Rightarrow> Some (Inl code)
      | Inr needed_bytes \<Rightarrow>
          if read_bytes = needed_bytes then Some (Inr (buf, read_bytes))
          else register_read avail stream buf read_bytes needed_bytes))"

definition parseCommandResultHeader :: "bson_reader \<Rightarrow> (int \<times> bytes \<times> bson_reader) option" where
  "parseCommandResultHeader reader = do {
     (return_code, reader) \<leftarrow> tryFindAndGet tryGetValue_i32 (ascii ''result'') reader;
     case return_code of
       None \<Rightarrow> Some (-1, [], reader)
     | Some return_code \<Rightarrow>
         if return_code \<noteq> 0 then do {
           (msg, reader) \<leftarrow> tryFindAndGet tryGetValue_string (ascii ''error_message'') reader;
           Some (return_code, [], reader)
         }
         else do {
           (t, reader) \<leftarrow> seekKey (ascii ''data'') reader;
           if isEndOrError t then Some (-1, [], reader)
           else do {
             (ok, reader) \<leftarrow> beginSub reader;
             if \<not> ok then Some (-1, [], reader)
             else do {
               (t, reader) \<leftarrow> bson_next reader;
               if t \<noteq> ELEMENT_DOC then Some (-1, [], reader)
               else do {
                 let command_name = rd_key reader;
                 (ok, reader) \<leftarrow> beginSub reader;
                 Some (if \<not> ok then -1 else 0, command_name, reader)
               }
             }
           }
         }
   }"

fun flags_of_name :: "bytes \<Rightarrow> (32 word \<times> bytes) list \<Rightarrow> 32 word \<Rightarrow> 32 word" where
  "flags_of_name v [] flags = flags"
| "flags_of_name v ((flag, name) # xs) flags = flags_of_name v xs (if v = name then flags OR flag else flags)"

definition granted_item :: "element_type \<Rightarrow> bson_reader \<Rightarrow> 32 word \<Rightarrow> (bson_reader \<times> 32 word) option" where
  "granted_item e reader flags =
     (if e = ELEMENT_STR then do {
        v \<leftarrow> stringValue reader;
        Some (reader, flags_of_name v k_control_flag_names flags)
      } else Some (reader, flags))"

text \<open>The controller id and the control flags of a response, or an error of the protocol.\<close>

definition register_response :: "bytes \<Rightarrow> int \<Rightarrow> (int \<times> 32 word) option option" where
  "register_response buf read_bytes = do {
     reader \<leftarrow> bson_reader_sized (Some buf) read_bytes;
     (result, command_name, reader) \<leftarrow> parseCommandResultHeader reader;
     if result \<noteq> 0 \<or> command_name \<noteq> ascii ''register'' then Some None
     else do {
       (ctrl_id, reader) \<leftarrow> tryFindAndGet tryGetValue_i32 (ascii ''controller_id'') reader;
       case ctrl_id of
         None \<Rightarrow> Some None
       | Some ctrl_id \<Rightarrow> do {
           (t, reader) \<leftarrow> seekKey (ascii ''control'') reader;
           if t \<noteq> ELEMENT_ARRAY then Some None
           else do {
             (ok, reader) \<leftarrow> beginSub reader;
             if \<not> ok then Some None
             else do {
               (e, reader, flags) \<leftarrow> each granted_item reader 0;
               Some (Some (ctrl_id, flags))
             }
           }
         }
     }
   }"

section \<open>The session\<close>

text \<open>The members of a session that the handshake and the state machine use. \<^verbatim>\<open>api\<close> says whether the
  session is still attached to its \<^verbatim>\<open>ApiCore\<close>; \<^verbatim>\<open>events\<close> collects the events that are notified, \<^verbatim>\<open>io_stopped\<close>
  is the state of the io context, \<^verbatim>\<open>update_timer\<close> whether the periodic timer is armed.\<close>

datatype session_event = SessionStateChanged SessionState int "32 word"
  | DeviceInfoChanged | VariableDefinitionsChanged | TelemetryDefinitionsChanged | SimDataChanged

record session =
  se_api :: bool
  se_state :: SessionState
  control_flags :: "32 word"
  session_id :: int
  prev_keep_alive :: int
  prev_keep_alive_value :: int
  control_id_name :: bytes
  controller_id :: int
  is_running :: bool
  se_secure :: "secure_params option"
  main_open :: bool
  high_prio_open :: bool
  se_receive_buffer :: bytes
  io_stopped :: bool
  update_timer :: bool
  periodic_timers :: "int set"
  periodic_timer_id_counter :: int
  events :: "session_event list"

definition stop_if_running :: "session \<Rightarrow> session" where
  "stop_if_running s = (if is_running s then s\<lparr>io_stopped := True\<rparr> else s)"

text \<open>What the operating system answers: opening the UDP socket, opening and connecting the TCP socket, how many
  bytes of the request are written (\<^term>\<open>None\<close> is an error), and the reads. Opening the UDP socket again while it
  is open is an error of its own.\<close>

record network =
  udp_ok :: bool
  tcp_ok :: bool
  connect_ok :: bool
  written_bytes :: "int option"
  reads :: "nat list"
  from_backend :: bytes

text \<open>The calls without an error code throw when they fail: \<^verbatim>\<open>non_blocking\<close> on a socket that could not be
  opened, and \<^verbatim>\<open>write\<close>. Closing a socket is taken not to fail.\<close>

datatype register_outcome = Returned ResultCode | Thrown

text \<open>\<^verbatim>\<open>registerToControl\<close>, with the packet that is written. The parameters of the secure session are read
  before its pointer is compared with null, so a null pointer is a fault. A null packet has size 0. A failed
  connect leaves the TCP socket open.\<close>

definition registerToControl ::
  "(nat \<Rightarrow> nat \<Rightarrow> nat) \<Rightarrow> bytes \<Rightarrow> network \<Rightarrow> 32 word \<Rightarrow> bytes \<Rightarrow> ApiUserInformation \<Rightarrow> secure_params option \<Rightarrow> session \<Rightarrow>
   (register_outcome \<times> bytes option \<times> session) option" where
  "registerToControl grow j net flags id_name user_info secure s = do {
     let s = s\<lparr>se_secure := secure\<rparr>;
     if length id_name > k_max_id_name_size \<or> flags = 0 then Some (Returned rc_invalid_argument, None, s)
     else do {
       sp \<leftarrow> secure;
       if \<not> secure_arguments_ok (session_id s) sp then Some (Returned rc_invalid_argument, None, s)
       else do {
         packet \<leftarrow> register_request grow j flags id_name user_info secure;
         if high_prio_open s then Some (Returned rc_cannot_connect, None, s)
         else if \<not> udp_ok net then Some (Thrown, None, s)
         else do {
           let s = s\<lparr>high_prio_open := True\<rparr>;
           if \<not> connect_ok net then Some (Returned rc_cannot_connect, None, s\<lparr>main_open := main_open s \<or> tcp_ok net\<rparr>)
           else do {
             let s = s\<lparr>main_open := True, se_receive_buffer := vector_resize k_rx_buffer_size (se_receive_buffer s)\<rparr>;
             case written_bytes net of
               None \<Rightarrow> Some (Thrown, packet, s)
             | Some n \<Rightarrow>
                 if (case packet of None \<Rightarrow> 0 | Some d \<Rightarrow> int (length d)) \<noteq> n
                 then Some (Returned rc_cannot_connect, packet, s\<lparr>main_open := False\<rparr>)
                 else do {
                   r \<leftarrow> register_read (reads net) (from_backend net) (se_receive_buffer s) 0 5;
                   case r of
                     Inl code \<Rightarrow> Some (Returned code, packet, s\<lparr>main_open := False\<rparr>)
                   | Inr (buf, read_bytes) \<Rightarrow> do {
                       let s = s\<lparr>se_receive_buffer := buf\<rparr>;
                       resp \<leftarrow> register_response buf read_bytes;
                       case resp of
                         None \<Rightarrow> Some (Returned rc_protocol, packet, s\<lparr>main_open := False\<rparr>)
                       | Some (ctrl_id, received_control_flags) \<Rightarrow> do {
                           let s = s\<lparr>control_flags := received_control_flags, control_id_name := id_name, controller_id := u16 ctrl_id,
                                     se_state := connected_control\<rparr>;
                           let s = stop_if_running s;
                           Some (Returned rc_ok, packet,
                             s\<lparr>events := events s @ [SessionStateChanged connected_control (controller_id s) received_control_flags]\<rparr>)
                         }
                     }
                 }
           }
         }
       }
     }
   }"

text \<open>A registration that failed behind the opening of the UDP socket cannot be repeated: the socket stays open
  and opening it again is an error.\<close>

lemma register_again_fails:
  assumes "high_prio_open s" "registerToControl grow j net flags id_name ui secure s = Some (outcome, packet, s')"
  shows "outcome \<in> {Returned rc_invalid_argument, Returned rc_cannot_connect} \<and> packet = None \<and> high_prio_open s'"
  using assms by (auto simp: registerToControl_def bind_eq_Some_conv Let_def split: if_splits)

lemma register_null_faults:
  assumes "length id_name \<le> k_max_id_name_size" "flags \<noteq> 0"
  shows "registerToControl grow j net flags id_name ui None s = None"
  using assms by (simp add: registerToControl_def Let_def)

end
