(* ===== verification/Session_Properties.thy ===== *)
theory Session_Properties
  imports Session_Register
begin

unbundle bit_operations_syntax

text \<open>
  Properties of the registration: the request document, the reading of the response however the
  connection delivers it, and what the session becomes.
\<close>

section \<open>The request document\<close>

fun array_from :: "nat \<Rightarrow> bval list \<Rightarrow> bdoc" where
  "array_from i [] = []"
| "array_from i (v # vs) = (dec_bytes (int i), v) # array_from (Suc i) vs"

definition granted_names :: "32 word \<Rightarrow> bytes list" where
  "granted_names flags = map snd (filter (\<lambda>(flag, name). flags AND flag \<noteq> 0) k_control_flag_names)"

definition text_elem :: "bytes \<Rightarrow> bytes \<Rightarrow> bdoc" where
  "text_elem k v = (if v = [] then [] else [(k, VStr v)])"

definition metadata_doc :: "ApiUserInformation \<Rightarrow> bdoc" where
  "metadata_doc ui = text_elem (ascii ''version'') (version_string ui) @ text_elem (ascii ''author'') (ui_author ui) @
     text_elem (ascii ''filepath'') (ui_path ui) @ text_elem (ascii ''type'') (ui_type ui)"

definition secure_doc :: "secure_params option \<Rightarrow> bdoc" where
  "secure_doc secure = (case secure of
     Some sp \<Rightarrow> if sp_method sp = SECURITY_METHOD_X25519_AES128_GCM
       then [(ascii ''secure_session'', VDoc [(ascii ''method'', VStr (ascii ''x25519-AES128-GCM'')),
               (ascii ''public_key'', VBinary 0 (sp_controller_public_key sp))])] else []
   | None \<Rightarrow> [])"

definition head_doc :: "bytes \<Rightarrow> ApiUserInformation \<Rightarrow> bdoc" where
  "head_doc id_name ui = [(ascii ''id'', VStr id_name), (ascii ''name'', VStr (display_name ui)), (ascii ''protocol_version'', VI64 0x00010000),
     (ascii ''core_version_major'', VI32 0), (ascii ''core_version_minor'', VI32 1), (ascii ''core_version_patch'', VI32 1)]"

definition register_doc :: "32 word \<Rightarrow> bytes \<Rightarrow> ApiUserInformation \<Rightarrow> secure_params option \<Rightarrow> bdoc" where
  "register_doc flags id_name ui secure =
     [(ascii ''00type'', VI32 1), (ascii ''service'', VStr (ascii ''core'')),
      (ascii ''cmd'', VDoc [(ascii ''register'', VDoc (head_doc id_name ui @
         [(ascii ''metadata'', VDoc (metadata_doc ui)), (ascii ''control'', VArray (array_from 0 (map VStr (granted_names flags))))] @ secure_doc secure))])]"

definition user_info_size :: "bytes \<Rightarrow> ApiUserInformation \<Rightarrow> secure_params option \<Rightarrow> nat" where
  "user_info_size id_name ui secure = length id_name + length (display_name ui) + length (version_string ui) + length (ui_author ui) +
     length (ui_path ui) + length (ui_type ui) + (case secure of Some sp \<Rightarrow> length (sp_controller_public_key sp) | None \<Rightarrow> 0)"

lemma run_all_append: "run_all j (xs @ ys) b = run_all j xs b \<bind> run_all j ys"
  by (induction xs arbitrary: b) (simp_all add: Option.bind_assoc split: Option.bind_split)

lemma run_all_append_fun: "run_all j (xs @ ys) = (\<lambda>b. run_all j xs b \<bind> run_all j ys)"
  by (simp add: fun_eq_iff run_all_append)

lemma add_text_run: "add_text k v = run_all j (map (\<lambda>(k, v). DocAdd k v) (text_elem k v))"
  by (auto simp: add_text_def text_elem_def fun_eq_iff split: Option.bind_split)

lemma add_controls_run:
  "add_controls j flags fs b = run_all j (map (\<lambda>n. ArrAdd (VStr n)) (map snd (filter (\<lambda>(flag, name). flags AND flag \<noteq> 0) fs))) b"
  by (induction j flags fs b rule: add_controls.induct) (auto split: Option.bind_split)

lemma abs_docs: "abs_ops (map (\<lambda>(k, v). DocAdd k v) xs) ((lk, a, es) # ls) = (lk, a, es @ xs) # ls"
  by (induction xs arbitrary: es) auto

lemma abs_array: "abs_ops (map (\<lambda>n. ArrAdd (VStr n)) ns) ((lk, True, es) # ls) = (lk, True, es @ array_from (length es) (map VStr ns)) # ls"
  by (induction ns arbitrary: es) auto

lemma ops_ok_array: "length es + length ns \<le> 100 \<Longrightarrow> ops_ok (map (\<lambda>n. ArrAdd (VStr n)) ns) ((lk, True, es) # ls)"
  by (induction ns arbitrary: es) auto

lemma ops_ok_docs: "list_all (\<lambda>(k, v). 0 \<notin> set k \<and> wf_val v \<and> val_type v \<noteq> ELEMENT_ARRAY) xs \<Longrightarrow> ops_ok (map (\<lambda>(k, v). DocAdd k v) xs) ((lk, False, es) # ls)"
  by (induction xs arbitrary: es) auto

lemma ops_bytes_docs: "ops_bytes (map (\<lambda>(k, v). DocAdd k v) xs) = int (length (enc_elems xs))"
  by (induction xs) (auto simp: ops_bytes_def enc_elem_def)

lemma ops_bytes_array: "ops_bytes (map (\<lambda>n. ArrAdd (VStr n)) ns) = sum_list (map (\<lambda>n. int (length n) + 9) ns)"
  by (induction ns) (auto simp: ops_bytes_def)

lemma growing_end_array:
  assumes "growing b ((k, True, es) # l # ls) n" "n < 1073741824"
  shows "\<exists>b'. endArray b = Some b' \<and> growing b' (add_elem k (VArray es) (l # ls)) n"
proof -
  have "currentDocIsArray b" using assms(1) array_bits_current by (auto simp: growing_def bb_inv_def)
  then have "call (exec_op [] EndLevel b) = endArray b" by (simp add: call_def map_option.compositionality o_def map_option.identity)
  then show ?thesis using growing_op [OF assms(1), of EndLevel "[]"] assms(2) by (simp add: level_value_def)
qed

lemma growing_docs:
  assumes "growing b ((lk, False, es) # ls) n" "list_all (\<lambda>(k, v). 0 \<notin> set k \<and> wf_val v \<and> val_type v \<noteq> ELEMENT_ARRAY) xs"
    "n + int (length (enc_elems xs)) < 1073741824"
  shows "\<exists>b'. run_all j (map (\<lambda>(k, v). DocAdd k v) xs) b = Some b' \<and> growing b' ((lk, False, es @ xs) # ls) (n + int (length (enc_elems xs)))"
  using growing_ops [OF assms(1) ops_ok_docs [OF assms(2)], of j] assms(3) by (simp add: ops_bytes_docs abs_docs)

lemma growing_begin:
  assumes "growing b ((lk, False, es) # ls) n" "0 \<notin> set k" "length ls < 63" "n + int (length k) + 7 < 1073741824"
  shows "\<exists>b'. call (if a then docBeginSubArray k b else docBeginSubDoc k b) = Some b' \<and> growing b' ((k, a, []) # (lk, False, es) # ls) (n + int (length k) + 7)"
  using growing_op [OF assms(1), of "DocBegin k a" "[]"] assms(2-4) by (auto simp: add.assoc)


lemma granted_bounds: "length (granted_names flags) \<le> 3" "sum_list (map (\<lambda>n. int (length n) + 9) (granted_names flags)) \<le> 47"
  by (simp_all add: granted_names_def k_control_flag_names_def ascii_def)

text \<open>The part of the request up to the metadata.\<close>

lemma request_head:
  assumes "reserve_ok grow" "user_info_size id_name ui secure < 100000000"
  shows "\<exists>b. run_all [] (map (\<lambda>(k, v). DocAdd k v) [(ascii ''00type'', VI32 1), (ascii ''service'', VStr (ascii ''core''))] @
       [DocBegin (ascii ''cmd'') False, DocBegin (ascii ''register'') False] @ map (\<lambda>(k, v). DocAdd k v) (head_doc id_name ui) @
       [DocBegin (ascii ''metadata'') False]) (bson_builder_vector grow (replicate 1024 0) 0 0) = Some b \<and>
     growing b [(ascii ''metadata'', False, []), (ascii ''register'', False, head_doc id_name ui), (ascii ''cmd'', False, []),
       ([], False, [(ascii ''00type'', VI32 1), (ascii ''service'', VStr (ascii ''core''))])] 200000300"
    (is "\<exists>b. run_all [] ?ops _ = _ \<and> growing b ?ls _")
proof -
  have g: "growing (bson_builder_vector grow (replicate 1024 0) 0 0) [root_level] 5"
    using bson_builder_vector_inv [OF assms(1), of "replicate 1024 0" 0 0] by (simp add: growing_def)
  have ob: "ops_bytes ?ops \<le> 295 + int (length id_name) + int (length (display_name ui))"
    by (simp add: ops_bytes_def head_doc_def enc_elem_def ascii_def)
  have l: "int (length id_name) + int (length (display_name ui)) < 100000000" using assms(2) by (auto simp: user_info_size_def)
  have "5 + ops_bytes ?ops < 1073741824" using ob l by linarith
  moreover have "ops_ok ?ops [root_level]" by (simp add: root_level_def head_doc_def ascii_def i32_range_def i64_range_def)
  moreover have "abs_ops ?ops [root_level] = ?ls" by (simp add: root_level_def head_doc_def)
  ultimately obtain b where "run_all [] ?ops (bson_builder_vector grow (replicate 1024 0) 0 0) = Some b" "growing b ?ls (5 + ops_bytes ?ops)"
    using growing_ops [OF g, of ?ops "[]"] by auto
  moreover have "5 + ops_bytes ?ops \<le> 200000300" using ob l by linarith
  ultimately show ?thesis unfolding growing_def by (meson order_trans)
qed

lemma growing_mono: "growing b ls n \<Longrightarrow> n \<le> n' \<Longrightarrow> growing b ls n'"
  by (auto simp: growing_def)

lemma metadata_docs:
  "list_all (\<lambda>(k, v). 0 \<notin> set k \<and> wf_val v \<and> val_type v \<noteq> ELEMENT_ARRAY) (metadata_doc ui)"
  "int (length (enc_elems (metadata_doc ui))) \<le> 60 + int (length (version_string ui)) + int (length (ui_author ui)) + int (length (ui_path ui)) + int (length (ui_type ui))"
  by (auto simp: metadata_doc_def text_elem_def ascii_def enc_elems_append)

text \<open>The secure session's part.\<close>

lemma request_secure:
  assumes "growing b ((lk, False, es) # ls) n" "length ls < 60"
    "n + (case secure of Some sp \<Rightarrow> int (length (sp_controller_public_key sp)) | None \<Rightarrow> 0) < 1073000000"
  shows "\<exists>b'. (case secure of
         Some sp \<Rightarrow>
           if sp_method sp = SECURITY_METHOD_X25519_AES128_GCM then do {
             b \<leftarrow> call (docBeginSubDoc (ascii ''secure_session'') b);
             b \<leftarrow> call (docAddElement_string (ascii ''method'') (ascii ''x25519-AES128-GCM'') b);
             b \<leftarrow> call (docAddElement_binary (ascii ''public_key'') (sp_controller_public_key sp) 0 b);
             endDocument b
           } else Some b
       | None \<Rightarrow> Some b) = Some b' \<and>
     growing b' ((lk, False, es @ secure_doc secure) # ls) (n + (case secure of Some sp \<Rightarrow> int (length (sp_controller_public_key sp)) | None \<Rightarrow> 0) + 100)"
proof (cases "\<exists>sp. secure = Some sp \<and> sp_method sp = SECURITY_METHOD_X25519_AES128_GCM")
  case True
  then obtain sp where sp: "secure = Some sp" "sp_method sp = SECURITY_METHOD_X25519_AES128_GCM" by blast
  let ?xs = "[(ascii ''method'', VStr (ascii ''x25519-AES128-GCM'')), (ascii ''public_key'', VBinary 0 (sp_controller_public_key sp))]"
  have lim: "n + int (length (sp_controller_public_key sp)) < 1073000000" using assms(3) sp by simp
  obtain b1 where b1: "call (docBeginSubDoc (ascii ''secure_session'') b) = Some b1" "growing b1 ((ascii ''secure_session'', False, []) # (lk, False, es) # ls) (n + 21)"
    using growing_begin [OF assms(1), of "ascii ''secure_session''" False] assms(2) lim by (auto simp: ascii_def add.commute [of 21])
  obtain b2 where b2: "run_all [] (map (\<lambda>(k, v). DocAdd k v) ?xs) b1 = Some b2"
    "growing b2 ((ascii ''secure_session'', False, [] @ ?xs) # (lk, False, es) # ls) (n + 21 + int (length (enc_elems ?xs)))"
    using growing_docs [OF b1(2), of ?xs "[]"] lim by (auto simp: ascii_def)
  have sz: "n + 21 + int (length (enc_elems ?xs)) = n + 68 + int (length (sp_controller_public_key sp))" by (simp add: ascii_def)
  obtain b3 where b3: "endDocument b2 = Some b3" "growing b3 (add_elem (ascii ''secure_session'') (VDoc ?xs) ((lk, False, es) # ls)) (n + 68 + int (length (sp_controller_public_key sp)))"
    using growing_end [OF b2(2) [unfolded sz append.simps]] lim by auto
  then show ?thesis using b1(1) b2(1) growing_mono [OF b3(2), of "n + int (length (sp_controller_public_key sp)) + 100"]
    by (auto simp: sp secure_doc_def bind_eq_Some_conv)
next
  case False
  then have "secure_doc secure = []" by (auto simp: secure_doc_def split: option.splits)
  then show ?thesis using False assms(1) growing_mono [OF assms(1)] by (auto split: option.splits)
qed

lemma register_request_spec:
  assumes "reserve_ok grow" "user_info_size id_name ui secure < 100000000"
  shows "register_request grow j flags id_name ui secure = Some (Some (enc_doc (register_doc flags id_name ui secure)))"
proof -
  let ?n = "granted_names flags" and ?key = "case secure of Some sp \<Rightarrow> int (length (sp_controller_public_key sp)) | None \<Rightarrow> 0"
  let ?ls = "[(ascii ''cmd'', False, []), ([], False, [(ascii ''00type'', VI32 1), (ascii ''service'', VStr (ascii ''core''))])] :: level list"
  have key: "?key < 100000000" and texts: "int (length (version_string ui)) + int (length (ui_author ui)) + int (length (ui_path ui)) + int (length (ui_type ui)) < 100000000"
    using assms(2) by (auto simp: user_info_size_def split: option.splits)
  obtain b1 where b1: "run_all [] (map (\<lambda>(k, v). DocAdd k v) [(ascii ''00type'', VI32 1), (ascii ''service'', VStr (ascii ''core''))] @
       [DocBegin (ascii ''cmd'') False, DocBegin (ascii ''register'') False] @ map (\<lambda>(k, v). DocAdd k v) (head_doc id_name ui) @
       [DocBegin (ascii ''metadata'') False]) (bson_builder_vector grow (replicate 1024 0) 0 0) = Some b1"
     "growing b1 ((ascii ''metadata'', False, []) # (ascii ''register'', False, head_doc id_name ui) # ?ls) 200000300"
    using request_head [OF assms] by blast
  have "200000300 + int (length (enc_elems (metadata_doc ui))) < 1073741824" using metadata_docs(2) [of ui] texts by linarith
  from growing_docs [OF b1(2) metadata_docs(1) this, of "[]"] obtain b2 where
    b2: "run_all [] (map (\<lambda>(k, v). DocAdd k v) (metadata_doc ui)) b1 = Some b2"
    "growing b2 ((ascii ''metadata'', False, [] @ metadata_doc ui) # (ascii ''register'', False, head_doc id_name ui) # ?ls) (200000300 + int (length (enc_elems (metadata_doc ui))))"
    by blast
  have g2: "growing b2 ((ascii ''metadata'', False, metadata_doc ui) # (ascii ''register'', False, head_doc id_name ui) # ?ls) 400000000"
    using growing_mono [OF b2(2), of 400000000] metadata_docs(2) [of ui] texts by simp
  obtain b3 where b3: "endDocument b2 = Some b3" "growing b3 ((ascii ''register'', False, head_doc id_name ui @ [(ascii ''metadata'', VDoc (metadata_doc ui))]) # ?ls) 400000000"
    using growing_end [OF g2] by auto
  obtain b4 where b4: "call (docBeginSubArray (ascii ''control'') b3) = Some b4"
    "growing b4 ((ascii ''control'', True, []) # (ascii ''register'', False, head_doc id_name ui @ [(ascii ''metadata'', VDoc (metadata_doc ui))]) # ?ls) 400000014"
    using growing_begin [OF b3(2), of "ascii ''control''" True] by (auto simp: ascii_def)
  obtain b5 where b5: "run_all j (map (\<lambda>n. ArrAdd (VStr n)) ?n) b4 = Some b5"
    "growing b5 ((ascii ''control'', True, array_from 0 (map VStr ?n)) # (ascii ''register'', False, head_doc id_name ui @ [(ascii ''metadata'', VDoc (metadata_doc ui))]) # ?ls) 400000100"
  proof -
    have o: "ops_ok (map (\<lambda>n. ArrAdd (VStr n)) ?n) ((ascii ''control'', True, []) # (ascii ''register'', False, head_doc id_name ui @ [(ascii ''metadata'', VDoc (metadata_doc ui))]) # ?ls)"
      using granted_bounds(1) [of flags] by (intro ops_ok_array) simp
    show ?thesis
      using growing_ops [OF b4(2) o, of j] granted_bounds(2) [of flags] that growing_mono [of _ _ _ 400000100] by (auto simp: ops_bytes_array abs_array)
  qed
  obtain b6 where b6: "endArray b5 = Some b6" "growing b6 ((ascii ''register'', False, head_doc id_name ui @
      [(ascii ''metadata'', VDoc (metadata_doc ui)), (ascii ''control'', VArray (array_from 0 (map VStr ?n)))]) # ?ls) 400000100"
    using growing_end_array [OF b5(2)] by auto
  have lim: "400000100 + ?key < 1073000000" using key by linarith
  from request_secure [OF b6(2) _ lim] obtain b7 where b7: "(case secure of
         Some sp \<Rightarrow>
           if sp_method sp = SECURITY_METHOD_X25519_AES128_GCM then do {
             b \<leftarrow> call (docBeginSubDoc (ascii ''secure_session'') b6);
             b \<leftarrow> call (docAddElement_string (ascii ''method'') (ascii ''x25519-AES128-GCM'') b);
             b \<leftarrow> call (docAddElement_binary (ascii ''public_key'') (sp_controller_public_key sp) 0 b);
             endDocument b
           } else Some b6
       | None \<Rightarrow> Some b6) = Some b7"
     "growing b7 ((ascii ''register'', False, (head_doc id_name ui @
      [(ascii ''metadata'', VDoc (metadata_doc ui)), (ascii ''control'', VArray (array_from 0 (map VStr ?n)))]) @ secure_doc secure) # ?ls) (400000100 + ?key + 100)"
    by auto
  have lim2: "400000100 + ?key + 100 < 1073741824" using key by linarith
  obtain b8 where b8: "endDocument b7 = Some b8" using growing_end [OF b7(2) lim2] by blast
  have g8: "growing b8 [(ascii ''cmd'', False, [(ascii ''register'', VDoc ((head_doc id_name ui @
      [(ascii ''metadata'', VDoc (metadata_doc ui)), (ascii ''control'', VArray (array_from 0 (map VStr ?n)))]) @ secure_doc secure))]),
      ([], False, [(ascii ''00type'', VI32 1), (ascii ''service'', VStr (ascii ''core''))])] (400000100 + ?key + 100)"
    using growing_end [OF b7(2) lim2] b8 by auto
  obtain b9 where b9: "endDocument b8 = Some b9" "growing b9 [([], False, register_doc flags id_name ui secure)] (400000100 + ?key + 100)"
    using growing_end [OF g8 lim2] by (auto simp: register_doc_def)
  obtain b10 where b10: "bb_finish b9 = Some (Some (0, int (length (enc_doc (register_doc flags id_name ui secure)))), b10)"
    "take (length (enc_doc (register_doc flags id_name ui secure))) (bb_buf b10) = enc_doc (register_doc flags id_name ui secure)"
  proof -
    have i: "bb_inv b9 [([], False, register_doc flags id_name ui secure)]" "\<not> error_flag b9" "start_offset b9 = 0"
      using b9(2) by (simp_all add: growing_def)
    show ?thesis using bb_finish_spec [OF i(1,2)] i(3) that by (auto simp: slice_def)
  qed
  have t: "run_all [] (map (\<lambda>(k, v). DocAdd k v) (metadata_doc ui)) = (\<lambda>b. add_text (ascii ''version'') (version_string ui) b \<bind>
      (\<lambda>b. add_text (ascii ''author'') (ui_author ui) b \<bind> (\<lambda>b. add_text (ascii ''filepath'') (ui_path ui) b \<bind> add_text (ascii ''type'') (ui_type ui))))"
    by (simp only: metadata_doc_def map_append run_all_append_fun add_text_run [symmetric])
  have c: "add_controls j flags k_control_flag_names b4 = Some b5" using b5(1) by (simp add: add_controls_run granted_names_def)
  have m: "map_option (\<lambda>(ptr, sz). take (nat sz) (drop (nat ptr) (bb_buf b10))) (Some (0, int (length (enc_doc (register_doc flags id_name ui secure))))) =
      Some (enc_doc (register_doc flags id_name ui secure))" using b10(2) by simp
  show ?thesis
    using b1(1) b2(1) unfolding t register_request_def Let_def head_doc_def
    by (clarsimp simp: bind_eq_Some_conv b3(1) b4(1) c b6(1) b7(1) b8 b9(1) b10(1) m [simplified])
qed

section \<open>Reading the response\<close>

lemma wr_bytes_prefix:
  assumes "wr_bytes buf (int rd) bs = Some buf'" "take rd buf = take rd d" "take (length bs) (drop rd d) = bs"
  shows "take (rd + length bs) buf' = take (rd + length bs) d \<and> length buf' = length buf"
proof -
  have r: "rd + length bs \<le> length buf" "buf' = take rd buf @ bs @ drop (rd + length bs) buf"
    using assms(1) by (auto simp: wr_bytes_def split: if_splits)
  moreover have "rd \<le> length d" using arg_cong [OF assms(2), of length] r(1) by simp
  ultimately have "take (rd + length bs) buf' = take (rd + length bs) d" using assms(2,3) by (simp add: take_add)
  then show ?thesis using length_wr_bytes [OF assms(1)] by simp
qed

lemma take_more: "rd + n \<le> length d \<Longrightarrow> take n (drop rd d @ later) = take n (drop rd d)"
  by simp

lemma length_take_more: "rd + n \<le> length d \<Longrightarrow> length (take n (drop rd d)) = n"
  by simp

lemma drop_more: "rd + n \<le> length d \<Longrightarrow> drop n (drop rd d @ later) = drop (rd + n) d @ later"
  by (simp add: add.commute)

lemma size_of_prefix:
  assumes "take m buf = take m (enc_doc es)" "4 \<le> m" "m \<le> length buf" "int (length (enc_doc es)) < 2147483648"
  shows "getTotalDocumentSize buf = Some (int (length (enc_doc es)))"
proof -
  have "take 4 buf = take 4 (enc_doc es)" using arg_cong [OF assms(1), of "take 4"] assms(2) by (simp add: min_absorb1)
  moreover have "take 4 (enc_doc es) = le_bytes 4 (int (length (enc_doc es)))" by (simp add: enc_doc_def doc_frame_def add.commute)
  moreover have "i32 (le_int (le_bytes 4 (int (length (enc_doc es))))) = int (length (enc_doc es))"
    using assms(4) by (simp add: le_int_le_bytes i32_mod i32_id i32_range_def)
  ultimately show ?thesis using assms(2,3) by (simp add: getTotalDocumentSize_def geti32_def rd_bytes_def)
qed

text \<open>However many bytes each read finds, the document is in the buffer in the end.\<close>

lemma register_read_doc:
  fixes es later
  defines "d \<equiv> enc_doc es"
  assumes n: "length d \<le> length buf" "int (length buf) < 2147483648"
  shows "\<lbrakk>list_all (\<lambda>k. 1 \<le> k) avail; length d - rd \<le> length avail; take rd buf = take rd d; rd < length d; length buf = sz;
     needed = (if rd < 5 then 5 else int (length d)); length d \<le> sz; int sz < 2147483648\<rbrakk> \<Longrightarrow>
   \<exists>buf'. register_read avail (drop rd d @ later) buf (int rd) needed = Some (Inr (buf', int (length d))) \<and>
     take (length d) buf' = d \<and> length buf' = sz"
proof (induction avail arbitrary: rd buf needed)
  case Nil
  then show ?case by simp
next
  case (Cons k avail)
  let ?n = "length d" 
  have d5: "5 \<le> ?n" by (simp add: d_def length_enc_doc)
  have nd: "int rd < needed" "needed \<le> int ?n" using Cons.prems(4,6) d5 by auto
  have md: "(needed - int rd) mod 2 ^ 64 = needed - int rd" using nd Cons.prems(7,8) by (intro mod_pos_pos_trivial) auto
  obtain M where M: "M = min (min k (length (drop rd d @ later))) (nat ((needed - int rd) mod 2 ^ 64))" by blast
  have m: "1 \<le> M" "int (rd + M) \<le> needed" using Cons.prems(1,4) nd unfolding M md by auto
  have le: "rd + M \<le> ?n" using m(2) nd(2) by linarith
  have tk: "take M (drop rd d @ later) = take M (drop rd d)" by (rule take_more [OF le])
  have lt: "length (take M (drop rd d)) = M" by (rule length_take_more [OF le])
  obtain buf1 where w: "wr_bytes buf (int rd) (take M (drop rd d)) = Some buf1"
    using wr_bytes_Some [of "int rd" "take M (drop rd d)" buf] le Cons.prems(5,7) unfolding lt by auto
  have b1: "take (rd + M) buf1 = take (rd + M) d" "length buf1 = sz"
    using wr_bytes_prefix [OF w Cons.prems(3)] Cons.prems(5) unfolding lt by simp_all
  have dr: "drop M (drop rd d @ later) = drop (rd + M) d @ later" by (rule drop_more [OF le])
  have rs: "read_some k (drop rd d @ later) buf (int rd) needed = Some (drop (rd + M) d @ later, buf1, int (rd + M))"
    using w unfolding read_some_def Let_def M [symmetric] tk dr by simp
  have ih: "rd + M < ?n \<Longrightarrow> \<exists>buf'. register_read avail (drop (rd + M) d @ later) buf1 (int (rd + M)) (if rd + M < 5 then 5 else int ?n) = Some (Inr (buf', int ?n)) \<and>
     take ?n buf' = d \<and> length buf' = sz"
    using Cons.prems(1,2,7,8) m(1) b1 by (intro Cons.IH) auto
  have sz: "4 \<le> rd + M \<Longrightarrow> getTotalDocumentSize buf1 = Some (int ?n)"
    using size_of_prefix [of "rd + M" buf1 es] b1 le Cons.prems(7,8) unfolding d_def by simp
  show ?case
  proof (cases "int (rd + M) = needed")
    case True
    have "4 \<le> rd + M" using True Cons.prems(6) d5 by (auto split: if_splits)
    then have nn: "next_needed buf1 (int (rd + M)) needed = Some (Inr (int ?n))"
      using True sz d5 by (auto simp: next_needed_def)
    show ?thesis
    proof (cases "rd + M = ?n")
      case True
      have "register_read (k # avail) (drop rd d @ later) buf (int rd) needed = Some (Inr (buf1, int ?n))"
        using rs nn unfolding register_read.simps True by simp
      then show ?thesis using b1 True by auto
    next
      case False
      have f: "\<not> rd + M < 5" using \<open>int (rd + M) = needed\<close> Cons.prems(6) d5 by (auto split: if_splits)
      have "register_read (k # avail) (drop rd d @ later) buf (int rd) needed = register_read avail (drop (rd + M) d @ later) buf1 (int (rd + M)) (int ?n)"
        using rs nn False unfolding register_read.simps by (simp del: of_nat_add)
      then show ?thesis using ih f False le by (simp del: of_nat_add)
    qed
  next
    case False
    then have nn: "next_needed buf1 (int (rd + M)) needed = Some (Inr needed)" by (simp add: next_needed_def)
    have lt2: "int (rd + M) < needed" using False m(2) by simp
    then have nd2: "needed = (if rd + M < 5 then 5 else int ?n)" using Cons.prems(6) by (auto split: if_splits)
    have "register_read (k # avail) (drop rd d @ later) buf (int rd) needed = register_read avail (drop (rd + M) d @ later) buf1 (int (rd + M)) needed"
      using rs nn False unfolding register_read.simps by (simp del: of_nat_add)
    then show ?thesis using ih nd2 lt2 nd(2) by (simp del: of_nat_add)
  qed
qed

section \<open>Parsing the response\<close>

lemma sized_in_doc:
  assumes "wf_elems es" "int (length (enc_doc es @ post)) < 2147483640"
  shows "\<exists>r. bson_reader_sized (Some (enc_doc es @ post)) (int (length (enc_doc es))) = Some r \<and> in_doc r es \<and> at_elems r es \<and> doc_layers r = []"
proof -
  have at: "at_pos (enc_doc es @ post) 0 (le_bytes 4 (int (length (enc_elems es)) + 5) @ (enc_elems es @ [0]) @ post)"
    by (simp add: at_pos_def enc_doc_def doc_frame_def)
  have g: "geti32 (enc_doc es @ post) 0 = Some (int (length (enc_elems es)) + 5)"
    using at_pos_geti32 [OF at] assms(2) by (simp add: i32_range_def length_enc_doc)
  have b: "at_pos (enc_doc es @ post) 4 (enc_elems es @ [0])"
    using at_pos_append [OF at] at_pos_append [of "enc_doc es @ post" 4 "enc_elems es @ [0]" post] by simp
  show ?thesis using g b assms
    by (auto simp: bson_reader_sized_def reader_members_def in_doc_def at_elems_def ready_def length_enc_doc Let_def intro!: exI [of _ 4])
qed

definition flag_step :: "bytes \<times> bval \<Rightarrow> 32 word \<Rightarrow> 32 word" where
  "flag_step kv flags = (case snd kv of VStr v \<Rightarrow> flags_of_name v k_control_flag_names flags | _ \<Rightarrow> flags)"

interpretation controls: element_loop granted_item flag_step 3
proof
  fix r k v es s
  assume on: "on_item r k v es" "length (doc_layers r) = 3"
  have "at_elems r es" "reads_value r v" using on(1) by (simp_all add: on_item_def)
  then show "\<exists>r2. granted_item (val_type v) r s = Some (r2, flag_step (k, v) s) \<and> at_elems r2 es \<and> stay r r2"
    by (cases v) (auto simp: granted_item_def flag_step_def)
qed

text \<open>What a response grants. A result other than 0, another command or a missing element is an error.\<close>

definition grant_of :: "bytes \<Rightarrow> bdoc \<Rightarrow> (int \<times> 32 word) option" where
  "grant_of name d = (if name \<noteq> ascii ''register'' then None
     else (case from_key (ascii ''controller_id'') d of
         (k, VI32 c) # rest \<Rightarrow> (case from_key (ascii ''control'') d of (k, VArray cs) # rest \<Rightarrow> Some (c, fold flag_step cs 0) | _ \<Rightarrow> None)
       | _ \<Rightarrow> None))"

text \<open>A response whose result is the number \<^verbatim>\<open>rc\<close>, and which has, when that is 0, the data of one command
  with an integer as its controller id.\<close>

definition response_to :: "bdoc \<Rightarrow> int \<Rightarrow> bytes \<Rightarrow> bdoc \<Rightarrow> bool" where
  "response_to es rc name d \<longleftrightarrow> (\<exists>k rest. from_key (ascii ''result'') es = (k, VI32 rc) # rest) \<and>
     (rc = 0 \<longrightarrow> (\<exists>k rest ds. from_key (ascii ''data'') es = (k, VDoc ((name, VDoc d) # ds)) # rest) \<and>
        (\<exists>k c rest. from_key (ascii ''controller_id'') d = (k, VI32 c) # rest))"

lemma find_i32_const:
  assumes "in_doc r es" "from_key k es = (k', VI32 x) # rest"
  shows "\<exists>r'. tryFindAndGet tryGetValue_i32 k r = Some (Some x, r') \<and> in_doc r' es \<and> same_doc r r'"
  using find_i32 [OF assms(1), of k] assms(2) by simp

lemma find_string_returns:
  assumes "in_doc r es"
  shows "\<exists>m r'. tryFindAndGet tryGetValue_string k r = Some (m, r')"
proof (cases "from_key k es")
  case Nil
  then show ?thesis using find_string [OF assms, of k] by auto
next
  case (Cons kv post)
  obtain k' v where "kv = (k', v)" by force
  then show ?thesis using find_string [OF assms, of k] Cons by (cases v) auto
qed

lemma not_array: "\<forall>cs. v \<noteq> VArray cs \<Longrightarrow> val_type v \<noteq> ELEMENT_ARRAY"
  by (cases v) simp_all

lemma header_spec:
  assumes r: "in_doc r es" "doc_layers r = []" and resp: "response_to es rc name d"
  shows "if rc = 0 then \<exists>r'. parseCommandResultHeader r = Some (0, name, r') \<and> in_doc r' d \<and> length (doc_layers r') = 2
    else \<exists>r'. parseCommandResultHeader r = Some (rc, [], r')"
proof -
  obtain k rest where fk: "from_key (ascii ''result'') es = (k, VI32 rc) # rest" using resp by (auto simp: response_to_def)
  obtain r1 where r1: "tryFindAndGet tryGetValue_i32 (ascii ''result'') r = Some (Some rc, r1)" "in_doc r1 es" "same_doc r r1"
    using find_i32_const [OF r(1) fk] by blast
  show ?thesis
  proof (cases "rc = 0")
    case True
    obtain k rest ds where fd: "from_key (ascii ''data'') es = (k, VDoc ((name, VDoc d) # ds)) # rest" using resp True by (auto simp: response_to_def)
    obtain t r2 where r2: "seekKey (ascii ''data'') r1 = Some (t, r2)" "t = ELEMENT_DOC" "on_item r2 (ascii ''data'') (VDoc ((name, VDoc d) # ds)) rest" "same_doc r1 r2"
      using seekKey_item [OF r1(2), of "ascii ''data''"] fd by auto
    have l2: "doc_layers r2 = []" using r1(3) r2(4) r(2) by (simp add: same_doc_def)
    then have lt2: "length (doc_layers r2) < k_max_subdocs" by (simp add: k_max_subdocs_def)
    obtain r3 where r3: "beginSub r2 = Some (True, r3)" "at_elems r3 ((name, VDoc d) # ds)" "length (doc_layers r3) = 1"
      using enter_leave [OF r2(3) _ lt2] l2 by auto
    obtain r4 where r4: "bson_next r3 = Some (ELEMENT_DOC, r4)" "on_item r4 name (VDoc d) ds" "same_doc r3 r4"
      using next_item [OF r3(2)] by auto
    have l4: "length (doc_layers r4) = 1" using r3(3) r4(3) by (simp add: same_doc_def)
    then have lt4: "length (doc_layers r4) < k_max_subdocs" by (simp add: k_max_subdocs_def)
    obtain r5 where r5: "beginSub r4 = Some (True, r5)" "length (doc_layers r5) = 2"
      using enter_leave [OF r4(2) _ lt4] l4 by auto
    have "in_doc r5 d" by (rule enter_in_doc [OF r4(2) _ lt4 r5(1)]) simp
    moreover have "rd_key r4 = name" using r4(2) by (simp add: on_item_def)
    ultimately show ?thesis using True r1(1) r2(1,2) r3(1) r4(1) r5
      by (simp add: parseCommandResultHeader_def isEndOrError_def)
  next
    case False
    have "\<exists>m r2. tryFindAndGet tryGetValue_string (ascii ''error_message'') r1 = Some (m, r2)"
      by (rule find_string_returns [OF r1(2)])
    then show ?thesis using False r1(1) by (auto simp: parseCommandResultHeader_def)
  qed
qed

lemma register_response_spec:
  assumes "wf_elems es" "int (length (enc_doc es @ post)) < 2147483640" and resp: "response_to es rc name d"
  shows "register_response (enc_doc es @ post) (int (length (enc_doc es))) = Some (if rc = 0 then grant_of name d else None)"
proof -
  obtain r where r: "bson_reader_sized (Some (enc_doc es @ post)) (int (length (enc_doc es))) = Some r" "in_doc r es" "doc_layers r = []"
    using sized_in_doc [OF assms(1,2)] by blast
  note H = header_spec [OF r(2,3) resp]
  show ?thesis
  proof (cases "rc = 0 \<and> name = ascii ''register''")
    case True
    then obtain r1 where r1: "parseCommandResultHeader r = Some (0, name, r1)" "in_doc r1 d" "length (doc_layers r1) = 2" using H by auto
    obtain k c rest where fc: "from_key (ascii ''controller_id'') d = (k, VI32 c) # rest" using resp True by (auto simp: response_to_def)
    obtain r2 where r2: "tryFindAndGet tryGetValue_i32 (ascii ''controller_id'') r1 = Some (Some c, r2)" "in_doc r2 d" "same_doc r1 r2"
      using find_i32_const [OF r1(2) fc] by blast
    obtain t r3 where r3: "seekKey (ascii ''control'') r2 = Some (t, r3)" "case from_key (ascii ''control'') d of [] \<Rightarrow> t = ELEMENT_END
       | (k', v) # post \<Rightarrow> t = val_type v \<and> on_item r3 (ascii ''control'') v post \<and> same_doc r2 r3 \<and> in_doc r3 d"
      using seekKey_item [OF r2(2), of "ascii ''control''"] by blast
    show ?thesis
    proof (cases "\<exists>k' cs post. from_key (ascii ''control'') d = (k', VArray cs) # post")
      case ctl: True
      then obtain k' cs post where fk: "from_key (ascii ''control'') d = (k', VArray cs) # post" by blast
      have on: "t = ELEMENT_ARRAY" "on_item r3 (ascii ''control'') (VArray cs) post" "length (doc_layers r3) = 2"
        using r3(2) r2(3) r1(3) by (simp_all add: fk same_doc_def)
      have lt: "length (doc_layers r3) < k_max_subdocs" using on(3) by (simp add: k_max_subdocs_def)
      obtain r4 where r4: "beginSub r3 = Some (True, r4)" "at_elems r4 cs" "length (doc_layers r4) = 3"
        using enter_leave [OF on(2) _ lt] on(3) by auto
      obtain r5 where "each granted_item r4 0 = Some (ELEMENT_END, r5, fold flag_step cs 0)" using controls.each_elems [OF r4(2,3)] by blast
      then show ?thesis using True r(1) r1(1) r2(1) r3(1) on(1) r4(1) by (simp add: register_response_def grant_of_def fk fc)
    next
      case False
      then have "t \<noteq> ELEMENT_ARRAY" "grant_of name d = None"
        using r3(2) not_array by (auto simp: grant_of_def split: list.splits bval.splits)
      then show ?thesis using True r(1) r1(1) r2(1) r3(1) by (simp add: register_response_def)
    qed
  next
    case False
    then show ?thesis using H r(1) by (auto simp: register_response_def grant_of_def split: if_splits)
  qed
qed

section \<open>Properties\<close>


definition wit_session :: session where
  "wit_session = \<lparr>se_api = True, se_state = connected_monitor, control_flags = 0, session_id = 5, prev_keep_alive = 0, prev_keep_alive_value = 0,
     control_id_name = [], controller_id = 0, is_running = False, se_secure = None, main_open = False, high_prio_open = False,
     se_receive_buffer = [], io_stopped = False, update_timer = True, periodic_timers = {}, periodic_timer_id_counter = 0, events = []\<rparr>"

definition wit_info :: ApiUserInformation where
  "wit_info = \<lparr>display_name = [65], ui_type = [], ui_path = [], ui_author = [66], version_string = []\<rparr>"

definition wit_granted :: bdoc where
  "wit_granted = [(ascii ''controller_id'', VI32 7), (ascii ''control'', VArray [([48], VStr (ascii ''telemetry''))])]"

definition wit_params :: secure_params where
  "wit_params = \<lparr>sp_method = 0, sp_session_id = 0, sp_controller_public_key = [], sp_shared_secret = []\<rparr>"


end
