(* ===== verification/Session_State.thy ===== *)
theory Session_State
  imports Session_Register
begin

text \<open>
  core/src/session.cpp, the life of a session: closing it, the periodic check of the backend's
  keep-alive counter, the loss of the connection, the io loop and the periodic timers. A function that
  releases the lock in between is split there. The connection's threads and the user's threads
  interleave as a step relation.
\<close>

section \<open>Operations\<close>

definition k_keep_alive_timeout :: int where
  "k_keep_alive_timeout = 1000"

text \<open>The constructor, with the time point and the counters at their initial values.\<close>

definition new_session :: "int \<Rightarrow> session" where
  "new_session i = \<lparr>se_api = True, se_state = connected_monitor, control_flags = 0, session_id = i, prev_keep_alive = 0, prev_keep_alive_value = 0,
     control_id_name = [], controller_id = 0, is_running = False, se_secure = None, main_open = False, high_prio_open = False,
     se_receive_buffer = [], io_stopped = False, update_timer = True, periodic_timers = {}, periodic_timer_id_counter = 0, events = []\<rparr>"

definition session_close :: "session \<Rightarrow> ResultCode \<times> session" where
  "session_close s =
     (if se_state s = state_invalid then (rc_invalid_session_state, s)
      else (rc_ok, s\<lparr>update_timer := False, main_open := False, high_prio_open := False, io_stopped := True,
                     se_state := state_invalid, se_api := False\<rparr>))"

text \<open>\<^verbatim>\<open>periodicUpdate\<close> up to the end of its lock: what follows is the disconnection, the end of the
  periodic updates, or \<^verbatim>\<open>checkDefinitions\<close> and another update. The clock is read twice, for the time
  of a new value and for the comparison.\<close>

datatype update_decision = Disconnect | Stop_updates | Continue_updates

definition periodicUpdate :: "int \<Rightarrow> int \<Rightarrow> int \<Rightarrow> session \<Rightarrow> update_decision \<times> session" where
  "periodicUpdate now now2 keep_alive s =
     (let s = (if keep_alive \<noteq> prev_keep_alive_value s then s\<lparr>prev_keep_alive_value := keep_alive, prev_keep_alive := now\<rparr> else s)
      in case se_state s of
           connected_monitor \<Rightarrow> if prev_keep_alive s + k_keep_alive_timeout < now2 then (Disconnect, s) else (Continue_updates, s)
         | connected_control \<Rightarrow> (Continue_updates, s)
         | session_lost \<Rightarrow> (Stop_updates, s)
         | state_invalid \<Rightarrow> (Stop_updates, s))"

definition disconnected :: "session \<Rightarrow> session" where
  "disconnected s = (let s = s\<lparr>update_timer := False, se_state := session_lost\<rparr> in
     stop_if_running (s\<lparr>events := events s @ [SessionStateChanged session_lost 0 0]\<rparr>))"

text \<open>\<^verbatim>\<open>checkDefinitions\<close>, with what the four providers report.\<close>

definition checkDefinitions :: "bool \<Rightarrow> bool \<Rightarrow> bool \<Rightarrow> bool \<Rightarrow> session \<Rightarrow> session" where
  "checkDefinitions dev_info_changed var_defs_changed telemetry_defs_changed sim_data_changed s =
     s\<lparr>events := events s @ (if dev_info_changed then [DeviceInfoChanged] else []) @
        (if var_defs_changed then [VariableDefinitionsChanged] else []) @
        (if telemetry_defs_changed then [TelemetryDefinitionsChanged] else []) @
        (if sim_data_changed then [SimDataChanged] else [])\<rparr>"

definition startPeriodicUpdateTimer :: "session \<Rightarrow> session" where
  "startPeriodicUpdateTimer s = s\<lparr>update_timer := True\<rparr>"

definition getControlFlags :: "session \<Rightarrow> 32 word" where
  "getControlFlags s = control_flags s"

text \<open>\<^verbatim>\<open>runUntilStateChanges\<close> up to the call of \<^verbatim>\<open>run\<close> (the result is the state when it returns at once)
  and behind it; a second call while one is running fails its assertion.\<close>

definition run_begin :: "session \<Rightarrow> (SessionState option \<times> session) option" where
  "run_begin s =
     (if is_running s then None
      else if \<not> se_api s then Some (Some state_invalid, s)
      else Some (None, (if io_stopped s then s\<lparr>io_stopped := False\<rparr> else s)\<lparr>is_running := True\<rparr>))"

definition run_end :: "session \<Rightarrow> SessionState \<times> session" where
  "run_end s = (se_state s, s\<lparr>is_running := False\<rparr>)"

definition poll_result :: "session \<Rightarrow> SessionState" where
  "poll_result s = (if \<not> se_api s then state_invalid else se_state s)"

definition session_stop :: "session \<Rightarrow> session" where
  "session_stop s = s\<lparr>io_stopped := True\<rparr>"

text \<open>Periodic timers of the user. A handle is the id, -1 when it is empty. An id that is in the table
  already fails the assertion.\<close>

definition createPeriodicTimer :: "session \<Rightarrow> (int \<times> session) option" where
  "createPeriodicTimer s = (let i = i32 (periodic_timer_id_counter s + 1) in
     if i \<in> periodic_timers s then None
     else Some (i, s\<lparr>periodic_timer_id_counter := i, periodic_timers := insert i (periodic_timers s)\<rparr>))"

definition destroy_timer :: "int \<Rightarrow> session \<Rightarrow> int \<times> session" where
  "destroy_timer handle s =
     (if handle < 0 then (handle, s) else (-1, s\<lparr>periodic_timers := periodic_timers s - {handle}\<rparr>))"

text \<open>The end of the connection seen by the receiving side.\<close>

definition receive_failed :: "session \<Rightarrow> session" where
  "receive_failed s = disconnected (s\<lparr>main_open := False\<rparr>)"

section \<open>Interleavings\<close>

text \<open>The session and the number of updates that have decided to disconnect and have not done it yet.\<close>

record session_system =
  sy_session :: session
  sy_lost :: nat

inductive session_step :: "session_system \<Rightarrow> session_system \<Rightarrow> bool" where
  step_register: "registerToControl grow j net flags id_name ui secure (sy_session y) = Some (code, packet, s) \<Longrightarrow> session_step y (y\<lparr>sy_session := s\<rparr>)"
| step_close: "session_close (sy_session y) = (code, s) \<Longrightarrow> session_step y (y\<lparr>sy_session := s\<rparr>)"
| step_update: "update_timer (sy_session y) \<Longrightarrow> periodicUpdate now now2 keep_alive (sy_session y) = (d, s) \<Longrightarrow>
    session_step y (y\<lparr>sy_session := (if d = Continue_updates then startPeriodicUpdateTimer (checkDefinitions a b c e s) else s\<lparr>update_timer := False\<rparr>),
      sy_lost := (if d = Disconnect then sy_lost y + 1 else sy_lost y)\<rparr>)"
| step_lost: "sy_lost y = Suc n \<Longrightarrow> session_step y (y\<lparr>sy_session := disconnected (sy_session y), sy_lost := n\<rparr>)"
| step_receive: "main_open (sy_session y) \<Longrightarrow> session_step y (y\<lparr>sy_session := receive_failed (sy_session y)\<rparr>)"
| step_run: "run_begin (sy_session y) = Some (r, s) \<Longrightarrow> session_step y (y\<lparr>sy_session := s\<rparr>)"
| step_ran: "is_running (sy_session y) \<Longrightarrow> run_end (sy_session y) = (r, s) \<Longrightarrow> session_step y (y\<lparr>sy_session := s\<rparr>)"
| step_stop: "session_step y (y\<lparr>sy_session := session_stop (sy_session y)\<rparr>)"
| step_timer: "createPeriodicTimer (sy_session y) = Some (i, s) \<Longrightarrow> session_step y (y\<lparr>sy_session := s\<rparr>)"
| step_destroy: "destroy_timer i (sy_session y) = (i', s) \<Longrightarrow> session_step y (y\<lparr>sy_session := s\<rparr>)"

definition session_start :: "int \<Rightarrow> session_system" where
  "session_start i = \<lparr>sy_session = new_session i, sy_lost = 0\<rparr>"

text \<open>The last change of state that was notified.\<close>

fun is_state_event :: "session_event \<Rightarrow> bool" where
  "is_state_event (SessionStateChanged st c f) = True"
| "is_state_event e = False"

definition notified :: "session \<Rightarrow> session_event list" where
  "notified s = filter is_state_event (events s)"

text \<open>A session's state is the one that was notified last; only closing is not notified.\<close>

definition notified_inv :: "session \<Rightarrow> bool" where
  "notified_inv s \<longleftrightarrow> (case se_state s of
     state_invalid \<Rightarrow> True
   | connected_monitor \<Rightarrow> notified s = [] \<and> control_flags s = 0 \<and> se_api s
   | connected_control \<Rightarrow> notified s \<noteq> [] \<and> last (notified s) = SessionStateChanged connected_control (controller_id s) (control_flags s)
   | session_lost \<Rightarrow> notified s \<noteq> [] \<and> last (notified s) = SessionStateChanged session_lost 0 0)"

lemma register_read_code: "register_read avail stream buf rb nb \<noteq> Some (Inl rc_ok)"
proof (induction avail arbitrary: stream buf rb nb)
  case (Cons k avail)
  have n: "next_needed b r n \<noteq> Some (Inl rc_ok)" for b r n
    by (simp add: next_needed_def bind_eq_Some_conv)
  show ?case
  proof (cases "read_some k stream buf rb nb")
    case (Some x)
    obtain st bf r where x: "x = (st, bf, r)" by (cases x)
    show ?thesis
    proof (cases "next_needed bf r nb")
      case nx: (Some y)
      then show ?thesis using Some x n [of bf r nb] Cons.IH by (cases y) simp_all
    qed (simp add: Some x)
  qed simp
qed simp

text \<open>What a registration does to a session depends on what it returns.\<close>

definition registers :: "session \<Rightarrow> register_outcome \<Rightarrow> session \<Rightarrow> bool" where
  "registers s code s' \<longleftrightarrow> se_api s' = se_api s \<and>
     (if code = Returned rc_ok then se_state s' = connected_control \<and>
        events s' = events s @ [SessionStateChanged connected_control (controller_id s') (control_flags s')]
      else se_state s' = se_state s \<and> events s' = events s \<and> control_flags s' = control_flags s \<and> controller_id s' = controller_id s)"

lemma registerToControl_inv:
  assumes "registerToControl grow j net flags id_name ui secure s = Some (code, packet, s')"
  shows "registers s code s'"
proof (cases "length id_name > k_max_id_name_size \<or> flags = 0")
  case bad: False
  show ?thesis
  proof (cases secure)
    case (Some sp)
    note D = assms [unfolded registerToControl_def Let_def if_not_P [OF bad] Some bind.bind_lunit]
    show ?thesis
    proof (cases "secure_arguments_ok (session_id s) sp \<and> \<not> high_prio_open s \<and> udp_ok net \<and> connect_ok net")
      case True
      obtain pk where pk: "register_request grow j flags id_name ui (Some sp) = Some pk"
        using D True by (cases "register_request grow j flags id_name ui (Some sp)") simp_all
      let ?buf = "vector_resize k_rx_buffer_size (se_receive_buffer s)"
      show ?thesis
      proof (cases "written_bytes net = Some (case pk of None \<Rightarrow> 0 | Some d \<Rightarrow> int (length d))")
        case w: True
        obtain r where r: "register_read (reads net) (from_backend net) ?buf 0 5 = Some r"
          using D True pk w by (cases "register_read (reads net) (from_backend net) ?buf 0 5") simp_all
        show ?thesis
        proof (cases r)
          case (Inl c)
          then have "c \<noteq> rc_ok" using r register_read_code by auto
          then show ?thesis using D True pk w r Inl by (auto simp: registers_def)
        next
          case (Inr x)
          obtain bf n where x: "x = (bf, n)" by force
          obtain resp where resp: "register_response bf n = Some resp"
            using D True pk w r Inr x by (cases "register_response bf n") simp_all
          show ?thesis
          proof (cases resp)
            case None
            then show ?thesis using D True pk w r Inr x resp by (auto simp: registers_def)
          next
            case (Some g)
            obtain c f where "g = (c, f)" by force
            then show ?thesis using D True pk w r Inr x resp Some
              by (cases "is_running s") (auto simp: stop_if_running_def registers_def)
          qed
        qed
      next
        case False
        then show ?thesis using D True pk by (cases "written_bytes net") (auto simp: registers_def)
      qed
    next
      case False
      then show ?thesis using D by (cases "register_request grow j flags id_name ui (Some sp)") (auto simp: registers_def split: if_splits)
    qed
  qed (use assms bad in \<open>simp add: registerToControl_def\<close>)
qed (use assms in \<open>auto simp: registerToControl_def registers_def\<close>)

lemma session_step_inv:
  assumes "session_step y z" "notified_inv (sy_session y)"
  shows "notified_inv (sy_session z)"
  using assms
proof (cases rule: session_step.cases)
  case (step_register grow j net flags id_name ui secure code packet s)
  then show ?thesis using registerToControl_inv [OF step_register(2)] assms(2)
    by (auto simp: registers_def notified_inv_def notified_def split: SessionState.splits if_splits)
next
  case (step_update now now2 keep_alive d s a b c e)
  have "se_state s = se_state (sy_session y) \<and> events s = events (sy_session y) \<and> control_flags s = control_flags (sy_session y) \<and>
      controller_id s = controller_id (sy_session y) \<and> se_api s = se_api (sy_session y)"
    using step_update(3) by (auto simp: periodicUpdate_def Let_def split: SessionState.splits if_splits)
  then show ?thesis using assms(2) step_update(1)
    by (auto simp: notified_inv_def notified_def checkDefinitions_def startPeriodicUpdateTimer_def split: SessionState.splits)
next
  case (step_run r s)
  then show ?thesis using assms(2) by (auto simp: run_begin_def notified_inv_def notified_def split: if_splits SessionState.splits)
qed (auto simp: notified_inv_def notified_def session_close_def disconnected_def receive_failed_def run_end_def session_stop_def
      createPeriodicTimer_def destroy_timer_def stop_if_running_def Let_def split: if_splits SessionState.splits)

interpretation session_runs: invariant_system "\<lambda>y. \<exists>i. y = session_start i" session_step "\<lambda>y. notified_inv (sy_session y)"
proof
  show "notified_inv (sy_session y)" if "\<exists>i. y = session_start i" for y
    using that by (auto simp: notified_inv_def notified_def session_start_def new_session_def)
qed (rule session_step_inv [rotated])

section \<open>Properties\<close>

text \<open>C32: a session's state is notified. Under any interleaving of registrations, periodic updates, lost
  connections, closing and the io loop, the state of a session that is not closed is the one the last
  notification reported, with its controller id and flags; a session that has not notified any change is
  still monitoring, attached and without control.\<close>

theorem session_state_notified:
  assumes "session_step\<^sup>*\<^sup>* (session_start i) y"
  shows "notified_inv (sy_session y)"
  using assms by (rule session_runs.reachable_inv [OF exI [of _ i], OF refl])

theorem session_state_notified_witness:
  "\<exists>y. session_step\<^sup>*\<^sup>* (session_start 5) y \<and> se_state (sy_session y) = session_lost \<and> notified_inv (sy_session y)"
proof -
  let ?s0 = "session_start 5"
  let ?s1 = "?s0\<lparr>sy_session := (sy_session ?s0)\<lparr>update_timer := False\<rparr>, sy_lost := 1\<rparr>"
  have p: "periodicUpdate 2000 2000 0 (new_session 5) = (Disconnect, new_session 5)"
    by (simp add: periodicUpdate_def new_session_def k_keep_alive_timeout_def)
  have "session_step ?s0 (?s0\<lparr>sy_session := (if Disconnect = Continue_updates then startPeriodicUpdateTimer (checkDefinitions False False False False (new_session 5))
      else (new_session 5)\<lparr>update_timer := False\<rparr>), sy_lost := (if Disconnect = Disconnect then sy_lost ?s0 + 1 else sy_lost ?s0)\<rparr>)"
    by (rule step_update) (use p in \<open>simp_all add: session_start_def new_session_def\<close>)
  then have s1: "session_step ?s0 ?s1" by (simp add: session_start_def)
  have s2: "session_step ?s1 (?s1\<lparr>sy_session := disconnected (sy_session ?s1), sy_lost := 0\<rparr>)" by (rule step_lost) simp
  have r: "session_step\<^sup>*\<^sup>* ?s0 (?s1\<lparr>sy_session := disconnected (sy_session ?s1), sy_lost := 0\<rparr>)" using s1 s2 by (meson rtranclp.rtrancl_into_rtrancl rtranclp.rtrancl_refl)
  have "se_state (disconnected (sy_session ?s1)) = session_lost" by (simp add: disconnected_def stop_if_running_def Let_def)
  then show ?thesis using session_state_notified [OF r] r by (intro exI conjI) (assumption, simp_all)
qed

text \<open>The updates of a session, each with the two times it reads from the clock and the counter it finds, until
  one does not continue.\<close>

fun updates :: "(int \<times> int \<times> int) list \<Rightarrow> session \<Rightarrow> update_decision \<times> session" where
  "updates [] s = (Continue_updates, s)"
| "updates ((now, now2, keep_alive) # us) s = (case periodicUpdate now now2 keep_alive s of
     (Continue_updates, s) \<Rightarrow> updates us s
   | r \<Rightarrow> r)"

text \<open>The time of the last update that found a new value of the counter.\<close>

fun last_change :: "int \<Rightarrow> int \<Rightarrow> (int \<times> int \<times> int) list \<Rightarrow> int" where
  "last_change v t [] = t"
| "last_change v t ((now, now2, k) # us) = (if k \<noteq> v then last_change k now us else last_change v t us)"

lemma updates_monitor:
  assumes "se_state s = connected_monitor"
  shows "fst (updates us s) = (if \<exists>n<length us. last_change (prev_keep_alive_value s) (prev_keep_alive s) (take (Suc n) us) + k_keep_alive_timeout < fst (snd (us ! n))
     then Disconnect else Continue_updates)"
  using assms
proof (induction us arbitrary: s)
  case (Cons u us)
  obtain now now2 k where u: "u = (now, now2, k)" by (cases u)
  let ?s = "if k \<noteq> prev_keep_alive_value s then s\<lparr>prev_keep_alive_value := k, prev_keep_alive := now\<rparr> else s"
  have st: "se_state ?s = connected_monitor" using Cons.prems by simp
  have p: "periodicUpdate now now2 k s = (if prev_keep_alive ?s + k_keep_alive_timeout < now2 then Disconnect else Continue_updates, ?s)"
    using Cons.prems by (simp add: periodicUpdate_def Let_def)
  have lc: "last_change (prev_keep_alive_value s) (prev_keep_alive s) (u # xs) = last_change (prev_keep_alive_value ?s) (prev_keep_alive ?s) xs" for xs
    by (simp add: u)
  have ex: "(\<exists>n<length (u # us). P n) \<longleftrightarrow> P 0 \<or> (\<exists>n<length us. P (Suc n))" for P using less_Suc_eq_0_disj by auto
  have "fst (updates us ?s) = (if \<exists>n<length us. last_change (prev_keep_alive_value ?s) (prev_keep_alive ?s) (take (Suc n) us) + k_keep_alive_timeout < fst (snd (us ! n))
     then Disconnect else Continue_updates)" by (rule Cons.IH [OF st])
  then show ?case unfolding ex take_Suc_Cons lc by (simp add: u p)
qed simp

text \<open>C33: the loss of the backend is detected. A monitoring session whose periodic updates find the
  keep-alive counter at given times is declared lost exactly if there is an update that, at its second look at
  the clock, is more than a second after the time stored by the last one that found a new value; as long as
  a new value is found in time it never is.\<close>

theorem keep_alive_timeout:
  assumes "se_state s = connected_monitor"
  shows "fst (updates us s) = Disconnect \<longleftrightarrow>
    (\<exists>n<length us. last_change (prev_keep_alive_value s) (prev_keep_alive s) (take (Suc n) us) + 1000 < fst (snd (us ! n)))"
  using updates_monitor [OF assms, of us] by (simp add: k_keep_alive_timeout_def)

theorem keep_alive_timeout_witness:
  "fst (updates [(5000, 5000, 1), (5500, 5501, 2), (6000, 6000, 2), (6500, 6500, 2), (7000, 7000, 2)] (new_session 1)) = Disconnect"
proof -
  have "se_state (new_session 1) = connected_monitor" by (simp add: new_session_def)
  from keep_alive_timeout [OF this, of "[(5000, 5000, 1), (5500, 5501, 2), (6000, 6000, 2), (6500, 6500, 2), (7000, 7000, 2)]"]
  show ?thesis by (auto simp: new_session_def intro!: exI [of _ 4])
qed

text \<open>The update releases the lock before it disconnects: a session that is closed in between leaves the
  closed state again.\<close>

lemma lost_after_close:
  "\<exists>y z. session_step\<^sup>*\<^sup>* (session_start i) y \<and> se_state (sy_session y) = state_invalid \<and> session_step y z \<and> se_state (sy_session z) = session_lost"
proof -
  let ?s0 = "session_start i"
  let ?s1 = "?s0\<lparr>sy_session := (sy_session ?s0)\<lparr>update_timer := False\<rparr>, sy_lost := 1\<rparr>"
  have p: "periodicUpdate 2000 2000 0 (new_session i) = (Disconnect, new_session i)"
    by (simp add: periodicUpdate_def new_session_def k_keep_alive_timeout_def)
  have "session_step ?s0 (?s0\<lparr>sy_session := (if Disconnect = Continue_updates then startPeriodicUpdateTimer (checkDefinitions False False False False (new_session i))
      else (new_session i)\<lparr>update_timer := False\<rparr>), sy_lost := (if Disconnect = Disconnect then sy_lost ?s0 + 1 else sy_lost ?s0)\<rparr>)"
    by (rule step_update) (use p in \<open>simp_all add: session_start_def new_session_def\<close>)
  then have s1: "session_step ?s0 ?s1" by (simp add: session_start_def)
  let ?s2 = "?s1\<lparr>sy_session := snd (session_close (sy_session ?s1))\<rparr>"
  have s2: "session_step ?s1 ?s2" by (rule step_close) (rule surjective_pairing)
  have st: "se_state (sy_session ?s2) = state_invalid" by (simp add: session_close_def)
  have s3: "session_step ?s2 (?s2\<lparr>sy_session := disconnected (sy_session ?s2), sy_lost := 0\<rparr>)" by (rule step_lost) simp
  have "se_state (disconnected (sy_session ?s2)) = session_lost" by (simp add: disconnected_def stop_if_running_def Let_def)
  moreover have "session_step\<^sup>*\<^sup>* ?s0 ?s2" using s1 s2 by (meson rtranclp.rtrancl_into_rtrancl rtranclp.rtrancl_refl)
  ultimately show ?thesis using st s3 by (intro exI [of _ ?s2] exI [of _ "?s2\<lparr>sy_session := disconnected (sy_session ?s2), sy_lost := 0\<rparr>"]) simp
qed

end
