(* ===== verification/Session_Send.thy ===== *)
theory Session_Send
  imports Commands
begin

text \<open>
  core/src/session.cpp, the sending side: commands get an id from an atomic counter, their packets
  are queued under \<^verbatim>\<open>main_socket_mutex\<close>, and at most one asynchronous write is active. A function
  that runs under the mutex is one function here; a write handed to \<^verbatim>\<open>asio::async_write\<close> is part of
  its result. The handler of a completed write clears the flag without the mutex and then calls
  \<^verbatim>\<open>startNextSend\<close>: these are two steps, between which other threads may send.
\<close>

section \<open>Operations\<close>

record 'cb tx_state =
  main_socket_is_open :: bool
  command_id_counter :: int
  command_result_handlers :: "int \<rightharpoonup> 'cb"
  main_socket_tx_queue :: "bytes list"
  send_in_progress :: bool

definition fetch_cmd_id :: "'cb tx_state \<Rightarrow> int \<times> 'cb tx_state" where
  "fetch_cmd_id s = (command_id_counter s, s\<lparr>command_id_counter := i32 (command_id_counter s + 1)\<rparr>)"

definition startNextSendNoLock :: "'cb tx_state \<Rightarrow> bytes option \<times> 'cb tx_state" where
  "startNextSendNoLock s =
     (if send_in_progress s then (None, s)
      else (case main_socket_tx_queue s of
          [] \<Rightarrow> (None, s)
        | tx_data # q \<Rightarrow> (Some tx_data, s\<lparr>main_socket_tx_queue := q, send_in_progress := True\<rparr>)))"

definition startNextSend :: "'cb tx_state \<Rightarrow> bytes option \<times> 'cb tx_state" where
  "startNextSend s = startNextSendNoLock s"

definition startSendCommand :: "bytes \<Rightarrow> int \<Rightarrow> 'cb \<Rightarrow> 'cb tx_state \<Rightarrow> bool \<times> bytes option \<times> 'cb tx_state" where
  "startSendCommand tx_data cmd_id cb s =
     (if \<not> main_socket_is_open s then (False, None, s)
      else (True, startNextSendNoLock
             (s\<lparr>command_result_handlers := (command_result_handlers s)(cmd_id \<mapsto> cb),
                main_socket_tx_queue := main_socket_tx_queue s @ [tx_data]\<rparr>)))"

text \<open>The handler of a completed write; the result says whether \<^verbatim>\<open>startNextSend\<close> follows.\<close>

definition write_complete :: "bool \<Rightarrow> 'cb tx_state \<Rightarrow> bool \<times> 'cb tx_state" where
  "write_complete ec s = (\<not> ec, s\<lparr>send_in_progress := False\<rparr>)"

text \<open>\<^verbatim>\<open>asyncCommand\<close>; \<^verbatim>\<open>None\<close> of the state is the null pointer of a session without internals.\<close>

definition asyncCommand ::
  "bson_builder \<Rightarrow> 'cb \<Rightarrow> 'cb tx_state option \<Rightarrow> (bool \<times> bytes option \<times> 'cb tx_state option \<times> bson_builder) option" where
  "asyncCommand req cb p = (case p of
     None \<Rightarrow> Some (False, None, None, req)
   | Some s \<Rightarrow> do {
       let (cmd_id, s) = fetch_cmd_id s;
       (packet_buffer, req) \<leftarrow> cr_finalize cmd_id req;
       let (ok, w, s) = startSendCommand packet_buffer cmd_id cb s;
       Some (ok, w, Some s, req)
     })"

section \<open>Interleaving\<close>

text \<open>
  The state of the whole sending side, with what the connection has been given: the active writes,
  the number of completion handlers that have cleared the flag and not yet called
  \<^verbatim>\<open>startNextSend\<close>, whether a write has failed, the packets whose write was started, and the packets
  accepted from the callers, both in order.
\<close>

record 'cb tx_system =
  tx :: "'cb tx_state"
  active_writes :: "bytes list"
  resuming :: nat
  write_failed :: bool
  started :: "bytes list"
  accepted :: "bytes list"

definition begin_write :: "bytes option \<Rightarrow> 'cb tx_system \<Rightarrow> 'cb tx_system" where
  "begin_write w y = (case w of
     None \<Rightarrow> y
   | Some d \<Rightarrow> y\<lparr>active_writes := active_writes y @ [d], started := started y @ [d]\<rparr>)"

inductive tx_step :: "'cb tx_system \<Rightarrow> 'cb tx_system \<Rightarrow> bool" where
  send: "startSendCommand d i cb (tx y) = (ok, w, s) \<Longrightarrow>
    tx_step y (begin_write w (y\<lparr>accepted := accepted y @ (if ok then [d] else []), tx := s\<rparr>))"
| complete: "d \<in> set (active_writes y) \<Longrightarrow> write_complete ec (tx y) = (r, s) \<Longrightarrow>
    tx_step y (y\<lparr>tx := s, active_writes := remove1 d (active_writes y),
      resuming := (if r then resuming y + 1 else resuming y), write_failed := (write_failed y \<or> \<not> r)\<rparr>)"
| resume: "resuming y > 0 \<Longrightarrow> startNextSend (tx y) = (w, s) \<Longrightarrow>
    tx_step y (begin_write w (y\<lparr>tx := s, resuming := resuming y - 1\<rparr>))"
| fetch: "fetch_cmd_id (tx y) = (i, s) \<Longrightarrow> tx_step y (y\<lparr>tx := s\<rparr>)"
| respond: "take_handler i res (command_result_handlers (tx y)) = (c, hs) \<Longrightarrow>
    tx_step y (y\<lparr>tx := (tx y)\<lparr>command_result_handlers := hs\<rparr>\<rparr>)"
| socket_open: "tx_step y (y\<lparr>tx := (tx y)\<lparr>main_socket_is_open := opened\<rparr>\<rparr>)"

definition tx_init :: "'cb tx_system \<Rightarrow> bool" where
  "tx_init y \<longleftrightarrow> main_socket_tx_queue (tx y) = [] \<and> \<not> send_in_progress (tx y) \<and> active_writes y = [] \<and>
     resuming y = 0 \<and> \<not> write_failed y \<and> started y = [] \<and> accepted y = []"

text \<open>One write at a time, first come first served, and no packet is forgotten: a packet that waits
  while nothing is being written has a completion handler on its way.\<close>

definition tx_inv :: "'cb tx_system \<Rightarrow> bool" where
  "tx_inv y \<longleftrightarrow>
     length (active_writes y) = (if send_in_progress (tx y) then 1 else 0) \<and>
     accepted y = started y @ main_socket_tx_queue (tx y) \<and>
     (main_socket_tx_queue (tx y) \<noteq> [] \<and> \<not> send_in_progress (tx y) \<longrightarrow> 0 < resuming y \<or> write_failed y)"

lemma start_next_inv:
  assumes "length (active_writes y) = (if send_in_progress (tx y) then 1 else 0)" "startNextSendNoLock (tx y) = (w, s)"
    "accepted y = started y @ main_socket_tx_queue (tx y)"
  shows "tx_inv (begin_write w (y\<lparr>tx := s\<rparr>))"
  using assms by (auto simp: startNextSendNoLock_def tx_inv_def begin_write_def split: if_splits list.splits)

lemma begin_write_resuming: "begin_write w (y\<lparr>tx := s, resuming := n\<rparr>) = (begin_write w (y\<lparr>tx := s\<rparr>))\<lparr>resuming := n\<rparr>"
  by (cases w) (simp_all add: begin_write_def)

lemma tx_inv_step:
  assumes inv: "tx_inv y" and step: "tx_step y z"
  shows "tx_inv z"
  using step
proof cases
  case (send d i cb ok w s)
  show ?thesis
  proof (cases "main_socket_is_open (tx y)")
    case True
    let ?t = "(tx y)\<lparr>command_result_handlers := (command_result_handlers (tx y))(i \<mapsto> cb),
                main_socket_tx_queue := main_socket_tx_queue (tx y) @ [d]\<rparr>"
    let ?y = "y\<lparr>accepted := accepted y @ [d], tx := ?t\<rparr>"
    have "ok" "startNextSendNoLock (tx ?y) = (w, s)" using send(2) True by (simp_all add: startSendCommand_def)
    moreover have "length (active_writes ?y) = (if send_in_progress (tx ?y) then 1 else 0)"
      "accepted ?y = started ?y @ main_socket_tx_queue (tx ?y)" using inv by (simp_all add: tx_inv_def)
    ultimately show ?thesis using start_next_inv [of ?y w s] send(1) by simp
  next
    case False
    then have "z = y" using send by (auto simp: startSendCommand_def begin_write_def)
    then show ?thesis using inv by simp
  qed
next
  case (complete d ec r s)
  then show ?thesis using inv by (auto simp: write_complete_def tx_inv_def length_remove1 split: if_splits)
next
  case (resume w s)
  have "tx_inv (begin_write w (y\<lparr>tx := s\<rparr>))"
    using start_next_inv [of y w s] inv resume(3) by (simp add: tx_inv_def startNextSend_def)
  moreover have "main_socket_tx_queue (tx (begin_write w (y\<lparr>tx := s\<rparr>))) = [] \<or> send_in_progress (tx (begin_write w (y\<lparr>tx := s\<rparr>)))"
    using resume(3) by (auto simp: startNextSend_def startNextSendNoLock_def begin_write_def split: if_splits list.splits)
  ultimately show ?thesis unfolding resume(1) begin_write_resuming by (auto simp: tx_inv_def)
next
  case (fetch i s)
  then show ?thesis using inv by (auto simp: fetch_cmd_id_def tx_inv_def)
qed (use inv in \<open>simp_all add: tx_inv_def\<close>)

interpretation transmission: invariant_system tx_init tx_step tx_inv
proof
  show "tx_inv y" if "tx_init y" for y using that by (simp add: tx_init_def tx_inv_def)
qed (rule tx_inv_step)

section \<open>Draining\<close>

text \<open>The steps of the connection alone: writes complete without error and their handlers go on.\<close>

inductive tx_drain :: "'cb tx_system \<Rightarrow> 'cb tx_system \<Rightarrow> bool" where
  complete: "d \<in> set (active_writes y) \<Longrightarrow> write_complete False (tx y) = (r, s) \<Longrightarrow>
    tx_drain y (y\<lparr>tx := s, active_writes := remove1 d (active_writes y),
      resuming := (if r then resuming y + 1 else resuming y), write_failed := (write_failed y \<or> \<not> r)\<rparr>)"
| resume: "resuming y > 0 \<Longrightarrow> startNextSend (tx y) = (w, s) \<Longrightarrow>
    tx_drain y (begin_write w (y\<lparr>tx := s, resuming := resuming y - 1\<rparr>))"

lemma tx_drain_step: "tx_drain y z \<Longrightarrow> tx_step y z"
proof (induction rule: tx_drain.induct)
  case (complete d y r s)
  then show ?case by (rule tx_step.complete)
next
  case (resume y w s)
  then show ?case by (rule tx_step.resume)
qed

lemma tx_drain_keeps: "tx_drain y z \<Longrightarrow> accepted z = accepted y \<and> write_failed z = write_failed y"
  by (induction rule: tx_drain.induct) (auto simp: write_complete_def begin_write_def split: option.splits)

definition tx_work :: "'cb tx_system \<Rightarrow> nat" where
  "tx_work y = 3 * length (main_socket_tx_queue (tx y)) + 2 * length (active_writes y) + resuming y"

lemma tx_drain_work: "tx_drain y z \<Longrightarrow> tx_work z < tx_work y"
proof (induction rule: tx_drain.induct)
  case (complete d y r s)
  then obtain n where "length (active_writes y) = Suc n" by (cases "active_writes y") auto
  with complete show ?case by (auto simp: write_complete_def tx_work_def length_remove1)
next
  case (resume y w s)
  then show ?case
    by (auto simp: startNextSend_def startNextSendNoLock_def begin_write_def tx_work_def split: if_splits list.splits)
qed

lemma tx_drain_stuck:
  assumes "tx_inv y" "\<not> write_failed y" "\<nexists>z. tx_drain y z"
  shows "main_socket_tx_queue (tx y) = [] \<and> active_writes y = [] \<and> started y = accepted y"
proof -
  have "active_writes y = []"
  proof (rule ccontr)
    assume "active_writes y \<noteq> []"
    then obtain d where d: "d \<in> set (active_writes y)" by (cases "active_writes y") auto
    obtain r s where "write_complete False (tx y) = (r, s)" by force
    then show False using tx_drain.complete [OF d] assms(3) by blast
  qed
  moreover have "resuming y = 0"
  proof (rule ccontr)
    assume "resuming y \<noteq> 0"
    then have r: "resuming y > 0" by simp
    obtain w s where "startNextSend (tx y) = (w, s)" by force
    then show False using tx_drain.resume [OF r] assms(3) by blast
  qed
  ultimately show ?thesis using assms(1,2) by (auto simp: tx_inv_def split: if_splits)
qed

lemma tx_drains:
  "tx_inv y \<Longrightarrow> \<not> write_failed y \<Longrightarrow>
   \<exists>z. tx_drain\<^sup>*\<^sup>* y z \<and> main_socket_tx_queue (tx z) = [] \<and> active_writes z = [] \<and> started z = accepted y"
proof (induction "tx_work y" arbitrary: y rule: less_induct)
  case less
  show ?case
  proof (cases "\<exists>z. tx_drain y z")
    case True
    then obtain z where z: "tx_drain y z" by blast
    have "tx_inv z" "\<not> write_failed z" "accepted z = accepted y"
      using tx_inv_step [OF less.prems(1) tx_drain_step [OF z]] tx_drain_keeps [OF z] less.prems(2) by auto
    then obtain z' where "tx_drain\<^sup>*\<^sup>* z z'" "main_socket_tx_queue (tx z') = [] \<and> active_writes z' = [] \<and> started z' = accepted y"
      using less.hyps [OF tx_drain_work [OF z]] by auto
    then show ?thesis using z by (blast intro: converse_rtranclp_into_rtranclp)
  next
    case False
    then show ?thesis using tx_drain_stuck [OF less.prems] by blast
  qed
qed

section \<open>Properties\<close>

text \<open>C27: the order of packets. Under every interleaving of threads that send commands, completion
  handlers, responses and changes of the connection, at most one write is active, the packets are
  written in the order in which \<^const>\<open>startSendCommand\<close> accepted them, none is lost or duplicated,
  and a packet never waits on an idle connection unless a write has failed.\<close>

theorem tx_order:
  assumes "tx_init y0" "tx_step\<^sup>*\<^sup>* y0 y"
  shows "length (active_writes y) \<le> 1 \<and> accepted y = started y @ main_socket_tx_queue (tx y) \<and>
    (main_socket_tx_queue (tx y) = [] \<or> active_writes y \<noteq> [] \<or> 0 < resuming y \<or> write_failed y)"
  using transmission.reachable_inv [OF assms] by (auto simp: tx_inv_def split: if_splits)

definition tx_empty :: "unit tx_system" where
  "tx_empty = \<lparr>tx = \<lparr>main_socket_is_open = True, command_id_counter = 0, command_result_handlers = (\<lambda>_. None),
     main_socket_tx_queue = [], send_in_progress = False\<rparr>, active_writes = [], resuming = 0, write_failed = False, started = [], accepted = []\<rparr>"

definition tx_two :: "unit tx_system" where
  "tx_two = tx_empty\<lparr>tx := (tx tx_empty)\<lparr>command_result_handlers := [1 \<mapsto> (), 2 \<mapsto> ()], main_socket_tx_queue := [[6]], send_in_progress := True\<rparr>,
     active_writes := [[5]], started := [[5]], accepted := [[5], [6]]\<rparr>"

lemma tx_two_reachable: "tx_step\<^sup>*\<^sup>* tx_empty tx_two"
proof -
  let ?s = "tx tx_empty\<lparr>command_result_handlers := [1 \<mapsto> ()], send_in_progress := True\<rparr>"
  let ?y = "tx_empty\<lparr>tx := ?s, active_writes := [[5]], started := [[5]], accepted := [[5]]\<rparr>"
  have "startSendCommand [5] 1 () (tx tx_empty) = (True, Some [5], ?s)" by (simp add: tx_empty_def startSendCommand_def startNextSendNoLock_def)
  from tx_step.send [OF this] have 1: "tx_step tx_empty ?y" by (simp add: begin_write_def tx_empty_def)
  have "startSendCommand [6] 2 () (tx ?y) = (True, None, tx tx_two)"
    by (simp add: tx_empty_def tx_two_def startSendCommand_def startNextSendNoLock_def)
  from tx_step.send [OF this] have 2: "tx_step ?y tx_two" by (simp add: begin_write_def tx_empty_def tx_two_def)
  show ?thesis using 1 2 by (meson converse_rtranclp_into_rtranclp rtranclp.rtrancl_refl)
qed

theorem tx_order_witness:
  "length (active_writes tx_two) \<le> 1 \<and> accepted tx_two = started tx_two @ main_socket_tx_queue (tx tx_two) \<and>
    (main_socket_tx_queue (tx tx_two) = [] \<or> active_writes tx_two \<noteq> [] \<or> 0 < resuming tx_two \<or> write_failed tx_two)"
  by (rule tx_order [OF _ tx_two_reachable]) (simp add: tx_init_def tx_empty_def)

text \<open>Every accepted packet is written. In every reachable state without a failed write, the
  steps of the connection alone (a write completes, its handler goes on) always come to an end, in
  whatever order they happen, and then all accepted packets have been written and nothing is queued.\<close>

theorem tx_progress:
  assumes "tx_init y0" "tx_step\<^sup>*\<^sup>* y0 y" "\<not> write_failed y"
  shows "(\<exists>z. tx_drain\<^sup>*\<^sup>* y z \<and> main_socket_tx_queue (tx z) = [] \<and> active_writes z = [] \<and> started z = accepted y) \<and>
    wfP (\<lambda>b a. tx_drain a b) \<and>
    (\<forall>z. tx_drain\<^sup>*\<^sup>* y z \<and> (\<nexists>z'. tx_drain z z') \<longrightarrow> main_socket_tx_queue (tx z) = [] \<and> active_writes z = [] \<and> started z = accepted y)"
proof (intro conjI allI impI)
  have inv: "tx_inv y" by (rule transmission.reachable_inv [OF assms(1,2)])
  show "\<exists>z. tx_drain\<^sup>*\<^sup>* y z \<and> main_socket_tx_queue (tx z) = [] \<and> active_writes z = [] \<and> started z = accepted y"
    by (rule tx_drains [OF inv assms(3)])
  show "wfP (\<lambda>b a. tx_drain a b)"
    by (rule wfp_if_convertible_to_nat [of _ tx_work]) (rule tx_drain_work)
  fix z assume z: "tx_drain\<^sup>*\<^sup>* y z \<and> (\<nexists>z'. tx_drain z z')"
  then have "tx_drain\<^sup>*\<^sup>* y z" ..
  then have "tx_inv z \<and> \<not> write_failed z \<and> accepted z = accepted y"
    by (induction rule: rtranclp_induct) (use inv assms(3) tx_inv_step tx_drain_step tx_drain_keeps in \<open>fastforce+\<close>)
  then have "main_socket_tx_queue (tx z) = [] \<and> active_writes z = [] \<and> started z = accepted y" using tx_drain_stuck [of z] z by simp
  then show "main_socket_tx_queue (tx z) = []" "active_writes z = []" "started z = accepted y" by simp_all
qed

theorem tx_progress_witness:
  "\<exists>z. tx_drain\<^sup>*\<^sup>* tx_two z \<and> main_socket_tx_queue (tx z) = [] \<and> active_writes z = [] \<and> started z = [[5], [6]]"
proof -
  have i: "tx_init tx_empty" "\<not> write_failed tx_two" "accepted tx_two = [[5], [6]]" by (simp_all add: tx_init_def tx_empty_def tx_two_def)
  from tx_progress [OF i(1) tx_two_reachable i(2), unfolded i(3)] show ?thesis by (rule conjunct1)
qed

end
