(* ===== verification/Packet_Properties.thy ===== *)
theory Packet_Properties
  imports Session_Packets
begin

text \<open>
  What the receiving side of a session does with the documents the backend sends: each response is
  interpreted by its fields, goes to exactly one handler, and the way the byte stream is cut into
  reads has no influence. Then packets that are not well formed.
\<close>

section \<open>Responses as documents\<close>

text \<open>What a response document says. A document is a response when its first element is the number 1 under
  \<^verbatim>\<open>00type\<close>; of the elements behind it with the same key and type the last one counts. The command is named by
  \<^verbatim>\<open>user-data\<close>, where -1 names none, the result code is zero unless given, and the payload is the document
  that \<^verbatim>\<open>data\<close> has as its first element.\<close>

fun last_some :: "('a \<Rightarrow> 'b option) \<Rightarrow> 'a list \<Rightarrow> 'b option" where
  "last_some f [] = None"
| "last_some f (x # xs) = (case last_some f xs of None \<Rightarrow> f x | Some y \<Rightarrow> Some y)"

definition i32_at :: "bytes \<Rightarrow> bytes \<times> bval \<Rightarrow> int option" where
  "i32_at k e = (case e of (k', VI32 x) \<Rightarrow> if k' = k then Some x else None | _ \<Rightarrow> None)"

definition str_at :: "bytes \<Rightarrow> bytes \<times> bval \<Rightarrow> bytes option" where
  "str_at k e = (case e of (k', VStr x) \<Rightarrow> if k' = k then Some x else None | _ \<Rightarrow> None)"

definition inner_doc_at :: "bytes \<Rightarrow> bytes \<times> bval \<Rightarrow> bytes option" where
  "inner_doc_at k e = (case e of (k', VDoc ((k2, VDoc d) # es)) \<Rightarrow> if k' = k then Some (enc_doc d) else None | _ \<Rightarrow> None)"

definition is_response :: "bdoc \<Rightarrow> bool" where
  "is_response d \<longleftrightarrow> d \<noteq> [] \<and> hd d = (ascii ''00type'', VI32 1)"

definition command_of :: "bdoc \<Rightarrow> int option" where
  "command_of d =
     (if is_response d then (case last_some (i32_at (ascii ''user-data'')) (tl d) of
          None \<Rightarrow> None
        | Some i \<Rightarrow> if i = -1 then None else Some i)
      else None)"

definition code_of :: "bdoc \<Rightarrow> int" where
  "code_of d = (case last_some (i32_at (ascii ''result'')) (tl d) of None \<Rightarrow> 0 | Some c \<Rightarrow> c)"

definition outcome_of :: "bdoc \<Rightarrow> async_result" where
  "outcome_of d =
     (if code_of d = 0 then Success (last_some (inner_doc_at (ascii ''data'')) (tl d))
      else Failure (code_of d) (last_some (str_at (ascii ''error_message'')) (tl d)))"

text \<open>What a document does: the handler of its command, if there is one, is called with the outcome and is
  gone.\<close>

definition handle_doc :: "bdoc \<Rightarrow> (int \<rightharpoonup> 'cb) \<Rightarrow> ('cb \<times> async_result) option \<times> (int \<rightharpoonup> 'cb)" where
  "handle_doc d hs = (case command_of d of
     None \<Rightarrow> (None, hs)
   | Some i \<Rightarrow> (case hs i of
        None \<Rightarrow> (None, hs)
      | Some cb \<Rightarrow> (Some (cb, outcome_of d), \<lambda>j. if j = i then None else hs j)))"

text \<open>The same, as the loop over the elements goes.\<close>

fun field_spec :: "bytes \<times> bval \<Rightarrow> response \<Rightarrow> response" where
  "field_spec (k, VI32 x) p = (if k = ascii ''user-data'' then p\<lparr>rs_cmd_id := x\<rparr>
     else if k = ascii ''result'' then p\<lparr>rs_result_code := x\<rparr> else p)"
| "field_spec (k, VStr s) p = (if k = ascii ''error_message'' then p\<lparr>rs_error_message := Some s\<rparr> else p)"
| "field_spec (k, VDoc ((k2, VDoc d) # es)) p = (if k = ascii ''data'' then p\<lparr>rs_payload := Some (enc_doc d)\<rparr> else p)"
| "field_spec (k, v) p = p"

definition response_of :: "bdoc \<Rightarrow> response option" where
  "response_of es = (case es of
     (k, VI32 x) # fs \<Rightarrow> if k = ascii ''00type'' \<and> x = 1 then Some (fold field_spec fs initial_response) else None
   | _ \<Rightarrow> None)"

lemma keys_distinct:
  "ascii ''user-data'' \<noteq> ascii ''service''" "ascii ''user-data'' \<noteq> ascii ''data''" "ascii ''user-data'' \<noteq> ascii ''result''"
  "ascii ''user-data'' \<noteq> ascii ''error_message''" "ascii ''service'' \<noteq> ascii ''data''" "ascii ''service'' \<noteq> ascii ''result''"
  "ascii ''service'' \<noteq> ascii ''error_message''" "ascii ''data'' \<noteq> ascii ''result''" "ascii ''data'' \<noteq> ascii ''error_message''"
  "ascii ''result'' \<noteq> ascii ''error_message''"
  by (simp_all add: ascii_def)

definition pick :: "'a option \<Rightarrow> 'a \<Rightarrow> 'a" where
  "pick x y = (case x of None \<Rightarrow> y | Some z \<Rightarrow> z)"

definition pick_some :: "'a option \<Rightarrow> 'a option \<Rightarrow> 'a option" where
  "pick_some x y = (case x of None \<Rightarrow> y | Some z \<Rightarrow> Some z)"

lemma field_spec_parts:
  "field_spec e p = \<lparr>rs_cmd_id = pick (i32_at (ascii ''user-data'') e) (rs_cmd_id p),
     rs_result_code = pick (i32_at (ascii ''result'') e) (rs_result_code p),
     rs_payload = pick_some (inner_doc_at (ascii ''data'') e) (rs_payload p),
     rs_error_message = pick_some (str_at (ascii ''error_message'') e) (rs_error_message p)\<rparr>"
  by (cases "(e, p)" rule: field_spec.cases)
    (use keys_distinct in \<open>auto simp: i32_at_def str_at_def inner_doc_at_def pick_def pick_some_def\<close>)

lemma fold_field_spec:
  "fold field_spec fs p = \<lparr>rs_cmd_id = pick (last_some (i32_at (ascii ''user-data'')) fs) (rs_cmd_id p),
     rs_result_code = pick (last_some (i32_at (ascii ''result'')) fs) (rs_result_code p),
     rs_payload = pick_some (last_some (inner_doc_at (ascii ''data'')) fs) (rs_payload p),
     rs_error_message = pick_some (last_some (str_at (ascii ''error_message'')) fs) (rs_error_message p)\<rparr>"
proof (induction fs arbitrary: p)
  case Nil
  then show ?case by (simp add: pick_def pick_some_def)
next
  case (Cons e fs)
  show ?case unfolding fold_Cons o_apply Cons.IH
    by (simp add: field_spec_parts) (simp add: pick_def pick_some_def split: option.splits)
qed

lemma handle_doc_response:
  "handle_doc es hs = (case response_of es of
     None \<Rightarrow> (None, hs)
   | Some p \<Rightarrow> if rs_cmd_id p = -1 then (None, hs) else take_handler (rs_cmd_id p) (result_of p) hs)"
proof (cases "is_response es")
  case False
  then have "response_of es = None"
    by (auto simp: is_response_def response_of_def split: list.splits bval.splits)
  then show ?thesis using False by (simp add: handle_doc_def command_of_def)
next
  case True
  then obtain fs where es: "es = (ascii ''00type'', VI32 1) # fs" by (cases es) (auto simp: is_response_def)
  have p: "response_of es = Some (fold field_spec fs initial_response)" by (simp add: es response_of_def)
  show ?thesis unfolding p option.case fold_field_spec
    using True by (auto simp: handle_doc_def command_of_def es take_handler_def result_of_def outcome_of_def code_of_def
        initial_response_def pick_def pick_some_def fun_upd_def split: option.splits)
qed

text \<open>Elements other than the one with the result.\<close>

lemma parse_field_scalar:
  assumes "at_pos (buffer r) p (enc_elem k v)" "wf_val v" "int (length (buffer r)) < 2147483640"
    "\<not> (k = ascii ''data'' \<and> val_type v = ELEMENT_DOC)"
  shows "parse_field (val_type v) (on_elem r p k v) q = Some (on_elem r p k v, field_spec (k, v) q)"
proof -
  note R = on_elem_reads_value [OF assms(1-3)]
  have k: "rd_key (on_elem r p k v) = k" by (simp add: on_elem_def)
  show ?thesis
  proof (cases v)
    case (VI32 x)
    then show ?thesis using R k keys_distinct by (auto simp: parse_field_def)
  next
    case (VStr s)
    have "geti32 (buffer (on_elem r p k v)) (buf_offset (on_elem r p k v)) = Some (int (length s) + 1)"
      "stringValue (on_elem r p k v) = Some s"
    proof -
      have ao: "at_pos (buffer r) (p + int (length k) + 2) (le_bytes 4 (int (length s) + 1) @ s @ [0])"
        using at_pos_append [of "buffer r" p "type_byte (val_type v) # k @ [0]" "enc_val v"] assms(1) VStr
        by (simp add: enc_elem_def algebra_simps)
      then show "geti32 (buffer (on_elem r p k v)) (buf_offset (on_elem r p k v)) = Some (int (length s) + 1)"
        using at_pos_geti32 [OF ao] at_pos_bounds [OF ao] assms(3) by (simp add: i32_range_def on_elem_def)
      show "stringValue (on_elem r p k v) = Some s" using R VStr by simp
    qed
    then have "message_bytes (on_elem r p k v) = Some s" by (simp add: message_bytes_def stringValue_def)
    then show ?thesis using VStr k keys_distinct by (auto simp: parse_field_def)
  next
    case (VDoc es)
    have "field_spec (k, VDoc es) q = q" using assms(4) VDoc by (cases "((k, VDoc es), q)" rule: field_spec.cases) auto
    then show ?thesis using VDoc k assms(4) by (simp add: parse_field_def)
  qed (use k in \<open>simp_all add: parse_field_def\<close>)
qed

text \<open>The element with the result: its first element, if it is a document, is the payload.\<close>

lemma parse_field_data:
  assumes "ready r p" "at_pos (buffer r) p (enc_elem k (VDoc sub))" "wf_elems sub" "doc_layers r = []" "k = ascii ''data''"
  shows "\<exists>r2. parse_field ELEMENT_DOC (on_elem r p k (VDoc sub)) q = Some (r2, field_spec (k, VDoc sub) q) \<and>
    ready r2 (p + int (length (enc_elem k (VDoc sub)))) \<and> buffer r2 = buffer r \<and> cur_doc_end r2 = cur_doc_end r \<and> doc_layers r2 = []"
proof -
  let ?r = "on_elem r p k (VDoc sub)" and ?n = "int (length (enc_elems sub)) + 5" and ?z = "p + int (length k) + 6"
  have bl: "int (length (buffer r)) < 2147483640" using assms(1) by (simp add: ready_def)
  note S = at_pos_sub [OF assms(2) _ bl, of sub, simplified]
  let ?s = "enter_sub ?r ?n"
  have b: "beginSub ?r = Some (True, ?s)"
    using beginSub_enter [of ?r ?n] S(1) assms(4) by (simp add: on_elem_def k_max_subdocs_def)
  have s: "ready ?s ?z" "buffer ?s = buffer r" "cur_doc_end ?s = p + int (length (enc_elem k (VDoc sub)))"
    "doc_layers ?s = [\<lparr>begin_offset = cur_doc_begin r, end_offset = cur_doc_end r, ds_arr_index = arr_index ?r\<rparr>]"
    using bl assms(4) by (simp_all add: enter_sub_def on_elem_def ready_def length_enc_elem)
  have k: "rd_key ?r = k" "k \<noteq> ascii ''user-data''" "k \<noteq> ascii ''service''" using keys_distinct by (auto simp: on_elem_def assms(5))
  obtain t r3 where n: "bson_next ?s = Some (t, r3)" "same_doc ?s r3"
    "(if t = ELEMENT_DOC then do { d \<leftarrow> subdoc_bytes r3; Some (q\<lparr>rs_payload := d\<rparr>) } else Some q) = Some (field_spec (k, VDoc sub) q)"
  proof (cases sub)
    case Nil
    have "bson_next ?s = Some (ELEMENT_END, ?s\<lparr>buf_offset := ?z + 1, element_start_offset := ?z, cur_type := ELEMENT_END\<rparr>)"
      using bson_next_end [OF s(1), of "[]"] S(2) Nil s(2) by simp
    then show ?thesis using that Nil by (simp add: same_doc_def)
  next
    case (Cons kv es)
    obtain k2 v where kv: "kv = (k2, v)" by force
    have at: "at_pos (buffer ?s) ?z (enc_elem k2 v)"
      using at_pos_append [of "buffer ?s" ?z "enc_elem k2 v"] S(2) s(2)
      by (simp add: Cons kv enc_elems_Cons del: enc_elems.simps)
    have lt: "?z + int (length (enc_elem k2 v)) < cur_doc_end ?s"
    proof -
      have "length (enc_elem k (VDoc sub)) = length k + length (enc_elems sub) + 7" by (simp add: length_enc_elem)
      moreover have "length (enc_elems sub) = length (enc_elem k2 v) + length (enc_elems es)"
        by (simp add: Cons kv enc_elems_Cons del: enc_elems.simps)
      ultimately show ?thesis using s(3) by linarith
    qed
    have wf: "0 \<notin> set k2" "wf_val v" using assms(3) by (simp_all add: Cons kv)
    note nx = bson_next_elem [OF s(1) at wf(1) lt]
    have sd: "same_doc ?s (on_elem ?s ?z k2 v)" by (simp add: same_doc_def on_elem_def)
    have "(if val_type v = ELEMENT_DOC then do { d \<leftarrow> subdoc_bytes (on_elem ?s ?z k2 v); Some (q\<lparr>rs_payload := d\<rparr>) } else Some q) =
        Some (field_spec (k, VDoc sub) q)"
    proof (cases v)
      case (VDoc d)
      let ?o = "?z + int (length k2) + 2"
      have "reads_value (on_elem ?s ?z k2 v) v" using on_elem_reads_value [OF at wf(2)] bl s(2) by simp
      moreover have "at_pos (buffer ?s) ?o (enc_doc d)"
        using at_pos_append [of "buffer ?s" ?z "type_byte (val_type v) # k2 @ [0]" "enc_val v"] at
        by (simp add: VDoc enc_elem_def enc_doc_def algebra_simps)
      ultimately have "subdoc_bytes (on_elem ?s ?z k2 v) = Some (Some (enc_doc d))"
        using at_pos_rd_bytes [of "buffer ?s" ?o "enc_doc d"] by (simp add: VDoc subdoc_bytes_def) (simp add: on_elem_def)
      then show ?thesis by (simp add: VDoc Cons kv assms(5))
    qed (simp_all add: Cons kv)
    then show ?thesis using that nx(1) sd by blast
  qed
  define r4 where "r4 = snd (endSub r3)"
  have l3: "doc_layers r3 = doc_layers ?s" "buffer r3 = buffer r" "cur_doc_end r3 = p + int (length (enc_elem k (VDoc sub)))"
    using n(2) s by (simp_all add: same_doc_def)
  have r4: "buffer r4 = buffer r" "cur_doc_end r4 = cur_doc_end r" "doc_layers r4 = []" "ready r4 (p + int (length (enc_elem k (VDoc sub))))"
    using l3 s(4) bl by (simp_all add: r4_def endSub_def ready_def)
  have "parse_field ELEMENT_DOC ?r q = Some (r4, field_spec (k, VDoc sub) q)"
    using k b n(1,3) by (simp add: parse_field_def assms(5) r4_def)
  then show ?thesis using r4 by blast
qed

lemma parse_loop_elems:
  assumes "ready r p" "at_pos (buffer r) p (enc_elems es @ [0])" "wf_elems es" "p + int (length (enc_elems es)) < cur_doc_end r" "doc_layers r = []"
  shows "parse_loop r q = Some (ELEMENT_END, fold field_spec es q)"
  using assms
proof (induction es arbitrary: r p q)
  case Nil
  then show ?case using bson_next_end [of r p "[]"] by (simp add: parse_loop.simps [of r] atEnd_def)
next
  case (Cons kv es)
  obtain k v where kv: "kv = (k, v)" by force
  let ?r = "on_elem r p k v" and ?q = "p + int (length (enc_elem k v))"
  have at: "at_pos (buffer r) p (enc_elem k v)" "at_pos (buffer r) ?q (enc_elems es @ [0])"
    using at_pos_append [of "buffer r" p "enc_elem k v" "enc_elems es @ [0]"] Cons.prems(2)
    by (simp_all add: kv enc_elems_Cons del: enc_elems.simps)
  have lt: "?q < cur_doc_end r" "?q + int (length (enc_elems es)) < cur_doc_end r"
    using Cons.prems(4) by (simp_all add: kv enc_elems_Cons del: enc_elems.simps)
  have wf: "0 \<notin> set k" "wf_val v" "wf_elems es" using Cons.prems(3) kv by auto
  note nx = bson_next_elem [OF Cons.prems(1) at(1) wf(1) lt(1)]
  have ne: "\<not> atEnd ?r" using val_type_pos [of v] by (cases v) (auto simp: atEnd_def reader_error_def on_elem_def)
  obtain r2 where r2: "parse_field (val_type v) ?r q = Some (r2, field_spec (k, v) q)" "ready r2 ?q" "buffer r2 = buffer r"
    "cur_doc_end r2 = cur_doc_end r" "doc_layers r2 = []"
  proof (cases "k = ascii ''data'' \<and> val_type v = ELEMENT_DOC")
    case True
    then obtain sub where v: "v = VDoc sub" by (cases v) auto
    then show ?thesis using parse_field_data [OF Cons.prems(1) at(1) [unfolded v] _ Cons.prems(5), of q] True wf(2) that by (auto simp: v)
  next
    case False
    then show ?thesis
      using parse_field_scalar [OF at(1) wf(2)] Cons.prems(1,5) nx(2) that [of ?r] by (auto simp: ready_def on_elem_def)
  qed
  have "parse_loop r q = parse_loop r2 (field_spec (k, v) q)" using nx(1) ne r2(1) by (simp add: parse_loop.simps [of r])
  then show ?case using Cons.IH [OF r2(2) _ wf(3), of "field_spec (k, v) q"] at(2) r2 lt(2) by (simp add: kv)
qed

lemma enc_doc_at: "data = pre @ enc_doc es @ post \<Longrightarrow> at_pos data (int (length pre) + 4) (enc_elems es @ [0])"
  using at_pos_append [of data "int (length pre)" "le_bytes 4 (int (length (enc_elems es)) + 5)" "enc_elems es @ [0]"]
  by (auto simp: at_pos_def enc_doc_def doc_frame_def)

lemma total_size_doc:
  assumes "int (length (enc_doc es)) < 2147483640"
  shows "getTotalDocumentSize (enc_doc es @ post) = Some (int (length (enc_doc es)))"
  using at_pos_geti32 [of "enc_doc es @ post" 0 "int (length (enc_elems es)) + 5" "enc_elems es @ [0] @ post"] assms
  by (simp add: getTotalDocumentSize_def at_pos_def enc_doc_def doc_frame_def i32_range_def)

lemma parsePacket_doc:
  assumes "wf_elems es" "int (length (enc_doc es @ post)) < 2147483640"
  shows "parsePacket (enc_doc es @ post) (int (length (enc_doc es))) hs = Some (handle_doc es hs)"
proof -
  let ?data = "enc_doc es @ post" and ?n = "int (length (enc_doc es))"
  define r where "r = (reader_members ?data ?n)\<lparr>cur_type := ELEMENT_INTERNAL_DOC_BEGIN, buf_offset := 4, cur_doc_begin := 4, cur_doc_end := ?n\<rparr>"
  have sz: "bson_reader_sized (Some ?data) ?n = Some r"
    using total_size_doc [of es post] assms(2) by (simp add: bson_reader_sized_def getTotalDocumentSize_def r_def length_enc_doc)
  have R: "ready r 4" "at_pos (buffer r) 4 (enc_elems es @ [0])" "4 + int (length (enc_elems es)) < cur_doc_end r" "doc_layers r = []"
    using assms(2) enc_doc_at [of ?data "[]" es post] by (simp_all add: ready_def r_def reader_members_def length_enc_doc)
  show ?thesis
  proof (cases es)
    case Nil
    have "bson_next r = Some (ELEMENT_END, r\<lparr>buf_offset := 5, element_start_offset := 4, cur_type := ELEMENT_END\<rparr>)"
      using bson_next_end [OF R(1), of "[]"] R(2) Nil by simp
    then show ?thesis using sz Nil by (simp add: parsePacket_def handle_doc_response response_of_def)
  next
    case (Cons kv fs)
    obtain k v where kv: "kv = (k, v)" by force
    let ?r = "on_elem r 4 k v" and ?q = "4 + int (length (enc_elem k v))"
    have at: "at_pos (buffer r) 4 (enc_elem k v)" "at_pos (buffer r) ?q (enc_elems fs @ [0])"
      using at_pos_append [of "buffer r" 4 "enc_elem k v" "enc_elems fs @ [0]"] R(2)
      by (simp_all add: Cons kv enc_elems_Cons del: enc_elems.simps)
    have lt: "?q < cur_doc_end r" "?q + int (length (enc_elems fs)) < cur_doc_end r"
      using R(3) by (simp_all add: Cons kv enc_elems_Cons del: enc_elems.simps)
    have wf: "0 \<notin> set k" "wf_val v" "wf_elems fs" using assms(1) by (simp_all add: Cons kv)
    note nx = bson_next_elem [OF R(1) at(1) wf(1) lt(1)]
    have rv: "reads_value ?r v" using on_elem_reads_value [OF at(1) wf(2)] R(1) by (simp add: ready_def)
    have loop: "parse_loop ?r q = Some (ELEMENT_END, fold field_spec fs q)" for q
      using parse_loop_elems [OF nx(2) _ wf(3)] at(2) lt(2) R(4) by (simp add: on_elem_def)
    have k: "rd_key ?r = k" by (simp add: on_elem_def)
    show ?thesis
      using sz nx(1) rv loop k by (cases v) (auto simp: parsePacket_def handle_doc_response response_of_def Cons kv isError_def Let_def)
  qed
qed

section \<open>Framing\<close>

fun handle_all ::
  "('cb \<Rightarrow> async_result \<Rightarrow> (int \<rightharpoonup> 'cb) \<Rightarrow> (int \<rightharpoonup> 'cb)) \<Rightarrow> bdoc list \<Rightarrow> (int \<rightharpoonup> 'cb) \<Rightarrow>
   ('cb \<times> async_result) list \<times> (int \<rightharpoonup> 'cb)" where
  "handle_all run_cb [] hs = ([], hs)"
| "handle_all run_cb (d # ds) hs =
     (case handle_doc d hs of (call, hs) \<Rightarrow>
        (case handle_all run_cb ds (case call of None \<Rightarrow> hs | Some (cb, res) \<Rightarrow> run_cb cb res hs) of
           (calls, hs) \<Rightarrow> ((case call of None \<Rightarrow> [] | Some c \<Rightarrow> [c]) @ calls, hs)))"

lemma handle_all_append:
  "handle_all run_cb (xs @ ys) hs = (case handle_all run_cb xs hs of (c1, hs) \<Rightarrow>
     (case handle_all run_cb ys hs of (c2, hs) \<Rightarrow> (c1 @ c2, hs)))"
  by (induction xs arbitrary: hs) (simp_all split: prod.splits)

definition encs :: "bdoc list \<Rightarrow> bytes" where
  "encs ds = concat (map enc_doc ds)"

lemma encs_simps [simp]: "encs [] = []" "encs (d # ds) = enc_doc d @ encs ds" "encs (xs @ ys) = encs xs @ encs ys"
  by (simp_all add: encs_def)

text \<open>The bytes in front of the next complete document: too few, or fewer than they announce.\<close>

definition incomplete :: "bytes \<Rightarrow> bytes \<Rightarrow> bool" where
  "incomplete rest post \<longleftrightarrow> length rest < 5 \<or> (\<exists>n. getTotalDocumentSize (rest @ post) = Some n \<and> n > int (length rest))"

lemma parse_packets_docs:
  assumes "\<forall>d\<in>set ds. wf_elems d" "int (length (pre @ encs ds @ rest @ post)) < 2147483640" "incomplete rest post"
  shows "parse_packets run_cb (pre @ encs ds @ rest @ post) (int (length (pre @ encs ds @ rest))) (int (length pre)) hs =
    Some (int (length (pre @ encs ds)), handle_all run_cb ds hs)"
  using assms(1,2)
proof (induction ds arbitrary: pre hs)
  case Nil
  then show ?case using assms(3)
    by (subst parse_packets.simps) (auto simp: incomplete_def k_min_valid_bson_size_def)
next
  case (Cons d ds)
  let ?buf = "pre @ encs (d # ds) @ rest @ post"
  have drp: "drop (nat (int (length pre))) ?buf = enc_doc d @ encs ds @ rest @ post" by simp
  have lim: "int (length (enc_doc d @ encs ds @ rest @ post)) < 2147483640" using Cons.prems(2) by simp
  have ts: "getTotalDocumentSize (enc_doc d @ encs ds @ rest @ post) = Some (int (length (enc_doc d)))"
    using total_size_doc [of d "encs ds @ rest @ post"] lim by simp
  obtain call hs1 where h: "handle_doc d hs = (call, hs1)" by force
  have pp: "parsePacket (enc_doc d @ encs ds @ rest @ post) (int (length (enc_doc d))) hs = Some (call, hs1)"
    using parsePacket_doc [of d "encs ds @ rest @ post" hs] lim Cons.prems(1) h by simp
  define hs2 where "hs2 = (case call of None \<Rightarrow> hs1 | Some (cb, res) \<Rightarrow> run_cb cb res hs1)"
  have IH: "parse_packets run_cb ?buf (int (length (pre @ encs (d # ds) @ rest))) (int (length pre) + int (length (enc_doc d))) hs2 =
      Some (int (length (pre @ encs (d # ds))), handle_all run_cb ds hs2)"
    using Cons.IH [of "pre @ enc_doc d" hs2] Cons.prems by simp
  have l5: "5 \<le> length (enc_doc d)" by (simp add: length_enc_doc)
  then have ne: "enc_doc d \<noteq> []" by auto
  show ?case
    using l5 ne ts pp IH
    by (subst parse_packets.simps) (simp add: drp k_min_valid_bson_size_def h hs2_def [symmetric] split: prod.splits)
qed

lemma tryParsePacket_docs:
  assumes "\<forall>d\<in>set ds. wf_elems d" "receive_buffer s = encs ds @ rest @ post" "receive_buffer_used s = int (length (encs ds @ rest))"
    "incomplete rest post" "length (receive_buffer s) = k_rx_buffer_size" "length (encs ds) + length (encs ds @ rest) \<le> k_rx_buffer_size"
  shows "\<exists>post'. tryParsePacket run_cb s = Some (fst (handle_all run_cb ds (rx_handlers s)),
      s\<lparr>receive_buffer := rest @ post', receive_buffer_used := int (length rest), rx_handlers := snd (handle_all run_cb ds (rx_handlers s))\<rparr>) \<and>
    length (rest @ post') = k_rx_buffer_size"
proof -
  let ?o = "length (encs ds)" and ?u = "length (encs ds @ rest)"
  obtain calls hs where h: "handle_all run_cb ds (rx_handlers s) = (calls, hs)" by force
  have lim: "int (length ([] @ encs ds @ rest @ post)) < 2147483640" using assms(2,5) by (simp add: k_rx_buffer_size_def)
  have pp: "parse_packets run_cb (receive_buffer s) (receive_buffer_used s) 0 (rx_handlers s) = Some (int ?o, calls, hs)"
    using parse_packets_docs [OF assms(1) lim assms(4), of run_cb "rx_handlers s"] h by (simp add: assms(2,3))
  show ?thesis
  proof (cases "0 < ?o \<and> rest \<noteq> []")
    case True
    define bs where "bs = take ?u (drop ?o (receive_buffer s))"
    have rd: "rd_bytes (receive_buffer s) (int ?o) ?u = Some bs" using assms(5,6) by (simp add: rd_bytes_def bs_def)
    have lb: "length bs = ?u" using assms(5,6) by (simp add: bs_def)
    have wr: "wr_bytes (receive_buffer s) 0 bs = Some (bs @ drop ?u (receive_buffer s))"
      using lb assms(2) by (simp add: wr_bytes_def)
    have "bs = rest @ take (?u - length rest) post" by (simp add: bs_def assms(2))
    then have e: "bs @ drop ?u (receive_buffer s) = rest @ (take (?u - length rest) post @ drop ?u (receive_buffer s))" by simp
    have "length (bs @ drop ?u (receive_buffer s)) = k_rx_buffer_size" using lb assms(5,6) by simp
    moreover have "tryParsePacket run_cb s = Some (calls, s\<lparr>receive_buffer := bs @ drop ?u (receive_buffer s),
        receive_buffer_used := int (length rest), rx_handlers := hs\<rparr>)"
    proof -
      have c: "int ?o > 0 \<and> int ?o < receive_buffer_used s" "receive_buffer_used s - int ?o = int (length rest)"
        "nat (receive_buffer_used s) = ?u" using True assms(3) by simp_all
      show ?thesis unfolding tryParsePacket_def pp by (simp only: bind.simps prod.case c rd wr if_True simp_thms)
    qed
    ultimately show ?thesis unfolding e h fst_conv snd_conv by blast
  next
    case False
    have z: "rest = [] \<or> encs ds = []" using False by auto
    obtain post' where p': "receive_buffer s = rest @ post'" using z assms(2) by auto
    have "tryParsePacket run_cb s = Some (calls, s\<lparr>receive_buffer := receive_buffer s, receive_buffer_used := int (length rest), rx_handlers := hs\<rparr>)"
      using pp False assms(3) by (auto simp: tryParsePacket_def)
    then show ?thesis using p' h assms(5) by (intro exI [of _ post']) simp
  qed
qed

section \<open>Reads of any size\<close>

lemma split_docs:
  assumes "xs @ ys = encs ds"
  shows "\<exists>ds1 ds2 rest. ds = ds1 @ ds2 \<and> xs = encs ds1 @ rest \<and> rest @ ys = encs ds2 \<and>
    (ds2 = [] \<longrightarrow> rest = []) \<and> (ds2 \<noteq> [] \<longrightarrow> length rest < length (enc_doc (hd ds2)))"
  using assms
proof (induction ds arbitrary: xs)
  case (Cons d ds)
  show ?case
  proof (cases "length xs < length (enc_doc d)")
    case True
    then show ?thesis using Cons.prems by (intro exI [of _ "[]"] exI [of _ "d # ds"] exI [of _ xs]) simp
  next
    case False
    then have x: "xs = enc_doc d @ drop (length (enc_doc d)) xs" and y: "drop (length (enc_doc d)) xs @ ys = encs ds"
      using arg_cong [OF Cons.prems, of "take (length (enc_doc d))"] arg_cong [OF Cons.prems, of "drop (length (enc_doc d))"]
      by (simp_all, metis append_take_drop_id)
    obtain ds1 ds2 rest where "ds = ds1 @ ds2" "drop (length (enc_doc d)) xs = encs ds1 @ rest" "rest @ ys = encs ds2"
      "ds2 = [] \<longrightarrow> rest = []" "ds2 \<noteq> [] \<longrightarrow> length rest < length (enc_doc (hd ds2))"
      using Cons.IH [OF y] by blast
    then show ?thesis using x by (intro exI [of _ "d # ds1"] exI [of _ ds2] exI [of _ rest]) simp
  qed
qed simp

lemma incomplete_prefix:
  assumes "rest @ ys = encs ds" "ds = [] \<longrightarrow> rest = []" "ds \<noteq> [] \<longrightarrow> length rest < length (enc_doc (hd ds))"
    "ds \<noteq> [] \<longrightarrow> int (length (enc_doc (hd ds))) < 2147483640"
  shows "incomplete rest post"
proof (cases "length rest < 5")
  case False
  then obtain d ds' where ds: "ds = d # ds'" using assms(2) by (cases ds) auto
  have t: "take 4 rest = take 4 (enc_doc d)"
    using arg_cong [OF assms(1), of "take 4"] False by (simp add: ds length_enc_doc)
  have g: "getTotalDocumentSize (enc_doc d @ []) = Some (int (length (enc_doc d)))" using total_size_doc [of d "[]"] assms(4) ds by simp
  have "rd_bytes (rest @ post) 0 4 = rd_bytes (enc_doc d) 0 4" using t False by (simp add: rd_bytes_def length_enc_doc)
  then have "getTotalDocumentSize (rest @ post) = Some (int (length (enc_doc d)))"
    using g by (simp add: getTotalDocumentSize_def geti32_def)
  then show ?thesis using assms(3) ds by (simp add: incomplete_def)
qed (simp add: incomplete_def)

text \<open>Reads that complete one after the other.\<close>

fun rx_reads ::
  "('cb \<Rightarrow> async_result \<Rightarrow> (int \<rightharpoonup> 'cb) \<Rightarrow> (int \<rightharpoonup> 'cb)) \<Rightarrow> bytes list \<Rightarrow> 'cb rx_state \<Rightarrow> (('cb \<times> async_result) list \<times> 'cb rx_state) option" where
  "rx_reads run_cb [] s = Some ([], s)"
| "rx_reads run_cb (c # cs) s = do {
     (calls, s) \<leftarrow> rx_complete run_cb c s;
     (calls', s) \<leftarrow> rx_reads run_cb cs s;
     Some (calls @ calls', s)
   }"

lemma rx_reads_docs:
  assumes "\<forall>d\<in>set ds. wf_elems d \<and> length (enc_doc d) \<le> D" "\<forall>c\<in>set cs. length c \<le> C" "D + C \<le> 0x8000"
    "receive_buffer s = rest @ post" "receive_buffer_used s = int (length rest)" "length (receive_buffer s) = k_rx_buffer_size"
    "rest @ concat cs = encs ds" "ds = [] \<longrightarrow> rest = []" "ds \<noteq> [] \<longrightarrow> length rest < length (enc_doc (hd ds))"
  shows "\<exists>s'. rx_reads run_cb cs s = Some (fst (handle_all run_cb ds (rx_handlers s)), s') \<and>
    receive_buffer_used s' = 0 \<and> rx_handlers s' = snd (handle_all run_cb ds (rx_handlers s))"
  using assms(1,2,4-9)
proof (induction cs arbitrary: ds s rest post)
  case Nil
  then have "ds = []" by (cases ds) auto
  then show ?case using Nil by simp
next
  case (Cons c cs)
  have "(rest @ c) @ concat cs = encs ds" using Cons.prems(6) by simp
  then obtain ds1 ds2 rest' where S: "ds = ds1 @ ds2" "rest @ c = encs ds1 @ rest'" "rest' @ concat cs = encs ds2"
    "ds2 = [] \<longrightarrow> rest' = []" "ds2 \<noteq> [] \<longrightarrow> length rest' < length (enc_doc (hd ds2))"
    using split_docs by blast
  have lr: "length rest \<le> D" using Cons.prems(1,7,8) by (cases ds) auto
  have lc: "length rest + length c \<le> 0x8000" using lr Cons.prems(2) assms(3) by simp
  have l1: "length (encs ds1 @ rest') \<le> 0x8000" using lc S(2) by (metis length_append)
  define buf where "buf = rest @ c @ drop (length c) post"
  have lp: "length c \<le> length post" using lc Cons.prems(3,5) by (simp add: k_rx_buffer_size_def)
  have wr: "wr_bytes (receive_buffer s) (receive_buffer_used s) c = Some buf"
    using lp by (simp add: wr_bytes_def Cons.prems(3,4) buf_def)
  define s1 where "s1 = s\<lparr>receive_buffer := buf, receive_buffer_used := int (length (rest @ c))\<rparr>"
  have s1: "receive_buffer s1 = encs ds1 @ rest' @ drop (length c) post" "receive_buffer_used s1 = int (length (encs ds1 @ rest'))"
    "length (receive_buffer s1) = k_rx_buffer_size" "rx_handlers s1 = rx_handlers s"
    using S(2) lp Cons.prems(3,5) by (simp_all add: s1_def buf_def)
  have inc: "incomplete rest' (drop (length c) post)"
  proof (rule incomplete_prefix [OF S(3-5)], rule impI)
    assume "ds2 \<noteq> []"
    then have "length (enc_doc (hd ds2)) \<le> D" using Cons.prems(1) S(1) by auto
    then show "int (length (enc_doc (hd ds2))) < 2147483640" using assms(3) by simp
  qed
  have cap: "length (encs ds1) + length (encs ds1 @ rest') \<le> k_rx_buffer_size" using l1 by (simp add: k_rx_buffer_size_def)
  have wf1: "\<forall>d\<in>set ds1. wf_elems d" using Cons.prems(1) S(1) by simp
  obtain post' where T: "tryParsePacket run_cb s1 = Some (fst (handle_all run_cb ds1 (rx_handlers s1)),
      s1\<lparr>receive_buffer := rest' @ post', receive_buffer_used := int (length rest'), rx_handlers := snd (handle_all run_cb ds1 (rx_handlers s1))\<rparr>)"
    "length (rest' @ post') = k_rx_buffer_size"
    using tryParsePacket_docs [OF wf1 s1(1,2) inc s1(3) cap, of run_cb] by blast
  define s2 where "s2 = s1\<lparr>receive_buffer := rest' @ post', receive_buffer_used := int (length rest'), rx_handlers := snd (handle_all run_cb ds1 (rx_handlers s))\<rparr>"
  have rc: "rx_complete run_cb c s = Some (fst (handle_all run_cb ds1 (rx_handlers s)), s2)"
    using wr T(1) s1(4) Cons.prems(4) by (simp add: rx_complete_def s2_def s1_def)
  obtain s' where "rx_reads run_cb cs s2 = Some (fst (handle_all run_cb ds2 (rx_handlers s2)), s')" "receive_buffer_used s' = 0"
    "rx_handlers s' = snd (handle_all run_cb ds2 (rx_handlers s2))"
    using Cons.IH [of ds2 s2 rest' post'] Cons.prems(1,2) S(1,3-5) T(2) by (auto simp: s2_def)
  then show ?case using rc
    by (intro exI [of _ s']) (simp add: S(1) handle_all_append s2_def split: prod.splits)
qed

section \<open>Bytes that are not documents\<close>

lemma parse_packets_total:
  assumes "used + 5 \<le> int (length buf)" "used < 2147483640" "0 \<le> offset" "offset \<le> used"
  shows "\<exists>off calls hs'. parse_packets run_cb buf used offset hs = Some (off, calls, hs') \<and> offset \<le> off \<and> off \<le> used"
  using assms
proof (induction "nat (used - offset)" arbitrary: offset hs rule: less_induct)
  case less
  let ?d = "drop (nat offset) buf"
  show ?case
  proof (cases "used - offset \<ge> k_min_valid_bson_size")
    case False
    then show ?thesis using less.prems by (subst parse_packets.simps) simp
  next
    case True
    have ld: "int (length ?d) = int (length buf) - offset" using less.prems by simp
    obtain n where n: "getTotalDocumentSize ?d = Some n"
      using geti32_Some [of 0 ?d] True less.prems ld by (auto simp: getTotalDocumentSize_def k_min_valid_bson_size_def)
    show ?thesis
    proof (cases "n \<le> 0 \<or> n > used - offset")
      case out: True
      then show ?thesis using n True less.prems by (subst parse_packets.simps) auto
    next
      case False
      have "padded ?d n" using n False ld less.prems(1,2,3) by (simp only: padded_def n option.inject) linarith
      then obtain call hs1 where pp: "parsePacket ?d n hs = Some (call, hs1)" using parsePacket_total [of ?d n hs] by auto
      have "nat (used - (offset + n)) < nat (used - offset)" "0 \<le> offset + n" "offset + n \<le> used" using False less.prems by simp_all
      then obtain off calls hs' where "parse_packets run_cb buf used (offset + n)
          (case call of None \<Rightarrow> hs1 | Some (cb, res) \<Rightarrow> run_cb cb res hs1) = Some (off, calls, hs')" "offset + n \<le> off" "off \<le> used"
        using less.hyps less.prems(1,2) by blast
      then show ?thesis using True n False pp by (subst parse_packets.simps) simp
    qed
  qed
qed

section \<open>Properties\<close>

text \<open>C24: responses reach their commands. Let the backend send any sequence of well-formed documents and
  let the reads cut the byte stream anywhere, where the largest document and the largest read together
  have at most 32 KiB, half of the buffer (beyond it the final move reads outside, see
  \<open>receive_move_overreads\<close>). Then the documents are interpreted one after the other: the handler of the
  command that a response names is called exactly once, with what the response says, and is removed,
  and nothing remains in the buffer.\<close>

theorem responses_dispatched:
  assumes "\<forall>d\<in>set ds. wf_elems d \<and> length (enc_doc d) \<le> D" "\<forall>c\<in>set cs. length c \<le> C" "D + C \<le> 0x8000"
    "concat cs = encs ds" "length buf = k_rx_buffer_size"
  shows "\<exists>s'. rx_reads run_cb cs \<lparr>receive_buffer = buf, receive_buffer_used = 0, rx_handlers = hs\<rparr> =
      Some (fst (handle_all run_cb ds hs), s') \<and>
    receive_buffer_used s' = 0 \<and> rx_handlers s' = snd (handle_all run_cb ds hs)"
proof -
  have "ds \<noteq> [] \<longrightarrow> length ([] :: bytes) < length (enc_doc (hd ds))" by (simp add: length_enc_doc)
  then show ?thesis
    using rx_reads_docs [OF assms(1-3), of "\<lparr>receive_buffer = buf, receive_buffer_used = 0, rx_handlers = hs\<rparr>" "[]" buf run_cb] assms(4,5)
    by simp
qed

definition wit_response :: bdoc where
  "wit_response = [(ascii ''00type'', VI32 1), (ascii ''user-data'', VI32 7), (ascii ''result'', VI32 3), (ascii ''error_message'', VStr [78, 79])]"

theorem responses_dispatched_witness:
  "\<exists>s'. rx_reads (\<lambda>cb res hs. hs) [take 9 (enc_doc wit_response), drop 9 (enc_doc wit_response)]
      \<lparr>receive_buffer = replicate k_rx_buffer_size 0, receive_buffer_used = 0, rx_handlers = [7 \<mapsto> ''cb'']\<rparr> =
    Some ([(''cb'', Failure 3 (Some [78, 79]))], s') \<and> rx_handlers s' 7 = None"
proof -
  have wf: "wf_elems wit_response" "length (enc_doc wit_response) = 66"
    by (simp_all add: wit_response_def ascii_def i32_range_def length_enc_doc)
  have h: "handle_all (\<lambda>cb res hs. hs) [wit_response] [7 \<mapsto> ''cb''] = ([(''cb'', Failure 3 (Some [78, 79]))], (\<lambda>_. None))"
    by (auto simp: wit_response_def handle_doc_def command_of_def is_response_def outcome_of_def code_of_def i32_at_def str_at_def
        keys_distinct keys_distinct [symmetric])
  show ?thesis
    using responses_dispatched [of "[wit_response]" 66 "[take 9 (enc_doc wit_response), drop 9 (enc_doc wit_response)]" 100
        "replicate k_rx_buffer_size 0" "\<lambda>cb res hs. hs" "[7 \<mapsto> ''cb'']"] wf h
    by auto
qed

text \<open>C25: hostile input, in the build without assertions. Whatever bytes the connection delivers, as long
  as the bytes in use and those of the read have at most 32 KiB, handling a read stays inside the buffer
  and ends: no document of the peer can make the loop over packets, the loop over elements or the final
  move of the rest fault or hang. A build with assertions stops at an element of an unsupported
  type (\<open>packet_stops_strict_build\<close>).\<close>

theorem receive_safe:
  assumes "length (receive_buffer s) = k_rx_buffer_size" "0 \<le> receive_buffer_used s" "receive_buffer_used s + int (length bs) \<le> 0x8000"
  shows "rx_complete run_cb bs s \<noteq> None"
proof -
  let ?u = "receive_buffer_used s + int (length bs)"
  obtain buf where b: "wr_bytes (receive_buffer s) (receive_buffer_used s) bs = Some buf"
    using wr_bytes_Some [of "receive_buffer_used s" bs "receive_buffer s"] assms by (auto simp: k_rx_buffer_size_def)
  have lb: "length buf = k_rx_buffer_size" using length_wr_bytes [OF b] assms(1) by simp
  obtain off calls hs' where p: "parse_packets run_cb buf ?u 0 (rx_handlers s) = Some (off, calls, hs')" "0 \<le> off" "off \<le> ?u"
    using parse_packets_total [of ?u buf 0 run_cb "rx_handlers s"] assms lb by (auto simp: k_rx_buffer_size_def)
  obtain x where x: "rd_bytes buf off (nat ?u) = Some x" "length x = nat ?u"
    using rd_bytes_Some [of off "nat ?u" buf] p assms lb by (auto simp: k_rx_buffer_size_def)
  obtain y where y: "wr_bytes buf 0 x = Some y"
    using wr_bytes_Some [of 0 x buf] x(2) assms lb by (auto simp: k_rx_buffer_size_def)
  show ?thesis using b p(1) x(1) y by (simp add: rx_complete_def tryParsePacket_def)
qed

theorem receive_safe_witness:
  "rx_complete (\<lambda>cb res hs. hs) [7, 0, 0, 0, 2, 0, 0] \<lparr>receive_buffer = replicate k_rx_buffer_size 0, receive_buffer_used = 0, rx_handlers = [1 \<mapsto> ()]\<rparr> \<noteq> None"
  by (rule receive_safe) (simp_all add: k_rx_buffer_size_def)

text \<open>The packet of thirteen bytes has the head of a response and then an element of the type 0x06: without
  assertions it is dropped, with them the program stops in the second call of \<^verbatim>\<open>next\<close>.\<close>

lemma packet_stops_strict_build:
  "\<exists>r r1. bson_reader_sized (Some ([19, 0, 0, 0, 16] @ ascii ''00type'' @ [0, 1, 0, 0, 0, 6, 0] @ replicate 5 0)) 19 = Some r \<and>
     bson_next r = Some (ELEMENT_I32, r1) \<and> int32Value r1 = Some 1 \<and>
     map_option fst (bson_next r1) = Some ELEMENT_FORMAT_ERROR \<and> bson_next_strict r1 = None"
proof -
  let ?buf = "[19, 0, 0, 0, 16] @ ascii ''00type'' @ [0, 1, 0, 0, 0, 6, 0] @ replicate 5 0"
  define r where "r = the (bson_reader_sized (Some ?buf) 19)"
  define r1 where "r1 = snd (the (bson_next r))"
  have s: "bson_reader_sized (Some ?buf) 19 = Some r"
    unfolding r_def by (simp add: bson_reader_sized_def Let_def geti32_def rd_bytes_def i32_def ascii_def)
  have "map_option fst (bson_next r) = Some ELEMENT_I32" unfolding r_def by code_simp
  then have n: "bson_next r = Some (ELEMENT_I32, r1)" by (auto simp: r1_def)
  have "int32Value r1 = Some 1" unfolding r1_def r_def by code_simp
  moreover have "map_option fst (bson_next r1) = Some ELEMENT_FORMAT_ERROR" unfolding r1_def r_def by code_simp
  moreover have "bson_next_strict r1 = None" unfolding r1_def r_def by code_simp
  ultimately show ?thesis using s n by blast
qed

text \<open>Beyond half of the buffer the move of the rest reads outside it. It moves as many bytes as
  were in use instead of those that remain: when the documents before the rest and the bytes in use
  together exceed the buffer, the source range of the copy ends behind the buffer.\<close>

theorem receive_move_overreads:
  assumes "\<forall>d\<in>set ds. wf_elems d" "receive_buffer s = encs ds @ rest @ post" "receive_buffer_used s = int (length (encs ds @ rest))"
    "length (receive_buffer s) = k_rx_buffer_size" "rest \<noteq> []" "length rest < 5" "length (encs ds) + length (encs ds @ rest) > k_rx_buffer_size"
  shows "tryParsePacket run_cb s = None"
proof -
  have lim: "int (length ([] @ encs ds @ rest @ post)) < 2147483640" using assms(2,4) by (simp add: k_rx_buffer_size_def)
  have "incomplete rest post" using assms(6) by (simp add: incomplete_def)
  from parse_packets_docs [OF assms(1) lim this, of run_cb "rx_handlers s"]
  obtain calls hs where pp: "parse_packets run_cb (receive_buffer s) (receive_buffer_used s) 0 (rx_handlers s) = Some (int (length (encs ds)), calls, hs)"
    by (cases "handle_all run_cb ds (rx_handlers s)") (simp add: assms(2,3))
  have u: "nat (receive_buffer_used s) = length (encs ds @ rest)" by (simp only: assms(3) nat_int)
  have "0 < length (encs ds)"
  proof (rule ccontr)
    assume "\<not> 0 < length (encs ds)"
    then show False using assms(2,4,7) by simp
  qed
  then have c: "int (length (encs ds)) > 0 \<and> int (length (encs ds)) < receive_buffer_used s" using assms(3,5) by simp
  have "rd_bytes (receive_buffer s) (int (length (encs ds))) (length (encs ds @ rest)) = None"
    using assms(4,7) by (simp add: rd_bytes_def)
  then show ?thesis unfolding tryParsePacket_def pp by (simp only: bind.simps prod.case c u if_True simp_thms)
qed

definition wit_docs :: "bdoc list" where
  "wit_docs = [[([], VBinary 0 (replicate 40000 0))]]"

theorem receive_move_overreads_witness:
  "tryParsePacket (\<lambda>cb res hs. hs) \<lparr>receive_buffer = encs wit_docs @ [1] @ replicate 25523 0, receive_buffer_used = int (length (encs wit_docs @ [1])),
     rx_handlers = (\<lambda>_. None :: unit option)\<rparr> = None"
proof -
  have l: "length (encs wit_docs) = 40012" by (simp add: wit_docs_def length_enc_doc)
  show ?thesis
    by (rule receive_move_overreads [of wit_docs _ "[1]" "replicate 25523 0"]) (simp_all add: l k_rx_buffer_size_def, simp add: wit_docs_def)
qed

end
