(* ===== verification/Sim_Data.thy ===== *)
theory Sim_Data
  imports Device_Properties Commands
begin

unbundle bit_operations_syntax

text \<open>
  core/src/sim_data.cpp and core/src/sim_data_builder.cpp: the data of a simulator (its vehicles,
  participants, sessions, tracks and tires) as a BSON document that is built by one program, passed on
  by the backend and parsed by another. A pointer to a section of the document is the bytes of that
  subdocument; a builder is the BSON builder it is made of.
\<close>

section \<open>Numeric keys\<close>

text \<open>Ids of participants and tires are keys of four hexadecimal digits.\<close>

fun key_loop :: "bytes \<Rightarrow> int \<Rightarrow> int" where
  "key_loop [] num = num"
| "key_loop (c # s) num =
     (if 48 \<le> uint c \<and> uint c \<le> 57 then key_loop s (num * 16 + (uint c - 48))
      else if 65 \<le> uint c \<and> uint c \<le> 70 then key_loop s (num * 16 + (uint c - 65) + 10)
      else if 97 \<le> uint c \<and> uint c \<le> 102 then key_loop s (num * 16 + (uint c - 97) + 10)
      else -1)"

definition convertStringNumericKey :: "bytes \<Rightarrow> int" where
  "convertStringNumericKey s = (if length s \<noteq> 4 then -1 else key_loop s 0)"

definition k_hex :: bytes where
  "k_hex = [48, 49, 50, 51, 52, 53, 54, 55, 56, 57, 97, 98, 99, 100, 101, 102]"

text \<open>The key an id is written with; the assertion on its range is \<^term>\<open>None\<close>.\<close>

definition hex16_key :: "int \<Rightarrow> bytes option" where
  "hex16_key i = (if i > 0 \<and> i \<le> 0xffff
     then Some [k_hex ! nat (drop_bit 12 i AND 0xf), k_hex ! nat (drop_bit 8 i AND 0xf), k_hex ! nat (drop_bit 4 i AND 0xf), k_hex ! nat (drop_bit 0 i AND 0xf)]
     else None)"

section \<open>Parsing\<close>

record sim_raw =
  sr_revision :: int
  active_session_idx :: int
  sr_sim :: "(bytes \<times> bytes) option"
  vehicles :: "(bytes \<times> bytes) list"
  sessions :: "(bytes \<times> bytes) list"
  tracks :: "(bytes \<times> bytes) list"
  participants :: "(int \<times> bytes) list"
  tires :: "(int \<times> bytes) list"
  participant_raw_bson :: "bytes option"
  vehicles_raw_bson :: "bytes option"
  tires_raw_bson :: "bytes option"

definition new_raw :: sim_raw where
  "new_raw = \<lparr>sr_revision = 0, active_session_idx = -1, sr_sim = None, vehicles = [], sessions = [], tracks = [], participants = [],
     tires = [], participant_raw_bson = None, vehicles_raw_bson = None, tires_raw_bson = None\<rparr>"

text \<open>The inner loops: \<^verbatim>\<open>while (!r.atEnd())\<close> over \<^verbatim>\<open>next\<close>.\<close>

partial_function (option) until_end ::
  "(element_type \<Rightarrow> bson_reader \<Rightarrow> 's \<Rightarrow> 's option) \<Rightarrow> bson_reader \<Rightarrow> 's \<Rightarrow> (bson_reader \<times> 's) option" where
  "until_end body r s =
     (if atEnd r then Some (r, s)
      else (case bson_next r of
          None \<Rightarrow> None
        | Some (t, r) \<Rightarrow> (case body t r s of None \<Rightarrow> None | Some s \<Rightarrow> until_end body r s)))"

declare until_end.simps [code]

definition section_of :: "bson_reader \<Rightarrow> bytes option" where
  "section_of r = do { d \<leftarrow> subdoc_bytes r; d }"

definition named_item :: "element_type \<Rightarrow> bson_reader \<Rightarrow> (bytes \<times> bytes) list \<Rightarrow> (bytes \<times> bytes) list option" where
  "named_item t r xs =
     (if t = ELEMENT_DOC then do { b \<leftarrow> section_of r; Some (xs @ [(rd_key r, b)]) } else Some xs)"

definition numbered_item :: "element_type \<Rightarrow> bson_reader \<Rightarrow> (int \<times> bytes) list \<Rightarrow> (int \<times> bytes) list option" where
  "numbered_item t r xs = (let i = convertStringNumericKey (rd_key r) in
     if i = -1 then Some xs
     else if t = ELEMENT_DOC then do { b \<leftarrow> section_of r; Some (xs @ [(i, b)]) } else Some xs)"

definition sub_items :: "(element_type \<Rightarrow> bson_reader \<Rightarrow> 's \<Rightarrow> 's option) \<Rightarrow> bson_reader \<Rightarrow> 's \<Rightarrow> (bson_reader \<times> 's) option" where
  "sub_items body r s = do {
     (ok, r) \<leftarrow> beginSub r;
     (r, s) \<leftarrow> until_end body r s;
     Some (snd (endSub r), s)
   }"

record sim_parse =
  sp_raw :: sim_raw
  sim_data_ptr :: "bytes option"
  active_session :: bytes
  active_sim :: bytes

definition sim_item :: "element_type \<Rightarrow> bson_reader \<Rightarrow> sim_parse \<Rightarrow> (bson_reader \<times> sim_parse) option" where
  "sim_item t r p = (let raw = sp_raw p in
     if t = ELEMENT_DOC then
       (if rd_key r = ascii ''vehicles'' then do {
          b \<leftarrow> subdoc_bytes r;
          (r, xs) \<leftarrow> sub_items named_item r (vehicles raw);
          Some (r, p\<lparr>sp_raw := raw\<lparr>vehicles_raw_bson := b, vehicles := xs\<rparr>\<rparr>)
        }
        else if rd_key r = ascii ''participants'' then do {
          b \<leftarrow> subdoc_bytes r;
          (r, xs) \<leftarrow> sub_items numbered_item r (participants raw);
          Some (r, p\<lparr>sp_raw := raw\<lparr>participant_raw_bson := b, participants := xs\<rparr>\<rparr>)
        }
        else if rd_key r = ascii ''sessions'' then do {
          (r, xs) \<leftarrow> sub_items named_item r (sessions raw);
          Some (r, p\<lparr>sp_raw := raw\<lparr>sessions := xs\<rparr>\<rparr>)
        }
        else if rd_key r = ascii ''tracks'' then do {
          (r, xs) \<leftarrow> sub_items named_item r (tracks raw);
          Some (r, p\<lparr>sp_raw := raw\<lparr>tracks := xs\<rparr>\<rparr>)
        }
        else if rd_key r = ascii ''tires'' then do {
          b \<leftarrow> subdoc_bytes r;
          (r, xs) \<leftarrow> sub_items numbered_item r (tires raw);
          Some (r, p\<lparr>sp_raw := raw\<lparr>tires_raw_bson := b, tires := xs\<rparr>\<rparr>)
        }
        else if rd_key r = ascii ''sim'' then do { b \<leftarrow> subdoc_bytes r; Some (r, p\<lparr>sim_data_ptr := b\<rparr>) }
        else Some (r, p))
     else if t = ELEMENT_STR then
       (if rd_key r = ascii ''active_session'' then do { s \<leftarrow> stringValue r; Some (r, p\<lparr>active_session := s\<rparr>) }
        else if rd_key r = ascii ''active_sim'' then do { s \<leftarrow> stringValue r; Some (r, p\<lparr>active_sim := s\<rparr>) }
        else Some (r, p))
     else Some (r, p))"

text \<open>The outer loop ends at the end of the document only; on a format error it does not return.\<close>

partial_function (option) sim_loop :: "bson_reader \<Rightarrow> sim_parse \<Rightarrow> sim_parse option" where
  "sim_loop r p = (case bson_next r of
     None \<Rightarrow> None
   | Some (t, r) \<Rightarrow>
       if t = ELEMENT_END then Some p
       else (case sim_item t r p of None \<Rightarrow> None | Some (r, p) \<Rightarrow> sim_loop r p))"

declare sim_loop.simps [code]

fun session_index :: "(bytes \<times> bytes) list \<Rightarrow> bytes \<Rightarrow> int \<Rightarrow> int" where
  "session_index [] a i = -1"
| "session_index ((k, b) # ss) a i = (if k = a then i else session_index ss a (i + 1))"

text \<open>The argument \<^verbatim>\<open>revision\<close> is not used. The outer option is a fault, the inner one the null
  pointer.\<close>

definition parseFromRaw :: "bytes option \<Rightarrow> int \<Rightarrow> sim_raw option option" where
  "parseFromRaw raw_bson revision = (case raw_bson of
     None \<Rightarrow> Some None
   | Some bson \<Rightarrow> do {
       r \<leftarrow> bson_reader_unsized (Some bson);
       p \<leftarrow> sim_loop r \<lparr>sp_raw = new_raw, sim_data_ptr = None, active_session = [], active_sim = []\<rparr>;
       let raw = (sp_raw p)\<lparr>active_session_idx := session_index (sessions (sp_raw p)) (active_session p) 0\<rparr>;
       Some (Some (case sim_data_ptr p of
          None \<Rightarrow> raw
        | Some b \<Rightarrow> if active_sim p = [] then raw else raw\<lparr>sr_sim := Some (active_sim p, b)\<rparr>))
     })"

section \<open>Queries\<close>

definition getProperty :: "(bson_reader \<Rightarrow> 'v option option) \<Rightarrow> bytes \<Rightarrow> bytes \<Rightarrow> 'v option option" where
  "getProperty get name bson = do {
     r \<leftarrow> bson_reader_unsized (Some bson);
     (v, r) \<leftarrow> tryFindAndGet get name r;
     Some v
   }"

definition getPropertyOrDefault :: "(bson_reader \<Rightarrow> 'v option option) \<Rightarrow> bytes \<Rightarrow> 'v \<Rightarrow> bytes \<Rightarrow> 'v option" where
  "getPropertyOrDefault get name def bson = do {
     r \<leftarrow> bson_reader_unsized (Some bson);
     (v, r) \<leftarrow> tryFindAndGet get name r;
     Some (case v of None \<Rightarrow> def | Some x \<Rightarrow> x)
   }"

definition find_section :: "('i \<times> bytes) list \<Rightarrow> 'i \<Rightarrow> ('i \<times> bytes) option" where
  "find_section xs i = find (\<lambda>x. fst x = i) xs"

definition getVehicle :: "sim_raw \<Rightarrow> bytes \<Rightarrow> (bytes \<times> bytes) option" where
  "getVehicle raw i = find_section (vehicles raw) i"

definition getParticipant :: "sim_raw \<Rightarrow> int \<Rightarrow> (int \<times> bytes) option" where
  "getParticipant raw i = find_section (participants raw) i"

definition getTrack :: "sim_raw \<Rightarrow> bytes \<Rightarrow> (bytes \<times> bytes) option" where
  "getTrack raw i = find_section (tracks raw) i"

definition getSession :: "sim_raw \<Rightarrow> bytes \<Rightarrow> (bytes \<times> bytes) option" where
  "getSession raw i = find_section (sessions raw) i"

definition getTire :: "sim_raw \<Rightarrow> int \<Rightarrow> (int \<times> bytes) option" where
  "getTire raw i = find_section (tires raw) i"

definition getCurrentSession :: "sim_raw \<Rightarrow> (bytes \<times> bytes) option" where
  "getCurrentSession raw =
     (if active_session_idx raw \<ge> 0 \<and> active_session_idx raw < int (length (sessions raw))
      then Some (sessions raw ! nat (active_session_idx raw)) else None)"

definition getPlayerVehicle :: "sim_raw \<Rightarrow> (bytes \<times> bytes) option option" where
  "getPlayerVehicle raw = (case getCurrentSession raw of
     None \<Rightarrow> Some None
   | Some (i, bson) \<Rightarrow> do {
       v \<leftarrow> getProperty tryGetValue_string (ascii ''player_vehicle_id'') bson;
       Some (case v of None \<Rightarrow> None | Some x \<Rightarrow> getVehicle raw x)
     })"

definition getParticipantPlayer :: "sim_raw \<Rightarrow> (int \<times> bytes) option option" where
  "getParticipantPlayer raw = (case getCurrentSession raw of
     None \<Rightarrow> Some None
   | Some (i, bson) \<Rightarrow> do {
       v \<leftarrow> getProperty tryGetValue_i32 (ascii ''player_participant_id'') bson;
       Some (case v of None \<Rightarrow> None | Some x \<Rightarrow> getParticipant raw x)
     })"

definition getCurrentTrack :: "sim_raw \<Rightarrow> (bytes \<times> bytes) option option" where
  "getCurrentTrack raw = (case getCurrentSession raw of
     None \<Rightarrow> Some None
   | Some (i, bson) \<Rightarrow> do {
       v \<leftarrow> getProperty tryGetValue_string (ascii ''track_id'') bson;
       Some (case v of None \<Rightarrow> None | Some x \<Rightarrow> getTrack raw x)
     })"

section \<open>Building\<close>

text \<open>A builder over an empty vector. The results of the operations are not looked at.\<close>

definition sb_new :: "(nat \<Rightarrow> nat \<Rightarrow> nat) \<Rightarrow> bson_builder" where
  "sb_new grow = bson_builder_vector grow [] 0 0"

definition sb_initialize :: "(nat \<Rightarrow> nat \<Rightarrow> nat) \<Rightarrow> bson_builder \<Rightarrow> bson_builder" where
  "sb_initialize grow b = initialize_vector grow (bb_buf b) 0 0 b"

definition sb_finish :: "bson_builder \<Rightarrow> (bytes option \<times> bson_builder) option" where
  "sb_finish b = do {
     (d, b) \<leftarrow> bb_finish b;
     Some (map_option (\<lambda>(p, n). drop (nat p) (bb_buf b)) d, b)
   }"

text \<open>\<^verbatim>\<open>docAddSubDocHex16Key\<close> and \<^verbatim>\<open>docAddNullHex16Key\<close>.\<close>

definition docAddSubDocHex16Key :: "int \<Rightarrow> bytes \<Rightarrow> bson_builder \<Rightarrow> bson_builder option" where
  "docAddSubDocHex16Key i sub b = do { key \<leftarrow> hex16_key i; call (docAddSubDoc key sub b) }"

definition docAddNullHex16Key :: "int \<Rightarrow> bson_builder \<Rightarrow> bson_builder option" where
  "docAddNullHex16Key i b = do { key \<leftarrow> hex16_key i; call (docAddElement_null key b) }"

text \<open>\<^verbatim>\<open>TypedBuilderBase::setImpl\<close>, one for each type of property.\<close>

definition setImpl_i32 :: "bytes \<Rightarrow> int \<Rightarrow> bson_builder \<Rightarrow> bson_builder option" where
  "setImpl_i32 key v b = call (docAddElement_i32 key v b)"

definition setImpl_i64 :: "bytes \<Rightarrow> int \<Rightarrow> bson_builder \<Rightarrow> bson_builder option" where
  "setImpl_i64 key v b = call (docAddElement_i64 key v b)"

definition setImpl_double :: "bytes \<Rightarrow> 64 word \<Rightarrow> bson_builder \<Rightarrow> bson_builder option" where
  "setImpl_double key v b = call (docAddElement_double key v b)"

definition setImpl_string :: "bytes \<Rightarrow> bytes \<Rightarrow> bson_builder \<Rightarrow> bson_builder option" where
  "setImpl_string key v b = call (docAddElement_string key v b)"

definition setImpl_bool :: "bytes \<Rightarrow> bool \<Rightarrow> bson_builder \<Rightarrow> bson_builder option" where
  "setImpl_bool key v b = call (docAddElement_bool key v b)"

text \<open>Lists of items: adding an item takes the document of its builder, which is initialized again.
  The null pointer of an unfinished item builder is a fault.\<close>

definition list_add :: "(nat \<Rightarrow> nat \<Rightarrow> nat) \<Rightarrow> bytes \<Rightarrow> bson_builder \<Rightarrow> bson_builder \<Rightarrow> (bson_builder \<times> bson_builder) option" where
  "list_add grow i item b = (if i = [] then None else do {
     (d, item) \<leftarrow> sb_finish item;
     d \<leftarrow> d;
     b \<leftarrow> call (docAddSubDoc i d b);
     Some (sb_initialize grow item, b)
   })"

definition list_remove :: "bytes \<Rightarrow> bson_builder \<Rightarrow> bson_builder option" where
  "list_remove i b = (if i = [] then None else call (docAddElement_null i b))"

definition num_list_add :: "(nat \<Rightarrow> nat \<Rightarrow> nat) \<Rightarrow> int \<Rightarrow> bson_builder \<Rightarrow> bson_builder \<Rightarrow> (bson_builder \<times> bson_builder) option" where
  "num_list_add grow i item b = (if \<not> (0 < i \<and> i < 0xffff) then None else do {
     (d, item) \<leftarrow> sb_finish item;
     d \<leftarrow> d;
     b \<leftarrow> docAddSubDocHex16Key i d b;
     Some (sb_initialize grow item, b)
   })"

definition num_list_remove :: "int \<Rightarrow> bson_builder \<Rightarrow> bson_builder option" where
  "num_list_remove i b = (if \<not> (0 < i \<and> i < 0xffff) then None else docAddNullHex16Key i b)"

text \<open>\<^verbatim>\<open>SimDataUpdateBuilder\<close>: the sections go into the document of the simulator.\<close>

definition su_begin :: "bytes \<Rightarrow> bool \<Rightarrow> bson_builder \<Rightarrow> bson_builder option" where
  "su_begin sim_id activate_sim b = do {
     b \<leftarrow> (if activate_sim then call (docAddElement_string (ascii ''active_sim'') sim_id b) else Some b);
     b \<leftarrow> call (docBeginSubDoc (ascii ''sim'') b);
     call (docBeginSubDoc sim_id b)
   }"

definition su_new :: "(nat \<Rightarrow> nat \<Rightarrow> nat) \<Rightarrow> bytes \<Rightarrow> bool \<Rightarrow> bson_builder option" where
  "su_new grow sim_id activate_sim = su_begin sim_id activate_sim (sb_new grow)"

definition su_initialize :: "(nat \<Rightarrow> nat \<Rightarrow> nat) \<Rightarrow> bytes \<Rightarrow> bool \<Rightarrow> bson_builder \<Rightarrow> bson_builder option" where
  "su_initialize grow sim_id activate_sim b = su_begin sim_id activate_sim (sb_initialize grow b)"

text \<open>\<^verbatim>\<open>buildAndSet\<close> with a list of items or with the data of the simulator: \<^verbatim>\<open>key\<close> is the name of the section.\<close>

definition su_set :: "(nat \<Rightarrow> nat \<Rightarrow> nat) \<Rightarrow> bytes \<Rightarrow> bson_builder \<Rightarrow> bson_builder \<Rightarrow> (bson_builder \<times> bson_builder) option" where
  "su_set grow key builder b = do {
     (d, builder) \<leftarrow> sb_finish builder;
     d \<leftarrow> d;
     b \<leftarrow> call (docAddSubDoc key d b);
     Some (sb_initialize grow builder, b)
   }"

text \<open>\<^verbatim>\<open>buildAndSet\<close> with one item: the builder of a track or a session is not initialized again.\<close>

definition su_set_named ::
  "(nat \<Rightarrow> nat \<Rightarrow> nat) \<Rightarrow> bytes \<Rightarrow> bool \<Rightarrow> bytes \<Rightarrow> bson_builder \<Rightarrow> bson_builder \<Rightarrow> (bson_builder \<times> bson_builder) option" where
  "su_set_named grow key reinit i builder b = do {
     b \<leftarrow> call (docBeginSubDoc key b);
     (d, builder) \<leftarrow> sb_finish builder;
     d \<leftarrow> d;
     b \<leftarrow> call (docAddSubDoc i d b);
     b \<leftarrow> endDocument b;
     Some (if reinit then sb_initialize grow builder else builder, b)
   }"

definition su_set_numbered ::
  "(nat \<Rightarrow> nat \<Rightarrow> nat) \<Rightarrow> bytes \<Rightarrow> int \<Rightarrow> bson_builder \<Rightarrow> bson_builder \<Rightarrow> (bson_builder \<times> bson_builder) option" where
  "su_set_numbered grow key i builder b = do {
     b \<leftarrow> call (docBeginSubDoc key b);
     (d, builder) \<leftarrow> sb_finish builder;
     d \<leftarrow> d;
     b \<leftarrow> docAddSubDocHex16Key i d b;
     b \<leftarrow> endDocument b;
     Some (sb_initialize grow builder, b)
   }"

definition buildAndSet_vehicles :: "(nat \<Rightarrow> nat \<Rightarrow> nat) \<Rightarrow> bson_builder \<Rightarrow> bson_builder \<Rightarrow> (bson_builder \<times> bson_builder) option" where
  "buildAndSet_vehicles grow builder b = su_set grow (ascii ''vehicles'') builder b"

definition buildAndSet_participants :: "(nat \<Rightarrow> nat \<Rightarrow> nat) \<Rightarrow> bson_builder \<Rightarrow> bson_builder \<Rightarrow> (bson_builder \<times> bson_builder) option" where
  "buildAndSet_participants grow builder b = su_set grow (ascii ''participants'') builder b"

definition buildAndSet_tracks :: "(nat \<Rightarrow> nat \<Rightarrow> nat) \<Rightarrow> bson_builder \<Rightarrow> bson_builder \<Rightarrow> (bson_builder \<times> bson_builder) option" where
  "buildAndSet_tracks grow builder b = su_set grow (ascii ''tracks'') builder b"

definition buildAndSet_tires :: "(nat \<Rightarrow> nat \<Rightarrow> nat) \<Rightarrow> bson_builder \<Rightarrow> bson_builder \<Rightarrow> (bson_builder \<times> bson_builder) option" where
  "buildAndSet_tires grow builder b = su_set grow (ascii ''tires'') builder b"

definition buildAndSet_sessions :: "(nat \<Rightarrow> nat \<Rightarrow> nat) \<Rightarrow> bson_builder \<Rightarrow> bson_builder \<Rightarrow> (bson_builder \<times> bson_builder) option" where
  "buildAndSet_sessions grow builder b = su_set grow (ascii ''sessions'') builder b"

definition buildAndSet_sim :: "(nat \<Rightarrow> nat \<Rightarrow> nat) \<Rightarrow> bson_builder \<Rightarrow> bson_builder \<Rightarrow> (bson_builder \<times> bson_builder) option" where
  "buildAndSet_sim grow builder b = su_set grow (ascii ''sim'') builder b"

definition buildAndSet_vehicle :: "(nat \<Rightarrow> nat \<Rightarrow> nat) \<Rightarrow> bytes \<Rightarrow> bson_builder \<Rightarrow> bson_builder \<Rightarrow> (bson_builder \<times> bson_builder) option" where
  "buildAndSet_vehicle grow i builder b = su_set_named grow (ascii ''vehicles'') True i builder b"

definition buildAndSet_track :: "(nat \<Rightarrow> nat \<Rightarrow> nat) \<Rightarrow> bytes \<Rightarrow> bson_builder \<Rightarrow> bson_builder \<Rightarrow> (bson_builder \<times> bson_builder) option" where
  "buildAndSet_track grow i builder b = su_set_named grow (ascii ''tracks'') False i builder b"

definition buildAndSet_session :: "(nat \<Rightarrow> nat \<Rightarrow> nat) \<Rightarrow> bytes \<Rightarrow> bson_builder \<Rightarrow> bson_builder \<Rightarrow> (bson_builder \<times> bson_builder) option" where
  "buildAndSet_session grow i builder b = su_set_named grow (ascii ''sessions'') False i builder b"

definition buildAndSet_participant :: "(nat \<Rightarrow> nat \<Rightarrow> nat) \<Rightarrow> int \<Rightarrow> bson_builder \<Rightarrow> bson_builder \<Rightarrow> (bson_builder \<times> bson_builder) option" where
  "buildAndSet_participant grow i builder b = su_set_numbered grow (ascii ''participants'') i builder b"

definition buildAndSet_tire :: "(nat \<Rightarrow> nat \<Rightarrow> nat) \<Rightarrow> int \<Rightarrow> bson_builder \<Rightarrow> bson_builder \<Rightarrow> (bson_builder \<times> bson_builder) option" where
  "buildAndSet_tire grow i builder b = su_set_numbered grow (ascii ''tires'') i builder b"

definition su_setActiveSession :: "bytes \<Rightarrow> bson_builder \<Rightarrow> bson_builder option" where
  "su_setActiveSession session_id b = call (docAddElement_string (ascii ''active_session'') session_id b)"

definition su_finish :: "bson_builder \<Rightarrow> (bytes option \<times> bson_builder) option" where
  "su_finish b = do {
     b \<leftarrow> endDocument b;
     b \<leftarrow> endDocument b;
     sb_finish b
   }"

end
