(* ===== verification/Sim_Properties.thy ===== *)
theory Sim_Properties
  imports Sim_Data
begin

text \<open>
  Properties of simulation data: numeric keys are read as they were written, a document is parsed
  into the sections it has, and the update documents that are built.
\<close>

section \<open>Numeric keys\<close>

lemma hex_digit:
  assumes "0 \<le> d" "d < 16"
  shows "key_loop (k_hex ! nat d # s) num = key_loop s (num * 16 + d)"
proof -
  have "list_all (\<lambda>n. key_loop (k_hex ! n # s) num = key_loop s (int n + num * 16)) [0..<16]"
    by (simp add: upt_rec k_hex_def add.commute [of "num * 16"])
  moreover have "nat d \<in> set [0..<16]" using assms by auto
  ultimately show ?thesis using assms(1) by (auto simp: list_all_iff add.commute [of d])
qed

lemma nibble: "drop_bit n i AND 0xf = i div 2 ^ n mod 16" for i :: int
  using take_bit_eq_mask [of 4 "drop_bit n i"] by (simp add: drop_bit_eq_div take_bit_eq_mod mask_eq_exp_minus_1)

lemma nibbles:
  assumes "0 \<le> i" "i < (65536 :: int)"
  shows "((i div 4096 mod 16 * 16 + i div 256 mod 16) * 16 + i div 16 mod 16) * 16 + i mod 16 = i"
proof -
  define a where "a = i div 16"
  define b where "b = a div 16"
  define c where "c = b div 16"
  have i: "i = 16 * a + i mod 16" by (simp add: a_def)
  have a: "a = 16 * b + a mod 16" by (simp add: b_def)
  have b: "b = 16 * c + b mod 16" by (simp add: c_def)
  have c: "0 \<le> c" "c < 16" using assms i a b by (simp_all add: a_def b_def c_def)
  have e: "i div 256 = b" "i div 4096 = c" by (simp_all add: a_def b_def c_def zdiv_zmult2_eq [symmetric])
  have m: "c mod 16 = c" using c by simp
  have "((c * 16 + b mod 16) * 16 + a mod 16) * 16 + i mod 16 = (b * 16 + a mod 16) * 16 + i mod 16" using b by simp
  also have "\<dots> = a * 16 + i mod 16" using a by simp
  also have "\<dots> = i" using i by simp
  finally show ?thesis unfolding e a_def [symmetric] m .
qed

section \<open>Loops over sections\<close>

lemma until_end_elems:
  assumes item: "\<And>r k v es s. on_item r k v es \<Longrightarrow> body (val_type v) r s = Some (step (k, v) s)"
    and fin: "\<And>r s. body ELEMENT_END r s = Some s"
  shows "at_elems r es \<Longrightarrow> \<exists>r'. until_end body r s = Some (r', fold step es s) \<and> stay r r'"
proof (induction es arbitrary: r s)
  case Nil
  then obtain r1 where r1: "bson_next r = Some (ELEMENT_END, r1)" "same_doc r r1" "cur_type r1 = ELEMENT_END" using next_end by blast
  have "until_end body r1 s = Some (r1, s)" using r1(3) by (simp add: until_end.simps [of body r1] atEnd_def)
  then show ?case using at_elems_not_end [OF Nil] r1 fin by (simp add: until_end.simps [of body r] same_doc_stay)
next
  case (Cons kv es)
  obtain k v where kv: "kv = (k, v)" by force
  obtain r1 where r1: "bson_next r = Some (val_type v, r1)" "on_item r1 k v es" "same_doc r r1"
    using next_item [OF Cons.prems [unfolded kv]] by blast
  obtain r' where "until_end body r1 (step (k, v) s) = Some (r', fold step es (step (k, v) s))" "stay r1 r'"
    using Cons.IH [OF on_item_at [OF r1(2)]] by blast
  then show ?case using at_elems_not_end [OF Cons.prems] r1 item [OF r1(2)] same_doc_stay [OF r1(3)] stay_trans
    by (auto simp: until_end.simps [of body r] kv)
qed

lemma sub_items_elems:
  assumes item: "\<And>r k v es s. on_item r k v es \<Longrightarrow> body (val_type v) r s = Some (step (k, v) s)"
    and fin: "\<And>r s. body ELEMENT_END r s = Some s"
    and on: "on_item r k (VDoc sub) es" "length (doc_layers r) = 0"
  shows "\<exists>r2. sub_items body r s = Some (r2, fold step sub s) \<and> at_elems r2 es \<and> stay r r2"
proof -
  obtain r2 where r2: "beginSub r = Some (True, r2)" "at_elems r2 sub"
    "\<forall>r3. stay r2 r3 \<longrightarrow> fst (endSub r3) \<and> at_elems (snd (endSub r3)) es \<and> stay r (snd (endSub r3))"
    using enter_leave [OF on(1), of sub] on(2) by (auto simp: k_max_subdocs_def)
  have "\<exists>r3. until_end body r2 s = Some (r3, fold step sub s) \<and> stay r2 r3"
    by (rule until_end_elems [where body = body and step = step]) (use item fin r2(2) in auto)
  then obtain r3 where "until_end body r2 s = Some (r3, fold step sub s)" "stay r2 r3" by blast
  then show ?thesis using r2 by (simp add: sub_items_def)
qed

fun named_spec :: "bytes \<times> bval \<Rightarrow> (bytes \<times> bytes) list \<Rightarrow> (bytes \<times> bytes) list" where
  "named_spec (k, VDoc d) xs = xs @ [(k, enc_doc d)]"
| "named_spec _ xs = xs"

fun numbered_spec :: "bytes \<times> bval \<Rightarrow> (int \<times> bytes) list \<Rightarrow> (int \<times> bytes) list" where
  "numbered_spec (k, VDoc d) xs = (if convertStringNumericKey k = -1 then xs else xs @ [(convertStringNumericKey k, enc_doc d)])"
| "numbered_spec _ xs = xs"

lemma named_item_spec: "on_item r k v es \<Longrightarrow> named_item (val_type v) r s = Some (named_spec (k, v) s)"
  using subdoc_bytes_item [of r k _ es] by (cases v) (auto simp: named_item_def section_of_def on_item_def)

lemma numbered_item_spec: "on_item r k v es \<Longrightarrow> numbered_item (val_type v) r s = Some (numbered_spec (k, v) s)"
  using subdoc_bytes_item [of r k _ es] by (cases v) (auto simp: numbered_item_def section_of_def on_item_def Let_def)

lemma item_end: "named_item ELEMENT_END r xs = Some xs" "numbered_item ELEMENT_END r ys = Some ys"
  by (simp_all add: named_item_def numbered_item_def Let_def)

fun sim_spec :: "bytes \<times> bval \<Rightarrow> sim_parse \<Rightarrow> sim_parse" where
  "sim_spec (k, VDoc d) p = (let raw = sp_raw p in
     if k = ascii ''vehicles'' then p\<lparr>sp_raw := raw\<lparr>vehicles_raw_bson := Some (enc_doc d), vehicles := fold named_spec d (vehicles raw)\<rparr>\<rparr>
     else if k = ascii ''participants'' then
       p\<lparr>sp_raw := raw\<lparr>participant_raw_bson := Some (enc_doc d), participants := fold numbered_spec d (participants raw)\<rparr>\<rparr>
     else if k = ascii ''sessions'' then p\<lparr>sp_raw := raw\<lparr>sessions := fold named_spec d (sessions raw)\<rparr>\<rparr>
     else if k = ascii ''tracks'' then p\<lparr>sp_raw := raw\<lparr>tracks := fold named_spec d (tracks raw)\<rparr>\<rparr>
     else if k = ascii ''tires'' then p\<lparr>sp_raw := raw\<lparr>tires_raw_bson := Some (enc_doc d), tires := fold numbered_spec d (tires raw)\<rparr>\<rparr>
     else if k = ascii ''sim'' then p\<lparr>sim_data_ptr := Some (enc_doc d)\<rparr>
     else p)"
| "sim_spec (k, VStr s) p =
     (if k = ascii ''active_session'' then p\<lparr>active_session := s\<rparr> else if k = ascii ''active_sim'' then p\<lparr>active_sim := s\<rparr> else p)"
| "sim_spec _ p = p"

lemma sim_item_spec:
  assumes on: "on_item r k v es" and l: "length (doc_layers r) = 0"
  shows "\<exists>r2. sim_item (val_type v) r p = Some (r2, sim_spec (k, v) p) \<and> at_elems r2 es \<and> stay r r2"
proof -
  have k: "rd_key r = k" "at_elems r es" "reads_value r v" using on by (simp_all add: on_item_def)
  show ?thesis
  proof (cases v)
    case (VDoc d)
    note on' = on [unfolded VDoc]
    have N: "\<exists>r2. sub_items named_item r s = Some (r2, fold named_spec d s) \<and> at_elems r2 es \<and> stay r r2" for s
      by (rule sub_items_elems [OF _ _ on' l]) (use named_item_spec item_end(1) in auto)
    have M: "\<exists>r2. sub_items numbered_item r s = Some (r2, fold numbered_spec d s) \<and> at_elems r2 es \<and> stay r r2" for s
      by (rule sub_items_elems [OF _ _ on' l]) (use numbered_item_spec item_end(2) in auto)
    note B = subdoc_bytes_item [OF on']
    show ?thesis
      using N [of "vehicles (sp_raw p)"] N [of "sessions (sp_raw p)"] N [of "tracks (sp_raw p)"]
        M [of "participants (sp_raw p)"] M [of "tires (sp_raw p)"] k
      by (auto simp: VDoc sim_item_def B Let_def)
  qed (use k in \<open>auto simp: sim_item_def Let_def\<close>)
qed

lemma sim_loop_elems: "at_elems r ds \<Longrightarrow> length (doc_layers r) = 0 \<Longrightarrow> sim_loop r p = Some (fold sim_spec ds p)"
proof (induction ds arbitrary: r p)
  case Nil
  then show ?case using next_end [OF Nil(1)] by (auto simp: sim_loop.simps [of r])
next
  case (Cons kv ds)
  obtain k v where kv: "kv = (k, v)" by force
  obtain r1 where r1: "bson_next r = Some (val_type v, r1)" "on_item r1 k v ds" "same_doc r r1"
    using next_item [OF Cons.prems(1) [unfolded kv]] by blast
  have l1: "length (doc_layers r1) = 0" using r1(3) Cons.prems(2) by (simp add: same_doc_def)
  obtain r2 where r2: "sim_item (val_type v) r1 p = Some (r2, sim_spec (k, v) p)" "at_elems r2 ds" "stay r1 r2"
    using sim_item_spec [OF r1(2) l1] by blast
  have "length (doc_layers r2) = 0" using r2(3) l1 by (simp add: stay_def)
  moreover have "val_type v \<noteq> ELEMENT_END" using val_type_pos [of v] by (cases v) auto
  ultimately show ?case using Cons.IH [OF r2(2)] r1(1) r2(1) by (simp add: sim_loop.simps [of r] kv)
qed

text \<open>The simulation data a document describes.\<close>

definition sim_of :: "bdoc \<Rightarrow> sim_raw" where
  "sim_of ds = (let p = fold sim_spec ds \<lparr>sp_raw = new_raw, sim_data_ptr = None, active_session = [], active_sim = []\<rparr>;
       raw = (sp_raw p)\<lparr>active_session_idx := session_index (sessions (sp_raw p)) (active_session p) 0\<rparr>
     in (case sim_data_ptr p of None \<Rightarrow> raw | Some b \<Rightarrow> if active_sim p = [] then raw else raw\<lparr>sr_sim := Some (active_sim p, b)\<rparr>))"

section \<open>Properties\<close>

text \<open>Numeric ids. The key written for an id between 1 and 0xffff has four hexadecimal digits and
  is read back as the same id.\<close>

theorem numeric_key_roundtrip:
  assumes "0 < i" "i \<le> 0xffff"
  shows "\<exists>k. hex16_key i = Some k \<and> length k = 4 \<and> convertStringNumericKey k = i"
proof -
  have H: "key_loop (k_hex ! nat (x mod 16) # t) num = key_loop t (num * 16 + x mod 16)" for x num :: int and t
    by (rule hex_digit) simp_all
  have n: "drop_bit 12 i AND 0xf = i div 4096 mod 16" "drop_bit 8 i AND 0xf = i div 256 mod 16"
    "drop_bit 4 i AND 0xf = i div 16 mod 16" "drop_bit 0 i AND 0xf = i mod 16"
    using nibble [of 12 i] nibble [of 8 i] nibble [of 4 i] nibble [of 0 i] by simp_all
  let ?k = "[k_hex ! nat (i div 4096 mod 16), k_hex ! nat (i div 256 mod 16), k_hex ! nat (i div 16 mod 16), k_hex ! nat (i mod 16)]"
  have "key_loop ?k 0 = (((0 * 16 + i div 4096 mod 16) * 16 + i div 256 mod 16) * 16 + i div 16 mod 16) * 16 + i mod 16"
    unfolding H key_loop.simps(1) ..
  also have "\<dots> = i" unfolding mult_zero_left add_0_left by (rule nibbles) (use assms in simp_all)
  finally have "convertStringNumericKey ?k = i" by (simp add: convertStringNumericKey_def)
  moreover have "hex16_key i = Some ?k" using assms unfolding hex16_key_def n by simp
  ultimately show ?thesis by (intro exI [of _ ?k]) simp
qed

theorem numeric_key_roundtrip_witness: "hex16_key 0x1a2b = Some (ascii ''1a2b'') \<and> convertStringNumericKey (ascii ''1a2b'') = 0x1a2b"
proof -
  have "hex16_key 0x1a2b = Some (ascii ''1a2b'')" by code_simp
  then show ?thesis using numeric_key_roundtrip [of "0x1a2b"] by simp
qed

lemma parseFromRaw_enc:
  assumes "wf_elems ds" "int (length (enc_doc ds @ post)) < 2147483640"
  shows "parseFromRaw (Some (enc_doc ds @ post)) revision = Some (Some (sim_of ds))"
proof -
  obtain r where r: "bson_reader_unsized (Some (enc_doc ds @ post)) = Some r" "at_elems r ds" "doc_layers r = []"
    using unsized_in_doc [OF assms] by blast
  show ?thesis using r(1) sim_loop_elems [OF r(2)] r(3) by (simp add: parseFromRaw_def sim_of_def Let_def)
qed

text \<open>C29: simulation data is parsed faithfully. For every well-formed document in memory, parsing
  returns the sections of the document: vehicles, sessions and tracks under their keys, participants
  and tires under the numbers of theirs, in order, the active session's index and the simulator.\<close>

theorem sim_data_parsed:
  assumes "wf_elems ds" "int (length (enc_doc ds @ post)) < 2147483640"
  shows "parseFromRaw (Some (enc_doc ds @ post)) revision = Some (Some (sim_of ds))"
  using assms by (rule parseFromRaw_enc)

definition wit_sim :: bdoc where
  "wit_sim = [(ascii ''active_session'', VStr [66]), (ascii ''participants'', VDoc [(ascii ''001f'', VDoc [])]),
     (ascii ''sessions'', VDoc [([65], VDoc []), ([66], VDoc [(ascii ''player_participant_id'', VI32 31)])])]"

theorem sim_data_parsed_witness:
  "\<exists>raw. parseFromRaw (Some (enc_doc wit_sim)) 7 = Some (Some raw) \<and> getParticipant raw 31 = Some (31, enc_doc []) \<and>
     active_session_idx raw = 1 \<and> sr_revision raw = 0"
proof -
  have wf: "wf_elems wit_sim" "int (length (enc_doc wit_sim @ [])) < 2147483640"
    by (simp_all add: wit_sim_def ascii_def i32_range_def length_enc_doc)
  have c: "convertStringNumericKey (ascii ''001f'') = 31" by code_simp
  show ?thesis
    using sim_data_parsed [OF wf, of 7] c
    by (simp add: sim_of_def wit_sim_def new_raw_def ascii_eq getParticipant_def find_section_def Let_def)
qed

text \<open>The revision of the parsed data is always zero: the cache of \<^verbatim>\<open>parseSimData\<close>, which compares it with
  the revision of the buffer, never applies to a buffer the backend has written.\<close>

lemma sim_revision_zero:
  assumes "wf_elems ds" "int (length (enc_doc ds @ post)) < 2147483640"
  shows "\<exists>raw. parseFromRaw (Some (enc_doc ds @ post)) revision = Some (Some raw) \<and> sr_revision raw = 0"
proof -
  have "sr_revision (sp_raw (sim_spec e p)) = sr_revision (sp_raw p)" for e p
    by (cases "(e, p)" rule: sim_spec.cases) (auto simp: Let_def)
  then have "sr_revision (sp_raw (fold sim_spec ds p)) = sr_revision (sp_raw p)" for p
    by (induction ds arbitrary: p) simp_all
  then have "sr_revision (sim_of ds) = 0" by (auto simp: sim_of_def Let_def new_raw_def split: option.splits)
  moreover obtain r where "bson_reader_unsized (Some (enc_doc ds @ post)) = Some r" "at_elems r ds" "doc_layers r = []"
    using unsized_in_doc [OF assms] by blast
  ultimately show ?thesis using sim_loop_elems [of r ds] by (simp add: parseFromRaw_def sim_of_def Let_def)
qed

end
