(* ===== verification/Sim_Update.thy ===== *)
theory Sim_Update
  imports Sim_Properties
begin

unbundle bit_operations_syntax

text \<open>
  The documents built with core/src/sim_data_builder.cpp: what a sequence of calls on an update
  builder produces, for item builders that hold any documents.
\<close>

section \<open>Finished item builders\<close>

text \<open>An item builder that holds the elements \<^verbatim>\<open>d\<close>.\<close>

definition holds_doc :: "bson_builder \<Rightarrow> bdoc \<Rightarrow> bool" where
  "holds_doc b d \<longleftrightarrow> (\<exists>n. growing b [([], False, d)] n)"

lemma sb_new_holds: "reserve_ok grow \<Longrightarrow> growing (sb_new grow) [root_level] 5"
  using bson_builder_vector_inv [of grow "[]" 0 0] by (simp add: growing_def sb_new_def)

lemma sb_finish_growing:
  assumes "growing b [(k, False, d)] n"
  shows "\<exists>b' rest. sb_finish b = Some (Some (enc_doc d @ rest), b') \<and> cr_idle b' \<and> 5 \<le> length (bb_buf b') \<and> int (length (bb_buf b')) < 2147483648"
proof -
  have g: "bb_inv b [(k, False, d)]" "\<not> error_flag b" "start_offset b = 0" using assms by (simp_all add: growing_def)
  obtain b' where f: "bb_finish b = Some (Some (0, int (length (enc_doc d))), b')" "slice (bb_buf b') 0 (int (length (enc_doc d))) = enc_doc d"
    using bb_finish_spec [OF g(1,2)] g(3) by auto
  have i: "cr_idle b'" using bb_finish_growing [OF assms] f(1) by auto
  have "take (length (enc_doc d)) (bb_buf b') = enc_doc d" using f(2) by (simp add: slice_def)
  then have e: "bb_buf b' = enc_doc d @ drop (length (enc_doc d)) (bb_buf b')" by (metis append_take_drop_id)
  have l: "length (bb_buf b') = length (bb_buf b)"
    using f(1) by (auto simp: bb_finish_def Let_def dest!: length_wr_bytes split: if_splits option.splits)
  have "int (length (bb_buf b)) < 2147483648" using g(1) by (simp add: bb_inv_def bb_mid_def)
  moreover have "5 \<le> length (bb_buf b')" by (subst e) (simp add: length_enc_doc)
  ultimately show ?thesis using f(1) i e l by (auto simp: sb_finish_def)
qed

lemma sb_initialize_growing:
  assumes "reserve_ok grow" "cr_idle b" "5 \<le> length (bb_buf b)" "int (length (bb_buf b)) < 2147483648"
  shows "growing (sb_initialize grow b) [root_level] 5"
  unfolding sb_initialize_def using assms by (intro initialize_vector_growing) (simp_all add: cr_idle_def)

text \<open>The copy of a document does not depend on what follows it.\<close>

lemma docAddSubDoc_rest:
  assumes "int (length (enc_doc d)) < 2147483648"
  shows "docAddSubDoc k (enc_doc d @ rest) b = docAddSubDoc k (enc_doc d) b"
proof -
  have h: "rd_bytes (enc_doc d @ rest) 0 4 = Some (le_bytes 4 (int (length (enc_doc d))))" "rd_bytes (enc_doc d) 0 4 = Some (le_bytes 4 (int (length (enc_doc d))))"
    by (simp_all add: rd_bytes_def enc_doc_def doc_frame_def add.commute)
  have s: "i32 (le_int (le_bytes 4 (int (length (enc_doc d))))) = int (length (enc_doc d))"
    using assms by (simp add: le_int_le_bytes i32_mod i32_id i32_range_def)
  have "rd_bytes (enc_doc d @ rest) 0 (nat (int (length (enc_doc d)))) = Some (enc_doc d)"
    "rd_bytes (enc_doc d) 0 (nat (int (length (enc_doc d)))) = Some (enc_doc d)" by (simp_all add: rd_bytes_def)
  then show ?thesis unfolding docAddSubDoc_def h option.case Let_def s by (simp split: option.splits)
qed

lemma add_item:
  assumes it: "holds_doc it d" and b: "growing b ((lk, False, es) # ls) n"
    and k: "0 \<notin> set k" "wf_val (VDoc d)" and lim: "0 \<le> n" "n + int (length (enc_elem k (VDoc d))) < 1073741824"
  shows "\<exists>m it' b'. sb_finish it = Some (Some m, it') \<and> call (docAddSubDoc k m b) = Some b' \<and>
     growing b' ((lk, False, es @ [(k, VDoc d)]) # ls) (n + int (length (enc_elem k (VDoc d)))) \<and>
     cr_idle it' \<and> 5 \<le> length (bb_buf it') \<and> int (length (bb_buf it')) < 2147483648"
proof -
  obtain rest it' where f: "sb_finish it = Some (Some (enc_doc d @ rest), it')" "cr_idle it'" "5 \<le> length (bb_buf it')" "int (length (bb_buf it')) < 2147483648"
    using it sb_finish_growing unfolding holds_doc_def by blast
  have "int (length (enc_doc d)) < 2147483648" using lim by (simp add: enc_elem_def length_enc_doc)
  then have e: "docAddSubDoc k (enc_doc d @ rest) b = exec_op [] (DocAdd k (VDoc d)) b" by (simp add: docAddSubDoc_rest)
  obtain b' where "call (exec_op [] (DocAdd k (VDoc d)) b) = Some b'" "growing b' (abs_op (DocAdd k (VDoc d)) ((lk, False, es) # ls)) (n + int (length (enc_elem k (VDoc d))))"
    using growing_op [OF b, of "DocAdd k (VDoc d)" "[]"] k lim by auto
  then show ?thesis using f e by auto
qed

lemma hex16_key_nonzero:
  assumes "hex16_key i = Some k"
  shows "0 \<notin> set k"
proof -
  have z: "0 \<notin> set k_hex" by (simp add: k_hex_def)
  have "nat (drop_bit m i AND 0xf) < length k_hex" for m
    using nibble [of m i] by (simp add: k_hex_def nat_less_iff)
  then have "k_hex ! nat (drop_bit m i AND 0xf) \<noteq> 0" for m using z by (metis nth_mem)
  from this [of 12] this [of 8] this [of 4] this [of 0] show ?thesis
    using assms unfolding hex16_key_def by (simp only: split: if_splits) auto
qed

section \<open>Update documents\<close>

text \<open>The calls on an update builder, with the item builders they are given, and their meaning: the
  element each adds to the document of the simulator.\<close>

datatype su_call = SetSection bytes bson_builder | SetNamed bytes bool bytes bson_builder
  | SetNumbered bytes int bson_builder | SetActive bytes

fun su_exec :: "(nat \<Rightarrow> nat \<Rightarrow> nat) \<Rightarrow> su_call \<Rightarrow> bson_builder \<Rightarrow> bson_builder option" where
  "su_exec grow (SetSection key it) b = map_option snd (su_set grow key it b)"
| "su_exec grow (SetNamed key re i it) b = map_option snd (su_set_named grow key re i it b)"
| "su_exec grow (SetNumbered key i it) b = map_option snd (su_set_numbered grow key i it b)"
| "su_exec grow (SetActive s) b = su_setActiveSession s b"

fun su_run :: "(nat \<Rightarrow> nat \<Rightarrow> nat) \<Rightarrow> su_call list \<Rightarrow> bson_builder \<Rightarrow> bson_builder option" where
  "su_run grow [] b = Some b"
| "su_run grow (c # cs) b = do { b \<leftarrow> su_exec grow c b; su_run grow cs b }"

fun su_means :: "su_call \<Rightarrow> bytes \<times> bval \<Rightarrow> bool" where
  "su_means (SetSection key it) (k, v) \<longleftrightarrow> k = key \<and> (\<exists>d. holds_doc it d \<and> v = VDoc d)"
| "su_means (SetNamed key re i it) (k, v) \<longleftrightarrow> k = key \<and> (\<exists>d. holds_doc it d \<and> v = VDoc [(i, VDoc d)])"
| "su_means (SetNumbered key i it) (k, v) \<longleftrightarrow> k = key \<and> (\<exists>d h. holds_doc it d \<and> hex16_key i = Some h \<and> v = VDoc [(h, VDoc d)])"
| "su_means (SetActive s) (k, v) \<longleftrightarrow> k = ascii ''active_session'' \<and> v = VStr s"

definition update_doc :: "bytes \<Rightarrow> bool \<Rightarrow> bdoc \<Rightarrow> bdoc" where
  "update_doc sim_id activate_sim es =
     (if activate_sim then [(ascii ''active_sim'', VStr sim_id)] else []) @ [(ascii ''sim'', VDoc [(sim_id, VDoc es)])]"

text \<open>A section with one item.\<close>

lemma nested_item:
  assumes it: "holds_doc it d" and b: "growing b ((lk, False, es) # ls) n" and l: "length ls < 62"
    and k: "0 \<notin> set key" "0 \<notin> set i" "wf_val (VDoc d)" and lim: "0 \<le> n" "n + int (length (enc_elem key (VDoc [(i, VDoc d)]))) < 1073741824"
  shows "\<exists>b1 m it' b2 b3. call (docBeginSubDoc key b) = Some b1 \<and> sb_finish it = Some (Some m, it') \<and> call (docAddSubDoc i m b1) = Some b2 \<and>
     endDocument b2 = Some b3 \<and> growing b3 ((lk, False, es @ [(key, VDoc [(i, VDoc d)])]) # ls) (n + int (length (enc_elem key (VDoc [(i, VDoc d)]))))"
proof -
  let ?n1 = "n + int (length key) + 7"
  have e: "n + int (length (enc_elem key (VDoc [(i, VDoc d)]))) = ?n1 + int (length (enc_elem i (VDoc d)))"
    by (simp add: enc_elem_def length_enc_doc)
  obtain b1 where b1: "call (docBeginSubDoc key b) = Some b1" "growing b1 ((key, False, []) # (lk, False, es) # ls) ?n1"
    using growing_op [OF b, of "DocBegin key False" "[]"] k l lim(2) e by (auto simp: add.assoc)
  obtain m it' b2 where b2: "sb_finish it = Some (Some m, it')" "call (docAddSubDoc i m b1) = Some b2"
    "growing b2 ((key, False, [(i, VDoc d)]) # (lk, False, es) # ls) (?n1 + int (length (enc_elem i (VDoc d))))"
    using add_item [OF it b1(2) k(2,3)] lim e by auto
  obtain b3 where "endDocument b2 = Some b3" "growing b3 (add_elem key (VDoc [(i, VDoc d)]) ((lk, False, es) # ls)) (?n1 + int (length (enc_elem i (VDoc d))))"
    using growing_end [OF b2(3)] lim(2) e by auto
  then show ?thesis using b1(1) b2(1,2) unfolding e by auto
qed

lemma su_exec_growing:
  assumes m: "su_means c (k, v)" and b: "growing b ((lk, False, es) # ls) n" and l: "length ls < 62"
    and k: "0 \<notin> set k" "wf_val v" and lim: "0 \<le> n" "n + int (length (enc_elem k v)) < 1073741824"
  shows "\<exists>b'. su_exec grow c b = Some b' \<and> growing b' ((lk, False, es @ [(k, v)]) # ls) (n + int (length (enc_elem k v)))"
proof (cases c)
  case (SetSection key it)
  then obtain d where d: "k = key" "holds_doc it d" "v = VDoc d" using m by auto
  obtain mm it' b' where "sb_finish it = Some (Some mm, it')" "call (docAddSubDoc k mm b) = Some b'"
    "growing b' ((lk, False, es @ [(k, VDoc d)]) # ls) (n + int (length (enc_elem k (VDoc d))))"
    using add_item [OF d(2) b] k lim unfolding d(3) by blast
  then show ?thesis using d by (simp add: SetSection su_set_def)
next
  case (SetNamed key re i it)
  then obtain d where d: "k = key" "holds_doc it d" "v = VDoc [(i, VDoc d)]" using m by auto
  have w: "0 \<notin> set i" "wf_val (VDoc d)" using k(2) d(3) by simp_all
  obtain b1 mm it' b2 b3 where "call (docBeginSubDoc k b) = Some b1" "sb_finish it = Some (Some mm, it')" "call (docAddSubDoc i mm b1) = Some b2"
    "endDocument b2 = Some b3" "growing b3 ((lk, False, es @ [(k, VDoc [(i, VDoc d)])]) # ls) (n + int (length (enc_elem k (VDoc [(i, VDoc d)]))))"
    using nested_item [OF d(2) b l k(1) w lim [unfolded d(3)]] by blast
  then show ?thesis using d by (simp add: SetNamed su_set_named_def)
next
  case (SetNumbered key i it)
  then obtain d h where d: "k = key" "holds_doc it d" "hex16_key i = Some h" "v = VDoc [(h, VDoc d)]" using m by auto
  have w: "0 \<notin> set h" "wf_val (VDoc d)" using k(2) d(4) by simp_all
  obtain b1 mm it' b2 b3 where "call (docBeginSubDoc k b) = Some b1" "sb_finish it = Some (Some mm, it')" "call (docAddSubDoc h mm b1) = Some b2"
    "endDocument b2 = Some b3" "growing b3 ((lk, False, es @ [(k, VDoc [(h, VDoc d)])]) # ls) (n + int (length (enc_elem k (VDoc [(h, VDoc d)]))))"
    using nested_item [OF d(2) b l k(1) w lim [unfolded d(4)]] by blast
  then show ?thesis using d by (simp add: SetNumbered su_set_numbered_def docAddSubDocHex16Key_def)
next
  case (SetActive s)
  then have d: "k = ascii ''active_session''" "v = VStr s" using m by auto
  show ?thesis using growing_op [OF b, of "DocAdd k v" "[]"] k lim(2) by (simp add: SetActive su_setActiveSession_def d)
qed

lemma su_run_growing:
  "list_all2 su_means cs fs \<Longrightarrow> growing b ((lk, False, es) # ls) n \<Longrightarrow> length ls < 62 \<Longrightarrow> wf_elems fs \<Longrightarrow> 0 \<le> n \<Longrightarrow>
   n + int (length (enc_elems fs)) < 1073741824 \<Longrightarrow>
   \<exists>b'. su_run grow cs b = Some b' \<and> growing b' ((lk, False, es @ fs) # ls) (n + int (length (enc_elems fs)))"
proof (induction cs fs arbitrary: b es n rule: list_all2_induct)
  case Nil
  then show ?case by simp
next
  case (Cons c cs f fs)
  obtain k v where f: "f = (k, v)" by force
  let ?n1 = "n + int (length (enc_elem k v))"
  have e: "n + int (length (enc_elems (f # fs))) = ?n1 + int (length (enc_elems fs))" by (simp add: f enc_elem_def)
  obtain b1 where b1: "su_exec grow c b = Some b1" "growing b1 ((lk, False, es @ [(k, v)]) # ls) ?n1"
    using su_exec_growing [OF Cons.hyps(1) [unfolded f] Cons.prems(1,2)] Cons.prems(3-5) e by (auto simp: f)
  obtain b' where "su_run grow cs b1 = Some b'" "growing b' ((lk, False, (es @ [(k, v)]) @ fs) # ls) (?n1 + int (length (enc_elems fs)))"
    using Cons.IH [OF b1(2) Cons.prems(2)] Cons.prems(3-5) e by (auto simp: f)
  then show ?case using b1(1) unfolding e by (auto simp: f)
qed

lemma su_begin_growing:
  assumes g: "growing b [root_level] 5" and s: "0 \<notin> set sim_id" "int (length sim_id) < 500000000"
  shows "\<exists>b'. su_begin sim_id activate_sim b = Some b' \<and>
    growing b' [(sim_id, False, []), (ascii ''sim'', False, []), ([], False, if activate_sim then [(ascii ''active_sim'', VStr sim_id)] else [])]
      (if activate_sim then 39 + 2 * int (length sim_id) else 22 + int (length sim_id))"
proof -
  let ?ops = "(if activate_sim then [DocAdd (ascii ''active_sim'') (VStr sim_id)] else []) @ [DocBegin (ascii ''sim'') False, DocBegin sim_id False]"
  have ob: "5 + ops_bytes ?ops = (if activate_sim then 39 + 2 * int (length sim_id) else 22 + int (length sim_id))"
    by (simp add: ops_bytes_def enc_elem_def ascii_def)
  have "\<exists>b'. run_all [] ?ops b = Some b' \<and> growing b' (abs_ops ?ops [root_level]) (5 + ops_bytes ?ops)"
  proof (rule growing_ops [OF g])
    show "ops_ok ?ops [root_level]" using s(1) by (simp add: root_level_def ascii_def)
    show "5 + ops_bytes ?ops < 1073741824" unfolding ob using s(2) by auto
  qed
  then show ?thesis unfolding ob by (cases activate_sim) (simp_all add: run_all_fun root_level_def su_begin_def)
qed

lemma update_builds:
  assumes "reserve_ok grow" "0 \<notin> set sim_id" "list_all2 su_means cs es" "wf_elems es"
    "int (length (enc_doc (update_doc sim_id activate_sim es))) < 500000000"
  shows "\<exists>b1 b2 b3 b4 rest. su_new grow sim_id activate_sim = Some b1 \<and> su_run grow cs b1 = Some b2 \<and>
    su_finish b2 = Some (Some (enc_doc (update_doc sim_id activate_sim es) @ rest), b3) \<and>
    su_initialize grow sim_id activate_sim b3 = Some b4"
proof -
  let ?act = "if activate_sim then [(ascii ''active_sim'', VStr sim_id)] else []"
  have len: "int (length sim_id) < 500000000"
    "(if activate_sim then 39 + 2 * int (length sim_id) else 22 + int (length sim_id)) + int (length (enc_elems es)) < 1073741824"
    using assms(5) by (auto simp: update_doc_def length_enc_doc enc_elems_append split: if_splits)
  obtain b1 where b1: "su_begin sim_id activate_sim (sb_new grow) = Some b1"
    "growing b1 [(sim_id, False, []), (ascii ''sim'', False, []), ([], False, ?act)] (if activate_sim then 39 + 2 * int (length sim_id) else 22 + int (length sim_id))"
    using su_begin_growing [OF sb_new_holds [OF assms(1)] assms(2) len(1)] by blast
  have "\<exists>b2. su_run grow cs b1 = Some b2 \<and> growing b2 [(sim_id, False, [] @ es), (ascii ''sim'', False, []), ([], False, ?act)]
      ((if activate_sim then 39 + 2 * int (length sim_id) else 22 + int (length sim_id)) + int (length (enc_elems es)))"
    by (rule su_run_growing [OF assms(3) b1(2) _ assms(4) _ len(2)]) simp_all
  then obtain b2 n where b2: "su_run grow cs b1 = Some b2" "growing b2 [(sim_id, False, es), (ascii ''sim'', False, []), ([], False, ?act)] n" "n < 1073741824"
    using len(2) unfolding append.simps(1) by blast
  obtain c1 where c1: "endDocument b2 = Some c1" "growing c1 [(ascii ''sim'', False, [(sim_id, VDoc es)]), ([], False, ?act)] n"
    using growing_end [OF b2(2,3)] by auto
  obtain c2 where c2: "endDocument c1 = Some c2" "growing c2 [([], False, update_doc sim_id activate_sim es)] n"
    using growing_end [OF c1(2) b2(3)] by (auto simp: update_doc_def)
  obtain b3 rest where b3: "sb_finish c2 = Some (Some (enc_doc (update_doc sim_id activate_sim es) @ rest), b3)" "cr_idle b3"
    "5 \<le> length (bb_buf b3)" "int (length (bb_buf b3)) < 2147483648"
    using sb_finish_growing [OF c2(2)] by blast
  obtain b4 where "su_begin sim_id activate_sim (sb_initialize grow b3) = Some b4"
    using su_begin_growing [OF sb_initialize_growing [OF assms(1) b3(2-4)] assms(2) len(1)] by blast
  then show ?thesis using b1(1) b2(1) c1(1) c2(1) b3(1) by (simp add: su_new_def su_finish_def su_initialize_def)
qed

section \<open>Properties\<close>

text \<open>Update documents. A new update builder, any calls that set sections from item builders or
  name the active session, and \<^const>\<open>su_finish\<close>: nothing faults however the vectors grow, and the
  result is the encoding of the document that has, below the id of the simulator, one element per
  call in their order, an item under its key of four hexadecimal digits where its id is a number.
  Afterwards the builder can be initialized again.\<close>

theorem sim_update_document:
  assumes "reserve_ok grow" "0 \<notin> set sim_id" "list_all2 su_means cs es" "wf_elems es"
    "int (length (enc_doc (update_doc sim_id activate_sim es))) < 500000000"
  shows "\<exists>b1 b2 b3 b4 rest. su_new grow sim_id activate_sim = Some b1 \<and> su_run grow cs b1 = Some b2 \<and>
    su_finish b2 = Some (Some (enc_doc (update_doc sim_id activate_sim es) @ rest), b3) \<and>
    su_initialize grow sim_id activate_sim b3 = Some b4"
  using assms by (rule update_builds)

theorem sim_update_document_witness:
  "\<exists>b1 b2 b3 b4 rest. su_new (\<lambda>old req. max old req) [65] True = Some b1 \<and>
    su_run (\<lambda>old req. max old req) [SetActive [66], SetNumbered (ascii ''tires'') 0x1f (sb_new (\<lambda>old req. max old req))] b1 = Some b2 \<and>
    su_finish b2 = Some (Some (enc_doc (update_doc [65] True
      [(ascii ''active_session'', VStr [66]), (ascii ''tires'', VDoc [(ascii ''001f'', VDoc [])])]) @ rest), b3) \<and>
    su_initialize (\<lambda>old req. max old req) [65] True b3 = Some b4"
proof (rule sim_update_document)
  show r: "reserve_ok (\<lambda>old req. max old req)" by (auto simp: reserve_ok_def)
  have "hex16_key 0x1f = Some (ascii ''001f'')" by code_simp
  moreover have "holds_doc (sb_new (\<lambda>old req. max old req)) []"
    using sb_new_holds [OF r] by (auto simp: holds_doc_def root_level_def)
  ultimately show "list_all2 su_means [SetActive [66], SetNumbered (ascii ''tires'') 0x1f (sb_new (\<lambda>old req. max old req))]
     [(ascii ''active_session'', VStr [66]), (ascii ''tires'', VDoc [(ascii ''001f'', VDoc [])])]" by auto
qed (simp_all add: ascii_def update_doc_def length_enc_doc enc_elems_append)

end
