(* ===== verification/Session_Commands.thy ===== *)
theory Session_Commands
  imports Session_Send Packet_Properties Sim_Update
begin

text \<open>
  core/src/session.cpp, the commands of a session from the request to the result: blocking commands,
  which wait on a synchronization state of their thread until the callback has stored the result, the
  commands that send simulation data, and core/inc/sc-api/core/session_fwd.h, the results. A blocking
  call is split at its wait.
\<close>

section \<open>Results\<close>

definition rc_error_invalid_state :: int where "rc_error_invalid_state = 4"
definition rc_error_no_control :: int where "rc_error_no_control = 6"

definition async_isSuccess :: "async_result \<Rightarrow> bool" where
  "async_isSuccess r = (case r of Success p \<Rightarrow> True | Failure c m \<Rightarrow> c = 0)"

definition async_getResultCode :: "async_result \<Rightarrow> int" where
  "async_getResultCode r = (case r of Success p \<Rightarrow> 0 | Failure c m \<Rightarrow> c)"

text \<open>The message ends at its null; the null pointer is a fault.\<close>

definition async_getErrorMessage :: "async_result \<Rightarrow> bytes option" where
  "async_getErrorMessage r =
     (if async_isSuccess r then Some []
      else (case r of Failure c (Some m) \<Rightarrow> Some (takeWhile (\<lambda>b. b \<noteq> 0) m) | _ \<Rightarrow> None))"

definition async_getPayload :: "async_result \<Rightarrow> bytes option" where
  "async_getPayload r = (if async_getResultCode r = 0 then (case r of Success p \<Rightarrow> p | Failure c m \<Rightarrow> m) else None)"

record CommandResult =
  cr_code :: int
  cr_payload :: bytes

definition cr_createSuccess :: "bytes \<Rightarrow> CommandResult" where
  "cr_createSuccess p = \<lparr>cr_code = 0, cr_payload = p\<rparr>"

definition cr_createFailure :: "int \<Rightarrow> bytes \<Rightarrow> CommandResult" where
  "cr_createFailure c m = \<lparr>cr_code = c, cr_payload = m @ [0]\<rparr>"

text \<open>A success without payload fails the assertion.\<close>

definition cr_createFromAsync :: "async_result \<Rightarrow> CommandResult option" where
  "cr_createFromAsync r =
     (if async_getResultCode r \<noteq> 0 then map_option (cr_createFailure (async_getResultCode r)) (async_getErrorMessage r)
      else do {
        payload_bson \<leftarrow> async_getPayload r;
        n \<leftarrow> geti32 payload_bson 0;
        if n < 0 then None else map_option cr_createSuccess (rd_bytes payload_bson 0 (nat n))
      })"

definition cr_getErrorMessage :: "CommandResult \<Rightarrow> bytes" where
  "cr_getErrorMessage r = (if cr_code r = 0 then [] else take (length (cr_payload r) - 1) (cr_payload r))"

section \<open>Blocking commands\<close>

text \<open>The callbacks: those of the user, and the two lambdas, which carry the synchronization state of the
  thread that waits.\<close>

datatype 'u command_cb = UserCb 'u | SimpleCb nat | ResultCb nat

datatype sync_state = Waiting | Got_code int | Got_result CommandResult

definition run_sync_cb :: "'u command_cb \<Rightarrow> async_result \<Rightarrow> (nat \<Rightarrow> sync_state) \<Rightarrow> (nat \<Rightarrow> sync_state) option" where
  "run_sync_cb cb r sync = (case cb of
     UserCb u \<Rightarrow> Some sync
   | SimpleCb t \<Rightarrow> Some (sync(t := Got_code (async_getResultCode r)))
   | ResultCb t \<Rightarrow> map_option (\<lambda>x. sync(t := Got_result x)) (cr_createFromAsync r))"

fun run_sync_cbs :: "('u command_cb \<times> async_result) list \<Rightarrow> (nat \<Rightarrow> sync_state) \<Rightarrow> (nat \<Rightarrow> sync_state) option" where
  "run_sync_cbs [] sync = Some sync"
| "run_sync_cbs ((cb, r) # calls) sync = do { sync \<leftarrow> run_sync_cb cb r sync; run_sync_cbs calls sync }"

text \<open>Up to the wait: a result when the call returns at once, or \<^term>\<open>None\<close> when it waits; and the packet
  whose write is started.\<close>

definition blockingSimpleCommand ::
  "nat \<Rightarrow> bson_builder \<Rightarrow> 'u command_cb tx_state option \<Rightarrow>
   (int option \<times> bytes option \<times> 'u command_cb tx_state option \<times> bson_builder) option" where
  "blockingSimpleCommand t req p = (case p of
     None \<Rightarrow> Some (Some rc_error_invalid_state, None, None, req)
   | Some s \<Rightarrow> do {
       let (cmd_id, s) = fetch_cmd_id s;
       (packet_buffer, req) \<leftarrow> cr_finalize cmd_id req;
       let (ok, w, s) = startSendCommand packet_buffer cmd_id (SimpleCb t) s;
       Some (if ok then None else Some rc_error_no_control, w, Some s, req)
     })"

definition blockingCommand ::
  "nat \<Rightarrow> bson_builder \<Rightarrow> 'u command_cb tx_state option \<Rightarrow>
   (CommandResult option \<times> bytes option \<times> 'u command_cb tx_state option \<times> bson_builder) option" where
  "blockingCommand t req p = (case p of
     None \<Rightarrow> Some (Some (cr_createFailure rc_error_invalid_state (ascii ''Session is closed'')), None, None, req)
   | Some s \<Rightarrow> do {
       let (cmd_id, s) = fetch_cmd_id s;
       (packet_buffer, req) \<leftarrow> cr_finalize cmd_id req;
       let (ok, w, s) = startSendCommand packet_buffer cmd_id (ResultCb t) s;
       Some (if ok then None else Some (cr_createFailure rc_error_no_control (ascii ''Not registered to control'')), w, Some s, req)
     })"

section \<open>Simulation data commands\<close>

text \<open>The request of \<^verbatim>\<open>blockingReplaceSimData\<close>, \<^verbatim>\<open>asyncReplaceSimData\<close>, \<^verbatim>\<open>blockingUpdateSimData\<close> and
  \<^verbatim>\<open>asyncUpdateSimData\<close>.\<close>

definition sim_data_request :: "(nat \<Rightarrow> nat \<Rightarrow> nat) \<Rightarrow> bytes \<Rightarrow> bson_builder \<Rightarrow> (bson_builder \<times> bson_builder) option" where
  "sim_data_request grow command builder = do {
     (d, builder) \<leftarrow> su_finish builder;
     d \<leftarrow> d;
     req \<leftarrow> cr_initializeFrom grow (ascii ''sim_data'') command d command_request;
     Some (req, builder)
   }"

definition asyncReplaceSimData ::
  "(nat \<Rightarrow> nat \<Rightarrow> nat) \<Rightarrow> bson_builder \<Rightarrow> 'u command_cb \<Rightarrow> 'u command_cb tx_state option \<Rightarrow> (bool \<times> bytes option \<times> 'u command_cb tx_state option) option" where
  "asyncReplaceSimData grow builder cb p = do {
     (req, builder) \<leftarrow> sim_data_request grow (ascii ''replace'') builder;
     (ok, w, p, req) \<leftarrow> asyncCommand req cb p;
     Some (ok, w, p)
   }"

definition asyncUpdateSimData ::
  "(nat \<Rightarrow> nat \<Rightarrow> nat) \<Rightarrow> bson_builder \<Rightarrow> 'u command_cb \<Rightarrow> 'u command_cb tx_state option \<Rightarrow> (bool \<times> bytes option \<times> 'u command_cb tx_state option) option" where
  "asyncUpdateSimData grow builder cb p = do {
     (req, builder) \<leftarrow> sim_data_request grow (ascii ''update'') builder;
     (ok, w, p, req) \<leftarrow> asyncCommand req cb p;
     Some (ok, w, p)
   }"

definition blockingReplaceSimData ::
  "(nat \<Rightarrow> nat \<Rightarrow> nat) \<Rightarrow> nat \<Rightarrow> bson_builder \<Rightarrow> 'u command_cb tx_state option \<Rightarrow> (bool option \<times> bytes option \<times> 'u command_cb tx_state option) option" where
  "blockingReplaceSimData grow t builder p = do {
     (req, builder) \<leftarrow> sim_data_request grow (ascii ''replace'') builder;
     (res, w, p, req) \<leftarrow> blockingSimpleCommand t req p;
     Some (map_option (\<lambda>c. c = 0) res, w, p)
   }"

definition blockingUpdateSimData ::
  "(nat \<Rightarrow> nat \<Rightarrow> nat) \<Rightarrow> nat \<Rightarrow> bson_builder \<Rightarrow> 'u command_cb tx_state option \<Rightarrow> (bool option \<times> bytes option \<times> 'u command_cb tx_state option) option" where
  "blockingUpdateSimData grow t builder p = do {
     (req, builder) \<leftarrow> sim_data_request grow (ascii ''update'') builder;
     (res, w, p, req) \<leftarrow> blockingSimpleCommand t req p;
     Some (map_option (\<lambda>c. c = 0) res, w, p)
   }"

section \<open>From the request to the response\<close>

text \<open>A handler that only one command has is called once, by the first response with the id of the
  command.\<close>

definition answers :: "int \<Rightarrow> bdoc \<Rightarrow> bool" where
  "answers i d \<longleftrightarrow> command_of d = Some i"

definition only_at :: "int \<Rightarrow> 'cb \<Rightarrow> (int \<rightharpoonup> 'cb) \<Rightarrow> bool" where
  "only_at i cb hs \<longleftrightarrow> (\<forall>k. k \<noteq> i \<longrightarrow> hs k \<noteq> Some cb)"

text \<open>What the callbacks do to the table of handlers: they may add handlers for new commands.\<close>

definition leaves :: "int \<Rightarrow> 'cb \<Rightarrow> ('cb \<Rightarrow> async_result \<Rightarrow> (int \<rightharpoonup> 'cb) \<Rightarrow> (int \<rightharpoonup> 'cb)) \<Rightarrow> bool" where
  "leaves i cb run_cb \<longleftrightarrow> (\<forall>c r hs. run_cb c r hs i = hs i \<and> (only_at i cb hs \<longrightarrow> only_at i cb (run_cb c r hs)))"

lemma handle_others:
  assumes "leaves i cb run_cb"
  shows "only_at i cb hs \<Longrightarrow> hs i = None \<or> (\<forall>d\<in>set ds. \<not> answers i d) \<Longrightarrow> handle_all run_cb ds hs = (calls, hs') \<Longrightarrow>
    filter (\<lambda>c. fst c = cb) calls = [] \<and> hs' i = hs i \<and> only_at i cb hs'"
proof (induction ds arbitrary: hs calls)
  case Nil
  then show ?case by simp
next
  case (Cons d ds)
  obtain call hs1 where h: "handle_doc d hs = (call, hs1)" by force
  let ?hs2 = "case call of None \<Rightarrow> hs1 | Some (c, r) \<Rightarrow> run_cb c r hs1"
  obtain calls2 where c2: "handle_all run_cb ds ?hs2 = (calls2, hs')" "calls = (case call of None \<Rightarrow> [] | Some c \<Rightarrow> [c]) @ calls2"
    using Cons.prems(3) h by (auto split: prod.splits)
  have k: "(case call of None \<Rightarrow> True | Some c \<Rightarrow> fst c \<noteq> cb) \<and> hs1 i = hs i \<and> only_at i cb hs1"
  proof (cases "command_of d = Some i")
    case True
    then have "hs i = None" using Cons.prems(2) by (auto simp: answers_def)
    then show ?thesis using h Cons.prems(1) True by (simp add: handle_doc_def)
  next
    case False
    then show ?thesis using h Cons.prems(1)
      by (cases "command_of d") (auto simp: handle_doc_def only_at_def split: option.splits if_splits)
  qed
  then have "only_at i cb ?hs2" "?hs2 i = hs i" using assms by (auto simp: leaves_def split: option.splits)
  then show ?case using Cons.IH [OF _ _ c2(1)] Cons.prems(2) c2(2) k by (auto split: option.splits)
qed

lemma handle_answer:
  assumes l: "leaves i cb run_cb" and hs: "hs i = Some cb" "only_at i cb hs" and ds: "\<forall>d\<in>set before. \<not> answers i d"
    and d: "answers i d"
  shows "filter (\<lambda>c. fst c = cb) (fst (handle_all run_cb (before @ d # after) hs)) = [(cb, outcome_of d)] \<and>
    snd (handle_all run_cb (before @ d # after) hs) i = None"
proof -
  obtain c1 hs1 where h1: "handle_all run_cb before hs = (c1, hs1)" by force
  have a: "filter (\<lambda>c. fst c = cb) c1 = []" "hs1 i = Some cb" "only_at i cb hs1"
    using handle_others [OF l hs(2) _ h1] ds hs(1) by auto
  have h: "handle_doc d hs1 = (Some (cb, outcome_of d), hs1(i := None))" using d a(2) by (simp add: handle_doc_def answers_def fun_upd_def)
  let ?hs2 = "run_cb cb (outcome_of d) (hs1(i := None))"
  have "only_at i cb (hs1(i := None))" using a(3) by (simp add: only_at_def)
  then have b: "only_at i cb ?hs2" "?hs2 i = None" using l by (simp_all add: leaves_def)
  obtain c2 hs3 where h2: "handle_all run_cb after ?hs2 = (c2, hs3)" by force
  have "filter (\<lambda>c. fst c = cb) c2 = []" "hs3 i = None" using handle_others [OF l b(1) _ h2] b(2) by auto
  then show ?thesis using a(1) h h1 h2 by (simp add: handle_all_append)
qed

text \<open>The synchronization state of a thread is what its callback has stored.\<close>

lemma run_sync_other:
  assumes "run_sync_cb c r sync = Some sync'" "c \<noteq> SimpleCb t" "c \<noteq> ResultCb t"
  shows "sync' t = sync t"
  using assms by (auto simp: run_sync_cb_def split: command_cb.splits)

lemma run_sync_simple:
  "run_sync_cbs calls sync = Some sync' \<Longrightarrow> filter (\<lambda>c. fst c = SimpleCb t) calls = xs \<Longrightarrow> filter (\<lambda>c. fst c = ResultCb t) calls = [] \<Longrightarrow>
   sync' t = (if xs = [] then sync t else Got_code (async_getResultCode (snd (last xs))))"
proof (induction calls sync arbitrary: xs rule: run_sync_cbs.induct)
  case (2 cb r calls sync)
  obtain s1 where s1: "run_sync_cb cb r sync = Some s1" "run_sync_cbs calls s1 = Some sync'" using 2(2) by (auto simp: bind_eq_Some_conv)
  have n: "cb \<noteq> ResultCb t" "filter (\<lambda>c. fst c = ResultCb t) calls = []" using 2(4) by (auto split: if_splits)
  have ih: "sync' t = (if filter (\<lambda>c. fst c = SimpleCb t) calls = [] then s1 t else Got_code (async_getResultCode (snd (last (filter (\<lambda>c. fst c = SimpleCb t) calls)))))"
    using 2(1) [OF s1(1) s1(2) refl n(2)] .
  show ?case
  proof (cases "cb = SimpleCb t")
    case True
    then have "s1 t = Got_code (async_getResultCode r)" using s1(1) by (auto simp: run_sync_cb_def)
    then show ?thesis using ih True 2(3) by auto
  next
    case False
    then show ?thesis using ih run_sync_other [OF s1(1) False n(1)] 2(3) by simp
  qed
qed auto

text \<open>A handler nobody has is not called.\<close>

definition absent :: "'cb \<Rightarrow> (int \<rightharpoonup> 'cb) \<Rightarrow> bool" where
  "absent cb hs \<longleftrightarrow> (\<forall>k. hs k \<noteq> Some cb)"

lemma handle_absent:
  assumes "\<And>c r hs. absent cb hs \<Longrightarrow> absent cb (run_cb c r hs)"
  shows "absent cb hs \<Longrightarrow> handle_all run_cb ds hs = (calls, hs') \<Longrightarrow> filter (\<lambda>c. fst c = cb) calls = []"
proof (induction ds arbitrary: hs calls)
  case (Cons d ds)
  obtain call hs1 where h: "handle_doc d hs = (call, hs1)" by force
  let ?hs2 = "case call of None \<Rightarrow> hs1 | Some (c, r) \<Rightarrow> run_cb c r hs1"
  obtain calls2 where c2: "handle_all run_cb ds ?hs2 = (calls2, hs')" "calls = (case call of None \<Rightarrow> [] | Some c \<Rightarrow> [c]) @ calls2"
    using Cons.prems(2) h by (auto split: prod.splits)
  have k: "(case call of None \<Rightarrow> True | Some c \<Rightarrow> fst c \<noteq> cb) \<and> absent cb hs1"
    using h Cons.prems(1) by (auto simp: handle_doc_def absent_def split: option.splits if_splits)
  then have "absent cb ?hs2" using assms by (auto split: option.splits)
  then show ?case using Cons.IH [OF _ c2(1)] c2(2) k by (auto split: option.splits)
qed simp

lemma result_code_of: "async_getResultCode (outcome_of d) = code_of d"
  by (simp add: async_getResultCode_def outcome_of_def)

text \<open>A callback fails only when it takes the payload of a success that has none, or the message of a failure that has none.\<close>

lemma run_sync_cbs_total:
  "\<forall>(cb, r)\<in>set calls. \<forall>u. cb = ResultCb u \<longrightarrow> cr_createFromAsync r \<noteq> None \<Longrightarrow> run_sync_cbs calls sync \<noteq> None"
  by (induction calls sync rule: run_sync_cbs.induct) (auto simp: run_sync_cb_def split: command_cb.splits)

text \<open>The document of an update builder as the content of a request: the bytes behind it do not matter.\<close>

lemma cr_initializeFrom_rest:
  assumes "int (length (enc_doc ds)) < 2147483648"
  shows "cr_initializeFrom grow service command (enc_doc ds @ rest) b = cr_initializeFrom grow service command (enc_doc ds) b"
proof -
  have h: "rd_bytes (enc_doc ds @ rest) 0 4 = Some (le_bytes 4 (int (length (enc_doc ds))))" "rd_bytes (enc_doc ds) 0 4 = Some (le_bytes 4 (int (length (enc_doc ds))))"
    by (simp_all add: rd_bytes_def enc_doc_def doc_frame_def add.commute)
  have z: "i32 (le_int (le_bytes 4 (int (length (enc_doc ds))))) = int (length (enc_doc ds))"
    using assms by (simp add: le_int_le_bytes i32_mod i32_id i32_range_def)
  have l: "nat (int (length (enc_doc ds)) - 5) + 4 \<le> length (enc_doc ds)" by (simp add: length_enc_doc)
  have e: "rd_bytes (enc_doc ds @ rest) 4 (nat (int (length (enc_doc ds)) - 5)) = rd_bytes (enc_doc ds) 4 (nat (int (length (enc_doc ds)) - 5))"
    using l by (simp add: rd_bytes_def)
  have d: "docBeginSubDoc_from command (enc_doc ds @ rest) b' = docBeginSubDoc_from command (enc_doc ds) b'" for b'
    unfolding docBeginSubDoc_from_def h option.case Let_def z e ..
  have g: "geti32 (enc_doc ds @ rest) 0 = geti32 (enc_doc ds) 0" by (simp add: geti32_def h)
  show ?thesis unfolding cr_initializeFrom_def d g ..
qed

lemma sim_data_request_builds:
  assumes r: "reserve_ok grow" and f: "su_finish b2 = Some (Some (enc_doc ds @ rest), b3)" and l: "int (length (enc_doc ds)) < 500000000" "length command \<le> 100"
  shows "\<exists>req. sim_data_request grow command b2 = Some (req, b3) \<and> growing req (request_levels (ascii ''sim_data'') command ds) 500000200"
proof -
  have s8: "length (ascii ''sim_data'') = 8" by (simp add: ascii_def)
  have "int (length (ascii ''sim_data'')) + int (length command) + int (length (enc_doc ds)) < 536870912" using l unfolding s8 by linarith
  from cr_initializeFrom_spec [OF r command_request_idle this] obtain req where
    req: "cr_initializeFrom grow (ascii ''sim_data'') command (enc_doc ds) command_request = Some req"
    "growing req (request_levels (ascii ''sim_data'') command ds) (48 + int (length (ascii ''sim_data'')) + int (length command) + int (length (enc_doc ds)))" by blast
  have "growing req (request_levels (ascii ''sim_data'') command ds) 500000200" using req(2) l unfolding growing_def s8 by auto
  then show ?thesis using f req(1) cr_initializeFrom_rest [of ds] l(1) by (simp add: sim_data_request_def)
qed

text \<open>A blocking call on an open connection: the packet is queued behind the others.\<close>

lemma blocking_starts:
  assumes "main_socket_is_open s" "cr_finalize (command_id_counter s) req = Some (packet, req1)" "queue = main_socket_tx_queue s @ [packet]"
  shows "blockingSimpleCommand t req (Some s) = Some (None, if send_in_progress s then None else Some (hd queue),
    Some (s\<lparr>command_id_counter := command_id_counter (snd (fetch_cmd_id s)),
       command_result_handlers := (command_result_handlers s)(command_id_counter s \<mapsto> SimpleCb t),
       main_socket_tx_queue := (if send_in_progress s then queue else tl queue), send_in_progress := True\<rparr>), req1)"
proof -
  have "queue \<noteq> []" using assms(3) by simp
  then obtain x xs where x: "queue = x # xs" by (auto simp: neq_Nil_conv)
  then show ?thesis using assms
    by (cases "send_in_progress s") (simp_all add: blockingSimpleCommand_def fetch_cmd_id_def startSendCommand_def startNextSendNoLock_def Let_def)
qed

section \<open>Properties\<close>

text \<open>C34: a blocking command, end to end. A thread that issues a blocking command with a built request on an
  open connection appends the request document with a new id to the queue, whose first packet is
  written at once if no write is active, and waits. Let the backend then send well-formed documents,
  among them a response to this id, cut in any way, where the largest document and the largest read
  together have at most 32 KiB, and let the callbacks of the other commands start further commands under
  other ids. Then the handler is called exactly once, with the outcome of the first response to the id, and is
  gone; and when the results of the other waiting threads can be stored, the call returns the result
  code of that response.\<close>

theorem blocking_command_answered:
  fixes t :: nat
  assumes req: "growing req (request_levels service command body) n" "n + 15 < 1073741824"
    and s: "main_socket_is_open s" "i32_range (command_id_counter s)"
    and cbs: "absent (SimpleCb t) (command_result_handlers s)" "absent (ResultCb t) (command_result_handlers s)"
      "leaves (command_id_counter s) (SimpleCb t) run_cb" "\<And>c r hs. absent (ResultCb t) hs \<Longrightarrow> absent (ResultCb t) (run_cb c r hs)"
    and ds: "\<forall>d\<in>set (before @ d # after). wf_elems d \<and> length (enc_doc d) \<le> D" "\<forall>c\<in>set cs. length c \<le> C" "D + C \<le> 0x8000"
      "concat cs = encs (before @ d # after)" "length buf = k_rx_buffer_size"
    and d: "\<forall>d\<in>set before. \<not> answers (command_id_counter s) d" "answers (command_id_counter s) d"
    and q: "queue = main_socket_tx_queue s @ [enc_doc (request_doc service command body (command_id_counter s))]"
  shows "\<exists>s1 req1 calls rx. blockingSimpleCommand t req (Some s) =
      Some (None, if send_in_progress s then None else Some (hd queue), Some s1, req1) \<and>
    main_socket_tx_queue s1 = (if send_in_progress s then queue else tl queue) \<and> send_in_progress s1 \<and>
    rx_reads run_cb cs \<lparr>receive_buffer = buf, receive_buffer_used = 0, rx_handlers = command_result_handlers s1\<rparr> = Some (calls, rx) \<and>
    filter (\<lambda>c. fst c = SimpleCb t) calls = [(SimpleCb t, outcome_of d)] \<and> rx_handlers rx (command_id_counter s) = None \<and>
    ((\<forall>(cb, r)\<in>set calls. \<forall>u. cb = ResultCb u \<longrightarrow> cr_createFromAsync r \<noteq> None) \<longrightarrow>
       (\<exists>sync. run_sync_cbs calls (\<lambda>_. Waiting) = Some sync \<and> sync t = Got_code (code_of d)))"
proof -
  let ?i = "command_id_counter s" and ?ds = "before @ d # after"
  obtain req1 where f: "cr_finalize ?i req = Some (enc_doc (request_doc service command body ?i), req1)"
    using cr_finalize_spec [OF req s(2)] by blast
  let ?hs = "(command_result_handlers s)(?i \<mapsto> SimpleCb t)"
  obtain s1 where s1: "blockingSimpleCommand t req (Some s) =
      Some (None, if send_in_progress s then None else Some (hd queue), Some s1, req1)"
    "command_result_handlers s1 = ?hs" "main_socket_tx_queue s1 = (if send_in_progress s then queue else tl queue)" "send_in_progress s1"
    using that [OF blocking_starts [OF s(1) f q]] by simp
  have hd: "?ds \<noteq> [] \<longrightarrow> length ([] :: bytes) < length (enc_doc (hd ?ds))" by (simp add: length_enc_doc)
  let ?rx = "\<lparr>receive_buffer = buf, receive_buffer_used = 0, rx_handlers = ?hs\<rparr>"
  obtain rx where rx: "rx_reads run_cb cs ?rx = Some (fst (handle_all run_cb ?ds ?hs), rx)" "rx_handlers rx = snd (handle_all run_cb ?ds ?hs)"
    using rx_reads_docs [OF ds(1-3), of ?rx "[]" buf run_cb] ds(4,5) hd by auto
  have oa: "only_at ?i (SimpleCb t) ?hs" using cbs(1) by (simp add: only_at_def absent_def)
  have a: "filter (\<lambda>c. fst c = SimpleCb t) (fst (handle_all run_cb ?ds ?hs)) = [(SimpleCb t, outcome_of d)]" "snd (handle_all run_cb ?ds ?hs) ?i = None"
    using handle_answer [OF cbs(3) _ oa d(1,2)] by simp_all
  have "absent (ResultCb t) ?hs" using cbs(2) by (simp add: absent_def)
  from handle_absent [OF cbs(4) this surjective_pairing]
  have r: "filter (\<lambda>c. fst c = ResultCb t) (fst (handle_all run_cb ?ds ?hs)) = []" .
  have sy: "\<exists>sync. run_sync_cbs (fst (handle_all run_cb ?ds ?hs)) (\<lambda>_. Waiting) = Some sync \<and> sync t = Got_code (code_of d)"
    if tot: "\<forall>(cb, r)\<in>set (fst (handle_all run_cb ?ds ?hs)). \<forall>u. cb = ResultCb u \<longrightarrow> cr_createFromAsync r \<noteq> None"
  proof -
    obtain sync where "run_sync_cbs (fst (handle_all run_cb ?ds ?hs)) (\<lambda>_. Waiting) = Some sync"
      using run_sync_cbs_total [OF tot] by auto
    then show ?thesis using run_sync_simple [OF _ a(1) r] by (auto simp: result_code_of)
  qed
  show ?thesis
    by (rule exI [of _ s1], rule exI [of _ req1], rule exI [of _ "fst (handle_all run_cb ?ds ?hs)"], rule exI [of _ rx], intro conjI s1(1,3,4) a impI sy)
      (use rx a(2) s1(2) in simp_all)
qed

definition wit_tx :: "unit command_cb tx_state" where
  "wit_tx = \<lparr>main_socket_is_open = True, command_id_counter = 7, command_result_handlers = (\<lambda>_. None), main_socket_tx_queue = [], send_in_progress = False\<rparr>"

theorem blocking_command_answered_witness:
  "\<exists>req s1 req1 calls rx. cr_initialize (\<lambda>old req. max old req) (ascii ''core'') (ascii ''ping'') command_request = Some req \<and>
    blockingSimpleCommand 1 req (Some wit_tx) = Some (None, Some (enc_doc (request_doc (ascii ''core'') (ascii ''ping'') [] 7)), Some s1, req1) \<and>
    rx_reads (\<lambda>c r hs. hs) [take 9 (enc_doc wit_response), drop 9 (enc_doc wit_response)]
      \<lparr>receive_buffer = replicate k_rx_buffer_size 0, receive_buffer_used = 0, rx_handlers = command_result_handlers s1\<rparr> = Some (calls, rx) \<and>
    filter (\<lambda>c. fst c = SimpleCb 1) calls = [(SimpleCb 1, Failure 3 (Some [78, 79]))]"
proof -
  have ro: "reserve_ok (\<lambda>old req. max old req)" by (auto simp: reserve_ok_def)
  obtain req where req: "cr_initialize (\<lambda>old req. max old req) (ascii ''core'') (ascii ''ping'') command_request = Some req"
    "growing req (request_levels (ascii ''core'') (ascii ''ping'') []) (48 + int (length (ascii ''core'')) + int (length (ascii ''ping'')))"
    using cr_initialize_spec [OF ro command_request_idle, of "ascii ''ping''" "ascii ''core''"] by (auto simp: ascii_def)
  have wf: "wf_elems wit_response" "length (enc_doc wit_response) = 66"
    by (simp_all add: wit_response_def ascii_def i32_range_def length_enc_doc)
  have r: "command_of wit_response = Some 7" "outcome_of wit_response = Failure 3 (Some [78, 79])"
    by (auto simp: wit_response_def command_of_def is_response_def outcome_of_def code_of_def i32_at_def str_at_def
        keys_distinct keys_distinct [symmetric])
  let ?q = "main_socket_tx_queue wit_tx @ [enc_doc (request_doc (ascii ''core'') (ascii ''ping'') [] (command_id_counter wit_tx))]"
  have q: "hd ?q = enc_doc (request_doc (ascii ''core'') (ascii ''ping'') [] 7)" "\<not> send_in_progress wit_tx" by (simp_all add: wit_tx_def)
  have "\<exists>s1 req1 calls rx. blockingSimpleCommand 1 req (Some wit_tx) =
      Some (None, if send_in_progress wit_tx then None else Some (hd ?q), Some s1, req1) \<and>
    main_socket_tx_queue s1 = (if send_in_progress wit_tx then ?q else tl ?q) \<and> send_in_progress s1 \<and>
    rx_reads (\<lambda>c r hs. hs) [take 9 (enc_doc wit_response), drop 9 (enc_doc wit_response)]
      \<lparr>receive_buffer = replicate k_rx_buffer_size 0, receive_buffer_used = 0, rx_handlers = command_result_handlers s1\<rparr> = Some (calls, rx) \<and>
    filter (\<lambda>c. fst c = SimpleCb 1) calls = [(SimpleCb 1, outcome_of wit_response)] \<and> rx_handlers rx (command_id_counter wit_tx) = None \<and>
    ((\<forall>(cb, r)\<in>set calls. \<forall>u. cb = ResultCb u \<longrightarrow> cr_createFromAsync r \<noteq> None) \<longrightarrow>
       (\<exists>sync. run_sync_cbs calls (\<lambda>_. Waiting) = Some sync \<and> sync 1 = Got_code (code_of wit_response)))"
    by (rule blocking_command_answered [OF req(2), where before = "[]" and after = "[]" and d = wit_response and D = 66 and C = 100])
      (use wf r in \<open>simp_all add: ascii_def wit_tx_def i32_range_def absent_def leaves_def answers_def\<close>)
  then show ?thesis using req(1) unfolding r(2) q(1) using q(2) by auto
qed

text \<open>C35: simulation data reaches the wire. An update builder on which any calls have set sections is finished
  and sent with a blocking update on an open, idle connection: the bytes whose write is started are the
  encoding of the request to the service \<^verbatim>\<open>sim_data\<close> whose body is the update document, under the new
  command id, and the thread waits with its handler registered under that id.\<close>

theorem sim_data_update_sent:
  assumes "reserve_ok grow" "0 \<notin> set sim_id" "list_all2 su_means cs es" "wf_elems es"
    "int (length (enc_doc (update_doc sim_id activate_sim es))) < 500000000"
    "main_socket_is_open s" "\<not> send_in_progress s" "main_socket_tx_queue s = []" "i32_range (command_id_counter s)"
  shows "\<exists>b1 b2 s1. su_new grow sim_id activate_sim = Some b1 \<and> su_run grow cs b1 = Some b2 \<and>
    blockingUpdateSimData grow t b2 (Some s) = Some (None, Some (enc_doc (request_doc (ascii ''sim_data'') (ascii ''update'')
      (update_doc sim_id activate_sim es) (command_id_counter s))), Some s1) \<and>
    command_result_handlers s1 (command_id_counter s) = Some (SimpleCb t)"
proof -
  obtain b1 b2 b3 rest where b: "su_new grow sim_id activate_sim = Some b1" "su_run grow cs b1 = Some b2"
    "su_finish b2 = Some (Some (enc_doc (update_doc sim_id activate_sim es) @ rest), b3)"
    using update_builds [OF assms(1-5)] by blast
  have "length (ascii ''update'') \<le> 100" by (simp add: ascii_def)
  from sim_data_request_builds [OF assms(1) b(3) assms(5) this] obtain req where
    req: "sim_data_request grow (ascii ''update'') b2 = Some (req, b3)"
    "growing req (request_levels (ascii ''sim_data'') (ascii ''update'') (update_doc sim_id activate_sim es)) 500000200" by blast
  obtain req1 where f: "cr_finalize (command_id_counter s) req = Some (enc_doc (request_doc (ascii ''sim_data'') (ascii ''update'')
      (update_doc sim_id activate_sim es) (command_id_counter s)), req1)"
    using cr_finalize_spec [OF req(2) _ assms(9)] by auto
  show ?thesis using b(1,2) req(1) f assms(6-8)
    by (simp add: blockingUpdateSimData_def blockingSimpleCommand_def fetch_cmd_id_def startSendCommand_def startNextSendNoLock_def)
qed

theorem sim_data_update_sent_witness:
  "\<exists>b1 b2 s1. su_new (\<lambda>old req. max old req) [65] False = Some b1 \<and> su_run (\<lambda>old req. max old req) [SetActive [66]] b1 = Some b2 \<and>
    blockingUpdateSimData (\<lambda>old req. max old req) 1 b2 (Some wit_tx) = Some (None, Some (enc_doc (request_doc (ascii ''sim_data'') (ascii ''update'')
      (update_doc [65] False [(ascii ''active_session'', VStr [66])]) (command_id_counter wit_tx))), Some s1) \<and>
    command_result_handlers s1 (command_id_counter wit_tx) = Some (SimpleCb 1)"
proof (rule sim_data_update_sent)
  show "reserve_ok (\<lambda>old req. max old req)" by (auto simp: reserve_ok_def)
qed (simp_all add: ascii_def update_doc_def length_enc_doc wit_tx_def i32_range_def)

end
