(* ===== verification/Shm_Provider.thy ===== *)
theory Shm_Provider
  imports Telemetry Sim_Properties
begin

text \<open>
  core/src/shm_bson_data_provider.cpp, the access protocol of core/src/compatibility.h, and the
  providers of device information and simulation data: BSON documents in shared memory that another
  process rewrites at any time. The block's contents at the successive accesses are a function of
  time; every read of the code, each byte of its copy included, takes one unit of it. A revision
  counter that is even and does not change marks consistent data.
\<close>

section \<open>Access protocol\<close>

type_synonym shm_history = "nat \<Rightarrow> bytes"

text \<open>The offsets of \<^verbatim>\<open>data_revision_counter\<close>, \<^verbatim>\<open>shm_size\<close>, \<^verbatim>\<open>data_offset\<close> and \<^verbatim>\<open>data_size\<close> in
  \<^verbatim>\<open>SC_API_PROTOCOL_BsonDataShm_t\<close> are 4, 8, 12 and 16.\<close>

definition shmTryAtomicDataAccess ::
  "shm_history \<Rightarrow> (int \<Rightarrow> nat \<Rightarrow> 's \<Rightarrow> (bool \<times> nat \<times> 's) option) \<Rightarrow> nat \<Rightarrow> 's \<Rightarrow> (bool \<times> nat \<times> 's) option" where
  "shmTryAtomicDataAccess m f t s = do {
     start_rev \<leftarrow> shm_u32 (m t) 4;
     hdr_size \<leftarrow> shm_u32 (m (t + 1)) 8;
     if odd start_rev \<or> start_rev < 2 then Some (False, t + 2, s)
     else do {
       (ok, t, s) \<leftarrow> f hdr_size (t + 2) s;
       if \<not> ok then Some (False, t, s)
       else do {
         end_rev \<leftarrow> shm_u32 (m t) 4;
         Some (start_rev = end_rev, t + 1, s)
       }
     }
   }"

text \<open>\<^verbatim>\<open>memcpy\<close> out of the block: a read behind its end is a fault.\<close>

fun shm_copy :: "shm_history \<Rightarrow> nat \<Rightarrow> nat \<Rightarrow> nat \<Rightarrow> bytes option" where
  "shm_copy m t off 0 = Some []"
| "shm_copy m t off (Suc n) =
     (if off < length (m t) then map_option ((#) (m t ! off)) (shm_copy m (t + 1) (off + 1) n) else None)"

section \<open>The provider\<close>

record shm_provider =
  shm_buffer :: bool
  shm_buffer_size :: int
  active_buffer :: "bytes option"
  active_buffer_size :: int
  active_buffer_revision :: int
  buffer_changed :: bool

definition new_provider :: shm_provider where
  "new_provider = \<lparr>shm_buffer = False, shm_buffer_size = 0, active_buffer = None, active_buffer_size = 0,
     active_buffer_revision = 0, buffer_changed = False\<rparr>"

definition setShmBuffer :: "int \<Rightarrow> shm_provider \<Rightarrow> shm_provider" where
  "setShmBuffer sz p = p\<lparr>shm_buffer := True, shm_buffer_size := sz, active_buffer_size := 0, active_buffer := None,
     active_buffer_revision := 0, buffer_changed := True\<rparr>"

definition getRawBson :: "int \<Rightarrow> shm_provider \<Rightarrow> bytes option \<times> int" where
  "getRawBson revision_out p =
     (active_buffer p, if active_buffer p \<noteq> None then active_buffer_revision p else revision_out)"

text \<open>The locals of \<^verbatim>\<open>update\<close> that its lambda captures.\<close>

record update_locals =
  new_revision :: int
  new_buffer_size :: int
  new_buffer :: "bytes option"
  valid_data :: bool

definition update_access ::
  "shm_provider \<Rightarrow> int \<Rightarrow> shm_history \<Rightarrow> int \<Rightarrow> nat \<Rightarrow> update_locals \<Rightarrow> (bool \<times> nat \<times> update_locals) option" where
  "update_access p old_revision m hdr_reported_size t s = do {
     rev \<leftarrow> shm_u32 (m t) 4;
     if rev = old_revision \<and> \<not> buffer_changed p then Some (True, t + 1, s)
     else if hdr_reported_size > shm_buffer_size p then Some (False, t + 1, s\<lparr>valid_data := False\<rparr>)
     else do {
       rev \<leftarrow> shm_u32 (m (t + 1)) 4;
       let s = s\<lparr>new_revision := rev\<rparr>;
       data_start \<leftarrow> shm_u32 (m (t + 2)) 12;
       data_size \<leftarrow> shm_u32 (m (t + 3)) 16;
       data_offset \<leftarrow> shm_u32 (m (t + 4)) 12;
       if data_size + data_offset > hdr_reported_size then Some (False, t + 5, s\<lparr>valid_data := False\<rparr>)
       else do {
         let s = s\<lparr>valid_data := True\<rparr>;
         let s = (if new_buffer_size s \<noteq> data_size
                  then s\<lparr>new_buffer := Some (replicate (nat data_size) 0), new_buffer_size := data_size\<rparr> else s);
         bs \<leftarrow> shm_copy m (t + 5) (nat data_start) (nat data_size);
         Some (True, t + 5 + nat data_size, s\<lparr>new_buffer := map_option (\<lambda>_. bs) (new_buffer s)\<rparr>)
       }
     }
   }"

text \<open>The loop with its retries ends with \<^verbatim>\<open>no_new_data\<close> or with the locals and whether the last
  access succeeded.\<close>

datatype update_result = new_data_available | no_new_data | update_failed

datatype read_outcome = Unchanged | Fetched bool update_locals

fun update_retries :: "shm_provider \<Rightarrow> int \<Rightarrow> shm_history \<Rightarrow> nat \<Rightarrow> bool \<Rightarrow> nat \<Rightarrow> update_locals \<Rightarrow> (read_outcome \<times> nat) option" where
  "update_retries p old_revision m 0 access_success t s = Some (Fetched access_success s, t)"
| "update_retries p old_revision m (Suc k) access_success t s = do {
     (access_success, t, s) \<leftarrow> shmTryAtomicDataAccess m (update_access p old_revision m) t (s\<lparr>valid_data := False\<rparr>);
     if access_success \<and> new_revision s = 0 then Some (Unchanged, t)
     else if access_success \<and> valid_data s then Some (Fetched True s, t)
     else update_retries p old_revision m k access_success t s
   }"

definition k_max_retries :: nat where
  "k_max_retries = 3"

text \<open>\<^verbatim>\<open>update\<close> up to the end of the shared lock, with the old revision it remembers.\<close>

definition update_read :: "shm_provider \<Rightarrow> shm_history \<Rightarrow> nat \<Rightarrow> (read_outcome option \<times> int \<times> nat) option" where
  "update_read p m t =
     (if \<not> shm_buffer p then Some (None, 0, t)
      else do {
        (out, t) \<leftarrow> update_retries p (active_buffer_revision p) m k_max_retries False t
           \<lparr>new_revision = 0, new_buffer_size = 0, new_buffer = None, valid_data = False\<rparr>;
        Some (Some out, active_buffer_revision p, t)
      })"

text \<open>The rest, under the exclusive lock; another thread may have changed the provider in between.
  \<^verbatim>\<open>accept\<close> is the virtual \<^verbatim>\<open>parseAndValidateNewData\<close>.\<close>

definition update_commit ::
  "(bytes option \<Rightarrow> int \<Rightarrow> bool option) \<Rightarrow> read_outcome option \<Rightarrow> int \<Rightarrow> shm_provider \<Rightarrow> (update_result \<times> shm_provider) option" where
  "update_commit accept out old_revision p = (case out of
     None \<Rightarrow> Some (update_failed, p)
   | Some Unchanged \<Rightarrow> Some (no_new_data, p)
   | Some (Fetched access_success s) \<Rightarrow>
       if \<not> access_success then Some (update_failed, p)
       else do {
         valid \<leftarrow> (case new_buffer s of None \<Rightarrow> Some True | Some b \<Rightarrow> bson_validate_buf b (new_buffer_size s));
         if \<not> valid then Some (update_failed, p)
         else if old_revision \<noteq> active_buffer_revision p then Some (new_data_available, p)
         else do {
           ok \<leftarrow> accept (new_buffer s) (new_buffer_size s);
           if \<not> ok then Some (update_failed, p)
           else Some (new_data_available, p\<lparr>active_buffer := new_buffer s, active_buffer_size := new_buffer_size s,
             active_buffer_revision := new_revision s, buffer_changed := False\<rparr>)
         }
       })"

definition parseAndValidateNewData :: "bytes option \<Rightarrow> int \<Rightarrow> bool option" where
  "parseAndValidateNewData b sz = Some True"

definition device_parseAndValidateNewData :: "bytes option \<Rightarrow> int \<Rightarrow> bool option" where
  "device_parseAndValidateNewData b sz = do { r \<leftarrow> bson_reader_sized b sz; map_option fst (bson_validate r) }"

text \<open>\<^verbatim>\<open>update\<close> when no other thread comes in between.\<close>

definition shm_update ::
  "(bytes option \<Rightarrow> int \<Rightarrow> bool option) \<Rightarrow> shm_history \<Rightarrow> nat \<Rightarrow> shm_provider \<Rightarrow> (update_result \<times> shm_provider \<times> nat) option" where
  "shm_update accept m t p = do {
     (out, old_revision, t) \<leftarrow> update_read p m t;
     (res, p) \<leftarrow> update_commit accept out old_revision p;
     Some (res, p, t)
   }"

section \<open>Parsed information and its caches\<close>

text \<open>The cache holds the parsed devices with the revision they came from.\<close>

definition parseDeviceInfo ::
  "shm_provider \<Rightarrow> (device_data list \<times> int) option \<Rightarrow> ((device_data list \<times> int) \<times> (device_data list \<times> int) option) option" where
  "parseDeviceInfo p cached_device_info =
     (if (case cached_device_info of None \<Rightarrow> False | Some (devs, revision) \<Rightarrow> revision = active_buffer_revision p)
      then Some (the cached_device_info, cached_device_info)
      else do {
        devs \<leftarrow> parse_devices (active_buffer p) (active_buffer_size p);
        Some ((devs, active_buffer_revision p), Some (devs, active_buffer_revision p))
      })"

text \<open>The cache holds the parsed data with the buffer it points into. Two buffers are the same
  allocation when they were published by the same update, which \<^verbatim>\<open>same_buffer\<close> tells.\<close>

definition parseSimData ::
  "bool \<Rightarrow> shm_provider \<Rightarrow> sim_raw option \<Rightarrow> (sim_raw option \<times> sim_raw option) option" where
  "parseSimData same_buffer p parsed_data =
     (if (case parsed_data of None \<Rightarrow> False | Some d \<Rightarrow> active_buffer_revision p = sr_revision d \<and> same_buffer)
      then Some (parsed_data, parsed_data)
      else do {
        parsed \<leftarrow> parseFromRaw (active_buffer p) (active_buffer_revision p);
        Some (parsed, parsed)
      })"

end
