(* ===== verification/Shm_Properties.thy ===== *)
theory Shm_Properties
  imports Shm_Provider
begin

text \<open>
  Properties of the shared memory providers: what an update publishes is the document the block had
  at one moment, whatever the writer does in the meantime, as long as the writer keeps to the protocol
  of the revision counter.
\<close>

section \<open>The writer's protocol\<close>

text \<open>The documentation of \<^verbatim>\<open>data_revision_counter\<close>: it is incremented when a modification starts and
  when it ends, so while it is even and the same, so are the data.\<close>

definition rev_at :: "shm_history \<Rightarrow> nat \<Rightarrow> int option" where
  "rev_at m t = shm_u32 (m t) 4"

definition seqlock :: "shm_history \<Rightarrow> bool" where
  "seqlock m \<longleftrightarrow> (\<forall>t t' v u. t \<le> u \<and> u \<le> t' \<and> rev_at m t = Some v \<and> rev_at m t' = Some v \<and> even v \<longrightarrow> m u = m t)"

text \<open>The document of a block.\<close>

definition shm_document :: "bytes \<Rightarrow> bytes option" where
  "shm_document blk = do { off \<leftarrow> shm_u32 blk 12; sz \<leftarrow> shm_u32 blk 16; rd_bytes blk off (nat sz) }"

text \<open>The locals hold the document and the revision the block had at a moment up to \<^verbatim>\<open>t\<close>.\<close>

definition snapshot :: "shm_history \<Rightarrow> nat \<Rightarrow> int \<Rightarrow> bytes option \<Rightarrow> int \<Rightarrow> bool" where
  "snapshot m t rv buf sz \<longleftrightarrow> (\<exists>u d. u \<le> t \<and> rev_at m u = Some rv \<and> even rv \<and> 2 \<le> rv \<and> shm_document (m u) = Some d \<and>
     sz = int (length d) \<and> (case buf of None \<Rightarrow> d = [] | Some b \<Rightarrow> b = d))"

lemma shm_u32_nonneg: "shm_u32 blk off = Some v \<Longrightarrow> 0 \<le> v"
  using le_int_bounds by (auto simp: shm_u32_def)

lemma rd_bytes_len: "rd_bytes blk off n = Some bs \<Longrightarrow> length bs = n"
  by (auto simp: rd_bytes_def split: if_splits)

lemma shm_copy_constant:
  "\<lbrakk>\<And>u. t \<le> u \<Longrightarrow> u < t + n \<Longrightarrow> m u = blk; shm_copy m t off n = Some bs; off \<le> length blk\<rbrakk> \<Longrightarrow> rd_bytes blk (int off) n = Some bs"
proof (induction n arbitrary: t off bs)
  case 0
  then show ?case by (simp add: rd_bytes_def)
next
  case (Suc n)
  have b: "m t = blk" using Suc.prems(1) [of t] by simp
  obtain cs where cs: "off < length blk" "shm_copy m (t + 1) (off + 1) n = Some cs" "bs = blk ! off # cs"
    using Suc.prems(2) by (auto simp: b split: if_splits)
  have "rd_bytes blk (int (off + 1)) n = Some cs"
    using Suc.IH [OF _ cs(2)] Suc.prems(1) cs(1) by simp
  then show ?case using cs by (auto simp: rd_bytes_def Cons_nth_drop_Suc [symmetric] nat_add_distrib split: if_splits)
qed

section \<open>One access\<close>

definition locals_ok :: "update_locals \<Rightarrow> bool" where
  "locals_ok s \<longleftrightarrow> (new_buffer s = None \<longrightarrow> new_buffer_size s = 0)"

lemma update_access_frame:
  assumes "update_access p old m hdr t s = Some (ok, t1, s1)"
  shows "t \<le> t1 \<and> (locals_ok s \<longrightarrow> locals_ok s1) \<and>
    (new_revision s1 = new_revision s \<or> buffer_changed p \<or> (\<exists>v. rev_at m t = Some v \<and> v \<noteq> old))"
  using assms
  by (auto simp: update_access_def rev_at_def Let_def bind_eq_Some_conv locals_ok_def split: if_splits)

lemma update_access_constant:
  assumes a: "update_access p old m hdr t s = Some (True, t1, s1)" and c: "\<And>u. t \<le> u \<Longrightarrow> u \<le> t1 \<Longrightarrow> m u = blk"
    and l: "locals_ok s" "shm_buffer_size p \<le> int (length blk)"
  shows "\<exists>v. shm_u32 blk 4 = Some v \<and> (v = old \<and> \<not> buffer_changed p \<and> s1 = s \<or>
    new_revision s1 = v \<and> valid_data s1 \<and> (\<exists>d. shm_document blk = Some d \<and> new_buffer_size s1 = int (length d) \<and>
      (case new_buffer s1 of None \<Rightarrow> d = [] | Some b \<Rightarrow> b = d)))"
proof -
  obtain v where v: "shm_u32 (m t) 4 = Some v" using a by (auto simp: update_access_def bind_eq_Some_conv)
  have mt: "m t = blk" using c update_access_frame [OF a] by simp
  show ?thesis
  proof (cases "v = old \<and> \<not> buffer_changed p")
    case True
    then show ?thesis using a v mt by (simp add: update_access_def)
  next
    case False
    obtain nr off sz off2 bs where x: "shm_u32 (m (t + 1)) 4 = Some nr" "shm_u32 (m (t + 2)) 12 = Some off" "shm_u32 (m (t + 3)) 16 = Some sz"
      "shm_u32 (m (t + 4)) 12 = Some off2" "sz + off2 \<le> hdr" "hdr \<le> shm_buffer_size p" "shm_copy m (t + 5) (nat off) (nat sz) = Some bs"
      "t1 = t + 5 + nat sz" "new_revision s1 = nr" "valid_data s1"
      "new_buffer_size s1 = sz" "new_buffer s1 = (if new_buffer_size s \<noteq> sz then Some bs else map_option (\<lambda>_. bs) (new_buffer s))"
      using a False v by (auto simp: update_access_def Let_def bind_eq_Some_conv split: if_splits)
    have m: "m (t + 1) = blk" "m (t + 2) = blk" "m (t + 3) = blk" "m (t + 4) = blk" using c x(8) by simp_all
    have off: "off2 = off" "0 \<le> off" "0 \<le> sz" using x(2-4) m shm_u32_nonneg by auto
    have "rd_bytes blk (int (nat off)) (nat sz) = Some bs"
      by (rule shm_copy_constant [OF _ x(7)]) (use c x(5,6,8) l(2) off in auto)
    then have d: "shm_document blk = Some bs" "sz = int (length bs)"
      using x(2,3) m off rd_bytes_len [of blk off "nat sz" bs] by (simp_all add: shm_document_def)
    have "case new_buffer s1 of None \<Rightarrow> bs = [] | Some b \<Rightarrow> b = bs"
      using x(12) l(1) d(2) by (auto simp: locals_ok_def split: option.splits if_splits)
    then show ?thesis using x(1,9,10,11) m(1) d v mt by auto
  qed
qed

lemma access_constant:
  assumes "seqlock m" and a: "shmTryAtomicDataAccess m (update_access p old m) t s = Some (True, t', s')"
  shows "\<exists>hdr v t1. update_access p old m hdr (t + 2) s = Some (True, t1, s') \<and> t' = t1 + 1 \<and> t + 2 \<le> t1 \<and>
    (\<forall>u. t \<le> u \<and> u \<le> t1 \<longrightarrow> m u = m t) \<and> rev_at m t = Some v \<and> even v \<and> 2 \<le> v"
proof -
  obtain v hdr t1 where x: "shm_u32 (m t) 4 = Some v" "shm_u32 (m (t + 1)) 8 = Some hdr" "even v" "2 \<le> v"
    "update_access p old m hdr (t + 2) s = Some (True, t1, s')" "shm_u32 (m t1) 4 = Some v" "t' = t1 + 1"
    using a by (auto simp: shmTryAtomicDataAccess_def bind_eq_Some_conv split: if_splits)
  have "t + 2 \<le> t1" using update_access_frame [OF x(5)] by simp
  moreover have "\<forall>u. t \<le> u \<and> u \<le> t1 \<longrightarrow> m u = m t"
    using assms(1) x(1,3,6) unfolding seqlock_def rev_at_def by blast
  ultimately show ?thesis using x(1,3-5,7) unfolding rev_at_def by blast
qed

lemma access_frame:
  assumes "shmTryAtomicDataAccess m (update_access p old m) t s = Some (ok, t', s')"
  shows "t + 2 \<le> t' \<and> (locals_ok s \<longrightarrow> locals_ok s') \<and>
    (new_revision s' = new_revision s \<or> buffer_changed p \<or> (\<exists>v. rev_at m (t + 2) = Some v \<and> v \<noteq> old))"
  using assms update_access_frame [of p old m _ "t + 2" s]
  by (fastforce simp: shmTryAtomicDataAccess_def bind_eq_Some_conv split: if_splits)

section \<open>The retries\<close>

text \<open>A successful access either found the old revision, with locals as before, or fetched a
  snapshot.\<close>

lemma access_result:
  assumes "seqlock m" "\<And>u. shm_buffer_size p \<le> int (length (m u))"
    and a: "shmTryAtomicDataAccess m (update_access p old m) t s = Some (True, t', s')" and l: "locals_ok s"
  shows "rev_at m t = Some old \<and> even old \<and> 2 \<le> old \<and> \<not> buffer_changed p \<and> s' = s \<or>
    valid_data s' \<and> snapshot m t (new_revision s') (new_buffer s') (new_buffer_size s')"
proof -
  obtain hdr v t1 where x: "update_access p old m hdr (t + 2) s = Some (True, t1, s')" "\<forall>u. t \<le> u \<and> u \<le> t1 \<longrightarrow> m u = m t"
    "rev_at m t = Some v" "even v" "2 \<le> v" using access_constant [OF assms(1) a] by blast
  have c: "m u = m t" if "t + 2 \<le> u" "u \<le> t1" for u
    using that x(2) add_leD1 by blast
  have "\<exists>w. shm_u32 (m t) 4 = Some w \<and> (w = old \<and> \<not> buffer_changed p \<and> s' = s \<or>
    new_revision s' = w \<and> valid_data s' \<and> (\<exists>d. shm_document (m t) = Some d \<and> new_buffer_size s' = int (length d) \<and>
      (case new_buffer s' of None \<Rightarrow> d = [] | Some b \<Rightarrow> b = d)))"
    by (rule update_access_constant [OF x(1) c l assms(2)])
  then have "v = old \<and> \<not> buffer_changed p \<and> s' = s \<or> new_revision s' = v \<and> valid_data s' \<and>
    (\<exists>d. shm_document (m t) = Some d \<and> new_buffer_size s' = int (length d) \<and> (case new_buffer s' of None \<Rightarrow> d = [] | Some b \<Rightarrow> b = d))"
    using x(3) by (auto simp: rev_at_def)
  then show ?thesis using x(3-5) unfolding snapshot_def by blast
qed

definition seen :: "shm_history \<Rightarrow> nat \<Rightarrow> int \<Rightarrow> bool" where
  "seen m t old \<longleftrightarrow> old = 0 \<or> (\<exists>u\<le>t. rev_at m u = Some old \<and> even old)"

lemma snapshot_later: "snapshot m t rv buf sz \<Longrightarrow> t \<le> t' \<Longrightarrow> snapshot m t' rv buf sz"
  unfolding snapshot_def using order_trans by blast

lemma retries_result:
  assumes sl: "seqlock m" and mapped: "\<And>u. shm_buffer_size p \<le> int (length (m u))" and old: "seen m t0 old"
  shows "\<lbrakk>update_retries p old m k False t s = Some (out, t'); t0 \<le> t; locals_ok s;
     new_revision s = 0 \<or> buffer_changed p \<or> (\<exists>u v. t0 \<le> u \<and> u \<le> t \<and> rev_at m u = Some v \<and> v \<noteq> old)\<rbrakk> \<Longrightarrow> t \<le> t' \<and>
     (case out of Unchanged \<Rightarrow> \<not> buffer_changed p \<and> (\<exists>u\<le>t'. t0 \<le> u \<and> rev_at m u = Some old)
      | Fetched ok s' \<Rightarrow> ok \<longrightarrow> snapshot m t' (new_revision s') (new_buffer s') (new_buffer_size s'))"
proof (induction k arbitrary: t s)
  case 0
  then show ?case by auto
next
  case (Suc k)
  let ?s = "s\<lparr>valid_data := False\<rparr>"
  obtain acc t1 s1 where a: "shmTryAtomicDataAccess m (update_access p old m) t ?s = Some (acc, t1, s1)"
    using Suc.prems(1) by (auto simp: bind_eq_Some_conv)
  have lo: "locals_ok ?s" using Suc.prems(3) by (simp add: locals_ok_def)
  note F = access_frame [OF a]
  have t1: "t + 2 \<le> t1" and l1: "locals_ok s1" using F lo by simp_all
  have nr: "new_revision s1 = 0 \<or> buffer_changed p \<or> (\<exists>u v. t0 \<le> u \<and> u \<le> t1 \<and> rev_at m u = Some v \<and> v \<noteq> old)"
    using F Suc.prems(2,4) by (fastforce intro: exI [of _ "t + 2"])
  show ?case
  proof (cases acc)
    case False
    then have "update_retries p old m k False t1 s1 = Some (out, t')" using Suc.prems(1) a by simp
    then show ?thesis using Suc.IH [OF _ _ l1 nr] t1 Suc.prems(2) by simp
  next
    case True
    have a': "shmTryAtomicDataAccess m (update_access p old m) t ?s = Some (True, t1, s1)" using a True by simp
    note R = access_result [OF sl mapped a' lo]
    show ?thesis
    proof (cases "valid_data s1 \<and> snapshot m t (new_revision s1) (new_buffer s1) (new_buffer_size s1)")
      case True
      then have "new_revision s1 \<noteq> 0" by (auto simp: snapshot_def)
      then show ?thesis using Suc.prems(1) a \<open>acc\<close> True t1 snapshot_later by auto
    next
      case False
      then have r: "rev_at m t = Some old" "even old" "2 \<le> old" "\<not> buffer_changed p" "s1 = ?s" using R by blast+
      have "new_revision s1 = 0"
      proof (rule ccontr)
        assume "new_revision s1 \<noteq> 0"
        then obtain u v where u: "t0 \<le> u" "u \<le> t" "rev_at m u = Some v" "v \<noteq> old" using Suc.prems(4) r(4,5) by auto
        obtain u0 where u0: "u0 \<le> t0" "rev_at m u0 = Some old" using old r(3) by (auto simp: seen_def)
        have "m u = m u0" using sl u0 u r(1,2) order_trans [OF u0(1) u(1)] unfolding seqlock_def by blast
        then show False using u(3,4) u0(2) by (simp add: rev_at_def)
      qed
      then show ?thesis using Suc.prems(1,2) a \<open>acc\<close> r(1,4) t1 by (auto intro: exI [of _ t])
    qed
  qed
qed

section \<open>Interleavings\<close>

text \<open>The provider, the time, and the updates that are between their two phases. Threads start an
  update, which reads the block, and end it, which takes the lock, in any order.\<close>

record shm_system =
  sys_provider :: shm_provider
  sys_time :: nat
  sys_pending :: "(read_outcome option \<times> int) list"

inductive shm_step :: "(bytes option \<Rightarrow> int \<Rightarrow> bool option) \<Rightarrow> shm_history \<Rightarrow> shm_system \<Rightarrow> shm_system \<Rightarrow> bool"
  for accept m where
  shm_read: "sys_time st \<le> t \<Longrightarrow> update_read (sys_provider st) m t = Some (out, old_revision, t') \<Longrightarrow>
     shm_step accept m st (st\<lparr>sys_time := t', sys_pending := sys_pending st @ [(out, old_revision)]\<rparr>)"
| shm_commit: "sys_pending st = xs @ (out, old_revision) # ys \<Longrightarrow>
     update_commit accept out old_revision (sys_provider st) = Some (res, p') \<Longrightarrow>
     shm_step accept m st (st\<lparr>sys_provider := p', sys_pending := xs @ ys\<rparr>)"

definition shm_start :: "int \<Rightarrow> shm_system" where
  "shm_start sz = \<lparr>sys_provider = setShmBuffer sz new_provider, sys_time = 0, sys_pending = []\<rparr>"

text \<open>What the provider holds: nothing yet, or a validated snapshot.\<close>

definition published :: "shm_history \<Rightarrow> nat \<Rightarrow> shm_provider \<Rightarrow> bool" where
  "published m t p \<longleftrightarrow> active_buffer_revision p = 0 \<and> active_buffer p = None \<and> active_buffer_size p = 0 \<or>
     snapshot m t (active_buffer_revision p) (active_buffer p) (active_buffer_size p) \<and>
     (case active_buffer p of None \<Rightarrow> True | Some b \<Rightarrow> bson_validate_buf b (active_buffer_size p) = Some True)"

definition pending_ok :: "shm_history \<Rightarrow> nat \<Rightarrow> read_outcome option \<times> int \<Rightarrow> bool" where
  "pending_ok m t x \<longleftrightarrow> (case fst x of
     Some (Fetched True s) \<Rightarrow> snapshot m t (new_revision s) (new_buffer s) (new_buffer_size s) | _ \<Rightarrow> True)"

definition shm_inv :: "int \<Rightarrow> shm_history \<Rightarrow> shm_system \<Rightarrow> bool" where
  "shm_inv sz m st \<longleftrightarrow> shm_buffer_size (sys_provider st) = sz \<and> published m (sys_time st) (sys_provider st) \<and>
     list_all (pending_ok m (sys_time st)) (sys_pending st)"

lemma published_seen: "published m t p \<Longrightarrow> seen m t (active_buffer_revision p)"
  unfolding published_def seen_def snapshot_def by blast

lemma published_later: "published m t p \<Longrightarrow> t \<le> t' \<Longrightarrow> published m t' p"
  unfolding published_def using snapshot_later by blast

lemma pending_later: "pending_ok m t x \<Longrightarrow> t \<le> t' \<Longrightarrow> pending_ok m t' x"
  using snapshot_later by (fastforce simp: pending_ok_def split: option.splits read_outcome.splits bool.splits)

lemma read_pending:
  assumes "seqlock m" "\<And>u. shm_buffer_size p \<le> int (length (m u))" "published m t p"
    and r: "update_read p m t = Some (out, old, t')"
  shows "t \<le> t' \<and> pending_ok m t' (out, old)"
proof (cases "shm_buffer p")
  case True
  let ?s = "\<lparr>new_revision = 0, new_buffer_size = 0, new_buffer = None, valid_data = False\<rparr>"
  obtain o1 where o1: "update_retries p (active_buffer_revision p) m k_max_retries False t ?s = Some (o1, t')" "out = Some o1"
    using r True by (auto simp: update_read_def bind_eq_Some_conv)
  have "t \<le> t' \<and> (case o1 of Unchanged \<Rightarrow> \<not> buffer_changed p \<and> (\<exists>u\<le>t'. t \<le> u \<and> rev_at m u = Some (active_buffer_revision p))
      | Fetched ok s' \<Rightarrow> ok \<longrightarrow> snapshot m t' (new_revision s') (new_buffer s') (new_buffer_size s'))"
    by (rule retries_result [OF assms(1,2) published_seen [OF assms(3)] o1(1)]) (simp_all add: locals_ok_def)
  then show ?thesis by (auto simp: pending_ok_def o1(2) split: read_outcome.splits bool.splits)
next
  case False
  then show ?thesis using r by (simp add: update_read_def pending_ok_def)
qed

lemma commit_published:
  assumes "update_commit accept out old p = Some (res, p')" "published m t p" "pending_ok m t (out, old)"
  shows "published m t p' \<and> shm_buffer_size p' = shm_buffer_size p"
proof (cases out)
  case (Some o1)
  show ?thesis
  proof (cases o1)
    case (Fetched ok s)
    show ?thesis
    proof (cases ok)
      case True
      have "snapshot m t (new_revision s) (new_buffer s) (new_buffer_size s)" using assms(3) Some Fetched True by (simp add: pending_ok_def)
      then show ?thesis using assms(1,2) Some Fetched True
        by (auto simp: update_commit_def bind_eq_Some_conv published_def split: if_splits option.splits)
    qed (use assms Some Fetched in \<open>simp add: update_commit_def\<close>)
  qed (use assms Some in \<open>simp add: update_commit_def\<close>)
qed (use assms in \<open>simp add: update_commit_def\<close>)

lemma shm_step_inv:
  assumes "seqlock m" "\<And>u. sz \<le> int (length (m u))"
  shows "shm_step accept m st st' \<Longrightarrow> shm_inv sz m st \<Longrightarrow> shm_inv sz m st'"
proof (induction rule: shm_step.induct)
  case (shm_read st t out old_revision t')
  have p: "published m t (sys_provider st)" "shm_buffer_size (sys_provider st) = sz" "list_all (pending_ok m (sys_time st)) (sys_pending st)"
    using shm_read(1,3) published_later by (auto simp: shm_inv_def)
  have r: "t \<le> t'" "pending_ok m t' (out, old_revision)" using read_pending [OF assms(1) _ p(1) shm_read(2)] assms(2) p(2) by auto
  have "list_all (pending_ok m t') (sys_pending st)"
    using p(3) pending_later order_trans [OF shm_read(1) r(1)] by (auto simp: list_all_iff)
  then show ?case using p published_later [OF p(1) r(1)] r by (simp add: shm_inv_def)
next
  case (shm_commit st xs out old_revision ys res p')
  then show ?case using commit_published [OF shm_commit(2)] by (auto simp: shm_inv_def)
qed

text \<open>A block that holds a document.\<close>

definition block_of :: "int \<Rightarrow> bytes \<Rightarrow> bytes" where
  "block_of revision d = le_bytes 4 1 @ le_bytes 4 revision @ le_bytes 4 (24 + int (length d)) @ le_bytes 4 24 @
     le_bytes 4 (int (length d)) @ le_bytes 4 0 @ d"

lemma block_reads:
  assumes "0 \<le> revision" "revision < 4294967296" "24 + int (length d) < 4294967296"
  shows "shm_u32 (block_of revision d) 4 = Some revision" "shm_u32 (block_of revision d) 8 = Some (24 + int (length d))"
    "shm_u32 (block_of revision d) 12 = Some 24" "shm_u32 (block_of revision d) 16 = Some (int (length d))"
  using assms by (simp_all add: shm_u32_def rd_bytes_def block_of_def le_int_le_bytes)

lemma length_block_of: "length (block_of revision d) = 24 + length d"
  by (simp add: block_of_def)

lemma shm_copy_block: "shm_copy (\<lambda>_. blk) t off n = (if off + n \<le> length blk \<or> n = 0 then Some (take n (drop off blk)) else None)"
proof (induction n arbitrary: t off)
  case (Suc n)
  then show ?case by (auto simp: Cons_nth_drop_Suc [symmetric])
qed simp

lemma drop_block: "drop 24 (block_of revision d) = d"
  by (simp add: block_of_def)

text \<open>A block that does not change is read at the first attempt.\<close>

lemma update_read_block:
  assumes r: "even revision" "2 \<le> revision" "revision < 4294967296" and d: "d \<noteq> []" "24 + int (length d) < 4294967296"
    and p: "shm_buffer p" "24 + int (length d) \<le> shm_buffer_size p" "active_buffer_revision p \<noteq> revision \<or> buffer_changed p"
  shows "update_read p (\<lambda>_. block_of revision d) t =
    Some (Some (Fetched True \<lparr>new_revision = revision, new_buffer_size = int (length d), new_buffer = Some d, valid_data = True\<rparr>),
      active_buffer_revision p, t + 8 + length d)"
proof -
  note B = block_reads [OF _ r(3) d(2)]
  have l: "0 \<le> revision" using r(2) by simp
  let ?s = "\<lparr>new_revision = 0, new_buffer_size = 0, new_buffer = None, valid_data = False\<rparr>"
  have c: "shm_copy (\<lambda>_. block_of revision d) u 24 (length d) = Some d" for u
    by (simp add: shm_copy_block length_block_of drop_block)
  have a: "update_access p (active_buffer_revision p) (\<lambda>_. block_of revision d) (24 + int (length d)) (t + 2) ?s =
    Some (True, t + 7 + length d, \<lparr>new_revision = revision, new_buffer_size = int (length d), new_buffer = Some d, valid_data = True\<rparr>)"
    using p(2,3) d(1) by (auto simp: update_access_def B [OF l] Let_def c)
  have "shmTryAtomicDataAccess (\<lambda>_. block_of revision d) (update_access p (active_buffer_revision p) (\<lambda>_. block_of revision d)) t ?s =
    Some (True, t + 8 + length d, \<lparr>new_revision = revision, new_buffer_size = int (length d), new_buffer = Some d, valid_data = True\<rparr>)"
    using r(1,2) a unfolding shmTryAtomicDataAccess_def B [OF l] by simp
  then show ?thesis using p(1) r(2) by (simp add: update_read_def k_max_retries_def eval_nat_numeral)
qed

lemma update_read_same:
  assumes r: "even revision" "2 \<le> revision" "revision < 4294967296" and d: "24 + int (length d) < 4294967296"
    and p: "shm_buffer p" "active_buffer_revision p = revision" "\<not> buffer_changed p"
  shows "update_read p (\<lambda>_. block_of revision d) t = Some (Some Unchanged, revision, t + 4)"
proof -
  have l: "0 \<le> revision" using r(2) by simp
  note B = block_reads [OF l r(3) d]
  let ?s = "\<lparr>new_revision = 0, new_buffer_size = 0, new_buffer = None, valid_data = False\<rparr>"
  have a: "update_access p revision (\<lambda>_. block_of revision d) (24 + int (length d)) (t + 2) ?s = Some (True, t + 3, ?s)"
    using p(3) by (simp add: update_access_def B)
  have "shmTryAtomicDataAccess (\<lambda>_. block_of revision d) (update_access p revision (\<lambda>_. block_of revision d)) t ?s = Some (True, t + 4, ?s)"
    using r(1,2) a unfolding shmTryAtomicDataAccess_def B by simp
  then show ?thesis using p(1,2) by (simp add: update_read_def k_max_retries_def eval_nat_numeral)
qed

lemma validated_device_data: "bson_validate_buf b sz = Some True \<Longrightarrow> device_parseAndValidateNewData (Some b) sz = Some True"
  by (auto simp: bson_validate_buf_def validate_buf_with_def bson_validate_def device_parseAndValidateNewData_def split: if_splits option.splits)

lemma shm_update_block:
  assumes r: "even revision" "2 \<le> revision" "revision < 4294967296" and d: "wf_elems ds" "int (length (enc_doc ds)) < 2147483640" "elems_depth ds \<le> k_max_subdocs"
    and p: "shm_buffer p" "24 + int (length (enc_doc ds)) \<le> shm_buffer_size p" "active_buffer_revision p \<noteq> revision \<or> buffer_changed p"
    and accept: "accept = parseAndValidateNewData \<or> accept = device_parseAndValidateNewData"
  shows "shm_update accept (\<lambda>_. block_of revision (enc_doc ds)) t p =
    Some (new_data_available, p\<lparr>active_buffer := Some (enc_doc ds), active_buffer_size := int (length (enc_doc ds)),
      active_buffer_revision := revision, buffer_changed := False\<rparr>, t + 8 + length (enc_doc ds))"
proof -
  have v: "bson_validate_buf (enc_doc ds) (int (length (enc_doc ds))) = Some True" using validate_doc [OF d(2,1)] d(3) by simp
  have "accept (Some (enc_doc ds)) (int (length (enc_doc ds))) = Some True"
    using accept validated_device_data [OF v] by (auto simp: parseAndValidateNewData_def)
  moreover have "enc_doc ds \<noteq> []" "24 + int (length (enc_doc ds)) < 4294967296" using d(2) by (auto simp: enc_doc_def doc_frame_def)
  ultimately show ?thesis using update_read_block [OF r _ _ p] v by (simp add: shm_update_def update_commit_def)
qed

section \<open>Properties\<close>

text \<open>C30: what a provider publishes is consistent. If the writer keeps to the protocol of the revision
  counter and the block is mapped in its whole size, then whatever the writer does at whatever moment
  and however the updates of several threads interleave, the active buffer is the document that the
  block had at one moment, with the revision of that moment, and has passed the validation; no mixture
  of two documents is ever published.\<close>

theorem shm_provider_consistent:
  assumes "seqlock m" "\<And>u. sz \<le> int (length (m u))" "(shm_step accept m)\<^sup>*\<^sup>* (shm_start sz) st"
  shows "published m (sys_time st) (sys_provider st)"
proof -
  have "shm_inv sz m st" using assms(3)
  proof (induction rule: rtranclp_induct)
    case base
    show ?case by (simp add: shm_inv_def shm_start_def published_def setShmBuffer_def)
  next
    case (step y z)
    then show ?case using shm_step_inv [OF assms(1,2)] by blast
  qed
  then show ?thesis by (simp add: shm_inv_def)
qed

theorem shm_provider_consistent_witness:
  "\<exists>st. (shm_step parseAndValidateNewData (\<lambda>_. block_of 2 (enc_doc [])))\<^sup>*\<^sup>* (shm_start 29) st \<and>
     active_buffer (sys_provider st) = Some (enc_doc []) \<and> published (\<lambda>_. block_of 2 (enc_doc [])) (sys_time st) (sys_provider st)"
proof -
  let ?m = "\<lambda>_::nat. block_of 2 (enc_doc [])" and ?st = "shm_start 29"
  have u: "shm_update parseAndValidateNewData ?m 0 (sys_provider ?st) = Some (new_data_available,
     (sys_provider ?st)\<lparr>active_buffer := Some (enc_doc []), active_buffer_size := 5, active_buffer_revision := 2, buffer_changed := False\<rparr>, 13)"
    using shm_update_block [of 2 "[]" "sys_provider ?st" parseAndValidateNewData 0]
    by (simp add: length_enc_doc shm_start_def setShmBuffer_def)
  then obtain out old where o: "update_read (sys_provider ?st) ?m 0 = Some (out, old, 13)"
    "update_commit parseAndValidateNewData out old (sys_provider ?st) = Some (new_data_available,
       (sys_provider ?st)\<lparr>active_buffer := Some (enc_doc []), active_buffer_size := 5, active_buffer_revision := 2, buffer_changed := False\<rparr>)"
    by (auto simp: shm_update_def bind_eq_Some_conv)
  let ?s1 = "?st\<lparr>sys_time := 13, sys_pending := sys_pending ?st @ [(out, old)]\<rparr>"
  have s1: "shm_step parseAndValidateNewData ?m ?st ?s1" by (rule shm_read [OF _ o(1)]) (simp add: shm_start_def)
  have s2: "shm_step parseAndValidateNewData ?m ?s1 (?s1\<lparr>sys_provider := (sys_provider ?st)\<lparr>active_buffer := Some (enc_doc []),
     active_buffer_size := 5, active_buffer_revision := 2, buffer_changed := False\<rparr>, sys_pending := [] @ []\<rparr>)"
    by (rule shm_commit) (use o(2) in \<open>simp_all add: shm_start_def\<close>)
  have r: "(shm_step parseAndValidateNewData ?m)\<^sup>*\<^sup>* ?st (?s1\<lparr>sys_provider := (sys_provider ?st)\<lparr>active_buffer := Some (enc_doc []),
     active_buffer_size := 5, active_buffer_revision := 2, buffer_changed := False\<rparr>, sys_pending := [] @ []\<rparr>)"
    using s1 s2 by (meson rtranclp.rtrancl_into_rtrancl rtranclp.rtrancl_refl)
  have "seqlock ?m" "\<And>u. 29 \<le> int (length (?m u))" by (simp_all add: seqlock_def length_block_of length_enc_doc)
  from shm_provider_consistent [OF this r] r show ?thesis by (intro exI conjI) (assumption, simp_all)
qed

text \<open>From the backend's block to parsed information. When the block holds, unchanged, a well-formed
  document nested at most sixteen levels deep under an even revision the provider does not have yet,
  an update succeeds and publishes exactly the document, a second update reports that there is nothing
  new, and parsing returns the devices, or the simulation data, that the document describes.\<close>

theorem published_document_parsed:
  assumes r: "even revision" "2 \<le> revision" "revision < 4294967296" and d: "wf_elems ds" "int (length (enc_doc ds)) < 2147483640" "elems_depth ds \<le> k_max_subdocs"
    and p: "shm_buffer p" "24 + int (length (enc_doc ds)) \<le> shm_buffer_size p" "active_buffer_revision p \<noteq> revision \<or> buffer_changed p"
    and accept: "accept = parseAndValidateNewData \<or> accept = device_parseAndValidateNewData"
    and devs: "devices_of ds [] = Some devs"
  shows "\<exists>p' t' p'' t''. shm_update accept (\<lambda>_. block_of revision (enc_doc ds)) t p = Some (new_data_available, p', t') \<and>
    getRawBson 0 p' = (Some (enc_doc ds), revision) \<and>
    shm_update accept (\<lambda>_. block_of revision (enc_doc ds)) t' p' = Some (no_new_data, p'', t'') \<and> p'' = p' \<and>
    parseDeviceInfo p' None = Some ((devs, revision), Some (devs, revision)) \<and>
    parseDeviceInfo p' (Some (devs, revision)) = Some ((devs, revision), Some (devs, revision)) \<and>
    parseSimData False p' None = Some (Some (sim_of ds), Some (sim_of ds))"
proof -
  let ?p = "p\<lparr>active_buffer := Some (enc_doc ds), active_buffer_size := int (length (enc_doc ds)),
      active_buffer_revision := revision, buffer_changed := False\<rparr>"
  have u2: "shm_update accept (\<lambda>_. block_of revision (enc_doc ds)) t' ?p = Some (no_new_data, ?p, t' + 4)" for t'
    using update_read_same [OF r, of "enc_doc ds" ?p] d(2) p(1) by (simp add: shm_update_def update_commit_def)
  have "parse_devices (Some (enc_doc ds)) (int (length (enc_doc ds))) = Some devs" using parse_devices_enc [OF d(1,2)] devs by simp
  moreover have "parseFromRaw (Some (enc_doc ds)) revision = Some (Some (sim_of ds))"
    using parseFromRaw_enc [OF d(1), of "[]" revision] d(2) by simp
  ultimately show ?thesis using shm_update_block [OF r d p accept, of t] u2
    by (auto simp: getRawBson_def parseDeviceInfo_def parseSimData_def)
qed

theorem published_document_parsed_witness:
  "\<exists>p' t' p'' t''. shm_update device_parseAndValidateNewData (\<lambda>_. block_of 2 (enc_doc [])) 0 (setShmBuffer 29 new_provider) = Some (new_data_available, p', t') \<and>
    getRawBson 0 p' = (Some (enc_doc []), 2) \<and>
    shm_update device_parseAndValidateNewData (\<lambda>_. block_of 2 (enc_doc [])) t' p' = Some (no_new_data, p'', t'') \<and> p'' = p' \<and>
    parseDeviceInfo p' None = Some (([], 2), Some ([], 2)) \<and> parseDeviceInfo p' (Some ([], 2)) = Some (([], 2), Some ([], 2)) \<and>
    parseSimData False p' None = Some (Some (sim_of []), Some (sim_of []))"
  by (rule published_document_parsed) (simp_all add: length_enc_doc setShmBuffer_def)

text \<open>The two reads of \<^verbatim>\<open>data_offset\<close>: the copy starts at the offset that was read first, and the
  bounds are checked with the one that was read second. A writer that keeps to the protocol can make
  the copy leave the block.\<close>

definition race_block :: "int \<Rightarrow> int \<Rightarrow> bytes" where
  "race_block revision off = le_bytes 4 1 @ le_bytes 4 revision @ le_bytes 4 25 @ le_bytes 4 off @ le_bytes 4 1 @ le_bytes 4 0 @ [0]"

definition race :: shm_history where
  "race t = (if t < 4 then race_block 2 24 else if t = 4 then race_block 3 1000 else race_block 4 24)"

lemma race_reads:
  "0 \<le> r \<Longrightarrow> r < 4294967296 \<Longrightarrow> shm_u32 (race_block r off) 4 = Some r" "shm_u32 (race_block r off) 8 = Some 25"
  "0 \<le> off \<Longrightarrow> off < 4294967296 \<Longrightarrow> shm_u32 (race_block r off) 12 = Some off" "shm_u32 (race_block r off) 16 = Some 1"
  "length (race_block r off) = 25"
  by (simp_all add: shm_u32_def rd_bytes_def race_block_def le_int_le_bytes)

lemma offset_race_faults: "seqlock race \<and> update_read (setShmBuffer 25 new_provider) race 0 = None"
proof
  have "rev_at race t = (if t < 4 then Some 2 else if t = 4 then Some 3 else Some 4)" for t
    by (simp add: rev_at_def race_def race_reads)
  then show "seqlock race" by (auto simp: seqlock_def race_def split: if_splits)
  have r: "race 0 = race_block 2 24" "race (Suc 0) = race_block 2 24" "race 2 = race_block 2 24" "race 3 = race_block 2 24" "race 4 = race_block 3 1000"
    "race 5 = race_block 4 24" "race 6 = race_block 4 24" "race 7 = race_block 4 24" by (simp_all add: race_def)
  have a: "update_access (setShmBuffer 25 new_provider) 0 race 25 2 s = None" for s
    by (simp add: update_access_def setShmBuffer_def r race_reads Let_def)
  have "shmTryAtomicDataAccess race (update_access (setShmBuffer 25 new_provider) 0 race) 0 s = None" for s
    using a by (simp add: shmTryAtomicDataAccess_def r race_reads numeral_2_eq_2)
  then show "update_read (setShmBuffer 25 new_provider) race 0 = None"
    by (simp add: update_read_def setShmBuffer_def new_provider_def k_max_retries_def eval_nat_numeral)
qed

end
