(* ===== verification/Ffb.thy ===== *)
theory Ffb
  imports Session_Commands Session_Properties Action_Properties
begin

unbundle bit_operations_syntax

text \<open>
  core/src/ffb.cpp and core/inc/sc-api/core/ffb.h: force feedback effects, sent as actions, and the
  pipelines they are sent to, which are configured by commands. The session is an argument: its
  controller id, its secure session (\<^term>\<open>None\<close>: no encryption) and its connection. The pointer
  \<^verbatim>\<open>samples\<close> is the memory behind it; reading behind its end is \<^term>\<open>None\<close>. A call that waits for the
  response to a command is split at the wait.
\<close>

section \<open>Data\<close>

record EffectPipelineRef =
  device_logical_id :: int
  ref_pipeline_id :: int

datatype OffsetType = torque_Nm | force_N | force_relative | position_mm
datatype InterpolationType = interpolation_none | linear
datatype FilterType = filter_none | low_pass | slew_rate_limit

text \<open>A \<^verbatim>\<open>float\<close> is its bit pattern.\<close>

record PipelineConfig =
  offset_type :: OffsetType
  interpolation_type :: InterpolationType
  cfg_gain :: "32 word"
  filter_type :: FilterType
  filter_parameter :: "32 word"

record FfbPipeline =
  action_builder :: action_builder
  fp_device :: int
  pipeline_id :: int
  config :: PipelineConfig

text \<open>The conversion of a \<^verbatim>\<open>float\<close> to \<^verbatim>\<open>double\<close>, which is exact; a NaN becomes quiet.\<close>

primrec top_bit :: "nat \<Rightarrow> 32 word \<Rightarrow> nat" where
  "top_bit 0 w = 0"
| "top_bit (Suc n) w = (if bit w n then n else top_bit n w)"

definition float_to_double :: "32 word \<Rightarrow> 64 word" where
  "float_to_double w =
     (let sign = push_bit 63 (ucast (drop_bit 31 w)) :: 64 word;
          e = drop_bit 23 w AND 0xff;
          m = w AND 0x7fffff
      in if e = 0xff then sign OR 0x7ff0000000000000 OR push_bit 29 (ucast m) OR (if m = 0 then 0 else 0x0008000000000000)
         else if e \<noteq> 0 then sign OR push_bit 52 (ucast e + 896) OR push_bit 29 (ucast m)
         else if m = 0 then sign
         else let p = top_bit 23 m in
           sign OR push_bit 52 (word_of_nat (p + 874)) OR push_bit (52 - p) (ucast (take_bit p m)))"

section \<open>Effects\<close>

definition FB_SAMPLE_FORMAT_F32 :: int where "FB_SAMPLE_FORMAT_F32 = 0"

definition effect_aad :: "EffectPipelineRef \<Rightarrow> bytes" where
  "effect_aad pipeline = le_bytes 1 (ref_pipeline_id pipeline) @ [0] @ le_bytes 2 0 @ le_bytes 4 0 @ le_bytes 4 0 @ le_bytes 4 0"

text \<open>The part that is encrypted: format, high byte of the duration, number of samples less 1, duration,
  and the two halves of the time stamp.\<close>

definition effect_enc :: "int \<Rightarrow> int \<Rightarrow> int \<Rightarrow> bytes" where
  "effect_enc timestamp sample_time sample_count =
     le_bytes 1 FB_SAMPLE_FORMAT_F32 @ le_bytes 1 (drop_bit 32 sample_time AND 0xff) @ le_bytes 2 (sample_count - 1) @
     le_bytes 4 (sample_time AND 0xffffffff) @ le_bytes 4 (timestamp AND 0xffffffff) @ le_bytes 4 (drop_bit 32 timestamp)"

text \<open>The memory image of the local structure \<^verbatim>\<open>Header\<close>: two bytes of padding behind the device.\<close>

definition effect_header :: "EffectPipelineRef \<Rightarrow> int \<Rightarrow> int \<Rightarrow> int \<Rightarrow> bytes" where
  "effect_header pipeline timestamp sample_time sample_count =
     effect_aad pipeline @ le_bytes 2 (device_logical_id pipeline) @ [0, 0] @ effect_enc timestamp sample_time sample_count"

definition padded_size :: "nat \<Rightarrow> nat" where
  "padded_size samples_size = (if samples_size mod 16 > 0 then samples_size + (16 - samples_size mod 16) else samples_size)"

definition buildEffectOffsetDataAction ::
  "aes_tables \<Rightarrow> bytes \<Rightarrow> int \<Rightarrow> action_builder \<Rightarrow> secure_session option \<Rightarrow> EffectPipelineRef \<Rightarrow> int \<Rightarrow> int \<Rightarrow> bytes \<Rightarrow> nat \<Rightarrow>
   (bool \<times> action_builder \<times> secure_session option) option" where
  "buildEffectOffsetDataAction t rng ctrl_id builder secure pipeline timestamp sample_time samples sample_count =
     (if sample_count = 0 \<or> sample_count > 256 then Some (False, builder, secure)
      else if \<not> ab_session builder then None
      else (case secure of
          None \<Rightarrow> do {
            let samples_size = 4 * sample_count;
            (payload, builder) \<leftarrow> ab_startBuilding ctrl_id ACTION_FB_EFFECT (36 + 4 * sample_count) 0 builder;
            (case payload of
               None \<Rightarrow> Some (False, builder, secure)
             | Some payload \<Rightarrow> do {
                 builder \<leftarrow> ab_write payload (effect_header pipeline timestamp sample_time (int sample_count)) builder;
                 bs \<leftarrow> rd_bytes samples 0 samples_size;
                 builder \<leftarrow> ab_write (payload + 36) bs builder;
                 Some (True, builder, secure)
               })
          }
        | Some s \<Rightarrow> do {
            let samples_size = padded_size (4 * sample_count);
            (payload, builder) \<leftarrow> ab_startBuilding ctrl_id ACTION_FB_EFFECT (36 + samples_size + 12 + 12) ACTION_FLAG_ENCRYPTED builder;
            (case payload of
               None \<Rightarrow> Some (False, builder, secure)
             | Some payload \<Rightarrow> do {
                 builder \<leftarrow> ab_write (payload + 12) (effect_header pipeline timestamp sample_time (int sample_count)) builder;
                 bs \<leftarrow> rd_bytes samples 0 samples_size;
                 builder \<leftarrow> ab_write (payload + 48) bs builder;
                 aad \<leftarrow> rd_bytes (ab_buffer builder) (payload + 12) 16;
                 data \<leftarrow> rd_bytes (ab_buffer builder) (payload + 32) (16 + samples_size);
                 ((iv, data, tag), s) \<leftarrow> ss_encrypt t rng aad data s;
                 builder \<leftarrow> ab_write payload iv builder;
                 builder \<leftarrow> ab_write (payload + 32) data builder;
                 builder \<leftarrow> ab_write (payload + 48 + int samples_size) tag builder;
                 Some (True, builder, Some s)
               })
          }))"

text \<open>The local structure of \<^verbatim>\<open>buildEffectClearAction\<close> is not initialized: what the stack holds at its first
  two and its last 32 bytes (the last two of them padding) is the argument \<^verbatim>\<open>junk\<close>.\<close>

definition clear_payload :: "bytes \<Rightarrow> EffectPipelineRef \<Rightarrow> bytes" where
  "clear_payload junk pipeline =
     take 2 junk @ replicate 14 0 @ le_bytes 2 (device_logical_id pipeline) @ [1] @ le_bytes 1 (ref_pipeline_id pipeline) @ take 32 (drop 2 junk)"

definition buildEffectClearAction :: "bytes \<Rightarrow> int \<Rightarrow> action_builder \<Rightarrow> EffectPipelineRef \<Rightarrow> (bool \<times> action_builder) option" where
  "buildEffectClearAction junk ctrl_id builder pipeline = do {
     let payload = clear_payload junk pipeline;
     (payload_buf, builder) \<leftarrow> ab_startBuilding ctrl_id ACTION_FB_EFFECT_CLEAR 52 0 builder;
     (case payload_buf of
        None \<Rightarrow> Some (False, builder)
      | Some payload_buf \<Rightarrow> do {
          builder \<leftarrow> ab_write payload_buf payload builder;
          Some (True, builder)
        })
   }"

section \<open>Pipelines\<close>

text \<open>The constructor: an invalid device fails the assertion; the type of offset is not initialized.\<close>

definition new_pipeline :: "bool \<Rightarrow> OffsetType \<Rightarrow> int \<Rightarrow> FfbPipeline option" where
  "new_pipeline session junk device =
     (if device = 0 then None
      else Some \<lparr>action_builder = ab_init session \<lparr>ab_session = False, ab_buffer = [], cur_start_idx = 0\<rparr>,
        fp_device = device, pipeline_id = -1,
        config = \<lparr>offset_type = junk, interpolation_type = linear, cfg_gain = 0x3f800000, filter_type = filter_none, filter_parameter = 0x3f800000\<rparr>\<rparr>)"

definition isActive :: "SessionState \<Rightarrow> FfbPipeline \<Rightarrow> bool option" where
  "isActive state f =
     (if pipeline_id f \<noteq> -1 then (if ab_session (action_builder f) then Some (state = connected_control) else None)
      else Some False)"

fun offset_type_str :: "OffsetType \<Rightarrow> bytes" where
  "offset_type_str force_N = ascii ''force''"
| "offset_type_str force_relative = ascii ''force_relative''"
| "offset_type_str position_mm = ascii ''position''"
| "offset_type_str torque_Nm = ascii ''torque''"

fun interpolation_type_str :: "InterpolationType \<Rightarrow> bytes" where
  "interpolation_type_str linear = ascii ''linear''"
| "interpolation_type_str interpolation_none = ascii ''none''"

fun filter_type_str :: "FilterType \<Rightarrow> bytes" where
  "filter_type_str low_pass = ascii ''low_pass''"
| "filter_type_str filter_none = ascii ''none''"
| "filter_type_str slew_rate_limit = ascii ''slew_rate_limit''"

definition configure_request :: "(nat \<Rightarrow> nat \<Rightarrow> nat) \<Rightarrow> PipelineConfig \<Rightarrow> FfbPipeline \<Rightarrow> bson_builder option" where
  "configure_request grow cfg f = do {
     req \<leftarrow> cr_initialize grow (ascii ''ffb'') (ascii ''configure_pipeline'') command_request;
     req \<leftarrow> call (docAddElement_i32 (ascii ''device_session_id'') (fp_device f) req);
     req \<leftarrow> call (docAddElement_string (ascii ''offset_mode'') (offset_type_str (offset_type cfg)) req);
     req \<leftarrow> call (docAddElement_string (ascii ''interpolation_mode'') (interpolation_type_str (interpolation_type cfg)) req);
     req \<leftarrow> call (docAddElement_string (ascii ''filter_mode'') (filter_type_str (filter_type cfg)) req);
     req \<leftarrow> call (docAddElement_double (ascii ''filter_parameter'') (float_to_double (filter_parameter cfg)) req);
     if pipeline_id f \<ge> 0 then call (docAddElement_i32 (ascii ''pipeline_id'') (pipeline_id f) req) else Some req
   }"

text \<open>\<^verbatim>\<open>configure\<close> up to the wait of thread \<^verbatim>\<open>thr\<close> and behind it.\<close>

definition configure_begin ::
  "(nat \<Rightarrow> nat \<Rightarrow> nat) \<Rightarrow> nat \<Rightarrow> PipelineConfig \<Rightarrow> FfbPipeline \<Rightarrow> 'u command_cb tx_state option \<Rightarrow>
   (CommandResult option \<times> bytes option \<times> 'u command_cb tx_state option) option" where
  "configure_begin grow thr cfg f p = do {
     req \<leftarrow> configure_request grow cfg f;
     if \<not> ab_session (action_builder f) then None
     else do {
       (result, w, p, req) \<leftarrow> blockingCommand thr req p;
       Some (result, w, p)
     }
   }"

definition i8 :: "int \<Rightarrow> int" where
  "i8 x = signed_take_bit 7 x"

definition configure_end :: "PipelineConfig \<Rightarrow> CommandResult \<Rightarrow> FfbPipeline \<Rightarrow> (bool \<times> FfbPipeline) option" where
  "configure_end cfg result f =
     (if cr_code result = 0 then do {
        reader \<leftarrow> bson_reader_sized (Some (cr_payload result)) (int (length (cr_payload result)));
        (found, reader) \<leftarrow> tryFindAndGet tryGetValue_i32 (ascii ''pipeline_id'') reader;
        let pid = (case found of None \<Rightarrow> -1 | Some x \<Rightarrow> x);
        Some (True, f\<lparr>pipeline_id := i8 pid, config := cfg\<rparr>)
      } else Some (False, f))"

definition generateEffect ::
  "aes_tables \<Rightarrow> bytes \<Rightarrow> int \<Rightarrow> send_outcome \<Rightarrow> int \<Rightarrow> int \<Rightarrow> bytes \<Rightarrow> nat \<Rightarrow> FfbPipeline \<Rightarrow> secure_session option \<Rightarrow>
   (bool \<times> bytes option \<times> FfbPipeline \<times> secure_session option) option" where
  "generateEffect t rng ctrl_id ec start_timestamp sample_time samples sample_count f secure =
     (if sample_count > 256 then None
      else if pipeline_id f < 0 then Some (False, None, f, secure)
      else do {
        let ref = \<lparr>device_logical_id = fp_device f, ref_pipeline_id = pipeline_id f mod 256\<rparr>;
        (ok, b, secure) \<leftarrow> buildEffectOffsetDataAction t rng ctrl_id (action_builder f) secure ref start_timestamp sample_time samples sample_count;
        if \<not> ok then Some (False, None, f\<lparr>action_builder := b\<rparr>, secure)
        else do {
          (w, r, b) \<leftarrow> ab_sendNonBlocking ec b;
          Some (r = complete, w, f\<lparr>action_builder := b\<rparr>, secure)
        }
      })"

definition stop_effect :: "bytes \<Rightarrow> int \<Rightarrow> send_outcome \<Rightarrow> FfbPipeline \<Rightarrow> (bool \<times> bytes option \<times> FfbPipeline) option" where
  "stop_effect junk ctrl_id ec f =
     (if pipeline_id f < 0 then Some (False, None, f)
      else do {
        let ref = \<lparr>device_logical_id = fp_device f, ref_pipeline_id = pipeline_id f mod 256\<rparr>;
        (ok, b) \<leftarrow> buildEffectClearAction junk ctrl_id (action_builder f) ref;
        (w, r, b) \<leftarrow> ab_sendNonBlocking ec b;
        Some (r = complete, w, f\<lparr>action_builder := b\<rparr>)
      })"

definition free_request :: "(nat \<Rightarrow> nat \<Rightarrow> nat) \<Rightarrow> FfbPipeline \<Rightarrow> bson_builder option" where
  "free_request grow f = do {
     req \<leftarrow> cr_initialize grow (ascii ''ffb'') (ascii ''free_pipeline'') command_request;
     req \<leftarrow> call (docAddElement_i32 (ascii ''device_session_id'') (fp_device f) req);
     call (docAddElement_i32 (ascii ''pipeline_id'') (pipeline_id f) req)
   }"

text \<open>\<^verbatim>\<open>remove\<close>: \<^term>\<open>Inl\<close> is a call that returns at once; \<^term>\<open>Inr\<close> the result of \<^verbatim>\<open>blockingCommand\<close>.\<close>

definition remove_begin ::
  "(nat \<Rightarrow> nat \<Rightarrow> nat) \<Rightarrow> nat \<Rightarrow> FfbPipeline \<Rightarrow> 'u command_cb tx_state option \<Rightarrow>
   (bool + CommandResult option \<times> bytes option \<times> 'u command_cb tx_state option) option" where
  "remove_begin grow thr f p =
     (if pipeline_id f < 0 then Some (Inl True)
      else do {
        req \<leftarrow> free_request grow f;
        if \<not> ab_session (action_builder f) then None
        else do {
          (result, w, p, req) \<leftarrow> blockingCommand thr req p;
          Some (Inr (result, w, p))
        }
      })"

definition remove_end :: "CommandResult \<Rightarrow> FfbPipeline \<Rightarrow> bool \<times> FfbPipeline" where
  "remove_end result f = (if cr_code result = 0 then (True, f\<lparr>pipeline_id := -1\<rparr>) else (False, f))"

text \<open>The destructor, with the callback that does nothing.\<close>

definition destroy_pipeline ::
  "(nat \<Rightarrow> nat \<Rightarrow> nat) \<Rightarrow> 'u \<Rightarrow> SessionState \<Rightarrow> FfbPipeline \<Rightarrow> 'u command_cb tx_state option \<Rightarrow>
   (bytes option \<times> 'u command_cb tx_state option) option" where
  "destroy_pipeline grow nothing state f p = do {
     active \<leftarrow> isActive state f;
     if active then do {
       req \<leftarrow> free_request grow f;
       (ok, w, p, req) \<leftarrow> asyncCommand req (UserCb nothing) p;
       Some (w, p)
     } else Some (None, p)
   }"

end
