(* ===== verification/Ffb_Properties.thy ===== *)
theory Ffb_Properties
  imports Ffb
begin

unbundle bit_operations_syntax

text \<open>
  Force feedback, end to end: the receiver of the actions, and what pipelines and effects promise. The
  backend takes the datagram apart, decrypts the effect with the key of the secure session when it is
  encrypted, and reads the fields of the structures of core/inc/sc-api/core/protocol/actions.h.
\<close>

section \<open>The receiver\<close>

record fb_effect =
  fe_pipeline :: int
  fe_device :: int
  fe_format :: int
  fe_start :: int
  fe_duration :: int
  fe_count :: nat
  fe_samples :: bytes

text \<open>From the clear part (20 bytes) and the part that may have been encrypted.\<close>

definition read_effect :: "bytes \<Rightarrow> bytes \<Rightarrow> fb_effect" where
  "read_effect clear enc =
     (let n = nat (le_int (take 2 (drop 2 enc))) + 1
      in \<lparr>fe_pipeline = le_int (take 1 clear), fe_device = le_int (take 2 (drop 16 clear)), fe_format = le_int (take 1 enc),
          fe_start = le_int (take 4 (drop 8 enc)) + 2 ^ 32 * le_int (take 4 (drop 12 enc)),
          fe_duration = le_int (take 4 (drop 4 enc)) + 2 ^ 32 * le_int (take 1 (drop 1 enc)),
          fe_count = n, fe_samples = take (4 * n) (drop 16 enc)\<rparr>)"

definition receive_effect :: "aes_tables \<Rightarrow> gcm_context option \<Rightarrow> bytes \<Rightarrow> fb_effect option" where
  "receive_effect t key payload = (case key of
     None \<Rightarrow> Some (read_effect (take 20 payload) (drop 20 payload))
   | Some g \<Rightarrow>
       (let iv = take 12 payload; hdr = take 20 (drop 12 payload);
            rest = drop 32 payload; n = length rest - 12
        in case gcm_auth_decrypt t g iv (take 16 hdr) (take n rest) (drop n rest) of
             Some (ret, data, g) \<Rightarrow> if ret = 0 then Some (read_effect hdr data) else None
           | None \<Rightarrow> None))"

text \<open>What the application asked for: the time stamp is a signed number of 64 bits, the duration is cut to
  40 bits.\<close>

definition effect_of :: "int \<Rightarrow> int \<Rightarrow> int \<Rightarrow> int \<Rightarrow> nat \<Rightarrow> bytes \<Rightarrow> fb_effect" where
  "effect_of device pid start sample_time n samples =
     \<lparr>fe_pipeline = pid, fe_device = device, fe_format = 0, fe_start = start mod 2 ^ 64, fe_duration = sample_time mod 2 ^ 40,
      fe_count = n, fe_samples = take (4 * n) samples\<rparr>"

section \<open>Fields\<close>

lemma length_effect [simp]:
  "length (effect_aad r) = 16" "length (effect_enc a b c) = 16" "length (effect_header r a b c) = 36"
  by (simp_all add: effect_aad_def effect_enc_def effect_header_def)

lemma and_ff: "x AND 0xffffffff = x mod 2 ^ 32" "x AND 0xff = x mod 2 ^ 8" for x :: int
  using and_mask [of x 32] and_mask [of x 8] by simp_all

lemma split_mod: "x mod 2 ^ 32 + 2 ^ 32 * (x div 2 ^ 32 mod 2 ^ k) = x mod 2 ^ (32 + k)" for x :: int
  by (metis power_add add.commute mod_mult2_eq zmod_zmult2_eq zero_le_numeral zero_le_power)

lemma read_effect_enc:
  assumes "0 < n" "n \<le> 256" "0 \<le> pid" "pid < 256" "0 \<le> dev" "dev < 2 ^ 16"
    "take 20 clear = take 20 (effect_header \<lparr>device_logical_id = dev, ref_pipeline_id = pid\<rparr> start dur (int n))"
    "take (4 * n) xs = take (4 * n) samples"
  shows "read_effect clear (effect_enc start dur (int n) @ xs) = effect_of dev pid start dur n samples"
proof -
  have c: "take 1 clear = le_bytes 1 pid" "take 2 (drop 16 clear) = le_bytes 2 dev"
  proof -
    have "take 1 (take 20 clear) = le_bytes 1 pid" "take 2 (drop 16 (take 20 clear)) = le_bytes 2 dev"
      unfolding assms(7) by (simp_all add: effect_header_def effect_aad_def)
    then show "take 1 clear = le_bytes 1 pid" "take 2 (drop 16 clear) = le_bytes 2 dev" by (simp_all add: drop_take)
  qed
  let ?e = "effect_enc start dur (int n) @ xs"
  have e: "take 1 ?e = le_bytes 1 0" "take 1 (drop 1 ?e) = le_bytes 1 (dur div 2 ^ 32 mod 2 ^ 8)" "take 2 (drop 2 ?e) = le_bytes 2 (int n - 1)"
    "take 4 (drop 4 ?e) = le_bytes 4 (dur mod 2 ^ 32)" "take 4 (drop 8 ?e) = le_bytes 4 (start mod 2 ^ 32)" "take 4 (drop 12 ?e) = le_bytes 4 (start div 2 ^ 32)"
    "drop 16 ?e = xs"
    by (simp_all only: effect_enc_def FB_SAMPLE_FORMAT_F32_def and_ff drop_bit_eq_div append_assoc) (simp_all del: le_bytes.simps)
  have n: "nat (le_int (le_bytes 2 (int n - 1))) + 1 = n" using assms(1,2) by (simp add: le_int_le_bytes nat_diff_distrib)
  have s: "le_int (le_bytes 4 (start mod 2 ^ 32)) + 2 ^ 32 * le_int (le_bytes 4 (start div 2 ^ 32)) = start mod 2 ^ 64"
    unfolding le_int_le_bytes using split_mod [of start 32] by simp
  have d: "le_int (le_bytes 4 (dur mod 2 ^ 32)) + 2 ^ 32 * le_int (le_bytes 1 (dur div 2 ^ 32 mod 2 ^ 8)) = dur mod 2 ^ 40"
    unfolding le_int_le_bytes using split_mod [of dur 8] by simp
  have h: "le_int (le_bytes 1 pid) = pid" "le_int (le_bytes 2 dev) = dev" "le_int (le_bytes 1 0) = 0"
    unfolding le_int_le_bytes using assms(3-6) by simp_all
  show ?thesis unfolding read_effect_def c e n s d h assms(8) Let_def effect_of_def ..
qed

section \<open>Building and sending\<close>

lemma start_idle:
  assumes "ab_session b" "ab_buffer b = []" "0 < c" "c < 2 ^ 16" "0 \<le> act" "act < 2 ^ 16" "n < 2 ^ 16 - 8"
  shows "ab_startBuilding c act n flags b = Some (Some 8,
    b\<lparr>ab_buffer := header_bytes \<lparr>controller_id = c, hdr_flags = flags, action_id = act, hdr_size = 8 + int n\<rparr> @ replicate n 0, cur_start_idx := 0\<rparr>)"
proof -
  have z: "vector_resize (8 + n) [] = replicate 8 0 @ replicate n (0 :: byte)"
    by (simp add: vector_resize_def replicate_add)
  have w: "wr_bytes (replicate 8 0 @ replicate n 0) 0 h = Some (h @ replicate n 0)" if "length h = 8" for h :: bytes
    using wr_bytes_at [of h "replicate 8 0" "[]" "replicate n 0"] that by simp
  have "u16 act = act" "u16 (8 + int n) = 8 + int n" using assms by (simp_all add: u16_id)
  then show ?thesis using assms(1-3) by (simp add: ab_startBuilding_def u32_def z w Let_def)
qed

text \<open>Sending a builder that holds exactly one action.\<close>

lemma send_frame:
  assumes "ab_session b" "ab_buffer b = frame a" "cur_start_idx b = 0" "action_ok a"
  shows "ab_sendNonBlocking Sent b = Some (Some (frame a), complete, ab_reset b)" "parse_actions (frame a) = Some [a]"
proof -
  have "ab_finalize b = Some b" by (rule finalize_frame [of b "[]" a]) (simp_all add: assms)
  then show "ab_sendNonBlocking Sent b = Some (Some (frame a), complete, ab_reset b)"
    using assms(1,2) frame_not_Nil by (simp add: ab_sendNonBlocking_def)
  show "parse_actions (frame a) = Some [a]" using parse_frames [of "[a]"] assms(4) by simp
qed

lemma wr_seq:
  assumes "wr_bytes (pre @ ys @ zs) k bs = r" "length bs = length ys" "k = int (length pre)"
  shows "r = Some (pre @ bs @ zs)"
  using wr_bytes_at assms by metis

lemma rd_at: "length bs = n \<Longrightarrow> k = int (length pre) \<Longrightarrow> rd_bytes (pre @ bs @ post) k n = Some bs"
  by (simp add: rd_bytes_def)

lemma build_plain:
  assumes b: "ab_session b" "ab_buffer b = []" "0 < c" "c < 2 ^ 16" and n: "0 < n" "n \<le> 256" "4 * n \<le> length samples"
  shows "\<exists>b'. buildEffectOffsetDataAction t rng c b None ref start dur samples n = Some (True, b', None) \<and> ab_session b' \<and> cur_start_idx b' = 0 \<and>
    ab_buffer b' = frame \<lparr>act_controller = c, act_flags = 0, act_id = ACTION_FB_EFFECT,
      act_payload = effect_header ref start dur (int n) @ take (4 * n) samples\<rparr>"
proof -
  define h where "h = header_bytes \<lparr>controller_id = c, hdr_flags = 0, action_id = ACTION_FB_EFFECT, hdr_size = 8 + int (36 + 4 * n)\<rparr>"
  let ?e = "effect_header ref start dur (int n)"
  have h: "length h = 8" by (simp add: h_def)
  have s: "ab_startBuilding c ACTION_FB_EFFECT (36 + 4 * n) 0 b = Some (Some 8, b\<lparr>ab_buffer := h @ replicate (36 + 4 * n) 0, cur_start_idx := 0\<rparr>)"
    using start_idle [OF b, of ACTION_FB_EFFECT "36 + 4 * n" 0] n(2) by (simp add: ACTION_FB_EFFECT_def h_def)
  have w1: "wr_bytes (h @ replicate (36 + 4 * n) 0) 8 ?e = Some (h @ ?e @ replicate (4 * n) 0)"
    using wr_bytes_at [of ?e "replicate 36 0" h "replicate (4 * n) 0"] h by (simp add: replicate_add)
  have rd: "rd_bytes samples 0 (4 * n) = Some (take (4 * n) samples)" using n(3) by (simp add: rd_bytes_def)
  have w2: "wr_bytes (h @ ?e @ replicate (4 * n) 0) 44 (take (4 * n) samples) = Some (h @ ?e @ take (4 * n) samples)"
    using wr_bytes_at [of "take (4 * n) samples" "replicate (4 * n) 0" "h @ ?e" "[]"] n(3) h by simp
  have f: "frame \<lparr>act_controller = c, act_flags = 0, act_id = ACTION_FB_EFFECT, act_payload = ?e @ take (4 * n) samples\<rparr> = h @ ?e @ take (4 * n) samples"
    using n(3) by (simp add: frame_def h_def)
  show ?thesis unfolding f
    using b(1) n(1,2) by (simp add: buildEffectOffsetDataAction_def s ab_write_def w1 w2 rd Let_def)
qed

text \<open>With a secure session: \<^verbatim>\<open>m\<close> bytes of samples, a multiple of 16.\<close>

lemma padded: "k \<le> padded_size k" "padded_size k mod 16 = 0" "padded_size k < k + 16"
proof -
  have "(k + (16 - k mod 16)) mod 16 = 0" by presburger
  then show "padded_size k mod 16 = 0" by (simp add: padded_size_def)
qed (simp_all add: padded_size_def, presburger)

lemma build_sealed:
  assumes b: "ab_session b" "ab_buffer b = []" "0 < c" "c < 2 ^ 16" and n: "0 < n" "n \<le> 256" and m: "m = padded_size (4 * n)" "m \<le> length samples"
    and s: "gcm_ready t (ss_gcm s) E" "length rng = 12" "ss_iv s = [] \<or> length (ss_iv s) = 12"
    and c: "sealed E (next_iv rng s) (effect_aad ref, effect_enc start dur (int n) @ take m samples) = (iv, cipher, tag)"
  shows "\<exists>b' s'. buildEffectOffsetDataAction t rng c b (Some s) ref start dur samples n = Some (True, b', Some s') \<and> ab_session b' \<and> cur_start_idx b' = 0 \<and>
    gcm_ready t (ss_gcm s') E \<and> ss_iv s' = next_iv rng s \<and>
    ab_buffer b' = frame \<lparr>act_controller = c, act_flags = ACTION_FLAG_ENCRYPTED, act_id = ACTION_FB_EFFECT,
      act_payload = iv @ take 20 (effect_header ref start dur (int n)) @ cipher @ tag\<rparr>"
proof -
  define h where "h = header_bytes \<lparr>controller_id = c, hdr_flags = ACTION_FLAG_ENCRYPTED, action_id = ACTION_FB_EFFECT, hdr_size = 8 + int (36 + m + 12 + 12)\<rparr>"
  define d where "d = le_bytes 2 (device_logical_id ref) @ [0, 0]"
  define e where "e = effect_enc start dur (int n)"
  have h: "length h = 8" "length d = 4" "length e = 16" by (simp_all add: h_def d_def e_def)
  have m2: "m < 1040" using m(1) n(2) padded(3) [of "4 * n"] by simp
  have eh: "effect_header ref start dur (int n) = effect_aad ref @ d @ e" by (simp add: effect_header_def d_def e_def)
  have z: "replicate (36 + m + 12 + 12) (0 :: byte) = replicate 12 0 @ replicate 36 0 @ replicate m 0 @ replicate 12 0"
    unfolding replicate_add [symmetric] by (rule arg_cong [where f = "\<lambda>n. replicate n 0"]) simp
  have st: "ab_startBuilding c ACTION_FB_EFFECT (36 + m + 12 + 12) ACTION_FLAG_ENCRYPTED b =
      Some (Some 8, b\<lparr>ab_buffer := h @ replicate 12 0 @ replicate 36 0 @ replicate m 0 @ replicate 12 0, cur_start_idx := 0\<rparr>)"
    unfolding z [symmetric] using start_idle [OF b, of ACTION_FB_EFFECT "36 + m + 12 + 12" ACTION_FLAG_ENCRYPTED] m2 by (simp add: ACTION_FB_EFFECT_def h_def)
  let ?z = "\<lambda>n. replicate n (0 :: byte)" and ?a = "effect_aad ref" and ?x = "take m samples"
  have lx: "length ?x = m" using m(2) by simp
  have w1: "wr_bytes (h @ ?z 12 @ ?z 36 @ ?z m @ ?z 12) (8 + 12) (?a @ d @ e) = Some (h @ ?z 12 @ ?a @ d @ e @ ?z m @ ?z 12)"
    using wr_bytes_at [of "?a @ d @ e" "?z 36" "h @ ?z 12" "?z m @ ?z 12"] h by simp
  have rd: "rd_bytes samples 0 m = Some ?x" using m(2) by (simp add: rd_bytes_def)
  have w2: "wr_bytes (h @ ?z 12 @ ?a @ d @ e @ ?z m @ ?z 12) (8 + 48) ?x = Some (h @ ?z 12 @ ?a @ d @ e @ ?x @ ?z 12)"
    using wr_bytes_at [of ?x "?z m" "h @ ?z 12 @ ?a @ d @ e" "?z 12"] h lx by simp
  have r1: "rd_bytes (h @ ?z 12 @ ?a @ d @ e @ ?x @ ?z 12) (8 + 12) 16 = Some ?a"
    using rd_at [of ?a 16 20 "h @ ?z 12" "d @ e @ ?x @ ?z 12"] h by simp
  have r2: "rd_bytes (h @ ?z 12 @ ?a @ d @ e @ ?x @ ?z 12) (8 + 32) (16 + m) = Some (e @ ?x)"
    using rd_at [of "e @ ?x" "16 + m" 40 "h @ ?z 12 @ ?a @ d" "?z 12"] h lx by simp
  have E: "\<And>x. length x = 16 \<Longrightarrow> length (E x) = 16" using s(1) by (simp add: gcm_ready_def)
  have q: "iv = next_iv rng s" "cipher = sp_crypt E iv (e @ ?x)" "tag = sp_tag E iv ?a cipher 12" using c by (auto simp: sealed_def e_def)
  have len: "length iv = 12" "length tag = 12" "length cipher = 16 + m"
    using s(2,3) length_sp_tag [OF E] length_sp_gctr [OF E] h lx by (auto simp: q next_iv_def sp_crypt_def)
  obtain g where g: "ss_encrypt t rng ?a (e @ ?x) s = Some ((iv, cipher, tag), s\<lparr>ss_iv := iv, ss_gcm := g\<rparr>)" "gcm_ready t g E"
    using ss_encrypt_spec [OF s, of ?a "e @ ?x"] h lx m2 unfolding q(2,3) q(1) next_iv_def by auto
  have w3: "wr_bytes (h @ ?z 12 @ ?a @ d @ e @ ?x @ ?z 12) 8 iv = Some (h @ iv @ ?a @ d @ e @ ?x @ ?z 12)"
    using wr_bytes_at [of iv "?z 12" h "?a @ d @ e @ ?x @ ?z 12"] h len by simp
  have w4: "wr_bytes (h @ iv @ ?a @ d @ e @ ?x @ ?z 12) (8 + 32) cipher = Some (h @ iv @ ?a @ d @ cipher @ ?z 12)"
    using wr_bytes_at [of cipher "e @ ?x" "h @ iv @ ?a @ d" "?z 12"] h len lx by simp
  have w5: "wr_bytes (h @ iv @ ?a @ d @ cipher @ ?z 12) (8 + 48 + int m) tag = Some (h @ iv @ ?a @ d @ cipher @ tag)"
    using wr_bytes_at [of tag "?z 12" "h @ iv @ ?a @ d @ cipher" "[]"] h len by (simp add: algebra_simps)
  have f: "frame \<lparr>act_controller = c, act_flags = ACTION_FLAG_ENCRYPTED, act_id = ACTION_FB_EFFECT,
      act_payload = iv @ take 20 (effect_header ref start dur (int n)) @ cipher @ tag\<rparr> = h @ iv @ ?a @ d @ cipher @ tag"
    using len h by (simp add: frame_def h_def eh)
  have m': "m = padded_size (4 * n)" by (rule m(1))
  have st': "ab_startBuilding c ACTION_FB_EFFECT (60 + m) ACTION_FLAG_ENCRYPTED b =
      Some (Some 8, b\<lparr>ab_buffer := h @ ?z 12 @ ?z 36 @ ?z m @ ?z 12, cur_start_idx := 0\<rparr>)" using st by (simp add: add.commute)
  have "buildEffectOffsetDataAction t rng c b (Some s) ref start dur samples n =
      Some (True, b\<lparr>ab_buffer := h @ iv @ ?a @ d @ cipher @ tag, cur_start_idx := 0\<rparr>, Some (s\<lparr>ss_iv := iv, ss_gcm := g\<rparr>))"
    using b(1) n(1,2) by (simp add: buildEffectOffsetDataAction_def m' [symmetric] st' ab_write_def eh w1 [simplified] w2 [simplified] w3 [simplified]
      w4 [simplified] w5 [simplified] rd r1 [simplified] r2 [simplified] g(1) Let_def)
  then show ?thesis unfolding f using b(1) g(2) q(1) by simp
qed

text \<open>The receiver of a datagram of the controller \<^verbatim>\<open>c\<close>.\<close>

definition receive_datagram :: "aes_tables \<Rightarrow> gcm_context option \<Rightarrow> int \<Rightarrow> bytes \<Rightarrow> fb_effect option" where
  "receive_datagram t key c d = (case parse_actions d of
     Some [a] \<Rightarrow> if act_controller a = c \<and> act_id a = ACTION_FB_EFFECT \<and> act_flags a = (if key = None then 0 else ACTION_FLAG_ENCRYPTED)
       then receive_effect t key (act_payload a) else None
   | _ \<Rightarrow> None)"

text \<open>A sequence of effects, each a time stamp, a duration, the memory behind the pointer and a count.\<close>

type_synonym effect_call = "int \<times> int \<times> bytes \<times> nat"

primrec generate_all ::
  "aes_tables \<Rightarrow> bytes \<Rightarrow> int \<Rightarrow> effect_call list \<Rightarrow> FfbPipeline \<Rightarrow> secure_session option \<Rightarrow>
   ((bool \<times> bytes option) list \<times> FfbPipeline \<times> secure_session option) option" where
  "generate_all t rng c [] f secure = Some ([], f, secure)"
| "generate_all t rng c (e # es) f secure = (case e of (start, dur, samples, n) \<Rightarrow> do {
     (ok, w, f, secure) \<leftarrow> generateEffect t rng c Sent start dur samples n f secure;
     (rs, f, secure) \<leftarrow> generate_all t rng c es f secure;
     Some ((ok, w) # rs, f, secure)
   })"

definition effect_call_ok :: "bool \<Rightarrow> effect_call \<Rightarrow> bool" where
  "effect_call_ok encrypted e = (case e of (start, dur, samples, n) \<Rightarrow>
     0 < n \<and> n \<le> 256 \<and> (if encrypted then padded_size (4 * n) else 4 * n) \<le> length samples)"

definition pipeline_ready :: "FfbPipeline \<Rightarrow> bool" where
  "pipeline_ready f \<longleftrightarrow> ab_session (action_builder f) \<and> ab_buffer (action_builder f) = [] \<and> 0 \<le> pipeline_id f \<and> pipeline_id f < 128 \<and>
     0 \<le> fp_device f \<and> fp_device f < 2 ^ 16"

text \<open>Both ends of a secure session hold the cipher \<^verbatim>\<open>E\<close> of the same key.\<close>

definition keys_agree :: "aes_tables \<Rightarrow> (bytes \<Rightarrow> bytes) \<Rightarrow> secure_session option \<Rightarrow> gcm_context option \<Rightarrow> bool" where
  "keys_agree t E secure key = (case (secure, key) of
     (None, None) \<Rightarrow> True
   | (Some s, Some g) \<Rightarrow> gcm_ready t (ss_gcm s) E \<and> gcm_ready t g E \<and> (ss_iv s = [] \<or> length (ss_iv s) = 12)
   | _ \<Rightarrow> False)"

lemma receive_sealed:
  assumes g: "gcm_ready t g E" and s: "sealed E iv (take 16 hdr, e @ xs) = (iv', cipher, tag)" "length iv = 12" "length hdr = 20"
    "length e = 16" "length xs < 2 ^ 20"
  shows "receive_effect t (Some g) (iv' @ hdr @ cipher @ tag) = Some (read_effect hdr (e @ xs))"
proof -
  have E: "\<And>x. length x = 16 \<Longrightarrow> length (E x) = 16" using g by (simp add: gcm_ready_def)
  have q: "iv' = iv" "cipher = sp_crypt E iv (e @ xs)" "tag = sp_tag E iv (take 16 hdr) cipher 12" using s(1) by (auto simp: sealed_def)
  have len: "length iv' = 12" "length tag = 12" using s(2) length_sp_tag [OF E] by (auto simp: q)
  obtain g' where d: "gcm_auth_decrypt t g iv' (take 16 hdr) cipher tag = Some (0, e @ xs, g')"
    using sealed_opens [OF g s(2) _ _ s(1)] s(3-5) by auto
  have p: "take 12 (iv' @ hdr @ cipher @ tag) = iv'" "take 20 (drop 12 (iv' @ hdr @ cipher @ tag)) = hdr" "drop 32 (iv' @ hdr @ cipher @ tag) = cipher @ tag"
    "take (length (cipher @ tag) - 12) (cipher @ tag) = cipher" "drop (length (cipher @ tag) - 12) (cipher @ tag) = tag"
    using len s(3) by simp_all
  show ?thesis unfolding receive_effect_def option.case Let_def p d by simp
qed

lemma generate_received:
  assumes f: "pipeline_ready f" and c: "0 < c" "c < 2 ^ 16" and k: "keys_agree t E secure key" "length rng = 12"
    and n: "effect_call_ok (secure \<noteq> None) (start, dur, samples, n)"
  shows "\<exists>d f' secure'. generateEffect t rng c Sent start dur samples n f secure = Some (True, Some d, f', secure') \<and>
    receive_datagram t key c d = Some (effect_of (fp_device f) (pipeline_id f) start dur n samples) \<and>
    pipeline_ready f' \<and> fp_device f' = fp_device f \<and> pipeline_id f' = pipeline_id f \<and> keys_agree t E secure' key \<and> (secure' = None) = (secure = None)"
proof -
  let ?b = "action_builder f"
  let ?ref = "\<lparr>device_logical_id = fp_device f, ref_pipeline_id = pipeline_id f\<rparr>"
  have b: "ab_session ?b" "ab_buffer ?b = []" and p: "0 \<le> pipeline_id f" "pipeline_id f < 256" "0 \<le> fp_device f" "fp_device f < 2 ^ 16" "pipeline_id f mod 256 = pipeline_id f"
    using f by (simp_all add: pipeline_ready_def)
  have n': "0 < n" "n \<le> 256" "\<not> 256 < n" using n by (simp_all add: effect_call_ok_def)
  have ready: "pipeline_ready (f\<lparr>action_builder := ab_reset b'\<rparr>)" if "ab_session b'" for b'
    using f that by (simp add: pipeline_ready_def ab_reset_def)
  have gen: "\<exists>d f'. generateEffect t rng c Sent start dur samples n f secure = Some (True, Some d, f', secure') \<and> d = frame a \<and> parse_actions d = Some [a] \<and>
      pipeline_ready f' \<and> fp_device f' = fp_device f \<and> pipeline_id f' = pipeline_id f"
    if "buildEffectOffsetDataAction t rng c ?b secure ?ref start dur samples n = Some (True, b', secure')" "ab_session b'" "cur_start_idx b' = 0"
      "ab_buffer b' = frame a" "action_ok a" for b' secure' a
  proof -
    have pn: "\<not> pipeline_id f < 0" using p(1) by simp
    have "generateEffect t rng c Sent start dur samples n f secure = Some (True, Some (frame a), f\<lparr>action_builder := ab_reset b'\<rparr>, secure')"
      unfolding generateEffect_def if_not_P [OF n'(3)] if_not_P [OF pn] Let_def p(5) that(1) by (simp add: send_frame(1) [OF that(2,4,3,5)])
    then show ?thesis using send_frame(2) [OF that(2,4,3,5)] ready [OF that(2)] by simp
  qed
  show ?thesis
  proof (cases secure)
    case None
    have m: "4 * n \<le> length samples" using n None by (simp add: effect_call_ok_def)
    let ?a = "\<lparr>act_controller = c, act_flags = 0, act_id = ACTION_FB_EFFECT, act_payload = effect_header ?ref start dur (int n) @ take (4 * n) samples\<rparr>"
    obtain b' where b': "buildEffectOffsetDataAction t rng c ?b None ?ref start dur samples n = Some (True, b', None)" "ab_session b'" "cur_start_idx b' = 0"
      "ab_buffer b' = frame ?a" using build_plain [OF b c n'(1,2) m] by blast
    have ok: "action_ok ?a" using c m n' by (simp add: action_ok_def ACTION_FB_EFFECT_def)
    have B: "buildEffectOffsetDataAction t rng c ?b secure ?ref start dur samples n = Some (True, b', None)" using b'(1) None by simp
    from gen [OF B b'(2-4) ok] obtain d f' where d: "generateEffect t rng c Sent start dur samples n f secure = Some (True, Some d, f', None)"
      "parse_actions d = Some [?a]" "pipeline_ready f'" "fp_device f' = fp_device f" "pipeline_id f' = pipeline_id f" by blast
    have e: "drop 20 (act_payload ?a) = effect_enc start dur (int n) @ take (4 * n) samples" by (simp add: effect_header_def)
    have "read_effect (take 20 (act_payload ?a)) (drop 20 (act_payload ?a)) = effect_of (fp_device f) (pipeline_id f) start dur n samples"
      unfolding e by (rule read_effect_enc) (use n' p m in simp_all)
    then have "receive_datagram t None c d = Some (effect_of (fp_device f) (pipeline_id f) start dur n samples)"
      by (simp add: receive_datagram_def d(2) receive_effect_def)
    moreover have "key = None" using k(1) None by (simp add: keys_agree_def split: option.splits)
    ultimately show ?thesis using d k(1) None by blast
  next
    case (Some s)
    then obtain g where g: "key = Some g" "gcm_ready t (ss_gcm s) E" "gcm_ready t g E" "ss_iv s = [] \<or> length (ss_iv s) = 12"
      using k(1) by (auto simp: keys_agree_def split: option.splits)
    define m where "m = padded_size (4 * n)"
    have m: "4 * n \<le> m" "m \<le> length samples" "m < 1040" using n Some padded(1,3) [of "4 * n"] n' by (simp_all add: effect_call_ok_def m_def)
    obtain iv cipher tag where sl: "sealed E (next_iv rng s) (effect_aad ?ref, effect_enc start dur (int n) @ take m samples) = (iv, cipher, tag)"
      by (metis prod_cases3)
    let ?h = "take 20 (effect_header ?ref start dur (int n))"
    let ?a = "\<lparr>act_controller = c, act_flags = ACTION_FLAG_ENCRYPTED, act_id = ACTION_FB_EFFECT, act_payload = iv @ ?h @ cipher @ tag\<rparr>"
    obtain b' s' where b': "buildEffectOffsetDataAction t rng c ?b (Some s) ?ref start dur samples n = Some (True, b', Some s')" "ab_session b'" "cur_start_idx b' = 0"
      "gcm_ready t (ss_gcm s') E" "ss_iv s' = next_iv rng s" "ab_buffer b' = frame ?a"
      using build_sealed [OF b c n'(1,2) m_def m(2) g(2) k(2) g(4) sl] by blast
    have li: "length (next_iv rng s) = 12" using k(2) g(4) by (auto simp: next_iv_def)
    have E: "\<And>x. length x = 16 \<Longrightarrow> length (E x) = 16" using g(2) by (simp add: gcm_ready_def)
    have "length iv = 12" "length tag = 12" "length cipher = 16 + m"
      using sl li length_sp_tag [OF E] length_sp_gctr [OF E] m(2) by (auto simp: sealed_def sp_crypt_def)
    then have ok: "action_ok ?a" using c m(3) by (simp add: action_ok_def ACTION_FB_EFFECT_def ACTION_FLAG_ENCRYPTED_def)
    have B: "buildEffectOffsetDataAction t rng c ?b secure ?ref start dur samples n = Some (True, b', Some s')" using b'(1) Some by simp
    from gen [OF B b'(2,3,6) ok] obtain d f' where d: "generateEffect t rng c Sent start dur samples n f secure = Some (True, Some d, f', Some s')"
      "parse_actions d = Some [?a]" "pipeline_ready f'" "fp_device f' = fp_device f" "pipeline_id f' = pipeline_id f" by blast
    have ha: "take 16 ?h = effect_aad ?ref" by (simp add: effect_header_def)
    have "receive_effect t (Some g) (iv @ ?h @ cipher @ tag) = Some (read_effect ?h (effect_enc start dur (int n) @ take m samples))"
      by (rule receive_sealed [OF g(3) sl [folded ha] li]) (use m in simp_all)
    also have "read_effect ?h (effect_enc start dur (int n) @ take m samples) = effect_of (fp_device f) (pipeline_id f) start dur n samples"
      by (rule read_effect_enc) (use n' p m in \<open>simp_all add: min_def\<close>)
    finally have "receive_datagram t key c d = Some (effect_of (fp_device f) (pipeline_id f) start dur n samples)"
      by (simp add: receive_datagram_def d(2) g(1))
    moreover have "keys_agree t E (Some s') key" using b'(4,5) g(1,3) li by (simp add: keys_agree_def)
    ultimately show ?thesis using d(1,3-5) Some by blast
  qed
qed

lemma generate_all_received:
  assumes "0 < c" "c < 2 ^ 16" "length rng = 12"
  shows "pipeline_ready f \<Longrightarrow> keys_agree t E secure key \<Longrightarrow> list_all (effect_call_ok (secure \<noteq> None)) es \<Longrightarrow>
    \<exists>ds f' secure'. generate_all t rng c es f secure = Some (map (\<lambda>d. (True, Some d)) ds, f', secure') \<and>
      map (receive_datagram t key c) ds = map (\<lambda>(start, dur, samples, n). Some (effect_of (fp_device f) (pipeline_id f) start dur n samples)) es \<and>
      pipeline_ready f' \<and> keys_agree t E secure' key"
proof (induction es arbitrary: f secure)
  case Nil
  then show ?case by simp
next
  case (Cons e es)
  obtain start dur samples n where e: "e = (start, dur, samples, n)" by (metis prod_cases4)
  have n: "effect_call_ok (secure \<noteq> None) (start, dur, samples, n)" using Cons.prems(3) e by simp
  obtain d f1 secure1 where g: "generateEffect t rng c Sent start dur samples n f secure = Some (True, Some d, f1, secure1)"
    "receive_datagram t key c d = Some (effect_of (fp_device f) (pipeline_id f) start dur n samples)"
    "pipeline_ready f1" "fp_device f1 = fp_device f" "pipeline_id f1 = pipeline_id f" "keys_agree t E secure1 key" "(secure1 = None) = (secure = None)"
    using generate_received [OF Cons.prems(1) assms(1,2) Cons.prems(2) assms(3) n] by blast
  have "list_all (effect_call_ok (secure1 \<noteq> None)) es" using Cons.prems(3) g(7) by simp
  from Cons.IH [OF g(3,6) this] obtain ds f' secure' where
    ih: "generate_all t rng c es f1 secure1 = Some (map (\<lambda>d. (True, Some d)) ds, f', secure')"
    "map (receive_datagram t key c) ds = map (\<lambda>(start, dur, samples, n). Some (effect_of (fp_device f1) (pipeline_id f1) start dur n samples)) es"
    "pipeline_ready f'" "keys_agree t E secure' key" by blast
  then show ?case using g(1,2,4,5) by (intro exI [of _ "d # ds"] exI [of _ f'] exI [of _ secure']) (simp add: e)
qed

section \<open>Commands\<close>

definition configure_body :: "PipelineConfig \<Rightarrow> FfbPipeline \<Rightarrow> bdoc" where
  "configure_body cfg f =
     [(ascii ''device_session_id'', VI32 (fp_device f)), (ascii ''offset_mode'', VStr (offset_type_str (offset_type cfg))),
      (ascii ''interpolation_mode'', VStr (interpolation_type_str (interpolation_type cfg))), (ascii ''filter_mode'', VStr (filter_type_str (filter_type cfg))),
      (ascii ''filter_parameter'', VDouble (float_to_double (filter_parameter cfg)))] @
     (if pipeline_id f \<ge> 0 then [(ascii ''pipeline_id'', VI32 (pipeline_id f))] else [])"

definition free_body :: "FfbPipeline \<Rightarrow> bdoc" where
  "free_body f = [(ascii ''device_session_id'', VI32 (fp_device f)), (ascii ''pipeline_id'', VI32 (pipeline_id f))]"

definition pipeline_ids_ok :: "FfbPipeline \<Rightarrow> bool" where
  "pipeline_ids_ok f \<longleftrightarrow> 0 \<le> fp_device f \<and> fp_device f < 2 ^ 16 \<and> -128 \<le> pipeline_id f \<and> pipeline_id f < 128"

lemma names_short: "length (offset_type_str a) < 20" "length (interpolation_type_str b) < 20" "length (filter_type_str c) < 20"
  by (cases a; cases b; cases c; simp add: ascii_def)+

lemma request_body:
  assumes "reserve_ok grow" "0 \<notin> set command" "length command < 100"
    "list_all (\<lambda>(k, v). 0 \<notin> set k \<and> wf_val v \<and> val_type v \<noteq> ELEMENT_ARRAY) body" "length (enc_elems body) < 1000"
  shows "\<exists>b. (cr_initialize grow (ascii ''ffb'') command command_request \<bind> run_all [] (map (\<lambda>(k, v). DocAdd k v) body)) = Some b \<and>
    growing b (request_levels (ascii ''ffb'') command body) 2000"
proof -
  have l: "length (ascii ''ffb'') = 3" by (simp add: ascii_def)
  obtain b0 where b0: "cr_initialize grow (ascii ''ffb'') command command_request = Some b0"
    "growing b0 (request_levels (ascii ''ffb'') command []) (51 + int (length command))"
    using cr_initialize_spec [OF assms(1) command_request_idle assms(2), of "ascii ''ffb''"] assms(3) by (auto simp: l)
  obtain b1 where b1: "run_all [] (map (\<lambda>(k, v). DocAdd k v) body) b0 = Some b1"
    "growing b1 (request_levels (ascii ''ffb'') command body) (51 + int (length command) + int (length (enc_elems body)))"
    using growing_docs [OF b0(2) [unfolded request_levels_def] assms(4), where j = "[]"] assms(3,5) by (auto simp: request_levels_def)
  have "growing b1 (request_levels (ascii ''ffb'') command body) 2000" using b1(2) assms(3,5) by (simp add: growing_def)
  then show ?thesis using b0(1) b1(1) by simp
qed

lemma configure_request_builds:
  assumes "reserve_ok grow" "pipeline_ids_ok f"
  shows "\<exists>b. configure_request grow cfg f = Some b \<and> growing b (request_levels (ascii ''ffb'') (ascii ''configure_pipeline'') (configure_body cfg f)) 2000"
proof -
  have "\<exists>b. (cr_initialize grow (ascii ''ffb'') (ascii ''configure_pipeline'') command_request \<bind> run_all [] (map (\<lambda>(k, v). DocAdd k v) (configure_body cfg f))) = Some b \<and>
    growing b (request_levels (ascii ''ffb'') (ascii ''configure_pipeline'') (configure_body cfg f)) 2000"
    by (rule request_body [OF assms(1)])
      (use assms(2) names_short(1) [of "offset_type cfg"] names_short(2) [of "interpolation_type cfg"] names_short(3) [of "filter_type cfg"]
        in \<open>simp_all add: configure_body_def pipeline_ids_ok_def ascii_def i32_range_def enc_elem_def\<close>)
  moreover have "cr_initialize grow (ascii ''ffb'') (ascii ''configure_pipeline'') command_request \<bind> run_all [] (map (\<lambda>(k, v). DocAdd k v) (configure_body cfg f)) =
      configure_request grow cfg f"
    by (simp add: configure_request_def configure_body_def run_all_fun)
  ultimately show ?thesis by simp
qed

lemma free_request_builds:
  assumes "reserve_ok grow" "pipeline_ids_ok f"
  shows "\<exists>b. free_request grow f = Some b \<and> growing b (request_levels (ascii ''ffb'') (ascii ''free_pipeline'') (free_body f)) 2000"
proof -
  have "\<exists>b. (cr_initialize grow (ascii ''ffb'') (ascii ''free_pipeline'') command_request \<bind> run_all [] (map (\<lambda>(k, v). DocAdd k v) (free_body f))) = Some b \<and>
    growing b (request_levels (ascii ''ffb'') (ascii ''free_pipeline'') (free_body f)) 2000"
    by (rule request_body [OF assms(1)]) (use assms(2) in \<open>simp_all add: free_body_def pipeline_ids_ok_def ascii_def i32_range_def enc_elem_def\<close>)
  moreover have "cr_initialize grow (ascii ''ffb'') (ascii ''free_pipeline'') command_request \<bind> run_all [] (map (\<lambda>(k, v). DocAdd k v) (free_body f)) = free_request grow f"
    by (simp add: free_request_def free_body_def run_all_fun)
  ultimately show ?thesis by simp
qed

text \<open>An open connection on which nothing is being written.\<close>

definition tx_idle :: "'cb tx_state \<Rightarrow> bool" where
  "tx_idle s \<longleftrightarrow> main_socket_is_open s \<and> \<not> send_in_progress s \<and> main_socket_tx_queue s = [] \<and> i32_range (command_id_counter s)"

lemma blocking_command_starts:
  assumes "growing req (request_levels service command body) n" "n + 15 < 1073741824" "tx_idle s"
  shows "\<exists>s1 req1. blockingCommand thr req (Some s) = Some (None, Some (enc_doc (request_doc service command body (command_id_counter s))), Some s1, req1) \<and>
    command_result_handlers s1 (command_id_counter s) = Some (ResultCb thr)"
proof -
  obtain req1 where "cr_finalize (command_id_counter s) req = Some (enc_doc (request_doc service command body (command_id_counter s)), req1)"
    using cr_finalize_spec [OF assms(1,2)] assms(3) by (auto simp: tx_idle_def)
  then show ?thesis using assms(3)
    by (simp add: blockingCommand_def fetch_cmd_id_def startSendCommand_def startNextSendNoLock_def tx_idle_def)
qed

lemma configure_result:
  assumes "cr_code r = 0" "cr_payload r = enc_doc es" "wf_elems es" "length (enc_doc es) < 2147483640" "from_key (ascii ''pipeline_id'') es = (k, VI32 x) # rest"
  shows "configure_end cfg r f = Some (True, f\<lparr>pipeline_id := i8 x, config := cfg\<rparr>)"
proof -
  obtain rd where rd: "bson_reader_sized (Some (enc_doc es)) (int (length (enc_doc es))) = Some rd" "in_doc rd es"
    using sized_in_doc [OF assms(3), where post = "[]"] assms(4) by auto
  obtain rd' where "tryFindAndGet tryGetValue_i32 (ascii ''pipeline_id'') rd = Some (Some x, rd')"
    using find_i32_const [OF rd(2) assms(5)] by blast
  then show ?thesis using rd(1) assms(1,2) by (simp add: configure_end_def)
qed

section \<open>Properties\<close>

text \<open>The effect of a call as the interface describes it.\<close>

definition requested_effect :: "int \<Rightarrow> int \<Rightarrow> effect_call \<Rightarrow> fb_effect" where
  "requested_effect device pid = (\<lambda>(start, dur, samples, n).
     \<lparr>fe_pipeline = pid, fe_device = device, fe_format = 0, fe_start = start mod 2 ^ 64, fe_duration = dur, fe_count = n,
      fe_samples = take (4 * n) samples\<rparr>)"

definition effect_in_limits :: "effect_call \<Rightarrow> bool" where
  "effect_in_limits = (\<lambda>(start, dur, samples, n). 0 < n \<and> n \<le> 256 \<and> 0 \<le> dur \<and> dur < 2 ^ 40 \<and> 4 * n \<le> length samples)"

text \<open>The memory the code reads in a secure session: the samples, up to the next multiple of four.\<close>

definition padded_readable :: "effect_call \<Rightarrow> bool" where
  "padded_readable = (\<lambda>(start, dur, samples, n). padded_size (4 * n) \<le> length samples)"

text \<open>C36: effects reach the backend as they were asked for. On a configured pipeline (with no action left in its
  builder) of a session in control, any sequence of effects of 1 to 256 samples, with durations below 2 to
  the 40, whose datagrams the socket accepts, is sent, one datagram each; the receiver, which takes the datagram
  apart and decrypts it when the session is secure, gets the device, the pipeline, the time stamp (as 64 bits
  in two's complement), the duration and the samples of each call, and the pipeline is ready again. In a secure
  session the memory behind the samples must be readable up to a multiple of four samples, more than the
  interface asks for: the code reads it (\<open>padding_overread\<close>).\<close>

theorem effects_received:
  assumes "pipeline_ready f" "0 < c" "c < 2 ^ 16" "length rng = 12" "keys_agree t E secure key"
    "list_all effect_in_limits es" "secure = None \<or> list_all padded_readable es"
  shows "\<exists>ds f' secure'. generate_all t rng c es f secure = Some (map (\<lambda>d. (True, Some d)) ds, f', secure') \<and>
      map (receive_datagram t key c) ds = map (\<lambda>e. Some (requested_effect (fp_device f) (pipeline_id f) e)) es \<and>
      pipeline_ready f'"
proof -
  have ok: "list_all (effect_call_ok (secure \<noteq> None)) es"
    using assms(6,7) by (auto simp: list_all_iff effect_call_ok_def effect_in_limits_def padded_readable_def)
  have "effect_of (fp_device f) (pipeline_id f) start dur n samples = requested_effect (fp_device f) (pipeline_id f) (start, dur, samples, n)"
    if "(start, dur, samples, n) \<in> set es" for start dur samples n
    using assms(6) that by (auto simp: list_all_iff effect_of_def requested_effect_def effect_in_limits_def)
  then have "map (\<lambda>(start, dur, samples, n). Some (effect_of (fp_device f) (pipeline_id f) start dur n samples)) es =
      map (\<lambda>e. Some (requested_effect (fp_device f) (pipeline_id f) e)) es" by (intro map_cong) auto
  moreover obtain ds f' secure' where g: "generate_all t rng c es f secure = Some (map (\<lambda>d. (True, Some d)) ds, f', secure')"
    "map (receive_datagram t key c) ds = map (\<lambda>(start, dur, samples, n). Some (effect_of (fp_device f) (pipeline_id f) start dur n samples)) es"
    "pipeline_ready f'" using generate_all_received [OF assms(2,3,4,1,5) ok] by blast
  ultimately show ?thesis by (intro exI [of _ ds] exI [of _ f'] exI [of _ secure']) simp
qed

text \<open>With exactly the documented memory, a secure session reads behind it unless the number of samples is a
  multiple of four.\<close>

lemma padding_overread:
  assumes "0 < n" "n \<le> 256" "length samples = 4 * n" "n mod 4 \<noteq> 0"
    "buildEffectOffsetDataAction t rng c b (Some s) ref start dur samples n = Some (ok, b', s')"
  shows "\<not> ok"
proof -
  have "4 * n mod 16 \<noteq> 0" using assms(4) by presburger
  then have "rd_bytes samples 0 (padded_size (4 * n)) = None" using assms(3) by (auto simp: rd_bytes_def padded_size_def)
  then show ?thesis using assms(1,2,5)
    by (auto simp: buildEffectOffsetDataAction_def Let_def bind_eq_Some_conv split: if_splits option.splits)
qed

definition wit_pipeline :: FfbPipeline where
  "wit_pipeline = \<lparr>action_builder = \<lparr>ab_session = True, ab_buffer = [], cur_start_idx = 0\<rparr>, fp_device = 7, pipeline_id = 2,
     config = \<lparr>offset_type = force_N, interpolation_type = linear, cfg_gain = 0x3f800000, filter_type = low_pass, filter_parameter = 0x3f800000\<rparr>\<rparr>"

theorem effects_received_witness:
  "\<exists>g s ds f' s'. gcm_ready aes_static g (aes128 (replicate 16 1)) \<and> ss_gcm s = g \<and>
    generate_all aes_static (replicate 12 3) 9 [(1000, 5, replicate 16 1, 4), (- 1, 3, replicate 32 8, 5)] wit_pipeline (Some s) =
      Some (map (\<lambda>d. (True, Some d)) ds, f', s') \<and>
    map (receive_datagram aes_static (Some g) 9) ds = [Some (requested_effect 7 2 (1000, 5, replicate 16 1, 4)), Some (requested_effect 7 2 (- 1, 3, replicate 32 8, 5))]"
proof -
  obtain g where g: "gcm_ready aes_static g (aes128 (replicate 16 1))"
    using gcm_setkey_ready [OF _ _ good_tables_init, of "replicate 16 1" 4 gcm_zero_ctx] by (auto simp: aes128_def)
  define s where "s = \<lparr>ss_params = \<lparr>sp_method = 1, sp_session_id = 5, sp_controller_public_key = [], sp_shared_secret = []\<rparr>,
      ss_key = replicate 16 1, ss_iv = [], ss_gcm = g\<rparr>"
  have k: "keys_agree aes_static (aes128 (replicate 16 1)) (Some s) (Some g)" using g by (simp add: keys_agree_def s_def)
  have p: "pipeline_ready wit_pipeline" by (simp add: pipeline_ready_def wit_pipeline_def)
  have o: "list_all effect_in_limits [(1000, 5, replicate 16 1, 4), (- 1, 3, replicate 32 8, 5)]"
    "Some s = None \<or> list_all padded_readable [(1000, 5, replicate 16 1, 4), (- 1, 3, replicate 32 8, 5)]"
    by (simp_all add: effect_in_limits_def padded_readable_def padded_size_def)
  have nine: "(0 :: int) < 9" "(9 :: int) < 2 ^ 16" "length (replicate 12 (3 :: byte)) = 12" by simp_all
  from effects_received [OF p nine k o] obtain ds f' s' where
    "generate_all aes_static (replicate 12 3) 9 [(1000, 5, replicate 16 1, 4), (- 1, 3, replicate 32 8, 5)] wit_pipeline (Some s) =
      Some (map (\<lambda>d. (True, Some d)) ds, f', s')"
    and m: "map (receive_datagram aes_static (Some g) 9) ds = map (\<lambda>e. Some (requested_effect (fp_device wit_pipeline) (pipeline_id wit_pipeline) e))
      [(1000, 5, replicate 16 1, 4), (- 1, 3, replicate 32 8, 5)]"
    by blast
  moreover have "map (receive_datagram aes_static (Some g) 9) ds = [Some (requested_effect 7 2 (1000, 5, replicate 16 1, 4)), Some (requested_effect 7 2 (- 1, 3, replicate 32 8, 5))]"
    unfolding m by (simp add: wit_pipeline_def)
  ultimately have "generate_all aes_static (replicate 12 3) 9 [(1000, 5, replicate 16 1, 4), (- 1, 3, replicate 32 8, 5)] wit_pipeline (Some s) =
      Some (map (\<lambda>d. (True, Some d)) ds, f', s') \<and>
    map (receive_datagram aes_static (Some g) 9) ds = [Some (requested_effect 7 2 (1000, 5, replicate 16 1, 4)), Some (requested_effect 7 2 (- 1, 3, replicate 32 8, 5))]" by blast
  moreover have "ss_gcm s = g" by (simp add: s_def)
  ultimately show ?thesis using g by (intro exI [of _ g] exI [of _ s] exI [of _ ds] exI [of _ f'] exI [of _ s'] conjI) simp_all
qed

text \<open>The gain of a configuration is never sent.\<close>

lemma gain_not_sent: "configure_request grow (cfg\<lparr>cfg_gain := g\<rparr>) f = configure_request grow cfg f"
  by (simp add: configure_request_def)

text \<open>A response without an id, or with one above 127, is taken for a success as well, and leaves the pipeline
  without a usable id.\<close>

lemma configure_bad_id:
  assumes "cr_code r = 0" "cr_payload r = enc_doc es" "wf_elems es" "length (enc_doc es) < 2147483640"
  shows "from_key (ascii ''pipeline_id'') es = [] \<Longrightarrow> configure_end cfg r f = Some (True, f\<lparr>pipeline_id := -1, config := cfg\<rparr>)"
    "from_key (ascii ''pipeline_id'') es = [(k, VI32 200)] \<Longrightarrow> configure_end cfg r f = Some (True, f\<lparr>pipeline_id := -56, config := cfg\<rparr>)"
proof -
  have i: "i8 200 = -56" "i8 (-1) = -1" by code_simp+
  show "from_key (ascii ''pipeline_id'') es = [(k, VI32 200)] \<Longrightarrow> configure_end cfg r f = Some (True, f\<lparr>pipeline_id := -56, config := cfg\<rparr>)"
    using configure_result [OF assms] by (simp add: i)
  assume "from_key (ascii ''pipeline_id'') es = []"
  moreover obtain rd where rd: "bson_reader_sized (Some (enc_doc es)) (int (length (enc_doc es))) = Some rd" "in_doc rd es"
    using sized_in_doc [OF assms(3), where post = "[]"] assms(4) by auto
  ultimately obtain rd' where "tryFindAndGet tryGetValue_i32 (ascii ''pipeline_id'') rd = Some (None, rd')"
    using find_i32 [OF rd(2), of "ascii ''pipeline_id''"] by auto
  then show "configure_end cfg r f = Some (True, f\<lparr>pipeline_id := -1, config := cfg\<rparr>)"
    using rd(1) assms(1,2) by (simp add: configure_end_def i)
qed

text \<open>C37: the commands of a pipeline of a session, on an open connection on which nothing waits to be written.
  Configuring and removing it start the write of the request documents of the service \<^verbatim>\<open>ffb\<close>, with the
  names of the modes, the exact value of the filter parameter and the pipeline's id only when it has one. This
  is all of a configuration whose gain is 1; another gain is not sent (\<open>gain_not_sent\<close>). A successful
  response with an id from 0 to 127 gives the pipeline this id and the configuration (without an id, or with a
  greater one, see \<open>configure_bad_id\<close>); a failure leaves it as it was; after a successful removal it has
  none. Configuring again sends the old id with the request and does not free the old pipeline itself.\<close>

theorem pipeline_commands:
  fixes thr :: nat and s :: "'u command_cb tx_state"
  assumes "reserve_ok grow" "pipeline_ids_ok f" "ab_session (action_builder f)" "tx_idle s"
    "cr_code r = 0" "cr_payload r = enc_doc es" "wf_elems es" "length (enc_doc es) < 2147483640" "from_key (ascii ''pipeline_id'') es = (k, VI32 x) # rest"
    "cr_code r' \<noteq> 0" "0 \<le> x" "x \<le> 127" "cfg_gain cfg = 0x3f800000"
  shows "(\<exists>s1. configure_begin grow thr cfg f (Some s) = Some (None, Some (enc_doc (request_doc (ascii ''ffb'') (ascii ''configure_pipeline'')
        (configure_body cfg f) (command_id_counter s))), Some s1) \<and> command_result_handlers s1 (command_id_counter s) = Some (ResultCb thr)) \<and>
    configure_end cfg r f = Some (True, f\<lparr>pipeline_id := x, config := cfg\<rparr>) \<and> configure_end cfg r' f = Some (False, f) \<and>
    (if pipeline_id f < 0 then remove_begin grow thr f (Some s) = Some (Inl True)
     else \<exists>s1. remove_begin grow thr f (Some s) = Some (Inr (None, Some (enc_doc (request_doc (ascii ''ffb'') (ascii ''free_pipeline'')
        (free_body f) (command_id_counter s))), Some s1)) \<and> command_result_handlers s1 (command_id_counter s) = Some (ResultCb thr)) \<and>
    remove_end r f = (True, f\<lparr>pipeline_id := -1\<rparr>) \<and> remove_end r' f = (False, f)"
proof -
  obtain b where b: "configure_request grow cfg f = Some b" "growing b (request_levels (ascii ''ffb'') (ascii ''configure_pipeline'') (configure_body cfg f)) 2000"
    using configure_request_builds [OF assms(1,2)] by blast
  obtain b2 where b2: "free_request grow f = Some b2" "growing b2 (request_levels (ascii ''ffb'') (ascii ''free_pipeline'') (free_body f)) 2000"
    using free_request_builds [OF assms(1,2)] by blast
  note C = blocking_command_starts [OF b(2) _ assms(4), of thr] and R = blocking_command_starts [OF b2(2) _ assms(4), of thr]
  have 1: "\<exists>s1. configure_begin grow thr cfg f (Some s) = Some (None, Some (enc_doc (request_doc (ascii ''ffb'') (ascii ''configure_pipeline'')
        (configure_body cfg f) (command_id_counter s))), Some s1) \<and> command_result_handlers s1 (command_id_counter s) = Some (ResultCb thr)"
    using C assms(3) b(1) by (auto simp: configure_begin_def)
  have 2: "if pipeline_id f < 0 then remove_begin grow thr f (Some s) = Some (Inl True)
     else \<exists>s1. remove_begin grow thr f (Some s) = Some (Inr (None, Some (enc_doc (request_doc (ascii ''ffb'') (ascii ''free_pipeline'')
        (free_body f) (command_id_counter s))), Some s1)) \<and> command_result_handlers s1 (command_id_counter s) = Some (ResultCb thr)"
    using R assms(3) b2(1) by (auto simp: remove_begin_def)
  have "i8 x = x" using assms(11,12) by (simp add: i8_def signed_take_bit_int_eq_self)
  then show ?thesis using 1 2 configure_result [OF assms(5-9)] assms(5,10) by (simp add: configure_end_def remove_end_def)
qed

theorem pipeline_commands_witness:
  "\<exists>s1. configure_begin (\<lambda>old req. max old req) 1 (config wit_pipeline) wit_pipeline (Some wit_tx) =
      Some (None, Some (enc_doc (request_doc (ascii ''ffb'') (ascii ''configure_pipeline'')
        [(ascii ''device_session_id'', VI32 7), (ascii ''offset_mode'', VStr (ascii ''force'')), (ascii ''interpolation_mode'', VStr (ascii ''linear'')),
         (ascii ''filter_mode'', VStr (ascii ''low_pass'')), (ascii ''filter_parameter'', VDouble 0x3ff0000000000000), (ascii ''pipeline_id'', VI32 2)] 7)), Some s1)"
proof -
  have ro: "reserve_ok (\<lambda>old req. max old req)" by (auto simp: reserve_ok_def)
  let ?es = "[(ascii ''pipeline_id'', VI32 3)]"
  have wf: "wf_elems ?es" "length (enc_doc ?es) < 2147483640"
    by (simp_all add: ascii_def i32_range_def length_enc_doc)
  have fk: "from_key (ascii ''pipeline_id'') ?es = (ascii ''pipeline_id'', VI32 3) # []" by simp
  have f: "float_to_double 0x3f800000 = 0x3ff0000000000000" by (simp add: float_to_double_def Let_def)
  have b: "configure_body (config wit_pipeline) wit_pipeline = [(ascii ''device_session_id'', VI32 7), (ascii ''offset_mode'', VStr (ascii ''force'')), (ascii ''interpolation_mode'', VStr (ascii ''linear'')),
         (ascii ''filter_mode'', VStr (ascii ''low_pass'')), (ascii ''filter_parameter'', VDouble 0x3ff0000000000000), (ascii ''pipeline_id'', VI32 2)]"
    by (simp add: configure_body_def wit_pipeline_def f)
  have p: "pipeline_ids_ok wit_pipeline" "ab_session (action_builder wit_pipeline)" "tx_idle wit_tx" "command_id_counter wit_tx = 7"
    by (simp_all add: pipeline_ids_ok_def wit_pipeline_def tx_idle_def wit_tx_def i32_range_def)
  from pipeline_commands [OF ro p(1,2,3) _ _ wf fk, of "\<lparr>cr_code = 0, cr_payload = enc_doc ?es\<rparr>" "\<lparr>cr_code = 1, cr_payload = []\<rparr>" "config wit_pipeline" 1]
  show ?thesis unfolding b p(4) by (auto simp: wit_pipeline_def)
qed

end
