(* ===== verification/Variables.thy ===== *)
theory Variables
  imports Shm_Provider
begin

text \<open>
  core/src/variables.cpp, core/src/variables_internal.h and core/inc/sc-api/core/variables.h: the
  definitions of the variables that the backend publishes in shared memory, copied as they appear, and
  the lookup of a variable's value. The block of the definitions is a history, as every read of it
  happens at a time of its own; a pointer to a value is an offset into the block of the values. Copies
  live in 32 chunks of 1024 entries, so that pointers to them, which are indices here, stay valid.
\<close>

section \<open>Copies of definitions\<close>

record VariableDefCopy =
  vc_value_ptr :: "int option"
  vc_type :: value_type
  vc_flags :: int
  vc_device :: int
  vc_name :: bytes

definition empty_copy :: VariableDefCopy where
  "empty_copy = \<lparr>vc_value_ptr = None, vc_type = Type_default, vc_flags = 0, vc_device = 0, vc_name = replicate 50 0\<rparr>"

definition vc_getName :: "VariableDefCopy \<Rightarrow> bytes" where
  "vc_getName d = takeWhile (\<lambda>b. b \<noteq> 0) (vc_name d)"

definition k_definitions_in_chunk :: nat where "k_definitions_in_chunk = 1024"
definition k_chunk_count :: nat where "k_chunk_count = 32"

record VariableDefChunk =
  variable_values_max_data_size :: int
  chunk_defs :: "VariableDefCopy list option list"
  def_count :: nat
  processed_def_count :: nat
  search_map :: "nat list"

definition new_chunk :: VariableDefChunk where
  "new_chunk = \<lparr>variable_values_max_data_size = 0, chunk_defs = replicate k_chunk_count None, def_count = 0,
     processed_def_count = 0, search_map = []\<rparr>"

text \<open>An index without a chunk fails the assertion or is outside the array.\<close>

definition getDefByIdx :: "VariableDefChunk \<Rightarrow> nat \<Rightarrow> VariableDefCopy option" where
  "getDefByIdx c idx =
     (if idx div k_definitions_in_chunk < length (chunk_defs c)
      then map_option (\<lambda>ds. ds ! (idx mod k_definitions_in_chunk)) (chunk_defs c ! (idx div k_definitions_in_chunk))
      else None)"

section \<open>The order of the search map\<close>

definition searchMapSortCmp :: "VariableDefCopy \<Rightarrow> VariableDefCopy \<Rightarrow> bool" where
  "searchMapSortCmp a b =
     (if vc_device a < vc_device b then True
      else if vc_device a > vc_device b then False
      else ord_class.lexordp (vc_getName a) (vc_getName b))"

text \<open>\<^verbatim>\<open>lower_bound\<close> on a range partitioned by the comparison: the first position that is not less.\<close>

definition lower_bound :: "('a \<Rightarrow> 'a \<Rightarrow> bool) \<Rightarrow> 'a list \<Rightarrow> 'a \<Rightarrow> nat" where
  "lower_bound cmp xs v = length (takeWhile (\<lambda>x. cmp x v) xs)"

definition map_less :: "VariableDefChunk \<Rightarrow> nat \<Rightarrow> nat \<Rightarrow> bool" where
  "map_less c i j = (case (getDefByIdx c i, getDefByIdx c j) of (Some a, Some b) \<Rightarrow> searchMapSortCmp a b | _ \<Rightarrow> False)"

definition insert_sorted :: "VariableDefChunk \<Rightarrow> nat \<Rightarrow> VariableDefChunk" where
  "insert_sorted c var =
     (let insert_point = lower_bound (map_less c) (search_map c) var
      in c\<lparr>search_map := take insert_point (search_map c) @ [var] @ drop insert_point (search_map c)\<rparr>)"

section \<open>The provider\<close>

record VariableProvider =
  def_chunk :: "VariableDefChunk option"
  variable_def_header :: bool
  variable_defs_start :: nat
  variable_values_start :: nat
  variable_def_size :: nat
  max_variable_def_count :: nat

text \<open>The fields of a definition at the offset \<^verbatim>\<open>p\<close>: flags at 0, type at 4, its variant data at 6, offset of
  the value at 8, device at 12, name at 14. The offset is read twice.\<close>

definition copy_definition ::
  "shm_history \<Rightarrow> nat \<Rightarrow> nat \<Rightarrow> nat \<Rightarrow> VariableDefChunk \<Rightarrow> (nat option \<times> nat \<times> VariableDefChunk) option" where
  "copy_definition m values_start p t c = do {
     let chunk = def_count c div k_definitions_in_chunk;
     let chunk_var_idx = def_count c mod k_definitions_in_chunk;
     if chunk \<ge> k_chunk_count then None
     else do {
       let defs = (case chunk_defs c ! chunk of None \<Rightarrow> replicate k_definitions_in_chunk empty_copy | Some ds \<Rightarrow> ds);
       dev \<leftarrow> shm_u16 (m t) (int p + 12);
       flags \<leftarrow> shm_u32 (m (t + 1)) (int p);
       name \<leftarrow> shm_copy m (t + 2) (p + 14) 50;
       ty \<leftarrow> shm_u16 (m (t + 52)) (int p + 4);
       variant \<leftarrow> shm_u16 (m (t + 53)) (int p + 6);
       let copy = (defs ! chunk_var_idx)\<lparr>vc_device := dev, vc_flags := flags, vc_name := name[49 := 0], vc_type := Type_raw ty variant\<rparr>;
       value_offset \<leftarrow> shm_u32 (m (t + 54)) (int p + 8);
       if value_offset + getValueByteSize (vc_type copy) > variable_values_max_data_size c
       then Some (None, t + 55, c\<lparr>chunk_defs := (chunk_defs c)[chunk := Some (defs[chunk_var_idx := copy])]\<rparr>)
       else do {
         value_offset \<leftarrow> shm_u32 (m (t + 55)) (int p + 8);
         let copy = copy\<lparr>vc_value_ptr := Some (int values_start + value_offset)\<rparr>;
         Some (Some (def_count c), t + 56,
           c\<lparr>chunk_defs := (chunk_defs c)[chunk := Some (defs[chunk_var_idx := copy])], def_count := def_count c + 1\<rparr>)
       }
     }
   }"

primrec refresh_loop ::
  "shm_history \<Rightarrow> VariableProvider \<Rightarrow> nat \<Rightarrow> nat \<Rightarrow> nat \<Rightarrow> VariableDefChunk \<Rightarrow> (nat \<times> VariableDefChunk) option" where
  "refresh_loop m p 0 i t c = Some (t, c)"
| "refresh_loop m p (Suc n) i t c =
     copy_definition m (variable_values_start p) (variable_defs_start p + variable_def_size p * i) t
       (c\<lparr>processed_def_count := processed_def_count c + 1\<rparr>) \<bind> (\<lambda>(var, t, c).
     refresh_loop m p n (i + 1) t (case var of None \<Rightarrow> c | Some v \<Rightarrow> insert_sorted c v))"

text \<open>The result, the time behind it and the provider. \<^verbatim>\<open>var_definition_count\<close> is at the offset 20.\<close>

definition refreshDefinitions :: "shm_history \<Rightarrow> nat \<Rightarrow> VariableProvider \<Rightarrow> (bool \<times> nat \<times> VariableProvider) option" where
  "refreshDefinitions m t p =
     (if \<not> variable_def_header p then None
      else do {
        count \<leftarrow> shm_u32 (m t) 20;
        let var_def_count = min (nat count) (max_variable_def_count p);
        c \<leftarrow> def_chunk p;
        let new_defs = processed_def_count c < var_def_count;
        (t, c) \<leftarrow> refresh_loop m p (var_def_count - processed_def_count c) (processed_def_count c) (t + 1) c;
        Some (new_defs, t, p\<lparr>def_chunk := Some c\<rparr>)
      })"

definition updateDefinitions :: "shm_history \<Rightarrow> nat \<Rightarrow> VariableProvider \<Rightarrow> (bool \<times> nat \<times> VariableProvider) option" where
  "updateDefinitions m t p = refreshDefinitions m t p"

definition new_variable_provider :: VariableProvider where
  "new_variable_provider = \<lparr>def_chunk = None, variable_def_header = False, variable_defs_start = 0, variable_values_start = 0,
     variable_def_size = 0, max_variable_def_count = 0\<rparr>"

text \<open>The block of the values is read once: its offset of the data is at 12. A size 0 of the definitions is
  a division by zero.\<close>

definition vp_initialize ::
  "shm_history \<Rightarrow> nat \<Rightarrow> nat \<Rightarrow> bytes \<Rightarrow> nat \<Rightarrow> VariableProvider \<Rightarrow> (nat \<times> VariableProvider) option" where
  "vp_initialize m t def_shm_buffer_size value_shm value_shm_buffer_size p = do {
     size \<leftarrow> shm_u32 (m t) 16;
     var_def_offset \<leftarrow> shm_u32 (m (t + 1)) 12;
     var_data_offset \<leftarrow> shm_u32 value_shm 12;
     let p = p\<lparr>variable_def_size := nat size\<rparr>;
     if var_def_offset \<ge> int def_shm_buffer_size \<or> var_data_offset \<ge> int value_shm_buffer_size
     then Some (t + 2, p\<lparr>def_chunk := None\<rparr>)
     else if size = 0 then None
     else do {
       let c = new_chunk\<lparr>variable_values_max_data_size := u32 (int def_shm_buffer_size - var_data_offset)\<rparr>;
       let p = p\<lparr>def_chunk := Some c, variable_def_header := True, variable_defs_start := nat var_def_offset,
                 variable_values_start := nat var_data_offset,
                 max_variable_def_count := nat (u32 ((int def_shm_buffer_size - var_def_offset) div size))\<rparr>;
       (new_defs, t, p) \<leftarrow> refreshDefinitions m (t + 2) p;
       Some (t, p)
     }
   }"

section \<open>Definitions handed out\<close>

text \<open>\<^verbatim>\<open>VariableDefinitions\<close>: whether it holds the chunk, and the count; the chunk itself is shared with the
  provider, so its state at the time of a call is an argument of the operations.\<close>

record VariableDefinitions =
  has_chunk :: bool
  vds_count :: nat

record VariableDefinition =
  vd_name :: bytes
  vd_value_ptr :: "int option"
  vd_type :: value_type
  vd_flags :: int
  vd_device :: int

definition no_definition :: VariableDefinition where
  "no_definition = \<lparr>vd_name = [], vd_value_ptr = None, vd_type = Type_default, vd_flags = 0, vd_device = 0\<rparr>"

definition definition_of :: "VariableDefCopy \<Rightarrow> VariableDefinition" where
  "definition_of d = \<lparr>vd_name = vc_getName d, vd_value_ptr = vc_value_ptr d, vd_type = vc_type d, vd_flags = u16 (vc_flags d), vd_device = vc_device d\<rparr>"

text \<open>The constructor dereferences the chunk.\<close>

definition vp_definitions :: "VariableProvider \<Rightarrow> VariableDefinitions option" where
  "vp_definitions p = map_option (\<lambda>c. \<lparr>has_chunk = True, vds_count = def_count c\<rparr>) (def_chunk p)"

text \<open>For definitions of the same provider; \<^verbatim>\<open>same_chunk\<close> is the comparison of the pointers.\<close>

definition haveDefinitionsChanged :: "bool \<Rightarrow> VariableDefinitions \<Rightarrow> VariableProvider \<Rightarrow> bool" where
  "haveDefinitionsChanged same_chunk defs p =
     (if \<not> same_chunk then True
      else vds_count defs \<noteq> (case def_chunk p of None \<Rightarrow> 0 | Some c \<Rightarrow> def_count c))"

definition vds_index :: "VariableDefChunk \<Rightarrow> VariableDefinitions \<Rightarrow> nat \<Rightarrow> VariableDefinition option" where
  "vds_index c defs idx =
     (if \<not> has_chunk defs \<or> idx \<ge> vds_count defs then None
      else map_option definition_of (getDefByIdx c idx))"

primrec find_loop :: "(VariableDefCopy \<Rightarrow> bool) \<Rightarrow> VariableDefChunk \<Rightarrow> nat \<Rightarrow> nat \<Rightarrow> VariableDefCopy option option" where
  "find_loop P c i 0 = Some None"
| "find_loop P c i (Suc n) = do {
     d \<leftarrow> getDefByIdx c i;
     if P d then Some (Some d) else find_loop P c (i + 1) n
   }"

definition find_variable :: "VariableDefChunk \<Rightarrow> VariableDefinitions \<Rightarrow> bytes \<Rightarrow> int \<Rightarrow> VariableDefinition option" where
  "find_variable c defs name device =
     (if \<not> has_chunk defs then Some no_definition
      else do {
        r \<leftarrow> find_loop (\<lambda>d. vc_device d = device \<and> vc_getName d = name) c 0 (def_count c);
        Some (case r of None \<Rightarrow> no_definition | Some d \<Rightarrow> definition_of d)
      })"

definition find_variable_type ::
  "VariableDefChunk \<Rightarrow> VariableDefinitions \<Rightarrow> bytes \<Rightarrow> value_type \<Rightarrow> int \<Rightarrow> VariableDefinition option" where
  "find_variable_type c defs name type device =
     (if \<not> has_chunk defs then Some no_definition
      else do {
        r \<leftarrow> find_loop (\<lambda>d. vc_device d = device \<and> type_eq (vc_type d) type \<and> vc_getName d = name) c 0 (def_count c);
        Some (case r of None \<Rightarrow> no_definition | Some d \<Rightarrow> definition_of d)
      })"

definition findValuePointer ::
  "VariableDefChunk \<Rightarrow> VariableDefinitions \<Rightarrow> value_type \<Rightarrow> bytes \<Rightarrow> int \<Rightarrow> int option option" where
  "findValuePointer c defs type name device =
     (if \<not> has_chunk defs then Some None
      else do {
        r \<leftarrow> find_loop (\<lambda>d. vc_device d = device \<and> vc_getName d = name \<and> type_eq (vc_type d) type) c 0 (def_count c);
        Some (case r of None \<Rightarrow> None | Some d \<Rightarrow> vc_value_ptr d)
      })"

section \<open>Array values\<close>

text \<open>\<^verbatim>\<open>RevisionCountedArrayRef::atomicCopy\<close> for elements of \<^verbatim>\<open>w\<close> bytes: the revision is at the value pointer
  \<^verbatim>\<open>v\<close>, the elements 8 bytes behind it. Every attempt reads the counter, and copies unless its bit 1 is
  set. The result is \<^term>\<open>None\<close> for \<^verbatim>\<open>false\<close>.\<close>

primrec atomicCopy_loop :: "shm_history \<Rightarrow> nat \<Rightarrow> nat \<Rightarrow> nat \<Rightarrow> nat \<Rightarrow> (bytes option \<times> nat) option" where
  "atomicCopy_loop m v n 0 t = Some (None, t)"
| "atomicCopy_loop m v n (Suc k) t =
     shm_u32 (m t) (int v) \<bind> (\<lambda>start_rev_count.
     if bit start_rev_count 1 then atomicCopy_loop m v n k (t + 1)
     else shm_copy m (t + 1) (v + 8) n \<bind> (\<lambda>bs.
       shm_u32 (m (t + 1 + n)) (int v) \<bind> (\<lambda>rev.
       if rev = start_rev_count then Some (Some bs, t + 2 + n)
       else atomicCopy_loop m v n k (t + 2 + n))))"

definition k_copy_timeout :: nat where
  "k_copy_timeout = 100000"

definition atomicCopy :: "shm_history \<Rightarrow> nat \<Rightarrow> nat \<Rightarrow> nat \<Rightarrow> nat \<Rightarrow> nat \<Rightarrow> (bytes option \<times> nat) option" where
  "atomicCopy m v w array_size buf_size t = atomicCopy_loop m v (w * min array_size buf_size) k_copy_timeout t"

text \<open>The overload that returns a vector of the size of the array.\<close>

definition atomicCopy_vector :: "shm_history \<Rightarrow> nat \<Rightarrow> nat \<Rightarrow> nat \<Rightarrow> nat \<Rightarrow> (bytes \<times> nat) option" where
  "atomicCopy_vector m v w array_size t =
     map_option (\<lambda>(r, t). (case r of None \<Rightarrow> [] | Some bs \<Rightarrow> bs, t)) (atomicCopy m v w array_size array_size t)"

end
