(* ===== verification/Variable_Properties.thy ===== *)
theory Variable_Properties
  imports Variables
begin

text \<open>
  What the copies of the published variables promise, as long as the backend keeps the rules of the
  protocol: the number of definitions only grows, and a definition that is counted does not change any
  more, except for its flags. The copies are then the published definitions whose values lie in the
  block, in the order of publication, and the search map is sorted.
\<close>

section \<open>The rules of the backend\<close>

definition count_field :: "bytes \<Rightarrow> nat" where
  "count_field mem = nat (le_int (take 4 (drop 20 mem)))"

definition def_offset :: "VariableProvider \<Rightarrow> nat \<Rightarrow> nat" where
  "def_offset p i = variable_defs_start p + variable_def_size p * i"

definition fixed_fields :: "bytes \<Rightarrow> nat \<Rightarrow> bytes" where
  "fixed_fields mem off = take 60 (drop (off + 4) mem)"

text \<open>Up to the time \<^verbatim>\<open>T\<close>.\<close>

definition append_only :: "shm_history \<Rightarrow> nat \<Rightarrow> VariableProvider \<Rightarrow> bool" where
  "append_only m T p \<longleftrightarrow> (\<forall>t t'. t \<le> t' \<and> t' \<le> T \<longrightarrow> length (m t) = length (m T) \<and> count_field (m t) \<le> count_field (m t') \<and>
     (\<forall>i < min (count_field (m t)) (max_variable_def_count p). fixed_fields (m t') (def_offset p i) = fixed_fields (m T) (def_offset p i)))"

text \<open>The bounds \<^verbatim>\<open>initialize\<close> computes, for definitions of at least the size the code reads.\<close>

definition provider_fits :: "nat \<Rightarrow> VariableProvider \<Rightarrow> bool" where
  "provider_fits n p \<longleftrightarrow> 64 \<le> variable_def_size p \<and> 24 \<le> n \<and>
     variable_defs_start p + variable_def_size p * max_variable_def_count p \<le> n \<and> max_variable_def_count p \<le> 32768"

text \<open>What the block says about a variable, with the flags left out.\<close>

definition published :: "bytes \<Rightarrow> VariableProvider \<Rightarrow> nat \<Rightarrow> VariableDefCopy" where
  "published mem p i = (let off = def_offset p i in
     \<lparr>vc_value_ptr = Some (int (variable_values_start p) + le_int (take 4 (drop (off + 8) mem))),
      vc_type = Type_raw (le_int (take 2 (drop (off + 4) mem))) (le_int (take 2 (drop (off + 6) mem))),
      vc_flags = 0, vc_device = le_int (take 2 (drop (off + 12) mem)), vc_name = (take 50 (drop (off + 14) mem))[49 := 0]\<rparr>)"

text \<open>What the code tests: its bound of the values is computed from the size of the block of the definitions.\<close>

definition in_block :: "int \<Rightarrow> bytes \<Rightarrow> VariableProvider \<Rightarrow> nat \<Rightarrow> bool" where
  "in_block M mem p i \<longleftrightarrow> le_int (take 4 (drop (def_offset p i + 8) mem)) + getValueByteSize (vc_type (published mem p i)) \<le> M"

text \<open>What it means to test: the value lies in the block of the values, which has \<^verbatim>\<open>n\<close> bytes.\<close>

definition value_inside :: "nat \<Rightarrow> bytes \<Rightarrow> VariableProvider \<Rightarrow> nat \<Rightarrow> bool" where
  "value_inside n mem p i \<longleftrightarrow>
     int (variable_values_start p) + le_int (take 4 (drop (def_offset p i + 8) mem)) + getValueByteSize (vc_type (published mem p i)) \<le> int n"

definition unflagged :: "VariableDefCopy \<Rightarrow> VariableDefCopy" where
  "unflagged d = d\<lparr>vc_flags := 0\<rparr>"

section \<open>Reading fields\<close>

lemma rd_field:
  assumes "fixed_fields M off = fixed_fields mem off" "length M = length mem" "off + 64 \<le> length mem" "4 \<le> j" "j + k \<le> 64"
  shows "rd_bytes M (int off + int j) k = Some (take k (drop (off + j) mem))"
proof -
  have f: "take k (drop (off + j) x) = take k (drop (j - 4) (fixed_fields x off))" for x
    using assms(4,5) by (simp add: fixed_fields_def drop_take min_def add.commute)
  have n: "nat (int off + int j) = off + j" "int off + int j + int k \<le> int (length M)" "0 \<le> int off + int j" using assms(2,3,5) by simp_all
  have "take k (drop (off + j) M) = take k (drop (off + j) mem)" unfolding f assms(1) ..
  then show ?thesis unfolding rd_bytes_def n(1) using n(2,3) by simp
qed

lemma nth_field:
  assumes "fixed_fields M off = fixed_fields mem off" "length M = length mem" "off + 64 \<le> length mem" "4 \<le> j" "j < 64"
  shows "M ! (off + j) = mem ! (off + j)"
proof -
  have "x ! (off + j) = fixed_fields x off ! (j - 4)" if "length x = length mem" for x
    using that assms(3-5) by (simp add: fixed_fields_def)
  then show ?thesis using assms(1,2) by simp
qed

lemma shm_copy_same:
  "(\<And>k. k < n \<Longrightarrow> off + k < length (m (t + k)) \<and> m (t + k) ! (off + k) = mem ! (off + k)) \<Longrightarrow> off + n \<le> length mem \<Longrightarrow>
   shm_copy m t off n = Some (take n (drop off mem))"
proof (induction n arbitrary: t off)
  case (Suc n)
  have "shm_copy m (t + 1) (off + 1) n = Some (take n (drop (off + 1) mem))"
  proof (rule Suc.IH)
    fix k assume "k < n"
    then show "off + 1 + k < length (m (t + 1 + k)) \<and> m (t + 1 + k) ! (off + 1 + k) = mem ! (off + 1 + k)"
      using Suc.prems(1) [of "Suc k"] by simp
  qed (use Suc.prems(2) in simp)
  moreover have "take (Suc n) (drop off mem) = mem ! off # take n (drop (off + 1) mem)"
    using Suc.prems(2) by (simp add: Cons_nth_drop_Suc [symmetric])
  ultimately show ?case using Suc.prems(1) [of 0] by simp
qed simp

section \<open>The chunks\<close>

definition chunks_ok :: "VariableDefChunk \<Rightarrow> bool" where
  "chunks_ok c \<longleftrightarrow> length (chunk_defs c) = 32 \<and> def_count c \<le> 32768 \<and>
     (\<forall>j < 32. case chunk_defs c ! j of None \<Rightarrow> True | Some ds \<Rightarrow> length ds = 1024) \<and>
     (\<forall>i < def_count c. chunk_defs c ! (i div 1024) \<noteq> None)"

definition entry :: "VariableDefChunk \<Rightarrow> nat \<Rightarrow> VariableDefCopy" where
  "entry c i = the (getDefByIdx c i)"

definition copies :: "VariableDefChunk \<Rightarrow> VariableDefCopy list" where
  "copies c = map (entry c) [0..<def_count c]"

lemma entry_update [simp]:
  "entry (c\<lparr>def_count := n\<rparr>) = entry c" "entry (c\<lparr>processed_def_count := k\<rparr>) = entry c" "entry (c\<lparr>search_map := xs\<rparr>) = entry c"
  by (simp_all add: entry_def getDefByIdx_def fun_eq_iff)

lemma getDefByIdx_entry: "chunks_ok c \<Longrightarrow> i < def_count c \<Longrightarrow> getDefByIdx c i = Some (entry c i)"
  by (auto simp: chunks_ok_def entry_def getDefByIdx_def k_definitions_in_chunk_def)

text \<open>Writing the slot behind the last entry.\<close>

definition write_slot :: "VariableDefCopy \<Rightarrow> VariableDefChunk \<Rightarrow> VariableDefChunk" where
  "write_slot d c = (let chunk = def_count c div 1024;
      defs = (case chunk_defs c ! chunk of None \<Rightarrow> replicate 1024 empty_copy | Some ds \<Rightarrow> ds)
    in c\<lparr>chunk_defs := (chunk_defs c)[chunk := Some (defs[def_count c mod 1024 := d])]\<rparr>)"

lemma write_slot_ok:
  assumes c: "chunks_ok c" "def_count c < 32768"
  shows "chunks_ok (write_slot d c)" "i < def_count c \<Longrightarrow> entry (write_slot d c) i = entry c i"
    "chunks_ok (write_slot d c\<lparr>def_count := def_count c + 1\<rparr>)" "entry (write_slot d c) (def_count c) = d"
proof -
  have k: "def_count c div 1024 < 32" "def_count c mod 1024 < 1024" using c(2) by (simp_all add: less_mult_imp_div_less)
  have l: "length (case chunk_defs c ! (def_count c div 1024) of None \<Rightarrow> replicate 1024 empty_copy | Some ds \<Rightarrow> ds) = 1024"
    using c(1) k(1) by (auto simp: chunks_ok_def split: option.splits)
  show "chunks_ok (write_slot d c)"
    using c(1) k l unfolding chunks_ok_def write_slot_def Let_def by (auto simp: nth_list_update)
  then show "chunks_ok (write_slot d c\<lparr>def_count := def_count c + 1\<rparr>)"
    using c k by (auto simp: chunks_ok_def write_slot_def Let_def nth_list_update less_Suc_eq)
  show "entry (write_slot d c) (def_count c) = d"
    using c(1) k l by (simp add: entry_def getDefByIdx_def write_slot_def Let_def chunks_ok_def k_definitions_in_chunk_def)
  assume i: "i < def_count c"
  show "entry (write_slot d c) i = entry c i"
  proof (cases "i div 1024 = def_count c div 1024")
    case True
    then have "i mod 1024 \<noteq> def_count c mod 1024" using i by (metis div_mult_mod_eq less_irrefl)
    moreover have "chunk_defs c ! (def_count c div 1024) \<noteq> None" using c(1) i True by (metis chunks_ok_def)
    ultimately show ?thesis using True k c(1) l
      by (auto simp: entry_def getDefByIdx_def write_slot_def Let_def chunks_ok_def k_definitions_in_chunk_def)
  next
    case False
    then show ?thesis using c(1)
      by (simp add: entry_def getDefByIdx_def write_slot_def Let_def chunks_ok_def k_definitions_in_chunk_def)
  qed
qed

section \<open>One definition\<close>

lemma fixed_at:
  assumes "append_only m T p" "t0 \<le> t" "t \<le> T" "i < count_field (m t0)" "i < max_variable_def_count p"
  shows "fixed_fields (m t) (def_offset p i) = fixed_fields (m T) (def_offset p i)" "length (m t) = length (m T)"
  using assms unfolding append_only_def by (metis min_less_iff_conj, metis order_refl)

lemma def_fits:
  assumes "provider_fits n p" "i < max_variable_def_count p"
  shows "def_offset p i + 64 \<le> n"
proof -
  have "variable_def_size p * (i + 1) \<le> variable_def_size p * max_variable_def_count p" using assms(2) by (intro mult_le_mono2) simp
  then show ?thesis using assms(1) by (simp add: provider_fits_def def_offset_def)
qed

lemma copy_definition_spec:
  assumes A: "append_only m T p" and F: "provider_fits (length (m T)) p"
    and i: "i < count_field (m t0)" "i < max_variable_def_count p" and t: "t0 \<le> t" "t + 56 \<le> T"
    and c: "chunks_ok c" "def_count c < 32768"
  defines "mem \<equiv> m T" and "b \<equiv> in_block (variable_values_max_data_size c) (m T) p i"
  shows "\<exists>d t'. copy_definition m (variable_values_start p) (def_offset p i) t c =
      Some (if b then Some (def_count c) else None, t', if b then write_slot d c\<lparr>def_count := def_count c + 1\<rparr> else write_slot d c) \<and>
    t \<le> t' \<and> t' \<le> t + 56 \<and> (b \<longrightarrow> unflagged d = published mem p i)"
proof -
  let ?off = "def_offset p i"
  have o: "?off + 64 \<le> length mem" unfolding mem_def by (rule def_fits [OF F i(2)])
  have fx: "fixed_fields (m (t + k)) ?off = fixed_fields mem ?off" "length (m (t + k)) = length mem" if "k < 56" for k
    using fixed_at [OF A _ _ i, of "t + k"] that t by (simp_all add: mem_def)
  have rd: "rd_bytes (m (t + k)) (int ?off + int j) n = Some (take n (drop (?off + j) mem))" if "k < 56" "4 \<le> j" "j + n \<le> 64" for k j n
    using rd_field [OF fx [OF that(1)] o that(2,3)] .
  have r1: "shm_u16 (m t) (int ?off + 12) = Some (le_int (take 2 (drop (?off + 12) mem)))" using rd [of 0 12 2] by (simp add: shm_u16_def)
  have r2: "shm_u16 (m (t + 52)) (int ?off + 4) = Some (le_int (take 2 (drop (?off + 4) mem)))" using rd [of 52 4 2] by (simp add: shm_u16_def)
  have r3: "shm_u16 (m (t + 53)) (int ?off + 6) = Some (le_int (take 2 (drop (?off + 6) mem)))" using rd [of 53 6 2] by (simp add: shm_u16_def)
  have r4: "shm_u32 (m (t + 54)) (int ?off + 8) = Some (le_int (take 4 (drop (?off + 8) mem)))" using rd [of 54 8 4] by (simp add: shm_u32_def)
  have r5: "shm_u32 (m (t + 55)) (int ?off + 8) = Some (le_int (take 4 (drop (?off + 8) mem)))" using rd [of 55 8 4] by (simp add: shm_u32_def)
  obtain flags where r6: "shm_u32 (m (t + 1)) (int ?off) = Some flags"
    using rd_bytes_Some [of "int ?off" 4 "m (t + 1)"] fx(2) [of 1] o by (auto simp: shm_u32_def)
  have r7: "shm_copy m (t + 2) (?off + 14) 50 = Some (take 50 (drop (?off + 14) mem))"
  proof (rule shm_copy_same)
    fix k :: nat assume k: "k < 50"
    have x: "t + 2 + k = t + (k + 2)" "?off + 14 + k = ?off + (k + 14)" by simp_all
    have k2: "k + 2 < 56" "4 \<le> k + 14" "k + 14 < 64" using k by simp_all
    show "?off + 14 + k < length (m (t + 2 + k)) \<and> m (t + 2 + k) ! (?off + 14 + k) = mem ! (?off + 14 + k)"
      unfolding x using nth_field [OF fx [OF k2(1)] o k2(2,3)] fx(2) [OF k2(1)] o k by simp
  qed (use o in simp)
  have ch: "\<not> def_count c div 1024 \<ge> 32" using c(2) by (simp add: less_mult_imp_div_less)
  let ?ds = "case chunk_defs c ! (def_count c div 1024) of None \<Rightarrow> replicate 1024 empty_copy | Some ds \<Rightarrow> ds"
  let ?vo = "le_int (take 4 (drop (?off + 8) mem))"
  let ?d = "(?ds ! (def_count c mod 1024))\<lparr>vc_device := le_int (take 2 (drop (?off + 12) mem)), vc_flags := flags,
     vc_name := (take 50 (drop (?off + 14) mem))[49 := 0], vc_type := Type_raw (le_int (take 2 (drop (?off + 4) mem))) (le_int (take 2 (drop (?off + 6) mem)))\<rparr>"
  have bb: "b = (\<not> ?vo + getValueByteSize (vc_type ?d) > variable_values_max_data_size c)"
    by (simp add: b_def in_block_def published_def Let_def mem_def not_less)
  have cd: "copy_definition m (variable_values_start p) ?off t c =
     (if ?vo + getValueByteSize (vc_type ?d) > variable_values_max_data_size c then Some (None, t + 55, write_slot ?d c)
      else Some (Some (def_count c), t + 56, write_slot (?d\<lparr>vc_value_ptr := Some (int (variable_values_start p) + ?vo)\<rparr>) c\<lparr>def_count := def_count c + 1\<rparr>))"
    unfolding copy_definition_def k_definitions_in_chunk_def k_chunk_count_def Let_def if_not_P [OF ch] r1 r2 r3 r4 r5 r6 r7 bind.bind_lunit write_slot_def
    by simp
  show ?thesis
  proof (cases b)
    case True
    then show ?thesis unfolding cd using bb
      by (intro exI [of _ "?d\<lparr>vc_value_ptr := Some (int (variable_values_start p) + ?vo)\<rparr>"] exI [of _ "t + 56"]) (simp add: unflagged_def published_def Let_def)
  next
    case False
    then show ?thesis unfolding cd using bb by (intro exI [of _ ?d] exI [of _ "t + 55"]) simp
  qed
qed

section \<open>The search map\<close>

lemma cmp_irrefl: "\<not> searchMapSortCmp a a"
  by (simp add: searchMapSortCmp_def lexordp_irreflexive')

lemma cmp_asym: "searchMapSortCmp a b \<Longrightarrow> \<not> searchMapSortCmp b a"
  using lexordp_antisym [of "vc_getName a" "vc_getName b"] by (auto simp: searchMapSortCmp_def split: if_splits)

lemma cmp_cotrans: "searchMapSortCmp a c \<Longrightarrow> searchMapSortCmp a b \<or> searchMapSortCmp b c"
  using lexordp_linear [of "vc_getName a" "vc_getName b"] lexordp_trans [of "vc_getName b" "vc_getName a" "vc_getName c"]
  by (auto simp: searchMapSortCmp_def split: if_splits)

lemma insert_sorted_wrt:
  assumes "\<And>a b. lt a b \<Longrightarrow> \<not> lt b a" "\<And>a b c. lt a c \<Longrightarrow> lt a b \<or> lt b c" "sorted_wrt (\<lambda>a b. \<not> lt b a) xs"
  shows "sorted_wrt (\<lambda>a b. \<not> lt b a) (take (lower_bound lt xs v) xs @ [v] @ drop (lower_bound lt xs v) xs)"
proof -
  let ?P = "\<lambda>x. lt x v"
  have td: "take (lower_bound lt xs v) xs = takeWhile ?P xs" "drop (lower_bound lt xs v) xs = dropWhile ?P xs"
    by (simp_all add: lower_bound_def takeWhile_eq_take [symmetric] dropWhile_eq_drop [symmetric])
  have s: "sorted_wrt (\<lambda>a b. \<not> lt b a) (takeWhile ?P xs @ dropWhile ?P xs)" using assms(3) by simp
  have h: "\<not> lt y v" if "y \<in> set (dropWhile ?P xs)" for y
  proof (cases "dropWhile ?P xs")
    case (Cons z zs)
    then have z: "\<not> lt z v" by (metis hd_dropWhile list.distinct(1) list.sel(1))
    have "y = z \<or> \<not> lt y z" using that Cons s by (auto simp: sorted_wrt_append)
    then show ?thesis using z assms(2) by blast
  next
    case Nil
    have "y \<in> set []" using that unfolding Nil .
    then show ?thesis by simp
  qed
  have l: "\<not> lt v x" if "x \<in> set (takeWhile ?P xs)" for x using that assms(1) set_takeWhileD by metis
  have "sorted_wrt (\<lambda>a b. \<not> lt b a) (A @ [v] @ B)"
    if "sorted_wrt (\<lambda>a b. \<not> lt b a) (A @ B)" "\<And>y. y \<in> set B \<Longrightarrow> \<not> lt y v" "\<And>x. x \<in> set A \<Longrightarrow> \<not> lt v x" for A B
    using that by (simp add: sorted_wrt_append)
  from this [OF s h l] show ?thesis unfolding td by blast
qed

definition map_sorted :: "VariableDefChunk \<Rightarrow> bool" where
  "map_sorted c \<longleftrightarrow> mset (search_map c) = mset [0..<def_count c] \<and> sorted_wrt (\<lambda>i j. \<not> searchMapSortCmp (entry c j) (entry c i)) (search_map c)"

lemma lower_bound_cong: "(\<And>x. x \<in> set xs \<Longrightarrow> f x v = g x v) \<Longrightarrow> lower_bound f xs v = lower_bound g xs v"
  unfolding lower_bound_def by (metis (mono_tags, lifting) takeWhile_cong)

lemma insert_entry:
  assumes c: "chunks_ok c" "def_count c < 32768" "map_sorted c"
  shows "map_sorted (insert_sorted (write_slot d c\<lparr>def_count := def_count c + 1\<rparr>) (def_count c))"
proof -
  let ?c = "write_slot d c\<lparr>def_count := def_count c + 1\<rparr>" and ?n = "def_count c"
  let ?e = "\<lambda>i j. searchMapSortCmp (entry ?c i) (entry ?c j)"
  have n: "def_count ?c = ?n + 1" "search_map ?c = search_map c" by (simp_all add: write_slot_def Let_def)
  have set: "set (search_map c) = {0..<?n}" using c(3) unfolding map_sorted_def by (metis set_mset_mset set_upt)
  have e: "entry ?c i = entry c i" if "i < ?n" for i
    using write_slot_ok(2) [OF c(1,2) that, of d] by simp
  have lb: "lower_bound (map_less ?c) (search_map c) ?n = lower_bound ?e (search_map c) ?n"
  proof (rule lower_bound_cong)
    fix i assume "i \<in> set (search_map c)"
    then have "i < def_count ?c" "?n < def_count ?c" using set n by auto
    then show "map_less ?c i ?n = ?e i ?n"
      using getDefByIdx_entry [OF write_slot_ok(3) [OF c(1,2)], of _ d] by (simp add: map_less_def)
  qed
  have "sorted_wrt (\<lambda>i j. \<not> ?e j i) (search_map c)"
    using c(3) set e unfolding map_sorted_def by (auto intro: sorted_wrt_mono_rel [rotated])
  then have "sorted_wrt (\<lambda>i j. \<not> ?e j i) (take (lower_bound ?e (search_map c) ?n) (search_map c) @ [?n] @ drop (lower_bound ?e (search_map c) ?n) (search_map c))"
    by (intro insert_sorted_wrt) (auto dest: cmp_asym cmp_cotrans)
  moreover have "mset (take k (search_map c) @ [?n] @ drop k (search_map c)) = mset [0..<?n + 1]" for k
  proof -
    have "mset (take k (search_map c)) + mset (drop k (search_map c)) = mset (search_map c)" by (metis append_take_drop_id mset_append)
    then show ?thesis using c(3) by (simp add: map_sorted_def)
  qed
  moreover have "insert_sorted ?c ?n = ?c\<lparr>search_map := take (lower_bound ?e (search_map c) ?n) (search_map c) @ [?n] @ drop (lower_bound ?e (search_map c) ?n) (search_map c)\<rparr>"
    by (simp only: insert_sorted_def n lb Let_def)
  moreover have "search_map (?c\<lparr>search_map := L\<rparr>) = L" "def_count (?c\<lparr>search_map := L\<rparr>) = ?n + 1" "entry (?c\<lparr>search_map := L\<rparr>) = entry ?c" for L by simp_all
  ultimately show ?thesis unfolding map_sorted_def by (simp only: simp_thms)
qed

section \<open>Refreshing\<close>

definition var_inv :: "bytes \<Rightarrow> VariableProvider \<Rightarrow> VariableDefChunk \<Rightarrow> bool" where
  "var_inv mem p c \<longleftrightarrow> chunks_ok c \<and> map_sorted c \<and>
     map unflagged (copies c) = map (published mem p) (filter (in_block (variable_values_max_data_size c) mem p) [0..<processed_def_count c])"

lemma var_inv_count: "var_inv mem p c \<Longrightarrow> def_count c \<le> processed_def_count c"
  unfolding var_inv_def using length_filter_le [of _ "[0..<processed_def_count c]"]
  by (metis copies_def diff_zero length_map length_upt)

text \<open>One round of the loop.\<close>

lemma refresh_step:
  assumes A: "append_only m T p" and F: "provider_fits (length (m T)) p" and i: "i < count_field (m t0)" "i < max_variable_def_count p"
    and t: "t0 \<le> t" "t + 56 \<le> T" and c: "var_inv (m T) p c" "processed_def_count c = i"
  shows "\<exists>var t' c'. copy_definition m (variable_values_start p) (def_offset p i) t (c\<lparr>processed_def_count := processed_def_count c + 1\<rparr>) = Some (var, t', c') \<and>
    t \<le> t' \<and> t' \<le> t + 56 \<and> var_inv (m T) p (case var of None \<Rightarrow> c' | Some v \<Rightarrow> insert_sorted c' v) \<and>
    processed_def_count (case var of None \<Rightarrow> c' | Some v \<Rightarrow> insert_sorted c' v) = i + 1 \<and>
    variable_values_max_data_size (case var of None \<Rightarrow> c' | Some v \<Rightarrow> insert_sorted c' v) = variable_values_max_data_size c"
proof -
  let ?c = "c\<lparr>processed_def_count := processed_def_count c + 1\<rparr>" and ?M = "variable_values_max_data_size c"
  let ?b = "in_block ?M (m T) p i"
  have ok: "chunks_ok ?c" "def_count ?c < 32768" "map_sorted ?c" "chunks_ok c" "def_count c < 32768"
    using c i(2) F var_inv_count [OF c(1)] by (auto simp: var_inv_def provider_fits_def chunks_ok_def map_sorted_def)
  have simps: "def_count ?c = def_count c" "variable_values_max_data_size ?c = ?M" by simp_all
  obtain d t' where d: "copy_definition m (variable_values_start p) (def_offset p i) t ?c =
      Some (if ?b then Some (def_count c) else None, t', if ?b then write_slot d ?c\<lparr>def_count := def_count c + 1\<rparr> else write_slot d ?c)"
    "t \<le> t' \<and> t' \<le> t + 56" "?b \<longrightarrow> unflagged d = published (m T) p i"
    using copy_definition_spec [OF A F i t ok(1,2), unfolded simps] by blast
  have w: "def_count (write_slot d ?c) = def_count c" "processed_def_count (write_slot d ?c) = i + 1" "search_map (write_slot d ?c) = search_map c"
    "variable_values_max_data_size (write_slot d ?c) = ?M"
    using c(2) by (simp_all add: write_slot_def Let_def)
  have e: "entry (write_slot d ?c) j = entry c j" if "j < def_count c" for j
    using write_slot_ok(2) [OF ok(1,2), of j d] that by simp
  have cp: "copies c = map (entry (write_slot d ?c)) [0..<def_count c]" using e by (simp add: copies_def)
  have old: "map unflagged (copies c) = map (published (m T) p) (filter (in_block ?M (m T) p) [0..<i])" using c by (simp add: var_inv_def)
  show ?thesis
  proof (cases ?b)
    case True
    let ?c' = "write_slot d ?c\<lparr>def_count := def_count c + 1\<rparr>"
    have m: "map_sorted (insert_sorted ?c' (def_count c))" using insert_entry [OF ok(1-3), of d] by simp
    have ch: "chunks_ok (insert_sorted ?c' (def_count c))"
      using write_slot_ok(3) [OF ok(1,2), of d] by (simp add: insert_sorted_def chunks_ok_def Let_def)
    have "copies (insert_sorted ?c' (def_count c)) = copies c @ [d]"
      unfolding cp using write_slot_ok(4) [OF ok(1,2), of d] by (simp add: copies_def insert_sorted_def Let_def)
    then have "var_inv (m T) p (insert_sorted ?c' (def_count c))"
      using m ch old True d(3) w by (simp add: var_inv_def insert_sorted_def Let_def)
    then show ?thesis using d(1,2) True w by (auto simp: insert_sorted_def Let_def)
  next
    case False
    have "map_sorted (write_slot d ?c)"
    proof -
      have s: "set (search_map c) = {0..<def_count c}" using c(1) unfolding var_inv_def map_sorted_def by (metis set_mset_mset set_upt)
      have "sorted_wrt (\<lambda>i j. \<not> searchMapSortCmp (entry (write_slot d ?c) j) (entry (write_slot d ?c) i)) (search_map c)"
        by (rule sorted_wrt_mono_rel [of _ "\<lambda>i j. \<not> searchMapSortCmp (entry c j) (entry c i)"]) (use c(1) s e in \<open>auto simp: var_inv_def map_sorted_def\<close>)
      then show ?thesis using c(1) w by (simp add: map_sorted_def var_inv_def)
    qed
    moreover have "copies (write_slot d ?c) = copies c" using w(1) cp by (simp add: copies_def)
    ultimately have "var_inv (m T) p (write_slot d ?c)"
      using write_slot_ok(1) [OF ok(1,2), of d] old False w by (simp add: var_inv_def)
    then show ?thesis using d(1,2) False w by auto
  qed
qed

lemma refresh_loop_spec:
  assumes A: "append_only m T p" and F: "provider_fits (length (m T)) p"
  shows "var_inv (m T) p c \<Longrightarrow> processed_def_count c = i \<Longrightarrow> i + n \<le> count_field (m t0) \<Longrightarrow> i + n \<le> max_variable_def_count p \<Longrightarrow>
    t0 \<le> t \<Longrightarrow> t + 56 * n \<le> T \<Longrightarrow>
    \<exists>t' c'. refresh_loop m p n i t c = Some (t', c') \<and> t' \<le> t + 56 * n \<and> var_inv (m T) p c' \<and> processed_def_count c' = i + n \<and>
      variable_values_max_data_size c' = variable_values_max_data_size c"
proof (induction n arbitrary: i t c)
  case (Suc n)
  have il: "i < count_field (m t0)" "i < max_variable_def_count p" "t + 56 \<le> T" using Suc.prems by simp_all
  from refresh_step [OF A F il(1,2) Suc.prems(5) il(3) Suc.prems(1,2)] obtain var t1 c1 where
    s: "copy_definition m (variable_values_start p) (def_offset p i) t (c\<lparr>processed_def_count := processed_def_count c + 1\<rparr>) = Some (var, t1, c1)" "t \<le> t1 \<and> t1 \<le> t + 56"
    and inv: "var_inv (m T) p (case var of None \<Rightarrow> c1 | Some v \<Rightarrow> insert_sorted c1 v)"
      "processed_def_count (case var of None \<Rightarrow> c1 | Some v \<Rightarrow> insert_sorted c1 v) = i + 1"
      "variable_values_max_data_size (case var of None \<Rightarrow> c1 | Some v \<Rightarrow> insert_sorted c1 v) = variable_values_max_data_size c" by blast
  let ?c = "case var of None \<Rightarrow> c1 | Some v \<Rightarrow> insert_sorted c1 v"
  have l: "i + 1 + n \<le> count_field (m t0)" "i + 1 + n \<le> max_variable_def_count p" "t0 \<le> t1" "t1 + 56 * n \<le> T"
    using Suc.prems s(2) by simp_all
  from Suc.IH [OF inv(1,2) l] obtain t' c' where
    r: "refresh_loop m p n (i + 1) t1 ?c = Some (t', c')" "t' \<le> t1 + 56 * n" "var_inv (m T) p c'" "processed_def_count c' = i + 1 + n"
      "variable_values_max_data_size c' = variable_values_max_data_size ?c" by blast
  have "refresh_loop m p (Suc n) i t c = Some (t', c')"
    using s(1) r(1) by (simp add: def_offset_def)
  then show ?case using r(2-5) s(2) inv(3) by auto
next
  case 0
  then show ?case by auto
qed

lemma published_chunk [simp]:
  "def_offset (p\<lparr>def_chunk := x\<rparr>) = def_offset p" "published mem (p\<lparr>def_chunk := x\<rparr>) = published mem p"
  by (simp_all add: fun_eq_iff published_def def_offset_def)

lemma provider_chunk [simp]:
  "in_block M mem (p\<lparr>def_chunk := x\<rparr>) = in_block M mem p" "append_only m T (p\<lparr>def_chunk := x\<rparr>) = append_only m T p"
  "provider_fits n (p\<lparr>def_chunk := x\<rparr>) = provider_fits n p"
  by (simp_all add: fun_eq_iff in_block_def append_only_def provider_fits_def)

lemma var_inv_chunk [simp]: "var_inv mem (p\<lparr>def_chunk := x\<rparr>) = var_inv mem p"
  by (simp add: fun_eq_iff var_inv_def)

lemma refresh_spec:
  assumes A: "append_only m T p" and F: "provider_fits (length (m T)) p" and h: "variable_def_header p" "def_chunk p = Some c"
    and c: "var_inv (m T) p c" and t: "t + 2000000 \<le> T"
  shows "\<exists>t' c'. refreshDefinitions m t p = Some (processed_def_count c < min (count_field (m t)) (max_variable_def_count p), t', p\<lparr>def_chunk := Some c'\<rparr>) \<and>
    var_inv (m T) p c' \<and> processed_def_count c' = max (processed_def_count c) (min (count_field (m t)) (max_variable_def_count p)) \<and>
    variable_values_max_data_size c' = variable_values_max_data_size c"
proof -
  have "length (m t) = length (m T)" using A t unfolding append_only_def by (metis add_leD1 order_refl)
  then have l: "24 \<le> length (m t)" using F by (simp add: provider_fits_def)
  have cnt: "shm_u32 (m t) 20 = Some (le_int (take 4 (drop 20 (m t))))" using l by (simp add: shm_u32_def rd_bytes_def)
  define N where "N = min (count_field (m t)) (max_variable_def_count p)"
  have N: "N \<le> 32768" "N \<le> count_field (m t)" "N \<le> max_variable_def_count p" using F by (auto simp: N_def provider_fits_def)
  let ?n = "N - processed_def_count c"
  show ?thesis
  proof (cases "processed_def_count c \<le> N")
    case True
    have "processed_def_count c + ?n \<le> count_field (m t)" "processed_def_count c + ?n \<le> max_variable_def_count p" "t \<le> t + 1" "t + 1 + 56 * ?n \<le> T"
      using N t True by simp_all
    from refresh_loop_spec [OF A F c refl this] obtain t' c' where
      r: "refresh_loop m p ?n (processed_def_count c) (t + 1) c = Some (t', c')" "var_inv (m T) p c'" "processed_def_count c' = processed_def_count c + ?n"
        "variable_values_max_data_size c' = variable_values_max_data_size c" by blast
    have "refreshDefinitions m t p = Some (processed_def_count c < N, t', p\<lparr>def_chunk := Some c'\<rparr>)"
      using h cnt r(1) by (simp add: refreshDefinitions_def count_field_def [symmetric] N_def Let_def)
    then show ?thesis using r(2-4) True unfolding N_def [symmetric] by (intro exI [of _ t'] exI [of _ c']) simp
  next
    case False
    then have "min (count_field (m t)) (max_variable_def_count p) - processed_def_count c = 0" unfolding N_def by linarith
    then have "refreshDefinitions m t p = Some (processed_def_count c < N, t + 1, p\<lparr>def_chunk := Some c\<rparr>)"
      using h cnt by (simp add: refreshDefinitions_def count_field_def [symmetric] N_def Let_def)
    then show ?thesis using c False unfolding N_def [symmetric] by (intro exI [of _ "t + 1"] exI [of _ c]) simp
  qed
qed

primrec run_updates :: "shm_history \<Rightarrow> nat list \<Rightarrow> VariableProvider \<Rightarrow> (bool list \<times> VariableProvider) option" where
  "run_updates m [] p = Some ([], p)"
| "run_updates m (t # ts) p = do {
     (b, t', p) \<leftarrow> updateDefinitions m t p;
     (bs, p) \<leftarrow> run_updates m ts p;
     Some (b # bs, p)
   }"

text \<open>The number of definitions known after updates at the times \<^verbatim>\<open>us\<close>.\<close>

definition known :: "shm_history \<Rightarrow> nat \<Rightarrow> nat list \<Rightarrow> nat \<Rightarrow> nat" where
  "known m limit us n = fold (\<lambda>u n. max n (min (count_field (m u)) limit)) us n"

lemma run_updates_spec:
  assumes A: "append_only m T p0" and F: "provider_fits (length (m T)) p0"
  shows "p = p0\<lparr>def_chunk := Some c\<rparr> \<Longrightarrow> variable_def_header p0 \<Longrightarrow> var_inv (m T) p0 c \<Longrightarrow> \<forall>u\<in>set us. u + 2000000 \<le> T \<Longrightarrow>
    \<exists>bs c'. run_updates m us p = Some (bs, p0\<lparr>def_chunk := Some c'\<rparr>) \<and> var_inv (m T) p0 c' \<and>
      processed_def_count c' = known m (max_variable_def_count p0) us (processed_def_count c) \<and>
      variable_values_max_data_size c' = variable_values_max_data_size c"
proof (induction us arbitrary: p c)
  case Nil
  then show ?case by (intro exI [of _ "[]"] exI [of _ c]) (simp add: known_def)
next
  case (Cons u us)
  have pre: "append_only m T p" "provider_fits (length (m T)) p" "variable_def_header p" "def_chunk p = Some c" "var_inv (m T) p c" "u + 2000000 \<le> T"
    using A F Cons.prems by simp_all
  from refresh_spec [OF pre] obtain b t' c1 where
    r: "refreshDefinitions m u p = Some (b, t', p\<lparr>def_chunk := Some c1\<rparr>)" "var_inv (m T) p c1"
      "processed_def_count c1 = max (processed_def_count c) (min (count_field (m u)) (max_variable_def_count p))"
      "variable_values_max_data_size c1 = variable_values_max_data_size c" by blast
  have p1: "p\<lparr>def_chunk := Some c1\<rparr> = p0\<lparr>def_chunk := Some c1\<rparr>" "var_inv (m T) p0 c1" using Cons.prems(1) r(2) by simp_all
  have "\<forall>u\<in>set us. u + 2000000 \<le> T" using Cons.prems(4) by simp
  from Cons.IH [OF p1(1) Cons.prems(2) p1(2) this] obtain bs c' where
    "run_updates m us (p\<lparr>def_chunk := Some c1\<rparr>) = Some (bs, p0\<lparr>def_chunk := Some c'\<rparr>)" "var_inv (m T) p0 c'"
    "processed_def_count c' = known m (max_variable_def_count p0) us (processed_def_count c1)" "variable_values_max_data_size c' = variable_values_max_data_size c1"
    by blast
  then show ?case using r(1,3,4) Cons.prems(1) by (intro exI [of _ "b # bs"] exI [of _ c']) (simp add: updateDefinitions_def known_def)
qed

section \<open>Lookups\<close>

lemma find_loop_spec:
  assumes "chunks_ok c"
  shows "i + n \<le> def_count c \<Longrightarrow> find_loop P c i n = Some (find P (map (entry c) [i..<i + n]))"
proof (induction n arbitrary: i)
  case (Suc n)
  have "getDefByIdx c i = Some (entry c i)" using getDefByIdx_entry [OF assms] Suc.prems by simp
  moreover have "[i..<i + Suc n] = i # [i + 1..<i + 1 + n]" by (simp add: upt_conv_Cons del: upt_Suc)
  ultimately show ?case using Suc.IH [of "i + 1"] Suc.prems by (simp del: upt_Suc)
qed simp

lemma find_unflagged:
  assumes "\<And>d. P (unflagged d) = P d"
  shows "find P (map unflagged xs) = map_option unflagged (find P xs)"
  using assms by (induction xs) simp_all

lemma findValuePointer_spec:
  assumes "chunks_ok c" "map unflagged (copies c) = ds"
  shows "findValuePointer c \<lparr>has_chunk = True, vds_count = k\<rparr> type name device =
    Some (case find (\<lambda>d. vc_device d = device \<and> vc_getName d = name \<and> type_eq (vc_type d) type) ds of None \<Rightarrow> None | Some d \<Rightarrow> vc_value_ptr d)"
proof -
  let ?P = "\<lambda>d. vc_device d = device \<and> vc_getName d = name \<and> type_eq (vc_type d) type"
  have "find_loop ?P c 0 (def_count c) = Some (find ?P (copies c))"
    using find_loop_spec [OF assms(1), of 0 "def_count c" ?P] by (simp add: copies_def)
  moreover have "find ?P ds = map_option unflagged (find ?P (copies c))"
    unfolding assms(2) [symmetric] by (rule find_unflagged) (simp add: unflagged_def vc_getName_def)
  ultimately show ?thesis by (cases "find ?P (copies c)") (simp_all add: findValuePointer_def unflagged_def)
qed

section \<open>Arrays\<close>

lemma shm_copy_quiet:
  "(\<And>u. x \<le> u \<Longrightarrow> u < x + j \<Longrightarrow> m u = M) \<Longrightarrow> shm_copy m x y j = Some ds \<Longrightarrow> length ds = j \<and> ds = take j (drop y M)"
proof (induction j arbitrary: x y ds)
  case (Suc j)
  have "m x = M" using Suc.prems(1) [of x] by simp
  then obtain ds' where ds: "y < length M" "ds = M ! y # ds'" "shm_copy m (x + 1) (y + 1) j = Some ds'"
    using Suc.prems(2) by (auto split: if_splits)
  have "length ds' = j \<and> ds' = take j (drop (y + 1) M)" by (rule Suc.IH [OF _ ds(3)]) (use Suc.prems(1) in simp)
  moreover have "take (Suc j) (drop y M) = M ! y # take j (drop (y + 1) M)" using ds(1) by (simp add: Cons_nth_drop_Suc [symmetric])
  ultimately show ?case unfolding ds(2) by (metis length_Cons)
qed simp

text \<open>A copy is consistent if the block does not change while the counter, with bit 1 clear, stays the
  same.\<close>

lemma array_copy_consistent:
  assumes quiet: "\<And>t1 t2 r. t1 \<le> t2 \<Longrightarrow> shm_u32 (m t1) (int v) = Some r \<Longrightarrow> shm_u32 (m t2) (int v) = Some r \<Longrightarrow> \<not> bit r 1 \<Longrightarrow>
      (\<forall>u. t1 \<le> u \<and> u \<le> t2 \<longrightarrow> m u = m t1)"
  shows "atomicCopy_loop m v n k t = Some (Some bs, t') \<Longrightarrow> \<exists>u. t \<le> u \<and> u < t' \<and> bs = take n (drop (v + 8) (m u)) \<and> length bs = n"
proof (induction k arbitrary: t)
  case (Suc k)
  obtain r where r: "shm_u32 (m t) (int v) = Some r" using Suc.prems by (cases "shm_u32 (m t) (int v)") simp_all
  have ih: "\<exists>u. t \<le> u \<and> u < t' \<and> bs = take n (drop (v + 8) (m u)) \<and> length bs = n"
    if "atomicCopy_loop m v n k x = Some (Some bs, t')" "t \<le> x" for x using Suc.IH [OF that(1)] le_trans [OF that(2)] by blast
  show ?case
  proof (cases "bit r 1")
    case True
    then show ?thesis using Suc.prems r ih [of "t + 1"] by simp
  next
    case False
    obtain cs where cs: "shm_copy m (t + 1) (v + 8) n = Some cs" using Suc.prems r False by (cases "shm_copy m (t + 1) (v + 8) n") simp_all
    obtain r2 where r2: "shm_u32 (m (t + 1 + n)) (int v) = Some r2" using Suc.prems r False cs by (cases "shm_u32 (m (t + 1 + n)) (int v)") simp_all
    show ?thesis
    proof (cases "r2 = r")
      case same: True
      have r3: "shm_u32 (m (t + 1 + n)) (int v) = Some r" "t \<le> t + 1 + n" using r2 by (simp_all add: same)
      from quiet [OF r3(2) r r3(1) False] have q: "m u = m t" if "t \<le> u" "u \<le> t + 1 + n" for u using that by blast
      have c: "length cs = n \<and> cs = take n (drop (v + 8) (m t))"
        by (rule shm_copy_quiet [OF _ cs]) (rule q, simp_all)
      have e: "bs = cs" "t' = t + 2 + n" using Suc.prems r False cs r2 same by simp_all
      have "t \<le> t" "t < t'" using e(2) by simp_all
      then show ?thesis using c unfolding e(1) by blast
    next
      case diff: False
      then have "atomicCopy_loop m v n k (t + 2 + n) = Some (Some bs, t')" using Suc.prems r False cs r2 by simp
      then show ?thesis by (rule ih) simp
    qed
  qed
qed simp

text \<open>The protocol of the shared memory blocks marks data that is being modified by an odd counter. With the
  counter 1, and a writer that changes both elements in between, the copy is accepted, and mixed.\<close>

definition torn_history :: shm_history where
  "torn_history t = le_bytes 4 1 @ [0, 0, 0, 0] @ (if t \<le> 1 then [1, 1] else [2, 2])"

lemma array_copy_torn: "atomicCopy torn_history 0 1 2 2 0 = Some (Some [1, 2], 4)"
  by (simp add: atomicCopy_def k_copy_timeout_def torn_history_def shm_u32_def rd_bytes_def numeral_2_eq_2 le_int_le_bytes nth_append
      atomicCopy_loop.simps(2) [of _ _ _ 99999, simplified])

section \<open>Properties\<close>

text \<open>A provider after \<^verbatim>\<open>initialize\<close> has computed the bounds.\<close>

definition initial_provider :: "nat \<Rightarrow> nat \<Rightarrow> nat \<Rightarrow> nat \<Rightarrow> VariableProvider" where
  "initial_provider n sz def_off data_off = \<lparr>def_chunk = Some (new_chunk\<lparr>variable_values_max_data_size := u32 (int n - int data_off)\<rparr>),
     variable_def_header = True, variable_defs_start = def_off, variable_values_start = data_off, variable_def_size = sz,
     max_variable_def_count = (n - def_off) div sz\<rparr>"

lemma initial_fits:
  assumes "64 \<le> s" "24 \<le> n" "off < n" "(n - off) div s \<le> 32768"
  shows "provider_fits n (initial_provider n s off d)"
proof -
  have "s * ((n - off) div s) \<le> n - off" by simp
  then have "off + s * ((n - off) div s) \<le> n" using assms(3) by linarith
  then show ?thesis using assms by (simp add: provider_fits_def initial_provider_def)
qed

lemma initial_inv: "var_inv mem p (new_chunk\<lparr>variable_values_max_data_size := x\<rparr>)"
  by (simp add: var_inv_def chunks_ok_def new_chunk_def map_sorted_def copies_def k_chunk_count_def)

lemma initialize_spec:
  assumes "shm_u32 (m t) 16 = Some (int s)" "shm_u32 (m (t + 1)) 12 = Some (int off)" "shm_u32 value_shm 12 = Some (int d)"
    "off < n" "d < length value_shm" "0 < s" "n < 2 ^ 32"
  shows "vp_initialize m t n value_shm (length value_shm) new_variable_provider =
    map_option (\<lambda>(b, t, p). (t, p)) (refreshDefinitions m (t + 2) (initial_provider n s off d))"
proof -
  have "(int n - int off) div int s = int ((n - off) div s)" using assms(4) by (simp add: zdiv_int of_nat_diff)
  moreover have "(n - off) div s < 2 ^ 32" using assms(7) by (meson div_le_dividend diff_le_self le_trans le_less_trans)
  ultimately have m: "nat (u32 ((int n - int off) div int s)) = (n - off) div s" by (simp add: u32_def nat_mod_distrib)
  show ?thesis using assms(1-6) m
    by (auto simp: vp_initialize_def initial_provider_def new_variable_provider_def Let_def split: option.splits Option.bind_split)
qed

text \<open>The two tests agree when the blocks have the same size; they differ as soon as a value ends
  between the two bounds (\<open>value_outside_accepted\<close>).\<close>

lemma same_size_agrees:
  assumes "variable_values_start p = d" "d \<le> n" "n < 2 ^ 32"
  shows "in_block (u32 (int n - int d)) mem p i \<longleftrightarrow> value_inside n mem p i"
proof -
  have "u32 (int n - int d) = int n - int d" using assms(2,3) by (intro u32_id) simp_all
  then show ?thesis using assms(1) by (auto simp: in_block_def value_inside_def)
qed

text \<open>C38: the variables a client sees are those the backend has published. As long as definitions are only
  appended and those counted do not change, initializing the provider and any sequence of updates
  never leave the block of the definitions; the copies are the published definitions whose values lie inside
  the block of the values, in their order, up to the largest count seen; the search map is sorted and lists
  each copy once; and a value pointer is that of the first published variable with the device, name and
  type. What the code does not check is assumed: definitions have at least 64 bytes, their start and that of
  the values lie in the blocks, there is room for at most 32768 definitions, and for every published
  definition the bound of the code, which is computed from the size of the wrong block, decides as the size
  of the block of the values would (so it is when the blocks have the same size).\<close>

theorem variables_published:
  fixes s off d :: nat and value_shm :: bytes
  assumes hdr: "shm_u32 (m t) 16 = Some (int s)" "shm_u32 (m (t + 1)) 12 = Some (int off)" "shm_u32 value_shm 12 = Some (int d)"
    and "off < length (m T)" "d < length value_shm" "64 \<le> s" "24 \<le> length (m T)" "length (m T) < 2 ^ 32" "(length (m T) - off) div s \<le> 32768"
    and A: "append_only m T (initial_provider (length (m T)) s off d)"
    and times: "\<forall>u\<in>set us. u + 2000000 \<le> T" "t + 2000002 \<le> T"
    and same_bound: "\<forall>i < known m ((length (m T) - off) div s) ((t + 2) # us) 0.
      in_block (u32 (int (length (m T)) - int d)) (m T) (initial_provider (length (m T)) s off d) i \<longleftrightarrow>
      value_inside (length value_shm) (m T) (initial_provider (length (m T)) s off d) i"
  defines "p0 \<equiv> initial_provider (length (m T)) s off d"
  shows "\<exists>t' p bs p' c. vp_initialize m t (length (m T)) value_shm (length value_shm) new_variable_provider = Some (t', p) \<and>
    run_updates m us p = Some (bs, p') \<and> def_chunk p' = Some c \<and> map_sorted c \<and>
    processed_def_count c = known m (max_variable_def_count p0) ((t + 2) # us) 0 \<and>
    map unflagged (copies c) = map (published (m T) p0) (filter (value_inside (length value_shm) (m T) p0) [0..<processed_def_count c]) \<and>
    (\<forall>type name device. findValuePointer c \<lparr>has_chunk = True, vds_count = def_count c\<rparr> type name device =
       Some (case find (\<lambda>d. vc_device d = device \<and> vc_getName d = name \<and> type_eq (vc_type d) type)
               (map (published (m T) p0) (filter (value_inside (length value_shm) (m T) p0) [0..<processed_def_count c])) of None \<Rightarrow> None | Some d \<Rightarrow> vc_value_ptr d))"
proof -
  define M where "M = u32 (int (length (m T)) - int d)"
  let ?c = "new_chunk\<lparr>variable_values_max_data_size := M\<rparr>"
  have p0: "variable_def_header p0" "def_chunk p0 = Some ?c" by (simp_all add: p0_def M_def initial_provider_def)
  have F: "provider_fits (length (m T)) p0" unfolding p0_def using assms(4,6,7,9) by (intro initial_fits) simp_all
  have A0: "append_only m T p0" using A by (simp add: p0_def)
  have t2: "t + 2 + 2000000 \<le> T" using times(2) by simp
  from refresh_spec [OF A0 F p0 initial_inv t2] obtain b t' c1 where
    r: "refreshDefinitions m (t + 2) p0 = Some (b, t', p0\<lparr>def_chunk := Some c1\<rparr>)" "var_inv (m T) p0 c1"
      "processed_def_count c1 = max (processed_def_count ?c) (min (count_field (m (t + 2))) (max_variable_def_count p0))"
      "variable_values_max_data_size c1 = variable_values_max_data_size ?c" by blast
  have i: "vp_initialize m t (length (m T)) value_shm (length value_shm) new_variable_provider = Some (t', p0\<lparr>def_chunk := Some c1\<rparr>)"
    using initialize_spec [OF hdr assms(4,5) _ assms(8)] assms(6) r(1) by (simp add: p0_def)
  from run_updates_spec [OF A0 F refl p0(1) r(2) times(1)] obtain bs c where
    u: "run_updates m us (p0\<lparr>def_chunk := Some c1\<rparr>) = Some (bs, p0\<lparr>def_chunk := Some c\<rparr>)" "var_inv (m T) p0 c"
      "processed_def_count c = known m (max_variable_def_count p0) us (processed_def_count c1)" "variable_values_max_data_size c = variable_values_max_data_size c1"
    by blast
  have M: "variable_values_max_data_size c = M" using u(4) r(4) by simp
  have k: "processed_def_count c = known m (max_variable_def_count p0) ((t + 2) # us) 0" using u(3) r(3) by (simp add: known_def new_chunk_def)
  have mx: "(length (m T) - off) div s = max_variable_def_count p0" by (simp add: p0_def initial_provider_def)
  have "filter (in_block M (m T) p0) [0..<processed_def_count c] = filter (value_inside (length value_shm) (m T) p0) [0..<processed_def_count c]"
    using same_bound unfolding k mx p0_def [symmetric] M_def [symmetric] by (intro filter_cong) simp_all
  then have inv: "chunks_ok c" "map_sorted c" "map unflagged (copies c) = map (published (m T) p0) (filter (value_inside (length value_shm) (m T) p0) [0..<processed_def_count c])"
    using u(2) M by (simp_all add: var_inv_def)
  show ?thesis using i u(1) k inv(2,3) findValuePointer_spec [OF inv(1,3)]
    by (intro exI [of _ t'] exI [of _ "p0\<lparr>def_chunk := Some c1\<rparr>"] exI [of _ bs] exI [of _ "p0\<lparr>def_chunk := Some c\<rparr>"] exI [of _ c]) simp
qed

text \<open>One definition: the device 7 has a variable \<^verbatim>\<open>a\<close> of 4 bytes at the offset 4.\<close>

definition wit_defs :: bytes where
  "wit_defs = replicate 12 0 @ le_bytes 4 32 @ le_bytes 4 64 @ le_bytes 4 1 @ replicate 8 0 @
     le_bytes 4 1 @ le_bytes 2 TYPE_U32 @ le_bytes 2 0 @ le_bytes 4 4 @ le_bytes 2 7 @ [97] @ replicate 49 0"

theorem variables_published_witness:
  "\<exists>t' p bs p' c. vp_initialize (\<lambda>_. wit_defs) 0 96 (replicate 12 0 @ [16] @ replicate 83 0) 96 new_variable_provider = Some (t', p) \<and>
    run_updates (\<lambda>_. wit_defs) [5] p = Some (bs, p') \<and> def_chunk p' = Some c \<and>
    findValuePointer c \<lparr>has_chunk = True, vds_count = def_count c\<rparr> (Type_base TYPE_U32) [97] 7 = Some (Some 20)"
proof -
  let ?m = "\<lambda>_ :: nat. wit_defs" and ?v = "replicate 12 0 @ [16] @ replicate 83 0 :: bytes"
  have l: "length wit_defs = 96" "length ?v = 96" by (simp_all add: wit_defs_def)
  have z: "le_int (replicate n 0) = 0" for n by (induction n) simp_all
  have z2: "(replicate n x)[i := x] = replicate n x" for n i and x :: byte
    by (cases "i < n") (auto intro!: nth_equalityI simp: nth_list_update)
  have h: "shm_u32 wit_defs 16 = Some (int 64)" "shm_u32 wit_defs 12 = Some (int 32)" "shm_u32 ?v 12 = Some (int 16)"
    by (simp_all add: shm_u32_def rd_bytes_def wit_defs_def le_int_le_bytes z)
  let ?p = "initial_provider 96 64 32 16"
  have a: "append_only ?m 2000010 ?p" by (simp add: append_only_def)
  have cf: "count_field wit_defs = 1" by (simp add: count_field_def wit_defs_def le_int_le_bytes)
  have k: "known ?m (max_variable_def_count ?p) [0 + 2, 5] 0 = 1" by (simp add: known_def cf initial_provider_def)
  have pub: "published wit_defs ?p 0 = \<lparr>vc_value_ptr = Some 20, vc_type = Type_base TYPE_U32, vc_flags = 0, vc_device = 7, vc_name = 97 # replicate 49 0\<rparr>"
    by (simp add: published_def wit_defs_def def_offset_def initial_provider_def Type_raw_def Type_base_def u16_def Let_def le_int_le_bytes z2)
  have ib: "value_inside 96 wit_defs ?p 0" unfolding value_inside_def pub
    by (simp add: wit_defs_def def_offset_def initial_provider_def Type_base_def getValueByteSize_def u16_def le_int_le_bytes)
  have sb: "in_block (u32 (int (length wit_defs) - int 16)) wit_defs (initial_provider (length wit_defs) 64 32 16) i \<longleftrightarrow>
      value_inside (length ?v) wit_defs (initial_provider (length wit_defs) 64 32 16) i" for i
    unfolding l by (rule same_size_agrees) (simp_all add: initial_provider_def)
  have "\<exists>t' p bs p' c. vp_initialize ?m 0 (length wit_defs) ?v (length ?v) new_variable_provider = Some (t', p) \<and>
    run_updates ?m [5] p = Some (bs, p') \<and> def_chunk p' = Some c \<and> map_sorted c \<and>
    processed_def_count c = known ?m (max_variable_def_count (initial_provider (length wit_defs) 64 32 16)) [0 + 2, 5] 0 \<and>
    map unflagged (copies c) = map (published wit_defs (initial_provider (length wit_defs) 64 32 16)) (filter (value_inside (length ?v) wit_defs (initial_provider (length wit_defs) 64 32 16)) [0..<processed_def_count c]) \<and>
    (\<forall>type name device. findValuePointer c \<lparr>has_chunk = True, vds_count = def_count c\<rparr> type name device =
       Some (case find (\<lambda>d. vc_device d = device \<and> vc_getName d = name \<and> type_eq (vc_type d) type)
               (map (published wit_defs (initial_provider (length wit_defs) 64 32 16)) (filter (value_inside (length ?v) wit_defs (initial_provider (length wit_defs) 64 32 16)) [0..<processed_def_count c])) of None \<Rightarrow> None | Some d \<Rightarrow> vc_value_ptr d))"
    by (rule variables_published [where m = ?m and T = 2000010 and t = 0 and us = "[5]" and s = 64 and off = 32 and d = 16])
      (use h a l sb in \<open>simp_all\<close>)
  then obtain t' p bs p' c where r: "vp_initialize ?m 0 96 ?v 96 new_variable_provider = Some (t', p)" "run_updates ?m [5] p = Some (bs, p')" "def_chunk p' = Some c"
    "processed_def_count c = 1"
    and f: "\<forall>type name device. findValuePointer c \<lparr>has_chunk = True, vds_count = def_count c\<rparr> type name device =
       Some (case find (\<lambda>d. vc_device d = device \<and> vc_getName d = name \<and> type_eq (vc_type d) type)
               (map (published wit_defs ?p) (filter (value_inside 96 wit_defs ?p) [0..<processed_def_count c])) of None \<Rightarrow> None | Some d \<Rightarrow> vc_value_ptr d)"
    unfolding l k by blast
  have "findValuePointer c \<lparr>has_chunk = True, vds_count = def_count c\<rparr> (Type_base TYPE_U32) [97] 7 = Some (Some 20)"
    unfolding f [rule_format] r(4) by (simp add: pub ib vc_getName_def type_eq_def)
  then show ?thesis using r(1-3) by blast
qed

text \<open>A definition whose value lies behind the block of the values is accepted.\<close>

lemma value_outside_accepted:
  "in_block (u32 (96 - 16)) wit_defs (initial_provider 96 64 32 16) 0 \<and> \<not> value_inside 20 wit_defs (initial_provider 96 64 32 16) 0"
  by code_simp

end
