(* ===== verification/Api_Core.thy ===== *)
theory Api_Core
  imports Session_State Shm_Provider
begin

unbundle bit_operations_syntax

text \<open>
  core/src/api_core.cpp: opening a session. The core block of shared memory names the block of the
  session; the session block is copied, checked and gives the blocks with the data. Both blocks are
  histories, since the backend may rewrite them at any time; a read takes one unit of it. The operating
  system is the record \<^verbatim>\<open>api_env\<close>: the core block, what opening a path of a size gives, and how many
  rounds of the loop the clock allows. A read behind the end of a block or of the copy is \<^term>\<open>None\<close>.
\<close>

section \<open>Data\<close>

definition SHM_VERSION_COMPATIBLE :: "int \<Rightarrow> int \<Rightarrow> bool" where
  "SHM_VERSION_COMPATIBLE known v \<longleftrightarrow> known AND 0xffff0000 = v AND 0xffff0000"

definition CORE_SHM_VERSION :: int where "CORE_SHM_VERSION = 1"
definition CORE_ACTIVE :: int where "CORE_ACTIVE = 2"
definition SESSION_ACTIVE :: int where "SESSION_ACTIVE = 1"
definition UDP_PROTOCOL_VERSION_MAJOR :: int where "UDP_PROTOCOL_VERSION_MAJOR = 0"
definition UDP_CONTROL_MIN_PLAINTEXT :: int where "UDP_CONTROL_MIN_PLAINTEXT = 4096"
definition UDP_CONTROL_MIN_ENCRYPTED :: int where "UDP_CONTROL_MIN_ENCRYPTED = 1400"

record SessionRef =
  ref_id :: int
  ref_version :: int
  ref_size :: int
  ref_path :: bytes

text \<open>A block that was opened: its id, its path and its size.\<close>

type_synonym opened_block = "int \<times> bytes \<times> int"

record opened_session =
  os_session :: session
  udp_max_plaintext_payload :: int
  udp_max_encrypted_payload :: int
  secure_session_opts :: "secure_method list"
  os_blocks :: "opened_block list"

record api_core =
  shm_core_open :: bool
  core_state :: SessionState
  active_session :: "opened_session option"
  api_events :: "session_event list"

record api_env =
  core_shm :: shm_history
  core_available :: bool
  open_session_shm :: "bytes \<Rightarrow> int \<Rightarrow> shm_history option"
  open_block :: "bytes \<Rightarrow> int \<Rightarrow> bool"
  attempts :: nat

text \<open>The string behind a pointer into an array of characters; without a null character the array is
  left.\<close>

definition c_string :: "bytes \<Rightarrow> bytes option" where
  "c_string bs = (if 0 \<in> set bs then Some (takeWhile (\<lambda>b. b \<noteq> 0) bs) else None)"

section \<open>The core block\<close>

definition openCoreShmHandle :: "api_env \<Rightarrow> nat \<Rightarrow> api_core \<Rightarrow> (ResultCode \<times> nat \<times> api_core) option" where
  "openCoreShmHandle e t a =
     (if \<not> shm_core_open a \<and> \<not> core_available e then Some (rc_cannot_connect, t, a)
      else do {
        let a = a\<lparr>shm_core_open := True\<rparr>;
        version \<leftarrow> shm_u32 (core_shm e t) 0;
        Some (if SHM_VERSION_COMPATIBLE CORE_SHM_VERSION version then rc_ok else rc_incompatible, t + 1, a)
      })"

text \<open>\<^verbatim>\<open>version\<close> is at 0, \<^verbatim>\<open>revision_counter\<close> at 4, the session's id at 8, its version at 12, its size at
  16, the state at 20 and the path at 24.\<close>

definition tryCopySessionRef :: "shm_history \<Rightarrow> nat \<Rightarrow> SessionRef \<Rightarrow> (ResultCode \<times> nat \<times> SessionRef) option" where
  "tryCopySessionRef m t ref = do {
     start_revision \<leftarrow> shm_u32 (m t) 4;
     if odd start_revision then Some (rc_busy, t + 1, ref)
     else do {
       version \<leftarrow> shm_u32 (m (t + 1)) 0;
       if \<not> SHM_VERSION_COMPATIBLE CORE_SHM_VERSION version then Some (rc_incompatible, t + 2, ref)
       else do {
         state \<leftarrow> shm_u32 (m (t + 2)) 20;
         if state \<noteq> CORE_ACTIVE then Some (rc_cannot_connect, t + 3, ref)
         else do {
           i \<leftarrow> shm_u32 (m (t + 3)) 8;
           v \<leftarrow> shm_u32 (m (t + 4)) 12;
           sz \<leftarrow> shm_u32 (m (t + 5)) 16;
           path \<leftarrow> shm_copy m (t + 6) 24 64;
           let ref = \<lparr>ref_id = i, ref_version = v, ref_size = sz, ref_path = path\<rparr>;
           end_revision \<leftarrow> shm_u32 (m (t + 70)) 4;
           Some (if end_revision \<noteq> start_revision then rc_busy
                 else if ref_path ref ! 63 \<noteq> 0 then rc_protocol else rc_ok, t + 71, ref)
         }
       }
     }
   }"

section \<open>The session block\<close>

text \<open>The checks and the copy of a session block that was opened.\<close>

definition copy_session :: "shm_history \<Rightarrow> nat \<Rightarrow> SessionRef \<Rightarrow> (ResultCode + bytes) option" where
  "copy_session s t ref = do {
     session_data_size \<leftarrow> shm_u32 (s t) 16;
     i \<leftarrow> shm_u32 (s (t + 1)) 4;
     v \<leftarrow> shm_u32 (s (t + 2)) 0;
     if i \<noteq> ref_id ref \<or> v \<noteq> ref_version ref \<or> session_data_size > ref_size ref then Some (Inl rc_cannot_connect)
     else do {
       state \<leftarrow> shm_u32 (s (t + 3)) 8;
       if state \<noteq> SESSION_ACTIVE then Some (Inl rc_cannot_connect)
       else do {
         copy \<leftarrow> shm_copy s (t + 4) 0 (nat session_data_size);
         state \<leftarrow> shm_u32 copy 8;
         Some (if state \<noteq> SESSION_ACTIVE then Inl rc_cannot_connect else Inr copy)
       }
     }
   }"

text \<open>The loop of \<^verbatim>\<open>openSession\<close>: \<^verbatim>\<open>junk\<close> is what the uninitialized \<^verbatim>\<open>session_ref\<close> of a round holds. Only
  \<^verbatim>\<open>error_busy\<close> is looked at.\<close>

primrec open_loop :: "api_env \<Rightarrow> (nat \<Rightarrow> SessionRef) \<Rightarrow> nat \<Rightarrow> nat \<Rightarrow> (nat \<times> (ResultCode + bytes)) option" where
  "open_loop e junk 0 t = Some (t, Inl rc_timeout)"
| "open_loop e junk (Suc n) t =
     tryCopySessionRef (core_shm e) t (junk n) \<bind> (\<lambda>(r, t, ref).
     if r = rc_busy then open_loop e junk n (t + 1)
     else c_string (ref_path ref) \<bind> (\<lambda>path.
       case open_session_shm e path (ref_size ref) of
         None \<Rightarrow> Some (t, Inl rc_cannot_connect)
       | Some s \<Rightarrow> map_option (Pair t) (copy_session s t ref)))"

section \<open>The references to the data blocks\<close>

definition DEVICE_INFO_SHM_ID :: int where "DEVICE_INFO_SHM_ID = 0x89765893"
definition VARIABLE_HEADER_SHM_ID :: int where "VARIABLE_HEADER_SHM_ID = 0x85532367"
definition VARIABLE_DATA_SHM_ID :: int where "VARIABLE_DATA_SHM_ID = 0x85782367"
definition TELEMETRY_DEFINITION_SHM_ID :: int where "TELEMETRY_DEFINITION_SHM_ID = 0x78d38efb"
definition SIM_DATA_SHM_ID :: int where "SIM_DATA_SHM_ID = 0x896f43a2"

text \<open>The required ids, all with version 1.\<close>

definition required_shm_refs :: "(int \<times> int) list" where
  "required_shm_refs = [(DEVICE_INFO_SHM_ID, 1), (VARIABLE_HEADER_SHM_ID, 1), (VARIABLE_DATA_SHM_ID, 1),
     (TELEMETRY_DEFINITION_SHM_ID, 1), (SIM_DATA_SHM_ID, 1)]"

definition is_within_session_buffer :: "int \<Rightarrow> int \<Rightarrow> int \<Rightarrow> int \<Rightarrow> bool" where
  "is_within_session_buffer session_data_size off sz n \<longleftrightarrow> off + sz * n \<le> session_data_size"

text \<open>A reference has its id at 0, its version at 4, its size at 8 and its path at 12.\<close>

fun find_ref :: "bytes \<Rightarrow> int list \<Rightarrow> int \<Rightarrow> int \<Rightarrow> int option option" where
  "find_ref copy [] i version = Some None"
| "find_ref copy (p # refs) i version =
     shm_u32 copy p \<bind> (\<lambda>x.
     if x = i then shm_u32 copy (p + 4) \<bind> (\<lambda>v.
       if SHM_VERSION_COMPATIBLE version v then Some (Some p) else find_ref copy refs i version)
     else find_ref copy refs i version)"

fun select_refs :: "bytes \<Rightarrow> int list \<Rightarrow> (int \<times> int) list \<Rightarrow> int list option option" where
  "select_refs copy refs [] = Some (Some [])"
| "select_refs copy refs ((i, version) # required) =
     find_ref copy refs i version \<bind> (\<lambda>r. case r of
       None \<Rightarrow> Some None
     | Some p \<Rightarrow> map_option (map_option (\<lambda>ps. p # ps)) (select_refs copy refs required))"

text \<open>\<^verbatim>\<open>ShmBlock::open\<close> for the selected references, in order, until one fails.\<close>

fun open_blocks :: "api_env \<Rightarrow> bytes \<Rightarrow> int list \<Rightarrow> opened_block list option option" where
  "open_blocks e copy [] = Some (Some [])"
| "open_blocks e copy (p # ps) = do {
     i \<leftarrow> shm_u32 copy p;
     path \<leftarrow> rd_bytes copy (p + 12) 64;
     sz \<leftarrow> shm_u32 copy (p + 8);
     if path ! 63 \<noteq> 0 then Some None
     else do {
       path \<leftarrow> c_string path;
       if \<not> open_block e path sz then Some None
       else map_option (map_option (\<lambda>bs. (i, path, sz) # bs)) (open_blocks e copy ps)
     }
   }"

section \<open>Security methods\<close>

definition MAX_PUBLIC_KEYS :: nat where "MAX_PUBLIC_KEYS = 8"

text \<open>The option at the offset \<^verbatim>\<open>p\<close>: method, sizes and offsets are five \<^verbatim>\<open>uint16_t\<close>; \<^term>\<open>None\<close> inside is a
  protocol error.\<close>

definition read_method :: "bytes \<Rightarrow> int \<Rightarrow> int \<Rightarrow> secure_method option option" where
  "read_method copy session_data_size p =
     (if \<not> is_within_session_buffer session_data_size p 10 1 then Some None
      else do {
        method \<leftarrow> shm_u16 copy p;
        key_size \<leftarrow> shm_u16 copy (p + 2);
        key_offset \<leftarrow> shm_u16 copy (p + 4);
        signature_size \<leftarrow> shm_u16 copy (p + 6);
        signature_offset \<leftarrow> shm_u16 copy (p + 8);
        if \<not> is_within_session_buffer session_data_size (p + key_offset) key_size 1 \<or>
           \<not> is_within_session_buffer session_data_size (p + signature_offset) signature_size 1
        then Some None
        else do {
          key \<leftarrow> rd_bytes copy (p + key_offset) (nat key_size);
          sig \<leftarrow> rd_bytes copy (p + signature_offset) (nat signature_size);
          Some (Some \<lparr>sm_method = method, sm_public_key = key, sm_signature = sig\<rparr>)
        }
      })"

text \<open>The offsets are at 124; unused ones are 0.\<close>

primrec resolve_loop :: "bytes \<Rightarrow> int \<Rightarrow> nat \<Rightarrow> nat \<Rightarrow> secure_method list option option" where
  "resolve_loop copy session_data_size i 0 = Some (Some [])"
| "resolve_loop copy session_data_size i (Suc n) =
     shm_u16 copy (124 + 2 * int i) \<bind> (\<lambda>p.
     if p = 0 then resolve_loop copy session_data_size (i + 1) n
     else read_method copy session_data_size p \<bind> (\<lambda>m. case m of
         None \<Rightarrow> Some None
       | Some m \<Rightarrow> map_option (map_option (\<lambda>ms. m # ms)) (resolve_loop copy session_data_size (i + 1) n)))"

definition resolveSecureSessionOptions :: "bytes \<Rightarrow> secure_method list option option" where
  "resolveSecureSessionOptions copy = do {
     session_data_size \<leftarrow> shm_u32 copy 16;
     resolve_loop copy session_data_size 0 MAX_PUBLIC_KEYS
   }"

section \<open>Opening\<close>

text \<open>Versions, limits and references of the copy: an error, or the offsets of the selected references.\<close>

definition check_session :: "bytes \<Rightarrow> (ResultCode + int list) option" where
  "check_session copy = do {
     version \<leftarrow> shm_u32 copy 68;
     if drop_bit 16 version \<noteq> UDP_PROTOCOL_VERSION_MAJOR then Some (Inl rc_incompatible)
     else do {
       plain \<leftarrow> shm_u16 copy 94;
       enc \<leftarrow> shm_u16 copy 96;
       if plain < UDP_CONTROL_MIN_PLAINTEXT \<or> enc < UDP_CONTROL_MIN_ENCRYPTED then Some (Inl rc_protocol)
       else do {
         off \<leftarrow> shm_u32 copy 120;
         sz \<leftarrow> shm_u16 copy 118;
         n \<leftarrow> shm_u16 copy 116;
         session_data_size \<leftarrow> shm_u32 copy 16;
         if \<not> is_within_session_buffer session_data_size off sz n then Some (Inl rc_protocol)
         else do {
           sel \<leftarrow> select_refs copy (map (\<lambda>i. off + sz * int i) [0..<nat n]) required_shm_refs;
           Some (case sel of None \<Rightarrow> Inl rc_incompatible | Some ps \<Rightarrow> Inr ps)
         }
       }
     }
   }"

definition tryOpeningSession :: "api_env \<Rightarrow> nat \<Rightarrow> bytes \<Rightarrow> api_core \<Rightarrow> (ResultCode \<times> api_core) option" where
  "tryOpeningSession e t copy a = do {
     checked \<leftarrow> check_session copy;
     case checked of
       Inl code \<Rightarrow> Some (code, a)
     | Inr ps \<Rightarrow> do {
         cur_id \<leftarrow> shm_u32 (core_shm e t) 8;
         i \<leftarrow> shm_u32 copy 4;
         if cur_id \<noteq> i then Some (rc_busy, a)
         else do {
           plain \<leftarrow> shm_u16 copy 94;
           enc \<leftarrow> shm_u16 copy 96;
           opts \<leftarrow> resolveSecureSessionOptions copy;
           case opts of
             None \<Rightarrow> Some (rc_protocol, a)
           | Some opts \<Rightarrow> do {
               blocks \<leftarrow> open_blocks e copy ps;
               case blocks of
                 None \<Rightarrow> Some (rc_cannot_connect, a)
               | Some blocks \<Rightarrow>
                   Some (rc_ok, a\<lparr>active_session := Some \<lparr>os_session = new_session i, udp_max_plaintext_payload = plain,
                            udp_max_encrypted_payload = enc, secure_session_opts = opts, os_blocks = blocks\<rparr>,
                          api_events := api_events a @ [SessionStateChanged connected_monitor 0 0]\<rparr>)
             }
         }
       }
   }"

definition openSession :: "api_env \<Rightarrow> (nat \<Rightarrow> SessionRef) \<Rightarrow> nat \<Rightarrow> api_core \<Rightarrow> (ResultCode \<times> api_core) option" where
  "openSession e junk t a =
     (if core_state a \<noteq> state_invalid then Some (rc_invalid_session_state, a)
      else openCoreShmHandle e t a \<bind> (\<lambda>(r, t, a).
        if r \<noteq> rc_ok then Some (r, a)
        else open_loop e junk (attempts e) t \<bind> (\<lambda>(t, res). case res of
            Inl code \<Rightarrow> Some (code, a)
          | Inr copy \<Rightarrow> tryOpeningSession e t copy a)))"

section \<open>The other operations\<close>

definition new_api_core :: api_core where
  "new_api_core = \<lparr>shm_core_open = False, core_state = state_invalid, active_session = None, api_events = []\<rparr>"

text \<open>\<^verbatim>\<open>ApiCore::openSession\<close> hands out the session only on success.\<close>

definition ApiCore_openSession ::
  "api_env \<Rightarrow> (nat \<Rightarrow> SessionRef) \<Rightarrow> nat \<Rightarrow> opened_session option \<Rightarrow> api_core \<Rightarrow> (ResultCode \<times> opened_session option \<times> api_core) option" where
  "ApiCore_openSession e junk t out a = do {
     (r, a) \<leftarrow> openSession e junk t a;
     Some (r, if r = rc_ok then active_session a else out, a)
   }"

text \<open>\<^verbatim>\<open>same\<close> is the comparison with the session that was closed.\<close>

definition sessionClosed :: "bool \<Rightarrow> api_core \<Rightarrow> api_core" where
  "sessionClosed same a = (if same then a\<lparr>active_session := None\<rparr> else a)"

text \<open>The events a new queue starts with.\<close>

definition createEventQueue :: "api_core \<Rightarrow> session_event list" where
  "createEventQueue a = (case active_session a of
     None \<Rightarrow> []
   | Some s \<Rightarrow> [SessionStateChanged (se_state (os_session s)) (session.controller_id (os_session s)) (control_flags (os_session s))])"

text \<open>The destructor detaches the session.\<close>

definition destroy_api_core :: "api_core \<Rightarrow> api_core" where
  "destroy_api_core a = a\<lparr>active_session := map_option (\<lambda>s. s\<lparr>os_session := (os_session s)\<lparr>se_api := False\<rparr>\<rparr>) (active_session a)\<rparr>"

end
