(* ===== verification/Api_Properties.thy ===== *)
theory Api_Properties
  imports Api_Core Variable_Properties
begin

text \<open>
  What an open session rests on, however the backend rewrites its blocks in the meantime; the snapshot
  of the core block under the rule of the revision counter; and what the loop does when the core block
  is not active.
\<close>

section \<open>What a session rests on\<close>

text \<open>A block of the data: the copy lists it in its table of references, which lies in the copy, under the
  required id and with a compatible version; its path is terminated, and it was opened.\<close>

definition block_of :: "api_env \<Rightarrow> bytes \<Rightarrow> int \<times> int \<Rightarrow> opened_block \<Rightarrow> bool" where
  "block_of e copy = (\<lambda>(i, v) (j, path, sz). j = i \<and> open_block e path sz \<and>
     (\<exists>off w n size k x raw. shm_u32 copy 120 = Some off \<and> shm_u16 copy 118 = Some w \<and> shm_u16 copy 116 = Some n \<and> shm_u32 copy 16 = Some size \<and>
        off + w * n \<le> size \<and> int k < n \<and> shm_u32 copy (off + w * int k) = Some i \<and>
        shm_u32 copy (off + w * int k + 4) = Some x \<and> SHM_VERSION_COMPATIBLE v x \<and> shm_u32 copy (off + w * int k + 8) = Some sz \<and>
        rd_bytes copy (off + w * int k + 12) 64 = Some raw \<and> raw ! 63 = 0 \<and> path = takeWhile (\<lambda>b. b \<noteq> 0) raw))"

text \<open>A security method: the record at the offset \<^verbatim>\<open>p\<close>, its key and its signature lie in the copy.\<close>

definition method_in :: "bytes \<Rightarrow> int \<Rightarrow> secure_method \<Rightarrow> bool" where
  "method_in copy p m \<longleftrightarrow> (\<exists>size ks ko gs go. shm_u32 copy 16 = Some size \<and> shm_u16 copy p = Some (sm_method m) \<and>
     shm_u16 copy (p + 2) = Some ks \<and> shm_u16 copy (p + 4) = Some ko \<and> shm_u16 copy (p + 6) = Some gs \<and> shm_u16 copy (p + 8) = Some go \<and>
     p + 10 \<le> size \<and> p + ko + ks \<le> size \<and> p + go + gs \<le> size \<and>
     rd_bytes copy (p + ko) (nat ks) = Some (sm_public_key m) \<and> rd_bytes copy (p + go) (nat gs) = Some (sm_signature m))"

definition method_offsets :: "bytes \<Rightarrow> nat \<Rightarrow> nat \<Rightarrow> int list" where
  "method_offsets copy i k = filter (\<lambda>p. p \<noteq> 0) (map (\<lambda>i. the (shm_u16 copy (124 + 2 * int i))) [i..<i + k])"

text \<open>The copy was made, byte by byte, of the block that the reference names, which had its id and version, was
  no larger than announced, and was active before and in the copy.\<close>

definition copied_from :: "api_env \<Rightarrow> SessionRef \<Rightarrow> bytes \<Rightarrow> bool" where
  "copied_from e ref copy \<longleftrightarrow> shm_u32 copy 8 = Some SESSION_ACTIVE \<and>
     (\<exists>path s t. c_string (ref_path ref) = Some path \<and> open_session_shm e path (ref_size ref) = Some s \<and>
        shm_u32 (s t) 16 = Some (int (length copy)) \<and> int (length copy) \<le> ref_size ref \<and>
        shm_u32 (s (t + 1)) 4 = Some (ref_id ref) \<and> shm_u32 (s (t + 2)) 0 = Some (ref_version ref) \<and> shm_u32 (s (t + 3)) 8 = Some SESSION_ACTIVE \<and>
        (\<forall>k < length copy. k < length (s (t + 4 + k)) \<and> copy ! k = s (t + 4 + k) ! k))"

text \<open>The reference was read from the core block while its counter had the same even value before and behind.\<close>

definition reference_read :: "api_env \<Rightarrow> SessionRef \<Rightarrow> bool" where
  "reference_read e ref \<longleftrightarrow> (\<exists>t rev. even rev \<and> shm_u32 (core_shm e t) 4 = Some rev \<and> shm_u32 (core_shm e (t + 70)) 4 = Some rev \<and>
     shm_u32 (core_shm e (t + 3)) 8 = Some (ref_id ref) \<and> shm_u32 (core_shm e (t + 4)) 12 = Some (ref_version ref) \<and>
     shm_u32 (core_shm e (t + 5)) 16 = Some (ref_size ref) \<and> length (ref_path ref) = 64 \<and>
     (\<forall>k < 64. ref_path ref ! k = core_shm e (t + 6 + k) ! (24 + k)))"

text \<open>A core block that is in service at all times: compatible, active, with a terminated path.\<close>

definition core_serves :: "api_env \<Rightarrow> bool" where
  "core_serves e \<longleftrightarrow> (\<forall>t. (\<exists>v. shm_u32 (core_shm e t) 0 = Some v \<and> SHM_VERSION_COMPATIBLE CORE_SHM_VERSION v) \<and>
     shm_u32 (core_shm e t) 20 = Some CORE_ACTIVE \<and> core_shm e t ! 87 = 0)"

text \<open>What is known of the copy a session was opened with.\<close>

definition session_copy_ok :: "api_env \<Rightarrow> bytes \<Rightarrow> opened_session \<Rightarrow> bool" where
  "session_copy_ok e copy s \<longleftrightarrow>
     (\<exists>i t version. shm_u32 copy 4 = Some i \<and> os_session s = new_session i \<and> shm_u32 (core_shm e t) 8 = Some i \<and>
        shm_u32 copy 68 = Some version \<and> drop_bit 16 version = UDP_PROTOCOL_VERSION_MAJOR) \<and>
     shm_u16 copy 94 = Some (udp_max_plaintext_payload s) \<and> 4096 \<le> udp_max_plaintext_payload s \<and>
     shm_u16 copy 96 = Some (udp_max_encrypted_payload s) \<and> 1400 \<le> udp_max_encrypted_payload s \<and>
     list_all2 (block_of e copy) required_shm_refs (os_blocks s) \<and>
     list_all2 (method_in copy) (method_offsets copy 0 8) (secure_session_opts s)"

section \<open>The references\<close>

lemma find_ref_sound:
  "find_ref copy refs i v = Some (Some p) \<Longrightarrow> p \<in> set refs \<and> shm_u32 copy p = Some i \<and> (\<exists>w. shm_u32 copy (p + 4) = Some w \<and> SHM_VERSION_COMPATIBLE v w)"
  by (induction copy refs i v rule: find_ref.induct) (auto split: Option.bind_splits if_splits)

lemma select_refs_sound:
  "select_refs copy refs req = Some (Some ps) \<Longrightarrow>
   list_all2 (\<lambda>(i, v) p. p \<in> set refs \<and> shm_u32 copy p = Some i \<and> (\<exists>w. shm_u32 copy (p + 4) = Some w \<and> SHM_VERSION_COMPATIBLE v w)) req ps"
  by (induction copy refs req arbitrary: ps rule: select_refs.induct)
    (auto split: Option.bind_splits option.splits dest: find_ref_sound)

definition opened_at :: "api_env \<Rightarrow> bytes \<Rightarrow> int \<Rightarrow> opened_block \<Rightarrow> bool" where
  "opened_at e copy p = (\<lambda>(i, path, sz). shm_u32 copy p = Some i \<and> shm_u32 copy (p + 8) = Some sz \<and> open_block e path sz \<and>
     (\<exists>raw. rd_bytes copy (p + 12) 64 = Some raw \<and> raw ! 63 = 0 \<and> path = takeWhile (\<lambda>b. b \<noteq> 0) raw))"

lemma open_blocks_sound:
  "open_blocks e copy ps = Some (Some bs) \<Longrightarrow> list_all2 (opened_at e copy) ps bs"
proof (induction e copy ps arbitrary: bs rule: open_blocks.induct)
  case (2 e copy p ps)
  obtain i raw sz where r: "shm_u32 copy p = Some i" "rd_bytes copy (p + 12) 64 = Some raw" "shm_u32 copy (p + 8) = Some sz"
    using 2(2) by (auto split: Option.bind_splits)
  have n: "\<not> raw ! 63 \<noteq> 0" using 2(2) r by (auto split: if_splits)
  obtain path where p: "c_string raw = Some path" using 2(2) r n by (auto split: Option.bind_splits)
  have o: "open_block e path sz" using 2(2) r n p by (auto split: if_splits)
  obtain bs' where b: "open_blocks e copy ps = Some (Some bs')" "bs = (i, path, sz) # bs'" using 2(2) r n p o by auto
  have "path = takeWhile (\<lambda>b. b \<noteq> 0) raw" using p by (simp add: c_string_def split: if_splits)
  then have "opened_at e copy p (i, path, sz)" using r n o by (simp add: opened_at_def)
  then show ?case using 2(1) [OF r n p _ b(1)] o b(2) by simp
qed simp

lemma blocks_sound:
  assumes t: "shm_u32 copy 120 = Some off" "shm_u16 copy 118 = Some w" "shm_u16 copy 116 = Some n" "shm_u32 copy 16 = Some sz0" "off + w * n \<le> sz0"
    and "select_refs copy (map (\<lambda>i. off + w * int i) [0..<nat n]) req = Some (Some ps)" "open_blocks e copy ps = Some (Some bs)"
  shows "list_all2 (block_of e copy) req bs"
proof (rule list_all2_trans [OF _ select_refs_sound [OF assms(6)] open_blocks_sound [OF assms(7)]])
  fix r p b
  assume r: "(\<lambda>(i, v) p. p \<in> set (map (\<lambda>i. off + w * int i) [0..<nat n]) \<and> shm_u32 copy p = Some i \<and>
      (\<exists>w. shm_u32 copy (p + 4) = Some w \<and> SHM_VERSION_COMPATIBLE v w)) r p" and b: "opened_at e copy p b"
  obtain i v where iv: "r = (i, v)" by force
  obtain j path sz where jp: "b = (j, path, sz)" by (cases b)
  have "p \<in> (\<lambda>k. off + w * int k) ` {0..<nat n}" using r by (simp add: iv)
  then obtain k where kn: "p = off + w * int k" "k \<in> {0..<nat n}" by (rule imageE)
  have k: "p = off + w * int k" "int k < n" using kn by simp_all
  show "block_of e copy r b" using r b t k(2) unfolding iv jp k(1) block_of_def opened_at_def by auto
qed

lemma read_method_sound:
  assumes "read_method copy sz0 p = Some (Some m)" "shm_u32 copy 16 = Some sz0"
  shows "method_in copy p m"
  using assms unfolding read_method_def method_in_def is_within_session_buffer_def
  by (auto split: Option.bind_splits if_splits)

lemma resolve_sound:
  "resolve_loop copy sz0 i k = Some (Some ms) \<Longrightarrow> shm_u32 copy 16 = Some sz0 \<Longrightarrow> list_all2 (method_in copy) (method_offsets copy i k) ms"
proof (induction k arbitrary: i ms)
  case 0
  then show ?case by (simp add: method_offsets_def)
next
  case (Suc k)
  obtain p where p: "shm_u16 copy (124 + 2 * int i) = Some p" using Suc.prems(1) by (auto split: Option.bind_splits)
  have o: "method_offsets copy i (Suc k) = (if p = 0 then [] else [p]) @ method_offsets copy (i + 1) k"
    using p by (simp add: method_offsets_def upt_conv_Cons del: upt_Suc)
  show ?case
  proof (cases "p = 0")
    case True
    then have "resolve_loop copy sz0 (i + 1) k = Some (Some ms)" using Suc.prems(1) p by simp
    then show ?thesis using Suc.IH Suc.prems(2) True o by simp
  next
    case False
    obtain m ms' where m: "read_method copy sz0 p = Some (Some m)" "resolve_loop copy sz0 (i + 1) k = Some (Some ms')" "ms = m # ms'"
      using Suc.prems(1) p False by (auto split: Option.bind_splits option.splits)
    show ?thesis using Suc.IH [OF m(2) Suc.prems(2)] read_method_sound [OF m(1) Suc.prems(2)] False o m(3) by simp
  qed
qed

section \<open>Opening\<close>

lemma check_session_ok:
  assumes "check_session copy = Some (Inr ps)"
  shows "\<exists>version plain enc off w n size. shm_u32 copy 68 = Some version \<and> drop_bit 16 version = UDP_PROTOCOL_VERSION_MAJOR \<and>
    shm_u16 copy 94 = Some plain \<and> shm_u16 copy 96 = Some enc \<and> 4096 \<le> plain \<and> 1400 \<le> enc \<and>
    shm_u32 copy 120 = Some off \<and> shm_u16 copy 118 = Some w \<and> shm_u16 copy 116 = Some n \<and> shm_u32 copy 16 = Some size \<and> off + w * n \<le> size \<and>
    select_refs copy (map (\<lambda>i. off + w * int i) [0..<nat n]) required_shm_refs = Some (Some ps)"
  using assms by (auto simp: check_session_def not_less is_within_session_buffer_def UDP_CONTROL_MIN_PLAINTEXT_def UDP_CONTROL_MIN_ENCRYPTED_def
      split: Option.bind_splits if_splits option.splits)

lemma tryOpening_cases:
  assumes "tryOpeningSession e t copy a = Some (r, a')"
  shows "if r = rc_ok then \<exists>s. active_session a' = Some s \<and> session_copy_ok e copy s \<and>
      api_events a' = api_events a @ [SessionStateChanged connected_monitor 0 0]
    else a' = a"
proof -
  obtain ch where ch: "check_session copy = Some ch" using assms(1) by (cases "check_session copy") (simp_all add: tryOpeningSession_def)
  show ?thesis
  proof (cases ch)
    case (Inl code)
    have "code \<noteq> rc_ok" using ch Inl by (auto simp: check_session_def split: Option.bind_splits if_splits option.splits)
    then show ?thesis using assms(1) ch Inl by (auto simp: tryOpeningSession_def)
  next
    case (Inr ps)
    obtain cur i where ids: "shm_u32 (core_shm e t) 8 = Some cur" "shm_u32 copy 4 = Some i"
      using assms(1) ch Inr by (auto simp: tryOpeningSession_def split: Option.bind_splits)
    obtain version plain enc off w n size where k: "shm_u32 copy 68 = Some version" "drop_bit 16 version = UDP_PROTOCOL_VERSION_MAJOR"
      "shm_u16 copy 94 = Some plain" "shm_u16 copy 96 = Some enc" "4096 \<le> plain" "1400 \<le> enc"
      and tb: "shm_u32 copy 120 = Some off" "shm_u16 copy 118 = Some w" "shm_u16 copy 116 = Some n" "shm_u32 copy 16 = Some size" "off + w * n \<le> size"
      "select_refs copy (map (\<lambda>i. off + w * int i) [0..<nat n]) required_shm_refs = Some (Some ps)"
      using check_session_ok ch Inr by blast
    show ?thesis
    proof (cases "cur = i")
      case False
      then show ?thesis using assms(1) ch Inr ids by (auto simp: tryOpeningSession_def)
    next
      case True
      obtain opts where o: "resolveSecureSessionOptions copy = Some opts"
        using assms(1) ch Inr ids k(3,4) True by (auto simp: tryOpeningSession_def split: Option.bind_splits)
      show ?thesis
      proof (cases opts)
        case None
        then show ?thesis using assms(1) ch Inr ids k(3,4) True o by (auto simp: tryOpeningSession_def)
      next
        case (Some ms)
        obtain bl where bl: "open_blocks e copy ps = Some bl"
          using assms(1) ch Inr ids k(3,4) True o Some by (auto simp: tryOpeningSession_def split: Option.bind_splits)
        show ?thesis
        proof (cases bl)
          case None
          then show ?thesis using assms(1) ch Inr ids k(3,4) True o Some bl by (auto simp: tryOpeningSession_def)
        next
          case bs: (Some bs)
          let ?s = "\<lparr>os_session = new_session i, udp_max_plaintext_payload = plain, udp_max_encrypted_payload = enc, secure_session_opts = ms, os_blocks = bs\<rparr>"
          have r: "r = rc_ok" "a' = a\<lparr>active_session := Some ?s, api_events := api_events a @ [SessionStateChanged connected_monitor 0 0]\<rparr>"
            using assms(1) ch Inr ids k(3,4) True o Some bl bs by (auto simp: tryOpeningSession_def)
          have "resolve_loop copy size 0 8 = Some (Some ms)"
            using o Some tb(4) by (simp add: resolveSecureSessionOptions_def MAX_PUBLIC_KEYS_def)
          then have m: "list_all2 (method_in copy) (method_offsets copy 0 8) ms" by (rule resolve_sound [OF _ tb(4)])
          have b: "list_all2 (block_of e copy) required_shm_refs bs" by (rule blocks_sound [OF tb]) (simp add: bl bs)
          have "session_copy_ok e copy ?s" unfolding session_copy_ok_def
            by (intro conjI exI [of _ i] exI [of _ t] exI [of _ version]) (use k ids True m b in simp_all)
          then show ?thesis using r by simp
        qed
      qed
    qed
  qed
qed

lemma shm_copy_bytes: "shm_copy m t off n = Some bs \<Longrightarrow> length bs = n \<and> (\<forall>k < n. off + k < length (m (t + k)) \<and> bs ! k = m (t + k) ! (off + k))"
proof (induction n arbitrary: t off bs)
  case (Suc n)
  obtain bs' where b: "shm_copy m (t + 1) (off + 1) n = Some bs'" "bs = m t ! off # bs'" "off < length (m t)"
    using Suc.prems by (auto split: if_splits)
  note ih = Suc.IH [OF b(1)]
  have "off + k < length (m (t + k)) \<and> bs ! k = m (t + k) ! (off + k)" if "k < Suc n" for k
    using that ih b(2,3) by (cases k) simp_all
  then show ?case using ih b(2) by simp
qed simp

lemma copy_session_sound:
  assumes "copy_session s t ref = Some (Inr copy)" "c_string (ref_path ref) = Some path" "open_session_shm e path (ref_size ref) = Some s"
  shows "copied_from e ref copy"
proof -
  obtain n where n: "shm_u32 (s t) 16 = Some n" "shm_u32 (s (t + 1)) 4 = Some (ref_id ref)" "shm_u32 (s (t + 2)) 0 = Some (ref_version ref)"
    "n \<le> ref_size ref" "shm_u32 (s (t + 3)) 8 = Some SESSION_ACTIVE" "shm_copy s (t + 4) 0 (nat n) = Some copy" "shm_u32 copy 8 = Some SESSION_ACTIVE"
    using assms(1) by (auto simp: copy_session_def not_less split: Option.bind_splits if_splits)
  have "0 \<le> n" using n(1) by (auto simp: shm_u32_def le_int_bounds)
  moreover note c = shm_copy_bytes [OF n(6)]
  ultimately have "int (length copy) = n" by simp
  then show ?thesis using n c assms(2,3) unfolding copied_from_def
    by (intro conjI exI [of _ path] exI [of _ s] exI [of _ t]) simp_all
qed

lemma copy_session_code: "copy_session s t ref = Some (Inl code) \<Longrightarrow> code \<noteq> rc_ok"
  by (auto simp: copy_session_def split: Option.bind_splits if_splits)

lemma reference_of_serving:
  assumes "core_serves e" "tryCopySessionRef (core_shm e) t ref0 = Some (r, t', ref)" "r \<noteq> rc_busy"
  shows "reference_read e ref"
proof -
  obtain rev where rev: "shm_u32 (core_shm e t) 4 = Some rev" "even rev"
    using assms(2,3) by (auto simp: tryCopySessionRef_def split: Option.bind_splits if_splits)
  obtain v where v: "shm_u32 (core_shm e (t + 1)) 0 = Some v" "SHM_VERSION_COMPATIBLE CORE_SHM_VERSION v"
    using assms(1) unfolding core_serves_def by blast
  have st: "shm_u32 (core_shm e (t + 2)) 20 = Some CORE_ACTIVE" using assms(1) unfolding core_serves_def by blast
  obtain i w sz path er where f: "shm_u32 (core_shm e (t + 3)) 8 = Some i" "shm_u32 (core_shm e (t + 4)) 12 = Some w" "shm_u32 (core_shm e (t + 5)) 16 = Some sz"
    "shm_copy (core_shm e) (t + 6) 24 64 = Some path" "shm_u32 (core_shm e (t + 70)) 4 = Some er" "er = rev"
    "ref = \<lparr>ref_id = i, ref_version = w, ref_size = sz, ref_path = path\<rparr>"
    using assms(2,3) rev v st by (auto simp: tryCopySessionRef_def Let_def split: Option.bind_splits if_splits)
  show ?thesis using rev f shm_copy_bytes [OF f(4)] unfolding reference_read_def
    by (intro exI [of _ t] exI [of _ rev] conjI) simp_all
qed

lemma open_loop_result:
  "open_loop e junk n t = Some (t', res) \<Longrightarrow> case res of Inl code \<Rightarrow> code \<noteq> rc_ok
     | Inr copy \<Rightarrow> \<exists>ref. copied_from e ref copy \<and> (core_serves e \<longrightarrow> reference_read e ref)"
proof (induction n arbitrary: t)
  case (Suc n)
  obtain r t1 ref where r: "tryCopySessionRef (core_shm e) t (junk n) = Some (r, t1, ref)" using Suc.prems by (auto split: Option.bind_splits)
  show ?case
  proof (cases "r = rc_busy")
    case True
    then show ?thesis using Suc.IH Suc.prems r by simp
  next
    case False
    obtain path where p: "c_string (ref_path ref) = Some path" using Suc.prems r False by (auto split: Option.bind_splits)
    show ?thesis
    proof (cases "open_session_shm e path (ref_size ref)")
      case None
      then show ?thesis using Suc.prems r False p by auto
    next
      case (Some s)
      then obtain x where x: "copy_session s t1 ref = Some x" "res = x" using Suc.prems r False p by auto
      show ?thesis
      proof (cases x)
        case (Inl code)
        then show ?thesis using x copy_session_code by auto
      next
        case (Inr copy)
        then show ?thesis using x copy_session_sound [OF _ p Some] reference_of_serving [OF _ r False] by auto
      qed
    qed
  qed
qed auto

lemma openCore_keeps:
  "openCoreShmHandle e t a = Some (r, t', a') \<Longrightarrow> active_session a' = active_session a \<and> api_events a' = api_events a"
  by (auto simp: openCoreShmHandle_def split: if_splits Option.bind_splits)

lemma openSession_cases:
  assumes "openSession e junk t a = Some (r, a')"
  shows "if r = rc_ok then \<exists>ref copy s. active_session a' = Some s \<and> copied_from e ref copy \<and> (core_serves e \<longrightarrow> reference_read e ref) \<and> session_copy_ok e copy s \<and>
      api_events a' = api_events a @ [SessionStateChanged connected_monitor 0 0]
    else active_session a' = active_session a \<and> api_events a' = api_events a"
proof (cases "core_state a = state_invalid")
  case True
  obtain r0 t0 a0 where o: "openCoreShmHandle e t a = Some (r0, t0, a0)" using assms True by (auto simp: openSession_def split: Option.bind_splits)
  note K = openCore_keeps [OF o]
  show ?thesis
  proof (cases "r0 = rc_ok")
    case ok: True
    obtain t1 res where l: "open_loop e junk (attempts e) t0 = Some (t1, res)" using assms True o ok by (auto simp: openSession_def split: Option.bind_splits)
    note L = open_loop_result [OF l]
    show ?thesis
    proof (cases res)
      case (Inl code)
      then show ?thesis using assms True o ok l L K by (auto simp: openSession_def)
    next
      case (Inr copy)
      then have tr: "tryOpeningSession e t1 copy a0 = Some (r, a')" using assms True o ok l by (simp add: openSession_def)
      obtain ref where act: "copied_from e ref copy" "core_serves e \<longrightarrow> reference_read e ref" using L Inr by auto
      note C = tryOpening_cases [OF tr]
      show ?thesis
      proof (cases "r = rc_ok")
        case True
        then obtain s where "active_session a' = Some s" "session_copy_ok e copy s" "api_events a' = api_events a0 @ [SessionStateChanged connected_monitor 0 0]"
          using C by auto
        then show ?thesis using K act True by auto
      next
        case False
        then show ?thesis using C K by simp
      qed
    qed
  next
    case False
    then show ?thesis using assms True o K by (auto simp: openSession_def)
  qed
next
  case False
  then show ?thesis using assms by (auto simp: openSession_def)
qed

section \<open>The snapshot of the core block\<close>

text \<open>If the core block does not change while its counter keeps an even value, an accepted reference is a
  snapshot of it.\<close>

lemma session_ref_consistent:
  assumes quiet: "\<And>t1 t2 r. t1 \<le> t2 \<Longrightarrow> shm_u32 (m t1) 4 = Some r \<Longrightarrow> shm_u32 (m t2) 4 = Some r \<Longrightarrow> even r \<Longrightarrow> (\<forall>u. t1 \<le> u \<and> u \<le> t2 \<longrightarrow> m u = m t1)"
    and r: "tryCopySessionRef m t ref0 = Some (rc_ok, t', ref)"
  shows "shm_u32 (m t) 20 = Some CORE_ACTIVE \<and> shm_u32 (m t) 8 = Some (ref_id ref) \<and> shm_u32 (m t) 12 = Some (ref_version ref) \<and>
    shm_u32 (m t) 16 = Some (ref_size ref) \<and> ref_path ref = take 64 (drop 24 (m t)) \<and> ref_path ref ! 63 = 0"
proof -
  obtain sr where sr: "shm_u32 (m t) 4 = Some sr" "even sr" using r by (auto simp: tryCopySessionRef_def split: Option.bind_splits if_splits)
  obtain v st i w sz path er where f: "shm_u32 (m (t + 1)) 0 = Some v" "shm_u32 (m (t + 2)) 20 = Some st" "st = CORE_ACTIVE" "shm_u32 (m (t + 3)) 8 = Some i"
    "shm_u32 (m (t + 4)) 12 = Some w" "shm_u32 (m (t + 5)) 16 = Some sz" "shm_copy m (t + 6) 24 64 = Some path" "shm_u32 (m (t + 70)) 4 = Some er"
    "er = sr" "ref = \<lparr>ref_id = i, ref_version = w, ref_size = sz, ref_path = path\<rparr>" "path ! 63 = 0"
    using r sr by (auto simp: tryCopySessionRef_def Let_def split: Option.bind_splits if_splits)
  have le: "t \<le> t + 70" by simp
  from quiet [OF le sr(1) f(8) [unfolded f(9)] sr(2)] have q: "m u = m t" if "t \<le> u" "u \<le> t + 70" for u using that by blast
  have "path = take 64 (drop 24 (m t))"
    by (rule conjunct2 [OF shm_copy_quiet [OF _ f(7)]]) (rule q, simp_all)
  moreover have e: "m (t + 2) = m t" "m (t + 3) = m t" "m (t + 4) = m t" "m (t + 5) = m t" by (rule q, simp_all)+
  ultimately show ?thesis using f(2-6,10,11) unfolding e by simp
qed

text \<open>A core block whose backend is not active is refused by \<^verbatim>\<open>tryCopySessionRef\<close>, but the loop of
  \<^verbatim>\<open>openSession\<close> goes on with the uninitialized reference.\<close>

lemma offline_core_ignored:
  assumes "shm_u32 (core_shm e t) 4 = Some 2" "shm_u32 (core_shm e (t + 1)) 0 = Some 1" "shm_u32 (core_shm e (t + 2)) 20 = Some 0"
  shows "open_loop e junk (Suc n) t = c_string (ref_path (junk n)) \<bind> (\<lambda>path.
     case open_session_shm e path (ref_size (junk n)) of None \<Rightarrow> Some (t + 3, Inl rc_cannot_connect)
     | Some s \<Rightarrow> map_option (Pair (t + 3)) (copy_session s (t + 3) (junk n)))"
  using assms by (simp add: tryCopySessionRef_def SHM_VERSION_COMPATIBLE_def CORE_SHM_VERSION_def CORE_ACTIVE_def)

section \<open>Properties\<close>

text \<open>C39: a session is only opened on checked data, however the backend rewrites its blocks. When
  \<^verbatim>\<open>openSession\<close> succeeds, a copy was made byte by byte of the block that a reference names; that block had the
  reference's id and version, a size not above the announced one, and was active, and so is the copy. The session
  rests on this copy alone: it has the copy's id, which the core block had as well when it was compared behind
  the checks, the protocol's major version, and the packet sizes of the copy, which are at least 4096 and 1400;
  its five data blocks are those that the copy's table of references, which lies in the copy, lists under the
  required ids with compatible versions and terminated paths, all of them opened; its security methods are those at
  the copy's non-zero offsets, in their order, with keys and signatures inside the copy; and the new state is
  notified. If the core block is in service, the reference was read from it under an unchanged even revision
  (if not, the code may go on with an uninitialized one: \<open>offline_core_ignored\<close>). When opening fails, the active
  session and the events are unchanged.\<close>

theorem session_opened:
  assumes "openSession e junk t a = Some (r, a')"
  shows "if r = rc_ok then \<exists>ref copy s. active_session a' = Some s \<and> copied_from e ref copy \<and> (core_serves e \<longrightarrow> reference_read e ref) \<and>
      session_copy_ok e copy s \<and>
      api_events a' = api_events a @ [SessionStateChanged connected_monitor 0 0] \<and> createEventQueue a' = [SessionStateChanged connected_monitor 0 0]
    else active_session a' = active_session a \<and> api_events a' = api_events a \<and> createEventQueue a' = createEventQueue a"
proof (cases "r = rc_ok")
  case True
  then obtain ref copy s where s: "active_session a' = Some s" "copied_from e ref copy" "core_serves e \<longrightarrow> reference_read e ref" "session_copy_ok e copy s"
    "api_events a' = api_events a @ [SessionStateChanged connected_monitor 0 0]"
    using openSession_cases [OF assms] by auto
  then obtain i where "os_session s = new_session i" by (auto simp: session_copy_ok_def)
  then have "createEventQueue a' = [SessionStateChanged connected_monitor 0 0]" using s(1) by (simp add: createEventQueue_def new_session_def)
  then show ?thesis unfolding if_P [OF True] by (intro exI [of _ ref] exI [of _ copy] exI [of _ s] conjI s) simp_all
next
  case False
  then show ?thesis using openSession_cases [OF assms] by (simp add: createEventQueue_def)
qed

definition wit_path :: bytes where
  "wit_path = [98] @ replicate 63 0"

definition wit_core :: bytes where
  "wit_core = le_bytes 4 1 @ le_bytes 4 2 @ le_bytes 4 9 @ le_bytes 4 1 @ le_bytes 4 600 @ le_bytes 4 2 @ wit_path"

definition wit_ref :: "int \<Rightarrow> bytes" where
  "wit_ref i = le_bytes 4 i @ le_bytes 4 1 @ le_bytes 4 32 @ wit_path"

definition wit_session_block :: bytes where
  "wit_session_block = le_bytes 4 1 @ le_bytes 4 9 @ le_bytes 4 1 @ le_bytes 4 0 @ le_bytes 4 537 @ replicate 48 0 @ le_bytes 4 0 @ replicate 22 0 @
     le_bytes 2 4096 @ le_bytes 2 1400 @ replicate 18 0 @ le_bytes 2 5 @ le_bytes 2 76 @ le_bytes 4 144 @ le_bytes 2 524 @ replicate 18 0 @
     wit_ref SIM_DATA_SHM_ID @ wit_ref DEVICE_INFO_SHM_ID @ wit_ref VARIABLE_HEADER_SHM_ID @ wit_ref VARIABLE_DATA_SHM_ID @ wit_ref TELEMETRY_DEFINITION_SHM_ID @
     le_bytes 2 1 @ le_bytes 2 2 @ le_bytes 2 10 @ le_bytes 2 1 @ le_bytes 2 12 @ [7, 8, 9]"

definition wit_env :: api_env where
  "wit_env = \<lparr>core_shm = (\<lambda>_. wit_core), core_available = True, open_session_shm = (\<lambda>path sz. if path = [98] \<and> sz = 600 then Some (\<lambda>_. wit_session_block) else None),
     open_block = (\<lambda>path sz. path = [98] \<and> sz = 32), attempts = 3\<rparr>"

lemma wit_path_string: "length wit_path = 64" "wit_path ! 63 = 0" "c_string wit_path = Some [98]"
  by (simp_all add: wit_path_def c_string_def)

lemma wit_core_ref: "tryCopySessionRef (\<lambda>_. wit_core) t ref0 = Some (rc_ok, t + 71, \<lparr>ref_id = 9, ref_version = 1, ref_size = 600, ref_path = wit_path\<rparr>)"
proof -
  have "shm_copy (\<lambda>_. wit_core) (t + 6) 24 64 = Some wit_path"
    using shm_copy_same [of 64 24 "\<lambda>_. wit_core" "t + 6" wit_core] by (simp add: wit_core_def wit_path_string(1))
  then show ?thesis
    by (simp add: tryCopySessionRef_def shm_u32_def rd_bytes_def wit_core_def le_int_le_bytes wit_path_string SHM_VERSION_COMPATIBLE_def CORE_SHM_VERSION_def CORE_ACTIVE_def)
qed

lemma wit_length: "length wit_session_block = 537"
  by (simp add: wit_session_block_def wit_ref_def wit_path_string(1))

lemma wit_copied: "copy_session (\<lambda>_. wit_session_block) t \<lparr>ref_id = 9, ref_version = 1, ref_size = 600, ref_path = wit_path\<rparr> = Some (Inr wit_session_block)"
proof -
  have "shm_copy (\<lambda>_. wit_session_block) (t + 4) 0 537 = Some wit_session_block"
    using shm_copy_same [of 537 0 "\<lambda>_. wit_session_block" "t + 4" wit_session_block] by (simp add: wit_length)
  moreover have "shm_u32 wit_session_block 16 = Some 537" "shm_u32 wit_session_block 4 = Some 9" "shm_u32 wit_session_block 0 = Some 1" "shm_u32 wit_session_block 8 = Some 1"
    by (simp_all add: shm_u32_def rd_bytes_def wit_length, simp_all add: wit_session_block_def le_int_le_bytes)
  ultimately show ?thesis by (simp add: copy_session_def SESSION_ACTIVE_def)
qed

lemma wit_refs: "shm_u32 wit_session_block 144 = Some SIM_DATA_SHM_ID" "shm_u32 wit_session_block 220 = Some DEVICE_INFO_SHM_ID" "shm_u32 wit_session_block 296 = Some VARIABLE_HEADER_SHM_ID" "shm_u32 wit_session_block 372 = Some VARIABLE_DATA_SHM_ID" "shm_u32 wit_session_block 448 = Some TELEMETRY_DEFINITION_SHM_ID" "shm_u32 wit_session_block 148 = Some 1" "shm_u32 wit_session_block 224 = Some 1" "shm_u32 wit_session_block 300 = Some 1" "shm_u32 wit_session_block 376 = Some 1" "shm_u32 wit_session_block 452 = Some 1" "shm_u32 wit_session_block 152 = Some 32" "shm_u32 wit_session_block 228 = Some 32" "shm_u32 wit_session_block 304 = Some 32" "shm_u32 wit_session_block 380 = Some 32" "shm_u32 wit_session_block 456 = Some 32"
  "rd_bytes wit_session_block 156 64 = Some wit_path" "rd_bytes wit_session_block 232 64 = Some wit_path" "rd_bytes wit_session_block 308 64 = Some wit_path" "rd_bytes wit_session_block 384 64 = Some wit_path" "rd_bytes wit_session_block 460 64 = Some wit_path"
  by (simp_all add: shm_u32_def rd_bytes_def wit_length, simp_all add: wit_session_block_def wit_ref_def wit_path_string(1) le_int_le_bytes
      SIM_DATA_SHM_ID_def DEVICE_INFO_SHM_ID_def VARIABLE_HEADER_SHM_ID_def VARIABLE_DATA_SHM_ID_def TELEMETRY_DEFINITION_SHM_ID_def)

lemma wit_ids: "DEVICE_INFO_SHM_ID \<noteq> SIM_DATA_SHM_ID" "VARIABLE_HEADER_SHM_ID \<noteq> SIM_DATA_SHM_ID" "VARIABLE_DATA_SHM_ID \<noteq> SIM_DATA_SHM_ID"
  "TELEMETRY_DEFINITION_SHM_ID \<noteq> SIM_DATA_SHM_ID" "VARIABLE_HEADER_SHM_ID \<noteq> DEVICE_INFO_SHM_ID" "VARIABLE_DATA_SHM_ID \<noteq> DEVICE_INFO_SHM_ID"
  "TELEMETRY_DEFINITION_SHM_ID \<noteq> DEVICE_INFO_SHM_ID" "VARIABLE_DATA_SHM_ID \<noteq> VARIABLE_HEADER_SHM_ID" "TELEMETRY_DEFINITION_SHM_ID \<noteq> VARIABLE_HEADER_SHM_ID"
  "TELEMETRY_DEFINITION_SHM_ID \<noteq> VARIABLE_DATA_SHM_ID"
  by (simp_all add: SIM_DATA_SHM_ID_def DEVICE_INFO_SHM_ID_def VARIABLE_HEADER_SHM_ID_def VARIABLE_DATA_SHM_ID_def TELEMETRY_DEFINITION_SHM_ID_def)

lemma wit_checked: "check_session wit_session_block = Some (Inr [220, 296, 372, 448, 144])"
proof -
  have f: "shm_u32 wit_session_block 68 = Some 0" "shm_u16 wit_session_block 94 = Some 4096" "shm_u16 wit_session_block 96 = Some 1400"
    "shm_u32 wit_session_block 120 = Some 144" "shm_u16 wit_session_block 118 = Some 76" "shm_u16 wit_session_block 116 = Some 5" "shm_u32 wit_session_block 16 = Some 537"
    by (simp_all add: shm_u32_def shm_u16_def rd_bytes_def wit_length, simp_all add: wit_session_block_def le_int_le_bytes)
  have r: "map (\<lambda>i. 144 + 76 * int i) [0..<5] = [144, 220, 296, 372, 448]" by (simp add: upt_rec)
  have c: "SHM_VERSION_COMPATIBLE 1 1" by (simp add: SHM_VERSION_COMPATIBLE_def)
  have "select_refs wit_session_block [144, 220, 296, 372, 448] required_shm_refs = Some (Some [220, 296, 372, 448, 144])"
    using wit_ids wit_ids [symmetric] by (simp add: required_shm_refs_def wit_refs c)
  then show ?thesis
    using f r by (simp add: check_session_def UDP_PROTOCOL_VERSION_MAJOR_def UDP_CONTROL_MIN_PLAINTEXT_def UDP_CONTROL_MIN_ENCRYPTED_def is_within_session_buffer_def)
qed

lemma wit_opened: "open_blocks wit_env wit_session_block [220, 296, 372, 448, 144] =
    Some (Some [(DEVICE_INFO_SHM_ID, [98], 32), (VARIABLE_HEADER_SHM_ID, [98], 32), (VARIABLE_DATA_SHM_ID, [98], 32), (TELEMETRY_DEFINITION_SHM_ID, [98], 32), (SIM_DATA_SHM_ID, [98], 32)])"
  by (simp add: wit_refs wit_path_string wit_env_def)

lemma wit_options: "resolveSecureSessionOptions wit_session_block = Some (Some [\<lparr>sm_method = 1, sm_public_key = [7, 8], sm_signature = [9]\<rparr>])"
proof -
  have z: "le_int (replicate n 0) = 0" for n by (induction n) simp_all
  have o: "shm_u16 wit_session_block 124 = Some 524" "shm_u16 wit_session_block 126 = Some 0" "shm_u16 wit_session_block 128 = Some 0" "shm_u16 wit_session_block 130 = Some 0"
    "shm_u16 wit_session_block 132 = Some 0" "shm_u16 wit_session_block 134 = Some 0" "shm_u16 wit_session_block 136 = Some 0" "shm_u16 wit_session_block 138 = Some 0"
    by (simp_all add: shm_u16_def rd_bytes_def wit_length, simp_all add: wit_session_block_def le_int_le_bytes z)
  have m: "shm_u16 wit_session_block 524 = Some 1" "shm_u16 wit_session_block 526 = Some 2" "shm_u16 wit_session_block 528 = Some 10" "shm_u16 wit_session_block 530 = Some 1"
    "shm_u16 wit_session_block 532 = Some 12" "rd_bytes wit_session_block 534 2 = Some [7, 8]" "rd_bytes wit_session_block 536 (Suc 0) = Some [9]" "shm_u32 wit_session_block 16 = Some 537"
    by (simp_all add: shm_u16_def shm_u32_def rd_bytes_def wit_length, simp_all add: wit_session_block_def wit_ref_def wit_path_string(1) le_int_le_bytes)
  have "read_method wit_session_block 537 524 = Some (Some \<lparr>sm_method = 1, sm_public_key = [7, 8], sm_signature = [9]\<rparr>)"
    by (simp add: read_method_def is_within_session_buffer_def m)
  then show ?thesis using o m(8) by (simp add: resolveSecureSessionOptions_def MAX_PUBLIC_KEYS_def eval_nat_numeral)
qed

theorem session_opened_witness:
  "\<exists>a' s ref copy. openSession wit_env (\<lambda>_. \<lparr>ref_id = 0, ref_version = 0, ref_size = 0, ref_path = []\<rparr>) 0 new_api_core = Some (rc_ok, a') \<and>
    active_session a' = Some s \<and> copied_from wit_env ref copy \<and> reference_read wit_env ref \<and> session_copy_ok wit_env copy s \<and> secure_session_opts s = [\<lparr>sm_method = 1, sm_public_key = [7, 8], sm_signature = [9]\<rparr>] \<and>
    createEventQueue a' = [SessionStateChanged connected_monitor 0 0]"
proof -
  let ?junk = "\<lambda>_ :: nat. \<lparr>ref_id = 0, ref_version = 0, ref_size = 0, ref_path = []\<rparr>"
  let ?a = "new_api_core\<lparr>shm_core_open := True\<rparr>"
  have h: "openCoreShmHandle wit_env 0 new_api_core = Some (rc_ok, 1, ?a)"
    by (simp add: openCoreShmHandle_def new_api_core_def wit_env_def shm_u32_def rd_bytes_def wit_core_def wit_path_string le_int_le_bytes SHM_VERSION_COMPATIBLE_def CORE_SHM_VERSION_def)
  have at: "attempts wit_env = Suc 2" "core_shm wit_env = (\<lambda>_. wit_core)" "open_session_shm wit_env [98] 600 = Some (\<lambda>_. wit_session_block)"
    by (simp_all add: wit_env_def)
  have l: "open_loop wit_env ?junk (attempts wit_env) 1 = Some (72, Inr wit_session_block)"
    unfolding at(1) open_loop.simps by (simp add: at(2,3) wit_core_ref wit_path_string wit_copied)
  have ids: "shm_u32 wit_core 8 = Some 9" "shm_u32 wit_session_block 4 = Some 9" "shm_u16 wit_session_block 94 = Some 4096" "shm_u16 wit_session_block 96 = Some 1400"
    by (simp_all add: shm_u32_def shm_u16_def rd_bytes_def wit_length, simp_all add: wit_core_def wit_path_string wit_session_block_def le_int_le_bytes)
  let ?s = "\<lparr>os_session = new_session 9, udp_max_plaintext_payload = 4096, udp_max_encrypted_payload = 1400,
      secure_session_opts = [\<lparr>sm_method = 1, sm_public_key = [7, 8], sm_signature = [9]\<rparr>],
      os_blocks = [(DEVICE_INFO_SHM_ID, [98], 32), (VARIABLE_HEADER_SHM_ID, [98], 32), (VARIABLE_DATA_SHM_ID, [98], 32), (TELEMETRY_DEFINITION_SHM_ID, [98], 32), (SIM_DATA_SHM_ID, [98], 32)]\<rparr>"
  let ?a' = "?a\<lparr>active_session := Some ?s, api_events := api_events ?a @ [SessionStateChanged connected_monitor 0 0]\<rparr>"
  have "tryOpeningSession wit_env 72 wit_session_block ?a = Some (rc_ok, ?a')"
    by (simp add: tryOpeningSession_def wit_checked at(2) ids wit_options wit_opened del: open_blocks.simps)
  then have o: "openSession wit_env ?junk 0 new_api_core = Some (rc_ok, ?a')"
    using h l by (simp add: openSession_def new_api_core_def)
  have sv: "core_serves wit_env"
    by (simp add: core_serves_def wit_env_def shm_u32_def rd_bytes_def wit_core_def wit_path_string le_int_le_bytes SHM_VERSION_COMPATIBLE_def
        CORE_SHM_VERSION_def CORE_ACTIVE_def nth_append)
  obtain ref copy s where r: "active_session ?a' = Some s" "copied_from wit_env ref copy" "reference_read wit_env ref" "session_copy_ok wit_env copy s"
      "createEventQueue ?a' = [SessionStateChanged connected_monitor 0 0]"
    using session_opened [OF o, unfolded if_P [OF refl]] sv by blast
  have "s = ?s" using r(1) by simp
  then show ?thesis using o r by (intro exI [of _ ?a'] exI [of _ s] exI [of _ ref] exI [of _ copy] conjI) simp_all
qed

end
