(* ===== verification/Api_Thread.thy ===== *)
theory Api_Thread
  imports Api_Core
begin

text \<open>
  core/src/api.cpp: the background thread that keeps a session open and tells the listeners, and the two
  listeners that register for control. A listener is a number; what the thread calls is collected in a
  log. A round of the loop is split where the thread takes the lock: before, it runs the session or opens
  one (the state in which \<^verbatim>\<open>runUntilStateChanges\<close> returned, the session's flags and the result of
  \<^verbatim>\<open>openSession\<close> are arguments), behind, it works off the queue of added and removed listeners. A session
  is known by its number.
\<close>

section \<open>State\<close>

datatype listener_action = AddListener nat | RemoveListener nat

datatype callback =
    ListenerAdded nat "int option"
  | ListenerRemoved nat
  | StateChanged nat int SessionState
  | FlagsChanged nat int "32 word"

datatype thread_pc = At_top | At_lock | Thread_done

record api_thread =
  at_pc :: thread_pc
  connected :: bool
  at_session :: "int option"
  listeners :: "nat list"
  prev_session_state :: SessionState
  active_control_flags :: "32 word"
  listener_action_queue :: "listener_action list"
  running :: bool
  shared_session :: "int option"
  closed_sessions :: "int list"
  callbacks :: "callback list"

definition new_api :: api_thread where
  "new_api = \<lparr>at_pc = At_top, connected = False, at_session = None, listeners = [], prev_session_state = state_invalid, active_control_flags = 0,
     listener_action_queue = [], running = True, shared_session = None, closed_sessions = [], callbacks = []\<rparr>"

section \<open>The callers\<close>

definition addListener :: "nat \<Rightarrow> api_thread \<Rightarrow> api_thread" where
  "addListener l a = a\<lparr>listener_action_queue := listener_action_queue a @ [AddListener l]\<rparr>"

text \<open>Up to its wait for the thread.\<close>

definition removeListener :: "nat \<Rightarrow> api_thread \<Rightarrow> api_thread" where
  "removeListener l a = a\<lparr>listener_action_queue := listener_action_queue a @ [RemoveListener l]\<rparr>"

definition destroy_api :: "api_thread \<Rightarrow> api_thread" where
  "destroy_api a = a\<lparr>running := False\<rparr>"

section \<open>A round of the thread\<close>

definition notify :: "(nat \<Rightarrow> callback) \<Rightarrow> api_thread \<Rightarrow> api_thread" where
  "notify cb a = a\<lparr>callbacks := callbacks a @ map cb (listeners a)\<rparr>"

text \<open>With a session; the result says whether the round starts over.\<close>

definition run_session :: "SessionState \<Rightarrow> 32 word \<Rightarrow> api_thread \<Rightarrow> (bool \<times> api_thread) option" where
  "run_session state flags a = (case at_session a of
     None \<Rightarrow> None
   | Some s \<Rightarrow>
       (let a = (if state \<noteq> prev_session_state a then notify (\<lambda>l. StateChanged l s state) (a\<lparr>prev_session_state := state\<rparr>) else a)
        in if state = session_lost
           then Some (True, a\<lparr>connected := False, closed_sessions := closed_sessions a @ [s], shared_session := None, at_session := None\<rparr>)
           else if flags \<noteq> active_control_flags a
           then Some (False, notify (\<lambda>l. FlagsChanged l s flags) (a\<lparr>active_control_flags := flags\<rparr>))
           else Some (False, a)))"

text \<open>Without one; other errors fail the assertion. Only success changes the handle.\<close>

definition connect_session :: "ResultCode \<Rightarrow> int \<Rightarrow> api_thread \<Rightarrow> api_thread option" where
  "connect_session result s a =
     (if result = rc_ok then
        Some (notify (\<lambda>l. StateChanged l s connected_monitor)
          (a\<lparr>at_session := Some s, shared_session := Some s, active_control_flags := 0, prev_session_state := connected_monitor, connected := True\<rparr>))
      else if result \<in> {rc_busy, rc_incompatible, rc_timeout, rc_protocol, rc_cannot_connect} then Some a
      else None)"

text \<open>\<^verbatim>\<open>std::remove\<close> moves the elements that stay to the front and returns the end of them; behind it the
  array of pointers keeps what it had.\<close>

definition std_remove :: "nat \<Rightarrow> nat list \<Rightarrow> nat \<times> nat list" where
  "std_remove l xs = (let ys = filter (\<lambda>x. x \<noteq> l) xs in (length ys, ys @ drop (length ys) xs))"

text \<open>The listeners, \<^verbatim>\<open>add_notify_index\<close> and the removed listeners.\<close>

fun process_action :: "listener_action \<Rightarrow> nat list \<times> nat \<times> nat list \<Rightarrow> nat list \<times> nat \<times> nat list" where
  "process_action (AddListener l) (ls, add_notify_index, removed) = (ls @ [l], add_notify_index, removed)"
| "process_action (RemoveListener l) (ls, add_notify_index, removed) =
     (case std_remove l ls of (removed_it, ls') \<Rightarrow>
        (if removed_it \<noteq> length ls
         then (take removed_it ls' @ drop (removed_it + 1) ls',
               if removed_it < add_notify_index then add_notify_index - 1 else add_notify_index, removed @ [l])
         else (ls', add_notify_index, removed @ [l])))"

definition process_queue :: "listener_action list \<Rightarrow> nat list \<Rightarrow> nat list \<times> nat \<times> nat list" where
  "process_queue q ls = fold process_action q (ls, length ls, [])"

text \<open>The listeners are told behind the lock; the result says whether the thread ends.\<close>

definition work_off_queue :: "api_thread \<Rightarrow> bool \<times> api_thread" where
  "work_off_queue a = (case process_queue (listener_action_queue a) (listeners a) of (ls, add_notify_index, removed) \<Rightarrow>
     (\<not> running a, a\<lparr>listeners := ls, listener_action_queue := [],
        callbacks := callbacks a @ map ListenerRemoved removed @ map (\<lambda>l. ListenerAdded l (at_session a)) (drop add_notify_index ls)\<rparr>))"

definition end_thread :: "api_thread \<Rightarrow> api_thread" where
  "end_thread a =
     (let a = (case at_session a of
           None \<Rightarrow> a
         | Some s \<Rightarrow> (notify (\<lambda>l. StateChanged l s session_lost) (a\<lparr>shared_session := None\<rparr>))\<lparr>closed_sessions := closed_sessions a @ [s]\<rparr>)
      in (notify ListenerRemoved a)\<lparr>at_pc := Thread_done\<rparr>)"

section \<open>Interleaving\<close>

inductive api_step :: "api_thread \<Rightarrow> api_thread \<Rightarrow> bool" where
  add: "api_step a (addListener l a)"
| remove: "api_step a (removeListener l a)"
| destroy: "api_step a (destroy_api a)"
| run: "at_pc a = At_top \<Longrightarrow> connected a \<Longrightarrow> run_session state flags a = Some (again, b) \<Longrightarrow>
    api_step a (b\<lparr>at_pc := if again then At_top else At_lock\<rparr>)"
| connect: "at_pc a = At_top \<Longrightarrow> \<not> connected a \<Longrightarrow> connect_session result s a = Some b \<Longrightarrow> api_step a (b\<lparr>at_pc := At_lock\<rparr>)"
| work: "at_pc a = At_lock \<Longrightarrow> work_off_queue a = (closing, b) \<Longrightarrow>
    api_step a (if closing then end_thread b else b\<lparr>at_pc := At_top\<rparr>)"

section \<open>Control enablers\<close>

record enabler =
  en_api :: bool
  en_control_flags :: "32 word"
  en_id_name :: bytes
  en_user_info :: ApiUserInformation

text \<open>The arguments of the call of \<^verbatim>\<open>registerToControl\<close> for a session, if there is one.\<close>

type_synonym registration = "int \<times> 32 word \<times> bytes \<times> ApiUserInformation \<times> secure_session option"

definition no_auth_register :: "enabler \<Rightarrow> int \<Rightarrow> registration" where
  "no_auth_register e s = (s, en_control_flags e, en_id_name e, en_user_info e, None)"

fun no_auth_callback :: "callback \<Rightarrow> enabler \<Rightarrow> registration option \<times> enabler" where
  "no_auth_callback (ListenerAdded l s) e = (map_option (no_auth_register e) s, e)"
| "no_auth_callback (ListenerRemoved l) e = (None, e\<lparr>en_api := False\<rparr>)"
| "no_auth_callback (StateChanged l s state) e = (if state = connected_monitor then Some (no_auth_register e s) else None, e)"
| "no_auth_callback (FlagsChanged l s flags) e = (None, e)"

record secure_enabler = enabler +
  en_public_key :: bytes
  en_private_key :: bytes

text \<open>\<^verbatim>\<open>opts\<close> are the options of the API's current session with its id, \<^term>\<open>None\<close> a null session; \<^verbatim>\<open>sess\<close> is
  a new secure session. Invalid options and a failed key exchange fail an assertion.\<close>

definition setupSecureSession ::
  "(bytes \<Rightarrow> bytes \<Rightarrow> bytes \<Rightarrow> bool) \<Rightarrow> aes_tables \<Rightarrow> sha512 \<Rightarrow> (int \<times> secure_method list) option \<Rightarrow> secure_session \<Rightarrow> secure_enabler \<Rightarrow> int \<Rightarrow> registration option" where
  "setupSecureSession verify tables ctx opts sess e s = (case opts of
     None \<Rightarrow> None
   | Some (i, []) \<Rightarrow> None
   | Some (i, m # ms) \<Rightarrow>
       (case tryKeyExchange verify (ss_params sess) i m (en_private_key e) (en_public_key e) of (r, params) \<Rightarrow>
          if r \<noteq> exchange_ok then None
          else do {
            sess \<leftarrow> ss_generateKey tables ctx (en_id_name e) (sess\<lparr>ss_params := params\<rparr>);
            Some (s, en_control_flags e, en_id_name e, en_user_info e, Some sess)
          }))"

end
