(* ===== verification/Api_Thread_Properties.thy ===== *)
theory Api_Thread_Properties
  imports Api_Thread
begin

text \<open>
  The calls a listener of the background thread sees: it is added before it is told anything, and told
  nothing after it was removed. The code keeps this promise except when a listener is removed in the same
  round, and after, another one was added.
\<close>

section \<open>The protocol of a listener\<close>

text \<open>Whether the listener is in, after a sequence of calls; \<^term>\<open>None\<close> is a call it should not have seen.
  Being removed without having been added is documented to be possible.\<close>

fun listener_phase :: "nat \<Rightarrow> bool \<Rightarrow> callback list \<Rightarrow> bool option" where
  "listener_phase l p [] = Some p"
| "listener_phase l p (ListenerAdded x s # cs) = (if x \<noteq> l then listener_phase l p cs else if p then None else listener_phase l True cs)"
| "listener_phase l p (ListenerRemoved x # cs) = (if x \<noteq> l then listener_phase l p cs else listener_phase l False cs)"
| "listener_phase l p (StateChanged x s state # cs) = (if x = l \<and> \<not> p then None else listener_phase l p cs)"
| "listener_phase l p (FlagsChanged x s flags # cs) = (if x = l \<and> \<not> p then None else listener_phase l p cs)"

lemma listener_phase_append: "listener_phase l p (cs @ ds) = listener_phase l p cs \<bind> (\<lambda>q. listener_phase l q ds)"
  by (induction l p cs rule: listener_phase.induct) simp_all

lemma phase_told:
  "listener_phase l (l \<in> set ls) (map (\<lambda>x. StateChanged x s st) ks) = Some (l \<in> set ls)"
  "listener_phase l (l \<in> set ls) (map (\<lambda>x. FlagsChanged x s fl) ks) = Some (l \<in> set ls)" if "set ks \<subseteq> set ls"
  using that by (induction ks) auto

lemma phase_removed: "listener_phase l p (map ListenerRemoved ks) = Some (p \<and> l \<notin> set ks)"
  by (induction ks arbitrary: p) auto

lemma phase_added: "distinct ks \<Longrightarrow> (l \<in> set ks \<Longrightarrow> \<not> p) \<Longrightarrow> listener_phase l p (map (\<lambda>x. ListenerAdded x s) ks) = Some (p \<or> l \<in> set ks)"
proof (induction ks arbitrary: p)
  case (Cons k ks)
  show ?case
  proof (cases "k = l")
    case True
    then have "listener_phase l True (map (\<lambda>x. ListenerAdded x s) ks) = Some True" using Cons.IH [of True] Cons.prems by simp
    then show ?thesis using True Cons.prems(2) by simp
  next
    case False
    then show ?thesis using Cons.IH [of p] Cons.prems by auto
  qed
qed simp

section \<open>Working off the queue\<close>

text \<open>The requests of one round: nobody is added twice, and no listener of an earlier round is removed behind
  an addition.\<close>

fun batch_ok :: "nat set \<Rightarrow> nat set \<Rightarrow> listener_action list \<Rightarrow> bool" where
  "batch_ok olds news [] = True"
| "batch_ok olds news (AddListener l # q) = (l \<notin> olds \<and> l \<notin> news \<and> batch_ok olds (insert l news) q)"
| "batch_ok olds news (RemoveListener l # q) =
     (if l \<in> olds then news = {} \<and> batch_ok (olds - {l}) news q else batch_ok olds (news - {l}) q)"

lemma length_filter_neq: "distinct xs \<Longrightarrow> l \<in> set xs \<Longrightarrow> Suc (length (filter (\<lambda>x. x \<noteq> l) xs)) = length xs"
proof (induction xs)
  case (Cons x xs)
  show ?case
  proof (cases "x = l")
    case True
    have "filter (\<lambda>y. y \<noteq> l) xs = xs" using Cons.prems(1) True by (intro filter_True) auto
    then show ?thesis using True by simp
  next
    case False
    then show ?thesis using Cons by simp
  qed
qed simp

lemma std_remove_distinct:
  assumes "distinct xs" "l \<in> set xs"
  shows "std_remove l xs = (length xs - 1, filter (\<lambda>x. x \<noteq> l) xs @ [last xs])"
proof -
  have n: "length (filter (\<lambda>x. x \<noteq> l) xs) = length xs - 1"
    using length_filter_neq [OF assms] by simp
  have ne: "xs \<noteq> []" using assms(2) by auto
  have "drop (length xs - 1) xs = [last xs]" using ne by (metis append_butlast_last_id append_eq_conv_conj length_butlast)
  then show ?thesis by (simp add: std_remove_def n Let_def)
qed

lemma remove_step:
  assumes "distinct xs"
  shows "process_action (RemoveListener l) (xs, i, rs) =
    (filter (\<lambda>x. x \<noteq> l) xs, if l \<in> set xs \<and> length xs - 1 < i then i - 1 else i, rs @ [l])"
proof (cases "l \<in> set xs")
  case True
  have n: "length (filter (\<lambda>x. x \<noteq> l) xs) = length xs - 1"
    using length_filter_neq [OF assms True] by simp
  have "length xs - 1 \<noteq> length xs" using True by (cases xs) auto
  then show ?thesis using True by (simp add: std_remove_distinct [OF assms True] n)
next
  case False
  then have "filter (\<lambda>x. x \<noteq> l) xs = xs" by (metis (mono_tags, lifting) filter_True)
  then show ?thesis using False by (simp add: std_remove_def)
qed

text \<open>The listeners of earlier rounds stay in front, and the index points behind them.\<close>

lemma process_batch:
  assumes "distinct (olds @ news)" "batch_ok (set olds) (set news) q"
  shows "\<exists>olds' news' more. fold process_action q (olds @ news, length olds, rs) = (olds' @ news', length olds', rs @ more) \<and>
    distinct (olds' @ news') \<and> set olds' = set olds - set more \<and> set news' \<inter> (set olds - set more) = {} \<and>
    (\<forall>l. l \<in> set news' \<longrightarrow> l \<in> set olds \<longrightarrow> l \<in> set more)"
  using assms
proof (induction q arbitrary: olds news rs)
  case Nil
  then show ?case by (intro exI [of _ olds] exI [of _ news] exI [of _ "[]"]) auto
next
  case (Cons a q)
  show ?case
  proof (cases a)
    case (AddListener l)
    have d: "distinct (olds @ (news @ [l]))" "batch_ok (set olds) (set (news @ [l])) q" using Cons.prems AddListener by auto
    have s: "process_action a (olds @ news, length olds, rs) = (olds @ (news @ [l]), length olds, rs)" by (simp add: AddListener)
    show ?thesis unfolding fold_simps comp_def s by (rule Cons.IH [OF d])
  next
    case (RemoveListener l)
    let ?f = "filter (\<lambda>x. x \<noteq> l)"
    show ?thesis
    proof (cases "l \<in> set olds")
      case True
      then have news: "news = []" "batch_ok (set olds - {l}) {} q" using Cons.prems(2) RemoveListener by auto
      have d: "distinct (?f olds @ [])" "batch_ok (set (?f olds)) (set []) q" using Cons.prems(1) news by (auto simp: set_diff_eq)
      have n: "length (?f olds) = length olds - 1"
        using length_filter_neq [OF _ True] Cons.prems(1) by simp
      have lt: "length olds - Suc 0 < length olds" using True by (cases olds) auto
      have s: "process_action a (olds @ news, length olds, rs) = (?f olds @ [], length (?f olds), rs @ [l])"
        using Cons.prems(1) True news(1) lt unfolding RemoveListener by (subst remove_step) (auto simp: n)
      obtain olds' news' more where r: "fold process_action q (?f olds @ [], length (?f olds), rs @ [l]) = (olds' @ news', length olds', (rs @ [l]) @ more)"
        "distinct (olds' @ news')" "set olds' = set (?f olds) - set more" "set news' \<inter> (set (?f olds) - set more) = {}"
        "\<forall>k. k \<in> set news' \<longrightarrow> k \<in> set (?f olds) \<longrightarrow> k \<in> set more"
        using Cons.IH [OF d, of "rs @ [l]"] by blast
      have f: "fold process_action (a # q) (olds @ news, length olds, rs) = (olds' @ news', length olds', rs @ (l # more))"
        unfolding fold_simps comp_def s using r(1) by simp
      show ?thesis
        by (intro exI [of _ olds'] exI [of _ news'] exI [of _ "l # more"] conjI, rule f, rule r(2)) (use r(3-5) in auto)
    next
      case False
      then have b: "batch_ok (set olds) (set news - {l}) q" using Cons.prems(2) RemoveListener by auto
      have d: "distinct (olds @ ?f news)" "batch_ok (set olds) (set (?f news)) q" using Cons.prems(1) b by (auto simp: set_diff_eq)
      have fo: "?f olds = olds" using False by (metis (mono_tags, lifting) filter_True)
      have len: "\<not> (l \<in> set (olds @ news) \<and> length (olds @ news) - 1 < length olds)"
        using False by (cases news) auto
      have s: "process_action a (olds @ news, length olds, rs) = (olds @ ?f news, length olds, rs @ [l])"
        unfolding RemoveListener remove_step [OF Cons.prems(1)] using len fo by auto
      obtain olds' news' more where r: "fold process_action q (olds @ ?f news, length olds, rs @ [l]) = (olds' @ news', length olds', (rs @ [l]) @ more)"
        "distinct (olds' @ news')" "set olds' = set olds - set more" "set news' \<inter> (set olds - set more) = {}"
        "\<forall>k. k \<in> set news' \<longrightarrow> k \<in> set olds \<longrightarrow> k \<in> set more"
        using Cons.IH [OF d, of "rs @ [l]"] by blast
      have f: "fold process_action (a # q) (olds @ news, length olds, rs) = (olds' @ news', length olds', rs @ (l # more))"
        unfolding fold_simps comp_def s using r(1) by simp
      show ?thesis
        by (intro exI [of _ olds'] exI [of _ news'] exI [of _ "l # more"] conjI, rule f, rule r(2)) (use r(3-5) False in auto)
    qed
  qed
qed

section \<open>The invariant\<close>

definition told_in_order :: "api_thread \<Rightarrow> bool" where
  "told_in_order a \<longleftrightarrow> distinct (listeners a) \<and> (connected a \<longrightarrow> at_session a \<noteq> None) \<and>
     (\<forall>l. listener_phase l False (callbacks a) = Some (at_pc a \<noteq> Thread_done \<and> l \<in> set (listeners a)))"

text \<open>Steps in which the queue that is worked off is as above.\<close>

definition orderly_step :: "api_thread \<Rightarrow> api_thread \<Rightarrow> bool" where
  "orderly_step a b \<longleftrightarrow> api_step a b \<and> (at_pc a = At_lock \<longrightarrow> batch_ok (set (listeners a)) {} (listener_action_queue a))"

lemma notify_told:
  assumes "told_in_order a" "at_pc a \<noteq> Thread_done" "\<And>l. listener_phase l (l \<in> set (listeners a)) (map cb (listeners a)) = Some (l \<in> set (listeners a))"
  shows "told_in_order (notify cb a)"
  using assms by (simp add: told_in_order_def notify_def listener_phase_append)

lemma notify_fields [simp]:
  "listeners (notify cb a) = listeners a" "connected (notify cb a) = connected a" "at_session (notify cb a) = at_session a" "at_pc (notify cb a) = at_pc a"
  "active_control_flags (notify cb a) = active_control_flags a" "running (notify cb a) = running a" "closed_sessions (notify cb a) = closed_sessions a"
  "shared_session (notify cb a) = shared_session a"
  by (simp_all add: notify_def)

lemma run_told:
  assumes "told_in_order a" "at_pc a = At_top" "run_session st fl a = Some (again, b)"
  shows "told_in_order (b\<lparr>at_pc := if again then At_top else At_lock\<rparr>)"
proof -
  obtain s where s: "at_session a = Some s" using assms(3) by (auto simp: run_session_def split: option.splits)
  define c where "c = (if st \<noteq> prev_session_state a then notify (\<lambda>l. StateChanged l s st) (a\<lparr>prev_session_state := st\<rparr>) else a)"
  have p: "told_in_order (a\<lparr>prev_session_state := st\<rparr>)" "at_pc (a\<lparr>prev_session_state := st\<rparr>) \<noteq> Thread_done"
    using assms(1,2) by (simp_all add: told_in_order_def)
  have c: "told_in_order c" "at_pc c = At_top" "at_session c = Some s"
    using assms(1,2) s notify_told [OF p, of "\<lambda>l. StateChanged l s st"] by (simp_all add: c_def phase_told)
  then have q: "told_in_order (c\<lparr>active_control_flags := fl\<rparr>)" "at_pc (c\<lparr>active_control_flags := fl\<rparr>) \<noteq> Thread_done" by (simp_all add: told_in_order_def)
  have "told_in_order (notify (\<lambda>l. FlagsChanged l s fl) (c\<lparr>active_control_flags := fl\<rparr>))"
    by (rule notify_told [OF q]) (simp add: phase_told)
  then show ?thesis
    using assms(3) c s unfolding run_session_def by (auto simp: c_def [symmetric] Let_def told_in_order_def split: if_splits)
qed

lemma connect_told:
  assumes "told_in_order a" "at_pc a = At_top" "connect_session r s a = Some b"
  shows "told_in_order (b\<lparr>at_pc := At_lock\<rparr>)"
proof -
  let ?c = "a\<lparr>at_session := Some s, shared_session := Some s, active_control_flags := 0, prev_session_state := connected_monitor, connected := True\<rparr>"
  have p: "told_in_order ?c" "at_pc ?c \<noteq> Thread_done" using assms(1,2) by (simp_all add: told_in_order_def)
  have "told_in_order (notify (\<lambda>l. StateChanged l s connected_monitor) ?c)" by (rule notify_told [OF p]) (simp add: phase_told)
  then show ?thesis using assms by (auto simp: connect_session_def told_in_order_def split: if_splits)
qed

lemma work_told:
  assumes "told_in_order a" "at_pc a = At_lock" "batch_ok (set (listeners a)) {} (listener_action_queue a)" "work_off_queue a = (closing, b)"
  shows "told_in_order b" "at_pc b = At_lock"
proof -
  have d: "distinct (listeners a @ [])" "batch_ok (set (listeners a)) (set []) (listener_action_queue a)" using assms(1,3) by (simp_all add: told_in_order_def)
  obtain olds news more where r: "process_queue (listener_action_queue a) (listeners a) = (olds @ news, length olds, more)"
    "distinct (olds @ news)" "set olds = set (listeners a) - set more" "\<forall>l. l \<in> set news \<longrightarrow> l \<in> set (listeners a) \<longrightarrow> l \<in> set more"
    using process_batch [OF d, of "[]"] by (auto simp: process_queue_def)
  have b: "b = a\<lparr>listeners := olds @ news, listener_action_queue := [],
      callbacks := callbacks a @ map ListenerRemoved more @ map (\<lambda>l. ListenerAdded l (at_session a)) news\<rparr>"
    using assms(4) r(1) by (simp add: work_off_queue_def)
  have "listener_phase l False (callbacks b) = Some (l \<in> set (olds @ news))" for l
  proof -
    let ?p = "l \<in> set (listeners a) \<and> l \<notin> set more"
    have "listener_phase l ?p (map (\<lambda>x. ListenerAdded x (at_session a)) news) = Some (?p \<or> l \<in> set news)"
      by (rule phase_added) (use r(2,4) in auto)
    then show ?thesis using assms(1,2) r(3) by (simp add: b told_in_order_def listener_phase_append phase_removed)
  qed
  then show "told_in_order b" "at_pc b = At_lock" using assms(1,2) r(2) by (simp_all add: b told_in_order_def)
qed

lemma end_told:
  assumes "told_in_order a" "at_pc a \<noteq> Thread_done"
  shows "told_in_order (end_thread a)"
proof -
  define c where "c = (case at_session a of None \<Rightarrow> a
     | Some s \<Rightarrow> (notify (\<lambda>l. StateChanged l s session_lost) (a\<lparr>shared_session := None\<rparr>))\<lparr>closed_sessions := closed_sessions a @ [s]\<rparr>)"
  have c: "told_in_order c" "at_pc c \<noteq> Thread_done"
  proof -
    show "told_in_order c"
    proof (cases "at_session a")
      case (Some s)
      have p: "told_in_order (a\<lparr>shared_session := None\<rparr>)" "at_pc (a\<lparr>shared_session := None\<rparr>) \<noteq> Thread_done"
        using assms by (simp_all add: told_in_order_def)
      have "told_in_order (notify (\<lambda>l. StateChanged l s session_lost) (a\<lparr>shared_session := None\<rparr>))"
        by (rule notify_told [OF p]) (simp add: phase_told)
      then show ?thesis by (simp add: c_def Some told_in_order_def)
    qed (use assms in \<open>simp add: c_def\<close>)
    show "at_pc c \<noteq> Thread_done" using assms(2) by (simp add: c_def split: option.splits)
  qed
  have "listener_phase l False (callbacks c @ map ListenerRemoved (listeners c)) = Some False" for l
    using c by (simp add: told_in_order_def listener_phase_append phase_removed)
  then show ?thesis using c(1) unfolding end_thread_def c_def [symmetric] Let_def by (simp add: told_in_order_def notify_def)
qed

lemma step_told:
  assumes "orderly_step a b" "told_in_order a"
  shows "told_in_order b"
proof -
  have st: "api_step a b" and q: "at_pc a = At_lock \<Longrightarrow> batch_ok (set (listeners a)) {} (listener_action_queue a)"
    using assms(1) by (auto simp: orderly_step_def)
  show ?thesis using st
  proof (cases rule: api_step.cases)
    case (run state flags again c)
    then show ?thesis using run_told [OF assms(2) run(2,4)] by simp
  next
    case (connect result s c)
    then show ?thesis using connect_told [OF assms(2) connect(2,4)] by simp
  next
    case (work closing c)
    note W = work_told [OF assms(2) work(2) q [OF work(2)] work(3)]
    show ?thesis
    proof (cases closing)
      case True
      then show ?thesis using work(1) end_told [OF W(1)] W(2) by simp
    next
      case False
      then show ?thesis using work(1) W by (simp add: told_in_order_def)
    qed
  qed (use assms(2) in \<open>auto simp: told_in_order_def addListener_def removeListener_def destroy_api_def\<close>)
qed

interpretation api_threads: invariant_system "\<lambda>a. a = new_api" orderly_step told_in_order
proof
  show "told_in_order a" if "a = new_api" for a using that by (simp add: told_in_order_def new_api_def)
qed (rule step_told [rotated])

section \<open>Properties\<close>

text \<open>C40: what a listener is told. Under any interleaving of the callers with the thread, while sessions come,
  change and go, every listener's calls follow the documented protocol: it is added before it is told
  anything else, not added again while it is in, told nothing behind its removal, and when the thread has
  ended it was removed. This needs that nobody is added twice and that no earlier listener is removed in
  the same round behind an addition.\<close>

theorem listener_protocol:
  assumes "orderly_step\<^sup>*\<^sup>* new_api a"
  shows "listener_phase l False (callbacks a) = Some (at_pc a \<noteq> Thread_done \<and> l \<in> set (listeners a))"
  using api_threads.reachable_inv [OF refl assms] by (simp add: told_in_order_def)

theorem listener_protocol_witness:
  "\<exists>a. orderly_step\<^sup>*\<^sup>* new_api a \<and> at_pc a = Thread_done \<and>
    callbacks a = [ListenerAdded 4 (Some 7), StateChanged 4 7 connected_control, StateChanged 4 7 session_lost, ListenerRemoved 4] \<and>
    listener_phase 4 False (callbacks a) = Some False"
proof -
  let ?r = "rtranclp orderly_step new_api"
  let ?a1 = "addListener 4 new_api"
  obtain a2 where a2: "connect_session rc_ok 7 ?a1 = Some a2" "api_step ?a1 (a2\<lparr>at_pc := At_lock\<rparr>)"
    using api_step.connect [of ?a1 rc_ok 7] by (auto simp: new_api_def addListener_def connect_session_def)
  let ?a2 = "a2\<lparr>at_pc := At_lock\<rparr>"
  have a2v: "?a2 = new_api\<lparr>at_pc := At_lock, connected := True, at_session := Some 7, prev_session_state := connected_monitor, shared_session := Some 7,
      listener_action_queue := [AddListener 4]\<rparr>"
    using a2(1) by (auto simp: new_api_def addListener_def connect_session_def notify_def)
  let ?a3 = "new_api\<lparr>connected := True, at_session := Some 7, prev_session_state := connected_monitor, shared_session := Some 7, listeners := [4],
      callbacks := [ListenerAdded 4 (Some 7)]\<rparr>"
  let ?a4 = "?a3\<lparr>at_pc := At_lock, prev_session_state := connected_control, callbacks := [ListenerAdded 4 (Some 7), StateChanged 4 7 connected_control]\<rparr>"
  let ?a5 = "destroy_api ?a4"
  have s1: "orderly_step new_api ?a1" by (simp add: orderly_step_def api_step.add new_api_def)
  have s2: "orderly_step ?a1 ?a2" using a2(2) by (simp add: orderly_step_def new_api_def addListener_def)
  have w3: "work_off_queue ?a2 = (False, ?a3\<lparr>at_pc := At_lock\<rparr>)" unfolding a2v by (simp add: work_off_queue_def process_queue_def new_api_def)
  have s3: "orderly_step ?a2 ?a3"
    using api_step.work [OF _ w3] unfolding a2v by (simp add: orderly_step_def new_api_def)
  have r4: "run_session connected_control 0 ?a3 = Some (False, ?a4\<lparr>at_pc := At_top\<rparr>)" by (simp add: run_session_def new_api_def notify_def Let_def)
  have s4: "orderly_step ?a3 ?a4" using api_step.run [OF _ _ r4] by (simp add: orderly_step_def new_api_def)
  have s5: "orderly_step ?a4 ?a5" by (simp add: orderly_step_def api_step.destroy new_api_def)
  have w6: "work_off_queue ?a5 = (True, ?a5)" by (simp add: work_off_queue_def process_queue_def new_api_def destroy_api_def)
  have s6: "orderly_step ?a5 (end_thread ?a5)" using api_step.work [OF _ w6] by (simp add: orderly_step_def new_api_def destroy_api_def)
  have r: "orderly_step\<^sup>*\<^sup>* new_api (end_thread ?a5)"
    using s1 s2 s3 s4 s5 s6 by (meson converse_rtranclp_into_rtranclp rtranclp.rtrancl_refl)
  have e: "at_pc (end_thread ?a5) = Thread_done" by (simp add: end_thread_def Let_def)
  have c: "callbacks (end_thread ?a5) = [ListenerAdded 4 (Some 7), StateChanged 4 7 connected_control, StateChanged 4 7 session_lost, ListenerRemoved 4]"
    by (simp add: end_thread_def destroy_api_def new_api_def notify_def Let_def)
  show ?thesis using r e c listener_protocol [OF r, of 4] by auto
qed

text \<open>The case that is excluded above: the listener 2 is added and then 1 removed in one round. \<^verbatim>\<open>std::remove\<close>
  gives the end of what stays, not the place of the removed listener, so the index is not corrected: 2 is
  never told that it was added, and then told of a session.\<close>

lemma added_listener_missed:
  "work_off_queue (new_api\<lparr>listeners := [1], listener_action_queue := [AddListener 2, RemoveListener 1]\<rparr>) =
    (False, new_api\<lparr>listeners := [2], callbacks := [ListenerRemoved 1]\<rparr>) \<and>
   map_option callbacks (connect_session rc_ok 7 (new_api\<lparr>listeners := [2], callbacks := [ListenerRemoved 1]\<rparr>)) =
    Some [ListenerRemoved 1, StateChanged 2 7 connected_monitor] \<and>
   listener_phase 2 False [ListenerRemoved 1, StateChanged 2 7 connected_monitor] = None"
  by (simp add: work_off_queue_def process_queue_def std_remove_def new_api_def connect_session_def notify_def Let_def)

end
