(* ===== verification/Spec2Isabelle.thy ===== *)
theory Spec2Isabelle
  imports Bson_Properties Sha512_Spec Sha512_Constants Gcm_Properties Curve_Properties Telemetry_Properties Secure_Session Event_Queue Session_Properties Session_State Session_Commands Shm_Properties Ffb_Properties Variable_Properties Api_Properties Api_Thread_Properties
begin

text \<open>
  The Simucube API client library (src/core): a program on the same computer as the Simucube backend
  reads what devices, variables, telemetry and simulations the backend offers, registers for control and
  sends commands, telemetry and force feedback. Paths below are relative to src/core, header files to
  inc/sc-api/core.

  \<^bold>\<open>The program.\<close> \<^verbatim>\<open>Api\<close> (src/api.cpp) runs a thread that opens a session through \<^verbatim>\<open>ApiCore\<close> (src/api_core.cpp):
  a core block of shared memory names the session's block, which names the blocks with data. A \<^verbatim>\<open>Session\<close>
  (src/session.cpp) has a TCP connection for commands, BSON documents in both directions, and a UDP socket
  for actions. Registering (\<^verbatim>\<open>registerToControl\<close>) makes a monitoring session a controlling one, optionally with
  a key agreed on by X25519, derived by SHA-512 and used for AES-GCM (src/security_impl.cpp, src/crypto,
  src/libeddsa). Device information and simulation data are BSON documents in shared memory, guarded by a
  revision counter and parsed into objects; variables and telemetry definitions are tables in shared memory.
  State changes reach the application as events of a queue.

  \<^bold>\<open>Conventions.\<close> A class is a record, a method a function on it with the new record in its result. \<^term>\<open>None\<close>
  as the outer result is undefined behaviour of the source (an access outside a buffer, a null pointer) or a
  failed assertion. The reader is the exception: its \<^verbatim>\<open>assert(false)\<close> depends on data of the peer, so
  \<open>bson_next\<close> is the build without assertions, where lengths that overflow wrap around, and \<open>bson_next_strict\<close>
  the build with them, where overflow stops as well; C1, C2 and C25 relate the two. Errors that the source
  reports are values (\<open>ResultCode\<close>, a flag, an inner option), and exceptions an outcome of their own. Machine
  integers are words, or \<open>int\<close> with the conversions \<open>u8 ... i64\<close> written out where the source narrows. A loop
  is structural recursion or \<open>partial_function\<close> with a proof that it ends. What runs under a lock is one step
  (the two writes to an event queue that take no lock happen before the queue is handed to other threads);
  a function that waits is split at its wait, and the steps of all threads interleave in an inductive step
  relation. A shared memory block is a function of time; each read, down to the byte in copies that may race,
  takes a unit of it, so the theorems hold for whatever the other process writes in between.

  \<^bold>\<open>Theories, the code they model, and what they show.\<close>
  \<^item> \<open>SC_Prelude\<close>: bytes, little-endian integers, checked memory access, conversions; the locales
    \<open>invariant_system\<close> (what holds initially and is kept by every step holds in all reachable states) and
    \<open>incremental\<close> (processing a message in pieces), interpreted below. \<open>Octets\<close>: words as sequences of octets.
  \<^item> \<open>Bson_Format\<close>: abstract documents and their encoding. \<open>Bson_Reader\<close>, \<open>Bson_Numeric\<close> (src/util/bson_reader.cpp);
    \<open>Bson_Reader_Safety\<close>: no operation leaves the buffer, every loop ends; \<open>Bson_Reader_Spec\<close>, \<open>Bson_Cursor\<close>: the
    cursor on a well-formed document, and the contract of a loop over elements (locale \<open>element_loop\<close>)
    that the parsers of the library interpret. \<open>Bson_Builder\<close> (src/util/bson_builder.cpp), \<open>Bson_Builder_Spec\<close>: the
    builder refines the construction of a document. \<open>Bson_Properties\<close>: the properties, with the round trip.
  \<^item> \<open>Event_Queue\<close> (util/event_queue.h): FIFO order under interleaving, closing, liveness of \<^verbatim>\<open>pop\<close>.
  \<^item> \<open>Value_Type\<close> (type.h, src/type.cpp): types of values, sizes, texts.
  \<^item> \<open>Action_Builder\<close>, \<open>Action_Properties\<close> (src/action.cpp): datagrams of actions; bounds and round trip.
  \<^item> \<open>Telemetry\<close>, \<open>Telemetry_Properties\<close> (src/telemetry.cpp, src/telemetry_internal.h, telemetry.h): update groups,
    their configuration and layout, definitions in shared memory.
  \<^item> \<open>Commands\<close> (src/command.cpp, session_fwd.h), \<open>Session_Packets\<close>, \<open>Session_Send\<close>, \<open>Session_Register\<close>, \<open>Session_State\<close>,
    \<open>Session_Commands\<close> (src/session.cpp, src/command_parsing.cpp, src/api_internal.h): requests, reception, the
    queue of writes, the handshake, the state machine with keep-alive and timers, blocking commands;
    \<open>Packet_Properties\<close>, \<open>Session_Properties\<close>: each response reaches exactly its handler however the stream is cut,
    safety on hostile bytes, the handshake end to end.
  \<^item> \<open>Shm_Provider\<close>, \<open>Shm_Properties\<close> (src/shm_bson_data_provider.cpp, src/compatibility.h): a published buffer is
    a document the block held at one moment.
  \<^item> \<open>Device_Enums\<close>, \<open>Device_Info\<close>, \<open>Device_Properties\<close> (device_info_definitions.h, src/device_info.cpp) and
    \<open>Sim_Data\<close>, \<open>Sim_Properties\<close>, \<open>Sim_Update\<close> (src/sim_data.cpp, src/sim_data_builder.cpp): the parsers compute
    what the abstract document describes (\<open>described_devices\<close>, \<open>sim_of\<close>); updates are built as documented.
  \<^item> \<open>Variables\<close>, \<open>Variable_Properties\<close> (src/variables.cpp, src/variables_internal.h, variables.h): the copies are the
    published definitions, in order, searchable and inside the block.
  \<^item> \<open>Ffb\<close>, \<open>Ffb_Properties\<close> (src/ffb.cpp, ffb.h): pipelines, and effects from the samples to the decrypting receiver.
  \<^item> \<open>Api_Core\<close>, \<open>Api_Properties\<close> (src/api_core.cpp, protocol/core.h): what an open session rests on. \<open>Api_Thread\<close>,
    \<open>Api_Thread_Properties\<close> (src/api.cpp): the background thread and what listeners are told.
  \<^item> \<open>Secure_Session\<close> (src/security_impl.cpp): key exchange, key derivation, encryption.
    \<open>Sha512\<close>, \<open>Sha512_Spec\<close> (src/libeddsa/src/sha512.c): FIPS 180-4, its constants checked in \<open>Sha512_Constants\<close>. \<open>Aes\<close>, \<open>Aes_Spec\<close> (src/crypto/aes.c): FIPS 197.
    \<open>Gcm\<close>, \<open>Gcm_Spec\<close>, \<open>Gcm_Properties\<close> (src/crypto/gcm.c): NIST SP 800-38D. \<open>Fld\<close>, \<open>Fld_Spec\<close>, \<open>Fld_Mul\<close>, \<open>Fld_Codec\<close>
    (src/libeddsa/src/fld.c) and \<open>X25519\<close>, \<open>X25519_Spec\<close>, \<open>Curve_Properties\<close> (src/libeddsa/src/x25519.c): arithmetic
    modulo 2^255 - 19 without overflow, and X25519 of RFC 7748 but for the top bit of the u-coordinate.

  \<^bold>\<open>Bounds of the code that the theorems mention.\<close> Sixteen nested documents in the reader and sixty-four in the
  builder; three tries of \<^verbatim>\<open>update\<close> on shared memory; the receive buffer of 64 KiB; 32 chunks of 1024 variable
  definitions; 100000 tries of an atomic copy; eight public keys. Sizes of requests are assumed to stay below
  2^30, so that the builder's \<^verbatim>\<open>int32_t\<close> offsets do not overflow. Where the code is wrong on some input (the
  lemmas behind the properties show it), the property excludes it by a hypothesis of its own: in arrays
  booleans and more than 100 elements (\<open>op_intact\<close>), more than 32 booleans of telemetry, data in front of a
  device's unique id (\<open>uid_first\<close>), reads that fill more than half of the receive buffer, the padding of samples
  (\<open>padded_readable\<close>), the wrong bound of variable values, a null secure session. Bounded retries are structural recursions on
  their number; no theorem depends on fuel that the code does not have, except the number of rounds that the
  clock allows in \<^verbatim>\<open>openSession\<close>, which is any number.

  \<^bold>\<open>What is a parameter.\<close> The growth of \<^verbatim>\<open>std::vector\<close> (at least what is asked for), the old contents of
  uninitialized memory, the order of equal elements in \<^verbatim>\<open>std::sort\<close>, clocks, the random source, what sockets
  and timers of asio report, the contents of shared memory over time, what opening a block gives, and what a
  callback of the application does to the table of handlers, and the verification of an Ed25519
  signature.

  \<^bold>\<open>Not modelled.\<close> src/crypto/ecdh.c is compiled but called from nowhere. Of libeddsa: Ed25519 (ed.c, sc.c, ed25519-sha512.c), \<^verbatim>\<open>x25519_base\<close>, which rests on it, and the 64-bit
  variant of the field (the one of Windows is modelled). src/init.cpp is not part of the
  build. Mapping shared memory (src/compatibility.cpp) and time conversion (src/time.cpp) are calls to the
  operating system. sim_data/*.h, variable_references.h and telemetry_references.h are constants that name
  keys. The examples are console programs.
\<close>

end
